(* ===== verification/Prelude.thy ===== *)
theory Prelude
  imports Complex_Main "HOL-Library.AList" "HOL-Library.Multiset"
begin

text \<open>
  Shared vocabulary of the development: clock readings, the exceptions of the program as values,
  SQL tables as lists of rows, Python dictionaries as association lists in insertion order, and
  the string operations of the standard library that the program uses (ASCII case folding and
  stripping). Generic lemmas on them are collected here and declared to the simplifier or to the
  collections \<open>tbl\<close> and \<open>row\<close>.
\<close>

named_theorems tbl \<open>how the SQL table operations act on membership, keys and counts\<close>
named_theorems row \<open>unfolding rules of the row predicates of the stores\<close>

section \<open>Values\<close>

text \<open>
  \<open>time.time()\<close> returns a float; the model uses rationals, so rounding is not modelled. One
  operation may read the clock several times: \<open>c n\<close> is its \<open>n\<close>-th reading.
  \<open>clock_in c t0 t1\<close>: the readings do not go back and lie between the positive times
  \<open>t0\<close> and \<open>t1\<close>.
\<close>

type_synonym time = rat
type_synonym clock = "nat \<Rightarrow> time"

definition clock_in :: "clock \<Rightarrow> time \<Rightarrow> time \<Rightarrow> bool" where
  "clock_in c t0 t1 \<longleftrightarrow> 0 < t0 \<and> mono c \<and> t0 \<le> c 0 \<and> (\<forall>n. c n \<le> t1)"

lemma clock_inD:
  assumes "clock_in c t0 t1"
  shows "t0 \<le> c n" "c n \<le> t1" "m \<le> n \<Longrightarrow> c m \<le> c n" "t0 \<le> t1" "0 < c n" "0 < t0"
proof -
  have "c 0 \<le> c n" using assms by (auto simp: clock_in_def mono_def)
  then show "t0 \<le> c n" using assms by (auto simp: clock_in_def)
  show "c n \<le> t1" "m \<le> n \<Longrightarrow> c m \<le> c n" using assms by (auto simp: clock_in_def mono_def)
  show "t0 \<le> t1" using assms by (auto simp: clock_in_def intro: order_trans)
  show "0 < t0" using assms by (simp add: clock_in_def)
  then show "0 < c n" using \<open>t0 \<le> c n\<close> by simp
qed

lemma clock_in_const [simp]: "clock_in (\<lambda>_. t) t0 t1 \<longleftrightarrow> 0 < t0 \<and> t0 \<le> t \<and> t \<le> t1"
  by (auto simp: clock_in_def mono_def)

text \<open>JSON values, for the payloads that the components carry without looking inside.\<close>

datatype json =
    JNull
  | JBool bool
  | JInt int
  | JNum rat
  | JStr string
  | JArr "json list"
  | JObj "(string \<times> json) list"

text \<open>
  The exceptions the modelled code raises, by class. The message texts are not modelled.
  \<open>IntegrityError\<close> is the one SQLite raises on a duplicate primary key.
\<close>

datatype py_error =
    ValueError
  | KeyError
  | TypeError
  | RuntimeError
  | TimeoutError
  | IntegrityError
  | ResourceBudgetError
  | ResourceSubgrantError
  | SharedBudgetExceeded
  | SharedBudgetFenceError
  | SharedBudgetConfigurationError
  | TaskTransportError
  | TaskLeaseError
  | EvaluationEvidenceConflict
  | EvaluationEvidenceRevisionConflict
  | ProjectConfigurationError
  | CancellationRequested
  | CaseDeadlineExceeded
  | AttributeError
  | NotImplementedError
  | FileNotFoundError
  | PipelineCancellationError
  | PipelineParallelError
  | PipelineLateWriteRejected
  | CancelledError
  | UserError string

type_synonym 'a result = "py_error + 'a"

abbreviation ok :: "'a result \<Rightarrow> bool" where
  "ok r \<equiv> (\<exists>x. r = Inr x)"

section \<open>Strings\<close>

definition lower_char :: "char \<Rightarrow> char" where
  "lower_char ch = (let n = (of_char ch :: nat) in if 65 \<le> n \<and> n \<le> 90 then char_of (n + 32) else ch)"

definition py_lower :: "string \<Rightarrow> string" where
  "py_lower s = map lower_char s"

definition is_space :: "char \<Rightarrow> bool" where
  "is_space ch \<longleftrightarrow> (let n = (of_char ch :: nat) in n = 32 \<or> (9 \<le> n \<and> n \<le> 13) \<or> (28 \<le> n \<and> n \<le> 31))"

definition py_strip :: "string \<Rightarrow> string" where
  "py_strip s = rev (dropWhile is_space (rev (dropWhile is_space s)))"

definition starts_with :: "string \<Rightarrow> string \<Rightarrow> bool" where
  "starts_with p s \<longleftrightarrow> take (length p) s = p"

fun contains :: "string \<Rightarrow> string \<Rightarrow> bool" where
  "contains p [] \<longleftrightarrow> p = []"
| "contains p (x # xs) \<longleftrightarrow> starts_with p (x # xs) \<or> contains p xs"

text \<open>Decimal rendering of a natural number, as \<open>str\<close> and f-strings do it.\<close>

fun nat_string :: "nat \<Rightarrow> string" where
  "nat_string n = (if n < 10 then [char_of (48 + n)] else nat_string (n div 10) @ [char_of (48 + n mod 10)])"

declare nat_string.simps [simp del]

text \<open>\<open>str(x or default)\<close> on strings.\<close>

definition or_default :: "string \<Rightarrow> string \<Rightarrow> string" where
  "or_default s d = (if s = [] then d else s)"

lemma or_default_nonempty [simp]: "s \<noteq> [] \<Longrightarrow> or_default s d = s"
  by (simp add: or_default_def)

lemma py_strip_idem [simp]: "py_strip (py_strip s) = py_strip s"
proof (cases "dropWhile is_space s")
  case Nil
  then have "py_strip s = []" by (simp add: py_strip_def del: dropWhile_eq_Nil_conv)
  moreover have "py_strip [] = []" by (simp add: py_strip_def)
  ultimately show ?thesis by simp
next
  case (Cons a xs)
  then have a: "\<not> is_space a"
    by (metis hd_dropWhile list.distinct(1) list.sel(1))
  have "dropWhile is_space (rev xs @ [a]) = dropWhile is_space (rev xs) @ [a]"
    using a by (metis dropWhile_append1 dropWhile_append3 dropWhile_eq_Nil_conv dropWhile_last
        in_set_conv_decomp append_Nil)
  then obtain ys where ys: "rev (dropWhile is_space (rev (a # xs))) = a # ys"
    by simp
  have "dropWhile is_space (a # ys) = a # ys" using a by simp
  moreover have "dropWhile is_space (dropWhile is_space (rev (a # xs)))
      = dropWhile is_space (rev (a # xs))"
    by (simp add: dropWhile_idem)
  ultimately show ?thesis
    using Cons ys by (simp add: py_strip_def) (metis dropWhile_idem)
qed

section \<open>SQL tables\<close>

text \<open>
  A table is its list of rows in insertion order. \<open>UPDATE ... WHERE P\<close> maps over the rows,
  its \<open>rowcount\<close> is the number of rows that satisfied \<open>P\<close>, \<open>SELECT ... WHERE P\<close>
  filters them, \<open>fetchone\<close> on a primary key finds the first.
\<close>

definition tbl_update :: "('r \<Rightarrow> bool) \<Rightarrow> ('r \<Rightarrow> 'r) \<Rightarrow> 'r list \<Rightarrow> 'r list" where
  "tbl_update P f rows = map (\<lambda>r. if P r then f r else r) rows"

definition tbl_count :: "('r \<Rightarrow> bool) \<Rightarrow> 'r list \<Rightarrow> nat" where
  "tbl_count P rows = length (filter P rows)"

lemma tbl_update_Nil [simp]: "tbl_update P f [] = []"
  by (simp add: tbl_update_def)

lemma tbl_update_Cons [simp]:
  "tbl_update P f (r # rows) = (if P r then f r else r) # tbl_update P f rows"
  by (simp add: tbl_update_def)

lemma tbl_count_Nil [simp]: "tbl_count P [] = 0"
  by (simp add: tbl_count_def)

lemma tbl_count_Cons [simp]:
  "tbl_count P (r # rows) = (if P r then Suc (tbl_count P rows) else tbl_count P rows)"
  by (simp add: tbl_count_def)

lemma set_tbl_update [tbl]:
  "set (tbl_update P f rows) = (\<lambda>r. if P r then f r else r) ` set rows"
  by (simp add: tbl_update_def)

lemma map_tbl_update_same [tbl]:
  "(\<And>r. P r \<Longrightarrow> g (f r) = g r) \<Longrightarrow> map g (tbl_update P f rows) = map g rows"
  by (simp add: tbl_update_def)

lemma length_tbl_update [simp]: "length (tbl_update P f rows) = length rows"
  by (simp add: tbl_update_def)

lemma tbl_update_none: "\<forall>r\<in>set rows. \<not> P r \<Longrightarrow> tbl_update P f rows = rows"
  by (induction rows) auto

lemma tbl_count_pos: "0 < tbl_count P rows \<longleftrightarrow> (\<exists>r\<in>set rows. P r)"
  by (auto simp: tbl_count_def filter_empty_conv)

lemma tbl_count_zero: "tbl_count P rows = 0 \<longleftrightarrow> (\<forall>r\<in>set rows. \<not> P r)"
  by (auto simp: tbl_count_def filter_empty_conv)

text \<open>On a key column without duplicates a row predicate that fixes the key holds at most once.\<close>

lemma tbl_count_key:
  assumes "distinct (map key rows)" "\<And>r. P r \<Longrightarrow> key r = k"
  shows "tbl_count P rows = (if \<exists>r\<in>set rows. P r then 1 else 0)"
  using assms(1)
proof (induction rows)
  case Nil
  then show ?case by simp
next
  case (Cons r rows)
  have "P r \<Longrightarrow> \<forall>x\<in>set rows. \<not> P x"
    using Cons.prems assms(2) by (metis distinct.simps(2) image_eqI list.set_map list.simps(9))
  with Cons show ?case by (auto simp: tbl_count_zero)
qed

lemma distinct_key_inj:
  "distinct (map key rows) \<Longrightarrow> r \<in> set rows \<Longrightarrow> r' \<in> set rows \<Longrightarrow> key r = key r' \<Longrightarrow> r = r'"
  by (auto simp: distinct_map dest: inj_onD)

lemma find_Some_iff_key:
  assumes "distinct (map key rows)"
  shows "find (\<lambda>r. key r = k) rows = Some r \<longleftrightarrow> r \<in> set rows \<and> key r = k"
  using assms by (induction rows) (auto simp: rev_image_eqI)

lemma find_SomeD: "find P xs = Some x \<Longrightarrow> x \<in> set xs \<and> P x"
  by (induction xs) (auto split: if_splits)

lemma find_None_iff': "find P xs = None \<longleftrightarrow> (\<forall>x\<in>set xs. \<not> P x)"
  by (induction xs) auto

section \<open>Sums over lists\<close>

lemma sum_list_nonneg_subseq:
  fixes f :: "'a \<Rightarrow> 'b::linordered_idom"
  assumes "\<And>x. 0 \<le> f x" "mset xs \<subseteq># mset ys"
  shows "sum_list (map f xs) \<le> sum_list (map f ys)"
proof -
  from assms(2) obtain zs where "mset ys = mset xs + mset zs"
    by (metis ex_mset subset_mset.add_diff_inverse)
  then have "sum_mset (image_mset f (mset ys)) = sum_mset (image_mset f (mset xs)) + sum_mset (image_mset f (mset zs))"
    by simp
  moreover have "0 \<le> sum_list (map f zs)"
    using assms(1) by (intro sum_list_nonneg) auto
  moreover have "\<And>ls. sum_mset (image_mset f (mset ls)) = sum_list (map f ls)"
    by (metis mset_map sum_mset_sum_list)
  ultimately show ?thesis by simp
qed

lemma sum_list_mset_eq:
  fixes f :: "'a \<Rightarrow> 'b::comm_monoid_add"
  shows "mset xs = mset ys \<Longrightarrow> sum_list (map f xs) = sum_list (map f ys)"
  by (metis mset_map sum_mset_sum_list)

section \<open>Python dictionaries\<close>

text \<open>
  A dictionary keeps insertion order; assigning to a present key keeps its position. This is
  \<open>AList.update\<close>. Keys are unique.
\<close>

lemma map_of_AList_update [simp]:
  "map_of (AList.update k v d) k' = (if k' = k then Some v else map_of d k')"
  by (simp add: update_conv')

lemma set_AList_update_subset: "set (AList.update k v d) \<subseteq> insert (k, v) (set d)"
  by (induction d) auto

lemma set_AList_update:
  "distinct (map fst d) \<Longrightarrow> set (AList.update k v d) = insert (k, v) {p \<in> set d. fst p \<noteq> k}"
  by (induction d) (auto simp: rev_image_eqI)

lemma map_filter_lookup:
  "distinct (map fst d) \<Longrightarrow> distinct ids \<Longrightarrow> set ids = fst ` set d \<Longrightarrow>
   mset (List.map_filter (map_of d) ids) = mset (map snd d)"
proof -
  assume a: "distinct (map fst d)" "distinct ids" "set ids = fst ` set d"
  have "List.map_filter (map_of d) ids = map (the \<circ> map_of d) ids"
    using a(3) by (auto simp: List.map_filter_def map_of_eq_None_iff intro!: filter_True[THEN arg_cong])
  moreover have "mset ids = mset (map fst d)"
    using set_eq_iff_mset_eq_distinct[OF a(2,1)] a(3) by simp
  moreover have "map (the \<circ> map_of d) (map fst d) = map snd d"
    using a(1) by (auto simp: map_eq_conv)
  ultimately show ?thesis by (metis mset_map)
qed

text \<open>Overwriting present keys one after the other rewrites the entries in place.\<close>

lemma update_new: "k \<notin> fst ` set d \<Longrightarrow> AList.update k v d = d @ [(k, v)]"
  by (induction d) auto

lemma update_present:
  "distinct (map fst d) \<Longrightarrow> k \<in> fst ` set d \<Longrightarrow>
   AList.update k v d = map (\<lambda>(i, l). if i = k then (i, v) else (i, l)) d"
proof (induction d)
  case (Cons p d)
  show ?case
  proof (cases "fst p = k")
    case True
    with Cons.prems have "map (\<lambda>(i, l). if i = k then (i, v) else (i, l)) d = d"
      by (intro map_idI) (auto simp: rev_image_eqI)
    with True show ?thesis by (cases p) simp
  qed (use Cons in \<open>cases p, auto\<close>)
qed simp

lemma fold_update_present:
  assumes "distinct (map fst d)" "distinct (map key ls)" "key ` set ls \<subseteq> fst ` set d"
  shows "fold (\<lambda>l d. AList.update (key l) l d) ls d
    = map (\<lambda>(i, l). (i, case find (\<lambda>x. key x = i) ls of None \<Rightarrow> l | Some x \<Rightarrow> x)) d"
  using assms
proof (induction ls arbitrary: d)
  case (Cons x ls)
  let ?d = "map (\<lambda>(i, l). if i = key x then (i, x) else (i, l)) d"
  have keys: "map fst ?d = map fst d" by (auto intro!: map_cong)
  have none: "find (\<lambda>y. key y = key x) ls = None"
    unfolding find_None_iff' using Cons.prems(2) by (simp, metis image_eqI)
  have "fold (\<lambda>l d. AList.update (key l) l d) (x # ls) d
      = fold (\<lambda>l d. AList.update (key l) l d) ls ?d"
    using update_present[OF Cons.prems(1), of "key x" x] Cons.prems(3) by simp
  also have "\<dots> = map (\<lambda>(i, l). (i, case find (\<lambda>y. key y = i) ls of None \<Rightarrow> l | Some y \<Rightarrow> y)) ?d"
  proof (rule Cons.IH)
    show "distinct (map fst ?d)" unfolding keys by (rule Cons.prems(1))
    show "distinct (map key ls)" using Cons.prems(2) by simp
    have "fst ` set ?d = fst ` set d" using keys by (metis list.set_map)
    then show "key ` set ls \<subseteq> fst ` set ?d" using Cons.prems(3) by simp
  qed
  also have "\<dots> = map (\<lambda>(i, l). (i, case find (\<lambda>y. key y = i) (x # ls) of None \<Rightarrow> l | Some y \<Rightarrow> y)) d"
    using none by (auto split: option.splits)
  finally show ?case .
qed (auto simp: map_idI)

text \<open>The selected values of a keyed dictionary written back, changed by \<open>f\<close>, in any order.\<close>

lemma fold_update_selected:
  assumes d: "distinct (map fst d)" and k: "\<And>i r. (i, r) \<in> set d \<Longrightarrow> key r = i" and f: "\<And>r. key (f r) = key r"
    and xs: "mset xs = mset (filter P (map snd d))"
  shows "fold (\<lambda>r d. AList.update (key r) r d) (map f xs) d = map (\<lambda>(i, r). (i, if P r then f r else r)) d"
proof -
  have keys: "map key (map snd d) = map fst d" using k by auto
  then have "distinct (map key (filter P (map snd d)))" using d by (metis distinct_map_filter)
  then have dist: "distinct (map key xs)" using xs by (metis mset_eq_imp_distinct_iff mset_map)
  have set_xs: "set xs = {r \<in> snd ` set d. P r}" using mset_eq_setD[OF xs] by auto
  have "(case find (\<lambda>x. key x = i) (map f xs) of None \<Rightarrow> r | Some x \<Rightarrow> x) = (if P r then f r else r)" if r: "(i, r) \<in> set d" for i r
  proof (cases "P r")
    case True
    then have "find (\<lambda>x. key x = i) (map f xs) = Some (f r)"
      using dist k[OF r] r set_xs by (subst find_Some_iff_key) (auto simp: comp_def f intro: rev_image_eqI)
    then show ?thesis using True by simp
  next
    case False
    have "key x \<noteq> i" if x: "x \<in> set xs" for x
    proof -
      obtain j where j: "(j, x) \<in> set d" "P x" using x set_xs by auto
      then show ?thesis using k[OF j(1)] distinct_key_inj[OF d j(1) r] False by auto
    qed
    then have "find (\<lambda>x. key x = i) (map f xs) = None" by (auto simp: find_None_iff' f)
    then show ?thesis using False by simp
  qed
  moreover have "key ` set (map f xs) \<subseteq> fst ` set d"
    using set_xs k by (force simp: f)
  ultimately show ?thesis
    using fold_update_present[where key = key and ls = "map f xs", OF d] dist by (auto simp: comp_def f intro!: map_cong)
qed

section \<open>Redis sets\<close>

text \<open>A Redis set is the list of its members without duplicates; \<open>SADD\<close> adds a new one.\<close>

definition sadd :: "'a \<Rightarrow> 'a list \<Rightarrow> 'a list" where
  "sadd x xs = (if x \<in> set xs then xs else xs @ [x])"

lemma set_sadd [simp]: "set (sadd x xs) = insert x (set xs)"
  by (auto simp: sadd_def)

lemma distinct_sadd [simp]: "distinct (sadd x xs) \<longleftrightarrow> distinct xs"
  by (auto simp: sadd_def)

end
