(* ===== verification/Resource_Model.thy ===== *)
theory Resource_Model
  imports Prelude
begin

text \<open>
  The protocol objects of \<open>resources/model.py\<close>: offers, requirements, requests, policies,
  workers and leases, with the normalisation of each \<open>__post_init__\<close>, the capability check
  \<open>can_run\<close> and the conversion of a request into the \<open>resources\<close> mapping of a lease.
  Mappings whose keys the code reads (\<open>offer.metadata\<close>, \<open>lease.resources\<close>) are records with
  one optional field per key read; \<open>None\<close> is an absent key or a JSON null. Other payloads are
  \<open>json\<close>.
\<close>

section \<open>Devices\<close>

definition as_float_or_none :: "rat option \<Rightarrow> rat option" where
  "as_float_or_none v = (case v of None \<Rightarrow> None | Some x \<Rightarrow> if x \<le> 0 then None else Some x)"

definition device_family :: "string \<Rightarrow> string" where
  "device_family value = (let n = py_lower (py_strip value) in
     if starts_with ''cuda'' n \<or> starts_with ''gpu'' n \<or> contains ''gpu'' n then ''gpu''
     else if starts_with ''mps'' n then ''mps''
     else if starts_with ''cpu'' n then ''cpu'' else n)"

definition is_accelerator_token :: "string \<Rightarrow> bool" where
  "is_accelerator_token value \<longleftrightarrow> device_family value \<in> {''gpu'', ''mps''}"

definition accelerator_count :: "string list \<Rightarrow> int" where
  "accelerator_count tokens = int (length (filter is_accelerator_token tokens))"

section \<open>Offers, requirements, requests, policies\<close>

record offer =
  offer_threads :: int
  offer_gpus :: int
  offer_backend :: string
  offer_device_tokens :: "string list"
  offer_memory_mb :: "rat option"
  offer_gpu_memory_mb :: "rat option"
  offer_gpu_memory_by_device :: "(string \<times> rat) list"
  offer_device_bindings :: "(string \<times> string) list"

definition offer_post_init :: "offer \<Rightarrow> offer" where
  "offer_post_init o1 = o1\<lparr>
     offer_threads := max 1 (offer_threads o1),
     offer_gpus := max 0 (max (offer_gpus o1) (accelerator_count (offer_device_tokens o1))),
     offer_backend := or_default (offer_backend o1) ''local''\<rparr>"

record requirement =
  need_threads :: int
  need_gpus :: int
  need_backend :: string
  need_device_tokens :: "string list"
  need_memory_mb :: "rat option"
  need_gpu_memory_mb :: "rat option"
  need_capabilities :: "string list"
  need_timeout_seconds :: "rat option"
  need_metadata :: json

definition requirement_post_init :: "requirement \<Rightarrow> requirement" where
  "requirement_post_init r = r\<lparr>
     need_threads := max 1 (need_threads r),
     need_gpus := max 0 (max (need_gpus r) (accelerator_count (need_device_tokens r))),
     need_backend := or_default (need_backend r) ''local'',
     need_memory_mb := as_float_or_none (need_memory_mb r),
     need_gpu_memory_mb := as_float_or_none (need_gpu_memory_mb r),
     need_capabilities := filter (\<lambda>x. x \<noteq> []) (need_capabilities r),
     need_timeout_seconds := as_float_or_none (need_timeout_seconds r)\<rparr>"

record request =
  workers :: int
  threads :: int
  gpus :: int
  memory_mb :: "rat option"
  gpu_memory_mb :: "rat option"
  backend :: string
  compute_backend :: string
  device :: string
  device_tokens :: "string list"
  capabilities :: "string list"
  request_metadata :: json

text \<open>The constructor's argument \<open>threads\<close> may be \<open>None\<close>; the workers are then used.\<close>

definition request_post_init :: "int option \<Rightarrow> request \<Rightarrow> request" where
  "request_post_init thr r = (let w = max 1 (if workers r = 0 then 1 else workers r) in r\<lparr>
     workers := w,
     threads := (case thr of None \<Rightarrow> w | Some t \<Rightarrow> max 1 (if t = 0 then 1 else t)),
     gpus := max 0 (max (gpus r) (accelerator_count (device_tokens r))),
     memory_mb := as_float_or_none (memory_mb r),
     gpu_memory_mb := as_float_or_none (gpu_memory_mb r),
     backend := or_default (backend r) ''local'',
     compute_backend := or_default (compute_backend r) ''auto'',
     device := or_default (device r) ''cpu'',
     capabilities := filter (\<lambda>x. x \<noteq> []) (capabilities r)\<rparr>)"

definition request_requirement :: "request \<Rightarrow> requirement" where
  "request_requirement r = requirement_post_init
     \<lparr>need_threads = threads r, need_gpus = gpus r, need_backend = backend r,
      need_device_tokens = device_tokens r, need_memory_mb = memory_mb r,
      need_gpu_memory_mb = gpu_memory_mb r, need_capabilities = capabilities r,
      need_timeout_seconds = None, need_metadata = request_metadata r\<rparr>"

definition to_resource_request :: "requirement \<Rightarrow> request" where
  "to_resource_request q = request_post_init (Some (need_threads q))
     \<lparr>workers = 1, threads = need_threads q, gpus = need_gpus q,
      memory_mb = need_memory_mb q, gpu_memory_mb = need_gpu_memory_mb q,
      backend = need_backend q, compute_backend = ''auto'', device = ''cpu'',
      device_tokens = need_device_tokens q, capabilities = need_capabilities q,
      request_metadata = need_metadata q\<rparr>"

definition satisfies :: "requirement \<Rightarrow> offer \<Rightarrow> bool" where
  "satisfies q o1 \<longleftrightarrow>
     (if need_threads q > offer_threads o1 then False
      else if need_gpus q > offer_gpus o1 then False
      else if need_device_tokens q \<noteq> [] \<and> \<not> set (need_device_tokens q) \<subseteq> set (offer_device_tokens o1)
        then False
      else (case need_memory_mb q of None \<Rightarrow> True
            | Some m \<Rightarrow> (case offer_memory_mb o1 of None \<Rightarrow> True | Some avail \<Rightarrow> \<not> m > avail)))"

record policy =
  max_workers :: int
  max_threads :: int
  max_memory_mb :: "rat option"
  max_gpus :: "int option"
  policy_mode :: string
  gpu_sharing :: string
  cpu_oversubscribe :: bool

definition policy_post_init :: "int option \<Rightarrow> policy \<Rightarrow> policy" where
  "policy_post_init thr p = (let w = max 1 (if max_workers p = 0 then 1 else max_workers p) in p\<lparr>
     max_workers := w,
     max_threads := (case thr of None \<Rightarrow> w | Some t \<Rightarrow> max 1 (if t = 0 then 1 else t)),
     max_memory_mb := as_float_or_none (max_memory_mb p),
     max_gpus := map_option (max 0) (max_gpus p),
     policy_mode := or_default (policy_mode p) ''strict'',
     gpu_sharing := or_default (gpu_sharing p) ''exclusive''\<rparr>)"

section \<open>Workers\<close>

record worker =
  worker_id :: string
  executor_backend :: string
  worker_resource_backend :: string
  worker_host :: string
  worker_capabilities :: "string list"
  worker_offer :: offer
  max_inflight :: int
  worker_status :: string
  last_heartbeat_at :: time
  worker_metadata :: json

text \<open>\<open>socket.gethostname()\<close> and a fresh uuid are arguments.\<close>

definition worker_post_init :: "string \<Rightarrow> string \<Rightarrow> time \<Rightarrow> worker \<Rightarrow> worker" where
  "worker_post_init hostname fresh now w = w\<lparr>
     worker_id := or_default (worker_id w) (''worker_'' @ fresh),
     executor_backend := or_default (executor_backend w) ''thread'',
     worker_resource_backend := or_default (worker_resource_backend w) ''local'',
     worker_host := or_default (worker_host w) hostname,
     worker_capabilities := filter (\<lambda>x. x \<noteq> []) (worker_capabilities w),
     max_inflight := max 1 (max_inflight w),
     worker_status := or_default (worker_status w) ''online'',
     last_heartbeat_at := (if last_heartbeat_at w = 0 then now else last_heartbeat_at w)\<rparr>"

definition worker_heartbeat :: "string \<Rightarrow> time \<Rightarrow> worker \<Rightarrow> worker" where
  "worker_heartbeat st beat w = worker_post_init (worker_host w) [] beat
     (w\<lparr>worker_status := st, last_heartbeat_at := beat\<rparr>)"

definition is_concrete_token :: "string \<Rightarrow> bool" where
  "is_concrete_token x \<longleftrightarrow> CHR '':'' \<in> set x \<or> x = ''mps''"

definition gpu_memory_satisfies_requirement :: "offer \<Rightarrow> requirement \<Rightarrow> bool" where
  "gpu_memory_satisfies_requirement o1 q =
     (let required = (case need_gpu_memory_mb q of None \<Rightarrow> 0 | Some m \<Rightarrow> m);
          by_device = offer_gpu_memory_by_device o1;
          concrete = filter is_concrete_token (need_device_tokens q)
      in if required \<le> 0 then True
         else if concrete \<noteq> [] \<and> by_device \<noteq> []
           then list_all (\<lambda>t. (case map_of by_device t of None \<Rightarrow> 0 | Some m \<Rightarrow> m) \<ge> required) concrete
         else case offer_gpu_memory_mb o1 of
             Some amount \<Rightarrow> amount \<ge> required
           | None \<Rightarrow> by_device \<noteq> [] \<and> list_ex (\<lambda>p. snd p \<ge> required) by_device)"

definition can_run :: "worker \<Rightarrow> requirement \<Rightarrow> string \<Rightarrow> int \<Rightarrow> bool" where
  "can_run w q exec_backend active_count =
     (let requested = py_lower (or_default exec_backend ''auto'') in
      if py_lower (worker_status w) \<notin> {''online'', ''idle'', ''ready''} then False
      else if active_count \<ge> max_inflight w then False
      else if requested \<notin> {'''', ''auto'', ''any''} \<and> requested \<noteq> py_lower (executor_backend w) then False
      else if py_lower (need_backend q) \<noteq> py_lower (worker_resource_backend w) then False
      else if \<not> set (need_capabilities q) \<subseteq> set (worker_capabilities w) then False
      else if \<not> satisfies q (worker_offer w) then False
      else if need_gpu_memory_mb q \<noteq> None
        then (if need_gpus q \<le> 0 \<and> need_device_tokens q = [] then False
              else gpu_memory_satisfies_requirement (worker_offer w) q)
      else True)"

lemma can_run_inflight: "can_run w q e n \<Longrightarrow> n < max_inflight w"
  by (auto simp: can_run_def Let_def split: if_splits)

lemma can_run_satisfies: "can_run w q e n \<Longrightarrow> satisfies q (worker_offer w)"
  by (auto simp: can_run_def Let_def split: if_splits)

section \<open>Leases\<close>

text \<open>The \<open>resources\<close> mapping of a lease: the keys that the allocator writes and reads.\<close>

record resources =
  res_workers :: "int option"
  res_threads :: "int option"
  res_gpus :: "int option"
  res_memory_mb :: "rat option"
  res_gpu_memory_mb :: "rat option"
  res_backend :: string
  res_compute_backend :: string
  res_device :: string
  res_device_tokens :: "string list"
  res_capabilities :: "string list"
  res_resolved_devices :: "(string \<times> string) list"

record lease =
  lease_id :: string
  owner_id :: string
  lease_scope :: string
  lease_resources :: resources
  lease_status :: string
  lease_created_at :: time
  lease_updated_at :: time
  expires_at :: time
  fencing_token :: int
  lease_metadata :: json

definition lease_post_init :: "time \<Rightarrow> lease \<Rightarrow> lease" where
  "lease_post_init now l = (let created = (if lease_created_at l = 0 then now else lease_created_at l) in l\<lparr>
     lease_status := or_default (lease_status l) ''active'',
     lease_created_at := created,
     lease_updated_at := (if lease_updated_at l = 0 then created else lease_updated_at l),
     expires_at := max 0 (expires_at l),
     fencing_token := max 0 (fencing_token l)\<rparr>)"

text \<open>The property \<open>active\<close>, read at time \<open>now\<close>.\<close>

definition lease_active :: "time \<Rightarrow> lease \<Rightarrow> bool" where
  "lease_active now l \<longleftrightarrow> lease_status l = ''active'' \<and> (expires_at l \<le> 0 \<or> expires_at l > now)"

lemma lease_post_init_simps [simp]:
  "lease_id (lease_post_init now l) = lease_id l"
  "lease_resources (lease_post_init now l) = lease_resources l"
  "owner_id (lease_post_init now l) = owner_id l"
  "lease_status (lease_post_init now l) = or_default (lease_status l) ''active''"
  "expires_at (lease_post_init now l) = max 0 (expires_at l)"
  "fencing_token (lease_post_init now l) = max 0 (fencing_token l)"
  by (simp_all add: lease_post_init_def Let_def)

text \<open>What \<open>__post_init__\<close> guarantees; on such a lease it is the identity.\<close>

definition lease_wf :: "lease \<Rightarrow> bool" where
  "lease_wf l \<longleftrightarrow> lease_status l \<noteq> [] \<and> lease_created_at l \<noteq> 0 \<and> lease_updated_at l \<noteq> 0
     \<and> 0 \<le> expires_at l \<and> 0 \<le> fencing_token l"

lemma lease_post_init_wf: "0 < now \<Longrightarrow> lease_wf (lease_post_init now l)"
  by (auto simp: lease_wf_def lease_post_init_def Let_def or_default_def)

lemma lease_post_init_id [simp]: "lease_wf l \<Longrightarrow> lease_post_init now l = l"
  by (auto simp: lease_wf_def lease_post_init_def Let_def max_def intro: lease.equality)

lemma lease_active_antitone: "lease_active t' l \<Longrightarrow> t \<le> t' \<Longrightarrow> lease_active t l"
  by (auto simp: lease_active_def)

definition res_workers_or :: "resources \<Rightarrow> int" where
  "res_workers_or r = (case res_workers r of None \<Rightarrow> 1 | Some w \<Rightarrow> if w = 0 then 1 else w)"

definition res_threads_or :: "resources \<Rightarrow> int" where
  "res_threads_or r = (case res_threads r of None \<Rightarrow> 1 | Some t \<Rightarrow> if t = 0 then 1 else t)"

definition res_gpus_or :: "resources \<Rightarrow> int" where
  "res_gpus_or r = (case res_gpus r of None \<Rightarrow> 0 | Some g \<Rightarrow> g)"

definition res_memory_or :: "resources \<Rightarrow> rat" where
  "res_memory_or r = (case res_memory_mb r of None \<Rightarrow> 0 | Some m \<Rightarrow> m)"

definition request_as_dict :: "request \<Rightarrow> resources" where
  "request_as_dict q = \<lparr>res_workers = Some (workers q), res_threads = Some (threads q),
     res_gpus = Some (gpus q), res_memory_mb = memory_mb q, res_gpu_memory_mb = gpu_memory_mb q,
     res_backend = backend q, res_compute_backend = compute_backend q, res_device = device q,
     res_device_tokens = device_tokens q, res_capabilities = capabilities q,
     res_resolved_devices = []\<rparr>"

text \<open>Requests are only ever built by the constructor; this is what it guarantees.\<close>

definition request_wf :: "request \<Rightarrow> bool" where
  "request_wf q \<longleftrightarrow> 1 \<le> workers q \<and> 1 \<le> threads q \<and> 0 \<le> gpus q
     \<and> accelerator_count (device_tokens q) \<le> gpus q
     \<and> (\<forall>m. memory_mb q = Some m \<longrightarrow> 0 < m) \<and> (\<forall>m. gpu_memory_mb q = Some m \<longrightarrow> 0 < m)
     \<and> [] \<notin> set (capabilities q)"

lemma as_float_or_none_pos: "as_float_or_none v = Some x \<Longrightarrow> 0 < x"
  by (auto simp: as_float_or_none_def split: option.splits if_splits)

lemma request_post_init_wf: "request_wf (request_post_init thr q)"
  by (auto simp: request_wf_def request_post_init_def Let_def as_float_or_none_pos split: option.splits)

lemma request_as_dict_or [simp]:
  "request_wf q \<Longrightarrow> res_workers_or (request_as_dict q) = workers q"
  "request_wf q \<Longrightarrow> res_threads_or (request_as_dict q) = threads q"
  "res_gpus_or (request_as_dict q) = gpus q"
  "res_memory_or (request_as_dict q) = (case memory_mb q of None \<Rightarrow> 0 | Some m \<Rightarrow> m)"
  by (auto simp: res_workers_or_def res_threads_or_def res_gpus_or_def res_memory_or_def
      request_as_dict_def request_wf_def split: option.splits)

end
