(* ===== verification/Lease_Store.thy ===== *)
theory Lease_Store
  imports Resource_Model
begin

text \<open>
  The contract that the three lease stores (memory, SQLite, Redis) share, as a locale, and what
  follows from it for any run of their operations: a fence that is not current never becomes
  current again, and an admission rule that every \<open>acquire\<close> validates holds for the leases
  held at any later time.
\<close>

text \<open>What a lease grants: its identifier, its fencing token and its resources.\<close>

type_synonym grant = "string \<times> int \<times> resources"

definition grant_of :: "lease \<Rightarrow> grant" where
  "grant_of l = (lease_id l, fencing_token l, lease_resources l)"

definition grants_of :: "lease list \<Rightarrow> grant multiset" where
  "grants_of ls = image_mset grant_of (mset ls)"

lemma grants_of_simps [simp]:
  "grants_of [] = {#}"
  "grants_of (l # ls) = add_mset (grant_of l) (grants_of ls)"
  "grants_of (xs @ ys) = grants_of xs + grants_of ys"
  by (auto simp: grants_of_def)

lemma subseteq_add_msetI: "M \<subseteq># N \<Longrightarrow> M \<subseteq># add_mset x N"
  by (metis add_mset_add_single mset_subset_eq_add_left subset_mset.order_trans)

lemma grants_of_filter_mono:
  "(\<And>l. P l \<Longrightarrow> Q l) \<Longrightarrow> grants_of (filter P ls) \<subseteq># grants_of (filter Q ls)"
  by (induction ls) (auto intro: subseteq_add_msetI)

lemma grants_of_map_filter_mono:
  assumes "\<And>l. l \<in> set ls \<Longrightarrow> P (f l) \<Longrightarrow> Q l \<and> grant_of (f l) = grant_of l"
  shows "grants_of (filter P (map f ls)) \<subseteq># grants_of (filter Q ls)"
  using assms by (induction ls) (auto intro: subseteq_add_msetI)

text \<open>The lease states that all stores write: expiry of a lapsed lease, issue and renewal.\<close>

definition lapsed :: "time \<Rightarrow> lease \<Rightarrow> bool" where
  "lapsed now l \<longleftrightarrow> lease_status l = ''active'' \<and> expires_at l > 0 \<and> expires_at l \<le> now"

definition issue :: "time \<Rightarrow> time \<Rightarrow> int \<Rightarrow> lease \<Rightarrow> lease" where
  "issue now ttl token l = lease_post_init now (l\<lparr>lease_status := ''active'',
     lease_created_at := now, lease_updated_at := now,
     expires_at := (if ttl > 0 then now + ttl else 0), fencing_token := token\<rparr>)"

definition prolong :: "time \<Rightarrow> time \<Rightarrow> lease \<Rightarrow> lease" where
  "prolong now ttl l = lease_post_init now (l\<lparr>lease_updated_at := now,
     expires_at := (if ttl > 0 then now + ttl else 0)\<rparr>)"

lemma issue_simps [simp]:
  "lease_id (issue now ttl k l) = lease_id l"
  "lease_resources (issue now ttl k l) = lease_resources l"
  "0 \<le> k \<Longrightarrow> fencing_token (issue now ttl k l) = k"
  "0 < now \<Longrightarrow> lease_wf (issue now ttl k l)"
  by (auto simp: issue_def lease_post_init_wf)

lemma prolong_simps [simp]:
  "lease_id (prolong now ttl l) = lease_id l"
  "lease_resources (prolong now ttl l) = lease_resources l"
  "lease_wf l \<Longrightarrow> fencing_token (prolong now ttl l) = fencing_token l"
  "0 < now \<Longrightarrow> lease_wf (prolong now ttl l)"
  by (auto simp: prolong_def lease_post_init_wf) (auto simp: lease_wf_def)

type_synonym validator = "lease list \<Rightarrow> unit result"
type_synonym 's acquire_op = "clock \<Rightarrow> lease \<Rightarrow> validator \<Rightarrow> time \<Rightarrow> 's \<Rightarrow> lease result \<times> 's"
type_synonym 's renew_op = "clock \<Rightarrow> string \<Rightarrow> int \<Rightarrow> time \<Rightarrow> 's \<Rightarrow> lease option \<times> 's"
type_synonym 's release_op = "clock \<Rightarrow> string \<Rightarrow> int option \<Rightarrow> 's \<Rightarrow> bool \<times> 's"
type_synonym 's recover_op = "clock \<Rightarrow> 's \<Rightarrow> nat \<times> 's"

section \<open>Runs\<close>

text \<open>
  One operation takes the store from time \<open>t0\<close> to \<open>t1\<close>. \<open>A l V\<close> says which leases and
  validators the callers of \<open>acquire_lease\<close> use.
\<close>

inductive lease_step ::
  "(lease \<Rightarrow> validator \<Rightarrow> bool) \<Rightarrow> 's acquire_op \<Rightarrow> 's renew_op \<Rightarrow> 's release_op \<Rightarrow> 's recover_op
    \<Rightarrow> time \<times> 's \<Rightarrow> time \<times> 's \<Rightarrow> bool"
  for A acquire renew release recover where
  step_acquire: "clock_in c t0 t1 \<Longrightarrow> A l V \<Longrightarrow> acquire c l V ttl s = (r, s')
    \<Longrightarrow> lease_step A acquire renew release recover (t0, s) (t1, s')"
| step_renew: "clock_in c t0 t1 \<Longrightarrow> renew c i k ttl s = (x, s')
    \<Longrightarrow> lease_step A acquire renew release recover (t0, s) (t1, s')"
| step_release: "clock_in c t0 t1 \<Longrightarrow> release c i ko s = (b, s')
    \<Longrightarrow> lease_step A acquire renew release recover (t0, s) (t1, s')"
| step_recover: "clock_in c t0 t1 \<Longrightarrow> recover c s = (n, s')
    \<Longrightarrow> lease_step A acquire renew release recover (t0, s) (t1, s')"

inductive lease_run ::
  "(lease \<Rightarrow> validator \<Rightarrow> bool) \<Rightarrow> 's acquire_op \<Rightarrow> 's renew_op \<Rightarrow> 's release_op \<Rightarrow> 's recover_op
    \<Rightarrow> time \<times> 's \<Rightarrow> time \<times> 's \<Rightarrow> bool"
  for A acquire renew release recover where
  run_refl: "lease_run A acquire renew release recover x x"
| run_step: "lease_run A acquire renew release recover x (t, s)
    \<Longrightarrow> lease_step A acquire renew release recover (t', s) y \<Longrightarrow> t \<le> t'
    \<Longrightarrow> lease_run A acquire renew release recover x y"

section \<open>The contract\<close>

locale lease_store =
  fixes inv :: "'s \<Rightarrow> bool"
    and grants :: "'s \<Rightarrow> time \<Rightarrow> grant multiset"
    and next_token :: "'s \<Rightarrow> int"
    and acquire :: "'s acquire_op"
    and renew :: "'s renew_op"
    and release :: "'s release_op"
    and recover :: "'s recover_op"
  assumes grants_antitone: "inv s \<Longrightarrow> t \<le> t' \<Longrightarrow> grants s t' \<subseteq># grants s t"
    and grants_token: "inv s \<Longrightarrow> (i, k, r) \<in># grants s t \<Longrightarrow> 0 < k \<and> k < next_token s"
    and grants_unique: "inv s \<Longrightarrow> (i, k, r) \<in># grants s t \<Longrightarrow> (i, k', r') \<in># grants s t \<Longrightarrow> k = k'"
    and acquire_inv: "inv s \<Longrightarrow> clock_in c t0 t1 \<Longrightarrow> acquire c l V ttl s = (res, s') \<Longrightarrow> inv s'"
    and acquire_ok: "inv s \<Longrightarrow> clock_in c t0 t1 \<Longrightarrow> acquire c l V ttl s = (Inr new, s') \<Longrightarrow> t1 \<le> t \<Longrightarrow>
      fencing_token new = next_token s \<and> next_token s' = next_token s + 1
      \<and> lease_id new = lease_id l \<and> lease_resources new = lease_resources l
      \<and> (\<exists>act. V act = Inr () \<and> grants_of act \<subseteq># grants s t0
            \<and> grants s' t \<subseteq># add_mset (grant_of new) (grants_of act))"
    and acquire_err: "inv s \<Longrightarrow> clock_in c t0 t1 \<Longrightarrow> acquire c l V ttl s = (Inl e, s') \<Longrightarrow> t1 \<le> t \<Longrightarrow>
      next_token s' = next_token s \<and> grants s' t \<subseteq># grants s t0"
    and renew_ok: "inv s \<Longrightarrow> clock_in c t0 t1 \<Longrightarrow> renew c i k ttl s = (x, s') \<Longrightarrow> t1 \<le> t \<Longrightarrow>
      inv s' \<and> next_token s' = next_token s \<and> grants s' t \<subseteq># grants s t0"
    and release_ok: "inv s \<Longrightarrow> clock_in c t0 t1 \<Longrightarrow> release c i ko s = (b, s') \<Longrightarrow> t1 \<le> t \<Longrightarrow>
      inv s' \<and> next_token s' = next_token s \<and> grants s' t \<subseteq># grants s t0"
    and recover_ok: "inv s \<Longrightarrow> clock_in c t0 t1 \<Longrightarrow> recover c s = (n, s') \<Longrightarrow> t1 \<le> t \<Longrightarrow>
      inv s' \<and> next_token s' = next_token s \<and> grants s' t \<subseteq># grants s t0"
begin

lemma other_step:
  assumes "lease_step A acquire renew release recover (t0, s) (t1, s')" "inv s" "t1 \<le> t"
    "\<And>c l V ttl res. clock_in c t0 t1 \<Longrightarrow> A l V \<Longrightarrow> acquire c l V ttl s = (res, s') \<Longrightarrow> P"
    "inv s' \<Longrightarrow> next_token s' = next_token s \<Longrightarrow> grants s' t \<subseteq># grants s t0 \<Longrightarrow> P"
  shows P
  using assms(1)
proof (cases rule: lease_step.cases)
  case step_acquire
  then show ?thesis using assms(4) by blast
next
  case (step_renew c i k ttl x)
  from renew_ok[OF assms(2) this assms(3)] show ?thesis using assms(5) by simp
next
  case (step_release c i ko b)
  from release_ok[OF assms(2) this assms(3)] show ?thesis using assms(5) by simp
next
  case (step_recover c n)
  from recover_ok[OF assms(2) this assms(3)] show ?thesis using assms(5) by simp
qed

lemma step_cases:
  assumes "lease_step A acquire renew release recover (t0, s) (t1, s')" "inv s" "t1 \<le> t"
  obtains (keep) "inv s'" "next_token s' = next_token s" "grants s' t \<subseteq># grants s t0"
  | (issue) l V act new where "A l V" "V act = Inr ()" "inv s'" "next_token s' = next_token s + 1"
      "fencing_token new = next_token s" "lease_id new = lease_id l"
      "lease_resources new = lease_resources l"
      "grants_of act \<subseteq># grants s t0" "grants s' t \<subseteq># add_mset (grant_of new) (grants_of act)"
  using assms
proof (rule other_step)
  fix c l V ttl res
  assume c: "clock_in c t0 t1" and A: "A l V" and eq: "acquire c l V ttl s = (res, s')"
  have inv': "inv s'" by (rule acquire_inv[OF assms(2) c eq])
  show thesis
  proof (cases res)
    case (Inl e)
    with acquire_err[OF assms(2) c eq[unfolded Inl] assms(3)] have
      "next_token s' = next_token s" "grants s' t \<subseteq># grants s t0" by auto
    then show ?thesis using inv' keep by blast
  next
    case (Inr new)
    with acquire_ok[OF assms(2) c eq[unfolded Inr] assms(3)] obtain act where
      "V act = Inr ()" "grants_of act \<subseteq># grants s t0"
      "grants s' t \<subseteq># add_mset (grant_of new) (grants_of act)"
      "fencing_token new = next_token s" "next_token s' = next_token s + 1"
      "lease_id new = lease_id l" "lease_resources new = lease_resources l" by auto
    then show ?thesis using inv' A issue by blast
  qed
qed (use keep in blast)

lemma step_inv:
  assumes "lease_step A acquire renew release recover (t0, s) (t1, s')" "inv s"
  shows "inv s' \<and> next_token s \<le> next_token s'"
  by (rule step_cases[OF assms order_refl]) simp_all

text \<open>Every grant after a step is the new one or was there when the step began.\<close>

lemma step_grant:
  assumes "lease_step A acquire renew release recover (t0, s) (t1, s')" "inv s" "t1 \<le> t"
    "(i, k, r) \<in># grants s' t" "k < next_token s"
  shows "(i, k, r) \<in># grants s t0"
  using assms(1-3)
proof (cases rule: step_cases)
  case keep
  show ?thesis by (rule mset_subset_eqD[OF keep(3) assms(4)])
next
  case (issue l V act new)
  then have "(i, k, r) \<in># grants_of act"
    using mset_subset_eqD[OF issue(9) assms(4)] assms(5) by (auto simp: grant_of_def)
  then show ?thesis by (rule mset_subset_eqD[OF issue(8)])
qed

lemma run_inv:
  assumes "lease_run A acquire renew release recover x y" "inv (snd x)"
  shows "inv (snd y) \<and> next_token (snd x) \<le> next_token (snd y)"
  using assms
proof (induction rule: lease_run.induct)
  case (run_step x t s t' y)
  have "inv s" using run_step by simp
  then have "inv (snd y) \<and> next_token s \<le> next_token (snd y)"
    using step_inv[of A t' s "fst y" "snd y"] run_step.hyps(2) by simp
  then show ?case using run_step by auto
qed simp

text \<open>A dead fence stays dead, whatever runs in between.\<close>

lemma fence_dead:
  assumes "lease_run A acquire renew release recover (t0, s) (t1, s')" "inv s"
    "k < next_token s" "\<forall>r. (i, k, r) \<notin># grants s t0" "t1 \<le> t"
  shows "(i, k, r) \<notin># grants s' t"
  using assms(1,5)
proof (induction x\<equiv>"(t0, s)" y\<equiv>"(t1, s')" arbitrary: t1 s' t r rule: lease_run.induct)
  case run_refl
  then show ?case using assms(4) mset_subset_eqD[OF grants_antitone[OF assms(2), of t0 t]] by blast
next
  case (run_step t2 s2 t3)
  have inv2: "inv s2" "k < next_token s2"
    using run_inv[OF run_step.hyps(1)] assms(2,3) by auto
  show ?case
  proof
    assume "(i, k, r) \<in># grants s' t"
    then have "(i, k, r) \<in># grants s2 t3"
      using step_grant[OF run_step.hyps(3) inv2(1)] run_step.prems inv2(2) by blast
    moreover have "(i, k, r) \<notin># grants s2 t3"
      using run_step.hyps(2)[of t3] run_step.hyps(4) by simp
    ultimately show False by simp
  qed
qed

text \<open>
  Admission: a property of grants that is inherited by sub-multisets, and that a successful
  validation extends to the new lease, holds for whatever is held at any later time.
\<close>

lemma admission:
  assumes run: "lease_run A acquire renew release recover (t0, s) (t1, s')" and "inv s"
    and sub: "\<And>M N. F N \<Longrightarrow> M \<subseteq># N \<Longrightarrow> F M"
    and adm: "\<And>l V act i. A l V \<Longrightarrow> V act = Inr () \<Longrightarrow> F (grants_of act)
        \<Longrightarrow> lease_resources i = lease_resources l \<Longrightarrow> F (add_mset (grant_of i) (grants_of act))"
    and init: "F (grants s t0)" and "t1 \<le> t"
  shows "F (grants s' t)"
  using run \<open>t1 \<le> t\<close>
proof (induction x\<equiv>"(t0, s)" y\<equiv>"(t1, s')" arbitrary: t1 s' t rule: lease_run.induct)
  case run_refl
  then show ?case using init sub grants_antitone \<open>inv s\<close> by blast
next
  case (run_step t2 s2 t3)
  have inv2: "inv s2" using run_inv[OF run_step.hyps(1)] \<open>inv s\<close> by auto
  have F2: "F (grants s2 t3)" using run_step.hyps(2)[of t3] run_step.hyps(4) by simp
  from run_step.hyps(3) inv2 run_step.prems show ?case
  proof (cases rule: step_cases)
    case keep
    then show ?thesis using F2 sub by blast
  next
    case (issue l V act new)
    then have "F (grants_of act)" using F2 sub by blast
    then show ?thesis using adm issue sub by blast
  qed
qed

end

end
