(* ===== verification/Budget_Ledger.thy ===== *)
theory Budget_Ledger
  imports Lease_Store
begin

text \<open>
  The shared budgets of \<open>resources/budget.py\<close>: the reservation and snapshot records, the
  argument checks, and the specification both authorities (SQLite and Redis) implement. The
  specification is a ledger: a limit and a committed amount per budget, and the reservations of one
  scope. Whether a fence is current is an argument, so the ledger is independent of the lease
  store and of clocks. The locale \<open>budget_authority\<close> states that an implementation refines
  the ledger operation by operation, and derives the promises that hold over any run.
\<close>

section \<open>Records and argument checks\<close>

record reservation =
  reservation_id :: string
  rsv_scope :: string
  rsv_budget :: string
  rsv_amount :: int
  rsv_lease_id :: string
  rsv_token :: int
  rsv_status :: string
  rsv_completed :: int
  rsv_created_at :: time
  rsv_updated_at :: time

definition reservation_from_dict :: "reservation \<Rightarrow> reservation" where
  "reservation_from_dict r = r\<lparr>rsv_amount := max 0 (rsv_amount r), rsv_token := max 0 (rsv_token r),
     rsv_completed := max 0 (rsv_completed r)\<rparr>"

record budget_snapshot =
  snap_scope :: string
  snap_budget :: string
  snap_limit :: int
  snap_committed :: int
  snap_reserved :: int
  snap_reclaimed :: nat

definition snap_remaining :: "budget_snapshot \<Rightarrow> int" where
  "snap_remaining v = max 0 (snap_limit v - snap_committed v - snap_reserved v)"

definition budget_name :: "string \<Rightarrow> string result" where
  "budget_name value = (let name = py_strip value in if name = [] then Inl ValueError else Inr name)"

definition budget_limit :: "int \<Rightarrow> int result" where
  "budget_limit value = (if value < 0 then Inl ValueError else Inr value)"

definition reservation_amount :: "int \<Rightarrow> int result" where
  "reservation_amount value = (if value \<le> 0 then Inl ValueError else Inr value)"

definition reservation_ident :: "string \<Rightarrow> string result" where
  "reservation_ident value = (if value = [] then Inl ValueError else Inr value)"

text \<open>An omitted identifier is drawn from a fresh uuid, an argument here.\<close>

definition reservation_key :: "string \<Rightarrow> string \<Rightarrow> string" where
  "reservation_key fresh i = or_default i (''budget-'' @ fresh)"

definition new_reservation :: "string \<Rightarrow> string \<Rightarrow> string \<Rightarrow> int \<Rightarrow> string \<Rightarrow> int \<Rightarrow> time \<Rightarrow> reservation" where
  "new_reservation sc i b a l k now = \<lparr>reservation_id = i, rsv_scope = sc, rsv_budget = b, rsv_amount = a,
     rsv_lease_id = l, rsv_token = k, rsv_status = ''active'', rsv_completed = 0,
     rsv_created_at = now, rsv_updated_at = now\<rparr>"

definition same_request :: "string \<Rightarrow> int \<Rightarrow> string \<Rightarrow> int \<Rightarrow> reservation \<Rightarrow> bool" where
  "same_request b a l k r \<longleftrightarrow> rsv_budget r = b \<and> rsv_amount r = a \<and> rsv_lease_id r = l \<and> rsv_token r = k"

section \<open>The ledger\<close>

record ledger =
  lg_budgets :: "string \<Rightarrow> (int \<times> int) option"
  lg_items :: "reservation list"

type_synonym fence = "string \<Rightarrow> int \<Rightarrow> bool"

definition find_item :: "string \<Rightarrow> reservation list \<Rightarrow> reservation option" where
  "find_item i rs = find (\<lambda>r. reservation_id r = i) rs"

definition put_item :: "reservation \<Rightarrow> reservation list \<Rightarrow> reservation list" where
  "put_item r' rs = map (\<lambda>r. if reservation_id r = reservation_id r' then r' else r) rs"

definition reserved_of :: "string \<Rightarrow> reservation list \<Rightarrow> int" where
  "reserved_of b rs = sum_list (map (\<lambda>r. rsv_amount r - rsv_completed r)
     (filter (\<lambda>r. rsv_budget r = b \<and> rsv_status r = ''active'') rs))"

definition completed_of :: "string \<Rightarrow> reservation list \<Rightarrow> int" where
  "completed_of b rs = sum_list (map rsv_completed (filter (\<lambda>r. rsv_budget r = b) rs))"

definition add_committed :: "string \<Rightarrow> int \<Rightarrow> (string \<Rightarrow> (int \<times> int) option) \<Rightarrow> string \<Rightarrow> (int \<times> int) option" where
  "add_committed b d bs = bs(b := map_option (\<lambda>(m, c). (m, c + d)) (bs b))"

definition stale :: "fence \<Rightarrow> reservation \<Rightarrow> bool" where
  "stale cur r \<longleftrightarrow> rsv_status r = ''active'' \<and> \<not> cur (rsv_lease_id r) (rsv_token r)"

definition mark :: "string \<Rightarrow> time \<Rightarrow> reservation \<Rightarrow> reservation" where
  "mark st now r = r\<lparr>rsv_status := st, rsv_updated_at := now\<rparr>"

definition led_reclaim :: "fence \<Rightarrow> time \<Rightarrow> ledger \<Rightarrow> nat \<times> ledger" where
  "led_reclaim cur now g = (length (filter (stale cur) (lg_items g)),
     g\<lparr>lg_items := map (\<lambda>r. if stale cur r then mark ''reclaimed'' now r else r) (lg_items g)\<rparr>)"

definition led_configure :: "string \<Rightarrow> int \<Rightarrow> ledger \<Rightarrow> unit result \<times> ledger" where
  "led_configure b m g =
     (case budget_name b of Inl e \<Rightarrow> (Inl e, g) | Inr name \<Rightarrow>
      case budget_limit m of Inl e \<Rightarrow> (Inl e, g) | Inr maximum \<Rightarrow>
      case lg_budgets g name of
        None \<Rightarrow> (Inr (), g\<lparr>lg_budgets := (lg_budgets g)(name \<mapsto> (maximum, 0))\<rparr>)
      | Some (limit, _) \<Rightarrow> if limit \<noteq> maximum then (Inl SharedBudgetConfigurationError, g) else (Inr (), g))"

definition led_status :: "string \<Rightarrow> fence \<Rightarrow> time \<Rightarrow> string \<Rightarrow> ledger \<Rightarrow> budget_snapshot result \<times> ledger" where
  "led_status sc cur now b g =
     (case budget_name b of Inl e \<Rightarrow> (Inl e, g) | Inr name \<Rightarrow>
      let (n, g1) = led_reclaim cur now g in
      case lg_budgets g1 name of
        None \<Rightarrow> (Inl KeyError, g1)
      | Some (limit, committed) \<Rightarrow>
          (Inr \<lparr>snap_scope = sc, snap_budget = name, snap_limit = limit, snap_committed = committed,
             snap_reserved = reserved_of name (lg_items g1), snap_reclaimed = n\<rparr>, g1))"

definition led_get :: "fence \<Rightarrow> time \<Rightarrow> string \<Rightarrow> ledger \<Rightarrow> reservation option result \<times> ledger" where
  "led_get cur now i g =
     (case reservation_ident i of Inl e \<Rightarrow> (Inl e, g) | Inr ident \<Rightarrow>
      let g1 = snd (led_reclaim cur now g) in (Inr (find_item ident (lg_items g1)), g1))"

definition led_reserve ::
  "string \<Rightarrow> fence \<Rightarrow> time \<Rightarrow> string \<Rightarrow> int \<Rightarrow> string \<Rightarrow> int \<Rightarrow> string \<Rightarrow> ledger \<Rightarrow> reservation result \<times> ledger" where
  "led_reserve sc cur now b a l k ident g =
     (case budget_name b of Inl e \<Rightarrow> (Inl e, g) | Inr name \<Rightarrow>
      case reservation_amount a of Inl e \<Rightarrow> (Inl e, g) | Inr requested \<Rightarrow>
      if \<not> cur l k then (Inl SharedBudgetFenceError, g)
      else let g1 = snd (led_reclaim cur now g) in
        case find_item ident (lg_items g1) of
          Some r \<Rightarrow> if same_request name requested l k r then (Inr r, g1)
                    else (Inl SharedBudgetConfigurationError, g1)
        | None \<Rightarrow>
            (case lg_budgets g1 name of
               None \<Rightarrow> (Inl KeyError, g1)
             | Some (limit, committed) \<Rightarrow>
                 if requested > max 0 (limit - committed - reserved_of name (lg_items g1))
                 then (Inl SharedBudgetExceeded, g1)
                 else let r = new_reservation sc ident name requested l k now
                      in (Inr r, g1\<lparr>lg_items := lg_items g1 @ [r]\<rparr>)))"

definition led_complete :: "fence \<Rightarrow> time \<Rightarrow> string \<Rightarrow> int \<Rightarrow> ledger \<Rightarrow> reservation result \<times> ledger" where
  "led_complete cur now i n g =
     (case reservation_ident i of Inl e \<Rightarrow> (Inl e, g) | Inr ident \<Rightarrow>
      let count = max 0 n in
      case find_item ident (lg_items g) of
        None \<Rightarrow> (Inl KeyError, g)
      | Some r \<Rightarrow>
          if rsv_status r = ''completed'' \<and> rsv_completed r = count then (Inr r, g)
          else if rsv_status r \<noteq> ''active'' then (Inl SharedBudgetFenceError, g)
          else if count > rsv_amount r then (Inl ValueError, g)
          else if count < rsv_completed r then (Inl ValueError, g)
          else if \<not> cur (rsv_lease_id r) (rsv_token r) then (Inl SharedBudgetFenceError, g)
          else let r' = r\<lparr>rsv_status := ''completed'', rsv_completed := count, rsv_updated_at := now\<rparr>
               in (Inr r', \<lparr>lg_budgets = add_committed (rsv_budget r) (count - rsv_completed r) (lg_budgets g),
                    lg_items = put_item r' (lg_items g)\<rparr>))"

definition led_consume :: "fence \<Rightarrow> time \<Rightarrow> string \<Rightarrow> int \<Rightarrow> ledger \<Rightarrow> reservation result \<times> ledger" where
  "led_consume cur now i n g =
     (case reservation_ident i of Inl e \<Rightarrow> (Inl e, g) | Inr ident \<Rightarrow>
      case reservation_amount n of Inl e \<Rightarrow> (Inl e, g) | Inr delta \<Rightarrow>
      case find_item ident (lg_items g) of
        None \<Rightarrow> (Inl KeyError, g)
      | Some r \<Rightarrow>
          if rsv_status r \<noteq> ''active'' then (Inl SharedBudgetFenceError, g)
          else if rsv_completed r + delta > rsv_amount r then (Inl ValueError, g)
          else if \<not> cur (rsv_lease_id r) (rsv_token r) then (Inl SharedBudgetFenceError, g)
          else let r' = r\<lparr>rsv_completed := rsv_completed r + delta, rsv_updated_at := now\<rparr>
               in (Inr r', \<lparr>lg_budgets = add_committed (rsv_budget r) delta (lg_budgets g),
                    lg_items = put_item r' (lg_items g)\<rparr>))"

definition led_cancel :: "fence \<Rightarrow> time \<Rightarrow> string \<Rightarrow> ledger \<Rightarrow> bool result \<times> ledger" where
  "led_cancel cur now i g =
     (case reservation_ident i of Inl e \<Rightarrow> (Inl e, g) | Inr ident \<Rightarrow>
      case find_item ident (lg_items g) of
        None \<Rightarrow> (Inr False, g)
      | Some r \<Rightarrow>
          if rsv_status r \<noteq> ''active'' \<or> \<not> cur (rsv_lease_id r) (rsv_token r) then (Inr False, g)
          else (Inr True, g\<lparr>lg_items := put_item (mark ''cancelled'' now r) (lg_items g)\<rparr>))"

section \<open>Invariant of the ledger\<close>

definition item_wf :: "reservation \<Rightarrow> bool" where
  "item_wf r \<longleftrightarrow> 0 < rsv_amount r \<and> 0 \<le> rsv_completed r \<and> rsv_completed r \<le> rsv_amount r
     \<and> rsv_status r \<in> {''active'', ''completed'', ''cancelled'', ''reclaimed''}"

definition ledger_inv :: "ledger \<Rightarrow> bool" where
  "ledger_inv g \<longleftrightarrow> distinct (map reservation_id (lg_items g))
     \<and> (\<forall>r\<in>set (lg_items g). item_wf r \<and> lg_budgets g (rsv_budget r) \<noteq> None)
     \<and> (\<forall>b m c. lg_budgets g b = Some (m, c)
          \<longrightarrow> c = completed_of b (lg_items g) \<and> c + reserved_of b (lg_items g) \<le> m)"

section \<open>The moves of the ledger\<close>

text \<open>
  Five moves change a ledger: a budget is configured, units are reserved, a reservation of a
  current fence is charged (and may close), is cancelled, or stale reservations are reclaimed.
  Every operation is a sequence of them under one fence predicate.
\<close>

inductive led_move :: "fence \<Rightarrow> ledger \<Rightarrow> ledger \<Rightarrow> bool" for cur where
  mv_configure: "lg_budgets g b = None \<Longrightarrow> 0 \<le> m
    \<Longrightarrow> led_move cur g (g\<lparr>lg_budgets := (lg_budgets g)(b \<mapsto> (m, 0))\<rparr>)"
| mv_reserve: "lg_budgets g b = Some (m, c) \<Longrightarrow> 0 < a \<Longrightarrow> a \<le> m - c - reserved_of b (lg_items g)
    \<Longrightarrow> find_item i (lg_items g) = None \<Longrightarrow> cur l k
    \<Longrightarrow> led_move cur g (g\<lparr>lg_items := lg_items g @ [new_reservation sc i b a l k now]\<rparr>)"
| mv_charge: "find_item i (lg_items g) = Some r \<Longrightarrow> rsv_status r = ''active'' \<Longrightarrow> rsv_completed r \<le> n
    \<Longrightarrow> n \<le> rsv_amount r \<Longrightarrow> cur (rsv_lease_id r) (rsv_token r) \<Longrightarrow> st \<in> {''active'', ''completed''}
    \<Longrightarrow> r' = r\<lparr>rsv_status := st, rsv_completed := n, rsv_updated_at := now\<rparr>
    \<Longrightarrow> led_move cur g \<lparr>lg_budgets = add_committed (rsv_budget r) (n - rsv_completed r) (lg_budgets g),
          lg_items = put_item r' (lg_items g)\<rparr>"
| mv_cancel: "find_item i (lg_items g) = Some r \<Longrightarrow> rsv_status r = ''active''
    \<Longrightarrow> cur (rsv_lease_id r) (rsv_token r)
    \<Longrightarrow> led_move cur g (g\<lparr>lg_items := put_item (mark ''cancelled'' now r) (lg_items g)\<rparr>)"
| mv_reclaim: "led_move cur g (snd (led_reclaim cur now g))"

lemma find_item_SomeD: "find_item i rs = Some r \<Longrightarrow> r \<in> set rs \<and> reservation_id r = i"
  by (auto simp: find_item_def find_Some_iff)

lemma find_item_None: "find_item i rs = None \<longleftrightarrow> i \<notin> reservation_id ` set rs"
  by (auto simp: find_item_def find_None_iff)

lemma sums_Nil [simp]: "reserved_of b [] = 0" "completed_of b [] = 0" "put_item r [] = []"
  by (simp_all add: reserved_of_def completed_of_def put_item_def)

lemma sums_Cons [simp]:
  "reserved_of b (r # rs) = (if rsv_budget r = b \<and> rsv_status r = ''active''
     then rsv_amount r - rsv_completed r else 0) + reserved_of b rs"
  "completed_of b (r # rs) = (if rsv_budget r = b then rsv_completed r else 0) + completed_of b rs"
  "put_item r' (r # rs) = (if reservation_id r = reservation_id r' then r' else r) # put_item r' rs"
  by (simp_all add: reserved_of_def completed_of_def put_item_def)

lemma sums_append [simp]:
  "reserved_of b (xs @ ys) = reserved_of b xs + reserved_of b ys"
  "completed_of b (xs @ ys) = completed_of b xs + completed_of b ys"
  by (simp_all add: reserved_of_def completed_of_def)

lemma put_item_absent: "reservation_id r \<notin> reservation_id ` set rs \<Longrightarrow> put_item r rs = rs"
  by (induction rs) auto

lemma put_item_ids [simp]: "map reservation_id (put_item r rs) = map reservation_id rs"
  by (induction rs) auto

lemma set_put_item:
  "set (put_item r' rs) = (if reservation_id r' \<in> reservation_id ` set rs then {r'} else {})
     \<union> {r \<in> set rs. reservation_id r \<noteq> reservation_id r'}"
  by (induction rs) auto

text \<open>Overwriting one reservation moves the sums by the difference of old and new.\<close>

lemma put_item_sums:
  assumes "distinct (map reservation_id rs)" "r \<in> set rs" "reservation_id r' = reservation_id r"
    "rsv_budget r' = rsv_budget r"
  shows "completed_of b (put_item r' rs) = completed_of b rs
      + (if rsv_budget r = b then rsv_completed r' - rsv_completed r else 0)"
    and "reserved_of b (put_item r' rs) = reserved_of b rs
      + (if rsv_budget r = b then (if rsv_status r' = ''active'' then rsv_amount r' - rsv_completed r' else 0)
           - (if rsv_status r = ''active'' then rsv_amount r - rsv_completed r else 0) else 0)"
  using assms by (induction rs) (auto simp: put_item_absent rev_image_eqI)

lemma reclaim_sums:
  "completed_of b (map (\<lambda>r. if stale cur r then mark st now r else r) rs) = completed_of b rs"
  "\<forall>r\<in>set rs. item_wf r \<Longrightarrow> st \<noteq> ''active'' \<Longrightarrow>
     reserved_of b (map (\<lambda>r. if stale cur r then mark st now r else r) rs) \<le> reserved_of b rs"
  by (induction rs) (auto simp: mark_def stale_def item_wf_def)

lemma ledger_invD:
  assumes "ledger_inv g"
  shows "distinct (map reservation_id (lg_items g))"
    "r \<in> set (lg_items g) \<Longrightarrow> item_wf r"
    "r \<in> set (lg_items g) \<Longrightarrow> \<exists>m c. lg_budgets g (rsv_budget r) = Some (m, c)"
    "lg_budgets g b = Some (m, c) \<Longrightarrow> c = completed_of b (lg_items g) \<and> c + reserved_of b (lg_items g) \<le> m"
  using assms unfolding ledger_inv_def by auto

lemma absent_budget_sums:
  assumes "ledger_inv g" "lg_budgets g b = None"
  shows "completed_of b (lg_items g) = 0" "reserved_of b (lg_items g) = 0"
proof -
  have *: "\<forall>r\<in>set (lg_items g). rsv_budget r \<noteq> b" using assms unfolding ledger_inv_def by auto
  show "completed_of b (lg_items g) = 0" using * by (induction "lg_items g" arbitrary: g) (auto simp: completed_of_def)
  show "reserved_of b (lg_items g) = 0" using * by (induction "lg_items g" arbitrary: g) (auto simp: reserved_of_def)
qed

lemma add_committed_zero [simp]: "add_committed b 0 bs = bs"
  by (auto simp: add_committed_def fun_eq_iff map_option.id split: prod.splits intro!: map_option_idI)

text \<open>Replacing an item \<open>r\<close> by \<open>r'\<close> and charging the budget with what \<open>r'\<close> has completed more.\<close>

lemma put_item_inv:
  assumes "ledger_inv g" "r \<in> set (lg_items g)" "item_wf r'" "reservation_id r' = reservation_id r"
    "rsv_budget r' = rsv_budget r" "rsv_completed r \<le> rsv_completed r'" "rsv_status r = ''active''"
    "rsv_amount r' = rsv_amount r"
  shows "ledger_inv \<lparr>lg_budgets = add_committed (rsv_budget r) (rsv_completed r' - rsv_completed r) (lg_budgets g),
    lg_items = put_item r' (lg_items g)\<rparr>"
proof -
  note sums = put_item_sums[OF ledger_invD(1)[OF assms(1)], of r r']
  have "completed_of b (put_item r' (lg_items g)) = completed_of b (lg_items g)
      + (if rsv_budget r = b then rsv_completed r' - rsv_completed r else 0)" for b
    using sums(1) assms(2,4,5) by simp
  moreover have "reserved_of b (put_item r' (lg_items g)) \<le> reserved_of b (lg_items g)
      - (if rsv_budget r = b then rsv_completed r' - rsv_completed r else 0)" for b
    using sums(2)[of b] assms(2-8) ledger_invD(2)[OF assms(1,2)] by (auto simp: item_wf_def split: if_splits)
  ultimately show ?thesis
    using assms(1-5) unfolding ledger_inv_def
    by (auto simp: set_put_item add_committed_def split: if_splits) (smt (verit, best))+
qed

lemma led_move_inv:
  assumes "led_move cur g g'" "ledger_inv g"
  shows "ledger_inv g'"
  using assms(1)
proof (cases rule: led_move.cases)
  case (mv_configure b m)
  then show ?thesis using assms(2) absent_budget_sums[OF assms(2) mv_configure(2)]
    unfolding ledger_inv_def by auto
next
  case (mv_reserve b m c a i l k sc now)
  then show ?thesis using assms(2)
    by (auto simp: ledger_inv_def find_item_None new_reservation_def item_wf_def)
next
  case (mv_charge i r n st r' now)
  note r = find_item_SomeD[OF mv_charge(2)]
  have "item_wf r'" using ledger_invD(2)[OF assms(2), of r] r mv_charge by (auto simp: item_wf_def)
  then show ?thesis using put_item_inv[OF assms(2), of r r'] r mv_charge by auto
next
  case (mv_cancel i r now)
  note r = find_item_SomeD[OF mv_cancel(2)]
  have "item_wf (mark ''cancelled'' now r)" using ledger_invD(2)[OF assms(2), of r] r by (auto simp: item_wf_def mark_def)
  then show ?thesis using put_item_inv[OF assms(2), of r "mark ''cancelled'' now r"] r mv_cancel(1,3)
    by (cases g) (simp add: mark_def)
next
  case (mv_reclaim now)
  have "reserved_of b (lg_items g') \<le> reserved_of b (lg_items g)"
    "completed_of b (lg_items g') = completed_of b (lg_items g)" for b
    using mv_reclaim reclaim_sums ledger_invD(2)[OF assms(2)] by (auto simp: led_reclaim_def)
  moreover have "map reservation_id (lg_items g') = map reservation_id (lg_items g)"
    using mv_reclaim by (simp add: led_reclaim_def mark_def o_def if_distrib cong: if_cong)
  moreover have "\<forall>r\<in>set (lg_items g'). item_wf r \<and> lg_budgets g' (rsv_budget r) \<noteq> None"
    using assms(2) mv_reclaim by (auto simp: ledger_inv_def led_reclaim_def mark_def item_wf_def)
  moreover have "lg_budgets g' = lg_budgets g" using mv_reclaim by (simp add: led_reclaim_def)
  ultimately show ?thesis using assms(2) unfolding ledger_inv_def
    by simp (meson add_left_mono order_trans)
qed

text \<open>
  What no move undoes: limits are fixed, committed units are never given back, a reservation
  keeps its terms and is never dropped, and a closed reservation never changes.
\<close>

definition item_le :: "reservation \<Rightarrow> reservation \<Rightarrow> bool" where
  "item_le r r' \<longleftrightarrow> reservation_id r' = reservation_id r \<and> rsv_budget r' = rsv_budget r
     \<and> rsv_amount r' = rsv_amount r \<and> rsv_lease_id r' = rsv_lease_id r \<and> rsv_token r' = rsv_token r
     \<and> rsv_completed r \<le> rsv_completed r' \<and> (rsv_status r \<noteq> ''active'' \<longrightarrow> r' = r)"

definition ledger_le :: "ledger \<Rightarrow> ledger \<Rightarrow> bool" where
  "ledger_le g g' \<longleftrightarrow>
     (\<forall>b m c. lg_budgets g b = Some (m, c) \<longrightarrow> (\<exists>c'\<ge>c. lg_budgets g' b = Some (m, c')))
     \<and> (\<forall>i r. find_item i (lg_items g) = Some r \<longrightarrow> (\<exists>r'. find_item i (lg_items g') = Some r' \<and> item_le r r'))"

lemma item_le_refl [simp]: "item_le r r"
  by (simp add: item_le_def)

lemma item_le_trans: "item_le a b \<Longrightarrow> item_le b c \<Longrightarrow> item_le a c"
  by (auto simp: item_le_def)

lemma ledger_le_refl [simp]: "ledger_le g g"
  by (auto simp: ledger_le_def)

lemma ledger_le_trans: "ledger_le f g \<Longrightarrow> ledger_le g h \<Longrightarrow> ledger_le f h"
  unfolding ledger_le_def by (meson item_le_trans order_trans)

lemma find_item_simps [simp]:
  "find_item i [] = None"
  "find_item i (r # rs) = (if reservation_id r = i then Some r else find_item i rs)"
  "find_item i (xs @ ys) = (case find_item i xs of None \<Rightarrow> find_item i ys | Some r \<Rightarrow> Some r)"
  by (induction xs) (auto simp: find_item_def)

lemma find_put_item:
  "find_item i (put_item r' rs) = (if i = reservation_id r' then map_option (\<lambda>_. r') (find_item i rs)
     else find_item i rs)"
  by (induction rs) auto

lemma find_reclaim:
  "find_item i (map (\<lambda>r. if stale cur r then mark st now r else r) rs)
     = map_option (\<lambda>r. if stale cur r then mark st now r else r) (find_item i rs)"
  by (induction rs) (auto simp: mark_def)

lemma led_move_le:
  assumes "led_move cur g g'"
  shows "ledger_le g g'"
  using assms
proof (cases rule: led_move.cases)
  case (mv_charge i r n st r' now)
  then show ?thesis using find_item_SomeD[OF mv_charge(2)]
    by (auto simp: ledger_le_def find_put_item add_committed_def item_le_def)
next
  case (mv_cancel i r now)
  then show ?thesis using find_item_SomeD[OF mv_cancel(2)]
    by (auto simp: ledger_le_def find_put_item item_le_def mark_def)
next
  case (mv_reclaim now)
  then show ?thesis by (auto simp: ledger_le_def led_reclaim_def find_reclaim) (auto simp: item_le_def mark_def stale_def)
qed (auto simp: ledger_le_def)

text \<open>Units are charged only under a current fence.\<close>

lemma led_move_charge:
  assumes "led_move cur g g'" "find_item i (lg_items g) = Some r" "find_item i (lg_items g') = Some r'"
    "rsv_completed r' \<noteq> rsv_completed r"
  shows "cur (rsv_lease_id r) (rsv_token r)"
  using assms(1)
proof (cases rule: led_move.cases)
  case (mv_charge i2 r2 n st r2' now)
  then show ?thesis using assms(2-4) find_item_SomeD[OF mv_charge(2)]
    by (cases "i = i2") (auto simp: find_put_item)
next
  case (mv_cancel i2 r2 now)
  then show ?thesis using assms(2-4) find_item_SomeD[OF mv_cancel(2)]
    by (cases "i = i2") (auto simp: find_put_item mark_def)
qed (use assms(2-4) in \<open>auto simp: led_reclaim_def find_reclaim mark_def split: if_splits\<close>)

section \<open>Every operation is a sequence of moves\<close>

lemma led_reclaim_moves: "(led_move cur)\<^sup>*\<^sup>* g (snd (led_reclaim cur now g))"
  by (rule r_into_rtranclp) (rule mv_reclaim)

lemma budget_checks:
  "budget_name b = Inr name \<longleftrightarrow> name = py_strip b \<and> name \<noteq> []"
  "budget_limit m = Inr m' \<longleftrightarrow> m' = m \<and> 0 \<le> m"
  "reservation_amount m = Inr m' \<longleftrightarrow> m' = m \<and> 0 < m"
  "reservation_ident i = Inr i' \<longleftrightarrow> i' = i \<and> i \<noteq> []"
  by (auto simp: budget_name_def budget_limit_def reservation_amount_def reservation_ident_def Let_def)

lemma led_moves:
  "(led_move cur)\<^sup>*\<^sup>* g (snd (led_configure b m g))"
  "(led_move cur)\<^sup>*\<^sup>* g (snd (led_status sc cur now b g))"
  "(led_move cur)\<^sup>*\<^sup>* g (snd (led_get cur now i g))"
  "(led_move cur)\<^sup>*\<^sup>* g (snd (led_reserve sc cur now b a l k ident g))"
  "(led_move cur)\<^sup>*\<^sup>* g (snd (led_complete cur now i n g))"
  "(led_move cur)\<^sup>*\<^sup>* g (snd (led_consume cur now i n g))"
  "(led_move cur)\<^sup>*\<^sup>* g (snd (led_cancel cur now i g))"
proof -
  show "(led_move cur)\<^sup>*\<^sup>* g (snd (led_configure b m g))"
    by (auto simp: led_configure_def budget_checks split: sum.splits option.splits
        intro!: r_into_rtranclp mv_configure)
  show "(led_move cur)\<^sup>*\<^sup>* g (snd (led_status sc cur now b g))"
    using led_reclaim_moves[of cur g now]
    by (cases "led_reclaim cur now g") (auto simp: led_status_def split: sum.splits option.splits)
  show "(led_move cur)\<^sup>*\<^sup>* g (snd (led_get cur now i g))"
    by (auto simp: led_get_def Let_def split: sum.splits intro: led_reclaim_moves)
  show "(led_move cur)\<^sup>*\<^sup>* g (snd (led_reserve sc cur now b a l k ident g))"
    by (auto simp: led_reserve_def budget_checks Let_def max_def split: sum.splits option.splits if_splits
        intro: led_reclaim_moves
        intro!: rtranclp.rtrancl_into_rtrancl[OF led_reclaim_moves mv_reserve])
  show "(led_move cur)\<^sup>*\<^sup>* g (snd (led_complete cur now i n g))"
    by (auto simp: led_complete_def budget_checks Let_def not_less split: sum.splits option.splits
        intro!: r_into_rtranclp mv_charge)
  show "(led_move cur)\<^sup>*\<^sup>* g (snd (led_consume cur now i n g))"
  proof (cases "fst (led_consume cur now i n g)")
    case (Inr r')
    then obtain r where r: "find_item i (lg_items g) = Some r" "rsv_status r = ''active''" "0 < n"
      "rsv_completed r + n \<le> rsv_amount r" "cur (rsv_lease_id r) (rsv_token r)"
      "r' = r\<lparr>rsv_status := ''active'', rsv_completed := rsv_completed r + n, rsv_updated_at := now\<rparr>"
      "snd (led_consume cur now i n g) = \<lparr>lg_budgets = add_committed (rsv_budget r) (rsv_completed r + n - rsv_completed r) (lg_budgets g),
          lg_items = put_item r' (lg_items g)\<rparr>"
      by (auto simp: led_consume_def budget_checks Let_def not_less split: sum.splits option.splits if_splits)
    from mv_charge[of i g r "rsv_completed r + n" cur "''active''" r' now] r show ?thesis
      by (auto intro!: r_into_rtranclp)
  qed (auto simp: led_consume_def Let_def split: sum.splits option.splits if_splits)
  show "(led_move cur)\<^sup>*\<^sup>* g (snd (led_cancel cur now i g))"
    by (auto simp: led_cancel_def split: sum.splits option.splits intro!: r_into_rtranclp mv_cancel)
qed

section \<open>The contract of an authority\<close>

text \<open>The methods of an authority, as the code that holds one calls them.\<close>

record 's authority =
  au_configure :: "time \<Rightarrow> string \<Rightarrow> int \<Rightarrow> 's \<Rightarrow> unit result \<times> 's"
  au_status :: "time \<Rightarrow> string \<Rightarrow> 's \<Rightarrow> budget_snapshot result \<times> 's"
  au_get :: "time \<Rightarrow> string \<Rightarrow> 's \<Rightarrow> reservation option result \<times> 's"
  au_reserve :: "time \<Rightarrow> string \<Rightarrow> int \<Rightarrow> string \<Rightarrow> int \<Rightarrow> string \<Rightarrow> string \<Rightarrow> 's \<Rightarrow> reservation result \<times> 's"
  au_complete :: "time \<Rightarrow> string \<Rightarrow> int \<Rightarrow> 's \<Rightarrow> reservation result \<times> 's"
  au_consume :: "time \<Rightarrow> string \<Rightarrow> int \<Rightarrow> 's \<Rightarrow> reservation result \<times> 's"
  au_cancel :: "time \<Rightarrow> string \<Rightarrow> 's \<Rightarrow> bool result \<times> 's"

datatype budget_op =
    BConfigure string int
  | BStatus string
  | BGet string
  | BReserve string int string int string string
  | BComplete string int
  | BConsume string int
  | BCancel string

fun apply_budget_op :: "'s authority \<Rightarrow> time \<Rightarrow> budget_op \<Rightarrow> 's \<Rightarrow> 's" where
  "apply_budget_op au now (BConfigure b m) s = snd (au_configure au now b m s)"
| "apply_budget_op au now (BStatus b) s = snd (au_status au now b s)"
| "apply_budget_op au now (BGet i) s = snd (au_get au now i s)"
| "apply_budget_op au now (BReserve b a l k fresh i) s = snd (au_reserve au now b a l k fresh i s)"
| "apply_budget_op au now (BComplete i n) s = snd (au_complete au now i n s)"
| "apply_budget_op au now (BConsume i n) s = snd (au_consume au now i n s)"
| "apply_budget_op au now (BCancel i) s = snd (au_cancel au now i s)"

text \<open>
  An error either rolls the operation back (a SQL transaction) or leaves the reclamation that
  preceded it (Redis).
\<close>

definition settle_with :: "bool \<Rightarrow> ledger \<Rightarrow> 'r result \<times> ledger \<Rightarrow> 'r result \<times> ledger" where
  "settle_with rollback g x = (fst x, if rollback \<and> isl (fst x) then g else snd x)"

lemma settled_inv:
  assumes "map_prod id view x = settle_with rb g y" "(led_move cur)\<^sup>*\<^sup>* g (snd y)" "ledger_inv g"
  shows "ledger_inv (view (snd x))"
proof -
  have "(led_move cur)\<^sup>*\<^sup>* g (view (snd x))"
    using assms(1,2) by (cases x) (auto simp: settle_with_def split: if_splits)
  then show ?thesis using assms(3) by (induction rule: rtranclp_induct) (auto intro: led_move_inv)
qed

text \<open>A run: operations of the authority, and steps \<open>env\<close> of others on the same store.\<close>

inductive authority_run :: "'s authority \<Rightarrow> ('s \<Rightarrow> 's \<Rightarrow> bool) \<Rightarrow> 's \<Rightarrow> 's \<Rightarrow> bool" for au env where
  ar_refl: "authority_run au env s s"
| ar_op: "authority_run au env s s1 \<Longrightarrow> authority_run au env s (apply_budget_op au now e s1)"
| ar_env: "authority_run au env s s1 \<Longrightarrow> env s1 s2 \<Longrightarrow> authority_run au env s s2"

locale budget_authority =
  fixes au :: "'s authority"
    and scope :: string
    and rollback :: bool
    and inv :: "'s \<Rightarrow> bool"
    and view :: "'s \<Rightarrow> ledger"
    and fence :: "time \<Rightarrow> 's \<Rightarrow> fence"
    and env :: "'s \<Rightarrow> 's \<Rightarrow> bool"
  assumes inv_ledger: "inv s \<Longrightarrow> ledger_inv (view s)"
    and env_frame: "inv s \<Longrightarrow> env s s' \<Longrightarrow> inv s' \<and> view s' = view s"
    and op_inv: "inv s \<Longrightarrow> inv (apply_budget_op au now e s)"
    and configure_ref: "inv s \<Longrightarrow> map_prod id view (au_configure au now b m s)
      = settle_with rollback (view s) (led_configure b m (view s))"
    and status_ref: "inv s \<Longrightarrow> map_prod id view (au_status au now b s)
      = settle_with rollback (view s) (led_status scope (fence now s) now b (view s))"
    and get_ref: "inv s \<Longrightarrow> map_prod id view (au_get au now i s)
      = settle_with rollback (view s) (led_get (fence now s) now i (view s))"
    and reserve_ref: "inv s \<Longrightarrow> map_prod id view (au_reserve au now b a l k fresh i s)
      = settle_with rollback (view s)
          (led_reserve scope (fence now s) now b a l k (reservation_key fresh i) (view s))"
    and complete_ref: "inv s \<Longrightarrow> map_prod id view (au_complete au now i n s)
      = settle_with rollback (view s) (led_complete (fence now s) now i n (view s))"
    and consume_ref: "inv s \<Longrightarrow> map_prod id view (au_consume au now i n s)
      = settle_with rollback (view s) (led_consume (fence now s) now i n (view s))"
    and cancel_ref: "inv s \<Longrightarrow> map_prod id view (au_cancel au now i s)
      = settle_with rollback (view s) (led_cancel (fence now s) now i (view s))"
begin

lemma settled_moves:
  assumes "map_prod id view x = settle_with rollback g y" "(led_move cur)\<^sup>*\<^sup>* g (snd y)"
  shows "(led_move cur)\<^sup>*\<^sup>* g (view (snd x))"
  using assms by (cases x) (auto simp: settle_with_def split: if_splits)

text \<open>One operation moves the ledger under the fences current at its clock reading.\<close>

lemma op_moves:
  assumes "inv s"
  shows "(led_move (fence now s))\<^sup>*\<^sup>* (view s) (view (apply_budget_op au now e s))"
  by (cases e) (auto intro!: settled_moves led_moves
      configure_ref[OF assms] status_ref[OF assms] get_ref[OF assms] reserve_ref[OF assms]
      complete_ref[OF assms] consume_ref[OF assms] cancel_ref[OF assms])

lemma moves_le: "(led_move cur)\<^sup>*\<^sup>* g g' \<Longrightarrow> ledger_le g g'"
  by (induction rule: rtranclp_induct) (auto intro: ledger_le_trans led_move_le)

lemma run_inv_le:
  assumes "authority_run au env s s'" "inv s"
  shows "inv s' \<and> ledger_le (view s) (view s')"
  using assms
proof (induction rule: authority_run.induct)
  case (ar_op s s1 now e)
  then show ?case using op_inv op_moves moves_le ledger_le_trans by blast
next
  case (ar_env s s1 s2)
  then show ?case using env_frame[of s1 s2] by auto
qed simp

text \<open>Over any run, what is committed is what the reservations consumed, within the limit.\<close>

lemma run_within_limit:
  assumes "authority_run au env s s'" "inv s" "lg_budgets (view s') b = Some (m, c)"
  shows "c = completed_of b (lg_items (view s')) \<and> 0 \<le> c \<and> c + reserved_of b (lg_items (view s')) \<le> m"
proof -
  have li: "ledger_inv (view s')" using run_inv_le[OF assms(1,2)] inv_ledger by blast
  have "0 \<le> completed_of b rs" if "\<forall>r\<in>set rs. item_wf r" for rs
    using that by (induction rs) (auto simp: item_wf_def)
  then have "0 \<le> completed_of b (lg_items (view s'))" using ledger_invD(2)[OF li] by blast
  then show ?thesis using ledger_invD(4)[OF li assms(3)] by simp
qed

text \<open>An operation charges a reservation only while its fence is current.\<close>

lemma op_charge:
  assumes "inv s" "find_item i (lg_items (view s)) = Some r"
    "find_item i (lg_items (view (apply_budget_op au now e s))) = Some r'"
    "rsv_completed r' \<noteq> rsv_completed r"
  shows "fence now s (rsv_lease_id r) (rsv_token r)"
proof (rule ccontr)
  assume dead: "\<not> ?thesis"
  have "\<exists>x. find_item i (lg_items g) = Some x \<and> rsv_completed x = rsv_completed r \<and> item_le r x"
    if "(led_move (fence now s))\<^sup>*\<^sup>* (view s) g" for g
    using that
  proof (induction rule: rtranclp_induct)
    case base
    then show ?case using assms(2) by simp
  next
    case (step y z)
    then obtain x where x: "find_item i (lg_items y) = Some x" "rsv_completed x = rsv_completed r" "item_le r x"
      by blast
    obtain w where w: "find_item i (lg_items z) = Some w" "item_le x w"
      using led_move_le[OF step.hyps(2)] x(1) unfolding ledger_le_def by blast
    have "rsv_completed w = rsv_completed x"
      using led_move_charge[OF step.hyps(2) x(1) w(1)] dead x(3) by (auto simp: item_le_def)
    then show ?case using w x item_le_trans by metis
  qed
  from this[OF op_moves[OF assms(1), of now e]] assms(3,4) show False by auto
qed

end

end
