(* ===== verification/Lease_SQLite.thy ===== *)
theory Lease_SQLite
  imports Lease_Store
begin

text \<open>
  \<open>SQLiteLeaseStore\<close> of \<open>resources/lease_store.py\<close>. The database is the two tables
  \<open>resource_leases\<close> and \<open>resource_lease_counters\<close>; a store is the database and a namespace.
  Every operation is one \<open>BEGIN IMMEDIATE\<close> transaction, so one step; an exception inside the
  transaction rolls it back, so the error branches return the database as it was.
  The record is extensible: the budget tables live in the same database.
\<close>

record lease_db =
  lease_rows :: "(string \<times> lease) list"
  lease_counters :: "(string \<times> int) list"

abbreviation row_key :: "string \<times> lease \<Rightarrow> string \<times> string" where
  "row_key \<equiv> \<lambda>(n, l). (n, lease_id l)"

definition sql_initialize :: "string \<Rightarrow> 'a lease_db_scheme \<Rightarrow> 'a lease_db_scheme" where
  "sql_initialize ns db = (if ns \<in> fst ` set (lease_counters db) then db
     else db\<lparr>lease_counters := lease_counters db @ [(ns, 1)]\<rparr>)"

definition sql_expirable :: "string \<Rightarrow> time \<Rightarrow> string \<times> lease \<Rightarrow> bool" where
  "sql_expirable ns now = (\<lambda>(n, l). n = ns \<and> lease_status l = ''active'' \<and> expires_at l > 0 \<and> expires_at l \<le> now)"

definition sql_expire :: "string \<Rightarrow> time \<Rightarrow> 'a lease_db_scheme \<Rightarrow> nat \<times> 'a lease_db_scheme" where
  "sql_expire ns now db =
     (tbl_count (sql_expirable ns now) (lease_rows db),
      db\<lparr>lease_rows := tbl_update (sql_expirable ns now)
          (\<lambda>(n, l). (n, l\<lparr>lease_status := ''expired'', lease_updated_at := now\<rparr>)) (lease_rows db)\<rparr>)"

definition sql_select_active :: "string \<Rightarrow> 'a lease_db_scheme \<Rightarrow> lease list" where
  "sql_select_active ns db = sort_key fencing_token
     (map snd (filter (\<lambda>(n, l). n = ns \<and> lease_status l = ''active'') (lease_rows db)))"

definition sql_acquire :: "string \<Rightarrow> 'a lease_db_scheme acquire_op" where
  "sql_acquire ns c l V ttl db =
     (let now = c 0;
          db1 = snd (sql_expire ns now db);
          active = map (lease_post_init (c 1)) (sql_select_active ns db1)
      in case V active of
           Inl e \<Rightarrow> (Inl e, db)
         | Inr _ \<Rightarrow>
             (case map_of (lease_counters db1) ns of
                None \<Rightarrow> (Inl RuntimeError, db)
              | Some token \<Rightarrow>
                  let issued = issue now ttl token l in
                  if (ns, lease_id issued) \<in> row_key ` set (lease_rows db1) then (Inl IntegrityError, db)
                  else (Inr issued,
                    db1\<lparr>lease_counters := AList.update ns (token + 1) (lease_counters db1),
                        lease_rows := lease_rows db1 @ [(ns, issued)]\<rparr>)))"

definition sql_create :: "string \<Rightarrow> clock \<Rightarrow> lease \<Rightarrow> 'a lease_db_scheme \<Rightarrow> lease result \<times> 'a lease_db_scheme" where
  "sql_create ns c l db =
     sql_acquire ns (\<lambda>n. c (Suc n)) l (\<lambda>_. Inr ()) (max 0 (expires_at l - c 0)) db"

definition sql_get :: "string \<Rightarrow> clock \<Rightarrow> string \<Rightarrow> 'a lease_db_scheme \<Rightarrow> lease option \<times> 'a lease_db_scheme" where
  "sql_get ns c i db = (let db1 = snd (sql_expire ns (c 0) db)
     in (map_option (lease_post_init (c 1) \<circ> snd) (find (\<lambda>r. row_key r = (ns, i)) (lease_rows db1)), db1))"

definition sql_update :: "string \<Rightarrow> lease \<Rightarrow> 'a lease_db_scheme \<Rightarrow> unit result \<times> 'a lease_db_scheme" where
  "sql_update ns l db =
     (let P = (\<lambda>r. row_key r = (ns, lease_id l));
          db1 = db\<lparr>lease_rows := tbl_update P (\<lambda>_. (ns, l)) (lease_rows db)\<rparr>
      in if tbl_count P (lease_rows db) \<noteq> 1 then (Inl KeyError, db1) else (Inr (), db1))"

definition sql_list :: "string \<Rightarrow> clock \<Rightarrow> 'a lease_db_scheme \<Rightarrow> lease list \<times> 'a lease_db_scheme" where
  "sql_list ns c db = (let db1 = snd (sql_expire ns (c 0) db)
     in (map (lease_post_init (c 1)) (sql_select_active ns db1), db1))"

definition sql_list_all :: "string \<Rightarrow> clock \<Rightarrow> 'a lease_db_scheme \<Rightarrow> lease list" where
  "sql_list_all ns c db = map (lease_post_init (c 0))
     (sort_key fencing_token (map snd (filter (\<lambda>(n, l). n = ns) (lease_rows db))))"

definition sql_renewable :: "string \<Rightarrow> string \<Rightarrow> int \<Rightarrow> string \<times> lease \<Rightarrow> bool" where
  "sql_renewable ns i k = (\<lambda>(n, l). n = ns \<and> lease_id l = i \<and> fencing_token l = k \<and> lease_status l = ''active'')"

definition sql_renew :: "string \<Rightarrow> 'a lease_db_scheme renew_op" where
  "sql_renew ns c i k ttl db =
     (let now = c 0;
          expires = (if ttl > 0 then now + ttl else 0);
          db1 = snd (sql_expire ns now db);
          db2 = db1\<lparr>lease_rows := tbl_update (sql_renewable ns i k)
            (\<lambda>(n, l). (n, l\<lparr>lease_updated_at := now, expires_at := expires\<rparr>)) (lease_rows db1)\<rparr>
      in if tbl_count (sql_renewable ns i k) (lease_rows db1) = 1
         then (map_option (lease_post_init (c 1) \<circ> snd) (find (\<lambda>r. row_key r = (ns, i)) (lease_rows db2)), db2)
         else (None, db2))"

definition sql_releasable :: "string \<Rightarrow> string \<Rightarrow> int option \<Rightarrow> string \<times> lease \<Rightarrow> bool" where
  "sql_releasable ns i ko = (\<lambda>(n, l). n = ns \<and> lease_id l = i \<and> lease_status l = ''active''
     \<and> (case ko of None \<Rightarrow> True | Some k \<Rightarrow> fencing_token l = k))"

definition sql_release :: "string \<Rightarrow> 'a lease_db_scheme release_op" where
  "sql_release ns c i ko db =
     (tbl_count (sql_releasable ns i ko) (lease_rows db) = 1,
      db\<lparr>lease_rows := tbl_update (sql_releasable ns i ko)
          (\<lambda>(n, l). (n, l\<lparr>lease_status := ''released'', lease_updated_at := c 0\<rparr>)) (lease_rows db)\<rparr>)"

definition sql_delete :: "string \<Rightarrow> clock \<Rightarrow> string \<Rightarrow> 'a lease_db_scheme \<Rightarrow> 'a lease_db_scheme" where
  "sql_delete ns c i db = snd (sql_release ns c i None db)"

definition sql_is_current :: "string \<Rightarrow> time \<Rightarrow> string \<Rightarrow> int \<Rightarrow> 'a lease_db_scheme \<Rightarrow> bool" where
  "sql_is_current ns now i k db \<longleftrightarrow>
     list_ex (\<lambda>(n, l). n = ns \<and> lease_id l = i \<and> fencing_token l = k \<and> lease_status l = ''active''
        \<and> (expires_at l \<le> 0 \<or> expires_at l > now)) (lease_rows db)"

definition sql_recover_expired :: "string \<Rightarrow> 'a lease_db_scheme recover_op" where
  "sql_recover_expired ns c db = sql_expire ns (c 0) db"

section \<open>Invariant\<close>

definition ns_leases :: "string \<Rightarrow> 'a lease_db_scheme \<Rightarrow> lease list" where
  "ns_leases ns db = map snd (filter (\<lambda>(n, l). n = ns) (lease_rows db))"

definition sql_next :: "string \<Rightarrow> 'a lease_db_scheme \<Rightarrow> int" where
  "sql_next ns db = (case map_of (lease_counters db) ns of None \<Rightarrow> 0 | Some k \<Rightarrow> k)"

definition sql_inv :: "string \<Rightarrow> 'a lease_db_scheme \<Rightarrow> bool" where
  "sql_inv ns db \<longleftrightarrow> distinct (map row_key (lease_rows db)) \<and> 0 < sql_next ns db
     \<and> (\<forall>l\<in>set (ns_leases ns db). lease_wf l \<and> 0 < fencing_token l \<and> fencing_token l < sql_next ns db)"

definition sql_grants :: "string \<Rightarrow> 'a lease_db_scheme \<Rightarrow> time \<Rightarrow> grant multiset" where
  "sql_grants ns db t = grants_of (filter (lease_active t) (ns_leases ns db))"

lemma in_ns_leases: "l \<in> set (ns_leases ns db) \<longleftrightarrow> (ns, l) \<in> set (lease_rows db)"
  by (auto simp: ns_leases_def image_iff)

lemma sql_next_simps [simp]:
  "sql_next ns (db\<lparr>lease_rows := r\<rparr>) = sql_next ns db"
  "sql_next ns (snd (sql_expire ns' now db)) = sql_next ns db"
  by (simp_all add: sql_next_def sql_expire_def)

lemma lease_counters_expire [simp]: "lease_counters (snd (sql_expire ns now db)) = lease_counters db"
  by (simp add: sql_expire_def)

text \<open>
  Every \<open>UPDATE\<close> of the store changes columns of leases of one namespace and keeps the key. On
  the leases of that namespace it is a map.
\<close>

definition lease_update :: "string \<Rightarrow> (lease \<Rightarrow> bool) \<Rightarrow> (lease \<Rightarrow> lease) \<Rightarrow> 'a lease_db_scheme \<Rightarrow> 'a lease_db_scheme" where
  "lease_update ns P f db = db\<lparr>lease_rows := tbl_update (\<lambda>(n, l). n = ns \<and> P l) (\<lambda>(n, l). (n, f l)) (lease_rows db)\<rparr>"

lemma sql_expire_as_update:
  "snd (sql_expire ns now db) = lease_update ns (\<lambda>l. lease_status l = ''active'' \<and> expires_at l > 0 \<and> expires_at l \<le> now)
     (\<lambda>l. l\<lparr>lease_status := ''expired'', lease_updated_at := now\<rparr>) db"
  by (simp add: sql_expire_def lease_update_def sql_expirable_def)

lemma sql_release_as_update:
  "snd (sql_release ns c i ko db) = lease_update ns (\<lambda>l. lease_id l = i \<and> lease_status l = ''active''
       \<and> (case ko of None \<Rightarrow> True | Some k \<Rightarrow> fencing_token l = k))
     (\<lambda>l. l\<lparr>lease_status := ''released'', lease_updated_at := c 0\<rparr>) db"
  by (simp add: sql_release_def lease_update_def sql_releasable_def)

lemma sql_renew_as_update:
  "snd (sql_renew ns c i k ttl db) = lease_update ns
     (\<lambda>l. lease_id l = i \<and> fencing_token l = k \<and> lease_status l = ''active'')
     (\<lambda>l. l\<lparr>lease_updated_at := c 0, expires_at := (if ttl > 0 then c 0 + ttl else 0)\<rparr>)
     (snd (sql_expire ns (c 0) db))"
  by (simp add: sql_renew_def lease_update_def sql_renewable_def Let_def)

lemma rows_update:
  "map snd (filter (\<lambda>(n, l). n = ns) (tbl_update (\<lambda>(n, l). n = ns \<and> P l) (\<lambda>(n, l). (n, f l)) rows))
     = map (\<lambda>l. if P l then f l else l) (map snd (filter (\<lambda>(n, l). n = ns) rows))"
  "ns' \<noteq> ns \<Longrightarrow> filter (\<lambda>(n, l). n = ns') (tbl_update (\<lambda>(n, l). n = ns \<and> P l) (\<lambda>(n, l). (n, f l)) rows)
     = filter (\<lambda>(n, l). n = ns') rows"
  by (induction rows) auto

lemma rows_select:
  "map snd (filter (\<lambda>(n, l). n = ns \<and> P l) rows) = filter P (map snd (filter (\<lambda>(n, l). n = ns) rows))"
  by (induction rows) auto

lemma ns_leases_update [simp]:
  "ns_leases ns (lease_update ns P f db) = map (\<lambda>l. if P l then f l else l) (ns_leases ns db)"
  by (simp add: ns_leases_def lease_update_def rows_update(1) del: map_map)

lemma ns_leases_update_other:
  "ns' \<noteq> ns \<Longrightarrow> ns_leases ns' (lease_update ns P f db) = ns_leases ns' db"
  by (simp add: ns_leases_def lease_update_def rows_update(2))

lemma sql_next_update [simp]: "sql_next ns (lease_update ns' P f db) = sql_next ns db"
  by (simp add: lease_update_def)

lemma lease_update_keys:
  "(\<And>l. lease_id (f l) = lease_id l) \<Longrightarrow>
   map row_key (lease_rows (lease_update ns P f db)) = map row_key (lease_rows db)"
  by (simp add: lease_update_def) (rule map_tbl_update_same, auto)

lemma sql_inv_update:
  assumes "sql_inv ns db" "\<And>l. lease_id (f l) = lease_id l"
    "\<And>l. P l \<Longrightarrow> lease_wf l \<Longrightarrow> lease_wf (f l) \<and> fencing_token (f l) = fencing_token l"
  shows "sql_inv ns (lease_update ns P f db)"
  using assms lease_update_keys[of f ns P db] by (auto simp: sql_inv_def)

lemma sql_grants_update:
  assumes "\<And>l. l \<in> set (ns_leases ns db) \<Longrightarrow> P l \<Longrightarrow> lease_active t (f l) \<Longrightarrow> lease_active t0 l \<and> grant_of (f l) = grant_of l"
    "t0 \<le> t"
  shows "sql_grants ns (lease_update ns P f db) t \<subseteq># sql_grants ns db t0"
  unfolding sql_grants_def ns_leases_update
  by (rule grants_of_map_filter_mono) (use assms lease_active_antitone in \<open>auto split: if_splits\<close>)

lemma sql_expire_inv: "sql_inv ns db \<Longrightarrow> 0 < now \<Longrightarrow> sql_inv ns (snd (sql_expire ns now db))"
  unfolding sql_expire_as_update by (rule sql_inv_update) (auto simp: lease_wf_def)

lemma sql_expire_grants: "t0 \<le> t \<Longrightarrow> sql_grants ns (snd (sql_expire ns now db)) t \<subseteq># sql_grants ns db t0"
  unfolding sql_expire_as_update by (rule sql_grants_update) (auto simp: lease_active_def)

text \<open>After the expiry pass at \<open>now\<close> the active rows are those whose lease is active at \<open>now\<close>.\<close>

lemma sql_select_active_grants:
  assumes "sql_inv ns db"
  shows "grants_of (map (lease_post_init x) (sql_select_active ns (snd (sql_expire ns now db))))
     = sql_grants ns (snd (sql_expire ns now db)) now"
proof -
  let ?db1 = "snd (sql_expire ns now db)"
  have act: "\<And>l. l \<in> set (ns_leases ns ?db1) \<Longrightarrow> (lease_status l = ''active'') = lease_active now l"
    unfolding sql_expire_as_update ns_leases_update by (auto simp: lease_active_def)
  have wf: "\<And>l. l \<in> set (ns_leases ns ?db1) \<Longrightarrow> lease_wf l"
    using assms unfolding sql_expire_as_update ns_leases_update by (auto simp: sql_inv_def lease_wf_def)
  have "map snd (filter (\<lambda>(n, l). n = ns \<and> lease_status l = ''active'') (lease_rows ?db1))
      = filter (\<lambda>l. lease_status l = ''active'') (ns_leases ns ?db1)"
    by (simp add: ns_leases_def rows_select)
  also have "\<dots> = filter (lease_active now) (ns_leases ns ?db1)"
    using act by (rule filter_cong[OF refl])
  finally have sel: "sql_select_active ns ?db1 = sort_key fencing_token (filter (lease_active now) (ns_leases ns ?db1))"
    by (simp add: sql_select_active_def)
  have "map (lease_post_init x) (sql_select_active ns ?db1) = sql_select_active ns ?db1"
    unfolding sel by (rule map_idI) (use wf in auto)
  then show ?thesis unfolding sel by (simp add: grants_of_def sql_grants_def)
qed

lemma sql_acquire_cases:
  assumes "sql_acquire ns c l V ttl db = (res, db')"
  obtains (reject) e where "res = Inl e" "db' = db"
  | (admit) act token new where "res = Inr new" "V act = Inr ()"
      "act = map (lease_post_init (c 1)) (sql_select_active ns (snd (sql_expire ns (c 0) db)))"
      "map_of (lease_counters db) ns = Some token" "new = issue (c 0) ttl token l"
      "(ns, lease_id l) \<notin> row_key ` set (lease_rows (snd (sql_expire ns (c 0) db)))"
      "db' = (snd (sql_expire ns (c 0) db))\<lparr>
         lease_counters := AList.update ns (token + 1) (lease_counters db),
         lease_rows := lease_rows (snd (sql_expire ns (c 0) db)) @ [(ns, new)]\<rparr>"
  using assms
  by (auto simp: sql_acquire_def Let_def split: sum.splits option.splits if_splits)

lemma sql_insert_inv:
  assumes "sql_inv ns db" "lease_wf new" "fencing_token new = sql_next ns db"
    "(ns, lease_id new) \<notin> row_key ` set (lease_rows db)"
  shows "sql_inv ns (db\<lparr>lease_counters := AList.update ns (sql_next ns db + 1) (lease_counters db),
     lease_rows := lease_rows db @ [(ns, new)]\<rparr>)"
proof -
  have "ns_leases ns (db\<lparr>lease_counters := AList.update ns (sql_next ns db + 1) (lease_counters db),
     lease_rows := lease_rows db @ [(ns, new)]\<rparr>) = ns_leases ns db @ [new]"
    by (simp add: ns_leases_def)
  moreover have "distinct (map row_key (lease_rows db @ [(ns, new)]))"
    using assms(1,4) by (auto simp: sql_inv_def)
  ultimately show ?thesis
    using assms by (auto simp: sql_inv_def sql_next_def)
qed

lemma sql_acquire_inv:
  assumes "sql_inv ns db" "clock_in c t0 t1" "sql_acquire ns c l V ttl db = (res, db')"
  shows "sql_inv ns db'"
  using assms(3)
proof (cases rule: sql_acquire_cases)
  case reject
  then show ?thesis using assms by simp
next
  case (admit act token new)
  let ?db1 = "snd (sql_expire ns (c 0) db)"
  have tok: "sql_next ns ?db1 = token" "0 < token" using admit(4) assms(1) by (simp_all add: sql_next_def sql_inv_def)
  have "sql_inv ns ?db1" by (rule sql_expire_inv[OF assms(1) clock_inD(5)[OF assms(2)]])
  from sql_insert_inv[OF this, of new] show ?thesis
    using admit tok clock_inD(5)[OF assms(2)] by simp
qed

lemma sql_acquire_grants:
  assumes "sql_inv ns db" "clock_in c t0 t1" "sql_acquire ns c l V ttl db = (Inr new, db')" "t1 \<le> t"
  shows "fencing_token new = sql_next ns db \<and> sql_next ns db' = sql_next ns db + 1
      \<and> lease_id new = lease_id l \<and> lease_resources new = lease_resources l
      \<and> (\<exists>act. V act = Inr () \<and> grants_of act \<subseteq># sql_grants ns db t0
            \<and> sql_grants ns db' t \<subseteq># add_mset (grant_of new) (grants_of act))"
  using assms(3)
proof (cases rule: sql_acquire_cases)
  case (admit act token new')
  let ?db1 = "snd (sql_expire ns (c 0) db)"
  have act: "grants_of act = sql_grants ns ?db1 (c 0)"
    unfolding admit(3) by (rule sql_select_active_grants[OF assms(1)])
  have "sql_grants ns ?db1 (c 0) \<subseteq># sql_grants ns db t0"
    by (rule sql_expire_grants[OF clock_inD(1)[OF assms(2)]])
  moreover have "sql_grants ns db' t \<subseteq># add_mset (grant_of new) (sql_grants ns ?db1 t)"
    using admit(1,7) by (auto simp: sql_grants_def ns_leases_def)
  moreover have "sql_grants ns ?db1 t \<subseteq># sql_grants ns ?db1 (c 0)"
    unfolding sql_grants_def
    by (rule grants_of_filter_mono)
      (rule lease_active_antitone, assumption, rule order_trans[OF clock_inD(2)[OF assms(2)] assms(4)])
  ultimately have "grants_of act \<subseteq># sql_grants ns db t0
      \<and> sql_grants ns db' t \<subseteq># add_mset (grant_of new) (grants_of act)"
    unfolding act by (meson mset_subset_eq_add_mset_cancel subset_mset.order_trans)
  moreover have "sql_next ns db = token" "0 < token" "sql_next ns db' = token + 1"
    using admit assms(1) by (simp_all add: sql_next_def sql_inv_def)
  ultimately show ?thesis using admit(1,2,5) by auto
qed simp

lemma sql_renew_ok:
  assumes "sql_inv ns db" "clock_in c t0 t1" "sql_renew ns c i k ttl db = (x, db')" "t1 \<le> t"
  shows "sql_inv ns db' \<and> sql_next ns db' = sql_next ns db \<and> sql_grants ns db' t \<subseteq># sql_grants ns db t0"
proof -
  let ?db1 = "snd (sql_expire ns (c 0) db)"
  have db': "db' = snd (sql_renew ns c i k ttl db)" using assms(3) by simp
  have pos: "0 < c 0" by (rule clock_inD(5)[OF assms(2)])
  have inv1: "sql_inv ns ?db1" by (rule sql_expire_inv[OF assms(1) pos])
  have le: "c 0 \<le> t" using clock_inD(2)[OF assms(2), of 0] assms(4) by simp
  have "sql_inv ns db'" unfolding db' sql_renew_as_update
    by (rule sql_inv_update[OF inv1]) (use pos in \<open>auto simp: lease_wf_def\<close>)
  moreover have "sql_grants ns db' t \<subseteq># sql_grants ns ?db1 (c 0)"
    unfolding db' sql_renew_as_update
    by (rule sql_grants_update[OF _ le])
      (auto simp: sql_expire_as_update lease_active_def grant_of_def split: if_splits)
  ultimately show ?thesis
    using sql_expire_grants[OF clock_inD(1)[OF assms(2)], of ns "c 0" db]
    by (auto simp: db' sql_renew_as_update intro: subset_mset.order_trans)
qed

lemma sql_release_ok:
  assumes "sql_inv ns db" "clock_in c t0 t1" "sql_release ns c i ko db = (b, db')" "t1 \<le> t"
  shows "sql_inv ns db' \<and> sql_next ns db' = sql_next ns db \<and> sql_grants ns db' t \<subseteq># sql_grants ns db t0"
proof -
  have db': "db' = snd (sql_release ns c i ko db)" using assms(3) by simp
  have le: "t0 \<le> t" using clock_inD(4)[OF assms(2)] assms(4) by simp
  have "sql_inv ns db'" unfolding db' sql_release_as_update
    by (rule sql_inv_update[OF assms(1)]) (use clock_inD(5)[OF assms(2), of 0] in \<open>auto simp: lease_wf_def\<close>)
  moreover have "sql_grants ns db' t \<subseteq># sql_grants ns db t0" unfolding db' sql_release_as_update
    by (rule sql_grants_update[OF _ le]) (auto simp: lease_active_def)
  ultimately show ?thesis by (simp add: db' sql_release_as_update)
qed

lemma in_sql_grants:
  "(i, k, r) \<in># sql_grants ns db t \<longleftrightarrow> (\<exists>l. (ns, l) \<in> set (lease_rows db) \<and> lease_active t l
     \<and> lease_id l = i \<and> fencing_token l = k \<and> lease_resources l = r)"
  by (auto simp: sql_grants_def grants_of_def grant_of_def in_ns_leases image_iff)

lemma sql_grants_unique:
  assumes "sql_inv ns db" "(i, k, r) \<in># sql_grants ns db t" "(i, k', r') \<in># sql_grants ns db t"
  shows "k = k'"
proof -
  obtain l l' where "(ns, l) \<in> set (lease_rows db)" "(ns, l') \<in> set (lease_rows db)"
    "lease_id l = lease_id l'" "fencing_token l = k" "fencing_token l' = k'"
    using assms(2,3) by (auto simp: in_sql_grants)
  then show ?thesis
    using distinct_key_inj[of row_key "lease_rows db" "(ns, l)" "(ns, l')"] assms(1) by (auto simp: sql_inv_def)
qed

interpretation sql: lease_store "sql_inv ns" "sql_grants ns" "sql_next ns" "sql_acquire ns"
  "sql_renew ns" "sql_release ns" "sql_recover_expired ns" for ns
proof unfold_locales
  fix s :: "'a lease_db_scheme" and t t' :: time
  assume "t \<le> t'" then show "sql_grants ns s t' \<subseteq># sql_grants ns s t"
    unfolding sql_grants_def by (intro grants_of_filter_mono) (rule lease_active_antitone)
next
  fix s :: "'a lease_db_scheme" and t i k r
  assume "sql_inv ns s" "(i, k, r) \<in># sql_grants ns s t"
  then show "0 < k \<and> k < sql_next ns s" by (auto simp: in_sql_grants sql_inv_def in_ns_leases)
next
  fix s s' :: "'a lease_db_scheme" and c t0 t1 l V ttl e t
  assume a: "sql_inv ns s" "clock_in c t0 t1" "sql_acquire ns c l V ttl s = (Inl e, s')" "t1 \<le> t"
  have "s' = s" by (rule sql_acquire_cases[OF a(3)]) simp_all
  moreover have "t0 \<le> t" using a clock_inD(4) by fastforce
  ultimately show "sql_next ns s' = sql_next ns s \<and> sql_grants ns s' t \<subseteq># sql_grants ns s t0"
    unfolding sql_grants_def by (auto intro!: grants_of_filter_mono intro: lease_active_antitone)
next
  fix s s' :: "'a lease_db_scheme" and c t0 t1 n t
  assume a: "sql_inv ns s" "clock_in c t0 t1" "sql_recover_expired ns c s = (n, s')" "t1 \<le> t"
  have s': "s' = snd (sql_expire ns (c 0) s)" using a(3) by (simp add: sql_recover_expired_def)
  have "t0 \<le> t" using a clock_inD(4) by fastforce
  then show "sql_inv ns s' \<and> sql_next ns s' = sql_next ns s \<and> sql_grants ns s' t \<subseteq># sql_grants ns s t0"
    unfolding s' using sql_expire_inv[OF a(1) clock_inD(5)[OF a(2)]] sql_expire_grants by simp
qed (rule sql_acquire_inv sql_acquire_grants sql_renew_ok sql_release_ok sql_grants_unique; assumption)+

text \<open>\<open>is_current\<close> is exactly membership of the grants at that time.\<close>

lemma sql_is_current_iff:
  "sql_is_current ns t i k db \<longleftrightarrow> (\<exists>r. (i, k, r) \<in># sql_grants ns db t)"
  by (auto simp: sql_is_current_def in_sql_grants list_ex_iff lease_active_def)

end
