(* ===== verification/Budget_SQLite.thy ===== *)
theory Budget_SQLite
  imports Budget_Ledger Lease_SQLite
begin

text \<open>
  \<open>SQLiteBudgetAuthority\<close> of \<open>resources/budget.py\<close>: the two budget tables beside the
  lease tables of the same database, and one definition per method. An authority is a namespace and
  a scope. Every method is one \<open>BEGIN IMMEDIATE\<close> transaction; an exception rolls it back,
  so the error branches return the database as it was.
\<close>

record budget_row =
  br_namespace :: string
  br_scope :: string
  br_budget :: string
  br_limit :: int
  br_committed :: int
  br_created_at :: time
  br_updated_at :: time

record budget_db = lease_db +
  budget_rows :: "budget_row list"
  reservation_rows :: "(string \<times> reservation) list"

abbreviation budget_key :: "budget_row \<Rightarrow> string \<times> string \<times> string" where
  "budget_key \<equiv> \<lambda>b. (br_namespace b, br_scope b, br_budget b)"

abbreviation reservation_row_key :: "string \<times> reservation \<Rightarrow> string \<times> string \<times> string" where
  "reservation_row_key \<equiv> \<lambda>(n, r). (n, rsv_scope r, reservation_id r)"

definition sqb_budget_row :: "string \<Rightarrow> string \<Rightarrow> string \<Rightarrow> 'a budget_db_scheme \<Rightarrow> budget_row option" where
  "sqb_budget_row ns sc b db = find (\<lambda>row. budget_key row = (ns, sc, b)) (budget_rows db)"

definition sqb_reservation_row :: "string \<Rightarrow> string \<Rightarrow> string \<Rightarrow> 'a budget_db_scheme \<Rightarrow> reservation option" where
  "sqb_reservation_row ns sc i db =
     map_option snd (find (\<lambda>row. reservation_row_key row = (ns, sc, i)) (reservation_rows db))"

definition sqb_reserved :: "string \<Rightarrow> string \<Rightarrow> string \<Rightarrow> 'a budget_db_scheme \<Rightarrow> int" where
  "sqb_reserved ns sc b db = sum_list (map (\<lambda>(n, r). rsv_amount r - rsv_completed r)
     (filter (\<lambda>(n, r). n = ns \<and> rsv_scope r = sc \<and> rsv_budget r = b \<and> rsv_status r = ''active'')
        (reservation_rows db)))"

definition sqb_fence_current :: "string \<Rightarrow> time \<Rightarrow> 'a budget_db_scheme \<Rightarrow> fence" where
  "sqb_fence_current ns now db i k \<longleftrightarrow>
     list_ex (\<lambda>(n, l). n = ns \<and> lease_id l = i \<and> fencing_token l = k \<and> lease_status l = ''active''
        \<and> (expires_at l \<le> 0 \<or> expires_at l > now)) (lease_rows db)"

definition sqb_is_stale :: "string \<Rightarrow> string \<Rightarrow> time \<Rightarrow> 'a budget_db_scheme \<Rightarrow> string \<times> reservation \<Rightarrow> bool" where
  "sqb_is_stale ns sc now db = (\<lambda>(n, r). n = ns \<and> rsv_scope r = sc \<and> rsv_status r = ''active''
     \<and> \<not> sqb_fence_current n now db (rsv_lease_id r) (rsv_token r))"

definition sqb_reclaim_stale :: "string \<Rightarrow> string \<Rightarrow> time \<Rightarrow> 'a budget_db_scheme \<Rightarrow> nat \<times> 'a budget_db_scheme" where
  "sqb_reclaim_stale ns sc now db =
     (tbl_count (sqb_is_stale ns sc now db) (reservation_rows db),
      db\<lparr>reservation_rows := tbl_update (sqb_is_stale ns sc now db)
          (\<lambda>(n, r). (n, r\<lparr>rsv_status := ''reclaimed'', rsv_updated_at := now\<rparr>)) (reservation_rows db)\<rparr>)"

definition sqb_add_committed :: "string \<Rightarrow> string \<Rightarrow> string \<Rightarrow> int \<Rightarrow> time \<Rightarrow> 'a budget_db_scheme \<Rightarrow> 'a budget_db_scheme" where
  "sqb_add_committed ns sc b delta now db = db\<lparr>budget_rows :=
     tbl_update (\<lambda>row. budget_key row = (ns, sc, b))
       (\<lambda>row. row\<lparr>br_committed := br_committed row + delta, br_updated_at := now\<rparr>) (budget_rows db)\<rparr>"

definition sqb_set_reservation ::
  "string \<Rightarrow> string \<Rightarrow> string \<Rightarrow> (reservation \<Rightarrow> reservation) \<Rightarrow> 'a budget_db_scheme \<Rightarrow> 'a budget_db_scheme" where
  "sqb_set_reservation ns sc i f db = db\<lparr>reservation_rows :=
     tbl_update (\<lambda>row. reservation_row_key row = (ns, sc, i)) (\<lambda>(n, r). (n, f r)) (reservation_rows db)\<rparr>"

section \<open>Methods\<close>

definition sqb_configure :: "string \<Rightarrow> string \<Rightarrow> time \<Rightarrow> string \<Rightarrow> int \<Rightarrow> 'a budget_db_scheme \<Rightarrow> unit result \<times> 'a budget_db_scheme" where
  "sqb_configure ns sc now b m db =
     (case budget_name b of Inl e \<Rightarrow> (Inl e, db) | Inr name \<Rightarrow>
      case budget_limit m of Inl e \<Rightarrow> (Inl e, db) | Inr maximum \<Rightarrow>
      case sqb_budget_row ns sc name db of
        None \<Rightarrow> (Inr (), db\<lparr>budget_rows := budget_rows db @
          [\<lparr>br_namespace = ns, br_scope = sc, br_budget = name, br_limit = maximum, br_committed = 0,
            br_created_at = now, br_updated_at = now\<rparr>]\<rparr>)
      | Some row \<Rightarrow> if br_limit row \<noteq> maximum then (Inl SharedBudgetConfigurationError, db) else (Inr (), db))"

definition sqb_status :: "string \<Rightarrow> string \<Rightarrow> time \<Rightarrow> string \<Rightarrow> 'a budget_db_scheme \<Rightarrow> budget_snapshot result \<times> 'a budget_db_scheme" where
  "sqb_status ns sc now b db =
     (case budget_name b of Inl e \<Rightarrow> (Inl e, db) | Inr name \<Rightarrow>
      let (reclaimed, db1) = sqb_reclaim_stale ns sc now db in
      case sqb_budget_row ns sc name db1 of
        None \<Rightarrow> (Inl KeyError, db)
      | Some row \<Rightarrow> (Inr \<lparr>snap_scope = sc, snap_budget = name, snap_limit = br_limit row,
            snap_committed = br_committed row, snap_reserved = sqb_reserved ns sc name db1,
            snap_reclaimed = reclaimed\<rparr>, db1))"

definition sqb_reservation :: "string \<Rightarrow> string \<Rightarrow> time \<Rightarrow> string \<Rightarrow> 'a budget_db_scheme \<Rightarrow> reservation option result \<times> 'a budget_db_scheme" where
  "sqb_reservation ns sc now i db =
     (case reservation_ident i of Inl e \<Rightarrow> (Inl e, db) | Inr identifier \<Rightarrow>
      let db1 = snd (sqb_reclaim_stale ns sc now db) in (Inr (sqb_reservation_row ns sc identifier db1), db1))"

definition sqb_reserve ::
  "string \<Rightarrow> string \<Rightarrow> time \<Rightarrow> string \<Rightarrow> int \<Rightarrow> string \<Rightarrow> int \<Rightarrow> string \<Rightarrow> string \<Rightarrow> 'a budget_db_scheme
    \<Rightarrow> reservation result \<times> 'a budget_db_scheme" where
  "sqb_reserve ns sc now b a l k fresh i db =
     (case budget_name b of Inl e \<Rightarrow> (Inl e, db) | Inr name \<Rightarrow>
      case reservation_amount a of Inl e \<Rightarrow> (Inl e, db) | Inr requested \<Rightarrow>
      let identifier = reservation_key fresh i in
      if \<not> sqb_fence_current ns now db l k then (Inl SharedBudgetFenceError, db)
      else let db1 = snd (sqb_reclaim_stale ns sc now db) in
        case sqb_reservation_row ns sc identifier db1 of
          Some existing \<Rightarrow> if same_request name requested l k existing then (Inr existing, db1)
            else (Inl SharedBudgetConfigurationError, db)
        | None \<Rightarrow>
            (case sqb_budget_row ns sc name db1 of
               None \<Rightarrow> (Inl KeyError, db)
             | Some row \<Rightarrow>
                 let reserved = sqb_reserved ns sc name db1;
                     remaining = max 0 (br_limit row - br_committed row - reserved) in
                 if requested > remaining then (Inl SharedBudgetExceeded, db)
                 else let r = new_reservation sc identifier name requested l k now
                      in (Inr r, db1\<lparr>reservation_rows := reservation_rows db1 @ [(ns, r)]\<rparr>)))"

definition sqb_complete :: "string \<Rightarrow> string \<Rightarrow> time \<Rightarrow> string \<Rightarrow> int \<Rightarrow> 'a budget_db_scheme \<Rightarrow> reservation result \<times> 'a budget_db_scheme" where
  "sqb_complete ns sc now i completed db =
     (case reservation_ident i of Inl e \<Rightarrow> (Inl e, db) | Inr identifier \<Rightarrow>
      let count = max 0 completed in
      case sqb_reservation_row ns sc identifier db of
        None \<Rightarrow> (Inl KeyError, db)
      | Some current \<Rightarrow>
          if rsv_status current = ''completed'' \<and> rsv_completed current = count then (Inr current, db)
          else if rsv_status current \<noteq> ''active'' then (Inl SharedBudgetFenceError, db)
          else if count > rsv_amount current then (Inl ValueError, db)
          else if count < rsv_completed current then (Inl ValueError, db)
          else if \<not> sqb_fence_current ns now db (rsv_lease_id current) (rsv_token current)
            then (Inl SharedBudgetFenceError, db)
          else let delta = count - rsv_completed current;
                   db1 = (if delta \<noteq> 0 then sqb_add_committed ns sc (rsv_budget current) delta now db else db);
                   close = (\<lambda>r. r\<lparr>rsv_status := ''completed'', rsv_completed := count, rsv_updated_at := now\<rparr>)
               in (Inr (close current), sqb_set_reservation ns sc identifier close db1))"

definition sqb_consume :: "string \<Rightarrow> string \<Rightarrow> time \<Rightarrow> string \<Rightarrow> int \<Rightarrow> 'a budget_db_scheme \<Rightarrow> reservation result \<times> 'a budget_db_scheme" where
  "sqb_consume ns sc now i amount db =
     (case reservation_ident i of Inl e \<Rightarrow> (Inl e, db) | Inr identifier \<Rightarrow>
      case reservation_amount amount of Inl e \<Rightarrow> (Inl e, db) | Inr delta \<Rightarrow>
      case sqb_reservation_row ns sc identifier db of
        None \<Rightarrow> (Inl KeyError, db)
      | Some current \<Rightarrow>
          if rsv_status current \<noteq> ''active'' then (Inl SharedBudgetFenceError, db)
          else if rsv_completed current + delta > rsv_amount current then (Inl ValueError, db)
          else if \<not> sqb_fence_current ns now db (rsv_lease_id current) (rsv_token current)
            then (Inl SharedBudgetFenceError, db)
          else let consumed = rsv_completed current + delta;
                   charge = (\<lambda>r. r\<lparr>rsv_completed := consumed, rsv_updated_at := now\<rparr>)
               in (Inr (charge current), sqb_set_reservation ns sc identifier charge
                     (sqb_add_committed ns sc (rsv_budget current) delta now db)))"

definition sqb_cancel :: "string \<Rightarrow> string \<Rightarrow> time \<Rightarrow> string \<Rightarrow> 'a budget_db_scheme \<Rightarrow> bool result \<times> 'a budget_db_scheme" where
  "sqb_cancel ns sc now i db =
     (case reservation_ident i of Inl e \<Rightarrow> (Inl e, db) | Inr identifier \<Rightarrow>
      case sqb_reservation_row ns sc identifier db of
        None \<Rightarrow> (Inr False, db)
      | Some current \<Rightarrow>
          if rsv_status current \<noteq> ''active''
             \<or> \<not> sqb_fence_current ns now db (rsv_lease_id current) (rsv_token current)
          then (Inr False, db)
          else (Inr True, sqb_set_reservation ns sc identifier
                  (\<lambda>r. r\<lparr>rsv_status := ''cancelled'', rsv_updated_at := now\<rparr>) db))"

definition sql_authority :: "string \<Rightarrow> string \<Rightarrow> 'a budget_db_scheme authority" where
  "sql_authority ns sc = \<lparr>au_configure = sqb_configure ns sc, au_status = sqb_status ns sc,
     au_get = sqb_reservation ns sc, au_reserve = sqb_reserve ns sc, au_complete = sqb_complete ns sc,
     au_consume = sqb_consume ns sc, au_cancel = sqb_cancel ns sc\<rparr>"

section \<open>Refinement of the ledger\<close>

definition sqb_items :: "string \<Rightarrow> string \<Rightarrow> 'a budget_db_scheme \<Rightarrow> reservation list" where
  "sqb_items ns sc db = map snd (filter (\<lambda>(n, r). n = ns \<and> rsv_scope r = sc) (reservation_rows db))"

definition sqb_view :: "string \<Rightarrow> string \<Rightarrow> 'a budget_db_scheme \<Rightarrow> ledger" where
  "sqb_view ns sc db = \<lparr>lg_budgets = (\<lambda>b. map_option (\<lambda>row. (br_limit row, br_committed row)) (sqb_budget_row ns sc b db)),
     lg_items = sqb_items ns sc db\<rparr>"

definition sqb_inv :: "string \<Rightarrow> string \<Rightarrow> 'a budget_db_scheme \<Rightarrow> bool" where
  "sqb_inv ns sc db \<longleftrightarrow> distinct (map budget_key (budget_rows db))
     \<and> distinct (map reservation_row_key (reservation_rows db)) \<and> ledger_inv (sqb_view ns sc db)"

lemma sqb_view_simps [simp]:
  "lg_budgets (sqb_view ns sc db) b = map_option (\<lambda>row. (br_limit row, br_committed row)) (sqb_budget_row ns sc b db)"
  "lg_items (sqb_view ns sc db) = sqb_items ns sc db"
  by (simp_all add: sqb_view_def)

lemma sqb_row_is_find_item: "sqb_reservation_row ns sc i db = find_item i (sqb_items ns sc db)"
proof -
  have "map_option snd (find (\<lambda>row. reservation_row_key row = (ns, sc, i)) rows)
      = find_item i (map snd (filter (\<lambda>(n, r). n = ns \<and> rsv_scope r = sc) rows))" for rows
    by (induction rows) auto
  then show ?thesis by (simp add: sqb_reservation_row_def sqb_items_def)
qed

lemma sqb_reserved_is_reserved_of: "sqb_reserved ns sc b db = reserved_of b (sqb_items ns sc db)"
proof -
  have "sum_list (map (\<lambda>(n, r). rsv_amount r - rsv_completed r)
      (filter (\<lambda>(n, r). n = ns \<and> rsv_scope r = sc \<and> rsv_budget r = b \<and> rsv_status r = ''active'') rows))
    = reserved_of b (map snd (filter (\<lambda>(n, r). n = ns \<and> rsv_scope r = sc) rows))" for rows
    by (induction rows) auto
  then show ?thesis by (simp add: sqb_reserved_def sqb_items_def)
qed

text \<open>An \<open>UPDATE\<close> of reservations of one namespace and scope is a map over its items.\<close>

lemma items_update:
  assumes "\<And>r. rsv_scope r = sc \<Longrightarrow> rsv_scope (f r) = sc"
  shows "map snd (filter (\<lambda>(n, r). n = ns \<and> rsv_scope r = sc)
      (tbl_update (\<lambda>(n, r). n = ns \<and> rsv_scope r = sc \<and> P n r) (\<lambda>(n, r). (n, f r)) rows))
    = map (\<lambda>r. if P ns r then f r else r) (map snd (filter (\<lambda>(n, r). n = ns \<and> rsv_scope r = sc) rows))"
  using assms by (induction rows) auto

lemma sqb_reclaim_view:
  "sqb_view ns sc (snd (sqb_reclaim_stale ns sc now db))
     = snd (led_reclaim (sqb_fence_current ns now db) now (sqb_view ns sc db))"
  "fst (sqb_reclaim_stale ns sc now db) = fst (led_reclaim (sqb_fence_current ns now db) now (sqb_view ns sc db))"
proof -
  let ?cur = "sqb_fence_current ns now db"
  have P: "sqb_is_stale ns sc now db = (\<lambda>(n, r). n = ns \<and> rsv_scope r = sc \<and> stale ?cur r)"
    by (auto simp: sqb_is_stale_def stale_def)
  have "sqb_items ns sc (snd (sqb_reclaim_stale ns sc now db))
      = map (\<lambda>r. if stale ?cur r then mark ''reclaimed'' now r else r) (sqb_items ns sc db)"
    using items_update[of sc "mark ''reclaimed'' now" ns "\<lambda>n. stale ?cur" "reservation_rows db"]
    by (simp add: sqb_items_def sqb_reclaim_stale_def P mark_def)
  then show "sqb_view ns sc (snd (sqb_reclaim_stale ns sc now db)) = snd (led_reclaim ?cur now (sqb_view ns sc db))"
    by (simp add: sqb_view_def led_reclaim_def) (simp add: sqb_reclaim_stale_def sqb_budget_row_def)
  have "length (filter (\<lambda>(n, r). n = ns \<and> rsv_scope r = sc \<and> stale ?cur r) rows)
      = length (filter (stale ?cur) (map snd (filter (\<lambda>(n, r). n = ns \<and> rsv_scope r = sc) rows)))" for rows
    by (induction rows) auto
  then show "fst (sqb_reclaim_stale ns sc now db) = fst (led_reclaim ?cur now (sqb_view ns sc db))"
    by (simp add: sqb_reclaim_stale_def tbl_count_def P led_reclaim_def sqb_items_def)
qed

lemma sqb_reclaim_frame [simp]:
  "budget_rows (snd (sqb_reclaim_stale ns sc now db)) = budget_rows db"
  "lease_rows (snd (sqb_reclaim_stale ns sc now db)) = lease_rows db"
  "map reservation_row_key (reservation_rows (snd (sqb_reclaim_stale ns sc now db)))
    = map reservation_row_key (reservation_rows db)"
  by (simp_all add: sqb_reclaim_stale_def) (rule map_tbl_update_same, auto)

lemma sqb_add_committed_view:
  assumes "distinct (map budget_key (budget_rows db))"
  shows "sqb_view ns sc (sqb_add_committed ns sc b d now db)
    = \<lparr>lg_budgets = add_committed b d (lg_budgets (sqb_view ns sc db)), lg_items = sqb_items ns sc db\<rparr>"
proof -
  have "map_option (\<lambda>row. (br_limit row, br_committed row)) (find (\<lambda>row. budget_key row = (ns, sc, b'))
        (tbl_update (\<lambda>row. budget_key row = (ns, sc, b))
          (\<lambda>row. row\<lparr>br_committed := br_committed row + d, br_updated_at := now\<rparr>) rows))
      = add_committed b d (\<lambda>b. map_option (\<lambda>row. (br_limit row, br_committed row))
          (find (\<lambda>row. budget_key row = (ns, sc, b)) rows)) b'" for rows b'
    by (induction rows) (auto simp: add_committed_def)
  then show ?thesis by (simp add: sqb_view_def sqb_add_committed_def sqb_budget_row_def sqb_items_def fun_eq_iff)
qed

lemma sqb_add_committed_frame [simp]:
  "lease_rows (sqb_add_committed ns sc b d now db) = lease_rows db"
  "reservation_rows (sqb_add_committed ns sc b d now db) = reservation_rows db"
  "map budget_key (budget_rows (sqb_add_committed ns sc b d now db)) = map budget_key (budget_rows db)"
  by (simp_all add: sqb_add_committed_def) (rule map_tbl_update_same, auto)

lemma map_put_item:
  assumes "distinct (map reservation_id rs)" "find_item i rs = Some r" "reservation_id (f r) = i"
  shows "map (\<lambda>r. if reservation_id r = i then f r else r) rs = put_item (f r) rs"
  using assms
proof (induction rs)
  case (Cons x rs)
  show ?case
  proof (cases "reservation_id x = i")
    case True
    then have "\<forall>y\<in>set rs. reservation_id y \<noteq> i" using Cons.prems(1) by simp (metis image_eqI)
    then have "map (\<lambda>r. if reservation_id r = i then f r else r) rs = rs"
      "put_item (f r) rs = rs" using Cons.prems(3) by (auto intro!: map_idI put_item_absent)
    then show ?thesis using True Cons.prems by simp
  qed (use Cons in auto)
qed simp

lemma sqb_set_reservation_view:
  assumes "distinct (map reservation_id (sqb_items ns sc db))" "find_item i (sqb_items ns sc db) = Some r"
    "\<And>r. reservation_id (f r) = reservation_id r \<and> rsv_scope (f r) = rsv_scope r"
  shows "sqb_view ns sc (sqb_set_reservation ns sc i f db)
    = (sqb_view ns sc db)\<lparr>lg_items := put_item (f r) (sqb_items ns sc db)\<rparr>"
proof -
  have P: "(\<lambda>row. reservation_row_key row = (ns, sc, i))
      = (\<lambda>(n, r). n = ns \<and> rsv_scope r = sc \<and> reservation_id r = i)" by (auto simp: fun_eq_iff)
  have "sqb_items ns sc (sqb_set_reservation ns sc i f db)
      = map (\<lambda>r. if reservation_id r = i then f r else r) (sqb_items ns sc db)"
    using items_update[of sc f ns "\<lambda>n r. reservation_id r = i" "reservation_rows db"] assms(3)
    by (simp add: sqb_items_def sqb_set_reservation_def P)
  also have "\<dots> = put_item (f r) (sqb_items ns sc db)"
    using assms find_item_SomeD[OF assms(2)] by (intro map_put_item) auto
  finally show ?thesis by (simp add: sqb_view_def sqb_set_reservation_def sqb_budget_row_def)
qed

lemma sqb_set_reservation_frame [simp]:
  "budget_rows (sqb_set_reservation ns sc i f db) = budget_rows db"
  "(\<And>r. reservation_id (f r) = reservation_id r \<and> rsv_scope (f r) = rsv_scope r) \<Longrightarrow>
    map reservation_row_key (reservation_rows (sqb_set_reservation ns sc i f db)) = map reservation_row_key (reservation_rows db)"
  by (simp_all add: sqb_set_reservation_def) (rule map_tbl_update_same, auto)

lemma sqb_invD:
  assumes "sqb_inv ns sc db"
  shows "distinct (map budget_key (budget_rows db))" "distinct (map reservation_row_key (reservation_rows db))"
    "ledger_inv (sqb_view ns sc db)" "distinct (map reservation_id (sqb_items ns sc db))"
  using assms by (auto simp: sqb_inv_def ledger_inv_def)

lemma sqb_configure_ref:
  "map_prod id (sqb_view ns sc) (sqb_configure ns sc now b m db)
     = settle_with True (sqb_view ns sc db) (led_configure b m (sqb_view ns sc db))"
proof -
  have "find (\<lambda>row. budget_key row = (ns, sc, x)) (rows @ [r])
      = (case find (\<lambda>row. budget_key row = (ns, sc, x)) rows of
           None \<Rightarrow> if budget_key r = (ns, sc, x) then Some r else None | Some y \<Rightarrow> Some y)" for x rows r
    by (induction rows) auto
  then show ?thesis
    by (auto simp: sqb_configure_def led_configure_def settle_with_def sqb_view_def sqb_items_def
        sqb_budget_row_def fun_eq_iff split: sum.splits option.splits)
qed

lemma sqb_status_ref:
  "map_prod id (sqb_view ns sc) (sqb_status ns sc now b db)
     = settle_with True (sqb_view ns sc db) (led_status sc (sqb_fence_current ns now db) now b (sqb_view ns sc db))"
proof (cases "budget_name b")
  case (Inr name)
  obtain n db1 where r: "sqb_reclaim_stale ns sc now db = (n, db1)" by (metis prod.exhaust)
  have "led_reclaim (sqb_fence_current ns now db) now (sqb_view ns sc db) = (n, sqb_view ns sc db1)"
    using sqb_reclaim_view[of ns sc now db] by (simp add: r prod_eq_iff)
  then show ?thesis using Inr
    by (cases "sqb_budget_row ns sc name db1")
      (auto simp: sqb_status_def led_status_def settle_with_def r sqb_reserved_is_reserved_of)
qed (simp add: sqb_status_def led_status_def settle_with_def)

lemma sqb_get_ref:
  "map_prod id (sqb_view ns sc) (sqb_reservation ns sc now i db)
     = settle_with True (sqb_view ns sc db) (led_get (sqb_fence_current ns now db) now i (sqb_view ns sc db))"
  by (auto simp: sqb_reservation_def led_get_def settle_with_def Let_def sqb_row_is_find_item
      simp flip: sqb_reclaim_view(1) split: sum.splits)

lemma sqb_reserve_ref:
  "map_prod id (sqb_view ns sc) (sqb_reserve ns sc now b a l k fresh i db)
     = settle_with True (sqb_view ns sc db)
         (led_reserve sc (sqb_fence_current ns now db) now b a l k (reservation_key fresh i) (sqb_view ns sc db))"
proof (cases "budget_name b"; cases "reservation_amount a")
  fix name q assume a: "budget_name b = Inr name" "reservation_amount a = Inr q"
  let ?db1 = "snd (sqb_reclaim_stale ns sc now db)" and ?i = "reservation_key fresh i"
  have app: "sqb_view ns sc (?db1\<lparr>reservation_rows := reservation_rows ?db1 @ [(ns, r)]\<rparr>)
      = (sqb_view ns sc ?db1)\<lparr>lg_items := sqb_items ns sc ?db1 @ [r]\<rparr>" if "rsv_scope r = sc" for r
    using that by (simp add: sqb_view_def sqb_items_def sqb_budget_row_def)
  have sc: "rsv_scope (new_reservation sc i b a l k now) = sc" for i b a l k now
    by (simp add: new_reservation_def)
  show ?thesis
    using a unfolding sqb_reserve_def led_reserve_def
    by (auto simp: settle_with_def Let_def sqb_row_is_find_item sqb_reserved_is_reserved_of app sc
        simp flip: sqb_reclaim_view(1) split: option.splits)
qed (simp_all add: sqb_reserve_def led_reserve_def settle_with_def)

text \<open>A charge writes the budget row and the reservation row.\<close>

lemma sqb_charge_view:
  assumes "sqb_inv ns sc db" "find_item i (sqb_items ns sc db) = Some r"
    "\<And>r. reservation_id (f r) = reservation_id r \<and> rsv_scope (f r) = rsv_scope r"
  shows "sqb_view ns sc (sqb_set_reservation ns sc i f (sqb_add_committed ns sc b d now db))
    = \<lparr>lg_budgets = add_committed b d (lg_budgets (sqb_view ns sc db)),
       lg_items = put_item (f r) (sqb_items ns sc db)\<rparr>"
proof -
  have items: "sqb_items ns sc (sqb_add_committed ns sc b d now db) = sqb_items ns sc db"
    by (simp add: sqb_items_def)
  show ?thesis
    using sqb_set_reservation_view[of ns sc "sqb_add_committed ns sc b d now db" i r f] assms
      sqb_add_committed_view[OF sqb_invD(1)[OF assms(1)]] sqb_invD(4)[OF assms(1)]
    by (simp add: items)
qed

lemma sqb_complete_ref:
  assumes "sqb_inv ns sc db"
  shows "map_prod id (sqb_view ns sc) (sqb_complete ns sc now i n db)
     = settle_with True (sqb_view ns sc db) (led_complete (sqb_fence_current ns now db) now i n (sqb_view ns sc db))"
proof (cases "reservation_ident i"; cases "find_item i (sqb_items ns sc db)")
  fix i' r assume a: "reservation_ident i = Inr i'" "find_item i (sqb_items ns sc db) = Some r"
  have i': "i' = i" using a(1) budget_checks(4) by simp
  have set0: "sqb_view ns sc (sqb_set_reservation ns sc i f db)
      = \<lparr>lg_budgets = lg_budgets (sqb_view ns sc db), lg_items = put_item (f r) (sqb_items ns sc db)\<rparr>"
    if "\<And>r. reservation_id (f r) = reservation_id r \<and> rsv_scope (f r) = rsv_scope r" for f
    using sqb_set_reservation_view[OF sqb_invD(4)[OF assms] a(2) that] by (simp add: sqb_view_def)
  show ?thesis
    using a(1) unfolding sqb_complete_def led_complete_def
    by (auto simp: i' settle_with_def Let_def sqb_row_is_find_item a(2) set0 sqb_charge_view[OF assms a(2)])
qed (auto simp: sqb_complete_def led_complete_def settle_with_def Let_def sqb_row_is_find_item
    reservation_ident_def reservation_amount_def split: if_splits)

lemma sqb_consume_ref:
  assumes "sqb_inv ns sc db"
  shows "map_prod id (sqb_view ns sc) (sqb_consume ns sc now i n db)
     = settle_with True (sqb_view ns sc db) (led_consume (sqb_fence_current ns now db) now i n (sqb_view ns sc db))"
proof (cases "reservation_ident i"; cases "reservation_amount n"; cases "find_item i (sqb_items ns sc db)")
  fix i' n' r assume a: "reservation_ident i = Inr i'" "reservation_amount n = Inr n'"
    "find_item i (sqb_items ns sc db) = Some r"
  have i': "i' = i" using a(1) budget_checks(4) by simp
  show ?thesis
    using a(1,2) unfolding sqb_consume_def led_consume_def
    by (auto simp: i' settle_with_def Let_def sqb_row_is_find_item a(3) sqb_charge_view[OF assms a(3)])
qed (auto simp: sqb_consume_def led_consume_def settle_with_def Let_def sqb_row_is_find_item
    reservation_ident_def reservation_amount_def split: if_splits)

lemma sqb_cancel_ref:
  assumes "sqb_inv ns sc db"
  shows "map_prod id (sqb_view ns sc) (sqb_cancel ns sc now i db)
     = settle_with True (sqb_view ns sc db) (led_cancel (sqb_fence_current ns now db) now i (sqb_view ns sc db))"
proof (cases "reservation_ident i"; cases "find_item i (sqb_items ns sc db)")
  fix i' r assume a: "reservation_ident i = Inr i'" "find_item i (sqb_items ns sc db) = Some r"
  have i': "i' = i" using a(1) budget_checks(4) by simp
  show ?thesis
    using a(1) unfolding sqb_cancel_def led_cancel_def
    by (auto simp: i' settle_with_def sqb_row_is_find_item a(2)
        sqb_set_reservation_view[OF sqb_invD(4)[OF assms] a(2)] mark_def)
qed (auto simp: sqb_cancel_def led_cancel_def settle_with_def sqb_row_is_find_item
    reservation_ident_def reservation_amount_def split: if_splits)

section \<open>Keys\<close>

lemma reserve_new_key:
  "find_item i (sqb_items ns sc db) = None \<Longrightarrow> (ns, sc, i) \<notin> reservation_row_key ` set (reservation_rows db)"
  by (force simp: find_item_None sqb_items_def)

lemma sqb_keys:
  assumes "sqb_inv ns sc db"
  shows "distinct (map budget_key (budget_rows (apply_budget_op (sql_authority ns sc) now e db)))"
    "distinct (map reservation_row_key (reservation_rows (apply_budget_op (sql_authority ns sc) now e db)))"
proof -
  note d = sqb_invD(1,2)[OF assms]
  have new: "sqb_budget_row ns sc name db = None \<Longrightarrow> (ns, sc, name) \<notin> budget_key ` set (budget_rows db)" for name
    by (auto simp: sqb_budget_row_def find_None_iff)
  have res: "distinct (map reservation_row_key (reservation_rows (snd (sqb_reclaim_stale ns sc now db))))"
    using d by simp
  have ins: "distinct (map reservation_row_key (reservation_rows (snd (sqb_reclaim_stale ns sc now db))
        @ [(ns, new_reservation sc i b a l k now)]))"
    if "sqb_reservation_row ns sc i (snd (sqb_reclaim_stale ns sc now db)) = None" for i b a l k
    using res reserve_new_key[OF that[unfolded sqb_row_is_find_item]]
    by (simp add: new_reservation_def del: sqb_reclaim_frame)
  show "distinct (map budget_key (budget_rows (apply_budget_op (sql_authority ns sc) now e db)))"
    using d new by (cases e) (auto simp: sql_authority_def sqb_configure_def sqb_status_def sqb_reservation_def
        sqb_reserve_def sqb_complete_def sqb_consume_def sqb_cancel_def Let_def
        split: sum.splits option.splits prod.splits dest!: arg_cong[of _ _ snd] simp flip: prod.collapse)
  have st: "snd (sqb_status ns sc now b db) = db
      \<or> snd (sqb_status ns sc now b db) = snd (sqb_reclaim_stale ns sc now db)" for b
    by (auto simp: sqb_status_def case_prod_unfold Let_def split: sum.splits option.splits)
  show "distinct (map reservation_row_key (reservation_rows (apply_budget_op (sql_authority ns sc) now e db)))"
  proof (cases "\<exists>b. e = BStatus b")
    case True
    then obtain b where "e = BStatus b" by blast
    then show ?thesis using st[of b] d(2) res by (elim disjE) (simp_all add: sql_authority_def)
  next
    case False
    then show ?thesis
      using d res ins by (cases e) (auto simp: sql_authority_def sqb_configure_def sqb_reservation_def
          sqb_reserve_def sqb_complete_def sqb_consume_def sqb_cancel_def Let_def
          simp del: sqb_reclaim_frame split: sum.splits option.splits)
  qed
qed

lemma sqb_op_inv:
  assumes "sqb_inv ns sc db"
  shows "sqb_inv ns sc (apply_budget_op (sql_authority ns sc) now e db)"
proof -
  note ref = sqb_configure_ref sqb_status_ref sqb_get_ref sqb_reserve_ref
    sqb_complete_ref[OF assms] sqb_consume_ref[OF assms] sqb_cancel_ref[OF assms]
  have "ledger_inv (sqb_view ns sc (apply_budget_op (sql_authority ns sc) now e db))"
    using sqb_invD(3)[OF assms]
    by (cases e) (auto simp: sql_authority_def intro: settled_inv[OF ref(1) led_moves(1)]
        settled_inv[OF ref(2) led_moves(2)] settled_inv[OF ref(3) led_moves(3)] settled_inv[OF ref(4) led_moves(4)]
        settled_inv[OF ref(5) led_moves(5)] settled_inv[OF ref(6) led_moves(6)] settled_inv[OF ref(7) led_moves(7)])
  then show ?thesis using sqb_keys[OF assms] by (simp add: sqb_inv_def)
qed

text \<open>The other steps on the database: the lease operations, of any namespace.\<close>

definition lease_env :: "budget_db \<Rightarrow> budget_db \<Rightarrow> bool" where
  "lease_env db db' \<longleftrightarrow> budget_rows db' = budget_rows db \<and> reservation_rows db' = reservation_rows db"

lemma lease_env_frame: "sqb_inv ns sc db \<Longrightarrow> lease_env db db' \<Longrightarrow> sqb_inv ns sc db' \<and> sqb_view ns sc db' = sqb_view ns sc db"
  by (auto simp: lease_env_def sqb_inv_def sqb_view_def sqb_budget_row_def sqb_items_def)

interpretation sqb: budget_authority "sql_authority ns sc" sc True "sqb_inv ns sc" "sqb_view ns sc"
  "\<lambda>now db. sqb_fence_current ns now db" lease_env for ns sc
proof unfold_locales
  fix db :: budget_db assume inv: "sqb_inv ns sc db"
  show "ledger_inv (sqb_view ns sc db)" by (rule sqb_invD(3)[OF inv])
  fix now e
  show "sqb_inv ns sc (apply_budget_op (sql_authority ns sc) now e db)" by (rule sqb_op_inv[OF inv])
qed (simp_all only: sql_authority_def authority.simps lease_env_frame sqb_configure_ref sqb_status_ref
    sqb_get_ref sqb_reserve_ref sqb_complete_ref sqb_consume_ref sqb_cancel_ref)

end
