(* ===== verification/Lease_Memory.thy ===== *)
theory Lease_Memory
  imports Lease_Store
begin

text \<open>
  \<open>InMemoryLeaseStore\<close> of \<open>resources/model.py\<close>: a dictionary of leases by identifier and a
  counter. An \<open>acquire_lease\<close> whose validation raises leaves the expiry pass behind, as the
  code does. The lock makes every operation one step.
\<close>

record mem_store =
  mem_leases :: "(string \<times> lease) list"
  mem_next :: int

definition mem_init :: mem_store where
  "mem_init = \<lparr>mem_leases = [], mem_next = 1\<rparr>"

definition mem_expire_lease :: "time \<Rightarrow> lease \<Rightarrow> lease" where
  "mem_expire_lease now l = (if lapsed now l
     then lease_post_init now (l\<lparr>lease_status := ''expired'', lease_updated_at := now\<rparr>) else l)"

definition mem_expire :: "time \<Rightarrow> mem_store \<Rightarrow> nat \<times> mem_store" where
  "mem_expire now s =
     (length (filter (\<lambda>(i, l). lapsed now l) (mem_leases s)),
      s\<lparr>mem_leases := map (\<lambda>(i, l). (i, mem_expire_lease now l)) (mem_leases s)\<rparr>)"

definition mem_acquire :: "mem_store acquire_op" where
  "mem_acquire c l V ttl s =
     (let s1 = snd (mem_expire (c 0) s);
          active = filter (lease_active (c 1)) (map snd (mem_leases s1))
      in case V active of
           Inl e \<Rightarrow> (Inl e, s1)
         | Inr _ \<Rightarrow>
             (let issued = issue (c 2) ttl (mem_next s1) l
              in (Inr issued, s1\<lparr>mem_next := mem_next s1 + 1,
                   mem_leases := AList.update (lease_id issued) issued (mem_leases s1)\<rparr>)))"

definition mem_create :: "lease \<Rightarrow> mem_store \<Rightarrow> mem_store" where
  "mem_create l s = s\<lparr>mem_leases := AList.update (lease_id l) l (mem_leases s)\<rparr>"

definition mem_get :: "clock \<Rightarrow> string \<Rightarrow> mem_store \<Rightarrow> lease option \<times> mem_store" where
  "mem_get c i s = (let s1 = snd (mem_expire (c 0) s) in (map_of (mem_leases s1) i, s1))"

definition mem_update :: "lease \<Rightarrow> mem_store \<Rightarrow> mem_store" where
  "mem_update l s = s\<lparr>mem_leases := AList.update (lease_id l) l (mem_leases s)\<rparr>"

definition mem_list :: "clock \<Rightarrow> mem_store \<Rightarrow> lease list \<times> mem_store" where
  "mem_list c s = (let s1 = snd (mem_expire (c 0) s)
     in (filter (lease_active (c 1)) (map snd (mem_leases s1)), s1))"

definition mem_renew :: "mem_store renew_op" where
  "mem_renew c i k ttl s =
     (let s1 = snd (mem_expire (c 0) s)
      in case map_of (mem_leases s1) i of
           None \<Rightarrow> (None, s1)
         | Some current \<Rightarrow>
             if \<not> lease_active (c 1) current then (None, s1)
             else if fencing_token current \<noteq> k then (None, s1)
             else let renewed = prolong (c 2) ttl current
               in (Some renewed,
                   s1\<lparr>mem_leases := AList.update (lease_id renewed) renewed (mem_leases s1)\<rparr>))"

definition mem_release :: "mem_store release_op" where
  "mem_release c i ko s =
     (case map_of (mem_leases s) i of
        None \<Rightarrow> (False, s)
      | Some current \<Rightarrow>
          if lease_status current \<noteq> ''active'' then (False, s)
          else if (case ko of None \<Rightarrow> False | Some k \<Rightarrow> fencing_token current \<noteq> k) then (False, s)
          else (True, s\<lparr>mem_leases := AList.update (lease_id current)
                 (lease_post_init (c 0) (current\<lparr>lease_status := ''released'',
                    lease_updated_at := c 0\<rparr>)) (mem_leases s)\<rparr>))"

definition mem_delete :: "clock \<Rightarrow> string \<Rightarrow> mem_store \<Rightarrow> mem_store" where
  "mem_delete c i s = snd (mem_release c i None s)"

definition mem_is_current :: "clock \<Rightarrow> string \<Rightarrow> int \<Rightarrow> mem_store \<Rightarrow> bool \<times> mem_store" where
  "mem_is_current c i k s =
     (case mem_get c i s of (cur, s1) \<Rightarrow>
        (case cur of None \<Rightarrow> False
         | Some l \<Rightarrow> lease_active (c 1) l \<and> fencing_token l = k, s1))"

section \<open>Invariant and contract\<close>

definition mem_inv :: "mem_store \<Rightarrow> bool" where
  "mem_inv s \<longleftrightarrow> distinct (map fst (mem_leases s)) \<and> 0 < mem_next s
     \<and> (\<forall>(i, l)\<in>set (mem_leases s). lease_id l = i \<and> lease_wf l
          \<and> 0 < fencing_token l \<and> fencing_token l < mem_next s)"

definition mem_grants :: "mem_store \<Rightarrow> time \<Rightarrow> grant multiset" where
  "mem_grants s t = grants_of (filter (lease_active t) (map snd (mem_leases s)))"

lemma mem_inv_init: "mem_inv mem_init"
  by (simp add: mem_inv_def mem_init_def)

lemma mem_expire_lease_simps [simp]:
  "lease_id (mem_expire_lease now l) = lease_id l"
  "lease_resources (mem_expire_lease now l) = lease_resources l"
  "lease_wf l \<Longrightarrow> fencing_token (mem_expire_lease now l) = fencing_token l"
  "lease_wf l \<Longrightarrow> 0 < now \<Longrightarrow> lease_wf (mem_expire_lease now l)"
  by (auto simp: mem_expire_lease_def lease_wf_def intro: lease_post_init_wf[unfolded lease_wf_def])

lemma mem_expire_lease_active:
  "lease_wf l \<Longrightarrow> lease_active t (mem_expire_lease now l) \<Longrightarrow> lease_active t l \<and> grant_of (mem_expire_lease now l) = grant_of l"
  by (auto simp: mem_expire_lease_def lease_active_def grant_of_def split: if_splits)

lemma mem_inv_update:
  assumes "mem_inv s" "lease_wf l" "0 < fencing_token l" "fencing_token l < n" "mem_next s \<le> n" "lease_id l = i"
  shows "mem_inv (s\<lparr>mem_next := n, mem_leases := AList.update i l (mem_leases s)\<rparr>)"
proof -
  have "\<forall>p\<in>set (mem_leases s). fencing_token (snd p) < n"
    using assms(1,5) by (fastforce simp: mem_inv_def)
  with assms show ?thesis
    by (auto simp: mem_inv_def distinct_update dest!: subsetD[OF set_AList_update_subset])
qed

lemma mem_inv_overwrite:
  assumes "mem_inv s" "lease_wf l" "0 < fencing_token l" "fencing_token l < mem_next s" "lease_id l = i"
  shows "mem_inv (s\<lparr>mem_leases := AList.update i l (mem_leases s)\<rparr>)"
  using mem_inv_update[OF assms(1-4) order_refl assms(5)] by simp

lemma mem_expire_inv: "mem_inv s \<Longrightarrow> 0 < now \<Longrightarrow> mem_inv (snd (mem_expire now s))"
  by (auto simp: mem_inv_def mem_expire_def comp_def case_prod_beta)

lemma map_snd_map_entries: "map snd (map (\<lambda>(i, l). (i, f l)) d) = map f (map snd d)"
  by (induction d) auto

lemma mem_expire_grants: "mem_inv s \<Longrightarrow> mem_grants (snd (mem_expire now s)) t \<subseteq># mem_grants s t"
  unfolding mem_grants_def mem_expire_def
  by (simp add: map_snd_map_entries del: map_map)
     (rule grants_of_map_filter_mono, use mem_expire_lease_active in \<open>fastforce simp: mem_inv_def\<close>)

text \<open>Overwriting one entry adds at most the grant of the new lease.\<close>

lemma grants_update:
  "distinct (map fst d) \<Longrightarrow>
   grants_of (filter P (map snd (AList.update i l d))) \<subseteq># grants_of [l] + grants_of (filter P (map snd d))"
  by (induction d) (auto intro: subseteq_add_msetI)

text \<open>
  Overwriting an entry whose lease was active keeps the grants below those of before, when the
  new lease grants the same.
\<close>

lemma grants_update_same:
  "map_of d i = Some l \<Longrightarrow> (P l' \<Longrightarrow> Q l \<and> grant_of l' = grant_of l) \<Longrightarrow> (\<And>x. P x \<Longrightarrow> Q x) \<Longrightarrow>
   grants_of (filter P (map snd (AList.update i l' d))) \<subseteq># grants_of (filter Q (map snd d))"
proof (induction d)
  case (Cons p d)
  show ?case
  proof (cases "fst p = i")
    case True
    then show ?thesis using Cons.prems grants_of_filter_mono[of P Q "map snd d"]
      by (cases p) (auto intro: subseteq_add_msetI)
  next
    case False
    then show ?thesis using Cons by (cases p) (auto intro: subseteq_add_msetI)
  qed
qed simp

lemma mem_grants_antitone: "t \<le> t' \<Longrightarrow> mem_grants s t' \<subseteq># mem_grants s t"
  unfolding mem_grants_def by (rule grants_of_filter_mono) (rule lease_active_antitone)

lemma in_mem_grants:
  "g \<in># mem_grants s t \<longleftrightarrow> (\<exists>i l. (i, l) \<in> set (mem_leases s) \<and> lease_active t l \<and> grant_of l = g)"
  by (auto simp: mem_grants_def grants_of_def image_iff) force+

lemma mem_acquire_cases:
  assumes "mem_inv s" "clock_in c t0 t1" "mem_acquire c l V ttl s = (res, s')"
  obtains (reject) e where "res = Inl e" "s' = snd (mem_expire (c 0) s)"
  | (admit) act new where "res = Inr new" "V act = Inr ()" "new = issue (c 2) ttl (mem_next s) l"
      "act = filter (lease_active (c 1)) (map snd (mem_leases (snd (mem_expire (c 0) s))))"
      "s' = (snd (mem_expire (c 0) s))\<lparr>mem_next := mem_next s + 1,
         mem_leases := AList.update (lease_id l) new (mem_leases (snd (mem_expire (c 0) s)))\<rparr>"
proof -
  have n: "mem_next (snd (mem_expire (c 0) s)) = mem_next s" by (simp add: mem_expire_def)
  show thesis
    using assms(3) that by (auto simp: mem_acquire_def Let_def n split: sum.splits)
qed

lemma mem_release_cases:
  assumes "mem_release c i ko s = (b, s')"
  obtains (no) "\<not> b" "s' = s"
  | (yes) current where "b" "map_of (mem_leases s) i = Some current"
      "lease_status current = ''active''" "\<forall>k. ko = Some k \<longrightarrow> fencing_token current = k"
      "s' = s\<lparr>mem_leases := AList.update (lease_id current)
         (lease_post_init (c 0) (current\<lparr>lease_status := ''released'', lease_updated_at := c 0\<rparr>))
         (mem_leases s)\<rparr>"
  using assms by (auto simp: mem_release_def split: option.splits if_splits)

lemma mem_renew_cases:
  assumes "mem_renew c i k ttl s = (x, s')"
  obtains (no) "x = None" "s' = snd (mem_expire (c 0) s)"
  | (yes) current where "x = Some (prolong (c 2) ttl current)"
      "map_of (mem_leases (snd (mem_expire (c 0) s))) i = Some current"
      "lease_active (c 1) current" "fencing_token current = k"
      "s' = (snd (mem_expire (c 0) s))\<lparr>mem_leases := AList.update (lease_id current)
         (prolong (c 2) ttl current) (mem_leases (snd (mem_expire (c 0) s)))\<rparr>"
  using assms by (auto simp: mem_renew_def Let_def split: option.splits if_splits)

lemma mem_lookup:
  "mem_inv s \<Longrightarrow> map_of (mem_leases s) i = Some l \<Longrightarrow>
    lease_id l = i \<and> lease_wf l \<and> 0 < fencing_token l \<and> fencing_token l < mem_next s"
  by (auto simp: mem_inv_def dest!: map_of_SomeD)

lemma mem_next_expire [simp]: "mem_next (snd (mem_expire now s)) = mem_next s"
  by (simp add: mem_expire_def)

lemma mem_acquire_inv:
  assumes "mem_inv s" "clock_in c t0 t1" "mem_acquire c l V ttl s = (res, s')"
  shows "mem_inv s'"
  using assms
proof (cases rule: mem_acquire_cases)
  case reject
  then show ?thesis using assms mem_expire_inv clock_inD(5) by blast
next
  case (admit act new)
  have inv1: "mem_inv (snd (mem_expire (c 0) s))" by (rule mem_expire_inv[OF assms(1) clock_inD(5)[OF assms(2)]])
  show ?thesis unfolding admit(3,5)
    by (rule mem_inv_update[OF inv1]) (use assms in \<open>auto simp: mem_inv_def clock_inD\<close>)
qed

lemma mem_acquire_grants:
  assumes "mem_inv s" "clock_in c t0 t1" "mem_acquire c l V ttl s = (Inr new, s')" "t1 \<le> t"
  shows "fencing_token new = mem_next s \<and> mem_next s' = mem_next s + 1
      \<and> lease_id new = lease_id l \<and> lease_resources new = lease_resources l
      \<and> (\<exists>act. V act = Inr () \<and> grants_of act \<subseteq># mem_grants s t0
            \<and> mem_grants s' t \<subseteq># add_mset (grant_of new) (grants_of act))"
  using assms(1-3)
proof (cases rule: mem_acquire_cases)
  case (admit act new')
  let ?s1 = "snd (mem_expire (c 0) s)"
  have inv1: "mem_inv ?s1" by (rule mem_expire_inv[OF assms(1) clock_inD(5)[OF assms(2)]])
  have act: "grants_of act = mem_grants ?s1 (c 1)" using admit(4) by (simp add: mem_grants_def)
  have "mem_grants ?s1 (c 1) \<subseteq># mem_grants s t0"
    using mem_expire_grants[OF assms(1)] mem_grants_antitone[OF clock_inD(1)[OF assms(2)]]
    by (rule subset_mset.order_trans)
  moreover have "mem_grants s' t \<subseteq># add_mset (grant_of new) (mem_grants ?s1 t)"
    using grants_update[of "mem_leases ?s1" "lease_active t" "lease_id l" new] inv1 admit
    by (simp add: mem_grants_def mem_inv_def)
  moreover have "mem_grants ?s1 t \<subseteq># mem_grants ?s1 (c 1)"
    using clock_inD(2)[OF assms(2), of 1] assms(4) by (intro mem_grants_antitone) simp
  ultimately have "grants_of act \<subseteq># mem_grants s t0
      \<and> mem_grants s' t \<subseteq># add_mset (grant_of new) (grants_of act)"
    unfolding act by (meson mset_subset_eq_add_mset_cancel subset_mset.order_trans)
  then show ?thesis
    using admit(1,2,3,5) assms(1) by (auto simp: mem_inv_def)
qed simp

lemma mem_renew_ok:
  assumes "mem_inv s" "clock_in c t0 t1" "mem_renew c i k ttl s = (x, s')" "t1 \<le> t"
  shows "mem_inv s' \<and> mem_next s' = mem_next s \<and> mem_grants s' t \<subseteq># mem_grants s t0"
proof -
  let ?s1 = "snd (mem_expire (c 0) s)"
  have inv1: "mem_inv ?s1" by (rule mem_expire_inv[OF assms(1) clock_inD(5)[OF assms(2)]])
  have base: "\<And>t'. t0 \<le> t' \<Longrightarrow> mem_grants ?s1 t' \<subseteq># mem_grants s t0"
    using mem_expire_grants[OF assms(1)] mem_grants_antitone by (rule subset_mset.order_trans)
  from assms(3) show ?thesis
  proof (cases rule: mem_renew_cases)
    case no
    then show ?thesis using inv1 base clock_inD(4)[OF assms(2)] assms(4) by simp
  next
    case (yes cur)
    have cur: "lease_id cur = i" "lease_wf cur" "0 < fencing_token cur" "fencing_token cur < mem_next s"
      using mem_lookup[OF inv1 yes(2)] by simp_all
    have "mem_inv (?s1\<lparr>mem_leases := AList.update i (prolong (c 2) ttl cur) (mem_leases ?s1)\<rparr>)"
      by (rule mem_inv_overwrite[OF inv1]) (use cur clock_inD[OF assms(2)] in auto)
    moreover have "mem_grants s' t \<subseteq># mem_grants ?s1 (c 1)"
      unfolding yes(5) mem_grants_def
      using yes(2,3) cur clock_inD(2)[OF assms(2), of 1] assms(4)
      by (auto simp: grant_of_def intro!: grants_update_same intro: lease_active_antitone)
    ultimately show ?thesis
      using yes(5) cur base[OF clock_inD(1)[OF assms(2)]] by (auto intro: subset_mset.order_trans)
  qed
qed

lemma mem_release_ok:
  assumes "mem_inv s" "clock_in c t0 t1" "mem_release c i ko s = (b, s')" "t1 \<le> t"
  shows "mem_inv s' \<and> mem_next s' = mem_next s \<and> mem_grants s' t \<subseteq># mem_grants s t0"
  using assms(3)
proof (cases rule: mem_release_cases)
  case no
  then show ?thesis using assms mem_grants_antitone clock_inD(4)[OF assms(2)] by simp
next
  case (yes cur)
  let ?l = "lease_post_init (c 0) (cur\<lparr>lease_status := ''released'', lease_updated_at := c 0\<rparr>)"
  have cur: "lease_id cur = i" "lease_wf cur" "0 < fencing_token cur" "fencing_token cur < mem_next s"
    using mem_lookup[OF assms(1) yes(2)] by simp_all
  have "mem_inv (s\<lparr>mem_leases := AList.update i ?l (mem_leases s)\<rparr>)"
    by (rule mem_inv_overwrite[OF assms(1)])
      (use cur clock_inD[OF assms(2)] in \<open>auto intro: lease_post_init_wf\<close>)
  moreover have "mem_grants s' t \<subseteq># mem_grants s t0"
    unfolding yes(5) mem_grants_def
    using yes(2) cur clock_inD(4)[OF assms(2)] assms(4)
    by (auto simp: lease_active_def[of _ ?l] intro!: grants_update_same intro: lease_active_antitone)
  ultimately show ?thesis using yes(5) cur by simp
qed

interpretation mem: lease_store mem_inv mem_grants mem_next mem_acquire mem_renew mem_release
  "\<lambda>c. mem_expire (c 0)"
proof unfold_locales
  fix s t i k r k' r'
  assume "mem_inv s" "(i, k, r) \<in># mem_grants s t" "(i, k', r') \<in># mem_grants s t"
  then show "k = k'"
    by (auto simp: in_mem_grants grant_of_def mem_inv_def dest: distinct_key_inj)
next
  fix s t i k r assume "mem_inv s" "(i, k, r) \<in># mem_grants s t"
  then show "0 < k \<and> k < mem_next s" by (auto simp: in_mem_grants grant_of_def mem_inv_def)
next
  fix s c t0 t1 l V ttl e s' t
  assume a: "mem_inv s" "clock_in c t0 t1" "mem_acquire c l V ttl s = (Inl e, s')" "t1 \<le> t"
  have "s' = snd (mem_expire (c 0) s)" by (rule mem_acquire_cases[OF a(1-3)]) simp_all
  moreover have "t0 \<le> t" using a clock_inD(4) by fastforce
  ultimately show "mem_next s' = mem_next s \<and> mem_grants s' t \<subseteq># mem_grants s t0"
    using mem_expire_grants[OF a(1), of "c 0" t] mem_grants_antitone[of t0 t s]
    by (auto intro: subset_mset.order_trans)
next
  fix s c t0 t1 n s' t
  assume a: "mem_inv s" "clock_in c t0 t1" "mem_expire (c 0) s = (n, s')" "t1 \<le> t"
  have s': "s' = snd (mem_expire (c 0) s)" using a(3) by simp
  have "t0 \<le> t" using a clock_inD(4) by fastforce
  then show "mem_inv s' \<and> mem_next s' = mem_next s \<and> mem_grants s' t \<subseteq># mem_grants s t0"
    unfolding s' using mem_expire_grants[OF a(1), of "c 0" t] mem_grants_antitone[of t0 t s]
      mem_expire_inv[OF a(1) clock_inD(5)[OF a(2)]]
    by (auto intro: subset_mset.order_trans)
qed (rule mem_grants_antitone mem_acquire_inv mem_acquire_grants mem_renew_ok mem_release_ok; assumption)+

end
