(* ===== verification/Lease_Redis.thy ===== *)
theory Lease_Redis
  imports Lease_Memory
begin

text \<open>
  \<open>RedisLeaseStore\<close> of \<open>resources/lease_store.py\<close>: the keys of one namespace, namely the set
  of lease identifiers, one JSON value per lease and the counter. The members of a Redis set come
  in no particular order: the list \<open>rl_ids\<close> is one enumeration. The distributed lock makes an
  operation one step. Reading \<open>c 0\<close> is the Redis clock (\<open>_now\<close>); \<open>c 1\<close> is the clock of
  the client process, which the property \<open>active\<close> reads.
\<close>

record redis_leases =
  rl_ids :: "string list"
  rl_vals :: "(string \<times> lease) list"
  rl_counter :: "int option"

definition red_init :: redis_leases where
  "red_init = \<lparr>rl_ids = [], rl_vals = [], rl_counter = None\<rparr>"

definition red_load :: "time \<Rightarrow> redis_leases \<Rightarrow> string \<Rightarrow> lease option" where
  "red_load now s i = map_option (lease_post_init now) (map_of (rl_vals s) i)"

definition red_list_locked :: "bool \<Rightarrow> time \<Rightarrow> redis_leases \<Rightarrow> lease list" where
  "red_list_locked active_only now s = sort_key fencing_token
     (filter (\<lambda>l. \<not> (active_only \<and> \<not> lease_active now l)) (List.map_filter (red_load now s) (rl_ids s)))"

definition red_expire :: "time \<Rightarrow> redis_leases \<Rightarrow> nat \<times> redis_leases" where
  "red_expire now s =
     (let expired = map (\<lambda>l. lease_post_init now (l\<lparr>lease_status := ''expired'', lease_updated_at := now\<rparr>))
            (filter (lapsed now) (red_list_locked False now s))
      in (length expired,
          s\<lparr>rl_vals := fold (\<lambda>l d. AList.update (lease_id l) l d) expired (rl_vals s)\<rparr>))"

definition red_next :: "redis_leases \<Rightarrow> int" where
  "red_next s = (case rl_counter s of None \<Rightarrow> 1 | Some k \<Rightarrow> k)"

definition red_acquire :: "redis_leases acquire_op" where
  "red_acquire c l V ttl s =
     (let now = c 0;
          s1 = snd (red_expire now s);
          active = red_list_locked True (c 1) s1
      in case V active of
           Inl e \<Rightarrow> (Inl e, s1)
         | Inr _ \<Rightarrow>
             (let token = red_next s1;
                  issued = issue now ttl token l
              in (Inr issued, s1\<lparr>rl_vals := AList.update (lease_id issued) issued (rl_vals s1),
                   rl_ids := sadd (lease_id issued) (rl_ids s1), rl_counter := Some (token + 1)\<rparr>)))"

definition red_create :: "clock \<Rightarrow> lease \<Rightarrow> redis_leases \<Rightarrow> lease result \<times> redis_leases" where
  "red_create c l s = red_acquire (\<lambda>n. c (Suc n)) l (\<lambda>_. Inr ()) (max 0 (expires_at l - c 0)) s"

definition red_get :: "clock \<Rightarrow> string \<Rightarrow> redis_leases \<Rightarrow> lease option \<times> redis_leases" where
  "red_get c i s = (let s1 = snd (red_expire (c 0) s) in (red_load (c 1) s1 i, s1))"

definition red_update :: "clock \<Rightarrow> lease \<Rightarrow> redis_leases \<Rightarrow> unit result \<times> redis_leases" where
  "red_update c l s = (if red_load (c 0) s (lease_id l) = None then (Inl KeyError, s)
     else (Inr (), s\<lparr>rl_vals := AList.update (lease_id l) l (rl_vals s)\<rparr>))"

definition red_list :: "clock \<Rightarrow> redis_leases \<Rightarrow> lease list \<times> redis_leases" where
  "red_list c s = (let s1 = snd (red_expire (c 0) s) in (red_list_locked True (c 1) s1, s1))"

definition red_list_all :: "clock \<Rightarrow> redis_leases \<Rightarrow> lease list" where
  "red_list_all c s = red_list_locked False (c 0) s"

definition red_renew :: "redis_leases renew_op" where
  "red_renew c i k ttl s =
     (let now = c 0; s1 = snd (red_expire now s)
      in case red_load (c 1) s1 i of
           None \<Rightarrow> (None, s1)
         | Some current \<Rightarrow>
             if lease_status current \<noteq> ''active'' \<or> fencing_token current \<noteq> k then (None, s1)
             else let renewed = prolong now ttl current
               in (Some renewed, s1\<lparr>rl_vals := AList.update i renewed (rl_vals s1)\<rparr>))"

definition red_release :: "redis_leases release_op" where
  "red_release c i ko s =
     (let now = c 0; s1 = snd (red_expire now s)
      in case red_load (c 1) s1 i of
           None \<Rightarrow> (False, s1)
         | Some current \<Rightarrow>
             if lease_status current \<noteq> ''active'' then (False, s1)
             else if (case ko of None \<Rightarrow> False | Some k \<Rightarrow> fencing_token current \<noteq> k) then (False, s1)
             else (True, s1\<lparr>rl_vals := AList.update i
                 (lease_post_init now (current\<lparr>lease_status := ''released'', lease_updated_at := now\<rparr>))
                 (rl_vals s1)\<rparr>))"

definition red_delete :: "clock \<Rightarrow> string \<Rightarrow> redis_leases \<Rightarrow> redis_leases" where
  "red_delete c i s = snd (red_release c i None s)"

definition red_is_current :: "clock \<Rightarrow> string \<Rightarrow> int \<Rightarrow> redis_leases \<Rightarrow> bool \<times> redis_leases" where
  "red_is_current c i k s =
     (let s1 = snd (red_expire (c 0) s)
      in (case red_load (c 1) s1 i of None \<Rightarrow> False
          | Some l \<Rightarrow> lease_active (c 1) l \<and> fencing_token l = k, s1))"

definition red_recover_expired :: "redis_leases recover_op" where
  "red_recover_expired c s = red_expire (c 0) s"

section \<open>Refinement to the memory store\<close>

text \<open>
  The Redis keys of a namespace represent a memory store; the identifier set indexes exactly the
  stored leases.
\<close>

definition red_abs :: "redis_leases \<Rightarrow> mem_store" where
  "red_abs s = \<lparr>mem_leases = rl_vals s, mem_next = red_next s\<rparr>"

definition red_inv :: "redis_leases \<Rightarrow> bool" where
  "red_inv s \<longleftrightarrow> mem_inv (red_abs s) \<and> distinct (rl_ids s) \<and> set (rl_ids s) = fst ` set (rl_vals s)"

definition red_grants :: "redis_leases \<Rightarrow> time \<Rightarrow> grant multiset" where
  "red_grants s t = mem_grants (red_abs s) t"

lemma red_inv_init: "red_inv red_init"
  by (simp add: red_inv_def red_init_def red_abs_def mem_inv_def red_next_def)

lemma red_abs_simps [simp]:
  "mem_leases (red_abs s) = rl_vals s" "mem_next (red_abs s) = red_next s"
  by (simp_all add: red_abs_def)

lemma red_load_inv: "red_inv s \<Longrightarrow> red_load now s i = map_of (rl_vals s) i"
  by (cases "map_of (rl_vals s) i") (auto simp: red_load_def red_inv_def dest!: mem_lookup[of "red_abs s" i])

lemma red_list_mset:
  assumes "red_inv s"
  shows "mset (red_list_locked ao now s)
    = mset (filter (\<lambda>l. \<not> (ao \<and> \<not> lease_active now l)) (map snd (rl_vals s)))"
proof -
  have "red_load now s = map_of (rl_vals s)" using red_load_inv[OF assms] by auto
  then show ?thesis
    using assms map_filter_lookup[of "rl_vals s" "rl_ids s"]
    by (simp add: red_list_locked_def red_inv_def mem_inv_def mset_filter)
qed

lemma red_expire_sim:
  assumes "red_inv s" "0 < now"
  shows "red_abs (snd (red_expire now s)) = snd (mem_expire now (red_abs s))"
    and "fst (red_expire now s) = fst (mem_expire now (red_abs s))"
    and "rl_ids (snd (red_expire now s)) = rl_ids s"
proof -
  let ?up = "\<lambda>l. lease_post_init now (l\<lparr>lease_status := ''expired'', lease_updated_at := now\<rparr>)"
  let ?d = "rl_vals s"
  define xs where "xs = filter (lapsed now) (red_list_locked False now s)"
  have inv: "distinct (map fst ?d)" "\<And>i l. (i, l) \<in> set ?d \<Longrightarrow> lease_id l = i"
    using assms(1) by (auto simp: red_inv_def mem_inv_def)
  have ms: "mset xs = mset (filter (lapsed now) (map snd ?d))"
    unfolding xs_def mset_filter by (simp add: red_list_mset[OF assms(1)])
  have "fold (\<lambda>l d. AList.update (lease_id l) l d) (map ?up xs) ?d
      = map (\<lambda>(i, l). (i, if lapsed now l then ?up l else l)) ?d"
    by (rule fold_update_selected[OF inv(1) _ _ ms]) (auto dest: inv(2))
  also have "\<dots> = map (\<lambda>(i, l). (i, mem_expire_lease now l)) ?d"
    by (simp add: mem_expire_lease_def)
  finally show "red_abs (snd (red_expire now s)) = snd (mem_expire now (red_abs s))"
    by (simp add: red_expire_def Let_def xs_def[symmetric] mem_expire_def red_abs_def red_next_def)
  show "rl_ids (snd (red_expire now s)) = rl_ids s" by (simp add: red_expire_def Let_def)
  have "length xs = length (filter (lapsed now) (map snd ?d))"
    using ms by (metis size_mset)
  also have "\<dots> = length (filter (\<lambda>(i, l). lapsed now l) ?d)"
    by (induction "rl_vals s") (auto simp: filter_map comp_def case_prod_unfold)
  finally show "fst (red_expire now s) = fst (mem_expire now (red_abs s))"
    by (simp add: red_expire_def Let_def xs_def[symmetric] mem_expire_def)
qed

lemma red_expire_inv: "red_inv s \<Longrightarrow> 0 < now \<Longrightarrow> red_inv (snd (red_expire now s))"
proof -
  assume a: "red_inv s" "0 < now"
  note sim = red_expire_sim[OF a]
  have "rl_vals (snd (red_expire now s)) = mem_leases (snd (mem_expire now (red_abs s)))"
    using arg_cong[OF sim(1), of mem_leases] by simp
  then have "fst ` set (rl_vals (snd (red_expire now s))) = fst ` set (rl_vals s)"
    by (auto simp: mem_expire_def image_iff) force+
  then show ?thesis
    using a mem_expire_inv[of "red_abs s" now] by (simp add: red_inv_def sim)
qed

lemma red_next_expire [simp]: "red_next (snd (red_expire now s)) = red_next s"
  by (simp add: red_expire_def Let_def red_next_def)

lemma red_grants_antitone: "t \<le> t' \<Longrightarrow> red_grants s t' \<subseteq># red_grants s t"
  by (simp add: red_grants_def mem_grants_antitone)

lemma red_expire_grants:
  assumes "red_inv s" "0 < now" "t0 \<le> t"
  shows "red_grants (snd (red_expire now s)) t \<subseteq># red_grants s t0"
proof -
  have "red_grants (snd (red_expire now s)) t \<subseteq># red_grants s t"
    using assms by (simp add: red_grants_def red_expire_sim(1) red_inv_def mem_expire_grants)
  then show ?thesis using red_grants_antitone[OF assms(3)] by (rule subset_mset.order_trans)
qed

text \<open>Writing a lease under its key, with the counter at \<open>n\<close> and the identifier in the set.\<close>

lemma red_write_inv:
  assumes "red_inv s" "lease_wf l" "0 < fencing_token l" "fencing_token l < n" "red_next s \<le> n"
  shows "red_inv (s\<lparr>rl_vals := AList.update (lease_id l) l (rl_vals s), rl_ids := sadd (lease_id l) (rl_ids s),
     rl_counter := Some n\<rparr>)"
proof -
  have "mem_inv ((red_abs s)\<lparr>mem_next := n, mem_leases := AList.update (lease_id l) l (mem_leases (red_abs s))\<rparr>)"
    using assms by (intro mem_inv_update) (auto simp: red_inv_def)
  moreover have "fst ` set (AList.update (lease_id l) l (rl_vals s)) = insert (lease_id l) (fst ` set (rl_vals s))"
    by (simp add: dom_update)
  ultimately show ?thesis using assms(1)
    by (simp add: red_inv_def red_abs_def red_next_def distinct_sadd set_sadd)
qed

lemma red_overwrite_inv:
  assumes "red_inv s" "lease_wf l" "0 < fencing_token l" "fencing_token l < red_next s"
    "lease_id l = i" "i \<in> fst ` set (rl_vals s)"
  shows "red_inv (s\<lparr>rl_vals := AList.update i l (rl_vals s)\<rparr>)"
proof -
  have "mem_inv ((red_abs s)\<lparr>mem_leases := AList.update i l (mem_leases (red_abs s))\<rparr>)"
    using assms by (intro mem_inv_overwrite) (auto simp: red_inv_def)
  moreover have "fst ` set (AList.update i l (rl_vals s)) = fst ` set (rl_vals s)"
    using assms(6) by (simp add: dom_update insert_absorb)
  ultimately show ?thesis using assms(1) by (simp add: red_inv_def red_abs_def red_next_def)
qed

lemma red_lookup:
  assumes "red_inv s" "map_of (rl_vals s) i = Some l"
  shows "lease_id l = i" "lease_wf l" "0 < fencing_token l" "fencing_token l < red_next s" "i \<in> fst ` set (rl_vals s)"
  using assms mem_lookup[of "red_abs s" i l] by (auto simp: red_inv_def dest: map_of_SomeD intro: rev_image_eqI)

lemma red_acquire_cases:
  assumes "red_acquire c l V ttl s = (res, s')"
  obtains (reject) e where "res = Inl e" "s' = snd (red_expire (c 0) s)"
  | (admit) act new where "res = Inr new" "V act = Inr ()" "new = issue (c 0) ttl (red_next s) l"
      "act = red_list_locked True (c 1) (snd (red_expire (c 0) s))"
      "s' = (snd (red_expire (c 0) s))\<lparr>
         rl_vals := AList.update (lease_id l) new (rl_vals (snd (red_expire (c 0) s))),
         rl_ids := sadd (lease_id l) (rl_ids (snd (red_expire (c 0) s))), rl_counter := Some (red_next s + 1)\<rparr>"
  using assms by (auto simp: red_acquire_def Let_def split: sum.splits)

lemma red_acquire_inv:
  assumes "red_inv s" "clock_in c t0 t1" "red_acquire c l V ttl s = (res, s')"
  shows "red_inv s'"
  using assms(3)
proof (cases rule: red_acquire_cases)
  case reject
  then show ?thesis using red_expire_inv[OF assms(1) clock_inD(5)[OF assms(2)]] by simp
next
  case (admit act new)
  have inv1: "red_inv (snd (red_expire (c 0) s))"
    by (rule red_expire_inv[OF assms(1) clock_inD(5)[OF assms(2)]])
  have pos: "0 < red_next s" "lease_id new = lease_id l" "fencing_token new = red_next s" "lease_wf new"
    using assms(1) admit(3) clock_inD(5)[OF assms(2), of 0] by (auto simp: red_inv_def mem_inv_def)
  then show ?thesis unfolding admit(5) using red_write_inv[OF inv1, of new "red_next s + 1"] by simp
qed

lemma red_acquire_grants:
  assumes "red_inv s" "clock_in c t0 t1" "red_acquire c l V ttl s = (Inr new, s')" "t1 \<le> t"
  shows "fencing_token new = red_next s \<and> red_next s' = red_next s + 1
      \<and> lease_id new = lease_id l \<and> lease_resources new = lease_resources l
      \<and> (\<exists>act. V act = Inr () \<and> grants_of act \<subseteq># red_grants s t0
            \<and> red_grants s' t \<subseteq># add_mset (grant_of new) (grants_of act))"
  using assms(3)
proof (cases rule: red_acquire_cases)
  case (admit act new')
  let ?s1 = "snd (red_expire (c 0) s)"
  have pos: "0 < c 0" by (rule clock_inD(5)[OF assms(2)])
  have inv1: "red_inv ?s1" by (rule red_expire_inv[OF assms(1) pos])
  have act: "grants_of act = red_grants ?s1 (c 1)"
    using red_list_mset[OF inv1, of True "c 1"] admit(4) by (simp add: grants_of_def red_grants_def mem_grants_def)
  have "red_grants ?s1 (c 1) \<subseteq># red_grants s t0"
    by (rule red_expire_grants[OF assms(1) pos clock_inD(1)[OF assms(2)]])
  moreover have "red_grants s' t \<subseteq># add_mset (grant_of new) (red_grants ?s1 t)"
    using grants_update[of "rl_vals ?s1" "lease_active t" "lease_id l" new] inv1 admit
    by (simp add: red_grants_def mem_grants_def red_inv_def mem_inv_def)
  moreover have "red_grants ?s1 t \<subseteq># red_grants ?s1 (c 1)"
    using clock_inD(2)[OF assms(2), of 1] assms(4) by (intro red_grants_antitone) simp
  ultimately have "grants_of act \<subseteq># red_grants s t0
      \<and> red_grants s' t \<subseteq># add_mset (grant_of new) (grants_of act)"
    unfolding act by (meson mset_subset_eq_add_mset_cancel subset_mset.order_trans)
  then show ?thesis
    using admit(1,2,3,5) assms(1) by (auto simp: red_inv_def mem_inv_def red_next_def[of "_\<lparr>rl_counter := _\<rparr>"])
qed simp

text \<open>
  A renewal or release rewrites one active lease that grants the same, or nothing, afterwards.
\<close>

lemma red_rewrite_ok:
  assumes "red_inv s" "0 < now" "t0 \<le> now" "now \<le> t"
    "map_of (rl_vals (snd (red_expire now s))) i = Some cur" "lease_status cur = ''active''"
    "lease_wf l'" "grant_of l' = grant_of cur"
  shows "red_inv ((snd (red_expire now s))\<lparr>rl_vals := AList.update i l' (rl_vals (snd (red_expire now s)))\<rparr>)
    \<and> red_grants ((snd (red_expire now s))\<lparr>rl_vals := AList.update i l' (rl_vals (snd (red_expire now s)))\<rparr>) t
        \<subseteq># red_grants s t0"
proof -
  let ?s1 = "snd (red_expire now s)"
  have inv1: "red_inv ?s1" by (rule red_expire_inv[OF assms(1,2)])
  note cur = red_lookup[OF inv1 assms(5)]
  have "(i, cur) \<in> set (mem_leases (snd (mem_expire now (red_abs s))))"
    using map_of_SomeD[OF assms(5)] arg_cong[OF red_expire_sim(1)[OF assms(1,2)], of mem_leases] by simp
  then have active: "lease_active now cur"
    using assms(6) by (auto simp: mem_expire_def mem_expire_lease_def lapsed_def lease_active_def split: if_splits)
  have "red_grants (?s1\<lparr>rl_vals := AList.update i l' (rl_vals ?s1)\<rparr>) t \<subseteq># red_grants ?s1 now"
    unfolding red_grants_def mem_grants_def using assms(4,5,8) active
    by (auto intro!: grants_update_same intro: lease_active_antitone)
  moreover have "red_grants ?s1 now \<subseteq># red_grants s t0" by (rule red_expire_grants[OF assms(1-3)])
  moreover have "red_inv (?s1\<lparr>rl_vals := AList.update i l' (rl_vals ?s1)\<rparr>)"
    using red_overwrite_inv[OF inv1 assms(7)] cur assms(8) by (auto simp: grant_of_def)
  ultimately show ?thesis by (auto intro: subset_mset.order_trans)
qed

lemma red_renew_ok:
  assumes "red_inv s" "clock_in c t0 t1" "red_renew c i k ttl s = (x, s')" "t1 \<le> t"
  shows "red_inv s' \<and> red_next s' = red_next s \<and> red_grants s' t \<subseteq># red_grants s t0"
proof -
  have le: "t0 \<le> c 0" "c 0 \<le> t" "t0 \<le> t" "0 < c 0" using clock_inD[OF assms(2)] assms(4) by (auto intro: order_trans)
  let ?s1 = "snd (red_expire (c 0) s)"
  have inv1: "red_inv ?s1" by (rule red_expire_inv[OF assms(1) le(4)])
  have load: "red_load (c 1) ?s1 i = map_of (rl_vals ?s1) i" by (rule red_load_inv[OF inv1])
  show ?thesis
  proof (cases "map_of (rl_vals ?s1) i")
    case None
    then have "s' = ?s1" using assms(3) load by (simp add: red_renew_def Let_def)
    then show ?thesis using inv1 red_expire_grants[OF assms(1) le(4,3)] by simp
  next
    case (Some cur)
    show ?thesis
    proof (cases "lease_status cur = ''active'' \<and> fencing_token cur = k")
      case True
      have "grant_of (prolong (c 0) ttl cur) = grant_of cur"
        using red_lookup[OF inv1 Some] by (simp add: grant_of_def)
      then show ?thesis
        using red_rewrite_ok[OF assms(1) le(4,1,2) Some] True assms(3) load Some le(4)
        by (auto simp: red_renew_def Let_def red_next_def[of "_\<lparr>rl_vals := _\<rparr>"] red_next_def[symmetric])
    next
      case False
      then have "s' = ?s1" using assms(3) load Some by (auto simp: red_renew_def Let_def)
      then show ?thesis using inv1 red_expire_grants[OF assms(1) le(4,3)] by simp
    qed
  qed
qed

lemma red_release_ok:
  assumes "red_inv s" "clock_in c t0 t1" "red_release c i ko s = (b, s')" "t1 \<le> t"
  shows "red_inv s' \<and> red_next s' = red_next s \<and> red_grants s' t \<subseteq># red_grants s t0"
proof -
  have le: "t0 \<le> c 0" "c 0 \<le> t" "t0 \<le> t" "0 < c 0" using clock_inD[OF assms(2)] assms(4) by (auto intro: order_trans)
  let ?s1 = "snd (red_expire (c 0) s)"
  have inv1: "red_inv ?s1" by (rule red_expire_inv[OF assms(1) le(4)])
  have load: "red_load (c 1) ?s1 i = map_of (rl_vals ?s1) i" by (rule red_load_inv[OF inv1])
  have same: "s' = ?s1 \<Longrightarrow> ?thesis" using inv1 red_expire_grants[OF assms(1) le(4,3)] by simp
  show ?thesis
  proof (cases "map_of (rl_vals ?s1) i")
    case None
    then have "s' = ?s1" using assms(3) load by (simp add: red_release_def Let_def)
    then show ?thesis by (rule same)
  next
    case (Some cur)
    let ?l = "lease_post_init (c 0) (cur\<lparr>lease_status := ''released'', lease_updated_at := c 0\<rparr>)"
    have g: "grant_of ?l = grant_of cur" "lease_wf ?l"
      using red_lookup[OF inv1 Some] le(4) lease_post_init_wf by (auto simp: grant_of_def)
    show ?thesis
      using red_rewrite_ok[OF assms(1) le(4,1,2) Some _ g(2,1)] assms(3) load Some same
      by (auto simp: red_release_def Let_def red_next_def[of "_\<lparr>rl_vals := _\<rparr>"] red_next_def[symmetric]
          split: if_splits)
  qed
qed

interpretation red: lease_store red_inv red_grants red_next red_acquire red_renew red_release red_recover_expired
proof unfold_locales
  fix s t i k r assume "red_inv s" "(i, k, r) \<in># red_grants s t"
  then show "0 < k \<and> k < red_next s"
    using mem.grants_token[of "red_abs s"] by (simp add: red_inv_def red_grants_def)
next
  fix s t i k r k' r' assume "red_inv s" "(i, k, r) \<in># red_grants s t" "(i, k', r') \<in># red_grants s t"
  then show "k = k'"
    using mem.grants_unique[of "red_abs s"] by (simp add: red_inv_def red_grants_def)
next
  fix s c t0 t1 l V ttl e s' t
  assume a: "red_inv s" "clock_in c t0 t1" "red_acquire c l V ttl s = (Inl e, s')" "t1 \<le> t"
  have "s' = snd (red_expire (c 0) s)" by (rule red_acquire_cases[OF a(3)]) simp_all
  moreover have "t0 \<le> t" using a clock_inD(4) by fastforce
  ultimately show "red_next s' = red_next s \<and> red_grants s' t \<subseteq># red_grants s t0"
    using red_expire_grants[OF a(1) clock_inD(5)[OF a(2)]] by simp
next
  fix s c t0 t1 n s' t
  assume a: "red_inv s" "clock_in c t0 t1" "red_recover_expired c s = (n, s')" "t1 \<le> t"
  have "s' = snd (red_expire (c 0) s)" using a(3) by (simp add: red_recover_expired_def)
  moreover have "t0 \<le> t" using a clock_inD(4) by fastforce
  ultimately show "red_inv s' \<and> red_next s' = red_next s \<and> red_grants s' t \<subseteq># red_grants s t0"
    using red_expire_grants[OF a(1) clock_inD(5)[OF a(2)]] red_expire_inv[OF a(1) clock_inD(5)[OF a(2)]] by simp
qed (rule red_grants_antitone red_acquire_inv red_acquire_grants red_renew_ok red_release_ok; assumption)+

end
