(* ===== verification/Budget_Redis.thy ===== *)
theory Budget_Redis
  imports Budget_Ledger Lease_Redis
begin

text \<open>
  \<open>RedisBudgetAuthority\<close> of \<open>resources/budget.py\<close>: the keys of one namespace and scope,
  beside the lease keys of the namespace, whose lock they share; so an operation is one step. An
  error leaves the writes that preceded it. \<open>now\<close> is the Redis clock, read under the lock.
\<close>

record redis_budget_state =
  rbs_limit :: int
  rbs_committed :: int
  rbs_created_at :: time
  rbs_updated_at :: time

record redis_l0 =
  rb_leases :: redis_leases
  rb_budgets :: "(string \<times> redis_budget_state) list"
  rb_ids :: "string list"
  rb_vals :: "(string \<times> reservation) list"

definition rb_load_reservation :: "redis_l0 \<Rightarrow> string \<Rightarrow> reservation option" where
  "rb_load_reservation s i = map_option reservation_from_dict (map_of (rb_vals s) i)"

definition rb_reservations :: "redis_l0 \<Rightarrow> reservation list" where
  "rb_reservations s = List.map_filter (rb_load_reservation s) (rb_ids s)"

definition rb_fence_current :: "time \<Rightarrow> redis_l0 \<Rightarrow> fence" where
  "rb_fence_current now s i k = (case red_load now (rb_leases s) i of
     None \<Rightarrow> False
   | Some l \<Rightarrow> lease_status l = ''active'' \<and> fencing_token l = k \<and> (expires_at l \<le> 0 \<or> expires_at l > now))"

definition rb_reserved :: "string \<Rightarrow> redis_l0 \<Rightarrow> int" where
  "rb_reserved b s = sum_list (map (\<lambda>r. rsv_amount r - rsv_completed r)
     (filter (\<lambda>r. rsv_budget r = b \<and> rsv_status r = ''active'') (rb_reservations s)))"

definition rb_put :: "reservation \<Rightarrow> redis_l0 \<Rightarrow> redis_l0" where
  "rb_put r s = s\<lparr>rb_vals := AList.update (reservation_id r) r (rb_vals s)\<rparr>"

definition rb_reclaim_stale :: "time \<Rightarrow> redis_l0 \<Rightarrow> nat \<times> redis_l0" where
  "rb_reclaim_stale now s =
     (let old = filter (\<lambda>r. rsv_status r = ''active''
            \<and> \<not> rb_fence_current now s (rsv_lease_id r) (rsv_token r)) (rb_reservations s)
      in (length old, s\<lparr>rb_vals := fold (\<lambda>r d. AList.update (reservation_id r) r d)
           (map (\<lambda>r. r\<lparr>rsv_status := ''reclaimed'', rsv_updated_at := now\<rparr>) old) (rb_vals s)\<rparr>))"

definition rb_configure :: "time \<Rightarrow> string \<Rightarrow> int \<Rightarrow> redis_l0 \<Rightarrow> unit result \<times> redis_l0" where
  "rb_configure now b m s =
     (case budget_name b of Inl e \<Rightarrow> (Inl e, s) | Inr name \<Rightarrow>
      case budget_limit m of Inl e \<Rightarrow> (Inl e, s) | Inr maximum \<Rightarrow>
      case map_of (rb_budgets s) name of
        None \<Rightarrow> (Inr (), s\<lparr>rb_budgets := AList.update name
          \<lparr>rbs_limit = maximum, rbs_committed = 0, rbs_created_at = now, rbs_updated_at = now\<rparr> (rb_budgets s)\<rparr>)
      | Some st \<Rightarrow> if rbs_limit st \<noteq> maximum then (Inl SharedBudgetConfigurationError, s) else (Inr (), s))"

definition rb_status :: "string \<Rightarrow> time \<Rightarrow> string \<Rightarrow> redis_l0 \<Rightarrow> budget_snapshot result \<times> redis_l0" where
  "rb_status sc now b s =
     (case budget_name b of Inl e \<Rightarrow> (Inl e, s) | Inr name \<Rightarrow>
      let (reclaimed, s1) = rb_reclaim_stale now s in
      case map_of (rb_budgets s1) name of
        None \<Rightarrow> (Inl KeyError, s1)
      | Some st \<Rightarrow> (Inr \<lparr>snap_scope = sc, snap_budget = name, snap_limit = rbs_limit st,
            snap_committed = rbs_committed st, snap_reserved = rb_reserved name s1,
            snap_reclaimed = reclaimed\<rparr>, s1))"

definition rb_reservation :: "time \<Rightarrow> string \<Rightarrow> redis_l0 \<Rightarrow> reservation option result \<times> redis_l0" where
  "rb_reservation now i s =
     (case reservation_ident i of Inl e \<Rightarrow> (Inl e, s) | Inr identifier \<Rightarrow>
      let s1 = snd (rb_reclaim_stale now s) in (Inr (rb_load_reservation s1 identifier), s1))"

definition rb_reserve ::
  "string \<Rightarrow> time \<Rightarrow> string \<Rightarrow> int \<Rightarrow> string \<Rightarrow> int \<Rightarrow> string \<Rightarrow> string \<Rightarrow> redis_l0 \<Rightarrow> reservation result \<times> redis_l0" where
  "rb_reserve sc now b a l k fresh i s =
     (case budget_name b of Inl e \<Rightarrow> (Inl e, s) | Inr name \<Rightarrow>
      case reservation_amount a of Inl e \<Rightarrow> (Inl e, s) | Inr requested \<Rightarrow>
      let identifier = reservation_key fresh i in
      if \<not> rb_fence_current now s l k then (Inl SharedBudgetFenceError, s)
      else let s1 = snd (rb_reclaim_stale now s) in
        case rb_load_reservation s1 identifier of
          Some existing \<Rightarrow> if same_request name requested l k existing then (Inr existing, s1)
            else (Inl SharedBudgetConfigurationError, s1)
        | None \<Rightarrow>
            (case map_of (rb_budgets s1) name of
               None \<Rightarrow> (Inl KeyError, s1)
             | Some st \<Rightarrow>
                 let reserved = rb_reserved name s1;
                     remaining = max 0 (rbs_limit st - rbs_committed st - reserved) in
                 if requested > remaining then (Inl SharedBudgetExceeded, s1)
                 else let r = new_reservation sc identifier name requested l k now
                      in (Inr r, (rb_put r s1)\<lparr>rb_ids := sadd identifier (rb_ids s1)\<rparr>)))"

definition rb_complete :: "time \<Rightarrow> string \<Rightarrow> int \<Rightarrow> redis_l0 \<Rightarrow> reservation result \<times> redis_l0" where
  "rb_complete now i completed s =
     (case reservation_ident i of Inl e \<Rightarrow> (Inl e, s) | Inr identifier \<Rightarrow>
      let count = max 0 completed in
      case rb_load_reservation s identifier of
        None \<Rightarrow> (Inl KeyError, s)
      | Some current \<Rightarrow>
          if rsv_status current = ''completed'' \<and> rsv_completed current = count then (Inr current, s)
          else if rsv_status current \<noteq> ''active'' then (Inl SharedBudgetFenceError, s)
          else if count > rsv_amount current then (Inl ValueError, s)
          else if count < rsv_completed current then (Inl ValueError, s)
          else if \<not> rb_fence_current now s (rsv_lease_id current) (rsv_token current)
            then (Inl SharedBudgetFenceError, s)
          else (case map_of (rb_budgets s) (rsv_budget current) of
              None \<Rightarrow> (Inl KeyError, s)
            | Some st \<Rightarrow>
                let st' = st\<lparr>rbs_committed := rbs_committed st + (count - rsv_completed current), rbs_updated_at := now\<rparr>;
                    item = current\<lparr>rsv_status := ''completed'', rsv_completed := count, rsv_updated_at := now\<rparr>
                in (Inr item, (rb_put item s)\<lparr>rb_budgets := AList.update (rsv_budget current) st' (rb_budgets s)\<rparr>)))"

definition rb_consume :: "time \<Rightarrow> string \<Rightarrow> int \<Rightarrow> redis_l0 \<Rightarrow> reservation result \<times> redis_l0" where
  "rb_consume now i amount s =
     (case reservation_ident i of Inl e \<Rightarrow> (Inl e, s) | Inr identifier \<Rightarrow>
      case reservation_amount amount of Inl e \<Rightarrow> (Inl e, s) | Inr delta \<Rightarrow>
      case rb_load_reservation s identifier of
        None \<Rightarrow> (Inl KeyError, s)
      | Some current \<Rightarrow>
          if rsv_status current \<noteq> ''active'' then (Inl SharedBudgetFenceError, s)
          else if rsv_completed current + delta > rsv_amount current then (Inl ValueError, s)
          else if \<not> rb_fence_current now s (rsv_lease_id current) (rsv_token current)
            then (Inl SharedBudgetFenceError, s)
          else (case map_of (rb_budgets s) (rsv_budget current) of
              None \<Rightarrow> (Inl KeyError, s)
            | Some st \<Rightarrow>
                let st' = st\<lparr>rbs_committed := rbs_committed st + delta, rbs_updated_at := now\<rparr>;
                    consumed = current\<lparr>rsv_completed := rsv_completed current + delta, rsv_updated_at := now\<rparr>
                in (Inr consumed, (rb_put consumed s)\<lparr>rb_budgets := AList.update (rsv_budget current) st' (rb_budgets s)\<rparr>)))"

definition rb_cancel :: "time \<Rightarrow> string \<Rightarrow> redis_l0 \<Rightarrow> bool result \<times> redis_l0" where
  "rb_cancel now i s =
     (case reservation_ident i of Inl e \<Rightarrow> (Inl e, s) | Inr identifier \<Rightarrow>
      case rb_load_reservation s identifier of
        None \<Rightarrow> (Inr False, s)
      | Some current \<Rightarrow>
          if rsv_status current \<noteq> ''active''
             \<or> \<not> rb_fence_current now s (rsv_lease_id current) (rsv_token current)
          then (Inr False, s)
          else (Inr True, rb_put (current\<lparr>rsv_status := ''cancelled'', rsv_updated_at := now\<rparr>) s))"

definition redis_authority :: "string \<Rightarrow> redis_l0 authority" where
  "redis_authority sc = \<lparr>au_configure = rb_configure, au_status = rb_status sc, au_get = rb_reservation,
     au_reserve = rb_reserve sc, au_complete = rb_complete, au_consume = rb_consume, au_cancel = rb_cancel\<rparr>"

section \<open>Refinement of the ledger\<close>

definition rb_view :: "redis_l0 \<Rightarrow> ledger" where
  "rb_view s = \<lparr>lg_budgets = (\<lambda>b. map_option (\<lambda>st. (rbs_limit st, rbs_committed st)) (map_of (rb_budgets s) b)),
     lg_items = map snd (rb_vals s)\<rparr>"

definition rb_inv :: "redis_l0 \<Rightarrow> bool" where
  "rb_inv s \<longleftrightarrow> distinct (map fst (rb_budgets s)) \<and> distinct (rb_ids s) \<and> set (rb_ids s) = fst ` set (rb_vals s)
     \<and> (\<forall>(i, r)\<in>set (rb_vals s). reservation_id r = i \<and> 0 \<le> rsv_token r) \<and> ledger_inv (rb_view s)"

lemma rb_view_simps [simp]:
  "lg_budgets (rb_view s) b = map_option (\<lambda>st. (rbs_limit st, rbs_committed st)) (map_of (rb_budgets s) b)"
  "lg_items (rb_view s) = map snd (rb_vals s)"
  by (simp_all add: rb_view_def)

lemma rb_invD:
  assumes "rb_inv s"
  shows "map fst (rb_vals s) = map (reservation_id \<circ> snd) (rb_vals s)" "distinct (map fst (rb_vals s))"
    "(i, r) \<in> set (rb_vals s) \<Longrightarrow> reservation_id r = i \<and> reservation_from_dict r = r \<and> item_wf r"
    "distinct (rb_ids s)" "set (rb_ids s) = fst ` set (rb_vals s)" "ledger_inv (rb_view s)"
    "distinct (map fst (rb_budgets s))"
proof -
  show keys: "map fst (rb_vals s) = map (reservation_id \<circ> snd) (rb_vals s)"
  proof (rule map_cong[OF refl])
    fix x assume "x \<in> set (rb_vals s)"
    then show "fst x = (reservation_id \<circ> snd) x" using assms unfolding rb_inv_def by (cases x) auto
  qed
  show "distinct (map fst (rb_vals s))"
    unfolding keys using assms by (simp add: rb_inv_def ledger_inv_def)
  show "reservation_id r = i \<and> reservation_from_dict r = r \<and> item_wf r" if "(i, r) \<in> set (rb_vals s)"
  proof -
    have "r \<in> set (lg_items (rb_view s))" using imageI[OF that, of snd] by simp
    then have "item_wf r" using ledger_invD(2)[of "rb_view s" r] assms unfolding rb_inv_def by blast
    moreover have "reservation_id r = i" "0 \<le> rsv_token r" using assms that unfolding rb_inv_def by auto
    ultimately show ?thesis by (simp add: reservation_from_dict_def item_wf_def)
  qed
qed (use assms in \<open>auto simp: rb_inv_def\<close>)

lemma rb_load_is_find_item:
  assumes "rb_inv s"
  shows "rb_load_reservation s i = find_item i (map snd (rb_vals s))"
proof -
  have "map_option reservation_from_dict (map_of d i) = find_item i (map snd d)"
    if "\<forall>(i, r)\<in>set d. reservation_id r = i \<and> reservation_from_dict r = r" for d
    using that by (induction d) auto
  then show ?thesis using rb_invD(3)[OF assms] unfolding rb_load_reservation_def by blast
qed

lemma rb_reservations_mset:
  assumes "rb_inv s"
  shows "mset (rb_reservations s) = mset (map snd (rb_vals s))"
proof -
  have "rb_load_reservation s = map_of (rb_vals s)"
  proof
    fix i show "rb_load_reservation s i = map_of (rb_vals s) i"
      using rb_invD(3)[OF assms, of i] map_of_SomeD[of "rb_vals s" i]
      by (cases "map_of (rb_vals s) i") (auto simp: rb_load_reservation_def)
  qed
  then show ?thesis
    using map_filter_lookup[OF rb_invD(2,4,5)[OF assms]] by (simp add: rb_reservations_def)
qed

lemma rb_reserved_is_reserved_of:
  assumes "rb_inv s"
  shows "rb_reserved b s = reserved_of b (map snd (rb_vals s))"
proof -
  have "mset (map (\<lambda>r. rsv_amount r - rsv_completed r)
      (filter (\<lambda>r. rsv_budget r = b \<and> rsv_status r = ''active'') (rb_reservations s)))
    = mset (map (\<lambda>r. rsv_amount r - rsv_completed r)
      (filter (\<lambda>r. rsv_budget r = b \<and> rsv_status r = ''active'') (map snd (rb_vals s))))"
    by (simp only: mset_map mset_filter rb_reservations_mset[OF assms])
  from arg_cong[OF this, of sum_mset] show ?thesis
    unfolding rb_reserved_def reserved_of_def sum_mset_sum_list .
qed

lemma rb_reclaim_vals:
  fixes now :: time
  assumes "rb_inv s"
  defines "cur \<equiv> rb_fence_current now s"
  shows "rb_vals (snd (rb_reclaim_stale now s))
      = map (\<lambda>(i, r). (i, if stale cur r then mark ''reclaimed'' now r else r)) (rb_vals s)"
    and "fst (rb_reclaim_stale now s) = length (filter (stale cur) (map snd (rb_vals s)))"
proof -
  define old where "old = filter (stale cur) (rb_reservations s)"
  note inv = rb_invD[OF assms(1)]
  have ms: "mset old = mset (filter (stale cur) (map snd (rb_vals s)))"
    unfolding old_def by (simp only: mset_filter rb_reservations_mset[OF assms(1)])
  have rec: "rb_reclaim_stale now s = (length old,
      s\<lparr>rb_vals := fold (\<lambda>r d. AList.update (reservation_id r) r d) (map (mark ''reclaimed'' now) old) (rb_vals s)\<rparr>)"
    by (simp add: rb_reclaim_stale_def old_def stale_def[abs_def] mark_def[abs_def] cur_def Let_def)
  show "fst (rb_reclaim_stale now s) = length (filter (stale cur) (map snd (rb_vals s)))"
    using arg_cong[OF ms, of size] by (simp only: rec fst_conv size_mset)
  have "fold (\<lambda>r d. AList.update (reservation_id r) r d) (map (mark ''reclaimed'' now) old) (rb_vals s)
      = map (\<lambda>(i, r). (i, if stale cur r then mark ''reclaimed'' now r else r)) (rb_vals s)"
    by (rule fold_update_selected[OF inv(2) _ _ ms]) (auto dest: inv(3) simp: mark_def)
  then show "rb_vals (snd (rb_reclaim_stale now s))
      = map (\<lambda>(i, r). (i, if stale cur r then mark ''reclaimed'' now r else r)) (rb_vals s)"
    by (simp add: rec)
qed

lemma rb_reclaim_view:
  assumes "rb_inv s"
  shows "rb_view (snd (rb_reclaim_stale now s)) = snd (led_reclaim (rb_fence_current now s) now (rb_view s))"
    "fst (rb_reclaim_stale now s) = fst (led_reclaim (rb_fence_current now s) now (rb_view s))"
proof -
  have b: "rb_budgets (snd (rb_reclaim_stale now s)) = rb_budgets s" by (simp add: rb_reclaim_stale_def Let_def)
  show "rb_view (snd (rb_reclaim_stale now s)) = snd (led_reclaim (rb_fence_current now s) now (rb_view s))"
    by (simp add: rb_view_def led_reclaim_def rb_reclaim_vals(1)[OF assms] b case_prod_unfold o_def)
  show "fst (rb_reclaim_stale now s) = fst (led_reclaim (rb_fence_current now s) now (rb_view s))"
    by (simp add: led_reclaim_def rb_reclaim_vals(2)[OF assms])
qed

lemma rb_reclaim_frame [simp]:
  "rb_budgets (snd (rb_reclaim_stale now s)) = rb_budgets s"
  "rb_ids (snd (rb_reclaim_stale now s)) = rb_ids s"
  "rb_leases (snd (rb_reclaim_stale now s)) = rb_leases s"
  by (simp_all add: rb_reclaim_stale_def Let_def)

lemma led_reclaim_inv: "ledger_inv g \<Longrightarrow> ledger_inv (snd (led_reclaim cur now g))"
  by (rule led_move_inv[OF mv_reclaim])

lemma rb_reclaim_inv:
  assumes "rb_inv s"
  shows "rb_inv (snd (rb_reclaim_stale now s))"
proof -
  have "fst ` set (rb_vals (snd (rb_reclaim_stale now s))) = fst ` set (rb_vals s)"
    unfolding rb_reclaim_vals(1)[OF assms] by (force simp: image_iff)
  moreover have "\<forall>(i, r)\<in>set (rb_vals (snd (rb_reclaim_stale now s))). reservation_id r = i \<and> 0 \<le> rsv_token r"
    using assms unfolding rb_reclaim_vals(1)[OF assms] by (auto simp: rb_inv_def mark_def)
  moreover have "ledger_inv (rb_view (snd (rb_reclaim_stale now s)))"
    unfolding rb_reclaim_view(1)[OF assms] by (rule led_reclaim_inv[OF rb_invD(6)[OF assms]])
  ultimately show ?thesis using assms by (simp add: rb_inv_def)
qed

lemma update_vals_present:
  assumes "rb_inv s" "find_item (reservation_id r) (map snd (rb_vals s)) \<noteq> None"
  shows "map snd (AList.update (reservation_id r) r (rb_vals s)) = put_item r (map snd (rb_vals s))"
    "fst ` set (AList.update (reservation_id r) r (rb_vals s)) = fst ` set (rb_vals s)"
proof -
  have mem: "reservation_id r \<in> fst ` set (rb_vals s)"
    using assms(2) rb_invD(1)[OF assms(1)] find_item_None[of "reservation_id r" "map snd (rb_vals s)"]
    by (metis image_comp list.set_map)
  have upd: "AList.update (reservation_id r) r (rb_vals s)
      = map (\<lambda>(i, l). if i = reservation_id r then (i, r) else (i, l)) (rb_vals s)"
    by (rule update_present[OF rb_invD(2)[OF assms(1)] mem])
  show "map snd (AList.update (reservation_id r) r (rb_vals s)) = put_item r (map snd (rb_vals s))"
    unfolding upd put_item_def map_map
    by (rule map_cong[OF refl]) (use rb_invD(3)[OF assms(1)] in \<open>auto split: prod.splits\<close>)
  show "fst ` set (AList.update (reservation_id r) r (rb_vals s)) = fst ` set (rb_vals s)"
  proof -
    have "map fst (AList.update (reservation_id r) r (rb_vals s)) = map fst (rb_vals s)"
      unfolding upd by auto
    from arg_cong[OF this, of set] show ?thesis by simp
  qed
qed

lemma rb_put_present_view:
  assumes "rb_inv s" "find_item (reservation_id r) (map snd (rb_vals s)) \<noteq> None"
  shows "rb_view (rb_put r s) = (rb_view s)\<lparr>lg_items := put_item r (map snd (rb_vals s))\<rparr>"
  by (simp add: rb_view_def rb_put_def update_vals_present[OF assms])

lemma rb_find_absent:
  assumes "rb_inv s" "find_item i (map snd (rb_vals s)) = None"
  shows "i \<notin> fst ` set (rb_vals s)"
  using assms(2) rb_invD(1)[OF assms(1)] find_item_None[of i "map snd (rb_vals s)"]
  by (metis image_comp list.set_map)

lemma rb_put_absent_view:
  assumes "rb_inv s" "find_item (reservation_id r) (map snd (rb_vals s)) = None"
  shows "rb_view ((rb_put r s)\<lparr>rb_ids := ids\<rparr>) = (rb_view s)\<lparr>lg_items := map snd (rb_vals s) @ [r]\<rparr>"
  by (simp add: rb_view_def rb_put_def update_new[OF rb_find_absent[OF assms]])

lemma rb_fence_token: "rb_fence_current now s i k \<Longrightarrow> 0 \<le> k"
  by (auto simp: rb_fence_current_def red_load_def split: option.splits)

section \<open>Every method refines its ledger operation\<close>

lemma rb_configure_ref:
  "map_prod id rb_view (rb_configure now b m s) = settle_with False (rb_view s) (led_configure b m (rb_view s))"
  by (auto simp: rb_configure_def led_configure_def settle_with_def rb_view_def fun_eq_iff
      split: sum.splits option.splits)

lemma rb_status_ref:
  assumes "rb_inv s"
  shows "map_prod id rb_view (rb_status sc now b s)
    = settle_with False (rb_view s) (led_status sc (rb_fence_current now s) now b (rb_view s))"
proof (cases "budget_name b")
  case (Inr name)
  obtain n s1 where r: "rb_reclaim_stale now s = (n, s1)" by (metis prod.exhaust)
  have inv1: "rb_inv s1" using rb_reclaim_inv[OF assms, of now] by (simp add: r)
  have "led_reclaim (rb_fence_current now s) now (rb_view s) = (n, rb_view s1)"
    using rb_reclaim_view[OF assms, of now] by (simp add: r prod_eq_iff)
  then show ?thesis using Inr
    by (cases "map_of (rb_budgets s1) name")
      (auto simp: rb_status_def led_status_def settle_with_def r rb_reserved_is_reserved_of[OF inv1])
qed (simp add: rb_status_def led_status_def settle_with_def)

lemma rb_get_ref:
  assumes "rb_inv s"
  shows "map_prod id rb_view (rb_reservation now i s)
    = settle_with False (rb_view s) (led_get (rb_fence_current now s) now i (rb_view s))"
  by (auto simp: rb_reservation_def led_get_def settle_with_def Let_def rb_load_is_find_item[OF rb_reclaim_inv[OF assms]]
      simp flip: rb_reclaim_view(1)[OF assms] split: sum.splits)

lemma rb_reserve_ref:
  assumes "rb_inv s"
  shows "map_prod id rb_view (rb_reserve sc now b a l k fresh i s) = settle_with False (rb_view s)
    (led_reserve sc (rb_fence_current now s) now b a l k (reservation_key fresh i) (rb_view s))"
proof (cases "budget_name b"; cases "reservation_amount a")
  fix name q assume a: "budget_name b = Inr name" "reservation_amount a = Inr q"
  let ?s1 = "snd (rb_reclaim_stale now s)" and ?i = "reservation_key fresh i"
  note inv1 = rb_reclaim_inv[OF assms, of now]
  have id: "reservation_id (new_reservation sc ?i b' a' l k now) = ?i" for b' a' by (simp add: new_reservation_def)
  have app: "rb_view ((rb_put (new_reservation sc ?i b' a' l k now) ?s1)\<lparr>rb_ids := ids\<rparr>)
      = (rb_view ?s1)\<lparr>lg_items := map snd (rb_vals ?s1) @ [new_reservation sc ?i b' a' l k now]\<rparr>"
    if "find_item ?i (map snd (rb_vals ?s1)) = None" for b' a' ids
    using rb_put_absent_view[OF inv1] that id by simp
  show ?thesis
    using a unfolding rb_reserve_def led_reserve_def
    by (auto simp: settle_with_def Let_def rb_load_is_find_item[OF inv1] rb_reserved_is_reserved_of[OF inv1] app
        simp flip: rb_reclaim_view(1)[OF assms] simp del: rb_reclaim_frame split: option.splits)
qed (simp_all add: rb_reserve_def led_reserve_def settle_with_def)

text \<open>A charge writes the budget value and the reservation value.\<close>

lemma rb_charge_view:
  assumes "rb_inv s" "find_item i (map snd (rb_vals s)) = Some r" "reservation_id r' = i"
  shows "\<exists>st. map_of (rb_budgets s) (rsv_budget r) = Some st
    \<and> rb_view ((rb_put r' s)\<lparr>rb_budgets := AList.update (rsv_budget r)
          (st\<lparr>rbs_committed := rbs_committed st + d, rbs_updated_at := now\<rparr>) (rb_budgets s)\<rparr>)
      = \<lparr>lg_budgets = add_committed (rsv_budget r) d (lg_budgets (rb_view s)), lg_items = put_item r' (map snd (rb_vals s))\<rparr>"
proof -
  have r: "r \<in> set (lg_items (rb_view s))" using find_item_SomeD[OF assms(2)] by simp
  obtain st where st: "map_of (rb_budgets s) (rsv_budget r) = Some st"
    using ledger_invD(3)[OF rb_invD(6)[OF assms(1)] r] by auto
  have "rb_vals (rb_put r' s) = AList.update (reservation_id r') r' (rb_vals s)" by (simp add: rb_put_def)
  then have items: "map snd (rb_vals (rb_put r' s)) = put_item r' (map snd (rb_vals s))"
    using update_vals_present(1)[OF assms(1), of r'] assms(2,3) by simp
  have upd: "map_of (AList.update b v d) x = (if x = b then Some v else map_of d x)" for b v d x
    by (simp add: update_conv')
  show ?thesis using st items
    by (auto simp: rb_view_def add_committed_def fun_eq_iff upd)
qed

lemma rb_complete_ref:
  assumes "rb_inv s"
  shows "map_prod id rb_view (rb_complete now i n s)
    = settle_with False (rb_view s) (led_complete (rb_fence_current now s) now i n (rb_view s))"
proof (cases "reservation_ident i"; cases "find_item i (map snd (rb_vals s))")
  fix i' r assume a: "reservation_ident i = Inr i'" "find_item i (map snd (rb_vals s)) = Some r"
  have i': "i' = i" "reservation_id r = i" using a budget_checks(4) find_item_SomeD[OF a(2)] by simp_all
  obtain st where st: "map_of (rb_budgets s) (rsv_budget r) = Some st"
    using rb_charge_view[OF assms a(2) i'(2)] by blast
  have v: "rb_view ((rb_put r' s)\<lparr>rb_budgets := AList.update (rsv_budget r)
          (st\<lparr>rbs_committed := rbs_committed st + d, rbs_updated_at := now\<rparr>) (rb_budgets s)\<rparr>)
      = \<lparr>lg_budgets = add_committed (rsv_budget r) d (lg_budgets (rb_view s)), lg_items = put_item r' (map snd (rb_vals s))\<rparr>"
    if "reservation_id r' = i" for r' d
    using rb_charge_view[OF assms a(2) that] st by auto
  show ?thesis
    using a(1) unfolding rb_complete_def led_complete_def
    by (auto simp: i' settle_with_def Let_def rb_load_is_find_item[OF assms] a(2) st v)
qed (auto simp: rb_complete_def led_complete_def settle_with_def Let_def rb_load_is_find_item[OF assms]
    reservation_ident_def split: if_splits)

lemma rb_consume_ref:
  assumes "rb_inv s"
  shows "map_prod id rb_view (rb_consume now i n s)
    = settle_with False (rb_view s) (led_consume (rb_fence_current now s) now i n (rb_view s))"
proof (cases "reservation_ident i"; cases "reservation_amount n"; cases "find_item i (map snd (rb_vals s))")
  fix i' n' r assume a: "reservation_ident i = Inr i'" "reservation_amount n = Inr n'"
    "find_item i (map snd (rb_vals s)) = Some r"
  have i': "i' = i" "reservation_id r = i" using a budget_checks(4) find_item_SomeD[OF a(3)] by simp_all
  obtain st where st: "map_of (rb_budgets s) (rsv_budget r) = Some st"
    using rb_charge_view[OF assms a(3) i'(2)] by blast
  have v: "rb_view ((rb_put r' s)\<lparr>rb_budgets := AList.update (rsv_budget r)
          (st\<lparr>rbs_committed := rbs_committed st + d, rbs_updated_at := now\<rparr>) (rb_budgets s)\<rparr>)
      = \<lparr>lg_budgets = add_committed (rsv_budget r) d (lg_budgets (rb_view s)), lg_items = put_item r' (map snd (rb_vals s))\<rparr>"
    if "reservation_id r' = i" for r' d
    using rb_charge_view[OF assms a(3) that] st by auto
  show ?thesis
    using a(1,2) unfolding rb_consume_def led_consume_def
    by (auto simp: i' settle_with_def Let_def rb_load_is_find_item[OF assms] a(3) st v)
qed (auto simp: rb_consume_def led_consume_def settle_with_def Let_def rb_load_is_find_item[OF assms]
    reservation_ident_def reservation_amount_def split: if_splits)

lemma rb_cancel_ref:
  assumes "rb_inv s"
  shows "map_prod id rb_view (rb_cancel now i s)
    = settle_with False (rb_view s) (led_cancel (rb_fence_current now s) now i (rb_view s))"
proof (cases "reservation_ident i"; cases "find_item i (map snd (rb_vals s))")
  fix i' r assume a: "reservation_ident i = Inr i'" "find_item i (map snd (rb_vals s)) = Some r"
  have i': "i' = i" "reservation_id r = i" using a budget_checks(4) find_item_SomeD[OF a(2)] by simp_all
  show ?thesis
    using a(1) rb_put_present_view[OF assms, of "mark ''cancelled'' now r"] i'
    unfolding rb_cancel_def led_cancel_def
    by (auto simp: settle_with_def rb_load_is_find_item[OF assms] a(2) mark_def)
qed (auto simp: rb_cancel_def led_cancel_def settle_with_def rb_load_is_find_item[OF assms]
    reservation_ident_def split: if_splits)

section \<open>The index and the keys stay consistent\<close>

definition rb_shape :: "redis_l0 \<Rightarrow> bool" where
  "rb_shape s \<longleftrightarrow> distinct (map fst (rb_budgets s)) \<and> distinct (rb_ids s) \<and> set (rb_ids s) = fst ` set (rb_vals s)
     \<and> (\<forall>(i, r)\<in>set (rb_vals s). reservation_id r = i \<and> 0 \<le> rsv_token r)"

lemma rb_inv_shape: "rb_inv s \<longleftrightarrow> rb_shape s \<and> ledger_inv (rb_view s)"
  by (auto simp: rb_inv_def rb_shape_def)

lemma shape_budgets:
  "rb_shape s \<Longrightarrow> rb_shape (s\<lparr>rb_budgets := AList.update b st (rb_budgets s)\<rparr>)"
  by (simp add: rb_shape_def distinct_update)

lemma shape_put_present:
  assumes "rb_inv s" "find_item i (map snd (rb_vals s)) = Some r" "reservation_id r' = i" "rsv_token r' = rsv_token r"
  shows "rb_shape (rb_put r' s)"
proof -
  have r: "0 \<le> rsv_token r"
    using find_item_SomeD[OF assms(2)] assms(1) unfolding rb_inv_def by force
  show ?thesis
    using assms(1) r assms(3,4) update_vals_present(2)[OF assms(1), of r'] assms(2)
      set_AList_update_subset[of i r' "rb_vals s"]
    unfolding rb_shape_def rb_inv_def by (auto simp: rb_put_def)
qed

lemma shape_put_absent:
  assumes "rb_inv s" "find_item (reservation_id r) (map snd (rb_vals s)) = None" "0 \<le> rsv_token r"
  shows "rb_shape ((rb_put r s)\<lparr>rb_ids := sadd (reservation_id r) (rb_ids s)\<rparr>)"
  using assms(1,3) unfolding rb_shape_def rb_inv_def rb_put_def
  by (auto simp: update_new[OF rb_find_absent[OF assms(1,2)]] set_sadd distinct_sadd)

lemma shape_put_changed:
  assumes "rb_inv s" "rb_load_reservation s j = Some r" "reservation_id r' = reservation_id r" "rsv_token r' = rsv_token r"
  shows "rb_shape (rb_put r' s)" "rb_shape ((rb_put r' s)\<lparr>rb_budgets := AList.update b v (rb_budgets s)\<rparr>)"
proof -
  show put: "rb_shape (rb_put r' s)"
    using shape_put_present[OF assms(1), of j r r'] assms(2-4) find_item_SomeD[of j "map snd (rb_vals s)" r]
      rb_load_is_find_item[OF assms(1)] by simp
  show "rb_shape ((rb_put r' s)\<lparr>rb_budgets := AList.update b v (rb_budgets s)\<rparr>)"
    using shape_budgets[OF put, of b v] by (simp add: rb_put_def)
qed

lemma rb_reserve_shape:
  assumes "rb_inv s"
  shows "rb_shape (snd (rb_reserve sc now b a l k fresh i s))"
proof -
  have sh: "rb_shape s" "rb_shape (snd (rb_reclaim_stale now s))"
    using assms rb_reclaim_inv[OF assms] rb_inv_shape by auto
  note inv1 = rb_reclaim_inv[OF assms, of now]
  have new: "rb_shape ((rb_put (new_reservation sc j b a l k now) (snd (rb_reclaim_stale now s)))
      \<lparr>rb_ids := sadd j (rb_ids (snd (rb_reclaim_stale now s)))\<rparr>)"
    if "rb_load_reservation (snd (rb_reclaim_stale now s)) j = None" "rb_fence_current now s l k" for j b a
    using shape_put_absent[OF inv1, of "new_reservation sc j b a l k now"] that
      rb_load_is_find_item[OF inv1] rb_fence_token by (auto simp: new_reservation_def)
  show ?thesis using sh new
    by (auto simp: rb_reserve_def Let_def simp del: rb_reclaim_frame split: sum.splits option.splits)
qed

lemma rb_op_shape:
  assumes "rb_inv s"
  shows "rb_shape (apply_budget_op (redis_authority sc) now e s)"
proof -
  have sh: "rb_shape s" "rb_shape (snd (rb_reclaim_stale now s))"
    using assms rb_reclaim_inv[OF assms] rb_inv_shape by auto
  note put = shape_put_changed[OF assms]
  show ?thesis
  proof (cases e)
    case (BConfigure b m)
    then show ?thesis using sh shape_budgets[OF sh(1)]
      by (auto simp: redis_authority_def rb_configure_def split: sum.splits option.splits)
  next
    case (BStatus b)
    have "snd (rb_status sc now b s) = s \<or> snd (rb_status sc now b s) = snd (rb_reclaim_stale now s)"
      by (auto simp: rb_status_def case_prod_unfold Let_def split: sum.splits option.splits)
    then show ?thesis using sh BStatus by (auto simp: redis_authority_def)
  next
    case (BGet i)
    then show ?thesis using sh by (auto simp: redis_authority_def rb_reservation_def Let_def split: sum.splits)
  next
    case (BReserve b a l k fresh i)
    then show ?thesis using rb_reserve_shape[OF assms] by (simp add: redis_authority_def)
  next
    case (BComplete i n)
    show ?thesis using BComplete sh put
      by (auto simp: redis_authority_def rb_complete_def Let_def split: sum.splits option.splits)
  next
    case (BConsume i n)
    show ?thesis using BConsume sh put
      by (auto simp: redis_authority_def rb_consume_def Let_def split: sum.splits option.splits)
  next
    case (BCancel i)
    show ?thesis using BCancel sh put(1)
      by (auto simp: redis_authority_def rb_cancel_def split: sum.splits option.splits)
  qed
qed

lemma rb_op_inv:
  assumes "rb_inv s"
  shows "rb_inv (apply_budget_op (redis_authority sc) now e s)"
proof -
  note ref = rb_configure_ref rb_status_ref[OF assms] rb_get_ref[OF assms] rb_reserve_ref[OF assms]
    rb_complete_ref[OF assms] rb_consume_ref[OF assms] rb_cancel_ref[OF assms]
  have "ledger_inv (rb_view (apply_budget_op (redis_authority sc) now e s))"
    using rb_invD(6)[OF assms]
    by (cases e) (auto simp: redis_authority_def intro: settled_inv[OF ref(1) led_moves(1)]
        settled_inv[OF ref(2) led_moves(2)] settled_inv[OF ref(3) led_moves(3)] settled_inv[OF ref(4) led_moves(4)]
        settled_inv[OF ref(5) led_moves(5)] settled_inv[OF ref(6) led_moves(6)] settled_inv[OF ref(7) led_moves(7)])
  then show ?thesis using rb_op_shape[OF assms] by (simp add: rb_inv_shape)
qed

text \<open>The other steps on the same keys: the lease operations of the namespace.\<close>

definition redis_lease_env :: "redis_l0 \<Rightarrow> redis_l0 \<Rightarrow> bool" where
  "redis_lease_env s s' \<longleftrightarrow> s' = s\<lparr>rb_leases := rb_leases s'\<rparr>"

lemma redis_lease_env_frame:
  assumes "rb_inv s" "redis_lease_env s s'"
  shows "rb_inv s' \<and> rb_view s' = rb_view s"
proof -
  obtain x where "s' = s\<lparr>rb_leases := x\<rparr>" using assms(2) unfolding redis_lease_env_def by blast
  then show ?thesis using assms(1) by (simp add: rb_inv_def rb_view_def)
qed

interpretation rb: budget_authority "redis_authority sc" sc False rb_inv rb_view
  "\<lambda>now s. rb_fence_current now s" redis_lease_env for sc
proof unfold_locales
  fix s assume inv: "rb_inv s"
  show "ledger_inv (rb_view s)" by (rule rb_invD(6)[OF inv])
  fix now e
  show "rb_inv (apply_budget_op (redis_authority sc) now e s)" by (rule rb_op_inv[OF inv])
qed (simp_all only: redis_authority_def authority.simps redis_lease_env_frame rb_configure_ref rb_status_ref
    rb_get_ref rb_reserve_ref rb_complete_ref rb_consume_ref rb_cancel_ref)

end
