(* ===== verification/Allocator.thy ===== *)
theory Allocator
  imports Lease_SQLite Lease_Redis
begin

text \<open>
  \<open>ResourceAllocator\<close> of \<open>resources/model.py\<close>: the static check of a request, the aggregate
  check against the active leases that the store runs inside its transaction, and the four
  operations. The store is an argument (a record of its operations), so one definition serves the
  three stores. A run is a list of operations with their clock readings.
\<close>

section \<open>Requests\<close>

fun index_of :: "'a \<Rightarrow> 'a list \<Rightarrow> nat" where
  "index_of x [] = 0"
| "index_of x (y # ys) = (if x = y then 0 else Suc (index_of x ys))"

fun after_colon :: "string \<Rightarrow> string" where
  "after_colon [] = []"
| "after_colon (ch # s) = (if ch = CHR '':'' then s else after_colon s)"

definition resolve_token :: "offer \<Rightarrow> string \<Rightarrow> string" where
  "resolve_token o1 token =
     (let explicit = py_strip (case map_of (offer_device_bindings o1) token of None \<Rightarrow> [] | Some v \<Rightarrow> v);
          accelerators = filter is_accelerator_token (offer_device_tokens o1)
      in if explicit \<noteq> [] then explicit
         else if starts_with ''cuda:'' token \<or> starts_with ''gpu:'' token then ''cuda:'' @ after_colon token
         else if token = ''mps'' then ''mps''
         else if is_accelerator_token token \<and> offer_gpus o1 > 0 \<and> token \<in> set accelerators
           then ''cuda:'' @ nat_string (index_of token accelerators)
         else [])"

definition resolve_device_bindings :: "request \<Rightarrow> offer \<Rightarrow> (string \<times> string) list" where
  "resolve_device_bindings q o1 = fold (\<lambda>token d.
     (let physical = resolve_token o1 token in if physical \<noteq> [] then AList.update token physical d else d))
     (device_tokens q) []"

definition validate_request :: "policy \<Rightarrow> offer \<Rightarrow> request \<Rightarrow> unit result" where
  "validate_request p o1 q =
     (if workers q > max_workers p then Inl ResourceBudgetError
      else if threads q > max_threads p \<and> \<not> cpu_oversubscribe p then Inl ResourceBudgetError
      else if (case max_gpus p of None \<Rightarrow> False | Some g \<Rightarrow> gpus q > g) then Inl ResourceBudgetError
      else if (case max_memory_mb p of None \<Rightarrow> False
               | Some m \<Rightarrow> (case memory_mb q of None \<Rightarrow> False | Some r \<Rightarrow> r > m)) then Inl ResourceBudgetError
      else if \<not> satisfies (request_requirement q) o1 then Inl ResourceBudgetError
      else Inr ())"

definition gpu_limit :: "policy \<Rightarrow> offer \<Rightarrow> int" where
  "gpu_limit p o1 = (case max_gpus p of None \<Rightarrow> offer_gpus o1 | Some g \<Rightarrow> min (offer_gpus o1) g)"

definition validate_aggregate_budget :: "policy \<Rightarrow> offer \<Rightarrow> request \<Rightarrow> validator" where
  "validate_aggregate_budget p o1 q active =
     (let rs = map lease_resources active;
          total_workers = sum_list (map res_workers_or rs) + workers q;
          total_threads = sum_list (map res_threads_or rs) + threads q;
          total_gpus = sum_list (map res_gpus_or rs) + gpus q;
          total_memory = sum_list (map res_memory_or rs) + (case memory_mb q of None \<Rightarrow> 0 | Some m \<Rightarrow> m);
          sharing = py_lower (gpu_sharing p)
      in if total_workers > max_workers p then Inl ResourceBudgetError
         else if \<not> cpu_oversubscribe p \<and> total_threads > min (offer_threads o1) (max_threads p)
           then Inl ResourceBudgetError
         else if total_gpus > gpu_limit p o1 \<and> sharing \<noteq> ''shared'' then Inl ResourceBudgetError
         else if (case max_memory_mb p of None \<Rightarrow> False | Some m \<Rightarrow> total_memory > m)
           then Inl ResourceBudgetError
         else if sharing = ''exclusive''
             \<and> (\<Union>r\<in>set rs. set (res_device_tokens r)) \<inter> set (device_tokens q) \<noteq> {}
           then Inl ResourceBudgetError
         else Inr ())"

definition allocated_lease :: "offer \<Rightarrow> request \<Rightarrow> string \<Rightarrow> string \<Rightarrow> string \<Rightarrow> time \<Rightarrow> lease" where
  "allocated_lease o1 q owner scope fresh now =
     (let base = request_as_dict q;
          resolved = resolve_device_bindings q o1;
          res = (if resolved = [] then base
                 else base\<lparr>res_resolved_devices := resolved,
                   res_device := (if py_lower (or_default (res_device base) ''cpu'') \<in> {'''', ''auto'', ''none'', ''cpu''}
                                  then snd (hd resolved) else res_device base)\<rparr>)
      in lease_post_init now
        \<lparr>lease_id = ''lease-'' @ or_default owner ''case'' @ ''-'' @ or_default scope ''project'' @ ''-'' @ fresh,
         owner_id = owner, lease_scope = scope, lease_resources = res, lease_status = ''active'',
         lease_created_at = now, lease_updated_at = 0, expires_at = 0, fencing_token = 0,
         lease_metadata = JObj [(''source'', JStr ''blackbase.project.l0'')]\<rparr>)"

section \<open>Operations\<close>

record 's store_ops =
  op_acquire :: "'s acquire_op"
  op_renew :: "'s renew_op"
  op_release :: "'s release_op"
  op_recover :: "'s recover_op"

definition strict :: "policy \<Rightarrow> bool" where
  "strict p \<longleftrightarrow> py_lower (policy_mode p) = ''strict''"

definition alloc_acquire ::
  "policy \<Rightarrow> offer \<Rightarrow> time \<Rightarrow> 's store_ops \<Rightarrow> clock \<Rightarrow> string \<Rightarrow> request \<Rightarrow> string \<Rightarrow> string
    \<Rightarrow> 's \<Rightarrow> lease result \<times> 's" where
  "alloc_acquire p o1 ttl ops c fresh q owner scope s =
     (case (if strict p then validate_request p o1 q else Inr ()) of
        Inl e \<Rightarrow> (Inl e, s)
      | Inr _ \<Rightarrow> op_acquire ops c (allocated_lease o1 q owner scope fresh (c 0))
          (if strict p then validate_aggregate_budget p o1 q else (\<lambda>_. Inr ())) (max 0 ttl) s)"

definition alloc_release :: "'s store_ops \<Rightarrow> clock \<Rightarrow> lease \<Rightarrow> 's \<Rightarrow> 's" where
  "alloc_release ops c l s = (if lease_id l = [] then s
     else snd (op_release ops c (lease_id l) (Some (fencing_token l)) s))"

definition alloc_renew :: "time \<Rightarrow> 's store_ops \<Rightarrow> clock \<Rightarrow> lease \<Rightarrow> 's \<Rightarrow> lease option \<times> 's" where
  "alloc_renew ttl ops c l s = op_renew ops c (lease_id l) (fencing_token l) (max 0 ttl) s"

datatype alloc_op =
    Acquire request string string string
  | Release lease
  | Renew lease
  | Recover

fun alloc_step :: "policy \<Rightarrow> offer \<Rightarrow> time \<Rightarrow> 's store_ops \<Rightarrow> clock \<Rightarrow> alloc_op \<Rightarrow> 's \<Rightarrow> 's" where
  "alloc_step p o1 ttl ops c (Acquire q owner scope fresh) s =
     snd (alloc_acquire p o1 ttl ops c fresh q owner scope s)"
| "alloc_step p o1 ttl ops c (Release l) s = alloc_release ops c l s"
| "alloc_step p o1 ttl ops c (Renew l) s = snd (alloc_renew ttl ops c l s)"
| "alloc_step p o1 ttl ops c Recover s = snd (op_recover ops c s)"

type_synonym timed_op = "time \<times> clock \<times> time \<times> alloc_op"

fun alloc_run :: "policy \<Rightarrow> offer \<Rightarrow> time \<Rightarrow> 's store_ops \<Rightarrow> timed_op list \<Rightarrow> 's \<Rightarrow> 's" where
  "alloc_run p o1 ttl ops [] s = s"
| "alloc_run p o1 ttl ops ((t0, c, t1, e) # es) s =
     alloc_run p o1 ttl ops es (alloc_step p o1 ttl ops c e s)"

text \<open>
  The operations follow each other in time up to \<open>stop\<close>, and the requests are built by the
  constructor of \<open>ResourceRequest\<close>.
\<close>

fun ordered_ops :: "time \<Rightarrow> timed_op list \<Rightarrow> time \<Rightarrow> bool" where
  "ordered_ops t [] stop \<longleftrightarrow> t \<le> stop"
| "ordered_ops t ((t0, c, t1, e) # es) stop \<longleftrightarrow> t \<le> t0 \<and> clock_in c t0 t1
     \<and> (case e of Acquire q _ _ _ \<Rightarrow> request_wf q | _ \<Rightarrow> True) \<and> ordered_ops t1 es stop"

definition sql_ops :: "string \<Rightarrow> 'a lease_db_scheme store_ops" where
  "sql_ops ns = \<lparr>op_acquire = sql_acquire ns, op_renew = sql_renew ns, op_release = sql_release ns,
     op_recover = sql_recover_expired ns\<rparr>"

definition red_ops :: "redis_leases store_ops" where
  "red_ops = \<lparr>op_acquire = red_acquire, op_renew = red_renew, op_release = red_release,
     op_recover = red_recover_expired\<rparr>"

definition mem_ops :: "mem_store store_ops" where
  "mem_ops = \<lparr>op_acquire = mem_acquire, op_renew = mem_renew, op_release = mem_release,
     op_recover = (\<lambda>c. mem_expire (c 0))\<rparr>"

section \<open>The promise: what is held fits the policy\<close>

definition tokens_disjoint :: "resources multiset \<Rightarrow> bool" where
  "tokens_disjoint M \<longleftrightarrow> (\<forall>r\<in>#M. \<forall>r'\<in>#M - {#r#}. set (res_device_tokens r) \<inter> set (res_device_tokens r') = {})"

definition within_policy :: "policy \<Rightarrow> offer \<Rightarrow> resources multiset \<Rightarrow> bool" where
  "within_policy p o1 M \<longleftrightarrow>
     (\<Sum>r\<in>#M. res_workers_or r) \<le> max_workers p
     \<and> (cpu_oversubscribe p \<or> (\<Sum>r\<in>#M. res_threads_or r) \<le> min (offer_threads o1) (max_threads p))
     \<and> (py_lower (gpu_sharing p) = ''shared'' \<or> (\<Sum>r\<in>#M. res_gpus_or r) \<le> gpu_limit p o1)
     \<and> (case max_memory_mb p of None \<Rightarrow> True | Some m \<Rightarrow> (\<Sum>r\<in>#M. res_memory_or r) \<le> m)
     \<and> (py_lower (gpu_sharing p) \<noteq> ''exclusive'' \<or> tokens_disjoint M)"

text \<open>Policy and offer as their constructors build them.\<close>

definition limits_wf :: "policy \<Rightarrow> offer \<Rightarrow> bool" where
  "limits_wf p o1 \<longleftrightarrow> 1 \<le> max_workers p \<and> 1 \<le> max_threads p \<and> 1 \<le> offer_threads o1
     \<and> 0 \<le> gpu_limit p o1 \<and> (\<forall>m. max_memory_mb p = Some m \<longrightarrow> 0 < m)"

lemma limits_wf_post_init: "limits_wf (policy_post_init thr p) (offer_post_init o1)"
  by (auto simp: limits_wf_def policy_post_init_def offer_post_init_def gpu_limit_def Let_def
      as_float_or_none_pos split: option.splits)

definition res_nonneg :: "resources \<Rightarrow> bool" where
  "res_nonneg r \<longleftrightarrow> 0 \<le> res_workers_or r \<and> 0 \<le> res_threads_or r \<and> 0 \<le> res_gpus_or r \<and> 0 \<le> res_memory_or r"

definition held_fit :: "policy \<Rightarrow> offer \<Rightarrow> grant multiset \<Rightarrow> bool" where
  "held_fit p o1 G \<longleftrightarrow> (\<forall>g\<in>#G. res_nonneg (snd (snd g))) \<and> within_policy p o1 (image_mset (snd \<circ> snd) G)"

lemma sum_mset_le_sub:
  fixes f :: "'a \<Rightarrow> 'b::linordered_idom"
  assumes "M \<subseteq># N" "\<And>x. x \<in># N \<Longrightarrow> 0 \<le> f x"
  shows "(\<Sum>x\<in>#M. f x) \<le> (\<Sum>x\<in>#N. f x)"
proof -
  obtain K where N: "N = M + K" using assms(1) by (metis subset_mset.add_diff_inverse)
  have "0 \<le> (\<Sum>x\<in>#K. f x)" using assms(2) unfolding N by (induction K) auto
  then show ?thesis unfolding N by simp
qed

lemma tokens_disjoint_sub:
  assumes N: "tokens_disjoint N" and sub: "M \<subseteq># N"
  shows "tokens_disjoint M"
  unfolding tokens_disjoint_def
proof (intro ballI)
  fix r r' assume r: "r \<in># M" and r': "r' \<in># M - {#r#}"
  have "M - {#r#} \<subseteq># N - {#r#}" using sub by (simp add: subseteq_mset_def diff_le_mono)
  then have "r' \<in># N - {#r#}" "r \<in># N" using r r' sub by (auto dest: mset_subset_eqD)
  then show "set (res_device_tokens r) \<inter> set (res_device_tokens r') = {}"
    using N unfolding tokens_disjoint_def by blast
qed

lemma tokens_disjoint_add:
  assumes M: "tokens_disjoint M"
    and new: "\<And>r'. r' \<in># M \<Longrightarrow> set (res_device_tokens r) \<inter> set (res_device_tokens r') = {}"
  shows "tokens_disjoint (add_mset r M)"
  unfolding tokens_disjoint_def
proof (intro ballI)
  fix a b assume a: "a \<in># add_mset r M" and b: "b \<in># add_mset r M - {#a#}"
  show "set (res_device_tokens a) \<inter> set (res_device_tokens b) = {}"
  proof (cases "a = r")
    case True
    then show ?thesis using b new by simp
  next
    case False
    then have "a \<in># M" "b = r \<or> b \<in># M - {#a#}" using a b by auto
    then show ?thesis using M new unfolding tokens_disjoint_def by blast
  qed
qed

lemma held_fit_sub:
  assumes G: "held_fit p o1 G" and sub: "H \<subseteq># G"
  shows "held_fit p o1 H"
proof -
  let ?M = "image_mset (snd \<circ> snd) H" and ?N = "image_mset (snd \<circ> snd) G"
  have MN: "?M \<subseteq># ?N" by (rule image_mset_subseteq_mono[OF sub])
  have nn: "res_nonneg r" if "r \<in># ?N" for r using G that unfolding held_fit_def by auto
  have w: "(\<Sum>r\<in>#?M. res_workers_or r) \<le> (\<Sum>r\<in>#?N. res_workers_or r)"
    and t: "(\<Sum>r\<in>#?M. res_threads_or r) \<le> (\<Sum>r\<in>#?N. res_threads_or r)"
    and g: "(\<Sum>r\<in>#?M. res_gpus_or r) \<le> (\<Sum>r\<in>#?N. res_gpus_or r)"
    and m: "(\<Sum>r\<in>#?M. res_memory_or r) \<le> (\<Sum>r\<in>#?N. res_memory_or r)"
    using nn by (auto intro!: sum_mset_le_sub[OF MN] simp: res_nonneg_def simp del: image_mset.compositionality)
  have "within_policy p o1 ?N" using G unfolding held_fit_def by blast
  then have "within_policy p o1 ?M"
    unfolding within_policy_def using w t g m tokens_disjoint_sub[OF _ MN]
    by (auto split: option.splits simp del: image_mset.compositionality)
  moreover have "\<forall>x\<in>#H. res_nonneg (snd (snd x))"
    using G mset_subset_eqD[OF sub] unfolding held_fit_def by blast
  ultimately show ?thesis unfolding held_fit_def by blast
qed

lemma allocated_lease_resources [simp]:
  assumes "request_wf q"
  shows "res_workers_or (lease_resources (allocated_lease o1 q ow sc fr now)) = workers q"
    "res_threads_or (lease_resources (allocated_lease o1 q ow sc fr now)) = threads q"
    "res_gpus_or (lease_resources (allocated_lease o1 q ow sc fr now)) = gpus q"
    "res_memory_or (lease_resources (allocated_lease o1 q ow sc fr now))
      = (case memory_mb q of None \<Rightarrow> 0 | Some m \<Rightarrow> m)"
    "res_device_tokens (lease_resources (allocated_lease o1 q ow sc fr now)) = device_tokens q"
  using assms by (auto simp: allocated_lease_def Let_def res_workers_or_def res_threads_or_def
      res_gpus_or_def res_memory_or_def request_as_dict_def request_wf_def split: option.splits)

lemma sum_mset_grants_of:
  "(\<Sum>r\<in>#image_mset (snd \<circ> snd) (grants_of ls). f r) = sum_list (map f (map lease_resources ls))"
  by (induction ls) (auto simp: grant_of_def)

lemma set_grants_of_resources:
  "set_mset (image_mset (snd \<circ> snd) (grants_of ls)) = lease_resources ` set ls"
  by (induction ls) (auto simp: grant_of_def)

text \<open>A successful aggregate check extends the fit to the new lease.\<close>

lemma validate_aggregate_admits:
  assumes q: "request_wf q" and ok: "validate_aggregate_budget p o1 q act = Inr ()"
    and fit: "held_fit p o1 (grants_of act)"
    and new: "lease_resources new = lease_resources (allocated_lease o1 q ow sc fr now)"
  shows "held_fit p o1 (add_mset (grant_of new) (grants_of act))"
proof -
  let ?r = "lease_resources new" and ?N = "image_mset (snd \<circ> snd) (grants_of act)"
  have nn: "res_nonneg ?r" using q by (auto simp: res_nonneg_def new request_wf_def split: option.splits)
  have sums: "(\<Sum>r\<in>#?N. res_workers_or r) + workers q \<le> max_workers p"
    "cpu_oversubscribe p \<or> (\<Sum>r\<in>#?N. res_threads_or r) + threads q \<le> min (offer_threads o1) (max_threads p)"
    "py_lower (gpu_sharing p) = ''shared'' \<or> (\<Sum>r\<in>#?N. res_gpus_or r) + gpus q \<le> gpu_limit p o1"
    "case max_memory_mb p of None \<Rightarrow> True
      | Some m \<Rightarrow> (\<Sum>r\<in>#?N. res_memory_or r) + (case memory_mb q of None \<Rightarrow> 0 | Some m \<Rightarrow> m) \<le> m"
    "py_lower (gpu_sharing p) = ''exclusive''
      \<Longrightarrow> \<forall>r\<in>lease_resources ` set act. set (res_device_tokens r) \<inter> set (device_tokens q) = {}"
    using ok unfolding sum_mset_grants_of validate_aggregate_budget_def
    by (auto simp: Let_def split: if_splits option.splits)
  have "tokens_disjoint (add_mset ?r ?N)" if e: "py_lower (gpu_sharing p) = ''exclusive''"
  proof (rule tokens_disjoint_add)
    show "tokens_disjoint ?N" using fit e unfolding held_fit_def within_policy_def by blast
    show "set (res_device_tokens ?r) \<inter> set (res_device_tokens r') = {}" if "r' \<in># ?N" for r'
      using sums(5)[OF e] that unfolding set_grants_of_resources new
      by (simp add: q Int_commute) blast
  qed
  then have "within_policy p o1 (add_mset ?r ?N)"
    using sums(1-4) q unfolding within_policy_def new
    by (auto simp: add.commute simp del: image_mset.compositionality split: option.splits)
  then show ?thesis using fit nn by (auto simp: held_fit_def grant_of_def)
qed

section \<open>Every operation of the allocator is a step of its store\<close>

definition alloc_client :: "policy \<Rightarrow> offer \<Rightarrow> lease \<Rightarrow> validator \<Rightarrow> bool" where
  "alloc_client p o1 l V \<longleftrightarrow> (strict p \<longrightarrow> (\<exists>q ow sc fr now. request_wf q \<and> l = allocated_lease o1 q ow sc fr now
     \<and> V = validate_aggregate_budget p o1 q))"

lemma alloc_client_admits:
  assumes "strict p" "alloc_client p o1 l V" "V act = Inr ()" "held_fit p o1 (grants_of act)"
    "lease_resources new = lease_resources l"
  shows "held_fit p o1 (add_mset (grant_of new) (grants_of act))"
  using assms validate_aggregate_admits unfolding alloc_client_def by blast

lemma alloc_step_is_lease_step:
  assumes "clock_in c t0 t1" "case e of Acquire q _ _ _ \<Rightarrow> request_wf q | _ \<Rightarrow> True"
  shows "alloc_step p o1 ttl ops c e s = s
    \<or> lease_step (alloc_client p o1) (op_acquire ops) (op_renew ops) (op_release ops) (op_recover ops)
        (t0, s) (t1, alloc_step p o1 ttl ops c e s)"
proof (cases e)
  case (Acquire q ow sc fr)
  have "alloc_client p o1 (allocated_lease o1 q ow sc fr (c 0))
      (if strict p then validate_aggregate_budget p o1 q else (\<lambda>_. Inr ()))"
    using assms(2) Acquire unfolding alloc_client_def by (auto intro!: exI)
  then show ?thesis using assms(1) Acquire
    by (cases "validate_request p o1 q"; cases "strict p")
      (auto simp: alloc_acquire_def intro: step_acquire[where c = c] prod.collapse[symmetric])
next
  case (Release l)
  then show ?thesis using assms(1)
    by (auto simp: alloc_release_def intro: step_release[where c = c] prod.collapse[symmetric])
next
  case (Renew l)
  then show ?thesis using assms(1)
    by (auto simp: alloc_renew_def intro: step_renew[where c = c] prod.collapse[symmetric])
next
  case Recover
  then show ?thesis using assms(1) by (auto intro: step_recover[where c = c] prod.collapse[symmetric])
qed

lemma alloc_run_is_lease_run:
  assumes "ordered_ops t es stop" "t' \<le> t"
    "lease_run (alloc_client p o1) (op_acquire ops) (op_renew ops) (op_release ops) (op_recover ops) x (t', s)"
  shows "\<exists>u. t' \<le> u \<and> u \<le> stop \<and> lease_run (alloc_client p o1) (op_acquire ops) (op_renew ops)
    (op_release ops) (op_recover ops) x (u, alloc_run p o1 ttl ops es s)"
  using assms
proof (induction es arbitrary: t t' s)
  case Nil
  then show ?case by (intro exI[of _ t']) auto
next
  case (Cons f es)
  obtain t0 c t1 e where f: "f = (t0, c, t1, e)" by (metis prod_cases4)
  let ?s = "alloc_step p o1 ttl ops c e s"
  have o: "t \<le> t0" "clock_in c t0 t1" "case e of Acquire q _ _ _ \<Rightarrow> request_wf q | _ \<Rightarrow> True"
    "ordered_ops t1 es stop" using Cons.prems(1) by (auto simp: f)
  have t01: "t0 \<le> t1" using clock_inD(3)[OF o(2)] clock_inD(4)[OF o(2)] by (meson order_trans)
  show ?case
  proof (cases "?s = s")
    case True
    have "t' \<le> t1" using Cons.prems(2) o(1) t01 by linarith
    from Cons.IH[OF o(4) this Cons.prems(3)] show ?thesis by (simp add: f True)
  next
    case False
    then have "lease_run (alloc_client p o1) (op_acquire ops) (op_renew ops) (op_release ops)
        (op_recover ops) x (t1, ?s)"
      using alloc_step_is_lease_step[OF o(2,3)] Cons.prems(2,3) o(1)
      by (meson run_step order_trans)
    from Cons.IH[OF o(4) order_refl this] obtain u where u: "t1 \<le> u" "u \<le> stop"
      "lease_run (alloc_client p o1) (op_acquire ops) (op_renew ops) (op_release ops)
        (op_recover ops) x (u, alloc_run p o1 ttl ops es ?s)" by blast
    have "t' \<le> u" using Cons.prems(2) o(1) t01 u(1) by linarith
    then show ?thesis using u(2,3) by (auto simp: f)
  qed
qed

end
