(* ===== verification/Lease_Properties.thy ===== *)
theory Lease_Properties
  imports Allocator
begin

text \<open>
  The properties of the lease stores and of the allocator on top of them: no over-commitment on
  any run, fences that stay dead, the outcome of an acquisition, isolation of namespaces.
\<close>

lemma fresh_init: "sql_inv ns (sql_initialize ns \<lparr>lease_rows = [], lease_counters = []\<rparr>)"
  "sql_grants ns (sql_initialize ns \<lparr>lease_rows = [], lease_counters = []\<rparr>) t = {#}"
  by (simp_all add: sql_initialize_def sql_inv_def sql_next_def sql_grants_def ns_leases_def)

lemma held_fit_empty: "limits_wf p o1 \<Longrightarrow> held_fit p o1 {#}"
  by (auto simp: limits_wf_def held_fit_def within_policy_def tokens_disjoint_def split: option.splits)

lemma clock_in_const_iff: "clock_in (\<lambda>_. x) t0 t1 \<longleftrightarrow> 0 < t0 \<and> t0 \<le> x \<and> x \<le> t1"
  by (auto simp: clock_in_def mono_def)

text \<open>The resources of the leases active at \<open>t\<close>, store by store.\<close>

definition sql_held :: "string \<Rightarrow> time \<Rightarrow> 'a lease_db_scheme \<Rightarrow> resources multiset" where
  "sql_held ns t db = mset (map lease_resources (filter (lease_active t) (ns_leases ns db)))"

definition red_held :: "time \<Rightarrow> redis_leases \<Rightarrow> resources multiset" where
  "red_held t s = mset (map lease_resources (filter (lease_active t) (map snd (rl_vals s))))"

definition mem_held :: "time \<Rightarrow> mem_store \<Rightarrow> resources multiset" where
  "mem_held t s = mset (map lease_resources (filter (lease_active t) (map snd (mem_leases s))))"

lemma held_of_grants:
  "image_mset (snd \<circ> snd) (sql_grants ns db t) = sql_held ns t db"
  "image_mset (snd \<circ> snd) (red_grants s t) = red_held t s"
  "image_mset (snd \<circ> snd) (mem_grants m t) = mem_held t m"
  by (simp_all add: sql_grants_def sql_held_def red_grants_def red_held_def mem_grants_def mem_held_def
      grants_of_def grant_of_def multiset.map_comp o_def)

section \<open>No over-commitment\<close>

text \<open>
  C1. Under a strict policy, whatever sequence of allocations, renewals, releases and recoveries
  the processes run on one SQLite namespace, the leases active at any later time together fit the
  policy: workers, threads, GPUs, memory, and disjoint device tokens when sharing is exclusive.
\<close>

theorem sql_never_overcommits:
  assumes "strict p" "sql_inv ns db" "held_fit p o1 (sql_grants ns db t0)"
    "ordered_ops t0 es stop" "stop \<le> t"
  shows "within_policy p o1 (sql_held ns t (alloc_run p o1 ttl (sql_ops ns) es db))"
proof -
  obtain u where "u \<le> stop" and run: "lease_run (alloc_client p o1) (sql_acquire ns) (sql_renew ns)
      (sql_release ns) (sql_recover_expired ns) (t0, db) (u, alloc_run p o1 ttl (sql_ops ns) es db)"
    using alloc_run_is_lease_run[OF assms(4) order_refl run_refl, of p o1 "sql_ops ns" db ttl]
    by (auto simp: sql_ops_def)
  have "held_fit p o1 (sql_grants ns (alloc_run p o1 ttl (sql_ops ns) es db) t)"
    using sql.admission[OF run assms(2), of "held_fit p o1" t]
      held_fit_sub alloc_client_admits[OF assms(1)] assms(3,5) \<open>u \<le> stop\<close> by force
  then show ?thesis by (simp add: held_fit_def held_of_grants)
qed

text \<open>
  The same promise for the Redis store, whose clock and client clocks are in the hypothesis
  the readings of one ordered clock.
\<close>

theorem red_never_overcommits:
  assumes "strict p" "red_inv s" "held_fit p o1 (red_grants s t0)" "ordered_ops t0 es stop" "stop \<le> t"
  shows "within_policy p o1 (red_held t (alloc_run p o1 ttl red_ops es s))"
proof -
  obtain u where "u \<le> stop" and run: "lease_run (alloc_client p o1) red_acquire red_renew
      red_release red_recover_expired (t0, s) (u, alloc_run p o1 ttl red_ops es s)"
    using alloc_run_is_lease_run[OF assms(4) order_refl run_refl, of p o1 red_ops s ttl]
    by (auto simp: red_ops_def)
  have "held_fit p o1 (red_grants (alloc_run p o1 ttl red_ops es s) t)"
    using red.admission[OF run assms(2), of "held_fit p o1" t]
      held_fit_sub alloc_client_admits[OF assms(1)] assms(3,5) \<open>u \<le> stop\<close> by force
  then show ?thesis by (simp add: held_fit_def held_of_grants)
qed

text \<open>The same promise for the in-memory store.\<close>

theorem mem_never_overcommits:
  assumes "strict p" "mem_inv s" "held_fit p o1 (mem_grants s t0)" "ordered_ops t0 es stop" "stop \<le> t"
  shows "within_policy p o1 (mem_held t (alloc_run p o1 ttl mem_ops es s))"
proof -
  obtain u where "u \<le> stop" and run: "lease_run (alloc_client p o1) mem_acquire mem_renew
      mem_release (\<lambda>c. mem_expire (c 0)) (t0, s) (u, alloc_run p o1 ttl mem_ops es s)"
    using alloc_run_is_lease_run[OF assms(4) order_refl run_refl, of p o1 mem_ops s ttl]
    by (auto simp: mem_ops_def)
  have "held_fit p o1 (mem_grants (alloc_run p o1 ttl mem_ops es s) t)"
    using mem.admission[OF run assms(2), of "held_fit p o1" t]
      held_fit_sub alloc_client_admits[OF assms(1)] assms(3,5) \<open>u \<le> stop\<close> by force
  then show ?thesis by (simp add: held_fit_def held_of_grants)
qed

section \<open>Fences\<close>



lemma red_is_current_grant:
  assumes "red_inv s" "clock_in c t t" "fst (red_is_current c i k s)"
  shows "\<exists>r. (i, k, r) \<in># red_grants s t"
proof -
  let ?s1 = "snd (red_expire (c 0) s)"
  have c: "c 0 = t" "c 1 = t" using clock_inD(1,2)[OF assms(2)] by (auto intro: antisym)
  have inv: "red_inv ?s1" by (rule red_expire_inv[OF assms(1) clock_inD(5)[OF assms(2)]])
  obtain l where l: "map_of (rl_vals ?s1) i = Some l" "lease_active t l" "fencing_token l = k"
    using assms(3) red_load_inv[OF inv] c by (auto simp: red_is_current_def Let_def split: option.splits)
  have "(i, k, lease_resources l) \<in># red_grants ?s1 t"
    using l red_lookup(1)[OF inv l(1)] map_of_SomeD[OF l(1)]
    by (auto simp: red_grants_def in_mem_grants grant_of_def intro!: rev_image_eqI)
  then show ?thesis using mset_subset_eqD[OF red_expire_grants[of s "c 0" t t]] assms(1) clock_inD(5)[OF assms(2)]
    by blast
qed

text \<open>
  The same for the Redis store; \<open>is_current\<close> there expires first and then reads the lease.
\<close>

theorem red_fence_stays_dead:
  assumes "red_inv s" "ordered_ops t0 es stop" "stop \<le> t" "k < red_next s"
    "\<forall>r. (i, k, r) \<notin># red_grants s t0" "clock_in c t t"
  shows "\<not> fst (red_is_current c i k (alloc_run p o1 ttl red_ops es s))"
proof -
  obtain u where "u \<le> stop" and run: "lease_run (alloc_client p o1) red_acquire red_renew
      red_release red_recover_expired (t0, s) (u, alloc_run p o1 ttl red_ops es s)"
    using alloc_run_is_lease_run[OF assms(2) order_refl run_refl, of p o1 red_ops s ttl]
    by (auto simp: red_ops_def)
  have "red_inv (alloc_run p o1 ttl red_ops es s)" using red.run_inv[OF run] assms(1) by simp
  then show ?thesis
    using red.fence_dead[OF run assms(1,4), of i t] assms(3,5) \<open>u \<le> stop\<close>
      red_is_current_grant[OF _ assms(6)] by fastforce
qed

section \<open>Acquisition\<close>

definition active_at :: "string \<Rightarrow> time \<Rightarrow> 'a lease_db_scheme \<Rightarrow> lease list" where
  "active_at ns now db = sort_key fencing_token (filter (lease_active now) (ns_leases ns db))"

lemma expired_filter:
  "filter (\<lambda>l. lease_status l = ''active'')
     (map (\<lambda>l. if lapsed now l then l\<lparr>lease_status := ''expired'', lease_updated_at := now\<rparr> else l) ls)
   = filter (lease_active now) ls"
  by (induction ls) (auto simp: lapsed_def lease_active_def)

lemma sql_select_active_eq:
  assumes "sql_inv ns db"
  shows "map (lease_post_init x) (sql_select_active ns (snd (sql_expire ns now db))) = active_at ns now db"
proof -
  let ?f = "\<lambda>l. if lapsed now l then l\<lparr>lease_status := ''expired'', lease_updated_at := now\<rparr> else l"
  have "sql_select_active ns (snd (sql_expire ns now db))
      = sort_key fencing_token (filter (\<lambda>l. lease_status l = ''active'') (map ?f (ns_leases ns db)))"
    by (simp add: sql_select_active_def rows_select flip: ns_leases_def)
      (simp add: sql_expire_as_update lapsed_def)
  also have "filter (\<lambda>l. lease_status l = ''active'') (map ?f (ns_leases ns db)) = filter (lease_active now) (ns_leases ns db)"
    by (rule expired_filter)
  finally have "sql_select_active ns (snd (sql_expire ns now db)) = active_at ns now db"
    by (simp add: active_at_def)
  moreover have "map (lease_post_init x) (active_at ns now db) = active_at ns now db"
    by (rule map_idI) (use assms in \<open>auto simp: active_at_def sql_inv_def\<close>)
  ultimately show ?thesis by simp
qed

lemma sql_acquire_parts:
  assumes "sql_inv ns db" "sql_acquire ns c l V ttl db = (res, db')"
  shows "case res of
      Inl e \<Rightarrow> db' = db \<and> (V (active_at ns (c 0) db) = Inl e
        \<or> e = IntegrityError \<and> lease_id l \<in> lease_id ` set (ns_leases ns db))
    | Inr new \<Rightarrow> V (active_at ns (c 0) db) = Inr () \<and> new = issue (c 0) ttl (sql_next ns db) l
        \<and> lease_id l \<notin> lease_id ` set (ns_leases ns db)
        \<and> ns_leases ns db' = map (\<lambda>l'. if lapsed (c 0) l'
              then l'\<lparr>lease_status := ''expired'', lease_updated_at := c 0\<rparr> else l') (ns_leases ns db) @ [new]"
proof -
  let ?db1 = "snd (sql_expire ns (c 0) db)"
  have "map row_key (lease_rows ?db1) = map row_key (lease_rows db)"
    unfolding sql_expire_as_update by (rule lease_update_keys) simp
  from arg_cong[OF this, of set] have keys: "row_key ` set (lease_rows ?db1) = row_key ` set (lease_rows db)"
    by simp
  have rows: "ns_leases ns ?db1 = map (\<lambda>l'. if lapsed (c 0) l'
      then l'\<lparr>lease_status := ''expired'', lease_updated_at := c 0\<rparr> else l') (ns_leases ns db)"
    by (simp add: sql_expire_as_update lapsed_def)
  have ids: "(ns, i) \<in> row_key ` set (lease_rows db) \<longleftrightarrow> i \<in> lease_id ` set (ns_leases ns db)" for i
    by (force simp: ns_leases_def)
  obtain token where tok: "map_of (lease_counters db) ns = Some token" "sql_next ns db = token"
    using assms(1) by (auto simp: sql_inv_def sql_next_def split: option.splits)
  note acq = assms(2)[unfolded sql_acquire_def Let_def sql_select_active_eq[OF assms(1)]
      lease_counters_expire tok(1) keys ids issue_simps]
  show ?thesis
  proof (cases res)
    case (Inl e)
    then show ?thesis using acq by (auto simp: ids split: sum.splits if_splits)
  next
    case (Inr new)
    have V: "V (active_at ns (c 0) db) = Inr ()" "new = issue (c 0) ttl token l"
      "lease_id l \<notin> lease_id ` set (ns_leases ns db)"
      "db' = ?db1\<lparr>lease_counters := AList.update ns (token + 1) (lease_counters db),
        lease_rows := lease_rows ?db1 @ [(ns, new)]\<rparr>"
      using acq Inr by (auto simp: ids split: sum.splits if_splits)
    have "ns_leases ns db' = ns_leases ns ?db1 @ [new]" unfolding V(4) by (simp add: ns_leases_def)
    then show ?thesis using Inr V(1-3) tok(2) unfolding rows by simp
  qed
qed

text \<open>
  The outcome of an acquisition on the SQLite store. A refusal leaves the database as it was
  and comes from the validator on the active leases or from a lease identifier in use. A grant
  validated the active leases, carries a fence above every fence of the namespace, is current
  exactly until its time to live ends, and keeps every other lease apart from marking lapsed ones.
\<close>

theorem sql_acquire_outcome:
  assumes "sql_inv ns db" "clock_in c t0 t1" "sql_acquire ns c l V ttl db = (res, db')"
  shows "case res of
      Inl e \<Rightarrow> db' = db \<and> (V (active_at ns (c 0) db) = Inl e
        \<or> e = IntegrityError \<and> lease_id l \<in> lease_id ` set (ns_leases ns db))
    | Inr new \<Rightarrow> V (active_at ns (c 0) db) = Inr ()
        \<and> (\<forall>l'\<in>set (ns_leases ns db). fencing_token l' < fencing_token new)
        \<and> (\<forall>t. sql_is_current ns t (lease_id l) (fencing_token new) db' \<longleftrightarrow> ttl \<le> 0 \<or> t < c 0 + ttl)
        \<and> lease_resources new = lease_resources l
        \<and> ns_leases ns db' = map (\<lambda>l'. if lapsed (c 0) l'
              then l'\<lparr>lease_status := ''expired'', lease_updated_at := c 0\<rparr> else l') (ns_leases ns db) @ [new]"
proof (cases res)
  case (Inl e)
  then show ?thesis using sql_acquire_parts[OF assms(1,3)] by simp
next
  case (Inr new)
  have V: "V (active_at ns (c 0) db) = Inr ()" "new = issue (c 0) ttl (sql_next ns db) l"
    "lease_id l \<notin> lease_id ` set (ns_leases ns db)"
    and rows: "ns_leases ns db' = map (\<lambda>l'. if lapsed (c 0) l'
      then l'\<lparr>lease_status := ''expired'', lease_updated_at := c 0\<rparr> else l') (ns_leases ns db) @ [new]"
    using sql_acquire_parts[OF assms(1,3)] Inr by auto
  have "fencing_token l' < fencing_token new" if "l' \<in> set (ns_leases ns db)" for l'
    using assms(1) that V(2) by (auto simp: sql_inv_def sql_next_def split: option.splits)
  moreover have "sql_is_current ns t (lease_id l) (fencing_token new) db' \<longleftrightarrow> ttl \<le> 0 \<or> t < c 0 + ttl" for t
  proof -
    have "lease_id l' \<noteq> lease_id l" if "l' \<in> set (ns_leases ns db)" for l'
      using V(3) that by (metis image_eqI)
    then have "sql_is_current ns t (lease_id l) (fencing_token new) db' \<longleftrightarrow> lease_active t new"
      unfolding sql_is_current_iff sql_grants_def rows
      by (auto simp: grants_of_def grant_of_def V(2); metis)
    then show ?thesis using clock_inD(5)[OF assms(2), of 0] unfolding V(2)
      by (auto simp: lease_active_def issue_def max_def)
  qed
  ultimately show ?thesis using Inr V(1,2) rows by simp
qed

lemma sql_ops_isolated:
  assumes "ns' \<noteq> ns"
  shows "ns_leases ns' (snd (sql_acquire ns c l V ttl db)) = ns_leases ns' db"
    "sql_next ns' (snd (sql_acquire ns c l V ttl db)) = sql_next ns' db"
    "ns_leases ns' (snd (sql_renew ns c i k ttl db)) = ns_leases ns' db"
    "sql_next ns' (snd (sql_renew ns c i k ttl db)) = sql_next ns' db"
    "ns_leases ns' (snd (sql_release ns c i ko db)) = ns_leases ns' db"
    "sql_next ns' (snd (sql_release ns c i ko db)) = sql_next ns' db"
    "ns_leases ns' (snd (sql_expire ns now db)) = ns_leases ns' db"
proof -
  show e: "ns_leases ns' (snd (sql_expire ns now db)) = ns_leases ns' db" for now
    unfolding sql_expire_as_update by (rule ns_leases_update_other[OF assms])
  show "ns_leases ns' (snd (sql_acquire ns c l V ttl db)) = ns_leases ns' db"
  proof (cases rule: sql_acquire_cases[OF prod.collapse[symmetric], of ns c l V ttl db])
    case 2
    then show ?thesis using e[of "c 0"] assms by (simp add: ns_leases_def)
  qed simp
  show "sql_next ns' (snd (sql_acquire ns c l V ttl db)) = sql_next ns' db"
  proof (cases rule: sql_acquire_cases[OF prod.collapse[symmetric], of ns c l V ttl db])
    case 2
    then show ?thesis using assms by (simp add: sql_next_def)
  qed simp
  show "ns_leases ns' (snd (sql_renew ns c i k ttl db)) = ns_leases ns' db"
    unfolding sql_renew_as_update ns_leases_update_other[OF assms] by (rule e)
  show "ns_leases ns' (snd (sql_release ns c i ko db)) = ns_leases ns' db"
    unfolding sql_release_as_update by (rule ns_leases_update_other[OF assms])
qed (simp_all add: sql_renew_as_update sql_release_as_update)

text \<open>
  Namespaces are isolated: no run of one namespace's allocator changes the leases or the fence
  counter of another namespace of the same SQLite database.
\<close>

theorem sql_namespace_isolated:
  assumes "ns' \<noteq> ns"
  shows "ns_leases ns' (alloc_run p o1 ttl (sql_ops ns) es db) = ns_leases ns' db
    \<and> sql_next ns' (alloc_run p o1 ttl (sql_ops ns) es db) = sql_next ns' db"
proof (induction es arbitrary: db)
  case (Cons f es)
  obtain t0 c t1 e where f: "f = (t0, c, t1, e)" by (metis prod_cases4)
  let ?s = "alloc_step p o1 ttl (sql_ops ns) c e db"
  have "ns_leases ns' ?s = ns_leases ns' db \<and> sql_next ns' ?s = sql_next ns' db"
    by (cases e) (auto simp: alloc_acquire_def alloc_release_def alloc_renew_def sql_ops_def
        sql_recover_expired_def sql_ops_isolated[OF assms] split: sum.splits)
  then show ?case using Cons.IH[of ?s] by (simp add: f)
qed simp

section \<open>Concrete runs\<close>

definition ex_policy :: policy where
  "ex_policy = \<lparr>max_workers = 1, max_threads = 4, max_memory_mb = None, max_gpus = None,
     policy_mode = ''strict'', gpu_sharing = ''exclusive'', cpu_oversubscribe = False\<rparr>"

definition ex_offer :: offer where
  "ex_offer = \<lparr>offer_threads = 4, offer_gpus = 0, offer_backend = ''local'', offer_device_tokens = [],
     offer_memory_mb = None, offer_gpu_memory_mb = None, offer_gpu_memory_by_device = [],
     offer_device_bindings = []\<rparr>"

definition ex_request :: request where
  "ex_request = \<lparr>workers = 1, threads = 2, gpus = 0, memory_mb = None, gpu_memory_mb = None,
     backend = ''local'', compute_backend = ''auto'', device = ''cpu'', device_tokens = [],
     capabilities = [], request_metadata = JNull\<rparr>"

definition ex_db :: lease_db where
  "ex_db = sql_initialize ''n'' \<lparr>lease_rows = [], lease_counters = []\<rparr>"

definition ex_ops :: "timed_op list" where
  "ex_ops = [(1, \<lambda>_. 1, 1, Acquire ex_request ''a'' ''s'' ''x''),
             (2, \<lambda>_. 2, 2, Acquire ex_request ''b'' ''s'' ''y'')]"

lemmas ex_defs = ex_policy_def ex_offer_def ex_request_def ex_db_def ex_ops_def

lemma ex_wf:
  "strict ex_policy" "limits_wf ex_policy ex_offer" "ordered_ops 1 ex_ops 2" "request_wf ex_request"
  by (simp_all add: ex_defs strict_def py_lower_def lower_char_def limits_wf_def gpu_limit_def request_wf_def
      accelerator_count_def clock_in_const_iff)

lemma ex_sql: "sql_inv ''n'' ex_db" "sql_grants ''n'' ex_db t = {#}"
  unfolding ex_db_def by (rule fresh_init)+

lemma sql_never_overcommits_witness:
  "length (ns_leases ''n'' (alloc_run ex_policy ex_offer 5 (sql_ops ''n'') ex_ops ex_db)) = 1
   \<and> within_policy ex_policy ex_offer
      (sql_held ''n'' 3 (alloc_run ex_policy ex_offer 5 (sql_ops ''n'') ex_ops ex_db))"
proof
  show "length (ns_leases ''n'' (alloc_run ex_policy ex_offer 5 (sql_ops ''n'') ex_ops ex_db)) = 1"
    by code_simp
  show "within_policy ex_policy ex_offer
      (sql_held ''n'' 3 (alloc_run ex_policy ex_offer 5 (sql_ops ''n'') ex_ops ex_db))"
    by (rule sql_never_overcommits[where ?t0.0 = 1 and stop = 2])
      (simp_all add: ex_wf ex_sql held_fit_empty)
qed

lemma red_never_overcommits_witness:
  "length (rl_vals (alloc_run ex_policy ex_offer 5 red_ops ex_ops red_init)) = 1
   \<and> within_policy ex_policy ex_offer (red_held 3 (alloc_run ex_policy ex_offer 5 red_ops ex_ops red_init))"
proof
  show "length (rl_vals (alloc_run ex_policy ex_offer 5 red_ops ex_ops red_init)) = 1"
    by code_simp
  have "red_grants red_init 1 = {#}" by (simp add: red_grants_def mem_grants_def red_init_def)
  then show "within_policy ex_policy ex_offer (red_held 3 (alloc_run ex_policy ex_offer 5 red_ops ex_ops red_init))"
    by (intro red_never_overcommits[where ?t0.0 = 1 and stop = 2])
      (simp_all add: ex_wf held_fit_empty red_inv_init)
qed

lemma mem_never_overcommits_witness:
  "length (mem_leases (alloc_run ex_policy ex_offer 5 mem_ops ex_ops mem_init)) = 1
   \<and> within_policy ex_policy ex_offer (mem_held 3 (alloc_run ex_policy ex_offer 5 mem_ops ex_ops mem_init))"
proof
  show "length (mem_leases (alloc_run ex_policy ex_offer 5 mem_ops ex_ops mem_init)) = 1"
    by code_simp
  have "mem_grants mem_init 1 = {#}" by (simp add: mem_grants_def mem_init_def)
  then show "within_policy ex_policy ex_offer (mem_held 3 (alloc_run ex_policy ex_offer 5 mem_ops ex_ops mem_init))"
    by (intro mem_never_overcommits[where ?t0.0 = 1 and stop = 2])
      (simp_all add: ex_wf held_fit_empty mem_inv_init)
qed

text \<open>The first lease of the run: issued at time 1 with fence 1, lapsed at time 6.\<close>

definition ex_lease_id :: string where
  "ex_lease_id = ''lease-a-s-x''"


lemma red_fence_stays_dead_witness:
  "\<not> fst (red_is_current (\<lambda>_. 9) ex_lease_id 1 (alloc_run ex_policy ex_offer 5 red_ops
      [(7, \<lambda>_. 7, 7, Recover)] (alloc_run ex_policy ex_offer 5 red_ops ex_ops red_init)))"
proof -
  let ?s = "alloc_run ex_policy ex_offer 5 red_ops ex_ops red_init"
  obtain u where "lease_run (alloc_client ex_policy ex_offer) red_acquire red_renew
      red_release red_recover_expired (1, red_init) (u, ?s)"
    using alloc_run_is_lease_run[OF ex_wf(3) order_refl run_refl, of ex_policy ex_offer red_ops red_init 5]
    by (auto simp: red_ops_def)
  from red.run_inv[OF this] have "red_inv ?s" by (simp add: red_inv_init)
  moreover have "red_next ?s = 2" by code_simp
  moreover have "filter (lease_active 6) (map snd (rl_vals ?s)) = []" by code_simp
  then have "\<forall>r. (ex_lease_id, 1, r) \<notin># red_grants ?s 6"
    by (simp add: red_grants_def mem_grants_def)
  ultimately show ?thesis
    by (intro red_fence_stays_dead[where ?t0.0 = 6 and stop = 8 and t = 9 and s = ?s and es = "[(7, \<lambda>_. 7, 7, Recover)]"]) (simp_all add: clock_in_const_iff)
qed

lemma sql_acquire_outcome_witness:
  "\<exists>res db'. sql_acquire ''n'' (\<lambda>_. 1) (allocated_lease ex_offer ex_request ''a'' ''s'' ''x'' 1)
      (validate_aggregate_budget ex_policy ex_offer ex_request) 5 ex_db = (res, db')
    \<and> (case res of Inl e \<Rightarrow> False | Inr new \<Rightarrow> \<forall>t. sql_is_current ''n'' t ex_lease_id (fencing_token new) db'
        \<longleftrightarrow> (5 :: time) \<le> 0 \<or> t < 1 + 5)"
proof -
  let ?l = "allocated_lease ex_offer ex_request ''a'' ''s'' ''x'' 1"
  let ?r = "sql_acquire ''n'' (\<lambda>_. 1) ?l (validate_aggregate_budget ex_policy ex_offer ex_request) 5 ex_db"
  have c: "clock_in (\<lambda>_. 1) 1 1" by (simp add: clock_in_const_iff)
  have "\<not> isl (fst ?r)" "lease_id ?l = ex_lease_id" by code_simp+
  then show ?thesis
    using sql_acquire_outcome[OF ex_sql(1) c prod.collapse[symmetric], of ?l
        "validate_aggregate_budget ex_policy ex_offer ex_request" 5]
    by (intro exI[of _ "fst ?r"] exI[of _ "snd ?r"]) (auto split: sum.splits)
qed

lemma sql_namespace_isolated_witness:
  "ns_leases ''m'' (alloc_run ex_policy ex_offer 5 (sql_ops ''n'') ex_ops ex_db) = ns_leases ''m'' ex_db
    \<and> sql_next ''m'' (alloc_run ex_policy ex_offer 5 (sql_ops ''n'') ex_ops ex_db) = sql_next ''m'' ex_db"
  by (rule sql_namespace_isolated) simp

section \<open>Skewed clocks\<close>

text \<open>
  With a client clock ahead of the Redis clock the Redis store over-commits: the second
  acquisition expires nothing by the Redis clock (2), yet its active list, read with the client's
  clock (20), leaves out the first lease, so both one-worker leases are granted under a policy of
  one worker and both are active at Redis time 3.
\<close>

theorem red_clock_skew_overcommits:
  "\<not> within_policy ex_policy ex_offer (red_held 3
     (alloc_step ex_policy ex_offer 5 red_ops (\<lambda>n. if n = 0 then 2 else 20) (Acquire ex_request ''b'' ''s'' ''y'')
       (alloc_step ex_policy ex_offer 5 red_ops (\<lambda>_. 1) (Acquire ex_request ''a'' ''s'' ''x'') red_init)))"
  by code_simp

end
