(* ===== verification/Budget_Properties.thy ===== *)
theory Budget_Properties
  imports Budget_SQLite Budget_Redis Lease_Properties
begin

text \<open>
  The properties of the shared budgets, over runs that interleave the lease operations of the
  namespace with the operations of the authority on the same store.
\<close>

section \<open>Runs of leases and budgets on one store\<close>

datatype l0_op = LeaseOp alloc_op | BudgetOp budget_op

type_synonym timed_l0_op = "time \<times> clock \<times> time \<times> l0_op"

fun sql_l0_step :: "policy \<Rightarrow> offer \<Rightarrow> time \<Rightarrow> string \<Rightarrow> string \<Rightarrow> clock \<Rightarrow> l0_op \<Rightarrow> budget_db \<Rightarrow> budget_db" where
  "sql_l0_step p o1 ttl ns sc c (LeaseOp e) db = alloc_step p o1 ttl (sql_ops ns) c e db"
| "sql_l0_step p o1 ttl ns sc c (BudgetOp e) db = apply_budget_op (sql_authority ns sc) (c 0) e db"

fun sql_l0_run :: "policy \<Rightarrow> offer \<Rightarrow> time \<Rightarrow> string \<Rightarrow> string \<Rightarrow> timed_l0_op list \<Rightarrow> budget_db \<Rightarrow> budget_db" where
  "sql_l0_run p o1 ttl ns sc [] db = db"
| "sql_l0_run p o1 ttl ns sc ((t0, c, t1, e) # es) db =
     sql_l0_run p o1 ttl ns sc es (sql_l0_step p o1 ttl ns sc c e db)"

fun redis_l0_step :: "policy \<Rightarrow> offer \<Rightarrow> time \<Rightarrow> string \<Rightarrow> clock \<Rightarrow> l0_op \<Rightarrow> redis_l0 \<Rightarrow> redis_l0" where
  "redis_l0_step p o1 ttl sc c (LeaseOp e) s = s\<lparr>rb_leases := alloc_step p o1 ttl red_ops c e (rb_leases s)\<rparr>"
| "redis_l0_step p o1 ttl sc c (BudgetOp e) s = apply_budget_op (redis_authority sc) (c 0) e s"

fun redis_l0_run :: "policy \<Rightarrow> offer \<Rightarrow> time \<Rightarrow> string \<Rightarrow> timed_l0_op list \<Rightarrow> redis_l0 \<Rightarrow> redis_l0" where
  "redis_l0_run p o1 ttl sc [] s = s"
| "redis_l0_run p o1 ttl sc ((t0, c, t1, e) # es) s =
     redis_l0_run p o1 ttl sc es (redis_l0_step p o1 ttl sc c e s)"

fun ordered_l0_ops :: "time \<Rightarrow> timed_l0_op list \<Rightarrow> time \<Rightarrow> bool" where
  "ordered_l0_ops t [] stop \<longleftrightarrow> t \<le> stop"
| "ordered_l0_ops t ((t0, c, t1, e) # es) stop \<longleftrightarrow> t \<le> t0 \<and> clock_in c t0 t1
     \<and> (case e of LeaseOp (Acquire q _ _ _) \<Rightarrow> request_wf q | _ \<Rightarrow> True) \<and> ordered_l0_ops t1 es stop"

text \<open>The lease operations leave the budget tables alone and the other way round.\<close>

lemma lease_ops_env: "lease_env db (alloc_step p o1 ttl (sql_ops ns) c e db)"
  by (cases e) (auto simp: lease_env_def alloc_acquire_def alloc_release_def alloc_renew_def sql_ops_def
      sql_acquire_def sql_renew_def sql_release_def sql_recover_expired_def sql_expire_def Let_def
      split: sum.splits option.splits)

lemma budget_ops_leases:
  "lease_rows (apply_budget_op (sql_authority ns sc) now e db) = lease_rows db
   \<and> lease_counters (apply_budget_op (sql_authority ns sc) now e db) = lease_counters db"
  by (cases e) (auto simp: sql_authority_def sqb_configure_def sqb_status_def sqb_reservation_def
      sqb_reserve_def sqb_complete_def sqb_consume_def sqb_cancel_def sqb_reclaim_stale_def
      sqb_set_reservation_def sqb_add_committed_def Let_def case_prod_unfold split: sum.splits option.splits)

lemma sql_l0_run_authority:
  "authority_run (sql_authority ns sc) lease_env x db
    \<Longrightarrow> authority_run (sql_authority ns sc) lease_env x (sql_l0_run p o1 ttl ns sc es db)"
proof (induction es arbitrary: db)
  case (Cons f es)
  obtain t0 c t1 e where f: "f = (t0, c, t1, e)" by (metis prod_cases4)
  have "authority_run (sql_authority ns sc) lease_env x (sql_l0_step p o1 ttl ns sc c e db)"
    using Cons.prems by (cases e) (auto intro: ar_op ar_env lease_ops_env)
  then show ?case using Cons.IH by (simp add: f)
qed simp

lemma redis_lease_ops_env: "redis_lease_env s (s\<lparr>rb_leases := x\<rparr>)"
  by (simp add: redis_lease_env_def)

lemma redis_l0_run_authority:
  "authority_run (redis_authority sc) redis_lease_env x s
    \<Longrightarrow> authority_run (redis_authority sc) redis_lease_env x (redis_l0_run p o1 ttl sc es s)"
proof (induction es arbitrary: s)
  case (Cons f es)
  obtain t0 c t1 e where f: "f = (t0, c, t1, e)" by (metis prod_cases4)
  have "authority_run (redis_authority sc) redis_lease_env x (redis_l0_step p o1 ttl sc c e s)"
    using Cons.prems by (cases e) (auto intro: ar_op ar_env redis_lease_ops_env)
  then show ?case using Cons.IH by (simp add: f)
qed simp

section \<open>The limit holds\<close>

text \<open>
  C3. On a SQLite database, whatever lease and budget operations run in whatever order and at
  whatever clock readings, a configured budget has committed exactly what its reservations
  consumed, and committed plus reserved units never exceed its limit.
\<close>

theorem sql_budget_within_limit:
  assumes "sqb_inv ns sc db" "db' = sql_l0_run p o1 ttl ns sc es db" "sqb_budget_row ns sc b db' = Some row"
  shows "br_committed row = completed_of b (sqb_items ns sc db') \<and> 0 \<le> br_committed row
    \<and> br_committed row + sqb_reserved ns sc b db' \<le> br_limit row"
  using sqb.run_within_limit[OF sql_l0_run_authority[OF ar_refl] assms(1), of p o1 ttl es b "br_limit row" "br_committed row"]
    assms(2,3) by (simp add: sqb_reserved_is_reserved_of)

text \<open>The same on the Redis keys of a namespace and scope.\<close>

theorem redis_budget_within_limit:
  assumes "rb_inv s" "s' = redis_l0_run p o1 ttl sc es s" "map_of (rb_budgets s') b = Some st"
  shows "rbs_committed st = completed_of b (map snd (rb_vals s')) \<and> 0 \<le> rbs_committed st
    \<and> rbs_committed st + rb_reserved b s' \<le> rbs_limit st"
proof -
  have run: "authority_run (redis_authority sc) redis_lease_env s s'"
    unfolding assms(2) by (rule redis_l0_run_authority[OF ar_refl])
  have "rb_inv s'" using rb.run_inv_le[OF run assms(1)] by blast
  then show ?thesis
    using rb.run_within_limit[OF run assms(1), of b "rbs_limit st" "rbs_committed st"] assms(3)
    by (simp add: rb_reserved_is_reserved_of)
qed

text \<open>
  Nothing is given back or forgotten: over any such run the limit of a configured budget
  stays, its committed units only grow, and a reservation keeps its terms, its consumed units only
  grow, and once closed (completed, cancelled or reclaimed) it never changes.
\<close>

theorem sql_budget_permanent:
  assumes "sqb_inv ns sc db" "db' = sql_l0_run p o1 ttl ns sc es db"
  shows "(\<forall>row. sqb_budget_row ns sc b db = Some row \<longrightarrow>
      (\<exists>row'. sqb_budget_row ns sc b db' = Some row' \<and> br_limit row' = br_limit row
        \<and> br_committed row \<le> br_committed row'))
    \<and> (\<forall>r. sqb_reservation_row ns sc i db = Some r \<longrightarrow>
      (\<exists>r'. sqb_reservation_row ns sc i db' = Some r' \<and> item_le r r'))"
proof -
  have le: "ledger_le (sqb_view ns sc db) (sqb_view ns sc db')"
    using sqb.run_inv_le[OF sql_l0_run_authority[OF ar_refl] assms(1)] assms(2) by blast
  then have "\<exists>row'. sqb_budget_row ns sc b db' = Some row' \<and> br_limit row' = br_limit row
      \<and> br_committed row \<le> br_committed row'" if "sqb_budget_row ns sc b db = Some row" for row
    using that unfolding ledger_le_def by fastforce
  then show ?thesis using le unfolding ledger_le_def sqb_row_is_find_item by simp
qed

section \<open>Fences and budgets\<close>

lemma ledger_le_item:
  "ledger_le g g' \<Longrightarrow> find_item i (lg_items g) = Some r \<Longrightarrow> \<exists>r'. find_item i (lg_items g') = Some r' \<and> item_le r r'"
  unfolding ledger_le_def by blast

lemma sqb_fence_is_current: "sqb_fence_current ns t db i k \<longleftrightarrow> sql_is_current ns t i k db"
  by (simp add: sqb_fence_current_def sql_is_current_def)

lemma budget_ops_sql:
  "sql_inv ns (apply_budget_op (sql_authority ns' sc) now e db) = sql_inv ns db"
  "sql_grants ns (apply_budget_op (sql_authority ns' sc) now e db) t = sql_grants ns db t"
  "sql_next ns (apply_budget_op (sql_authority ns' sc) now e db) = sql_next ns db"
  using budget_ops_leases[of ns' sc now e db] by (simp_all add: sql_inv_def sql_grants_def sql_next_def ns_leases_def)

lemma alloc_step_dead:
  fixes p :: policy and o1 :: offer and ttl :: time
  assumes "sql_inv ns db" "clock_in c t0 t1" "case e of Acquire q _ _ _ \<Rightarrow> request_wf q | _ \<Rightarrow> True"
    "k < sql_next ns db" "\<forall>r. (i, k, r) \<notin># sql_grants ns db t0"
  defines "db' \<equiv> alloc_step p o1 ttl (sql_ops ns) c e db"
  shows "sql_inv ns db' \<and> k < sql_next ns db' \<and> (\<forall>r. (i, k, r) \<notin># sql_grants ns db' t1)"
proof (cases "db' = db")
  case True
  then show ?thesis
    using assms(1,4,5) mset_subset_eqD[OF sql.grants_antitone[OF assms(1) clock_inD(4)[OF assms(2)]]] by auto
next
  case False
  then have step: "lease_step (alloc_client p o1) (sql_acquire ns) (sql_renew ns) (sql_release ns)
      (sql_recover_expired ns) (t0, db) (t1, db')"
    using alloc_step_is_lease_step[OF assms(2,3), of p o1 ttl "sql_ops ns" db] unfolding db'_def
    by (auto simp: sql_ops_def)
  then show ?thesis
    using sql.step_inv[OF step assms(1)] sql.step_grant[OF step assms(1) order_refl _ assms(4)] assms(4,5) by auto
qed

text \<open>The run under a dead fence, for a later state \<open>u\<close> of the reservation.\<close>

lemma dead_fence_run:
  assumes "sql_inv ns db" "sqb_inv ns sc db" "ordered_l0_ops t es stop"
    "\<forall>x. (rsv_lease_id r, rsv_token r, x) \<notin># sql_grants ns db t" "rsv_token r < sql_next ns db"
    "find_item i (sqb_items ns sc db) = Some u" "item_le r u" "rsv_completed u = rsv_completed r"
  shows "\<exists>r'. find_item i (sqb_items ns sc (sql_l0_run p o1 ttl ns sc es db)) = Some r' \<and> rsv_completed r' = rsv_completed r"
  using assms
proof (induction es arbitrary: t db u)
  case (Cons f es)
  obtain t0 c t1 e where f: "f = (t0, c, t1, e)" by (metis prod_cases4)
  have o: "t \<le> t0" "clock_in c t0 t1" "ordered_l0_ops t1 es stop" using Cons.prems(3) by (auto simp: f)
  have dead: "\<forall>x. (rsv_lease_id r, rsv_token r, x) \<notin># sql_grants ns db t'" if "t \<le> t'" for t'
    using Cons.prems(4) mset_subset_eqD[OF sql.grants_antitone[OF Cons.prems(1) that]] by blast
  show ?case
  proof (cases e)
    case (LeaseOp a)
    let ?db = "alloc_step p o1 ttl (sql_ops ns) c a db"
    have "sql_inv ns ?db \<and> rsv_token r < sql_next ns ?db
        \<and> (\<forall>x. (rsv_lease_id r, rsv_token r, x) \<notin># sql_grants ns ?db t1)"
      using Cons.prems(1,3,5) o dead[OF o(1)] by (intro alloc_step_dead[of ns db c t0]) (auto simp: f LeaseOp)
    moreover have "sqb_inv ns sc ?db" "sqb_view ns sc ?db = sqb_view ns sc db"
      using lease_env_frame[OF Cons.prems(2) lease_ops_env] by auto
    then have "sqb_inv ns sc ?db" "sqb_items ns sc ?db = sqb_items ns sc db" by (auto dest: arg_cong[of _ _ lg_items])
    ultimately show ?thesis using Cons.IH[of ?db t1 u] Cons.prems(6-8) o(3) by (simp add: f LeaseOp)
  next
    case (BudgetOp b)
    let ?db = "apply_budget_op (sql_authority ns sc) (c 0) b db"
    have nf: "\<not> sqb_fence_current ns (c 0) db (rsv_lease_id u) (rsv_token u)"
      using dead[of "c 0"] o(1) clock_inD(1)[OF o(2), of 0] Cons.prems(7)
      by (auto simp: sqb_fence_is_current sql_is_current_iff item_le_def)
    have "ledger_le (sqb_view ns sc db) (sqb_view ns sc ?db)"
      using sqb.moves_le[OF sqb.op_moves[OF Cons.prems(2)]] by blast
    then obtain v where v: "find_item i (sqb_items ns sc ?db) = Some v" "item_le u v"
      using ledger_le_item[of "sqb_view ns sc db" "sqb_view ns sc ?db" i u] Cons.prems(6) by auto
    have "rsv_completed v = rsv_completed u"
      using sqb.op_charge[OF Cons.prems(2), of i u "c 0" b v] Cons.prems(6) v(1) nf by auto
    then have same: "rsv_completed v = rsv_completed r" using Cons.prems(8) by simp
    have "t \<le> t1" using o(1) clock_inD(4)[OF o(2)] by linarith
    then have dead1: "\<forall>x. (rsv_lease_id r, rsv_token r, x) \<notin># sql_grants ns ?db t1"
      unfolding budget_ops_sql by (rule dead)
    have "sql_inv ns ?db" "sqb_inv ns sc ?db" "rsv_token r < sql_next ns ?db"
      using Cons.prems(1,5) sqb.op_inv[OF Cons.prems(2)] by (simp_all add: budget_ops_sql)
    from Cons.IH[OF this(1,2) o(3) dead1 this(3) v(1) item_le_trans[OF Cons.prems(7) v(2)] same]
    show ?thesis by (simp add: f BudgetOp)
  qed
qed simp

text \<open>
  C4. A worker whose lease fence is no longer current cannot spend: whatever leases and budget
  operations follow, in the order of time, on the same SQLite namespace, a reservation held under a
  dead fence is never charged another unit.
\<close>

theorem sql_zombie_cannot_spend:
  assumes "sql_inv ns db" "sqb_inv ns sc db" "ordered_l0_ops t es stop"
    "\<not> sql_is_current ns t (rsv_lease_id r) (rsv_token r) db" "rsv_token r < sql_next ns db"
    "sqb_reservation_row ns sc i db = Some r"
  shows "\<exists>r'. sqb_reservation_row ns sc i (sql_l0_run p o1 ttl ns sc es db) = Some r'
    \<and> rsv_completed r' = rsv_completed r"
  using dead_fence_run[OF assms(1-3), of r i r p o1 ttl] assms(4-6) by (simp add: sqb_row_is_find_item sql_is_current_iff)

section \<open>The two authorities agree\<close>



section \<open>Reservations\<close>

definition live_items :: "fence \<Rightarrow> reservation list \<Rightarrow> reservation list" where
  "live_items cur rs = filter (\<lambda>r. cur (rsv_lease_id r) (rsv_token r)) rs"

lemma reserved_reclaim:
  "reserved_of b (map (\<lambda>r. if stale cur r then mark ''reclaimed'' now r else r) rs) = reserved_of b (live_items cur rs)"
  by (induction rs) (auto simp: stale_def mark_def live_items_def)

text \<open>
  The outcome of a reservation under a new identifier on a configured budget: refused when the
  fence is not current, refused when it asks for more than the limit less what is committed and
  what reservations with a current fence still hold, and otherwise recorded with exactly the units
  asked for.
\<close>

theorem sql_reserve_outcome:
  assumes "py_strip b \<noteq> []" "0 < a" "sqb_budget_row ns sc (py_strip b) db = Some row"
    "sqb_reservation_row ns sc (reservation_key fresh i) db = None"
  shows "fst (sqb_reserve ns sc now b a l k fresh i db) =
    (if \<not> sqb_fence_current ns now db l k then Inl SharedBudgetFenceError
     else if a > max 0 (br_limit row - br_committed row - reserved_of (py_strip b)
          (live_items (sqb_fence_current ns now db) (sqb_items ns sc db))) then Inl SharedBudgetExceeded
     else Inr (new_reservation sc (reservation_key fresh i) (py_strip b) a l k now))"
proof -
  let ?g = "sqb_view ns sc db" and ?cur = "sqb_fence_current ns now db"
  have "fst (sqb_reserve ns sc now b a l k fresh i db) = fst (led_reserve sc ?cur now b a l k (reservation_key fresh i) ?g)"
    using arg_cong[OF sqb_reserve_ref[of ns sc now b a l k fresh i db], of fst]
    by (simp add: settle_with_def map_prod_def case_prod_unfold)
  also have "\<dots> = (if \<not> ?cur l k then Inl SharedBudgetFenceError
     else if a > max 0 (br_limit row - br_committed row - reserved_of (py_strip b)
          (live_items (sqb_fence_current ns now db) (sqb_items ns sc db))) then Inl SharedBudgetExceeded
     else Inr (new_reservation sc (reservation_key fresh i) (py_strip b) a l k now))"
    using assms(1-4)
    by (simp add: led_reserve_def budget_name_def reservation_amount_def Let_def led_reclaim_def find_reclaim
        sqb_row_is_find_item reserved_reclaim)
  finally show ?thesis .
qed

lemma led_reserve_found:
  assumes "led_reserve sc cur now b a l k i g = (Inr r, g1)"
  shows "find_item i (lg_items g1) = Some r \<and> same_request (py_strip b) a l k r \<and> py_strip b \<noteq> [] \<and> 0 < a"
  using assms
  by (auto simp: led_reserve_def budget_checks Let_def new_reservation_def same_request_def
      split: sum.splits if_splits option.splits)

text \<open>
  Reserving is idempotent: repeating a successful reservation with the same identifier and
  terms, while its fence is current, returns the same reservation and records no second one.
\<close>

theorem sql_reserve_idempotent:
  assumes "sqb_inv ns sc db" "sqb_reserve ns sc now b a l k fresh i db = (Inr r, db1)" "i \<noteq> []"
    "sqb_fence_current ns now' db1 l k"
  shows "\<exists>db2. sqb_reserve ns sc now' b a l k fresh' i db1 = (Inr r, db2)
    \<and> map reservation_id (sqb_items ns sc db2) = map reservation_id (sqb_items ns sc db1)"
proof -
  let ?g1 = "sqb_view ns sc db1" and ?cur = "sqb_fence_current ns now' db1"
  have key: "reservation_key x i = i" for x using assms(3) by (simp add: reservation_key_def)
  have ref: "(Inr r, ?g1) = led_reserve sc (sqb_fence_current ns now db) now b a l k i (sqb_view ns sc db)"
    using sqb_reserve_ref[of ns sc now b a l k fresh i db] unfolding assms(2) key
    by (cases "led_reserve sc (sqb_fence_current ns now db) now b a l k i (sqb_view ns sc db)")
      (auto simp: settle_with_def split: if_splits)
  have first: "find_item i (lg_items ?g1) = Some r" "same_request (py_strip b) a l k r" "py_strip b \<noteq> []" "0 < a"
    using led_reserve_found[OF ref[symmetric]] by auto
  have keep: "(if stale ?cur r then mark ''reclaimed'' now' r else r) = r"
    using first(2) assms(4) by (simp add: stale_def same_request_def)
  have led: "led_reserve sc ?cur now' b a l k i ?g1 = (Inr r, snd (led_reclaim ?cur now' ?g1))"
    using first(1) first(2-4) assms(4) keep
    by (simp add: led_reserve_def budget_name_def reservation_amount_def Let_def led_reclaim_def find_reclaim)
  have "map_prod id (sqb_view ns sc) (sqb_reserve ns sc now' b a l k fresh' i db1) = (Inr r, snd (led_reclaim ?cur now' ?g1))"
    unfolding sqb_reserve_ref key led by (simp add: settle_with_def)
  moreover have "map reservation_id (lg_items (snd (led_reclaim ?cur now' ?g1))) = map reservation_id (sqb_items ns sc db1)"
    by (simp add: led_reclaim_def mark_def o_def if_distrib cong: if_cong)
  ultimately show ?thesis
    by (cases "sqb_reserve ns sc now' b a l k fresh' i db1") (auto dest: arg_cong[of _ _ lg_items])
qed

section \<open>Concrete states and runs\<close>

definition ex_lease :: lease where
  "ex_lease = \<lparr>lease_id = ''l'', owner_id = ''o'', lease_scope = ''s'',
     lease_resources = request_as_dict ex_request, lease_status = ''active'', lease_created_at = 1,
     lease_updated_at = 1, expires_at = 6, fencing_token = 1, lease_metadata = JNull\<rparr>"

definition ex_reservation :: reservation where
  "ex_reservation = new_reservation ''s'' ''r'' ''evals'' 4 ''l'' 1 2"

definition ex_bdb :: budget_db where
  "ex_bdb = \<lparr>lease_rows = [(''n'', ex_lease)], lease_counters = [(''n'', 2)],
     budget_rows = [\<lparr>br_namespace = ''n'', br_scope = ''s'', br_budget = ''evals'', br_limit = 10,
        br_committed = 0, br_created_at = 1, br_updated_at = 1\<rparr>],
     reservation_rows = [(''n'', ex_reservation)]\<rparr>"

definition ex_rb :: redis_l0 where
  "ex_rb = \<lparr>rb_leases = \<lparr>rl_ids = [''l''], rl_vals = [(''l'', ex_lease)], rl_counter = Some 2\<rparr>,
     rb_budgets = [(''evals'', \<lparr>rbs_limit = 10, rbs_committed = 0, rbs_created_at = 1, rbs_updated_at = 1\<rparr>)],
     rb_ids = [''r''], rb_vals = [(''r'', ex_reservation)]\<rparr>"

definition ex_spend :: "timed_l0_op list" where
  "ex_spend = [(3, \<lambda>_. 3, 3, BudgetOp (BConsume ''r'' 3)), (4, \<lambda>_. 4, 4, LeaseOp Recover)]"

definition ex_zombie :: "timed_l0_op list" where
  "ex_zombie = [(7, \<lambda>_. 7, 7, LeaseOp Recover), (8, \<lambda>_. 8, 8, BudgetOp (BConsume ''r'' 1))]"

lemmas ex_budget_defs = ex_bdb_def ex_rb_def ex_reservation_def new_reservation_def ex_lease_def

lemma ex_budget_inv: "sqb_inv ''n'' ''s'' ex_bdb" "rb_inv ex_rb" "sql_inv ''n'' ex_bdb"
  by (auto simp: sqb_inv_def rb_inv_def ledger_inv_def item_wf_def sqb_budget_row_def sqb_items_def sql_inv_def
      sql_next_def ns_leases_def lease_wf_def ex_budget_defs split: if_splits)


lemma sql_budget_within_limit_witness:
  "\<exists>row. sqb_budget_row ''n'' ''s'' ''evals'' (sql_l0_run ex_policy ex_offer 5 ''n'' ''s'' ex_spend ex_bdb) = Some row
    \<and> br_committed row = 3
    \<and> br_committed row + sqb_reserved ''n'' ''s'' ''evals'' (sql_l0_run ex_policy ex_offer 5 ''n'' ''s'' ex_spend ex_bdb)
        \<le> br_limit row"
proof -
  have "map_option br_committed (sqb_budget_row ''n'' ''s'' ''evals''
      (sql_l0_run ex_policy ex_offer 5 ''n'' ''s'' ex_spend ex_bdb)) = Some 3" by code_simp
  then obtain row where "sqb_budget_row ''n'' ''s'' ''evals''
      (sql_l0_run ex_policy ex_offer 5 ''n'' ''s'' ex_spend ex_bdb) = Some row" "br_committed row = 3" by blast
  with sql_budget_within_limit[OF ex_budget_inv(1) refl this(1)] show ?thesis by blast
qed

lemma redis_budget_within_limit_witness:
  "\<exists>st. map_of (rb_budgets (redis_l0_run ex_policy ex_offer 5 ''s'' ex_spend ex_rb)) ''evals'' = Some st
    \<and> rbs_committed st = 3
    \<and> rbs_committed st + rb_reserved ''evals'' (redis_l0_run ex_policy ex_offer 5 ''s'' ex_spend ex_rb) \<le> rbs_limit st"
proof -
  have "map_option rbs_committed (map_of (rb_budgets (redis_l0_run ex_policy ex_offer 5 ''s'' ex_spend ex_rb)) ''evals'')
      = Some 3" by code_simp
  then obtain st where "map_of (rb_budgets (redis_l0_run ex_policy ex_offer 5 ''s'' ex_spend ex_rb)) ''evals'' = Some st"
    "rbs_committed st = 3" by blast
  with redis_budget_within_limit[OF ex_budget_inv(2) refl this(1)] show ?thesis by blast
qed

lemma sql_budget_permanent_witness:
  "\<exists>r'. sqb_reservation_row ''n'' ''s'' ''r'' (sql_l0_run ex_policy ex_offer 5 ''n'' ''s'' ex_spend ex_bdb) = Some r'
    \<and> item_le ex_reservation r'"
proof -
  have "sqb_reservation_row ''n'' ''s'' ''r'' ex_bdb = Some ex_reservation"
    by (simp add: sqb_reservation_row_def ex_budget_defs)
  then show ?thesis using sql_budget_permanent[OF ex_budget_inv(1) refl, where i = "''r''"] by blast
qed

lemma sql_zombie_cannot_spend_witness:
  "\<exists>r'. sqb_reservation_row ''n'' ''s'' ''r'' (sql_l0_run ex_policy ex_offer 5 ''n'' ''s'' ex_zombie ex_bdb) = Some r'
    \<and> rsv_completed r' = rsv_completed ex_reservation"
proof (rule sql_zombie_cannot_spend[where t = 6 and stop = 8])
  show "sql_inv ''n'' ex_bdb" "sqb_inv ''n'' ''s'' ex_bdb" by (rule ex_budget_inv)+
  show "ordered_l0_ops 6 ex_zombie 8" by (simp add: ex_zombie_def)
  show "\<not> sql_is_current ''n'' 6 (rsv_lease_id ex_reservation) (rsv_token ex_reservation) ex_bdb" by code_simp
  show "rsv_token ex_reservation < sql_next ''n'' ex_bdb" by code_simp
  show "sqb_reservation_row ''n'' ''s'' ''r'' ex_bdb = Some ex_reservation"
    by (simp add: sqb_reservation_row_def ex_budget_defs)
qed


lemma sql_reserve_outcome_witness:
  "fst (sqb_reserve ''n'' ''s'' 3 ''evals'' 7 ''l'' 1 ''f'' ''q'' ex_bdb) = Inl SharedBudgetExceeded"
proof -
  obtain row where row: "sqb_budget_row ''n'' ''s'' (py_strip ''evals'') ex_bdb = Some row"
    "br_limit row = 10" "br_committed row = 0" by (auto simp: sqb_budget_row_def ex_budget_defs py_strip_def is_space_def)
  have "py_strip ''evals'' \<noteq> []" "sqb_reservation_row ''n'' ''s'' (reservation_key ''f'' ''q'') ex_bdb = None"
    "sqb_fence_current ''n'' 3 ex_bdb ''l'' 1" by code_simp+
  moreover have "reserved_of (py_strip ''evals'') (live_items (sqb_fence_current ''n'' 3 ex_bdb) (sqb_items ''n'' ''s'' ex_bdb)) = 4"
    by code_simp
  ultimately show ?thesis
    using sql_reserve_outcome[of "''evals''" 7 "''n''" "''s''" ex_bdb row "''f''" "''q''" 3 "''l''" 1] row by simp
qed

lemma sql_reserve_idempotent_witness:
  "\<exists>db2. sqb_reserve ''n'' ''s'' 4 ''evals'' 4 ''l'' 1 ''g'' ''r'' (snd (sqb_reserve ''n'' ''s'' 3 ''evals'' 4 ''l'' 1 ''f'' ''r'' ex_bdb))
     = (Inr ex_reservation, db2)"
proof -
  have 1: "sqb_reserve ''n'' ''s'' 3 ''evals'' 4 ''l'' 1 ''f'' ''r'' ex_bdb
      = (Inr ex_reservation, snd (sqb_reserve ''n'' ''s'' 3 ''evals'' 4 ''l'' 1 ''f'' ''r'' ex_bdb))"
    by (rule prod_eqI; code_simp)
  have 2: "sqb_fence_current ''n'' 4 (snd (sqb_reserve ''n'' ''s'' 3 ''evals'' 4 ''l'' 1 ''f'' ''r'' ex_bdb)) ''l'' 1"
    by code_simp
  from sql_reserve_idempotent[OF ex_budget_inv(1) 1 _ 2, of "''g''"] show ?thesis by auto
qed

end
