(* ===== verification/Dag.thy ===== *)
theory Dag
  imports Prelude
begin

text \<open>
  \<open>project/dag.py\<close>: from the declaration of a Stage to its validated plan. The names are
  strings; a field of the declaration is either of the shape the code asks for (a sequence, a
  mapping) or of another one, so that the type checks of the code are branches of the model.
  Dictionaries are association lists in insertion order.
\<close>

section \<open>Declarations\<close>

datatype 'a field = Shaped 'a | Misshaped

record stage_decl =
  decl_name :: string
  decl_cases :: "string list field"
  decl_depends_on :: "(string \<times> string list field) list field"
  decl_inputs :: "(string \<times> (string \<times> string) list field) list field"

record dag_plan =
  plan_stage :: string
  plan_cases :: "string list"
  plan_deps :: "(string \<times> string list) list"
  plan_explicit :: "(string \<times> string list) list"
  plan_inferred :: "(string \<times> string list) list"
  plan_order :: "string list"

text \<open>\<open>dict.fromkeys\<close>: the first occurrences, in order.\<close>

fun dedup :: "'a list \<Rightarrow> 'a list" where
  "dedup [] = []"
| "dedup (x # xs) = x # filter (\<lambda>y. y \<noteq> x) (dedup xs)"

text \<open>A loop over the cases that builds a dictionary and stops at the first exception.\<close>

fun collect :: "('k \<Rightarrow> 'v result) \<Rightarrow> 'k list \<Rightarrow> ('k \<times> 'v) list result" where
  "collect f [] = Inr []"
| "collect f (k # ks) = (case f k of Inl e \<Rightarrow> Inl e
     | Inr v \<Rightarrow> (case collect f ks of Inl e \<Rightarrow> Inl e | Inr d \<Rightarrow> Inr ((k, v) # d)))"

definition normalize_named_mapping :: "(string \<times> 'a) list \<Rightarrow> (string \<times> 'a) list result" where
  "normalize_named_mapping values =
     (if distinct (map fst values) then Inr values else Inl ProjectConfigurationError)"

text \<open>\<open>registry_key.split(".")\<close> without its empty parts.\<close>

fun split_dots :: "string \<Rightarrow> string list" where
  "split_dots [] = [[]]"
| "split_dots (ch # s) = (if ch = CHR ''.'' then [] # split_dots s
     else case split_dots s of [] \<Rightarrow> [[ch]] | p # ps \<Rightarrow> (ch # p) # ps)"

definition producer_case_for_registry_key :: "string \<Rightarrow> string \<Rightarrow> string list \<Rightarrow> string option" where
  "producer_case_for_registry_key key stage cases =
     (let parts = filter (\<lambda>p. p \<noteq> []) (split_dots key)
      in if length parts \<ge> 3 \<and> parts ! 0 = stage \<and> parts ! 1 \<in> set cases then Some (parts ! 1)
         else if length parts \<ge> 2 \<and> parts ! 0 \<in> set cases then Some (parts ! 0)
         else None)"

definition explicit_dependencies :: "string list \<Rightarrow> (string \<times> string list field) list \<Rightarrow> string \<Rightarrow> string list result" where
  "explicit_dependencies cases declared case_name =
     (case (case map_of declared case_name of None \<Rightarrow> Shaped [] | Some v \<Rightarrow> v) of
        Misshaped \<Rightarrow> Inl ProjectConfigurationError
      | Shaped raw \<Rightarrow>
          let normalized = dedup raw in
          if \<not> set normalized \<subseteq> set cases then Inl ProjectConfigurationError
          else if case_name \<in> set normalized then Inl ProjectConfigurationError
          else Inr normalized)"

fun infer_producers :: "string \<Rightarrow> string list \<Rightarrow> string \<Rightarrow> string list \<Rightarrow> string list \<Rightarrow> string list result" where
  "infer_producers stage cases case_name [] producers = Inr producers"
| "infer_producers stage cases case_name (key # keys) producers =
     (case producer_case_for_registry_key key stage cases of
        None \<Rightarrow> infer_producers stage cases case_name keys producers
      | Some producer \<Rightarrow>
          if producer = case_name then Inl ProjectConfigurationError
          else infer_producers stage cases case_name keys
            (if producer \<in> set producers then producers else producers @ [producer]))"

definition inferred_dependencies ::
  "string \<Rightarrow> string list \<Rightarrow> (string \<times> (string \<times> string) list field) list \<Rightarrow> string \<Rightarrow> string list result" where
  "inferred_dependencies stage cases declared case_name =
     (case (case map_of declared case_name of None \<Rightarrow> Shaped [] | Some v \<Rightarrow> v) of
        Misshaped \<Rightarrow> Inl ProjectConfigurationError
      | Shaped inputs \<Rightarrow> infer_producers stage cases case_name (map snd inputs) [])"

section \<open>The stable topological order\<close>

definition ready_cases :: "string list \<Rightarrow> (string \<times> string list) list \<Rightarrow> string list" where
  "ready_cases cases remaining = filter (\<lambda>n. map_of remaining n = Some []) cases"

definition drop_ready :: "string list \<Rightarrow> (string \<times> string list) list \<Rightarrow> (string \<times> string list) list" where
  "drop_ready ready remaining = map (\<lambda>(n, ds). (n, filter (\<lambda>d. d \<notin> set ready) ds))
     (filter (\<lambda>(n, ds). n \<notin> set ready) remaining)"

lemma drop_ready_less:
  assumes "ready_cases cases remaining \<noteq> []"
  shows "length (drop_ready (ready_cases cases remaining) remaining) < length remaining"
proof -
  obtain n where n: "n \<in> set (ready_cases cases remaining)" using assms by (cases "ready_cases cases remaining") auto
  then have "(n, []) \<in> set remaining" by (auto simp: ready_cases_def dest: map_of_SomeD)
  then show ?thesis using n by (auto simp: drop_ready_def intro!: length_filter_less)
qed

function topo_loop :: "string list \<Rightarrow> (string \<times> string list) list \<Rightarrow> string list \<Rightarrow> string list result" where
  "topo_loop cases remaining order =
     (if remaining = [] then Inr order
      else let ready = ready_cases cases remaining in
        if ready = [] then Inl ProjectConfigurationError
        else topo_loop cases (drop_ready ready remaining) (order @ ready))"
  by pat_completeness auto
termination
  by (relation "measure (\<lambda>(cases, remaining, order). length remaining)") (use drop_ready_less in auto)

declare topo_loop.simps [simp del]

definition stable_topological_order :: "string list \<Rightarrow> (string \<times> string list) list \<Rightarrow> string list result" where
  "stable_topological_order cases dependencies =
     topo_loop cases (map (\<lambda>n. (n, case map_of dependencies n of None \<Rightarrow> [] | Some ds \<Rightarrow> ds)) cases) []"

section \<open>The plan of a stage\<close>

definition from_stage :: "stage_decl \<Rightarrow> dag_plan result" where
  "from_stage st =
     (let stage = or_default (decl_name st) ''stage'' in
      case decl_cases st of Misshaped \<Rightarrow> Inl ProjectConfigurationError | Shaped cases \<Rightarrow>
      if cases = [] then Inl ProjectConfigurationError
      else if \<not> distinct cases then Inl ProjectConfigurationError
      else case decl_depends_on st of Misshaped \<Rightarrow> Inl ProjectConfigurationError | Shaped raw_explicit \<Rightarrow>
      case normalize_named_mapping raw_explicit of Inl e \<Rightarrow> Inl e | Inr explicit_by_name \<Rightarrow>
      if \<not> fst ` set explicit_by_name \<subseteq> set cases then Inl ProjectConfigurationError
      else case collect (explicit_dependencies cases explicit_by_name) cases of Inl e \<Rightarrow> Inl e | Inr explicit \<Rightarrow>
      case decl_inputs st of Misshaped \<Rightarrow> Inl ProjectConfigurationError | Shaped raw_inputs \<Rightarrow>
      case normalize_named_mapping raw_inputs of Inl e \<Rightarrow> Inl e | Inr inputs_by_name \<Rightarrow>
      if \<not> fst ` set inputs_by_name \<subseteq> set cases then Inl ProjectConfigurationError
      else case collect (inferred_dependencies stage cases inputs_by_name) cases of Inl e \<Rightarrow> Inl e | Inr inferred \<Rightarrow>
      let dependencies = map (\<lambda>n. (n, dedup (the (map_of explicit n) @ the (map_of inferred n)))) cases in
      case stable_topological_order cases dependencies of Inl e \<Rightarrow> Inl e | Inr order \<Rightarrow>
      Inr \<lparr>plan_stage = stage, plan_cases = cases, plan_deps = dependencies, plan_explicit = explicit,
        plan_inferred = inferred, plan_order = order\<rparr>)"

definition dependencies_for :: "dag_plan \<Rightarrow> string \<Rightarrow> string list result" where
  "dependencies_for plan name = (case map_of (plan_deps plan) name of None \<Rightarrow> Inl KeyError | Some ds \<Rightarrow> Inr ds)"

fun position :: "'a \<Rightarrow> 'a list \<Rightarrow> nat" where
  "position x [] = 0"
| "position x (y # ys) = (if x = y then 0 else Suc (position x ys))"

record dag_metadata =
  dm_stage :: string
  dm_case :: string
  dm_dependencies :: "string list"
  dm_explicit :: "string list"
  dm_inferred :: "string list"
  dm_index :: nat

definition request_metadata_for :: "dag_plan \<Rightarrow> string \<Rightarrow> dag_metadata result" where
  "request_metadata_for plan name =
     (case dependencies_for plan name of Inl e \<Rightarrow> Inl e | Inr ds \<Rightarrow>
      case map_of (plan_explicit plan) name of None \<Rightarrow> Inl KeyError | Some ex \<Rightarrow>
      case map_of (plan_inferred plan) name of None \<Rightarrow> Inl KeyError | Some inferred \<Rightarrow>
      if name \<notin> set (plan_order plan) then Inl ValueError
      else Inr \<lparr>dm_stage = plan_stage plan, dm_case = name, dm_dependencies = ds, dm_explicit = ex,
        dm_inferred = inferred, dm_index = position name (plan_order plan)\<rparr>)"

section \<open>Correctness of the order\<close>

text \<open>A list is a topological order when every dependency of an element stands before it.\<close>

definition deps_precede :: "(string \<Rightarrow> string list) \<Rightarrow> string list \<Rightarrow> bool" where
  "deps_precede deps xs \<longleftrightarrow> (\<forall>ys x zs. xs = ys @ x # zs \<longrightarrow> set (deps x) \<subseteq> set ys)"

lemma deps_precede_Nil [simp]: "deps_precede deps []"
  by (simp add: deps_precede_def)

lemma deps_precede_append:
  assumes "deps_precede deps xs" "\<And>x. x \<in> set ys \<Longrightarrow> set (deps x) \<subseteq> set xs"
  shows "deps_precede deps (xs @ ys)"
  unfolding deps_precede_def
proof (intro allI impI)
  fix us x vs assume eq: "xs @ ys = us @ x # vs"
  show "set (deps x) \<subseteq> set us"
  proof (cases "length us < length xs")
    case True
    then have "xs = us @ x # take (length xs - Suc (length us)) vs"
      using arg_cong[OF eq, of "take (length xs)"] by (simp add: take_Cons')
    then show ?thesis using assms(1) unfolding deps_precede_def by blast
  next
    case False
    then have us: "us = xs @ drop (length xs) us"
      using arg_cong[OF eq, of "take (length xs)"] by (metis append_eq_conv_conj append_take_drop_id not_less take_append take_all_iff diff_is_0_eq take0 append_Nil2)
    have "ys = drop (length xs) us @ x # vs" using eq us by (metis append.assoc append_same_eq same_append_eq)
    then have "x \<in> set ys" by (metis in_set_conv_decomp)
    then show ?thesis using assms(2)[of x] us by (metis (no_types, lifting) Un_iff set_append subset_iff)
  qed
qed

text \<open>
  The loop's invariant: the order and the remaining cases share the cases out, what remains of a
  case's dependencies are those not yet in the order, and the order is topological.
\<close>

definition topo_inv :: "string list \<Rightarrow> (string \<Rightarrow> string list) \<Rightarrow> (string \<times> string list) list \<Rightarrow> string list \<Rightarrow> bool" where
  "topo_inv cases deps remaining order \<longleftrightarrow> distinct (map fst remaining) \<and> distinct order
     \<and> set order \<inter> fst ` set remaining = {} \<and> set order \<union> fst ` set remaining = set cases
     \<and> (\<forall>(n, ds)\<in>set remaining. set ds = set (deps n) - set order) \<and> deps_precede deps order"

lemma topo_inv_step:
  assumes inv: "topo_inv cases deps remaining order" and "distinct cases"
  defines "ready \<equiv> ready_cases cases remaining"
  shows "topo_inv cases deps (drop_ready ready remaining) (order @ ready)"
proof -
  have r: "n \<in> set ready \<longleftrightarrow> (n, []) \<in> set remaining" for n
    using inv by (auto simp: ready_def ready_cases_def topo_inv_def)
      (metis Un_iff fst_conv image_eqI)
  have sub: "set ready \<subseteq> fst ` set remaining" using r by force
  have "distinct ready" using \<open>distinct cases\<close> by (simp add: ready_def ready_cases_def)
  moreover have keys: "fst ` set (drop_ready ready remaining) = fst ` set remaining - set ready"
    by (force simp: drop_ready_def)
  moreover have "distinct (map fst (drop_ready ready remaining))"
  proof -
    have "map fst (drop_ready ready remaining) = filter (\<lambda>n. n \<notin> set ready) (map fst remaining)"
      unfolding drop_ready_def by (induction remaining) auto
    then show ?thesis using inv by (simp add: topo_inv_def)
  qed
  moreover have "deps_precede deps (order @ ready)"
  proof (rule deps_precede_append)
    show "deps_precede deps order" using inv by (simp add: topo_inv_def)
    fix x assume "x \<in> set ready"
    then have "(x, []) \<in> set remaining" using r by simp
    then have "set [] = set (deps x) - set order" using inv unfolding topo_inv_def by blast
    then show "set (deps x) \<subseteq> set order" by auto
  qed
  moreover have "\<forall>(n, ds)\<in>set (drop_ready ready remaining). set ds = set (deps n) - set (order @ ready)"
    using inv by (auto simp: drop_ready_def topo_inv_def)
  ultimately show ?thesis using inv sub unfolding topo_inv_def keys by auto
qed

lemma topo_loop_sound:
  "topo_loop cases remaining order = Inr xs \<Longrightarrow> topo_inv cases deps remaining order \<Longrightarrow> distinct cases
    \<Longrightarrow> distinct xs \<and> set xs = set cases \<and> deps_precede deps xs"
proof (induction cases remaining order rule: topo_loop.induct)
  case (1 cases remaining order)
  show ?case
  proof (cases "remaining = []")
    case True
    then show ?thesis using 1(2,3) by (auto simp: topo_loop.simps topo_inv_def)
  next
    case False
    let ?ready = "ready_cases cases remaining"
    have ne: "?ready \<noteq> []" "topo_loop cases (drop_ready ?ready remaining) (order @ ?ready) = Inr xs"
      using 1(2) False by (auto simp: topo_loop.simps[of cases remaining order] Let_def split: if_splits)
    show ?thesis using 1(1)[OF False refl ne(1) ne(2)] topo_inv_step[OF 1(3,4)] 1(4) by blast
  qed
qed

text \<open>When the loop stops with an error, the remaining cases all wait for one another.\<close>

lemma topo_loop_stuck:
  "topo_loop cases remaining order = Inl e \<Longrightarrow> topo_inv cases deps remaining order \<Longrightarrow> distinct cases
    \<Longrightarrow> (\<forall>n\<in>set cases. set (deps n) \<subseteq> set cases)
    \<Longrightarrow> \<exists>S. S \<noteq> {} \<and> S \<subseteq> set cases \<and> (\<forall>n\<in>S. \<exists>d\<in>S. d \<in> set (deps n))"
proof (induction cases remaining order rule: topo_loop.induct)
  case (1 cases remaining order)
  have ne: "remaining \<noteq> []" using 1(2) by (auto simp: topo_loop.simps)
  let ?ready = "ready_cases cases remaining"
  show ?case
  proof (cases "?ready = []")
    case True
    let ?S = "fst ` set remaining"
    have "\<exists>d\<in>?S. d \<in> set (deps n)" if "n \<in> ?S" for n
    proof -
      from that obtain ds where ds: "(n, ds) \<in> set remaining" by auto
      have "n \<in> set cases" using 1(3) that unfolding topo_inv_def by blast
      moreover have "map_of remaining n = Some ds" using 1(3) ds by (auto simp: topo_inv_def)
      ultimately have "ds \<noteq> []" using True by (auto simp: ready_cases_def filter_empty_conv)
      then obtain d where "d \<in> set ds" by (cases ds) auto
      then have "d \<in> set (deps n)" "d \<notin> set order" using 1(3) ds by (auto simp: topo_inv_def)
      moreover have "d \<in> set cases" using 1(5) \<open>n \<in> set cases\<close> calculation(1) by blast
      ultimately show ?thesis using 1(3) unfolding topo_inv_def by blast
    qed
    moreover have "?S \<subseteq> set cases" using 1(3) unfolding topo_inv_def by blast
    ultimately show ?thesis using ne by (intro exI[of _ ?S]) auto
  next
    case False
    have "topo_loop cases (drop_ready ?ready remaining) (order @ ?ready) = Inl e"
      using 1(2) ne False by (simp add: topo_loop.simps[of cases remaining order] Let_def)
    then show ?thesis using 1(1)[OF ne refl False] topo_inv_step[OF 1(3,4)] 1(4,5) by blast
  qed
qed

lemma topo_inv_start:
  assumes "distinct cases"
  shows "topo_inv cases (\<lambda>n. case map_of dependencies n of None \<Rightarrow> [] | Some ds \<Rightarrow> ds)
    (map (\<lambda>n. (n, case map_of dependencies n of None \<Rightarrow> [] | Some ds \<Rightarrow> ds)) cases) []"
  using assms by (force simp: topo_inv_def o_def image_image)

definition deps_of :: "(string \<times> string list) list \<Rightarrow> string \<Rightarrow> string list" where
  "deps_of dependencies n = (case map_of dependencies n of None \<Rightarrow> [] | Some ds \<Rightarrow> ds)"

definition dep_edges :: "string list \<Rightarrow> (string \<Rightarrow> string list) \<Rightarrow> (string \<times> string) set" where
  "dep_edges cases deps = {(d, n). n \<in> set cases \<and> d \<in> set (deps n)}"

lemma stable_order_sound:
  assumes "stable_topological_order cases dependencies = Inr xs" "distinct cases"
  shows "distinct xs \<and> set xs = set cases \<and> deps_precede (deps_of dependencies) xs"
  using topo_loop_sound[OF assms(1)[unfolded stable_topological_order_def] topo_inv_start[OF assms(2)] assms(2)]
  unfolding deps_of_def[abs_def] .

lemma position_split: "x \<notin> set us \<Longrightarrow> position x (us @ x # vs) = length us"
  by (induction us) auto

lemma position_before: "d \<in> set us \<Longrightarrow> position d (us @ vs) < length us"
  by (induction us) auto

lemma deps_precede_position:
  assumes "deps_precede deps xs" "n \<in> set xs" "d \<in> set (deps n)"
  shows "position d xs < position n xs"
proof -
  obtain us vs where xs: "xs = us @ n # vs" "n \<notin> set us" using assms(2) by (meson split_list_first)
  then have "d \<in> set us" using assms(1,3) unfolding deps_precede_def by blast
  then show ?thesis using xs position_split[OF xs(2)] position_before[of d us "n # vs"] by simp
qed

text \<open>A topological order has no cycle; a set without a source has one.\<close>

lemma deps_precede_acyclic:
  assumes "deps_precede deps xs" "set cases \<subseteq> set xs"
  shows "acyclic (dep_edges cases deps)"
proof -
  have "dep_edges cases deps \<subseteq> measure (\<lambda>x. position x xs)"
    using assms deps_precede_position by (auto simp: dep_edges_def)
  then show ?thesis by (intro wf_acyclic wf_subset[OF wf_measure])
qed

lemma no_source_cycle:
  assumes "S \<noteq> {}" "finite S" "\<forall>n\<in>S. \<exists>d\<in>S. (d, n) \<in> R"
  shows "\<not> acyclic R"
proof
  assume "acyclic R"
  then have "acyclic (R \<inter> S \<times> S)" by (rule acyclic_subset) auto
  then have "wf (R \<inter> S \<times> S)" using assms(2) by (intro finite_acyclic_wf) auto
  then obtain n where "n \<in> S" "\<forall>d. (d, n) \<in> R \<inter> S \<times> S \<longrightarrow> d \<notin> S"
    using assms(1) by (metis ex_in_conv wf_eq_minimal)
  then show False using assms(3) by blast
qed

section \<open>What a plan holds\<close>

lemma set_dedup [simp]: "set (dedup xs) = set xs"
  by (induction xs) auto

lemma collect_Inr:
  "collect f ks = Inr d \<Longrightarrow> map fst d = ks \<and> (\<forall>k\<in>set ks. \<exists>v. map_of d k = Some v \<and> f k = Inr v)"
proof (induction ks arbitrary: d)
  case (Cons k ks)
  then obtain v d' where d: "f k = Inr v" "collect f ks = Inr d'" "d = (k, v) # d'" by (auto split: sum.splits)
  show ?case using Cons.IH[OF d(2)] d by simp
qed simp

lemma producer_in_cases: "producer_case_for_registry_key key stage cases = Some p \<Longrightarrow> p \<in> set cases"
  by (auto simp: producer_case_for_registry_key_def Let_def split: if_splits)

lemma infer_producers_Inr:
  "infer_producers stage cases n keys ps = Inr out \<Longrightarrow>
     set out = set ps \<union> {p. \<exists>key\<in>set keys. producer_case_for_registry_key key stage cases = Some p}
     \<and> (n \<notin> set ps \<longrightarrow> n \<notin> set out)"
proof (induction keys arbitrary: ps)
  case (Cons key keys)
  show ?case
  proof (cases "producer_case_for_registry_key key stage cases")
    case None
    then show ?thesis using Cons by auto
  next
    case (Some p)
    then have "p \<noteq> n" and rest: "infer_producers stage cases n keys (if p \<in> set ps then ps else ps @ [p]) = Inr out"
      using Cons.prems by (auto split: if_splits)
    from Cons.IH[OF rest] Some \<open>p \<noteq> n\<close> show ?thesis by (auto split: if_splits)
  qed
qed auto

text \<open>The dependencies a declaration gives a case: those it names and the producers of its inputs.\<close>

definition declared_deps :: "stage_decl \<Rightarrow> string list \<Rightarrow> string \<Rightarrow> string set" where
  "declared_deps st cases n =
     (case decl_depends_on st of Misshaped \<Rightarrow> {} | Shaped m \<Rightarrow>
        (case map_of m n of Some (Shaped ds) \<Rightarrow> set ds | _ \<Rightarrow> {}))
     \<union> (case decl_inputs st of Misshaped \<Rightarrow> {} | Shaped m \<Rightarrow>
        (case map_of m n of
           Some (Shaped inputs) \<Rightarrow> {p. \<exists>key\<in>snd ` set inputs.
             producer_case_for_registry_key key (or_default (decl_name st) ''stage'') cases = Some p}
         | _ \<Rightarrow> {}))"

lemma explicit_Inr:
  "explicit_dependencies cases m n = Inr ds \<Longrightarrow>
     set ds = (case map_of m n of Some (Shaped raw) \<Rightarrow> set raw | _ \<Rightarrow> {}) \<and> set ds \<subseteq> set cases \<and> n \<notin> set ds"
  by (auto simp: explicit_dependencies_def Let_def split: option.splits field.splits if_splits)

lemma inferred_Inr:
  "inferred_dependencies stage cases m n = Inr ds \<Longrightarrow>
     set ds = (case map_of m n of Some (Shaped inputs) \<Rightarrow> {p. \<exists>key\<in>snd ` set inputs.
         producer_case_for_registry_key key stage cases = Some p} | _ \<Rightarrow> {}) \<and> n \<notin> set ds"
  by (auto simp: inferred_dependencies_def split: option.splits field.splits dest!: infer_producers_Inr) force+

lemma from_stage_parts:
  assumes "from_stage st = Inr plan"
  obtains cases m1 m2 where "decl_cases st = Shaped cases" "plan_cases plan = cases" "distinct cases" "cases \<noteq> []"
    "decl_depends_on st = Shaped m1" "decl_inputs st = Shaped m2"
    "collect (explicit_dependencies cases m1) cases = Inr (plan_explicit plan)"
    "collect (inferred_dependencies (or_default (decl_name st) ''stage'') cases m2) cases = Inr (plan_inferred plan)"
    "plan_deps plan = map (\<lambda>n. (n, dedup (the (map_of (plan_explicit plan) n) @ the (map_of (plan_inferred plan) n)))) cases"
    "stable_topological_order cases (plan_deps plan) = Inr (plan_order plan)"
  using assms
  by (auto simp: from_stage_def Let_def normalize_named_mapping_def split: field.splits if_splits sum.splits)

lemma plan_deps_declared:
  assumes "from_stage st = Inr plan" "n \<in> set (plan_cases plan)"
  shows "set (deps_of (plan_deps plan) n) = declared_deps st (plan_cases plan) n"
    "set (deps_of (plan_deps plan) n) \<subseteq> set (plan_cases plan)" "n \<notin> set (deps_of (plan_deps plan) n)"
proof -
  let ?stage = "or_default (decl_name st) ''stage''"
  from assms(1) obtain cases m1 m2 where p: "plan_cases plan = cases" "decl_depends_on st = Shaped m1"
    "decl_inputs st = Shaped m2" "collect (explicit_dependencies cases m1) cases = Inr (plan_explicit plan)"
    "collect (inferred_dependencies ?stage cases m2) cases = Inr (plan_inferred plan)"
    "plan_deps plan = map (\<lambda>n. (n, dedup (the (map_of (plan_explicit plan) n) @ the (map_of (plan_inferred plan) n)))) cases"
    by (rule from_stage_parts)
  obtain ex where ex: "map_of (plan_explicit plan) n = Some ex" "explicit_dependencies cases m1 n = Inr ex"
    using collect_Inr[OF p(4)] assms(2) p(1) by auto
  obtain iv where iv: "map_of (plan_inferred plan) n = Some iv" "inferred_dependencies ?stage cases m2 n = Inr iv"
    using collect_Inr[OF p(5)] assms(2) p(1) by auto
  have "map_of (map (\<lambda>n. (n, g n)) cases) n = Some (g n)" for g :: "string \<Rightarrow> string list"
    using assms(2) p(1) by (simp add: map_of_map_restrict)
  then have d: "set (deps_of (plan_deps plan) n) = set ex \<union> set iv"
    unfolding deps_of_def p(6) by (simp add: ex(1) iv(1))
  note e = explicit_Inr[OF ex(2)] and i = inferred_Inr[OF iv(2)]
  show "set (deps_of (plan_deps plan) n) = declared_deps st (plan_cases plan) n"
    unfolding d declared_deps_def p(1-3) using e i by simp
  have "set iv \<subseteq> set cases" using i by (auto split: option.splits field.splits dest: producer_in_cases)
  then show "set (deps_of (plan_deps plan) n) \<subseteq> set (plan_cases plan)" unfolding d p(1) using e by blast
  show "n \<notin> set (deps_of (plan_deps plan) n)" unfolding d using e i by blast
qed

lemma plan_order_sound:
  assumes "from_stage st = Inr plan"
  shows "distinct (plan_order plan) \<and> set (plan_order plan) = set (plan_cases plan)
    \<and> deps_precede (deps_of (plan_deps plan)) (plan_order plan)"
proof -
  from assms obtain cases where "plan_cases plan = cases" "distinct cases"
    "stable_topological_order cases (plan_deps plan) = Inr (plan_order plan)" by (rule from_stage_parts)
  then show ?thesis using stable_order_sound by metis
qed

lemma plan_deps_keys:
  assumes "from_stage st = Inr plan"
  shows "map fst (plan_deps plan) = plan_cases plan"
proof -
  from assms obtain cases where "plan_cases plan = cases"
    "plan_deps plan = map (\<lambda>n. (n, dedup (the (map_of (plan_explicit plan) n) @ the (map_of (plan_inferred plan) n)))) cases"
    by (rule from_stage_parts)
  then show ?thesis by (simp add: o_def)
qed

end
