(* ===== verification/Dag_Run.thy ===== *)
theory Dag_Run
  imports Dag "HOL-Library.AList"
begin

text \<open>
  \<open>_execute_dag_stage\<close> of \<open>project/project_runner.py\<close>: a stage runs in waves of cases whose
  dependencies have succeeded. The executor of one wave (\<open>_execute_parallel_stage\<close>, processes
  under leases) is an argument \<open>exec\<close> with a state of its own; it receives the artifact
  registries and the ready cases and returns results, artifacts and an exit code. Sets of names are
  lists; the dictionaries are association lists. The callback that reports each result is left out.
\<close>

section \<open>Results and registries\<close>

record case_result =
  cr_case :: string
  cr_status :: string
  cr_exit_code :: int
  cr_failure :: "string option"

definition cr_ok :: "case_result \<Rightarrow> bool" where
  "cr_ok r \<longleftrightarrow> cr_exit_code r = 0 \<and> cr_status r \<in> {''succeeded'', ''built'', ''checked'', ''resumed''}
     \<and> cr_failure r = None"

definition dag_skipped_result :: "string \<Rightarrow> string \<Rightarrow> case_result" where
  "dag_skipped_result name kind =
     \<lparr>cr_case = name, cr_status = ''skipped'', cr_exit_code = 1, cr_failure = Some kind\<rparr>"

type_synonym ('r, 'p) artifacts = "string \<times> (string \<times> 'r) list \<times> (string \<times> 'p) list"

record ('r, 'p) dag_state =
  ds_pending :: "string list"
  ds_succeeded :: "string list"
  ds_failed :: "string list"
  ds_results :: "(string \<times> case_result) list"
  ds_exit :: int
  ds_artifacts :: "('r, 'p) artifacts list"
  ds_registry :: "(string \<times> 'r) list"
  ds_bindings :: "(string \<times> 'r \<times> 'p) list"

type_synonym ('s, 'r, 'p) wave_exec =
  "'s \<Rightarrow> (string \<times> 'r) list \<Rightarrow> (string \<times> 'r \<times> 'p) list \<Rightarrow> string list
    \<Rightarrow> (case_result list \<times> ('r, 'p) artifacts list \<times> int) \<times> 's"

definition setdefault :: "'k \<Rightarrow> 'v \<Rightarrow> ('k \<times> 'v) list \<Rightarrow> ('k \<times> 'v) list" where
  "setdefault k v d = (case map_of d k of None \<Rightarrow> d @ [(k, v)] | Some _ \<Rightarrow> d)"

fun register_case_artifacts ::
  "string \<Rightarrow> string \<Rightarrow> (string \<times> 'r) list \<Rightarrow> (string \<times> 'p) list
    \<Rightarrow> (string \<times> 'r) list \<times> (string \<times> 'r \<times> 'p) list
    \<Rightarrow> ((string \<times> 'r) list \<times> (string \<times> 'r \<times> 'p) list) result" where
  "register_case_artifacts stage name [] pubs (reg, bnd) = Inr (reg, bnd)"
| "register_case_artifacts stage name ((a, ref) # refs) pubs (reg, bnd) =
     (case map_of pubs a of
        None \<Rightarrow> Inl ProjectConfigurationError
      | Some pub \<Rightarrow>
          let qualified = stage @ ''.'' @ name @ ''.'' @ a; case_qualified = name @ ''.'' @ a in
          register_case_artifacts stage name refs pubs
            (setdefault a ref (AList.update case_qualified ref (AList.update qualified ref reg)),
             setdefault a (ref, pub) (AList.update case_qualified (ref, pub) (AList.update qualified (ref, pub) bnd))))"

section \<open>One round\<close>

definition retain :: "case_result \<Rightarrow> ('r, 'p) dag_state \<Rightarrow> ('r, 'p) dag_state" where
  "retain r d = d\<lparr>ds_results := AList.update (cr_case r) r (ds_results d)\<rparr>"

definition drop_pending :: "string \<Rightarrow> ('r, 'p) dag_state \<Rightarrow> ('r, 'p) dag_state" where
  "drop_pending n d = d\<lparr>ds_pending := filter (\<lambda>m. m \<noteq> n) (ds_pending d)\<rparr>"

definition skip_case :: "string \<Rightarrow> string \<Rightarrow> ('r, 'p) dag_state \<Rightarrow> ('r, 'p) dag_state" where
  "skip_case kind n d = (let d1 = drop_pending n (retain (dag_skipped_result n kind) d)
     in d1\<lparr>ds_failed := n # ds_failed d1, ds_exit := 1\<rparr>)"

definition blocked_cases :: "dag_plan \<Rightarrow> ('r, 'p) dag_state \<Rightarrow> string list" where
  "blocked_cases plan d = filter (\<lambda>n. n \<in> set (ds_pending d)
     \<and> list_ex (\<lambda>dep. dep \<in> set (ds_failed d)) (deps_of (plan_deps plan) n)) (plan_order plan)"

lemma pending_skip [simp]: "ds_pending (skip_case kind n d) = filter (\<lambda>m. m \<noteq> n) (ds_pending d)"
  by (simp add: skip_case_def drop_pending_def retain_def Let_def)

lemma pending_skips: "ds_pending (fold (skip_case kind) ns d) = filter (\<lambda>m. m \<notin> set ns) (ds_pending d)"
  by (induction ns arbitrary: d) (auto intro: filter_cong)

function block_loop :: "dag_plan \<Rightarrow> ('r, 'p) dag_state \<Rightarrow> ('r, 'p) dag_state" where
  "block_loop plan d = (let blocked = blocked_cases plan d in
     if blocked = [] then d else block_loop plan (fold (skip_case ''DependencyFailed'') blocked d))"
  by pat_completeness auto
termination
proof (relation "measure (\<lambda>(plan, d). length (ds_pending d))")
  fix plan :: dag_plan and d :: "('r, 'p) dag_state" and blocked
  assume b: "blocked = blocked_cases plan d" "blocked \<noteq> []"
  then obtain n where "n \<in> set blocked" using hd_in_set by blast
  moreover from this have "n \<in> set (ds_pending d)" using b by (simp add: blocked_cases_def)
  ultimately have "length (filter (\<lambda>m. m \<notin> set blocked) (ds_pending d)) < length (ds_pending d)"
    by (intro length_filter_less) auto
  then show "((plan, fold (skip_case ''DependencyFailed'') blocked d), (plan, d))
      \<in> measure (\<lambda>(plan, d). length (ds_pending d))" by (simp add: pending_skips)
qed simp

declare block_loop.simps [simp del]

definition ready_now :: "dag_plan \<Rightarrow> ('r, 'p) dag_state \<Rightarrow> string list" where
  "ready_now plan d = filter (\<lambda>n. n \<in> set (ds_pending d)
     \<and> list_all (\<lambda>dep. dep \<in> set (ds_succeeded d)) (deps_of (plan_deps plan) n)) (plan_order plan)"

fun settle_wave :: "(string \<Rightarrow> case_result option) \<Rightarrow> string list \<Rightarrow> ('r, 'p) dag_state \<Rightarrow> ('r, 'p) dag_state result" where
  "settle_wave by_name [] d = Inr d"
| "settle_wave by_name (n # ns) d =
     (case by_name n of
        None \<Rightarrow> Inl KeyError
      | Some r \<Rightarrow>
          let d1 = drop_pending n (retain r d) in
          settle_wave by_name ns
            (if cr_ok r then d1\<lparr>ds_succeeded := n # ds_succeeded d1\<rparr>
             else d1\<lparr>ds_failed := n # ds_failed d1,
               ds_exit := (if ds_exit d1 \<noteq> 0 then ds_exit d1 else if cr_exit_code r \<noteq> 0 then cr_exit_code r else 1)\<rparr>))"

fun register_wave :: "string \<Rightarrow> ('r, 'p) artifacts list \<Rightarrow> ('r, 'p) dag_state \<Rightarrow> ('r, 'p) dag_state result" where
  "register_wave stage [] d = Inr d"
| "register_wave stage ((n, refs, pubs) # as) d =
     (case register_case_artifacts stage n refs pubs (ds_registry d, ds_bindings d) of
        Inl e \<Rightarrow> Inl e
      | Inr (reg, bnd) \<Rightarrow> register_wave stage as
          (d\<lparr>ds_artifacts := ds_artifacts d @ [(n, refs, pubs)], ds_registry := reg, ds_bindings := bnd\<rparr>))"

text \<open>The dictionary \<open>{item.request.case_name: item}\<close>: the last item of a name counts.\<close>

definition by_case :: "case_result list \<Rightarrow> string \<Rightarrow> case_result option" where
  "by_case rs = map_of (rev (map (\<lambda>r. (cr_case r, r)) rs))"

definition absorb_wave ::
  "dag_plan \<Rightarrow> string list \<Rightarrow> case_result list \<times> ('r, 'p) artifacts list \<times> int \<Rightarrow> ('r, 'p) dag_state
    \<Rightarrow> ('r, 'p) dag_state result" where
  "absorb_wave plan ready out d = (case out of (results, artifacts, wave_exit) \<Rightarrow>
     (case settle_wave (by_case results) ready d of Inl e \<Rightarrow> Inl e
      | Inr d1 \<Rightarrow> (case register_wave (plan_stage plan) artifacts d1 of Inl e \<Rightarrow> Inl e
        | Inr d2 \<Rightarrow> Inr (d2\<lparr>ds_exit := (if ds_exit d2 \<noteq> 0 then ds_exit d2 else wave_exit)\<rparr>))))"

lemma pending_settle:
  "settle_wave by_name ns d = Inr d' \<Longrightarrow> ds_pending d' = filter (\<lambda>m. m \<notin> set ns) (ds_pending d)"
proof (induction ns arbitrary: d)
  case (Cons n ns)
  then obtain r where r: "by_name n = Some r" by (auto split: option.splits)
  let ?d1 = "drop_pending n (retain r d)"
  let ?d2 = "if cr_ok r then ?d1\<lparr>ds_succeeded := n # ds_succeeded ?d1\<rparr>
    else ?d1\<lparr>ds_failed := n # ds_failed ?d1,
      ds_exit := (if ds_exit ?d1 \<noteq> 0 then ds_exit ?d1 else if cr_exit_code r \<noteq> 0 then cr_exit_code r else 1)\<rparr>"
  have "settle_wave by_name ns ?d2 = Inr d'" using Cons.prems r by (simp add: Let_def)
  from Cons.IH[OF this] show ?case by (auto simp: drop_pending_def retain_def intro: filter_cong)
qed simp

lemma frame_register:
  "register_wave stage as d = Inr d' \<Longrightarrow> ds_pending d' = ds_pending d \<and> ds_succeeded d' = ds_succeeded d
    \<and> ds_failed d' = ds_failed d \<and> ds_results d' = ds_results d \<and> ds_exit d' = ds_exit d"
proof (induction as arbitrary: d)
  case (Cons a as)
  obtain n refs pubs where a: "a = (n, refs, pubs)" by (metis prod_cases3)
  obtain reg bnd where rb: "register_case_artifacts stage n refs pubs (ds_registry d, ds_bindings d) = Inr (reg, bnd)"
    using Cons.prems a by (auto split: sum.splits)
  show ?case using Cons.IH[of "d\<lparr>ds_artifacts := ds_artifacts d @ [(n, refs, pubs)], ds_registry := reg, ds_bindings := bnd\<rparr>"]
      Cons.prems a rb by simp
qed simp

lemma pending_absorb:
  assumes "absorb_wave plan ready out d = Inr d'"
  shows "ds_pending d' = filter (\<lambda>m. m \<notin> set ready) (ds_pending d)"
  using assms by (auto simp: absorb_wave_def split: prod.splits sum.splits dest!: pending_settle frame_register)

lemma ready_shrinks:
  assumes "ready_now plan d \<noteq> []"
  shows "length (filter (\<lambda>m. m \<notin> set (ready_now plan d)) (ds_pending d)) < length (ds_pending d)"
proof -
  obtain n where "n \<in> set (ready_now plan d)" using assms by (cases "ready_now plan d") auto
  then show ?thesis by (intro length_filter_less) (auto simp: ready_now_def)
qed

lemma block_loop_length: "length (ds_pending (block_loop plan d)) \<le> length (ds_pending d)"
proof (induction plan d rule: block_loop.induct)
  case (1 plan d)
  show ?case
  proof (cases "blocked_cases plan d = []")
    case True
    then show ?thesis by (simp add: block_loop.simps[of plan d])
  next
    case False
    from 1[OF refl this] have "length (ds_pending (block_loop plan d))
        \<le> length (filter (\<lambda>m. m \<notin> set (blocked_cases plan d)) (ds_pending d))"
      using False by (simp add: block_loop.simps[of plan d] pending_skips)
    then show ?thesis using length_filter_le order_trans by blast
  qed
qed

section \<open>The stage\<close>

function dag_loop ::
  "('s, 'r, 'p) wave_exec \<Rightarrow> dag_plan \<Rightarrow> bool \<Rightarrow> 's \<Rightarrow> ('r, 'p) dag_state \<Rightarrow> ('r, 'p) dag_state result \<times> 's" where
  "dag_loop exec plan fail_fast w d =
     (if ds_pending d = [] then (Inr d, w)
      else let d1 = block_loop plan d in
        if ds_pending d1 = [] then (Inr d1, w)
        else if ds_failed d1 \<noteq> [] \<and> fail_fast then
          (Inr ((fold (skip_case ''DagFailFastSkip'') (filter (\<lambda>n. n \<in> set (ds_pending d1)) (plan_order plan)) d1)
             \<lparr>ds_pending := [], ds_exit := 1\<rparr>), w)
        else let ready = ready_now plan d1 in
          if ready = [] then (Inl ProjectConfigurationError, w)
          else let (out, w1) = exec w (ds_registry d1) (ds_bindings d1) ready in
            (case absorb_wave plan ready out d1 of
               Inl e \<Rightarrow> (Inl e, w1)
             | Inr d2 \<Rightarrow> dag_loop exec plan fail_fast w1 d2))"
  by pat_completeness auto
termination
proof (relation "measure (\<lambda>(exec, plan, ff, w, d). length (ds_pending d))")
  fix exec :: "('s, 'r, 'p) wave_exec" and plan ff w and d :: "('r, 'p) dag_state" and d1 ready x out w1 d2
  assume a: "d1 = block_loop plan d" "ready = ready_now plan d1" "ready \<noteq> []" "absorb_wave plan ready out d1 = Inr d2"
  have "length (ds_pending d2) < length (ds_pending d1)"
    using pending_absorb[OF a(4)] ready_shrinks[of plan d1] a(2,3) by simp
  then show "((exec, plan, ff, w1, d2), (exec, plan, ff, w, d)) \<in> measure (\<lambda>(exec, plan, ff, w, d). length (ds_pending d))"
    using block_loop_length[of plan d] a(1) by simp
qed simp

declare dag_loop.simps [simp del]

definition dag_start ::
  "string list \<Rightarrow> string list \<Rightarrow> (string \<times> 'r) list \<Rightarrow> (string \<times> 'r \<times> 'p) list \<Rightarrow> ('r, 'p) dag_state" where
  "dag_start case_names resumed reg bnd = \<lparr>ds_pending = remdups case_names, ds_succeeded = remdups resumed,
     ds_failed = [], ds_results = [], ds_exit = 0, ds_artifacts = [], ds_registry = reg, ds_bindings = bnd\<rparr>"

definition execute_dag_stage ::
  "('s, 'r, 'p) wave_exec \<Rightarrow> dag_plan \<Rightarrow> bool \<Rightarrow> string list \<Rightarrow> string list
    \<Rightarrow> (string \<times> 'r) list \<Rightarrow> (string \<times> 'r \<times> 'p) list \<Rightarrow> 's
    \<Rightarrow> (case_result list \<times> ('r, 'p) artifacts list \<times> int) result \<times> 's" where
  "execute_dag_stage exec plan fail_fast case_names resumed reg bnd w =
     (case dag_loop exec plan fail_fast w (dag_start case_names resumed reg bnd) of
        (Inl e, w1) \<Rightarrow> (Inl e, w1)
      | (Inr d, w1) \<Rightarrow> (Inr (List.map_filter (map_of (ds_results d)) (plan_cases plan), ds_artifacts d, ds_exit d), w1))"

section \<open>The bookkeeping invariant\<close>

definition dag_base :: "string set \<Rightarrow> string set \<Rightarrow> ('r, 'p) dag_state \<Rightarrow> bool" where
  "dag_base names resumed d \<longleftrightarrow>
     distinct (ds_pending d) \<and> set (ds_pending d) \<union> dom (map_of (ds_results d)) = names
     \<and> set (ds_pending d) \<inter> dom (map_of (ds_results d)) = {}
     \<and> (\<forall>n r. map_of (ds_results d) n = Some r \<longrightarrow> cr_case r = n)
     \<and> set (ds_failed d) = {n. \<exists>r. map_of (ds_results d) n = Some r \<and> \<not> cr_ok r}
     \<and> set (ds_succeeded d) = resumed \<union> {n. \<exists>r. map_of (ds_results d) n = Some r \<and> cr_ok r}
     \<and> (ds_failed d \<noteq> [] \<longrightarrow> ds_exit d \<noteq> 0)"

text \<open>Both kinds of step book one result for one pending case.\<close>

lemma base_book:
  assumes "dag_base names resumed d" "n \<in> set (ds_pending d)" "cr_case r = n"
    "ds_pending d' = filter (\<lambda>m. m \<noteq> n) (ds_pending d)"
    "ds_results d' = AList.update n r (ds_results d)"
    "if cr_ok r then ds_succeeded d' = n # ds_succeeded d \<and> ds_failed d' = ds_failed d \<and> ds_exit d' = ds_exit d
      else ds_succeeded d' = ds_succeeded d \<and> ds_failed d' = n # ds_failed d \<and> ds_exit d' \<noteq> 0"
  shows "dag_base names resumed d'"
proof -
  have m: "map_of (ds_results d') = (map_of (ds_results d))(n \<mapsto> r)" by (simp add: assms(5) update_conv')
  have n: "map_of (ds_results d) n = None" using assms(1,2) by (auto simp: dag_base_def)
  have "{m. \<exists>x. ((map_of (ds_results d))(n \<mapsto> r)) m = Some x \<and> P x}
      = (if P r then {n} else {}) \<union> {m. \<exists>x. map_of (ds_results d) m = Some x \<and> P x}" for P
    using n by auto
  note sets = this[of cr_ok] this[of "\<lambda>r. \<not> cr_ok r"]
  show ?thesis
    using assms(1-4,6) n unfolding dag_base_def m sets by (cases "cr_ok r") auto
qed

lemma skipped_not_ok [simp]: "\<not> cr_ok (dag_skipped_result n kind)" "cr_case (dag_skipped_result n kind) = n"
  by (simp_all add: cr_ok_def dag_skipped_result_def)

lemma base_skip:
  "dag_base names resumed d \<Longrightarrow> n \<in> set (ds_pending d) \<Longrightarrow> dag_base names resumed (skip_case kind n d)"
  by (rule base_book[where n = n and r = "dag_skipped_result n kind"])
    (simp_all add: skip_case_def drop_pending_def retain_def Let_def)

lemma base_skips:
  "dag_base names resumed d \<Longrightarrow> distinct ns \<Longrightarrow> set ns \<subseteq> set (ds_pending d)
    \<Longrightarrow> dag_base names resumed (fold (skip_case kind) ns d)"
proof (induction ns arbitrary: d)
  case (Cons n ns)
  have "dag_base names resumed (skip_case kind n d)" using Cons.prems by (intro base_skip) auto
  moreover have "set ns \<subseteq> set (ds_pending (skip_case kind n d))" using Cons.prems by auto
  ultimately show ?case using Cons.IH Cons.prems(2) by simp
qed simp

text \<open>Results are only ever added.\<close>

definition extends :: "('r, 'p) dag_state \<Rightarrow> ('r, 'p) dag_state \<Rightarrow> bool" where
  "extends d d' \<longleftrightarrow> (\<forall>n. n \<notin> set (ds_pending d) \<longrightarrow> map_of (ds_results d') n = map_of (ds_results d) n)
     \<and> set (ds_pending d') \<subseteq> set (ds_pending d)"

lemma extends_refl [simp]: "extends d d"
  by (simp add: extends_def)

lemma extends_trans: "extends d d1 \<Longrightarrow> extends d1 d2 \<Longrightarrow> extends d d2"
  by (auto simp: extends_def)

definition ok_cases :: "('r, 'p) dag_state \<Rightarrow> string set" where
  "ok_cases d = {n. \<exists>r. map_of (ds_results d) n = Some r \<and> cr_ok r}"

lemma results_skip: "map_of (ds_results (skip_case kind n d)) = (map_of (ds_results d))(n \<mapsto> dag_skipped_result n kind)"
  by (simp add: skip_case_def drop_pending_def retain_def Let_def update_conv')

lemma extends_skips:
  "set ns \<subseteq> set (ds_pending d) \<Longrightarrow> distinct ns \<Longrightarrow> extends d (fold (skip_case kind) ns d)
    \<and> ok_cases (fold (skip_case kind) ns d) \<subseteq> ok_cases d"
proof (induction ns arbitrary: d)
  case (Cons n ns)
  have "extends d (skip_case kind n d)" using Cons.prems by (auto simp: extends_def results_skip)
  moreover have "ok_cases (skip_case kind n d) \<subseteq> ok_cases d" by (auto simp: ok_cases_def results_skip)
  moreover have "set ns \<subseteq> set (ds_pending (skip_case kind n d))" using Cons.prems by auto
  then have "extends (skip_case kind n d) (fold (skip_case kind) ns (skip_case kind n d))"
    "ok_cases (fold (skip_case kind) ns (skip_case kind n d)) \<subseteq> ok_cases (skip_case kind n d)"
    using Cons.IH Cons.prems(2) by auto
  ultimately show ?case using extends_trans by (metis fold_simps(2) subset_trans)
qed simp

lemma settle_wave_base:
  "settle_wave by_name ns d = Inr d' \<Longrightarrow> dag_base names resumed d \<Longrightarrow> distinct ns \<Longrightarrow> set ns \<subseteq> set (ds_pending d)
    \<Longrightarrow> \<forall>n r. by_name n = Some r \<longrightarrow> cr_case r = n
    \<Longrightarrow> dag_base names resumed d' \<and> extends d d'"
proof (induction ns arbitrary: d)
  case (Cons n ns)
  obtain r where r: "by_name n = Some r" using Cons.prems(1) by (auto split: option.splits)
  let ?d1 = "drop_pending n (retain r d)"
  let ?d2 = "if cr_ok r then ?d1\<lparr>ds_succeeded := n # ds_succeeded ?d1\<rparr>
    else ?d1\<lparr>ds_failed := n # ds_failed ?d1,
      ds_exit := (if ds_exit ?d1 \<noteq> 0 then ds_exit ?d1 else if cr_exit_code r \<noteq> 0 then cr_exit_code r else 1)\<rparr>"
  have cr: "cr_case r = n" using Cons.prems(5) r by blast
  have b: "dag_base names resumed ?d2"
    by (rule base_book[OF Cons.prems(2), where n = n and r = r])
      (use Cons.prems(4) cr in \<open>auto simp: drop_pending_def retain_def\<close>)
  have pend: "ds_pending ?d2 = filter (\<lambda>m. m \<noteq> n) (ds_pending d)" by (simp add: drop_pending_def retain_def)
  have "extends d ?d2" using Cons.prems(4) cr
    by (auto simp: extends_def drop_pending_def retain_def update_conv')
  moreover have "dag_base names resumed d' \<and> extends ?d2 d'"
    by (rule Cons.IH[OF _ b]) (use Cons.prems r pend in \<open>auto simp: Let_def\<close>)
  ultimately show ?case using extends_trans by blast
qed simp

lemma by_case_name: "by_case rs n = Some r \<Longrightarrow> cr_case r = n"
  by (auto simp: by_case_def dest!: map_of_SomeD)

lemma dag_base_register:
  "register_wave stage as d = Inr d' \<Longrightarrow> dag_base names resumed d \<Longrightarrow> dag_base names resumed d'"
  using frame_register[of stage as d d'] by (simp add: dag_base_def)

lemma absorb_wave_base:
  assumes "absorb_wave plan ready out d = Inr d'" "dag_base names resumed d" "distinct ready"
    "set ready \<subseteq> set (ds_pending d)"
  shows "dag_base names resumed d' \<and> extends d d'"
proof -
  obtain results artifacts wx where out: "out = (results, artifacts, wx)" by (metis prod_cases3)
  obtain d1 d2 where d: "settle_wave (by_case results) ready d = Inr d1"
    "register_wave (plan_stage plan) artifacts d1 = Inr d2"
    "d' = d2\<lparr>ds_exit := (if ds_exit d2 \<noteq> 0 then ds_exit d2 else wx)\<rparr>"
    using assms(1) by (auto simp: absorb_wave_def out split: sum.splits)
  have 1: "dag_base names resumed d1 \<and> extends d d1"
    using settle_wave_base[OF d(1) assms(2-4)] by_case_name by blast
  have 2: "dag_base names resumed d2" using dag_base_register[OF d(2)] 1 by blast
  have "dag_base names resumed d'" using 2 unfolding d(3) dag_base_def by auto
  moreover have "extends d d'" using 1 frame_register[OF d(2)] unfolding d(3) extends_def by simp
  ultimately show ?thesis by blast
qed

lemma blocked_sub:
  "set (blocked_cases plan d) \<subseteq> set (ds_pending d)"
  "distinct (plan_order plan) \<Longrightarrow> distinct (blocked_cases plan d)"
  by (auto simp: blocked_cases_def)

lemma block_loop_base:
  "distinct (plan_order plan) \<Longrightarrow> dag_base names resumed d \<Longrightarrow>
     dag_base names resumed (block_loop plan d) \<and> extends d (block_loop plan d)
     \<and> ok_cases (block_loop plan d) \<subseteq> ok_cases d \<and> blocked_cases plan (block_loop plan d) = []"
proof (induction plan d rule: block_loop.induct)
  case (1 plan d)
  let ?b = "blocked_cases plan d"
  let ?d1 = "fold (skip_case ''DependencyFailed'') ?b d"
  show ?case
  proof (cases "?b = []")
    case True
    then show ?thesis using 1 by (simp add: block_loop.simps[of plan d])
  next
    case False
    note sub = blocked_sub(1)[of plan d] blocked_sub(2)[OF 1(2), of d]
    note ext = extends_skips[OF sub, of "''DependencyFailed''"]
    from 1(1)[OF refl False 1(2) base_skips[OF 1(3) sub(2,1)]] show ?thesis
      using ext extends_trans False by (simp add: block_loop.simps[of plan d]) blast
  qed
qed

section \<open>The schedule\<close>

text \<open>The executor with a log of the waves it is given.\<close>

definition logged :: "('s, 'r, 'p) wave_exec \<Rightarrow> ('s \<times> string list list, 'r, 'p) wave_exec" where
  "logged exec = (\<lambda>(w, waves) reg bnd ready. let (out, w1) = exec w reg bnd ready in (out, (w1, waves @ [ready])))"

definition schedule_ok :: "dag_plan \<Rightarrow> string set \<Rightarrow> ('r, 'p) dag_state \<Rightarrow> string list list \<Rightarrow> bool" where
  "schedule_ok plan resumed d waves \<longleftrightarrow> distinct (concat waves) \<and> set (concat waves) \<inter> set (ds_pending d) = {}
     \<and> ok_cases d \<subseteq> set (concat waves)
     \<and> (\<forall>pre w post. waves = pre @ w # post \<longrightarrow> (\<forall>n\<in>set w. \<forall>dep\<in>set (deps_of (plan_deps plan) n).
          dep \<in> resumed \<or> dep \<in> set (concat pre) \<and> dep \<in> ok_cases d))"

lemma ok_cases_extends: "dag_base names resumed d \<Longrightarrow> extends d d' \<Longrightarrow> ok_cases d \<subseteq> ok_cases d'"
proof
  fix n assume a: "dag_base names resumed d" "extends d d'" "n \<in> ok_cases d"
  then have "n \<in> dom (map_of (ds_results d))" by (auto simp: ok_cases_def)
  then have "n \<notin> set (ds_pending d)" using a(1) unfolding dag_base_def by blast
  then show "n \<in> ok_cases d'" using a(2,3) by (auto simp: extends_def ok_cases_def)
qed

lemma schedule_extends:
  assumes "schedule_ok plan resumed d waves" "dag_base names resumed d" "extends d d'" "ok_cases d' \<subseteq> ok_cases d"
  shows "schedule_ok plan resumed d' waves"
proof -
  have "ok_cases d' = ok_cases d" using assms(4) ok_cases_extends[OF assms(2,3)] by blast
  moreover have "set (ds_pending d') \<subseteq> set (ds_pending d)" using assms(3) by (simp add: extends_def)
  ultimately show ?thesis using assms(1) unfolding schedule_ok_def by auto
qed

lemma schedule_wave:
  assumes "schedule_ok plan resumed d waves" "dag_base names resumed d" "distinct (plan_order plan)"
    "ready = ready_now plan d" "dag_base names resumed d'" "extends d d'" "ds_pending d' = filter (\<lambda>m. m \<notin> set ready) (ds_pending d)"
  shows "schedule_ok plan resumed d' (waves @ [ready])"
proof -
  have r: "set ready \<subseteq> set (ds_pending d)" "distinct ready"
    "\<And>n. n \<in> set ready \<Longrightarrow> set (deps_of (plan_deps plan) n) \<subseteq> set (ds_succeeded d)"
    using assms(3) by (auto simp: assms(4) ready_now_def list_all_iff)
  have succ: "set (ds_succeeded d) \<subseteq> resumed \<union> ok_cases d" using assms(2) by (auto simp: dag_base_def ok_cases_def)
  note mono = ok_cases_extends[OF assms(2,6)]
  have "ok_cases d' \<subseteq> set (concat waves) \<union> set ready"
  proof
    fix n assume n: "n \<in> ok_cases d'"
    then have "n \<notin> set (ds_pending d')" using assms(5) by (auto simp: ok_cases_def dag_base_def)
    then have "n \<in> set ready \<or> n \<notin> set (ds_pending d)" using assms(7) by auto
    moreover have "n \<notin> set (ds_pending d) \<Longrightarrow> n \<in> ok_cases d" using n assms(6) by (auto simp: extends_def ok_cases_def)
    ultimately show "n \<in> set (concat waves) \<union> set ready" using assms(1) unfolding schedule_ok_def by blast
  qed
  moreover have "\<forall>n\<in>set w. \<forall>dep\<in>set (deps_of (plan_deps plan) n). dep \<in> resumed \<or> dep \<in> set (concat pre) \<and> dep \<in> ok_cases d'"
    if eq: "waves @ [ready] = pre @ w # post" for pre w post
  proof (cases post rule: rev_cases)
    case Nil
    then have w: "w = ready" "pre = waves" using eq by auto
    have "ok_cases d \<subseteq> set (concat waves)" using assms(1) by (simp add: schedule_ok_def)
    then show ?thesis using r(3) succ mono unfolding w by blast
  next
    case (snoc ps p)
    then have "waves = pre @ w # ps" using eq by (metis append_Cons append_assoc butlast_snoc)
    then show ?thesis using assms(1) mono unfolding schedule_ok_def by blast
  qed
  ultimately show ?thesis using assms(1,7) r unfolding schedule_ok_def by auto
qed

lemma fail_fast_base:
  fixes kind :: string
  assumes "dag_base names resumed d" "distinct (plan_order plan)" "names \<subseteq> set (plan_order plan)"
  defines "skipped \<equiv> filter (\<lambda>n. n \<in> set (ds_pending d)) (plan_order plan)"
  defines "d' \<equiv> (fold (skip_case kind) skipped d)\<lparr>ds_pending := [], ds_exit := 1\<rparr>"
  shows "dag_base names resumed d' \<and> extends d d' \<and> ok_cases d' \<subseteq> ok_cases d"
proof -
  have sub: "set skipped \<subseteq> set (ds_pending d)" "distinct skipped" using assms(2) by (auto simp: skipped_def)
  let ?f = "fold (skip_case kind) skipped d"
  have "set (ds_pending d) \<subseteq> names" using assms(1) by (auto simp: dag_base_def)
  then have "set skipped = set (ds_pending d)" using assms(3) by (auto simp: skipped_def)
  then have none: "ds_pending ?f = []" by (simp add: pending_skips)
  have base: "dag_base names resumed ?f" by (rule base_skips[OF assms(1) sub(2,1)])
  have "dag_base names resumed d'" using base none unfolding d'_def dag_base_def by auto
  moreover have "extends d ?f" "ok_cases ?f \<subseteq> ok_cases d" using extends_skips[OF sub, of kind] by auto
  ultimately show ?thesis unfolding d'_def extends_def ok_cases_def by auto
qed

lemma dag_loop_ok:
  assumes "distinct (plan_order plan)" "names \<subseteq> set (plan_order plan)"
  shows "exec = logged e \<Longrightarrow> dag_loop exec plan ff w d = (Inr d', w') \<Longrightarrow> dag_base names resumed d
    \<Longrightarrow> schedule_ok plan resumed d (snd w)
    \<Longrightarrow> dag_base names resumed d' \<and> schedule_ok plan resumed d' (snd w') \<and> ds_pending d' = []"
  using assms
proof (induction exec plan ff w d rule: dag_loop.induct)
  case (1 exec plan ff w d)
  note base = 1(4) and sched = 1(5) and ord = 1(6,7)
  let ?d1 = "block_loop plan d"
  have b1: "dag_base names resumed ?d1" "extends d ?d1" "ok_cases ?d1 \<subseteq> ok_cases d"
    using block_loop_base[OF ord(1) base] by auto
  note s1 = schedule_extends[OF sched base b1(2,3)]
  note run = 1(3)[unfolded dag_loop.simps[of exec plan ff w d] Let_def]
  show ?case
  proof (cases "ds_pending d = [] \<or> ds_pending ?d1 = [] \<or> ds_failed ?d1 \<noteq> [] \<and> ff")
    case True
    then consider "ds_pending d = []" | "ds_pending d \<noteq> []" "ds_pending ?d1 = []"
      | "ds_pending d \<noteq> []" "ds_pending ?d1 \<noteq> []" "ds_failed ?d1 \<noteq> [] \<and> ff" by blast
    then show ?thesis
    proof cases
      case 1
      then show ?thesis using run base sched by simp
    next
      case 2
      then show ?thesis using run b1 s1 by simp
    next
      case 3
      note ffb = fail_fast_base[OF b1(1) ord, of "''DagFailFastSkip''"]
      show ?thesis using run 3 ffb schedule_extends[OF s1 b1(1)] by auto
    qed
  next
    case False
    let ?ready = "ready_now plan ?d1"
    obtain out w1 where out: "exec w (ds_registry ?d1) (ds_bindings ?d1) ?ready = (out, w1)" by (metis prod.exhaust)
    have ne: "?ready \<noteq> []" using run False by (auto simp: Let_def)
    obtain d2 where d2: "absorb_wave plan ?ready out ?d1 = Inr d2" "dag_loop exec plan ff w1 d2 = (Inr d', w')"
      using run False ne out by (auto simp: Let_def split: sum.splits)
    have r: "distinct ?ready" "set ?ready \<subseteq> set (ds_pending ?d1)" using ord(1) by (auto simp: ready_now_def)
    have b2: "dag_base names resumed d2" "extends ?d1 d2" using absorb_wave_base[OF d2(1) b1(1) r] by auto
    have "snd w1 = snd w @ [?ready]"
      using out 1(2) by (auto simp: logged_def split: prod.splits)
    then have "schedule_ok plan resumed d2 (snd w1)"
      using schedule_wave[OF s1 b1(1) ord(1) refl b2 pending_absorb[OF d2(1)]] by simp
    moreover have "ds_pending d \<noteq> []" "ds_pending ?d1 \<noteq> []" "\<not> (ds_failed ?d1 \<noteq> [] \<and> ff)" using False by auto
    ultimately show ?thesis
      using 1(1)[OF _ refl _ _ refl ne out[symmetric] refl d2(1) 1(2) d2(2) b2(1) _ ord] by blast
  qed
qed

end
