(* ===== verification/Dag_Properties.thy ===== *)
theory Dag_Properties
  imports Dag_Run
begin

text \<open>
  The properties of DAG stages: what a validated plan guarantees, when a declaration has one, and
  what the wave scheduler does with it.
\<close>

section \<open>Plans\<close>

text \<open>
  C6. The order of a validated plan lists every case of the stage once, and every case stands
  after all its dependencies, which are exactly the ones it declares and the producers of the
  artifacts it consumes; no case depends on itself or on a case outside the stage.
\<close>

theorem plan_is_topological:
  assumes "from_stage st = Inr plan"
  shows "distinct (plan_order plan) \<and> set (plan_order plan) = set (plan_cases plan)
    \<and> (\<forall>ys n zs. plan_order plan = ys @ n # zs \<longrightarrow> set (deps_of (plan_deps plan) n) \<subseteq> set ys)
    \<and> (\<forall>n\<in>set (plan_cases plan). set (deps_of (plan_deps plan) n) = declared_deps st (plan_cases plan) n
         \<and> n \<notin> declared_deps st (plan_cases plan) n \<and> declared_deps st (plan_cases plan) n \<subseteq> set (plan_cases plan))"
  using plan_order_sound[OF assms] plan_deps_declared[OF assms] unfolding deps_precede_def by auto

text \<open>
  The ordering succeeds exactly when the dependencies have no cycle: on distinct cases whose
  dependencies are cases of the stage, it returns an order if the graph is acyclic and the
  configuration error otherwise.
\<close>

theorem order_iff_acyclic:
  assumes "distinct cases" "\<forall>n\<in>set cases. set (deps_of dependencies n) \<subseteq> set cases"
  shows "(case stable_topological_order cases dependencies of
      Inr xs \<Rightarrow> acyclic (dep_edges cases (deps_of dependencies))
    | Inl e \<Rightarrow> \<not> acyclic (dep_edges cases (deps_of dependencies)) \<and> e = ProjectConfigurationError)"
proof -
  let ?deps = "deps_of dependencies"
  have "\<not> acyclic (dep_edges cases ?deps)" if err: "stable_topological_order cases dependencies = Inl e" for e
  proof -
    obtain S where "S \<noteq> {}" "S \<subseteq> set cases" "\<forall>n\<in>S. \<exists>d\<in>S. d \<in> set (?deps n)"
      using topo_loop_stuck[OF err[unfolded stable_topological_order_def] topo_inv_start[OF assms(1)] assms(1)]
        assms(2) unfolding deps_of_def[abs_def] by blast
    then show ?thesis
      using finite_subset[of S "set cases"] by (intro no_source_cycle[of S]) (auto simp: dep_edges_def)
  qed
  moreover have "acyclic (dep_edges cases ?deps)" if "stable_topological_order cases dependencies = Inr xs" for xs
    using stable_order_sound[OF that assms(1)] by (intro deps_precede_acyclic[of _ xs]) auto
  moreover have "topo_loop cases remaining order = Inl e \<Longrightarrow> e = ProjectConfigurationError" for remaining order e
    by (induction cases remaining order rule: topo_loop.induct)
      (subst (asm) (2) topo_loop.simps, auto simp: Let_def split: if_splits)
  ultimately show ?thesis
    unfolding stable_topological_order_def by (auto split: sum.splits)
qed

section \<open>Runs\<close>

lemma dag_start_inv:
  assumes "set case_names \<inter> set resumed = {}"
  shows "dag_base (set case_names) (set resumed) (dag_start case_names resumed reg bnd)"
    "schedule_ok plan (set resumed) (dag_start case_names resumed reg bnd) []"
  by (auto simp: dag_base_def dag_start_def schedule_ok_def ok_cases_def)

text \<open>
  C7. The scheduler runs a case only when everything it depends on has succeeded: with the waves
  logged, no case is run twice, and each dependency of a case of a wave either was resumed from an
  earlier run or ran in an earlier wave, and its retained result is a success.
\<close>

theorem dag_runs_after_dependencies:
  assumes "from_stage st = Inr plan" "set case_names \<subseteq> set (plan_cases plan)" "set case_names \<inter> set resumed = {}"
    "dag_loop (logged exec) plan ff (w, []) (dag_start case_names resumed reg bnd) = (Inr d, w', waves)"
  shows "distinct (concat waves) \<and> (\<forall>pre wave post. waves = pre @ wave # post \<longrightarrow> (\<forall>n\<in>set wave.
    \<forall>dep\<in>set (deps_of (plan_deps plan) n). dep \<in> set resumed \<or>
      (\<exists>earlier\<in>set pre. dep \<in> set earlier) \<and> (\<exists>r. map_of (ds_results d) dep = Some r \<and> cr_ok r)))"
proof -
  note ord = plan_order_sound[OF assms(1)]
  have "set case_names \<subseteq> set (plan_order plan)" using ord assms(2) by simp
  from dag_loop_ok[OF conjunct1[OF ord] this refl assms(4) dag_start_inv(1)[OF assms(3)]] dag_start_inv(2)[OF assms(3), of plan reg bnd]
  have "schedule_ok plan (set resumed) d waves" by simp
  then show ?thesis unfolding schedule_ok_def ok_cases_def by auto
qed










section \<open>A concrete stage\<close>

definition ex_stage :: stage_decl where
  "ex_stage = \<lparr>decl_name = ''s'', decl_cases = Shaped [''b'', ''a'', ''c''],
     decl_depends_on = Shaped [(''c'', Shaped [''b''])],
     decl_inputs = Shaped [(''b'', Shaped [(''m'', ''a.model'')])]\<rparr>"

definition ex_plan :: dag_plan where
  "ex_plan = projr (from_stage ex_stage)"

definition ex_exec :: "(unit, unit, unit) wave_exec" where
  "ex_exec w reg bnd ready = ((map (\<lambda>n. \<lparr>cr_case = n, cr_status = ''succeeded'', cr_exit_code = 0,
     cr_failure = None\<rparr>) ready, [], 0), w)"

lemma ex_plan: "from_stage ex_stage = Inr ex_plan"
proof -
  have "\<not> isl (from_stage ex_stage)" by code_simp
  then show ?thesis unfolding ex_plan_def by (cases "from_stage ex_stage") auto
qed

lemma plan_is_topological_witness:
  "plan_order ex_plan = [''a'', ''b'', ''c''] \<and> set (plan_order ex_plan) = set (plan_cases ex_plan)"
proof
  show "plan_order ex_plan = [''a'', ''b'', ''c'']" by code_simp
  show "set (plan_order ex_plan) = set (plan_cases ex_plan)" using plan_is_topological[OF ex_plan] by blast
qed

lemma order_iff_acyclic_witness:
  "\<not> acyclic (dep_edges [''a'', ''b''] (deps_of [(''a'', [''b'']), (''b'', [''a''])]))"
proof -
  have "isl (stable_topological_order [''a'', ''b''] [(''a'', [''b'']), (''b'', [''a''])])" by code_simp
  then show ?thesis
    using order_iff_acyclic[of "[''a'', ''b'']" "[(''a'', [''b'']), (''b'', [''a''])]"]
    by (auto simp: deps_of_def split: sum.splits)
qed

lemma dag_runs_after_dependencies_witness:
  "\<exists>d w' waves. dag_loop (logged ex_exec) ex_plan True ((), []) (dag_start [''b'', ''a'', ''c''] [] [] [])
      = (Inr d, w', waves) \<and> waves = [[''a''], [''b''], [''c'']] \<and> distinct (concat waves)"
proof -
  let ?run = "dag_loop (logged ex_exec) ex_plan True ((), []) (dag_start [''b'', ''a'', ''c''] [] [] [])"
  have "\<not> isl (fst ?run)" "snd (snd ?run) = [[''a''], [''b''], [''c'']]" "set [''b'', ''a'', ''c''] \<subseteq> set (plan_cases ex_plan)"
    by code_simp+
  moreover from this(1) obtain d where "?run = (Inr d, fst (snd ?run), snd (snd ?run))"
    by (metis prod.collapse sum.collapse(2))
  ultimately show ?thesis
    using dag_runs_after_dependencies[OF ex_plan, of "[''b'', ''a'', ''c'']" "[]" ex_exec True "()" "[]" "[]"]
    by (metis empty_set inf_bot_right)
qed


end
