(* ===== verification/Task_Model.thy ===== *)
theory Task_Model
  imports Resource_Model
begin

text \<open>
  Tasks of \<open>resources/model.py\<close> and the contract of \<open>resources/transport.py\<close>: envelopes,
  results, records and claims, the life of one task as a state machine, and the facts about
  its moves that the transports share. The payloads that no
  transport reads are \<open>json\<close>; uuids and clock readings are arguments.
\<close>

section \<open>Envelopes, results, records\<close>

record task =
  task_id :: string
  task_type :: string
  task_payload :: json
  task_requirement :: requirement
  task_executor :: string
  input_refs :: "json list"
  output_refs :: "json list"
  parent_task_id :: "string option"
  trace_id :: string
  task_namespace :: string
  max_retries :: int
  task_created_at :: time
  task_metadata :: json

definition task_post_init :: "string \<Rightarrow> time \<Rightarrow> task \<Rightarrow> task" where
  "task_post_init fresh now t = (let i = or_default (task_id t) (''task_'' @ fresh) in t\<lparr>
     task_id := i,
     task_type := or_default (task_type t) ''task'',
     task_executor := or_default (task_executor t) ''auto'',
     trace_id := or_default (trace_id t) i,
     task_namespace := or_default (task_namespace t) ''default'',
     max_retries := max 0 (max_retries t),
     task_created_at := (if task_created_at t = 0 then now else task_created_at t)\<rparr>)"

text \<open>What \<open>TaskEnvelope.__post_init__\<close> establishes.\<close>

definition task_wf :: "task \<Rightarrow> bool" where
  "task_wf t \<longleftrightarrow> task_id t \<noteq> [] \<and> 0 \<le> max_retries t"

lemma task_post_init_wf [simp]: "task_wf (task_post_init fresh now t)"
  by (auto simp: task_wf_def task_post_init_def Let_def or_default_def)

record task_result =
  result_task_id :: string
  result_status :: string
  result_worker :: string
  result_lease :: string
  result_error :: string
  result_started_at :: time
  result_finished_at :: time
  result_body :: json

definition task_result_post_init :: "time \<Rightarrow> task_result \<Rightarrow> task_result" where
  "task_result_post_init now r = r\<lparr>result_status := or_default (result_status r) ''ok'',
     result_finished_at := (if result_finished_at r \<noteq> 0 then result_finished_at r
       else if result_started_at r \<noteq> 0 then now else 0)\<rparr>"

definition result_ok :: "task_result \<Rightarrow> bool" where
  "result_ok r \<longleftrightarrow> py_lower (result_status r) \<in> {''ok'', ''success'', ''completed''}"

definition duration_seconds :: "task_result \<Rightarrow> time option" where
  "duration_seconds r = (if result_started_at r \<le> 0 \<or> result_finished_at r \<le> 0 then None
     else Some (max 0 (result_finished_at r - result_started_at r)))"

definition task_failure :: "time \<Rightarrow> string \<Rightarrow> string \<Rightarrow> string \<Rightarrow> string \<Rightarrow> task_result" where
  "task_failure now i error st w = task_result_post_init now
     \<lparr>result_task_id = i, result_status = st, result_worker = w, result_lease = [], result_error = error,
      result_started_at = 0, result_finished_at = now, result_body = JObj []\<rparr>"

record task_record =
  rec_task :: task
  rec_status :: string
  rec_attempt :: int
  rec_worker :: string
  rec_expires :: time
  rec_result :: "task_result option"
  rec_error :: string
  rec_updated :: time

definition final_states :: "string set" where
  "final_states = {''succeeded'', ''failed'', ''cancelled''}"

definition rec_final :: "'a task_record_scheme \<Rightarrow> bool" where
  "rec_final r \<longleftrightarrow> rec_status r \<in> final_states"

text \<open>A stored record also has the token of its lease.\<close>

record stored_task = task_record +
  rec_token :: string

record claimed =
  claim_task :: task
  claim_worker :: string
  claim_token :: string
  claim_attempt :: int
  claim_expires :: time

text \<open>\<open>max(0.1, float(lease_seconds))\<close>.\<close>

definition lease_span :: "time \<Rightarrow> time" where
  "lease_span secs = max (1 / 10) secs"

lemma lease_span_pos: "0 < lease_span secs"
  by (simp add: lease_span_def max_def)

text \<open>The selection of a claim: the accepted types and namespaces, and the worker's capability.\<close>

definition eligible :: "worker \<Rightarrow> string list \<Rightarrow> string list \<Rightarrow> int \<Rightarrow> task \<Rightarrow> bool" where
  "eligible w types namespaces active t \<longleftrightarrow>
     (let ts = filter (\<lambda>x. x \<noteq> []) types; ns = filter (\<lambda>x. x \<noteq> []) namespaces
      in \<not> (ts \<noteq> [] \<and> task_type t \<notin> set ts) \<and> \<not> (ns \<noteq> [] \<and> task_namespace t \<notin> set ns)
         \<and> can_run w (task_requirement t) (task_executor t) active)"

text \<open>The error of a lapsed lease, with its attempt number.\<close>

definition lapse_error :: "int \<Rightarrow> string" where
  "lapse_error attempt = ''worker lease expired after attempt '' @ nat_string (nat attempt)"

text \<open>The states that the transports write.\<close>

definition queued_task :: "task \<Rightarrow> time \<Rightarrow> stored_task" where
  "queued_task t now = \<lparr>rec_task = t, rec_status = ''queued'', rec_attempt = 0, rec_worker = [],
     rec_expires = 0, rec_result = None, rec_error = [], rec_updated = now, rec_token = []\<rparr>"

definition make_claim :: "task \<Rightarrow> string \<Rightarrow> string \<Rightarrow> int \<Rightarrow> time \<Rightarrow> claimed" where
  "make_claim t w token attempt expires = \<lparr>claim_task = t, claim_worker = w, claim_token = token,
     claim_attempt = attempt, claim_expires = expires\<rparr>"

text \<open>A lease that has run out, and a record with defaults.\<close>

definition row_lapsed :: "time \<Rightarrow> 'a task_record_scheme \<Rightarrow> bool" where
  "row_lapsed now r \<longleftrightarrow> rec_status r = ''leased'' \<and> rec_expires r \<le> now"

definition plain_record :: "task \<Rightarrow> string \<Rightarrow> int \<Rightarrow> string \<Rightarrow> time \<Rightarrow> task_record" where
  "plain_record t st attempt error updated = \<lparr>rec_task = t, rec_status = st, rec_attempt = attempt,
     rec_worker = [], rec_expires = 0, rec_result = None, rec_error = error, rec_updated = updated\<rparr>"

text \<open>
  The durable transports take a lapsed lease back in the same way: the task is queued again while
  it has retries, else it fails. \<open>fin\<close> is the clock reading of the failed result. They also
  finish a claim in the same way.
\<close>

definition lapse_task :: "time \<Rightarrow> time \<Rightarrow> 'a stored_task_scheme \<Rightarrow> 'a stored_task_scheme" where
  "lapse_task fin now r = (let retry = (rec_attempt r \<le> max_retries (rec_task r));
       error = lapse_error (rec_attempt r)
     in r\<lparr>rec_status := (if retry then ''queued'' else ''failed''), rec_worker := [], rec_token := [],
          rec_expires := 0,
          rec_result := (if retry then None else Some (task_failure fin (task_id (rec_task r)) error ''failed'' (rec_worker r))),
          rec_error := error, rec_updated := now\<rparr>)"

definition may_retry :: "bool \<Rightarrow> claimed \<Rightarrow> bool" where
  "may_retry allow cl \<longleftrightarrow> allow \<and> claim_attempt cl \<le> max_retries (claim_task cl)"

definition finish_task :: "bool \<Rightarrow> string \<Rightarrow> task_result \<Rightarrow> time \<Rightarrow> 'a stored_task_scheme \<Rightarrow> 'a stored_task_scheme" where
  "finish_task retry st res now r = r\<lparr>rec_status := (if retry then ''queued'' else st), rec_worker := [],
     rec_token := [], rec_expires := 0, rec_result := (if retry then None else Some res),
     rec_error := result_error res, rec_updated := now\<rparr>"

definition claim_active :: "time \<Rightarrow> claimed \<Rightarrow> 'a stored_task_scheme \<Rightarrow> bool" where
  "claim_active now cl r \<longleftrightarrow> rec_status r = ''leased'' \<and> rec_worker r = claim_worker cl
     \<and> rec_token r = claim_token cl \<and> now < rec_expires r"

section \<open>The life of a task\<close>

text \<open>
  The moves of one task. \<open>durable\<close> tells the two durable transports, which stop retrying when
  the retries are used up and cancel queued tasks only, from the in-memory one. \<open>token\<close> is the
  lease token that a claim may write, \<open>None\<close> for the operations that claim nothing.
\<close>

definition same_task :: "stored_task \<Rightarrow> stored_task \<Rightarrow> bool" where
  "same_task r r' \<longleftrightarrow> rec_task r' = rec_task r"

inductive task_move :: "bool \<Rightarrow> string option \<Rightarrow> stored_task option \<Rightarrow> stored_task option \<Rightarrow> bool"
  for durable token where
  tm_submit: "task_wf t \<Longrightarrow> task_move durable token None (Some (queued_task t now))"
| tm_claim: "rec_status r = ''queued'' \<Longrightarrow> same_task r r' \<Longrightarrow> rec_status r' = ''leased''
    \<Longrightarrow> rec_attempt r' = rec_attempt r + 1 \<Longrightarrow> token = Some (rec_token r')
    \<Longrightarrow> task_move durable token (Some r) (Some r')"
| tm_beat: "rec_status r = ''leased'' \<Longrightarrow> same_task r r' \<Longrightarrow> rec_status r' = ''leased''
    \<Longrightarrow> rec_attempt r' = rec_attempt r \<Longrightarrow> rec_token r' = rec_token r \<Longrightarrow> rec_worker r' = rec_worker r
    \<Longrightarrow> task_move durable token (Some r) (Some r')"
| tm_retry: "rec_status r = ''leased'' \<Longrightarrow> durable \<longrightarrow> rec_attempt r \<le> max_retries (rec_task r) \<Longrightarrow> same_task r r'
    \<Longrightarrow> rec_status r' = ''queued'' \<Longrightarrow> rec_attempt r' = rec_attempt r
    \<Longrightarrow> task_move durable token (Some r) (Some r')"
| tm_finish: "rec_status r = ''leased'' \<Longrightarrow> same_task r r' \<Longrightarrow> rec_status r' \<in> {''succeeded'', ''failed''}
    \<Longrightarrow> rec_attempt r' = rec_attempt r \<Longrightarrow> task_move durable token (Some r) (Some r')"
| tm_cancel: "rec_status r = ''queued'' \<or> \<not> durable \<and> rec_status r = ''leased'' \<Longrightarrow> same_task r r'
    \<Longrightarrow> rec_status r' = ''cancelled'' \<Longrightarrow> rec_attempt r' = rec_attempt r
    \<Longrightarrow> task_move durable token (Some r) (Some r')"

text \<open>One operation moves a task a few times at most: a claim first recovers it, then leases it.\<close>

abbreviation task_moves :: "bool \<Rightarrow> string option \<Rightarrow> stored_task option \<Rightarrow> stored_task option \<Rightarrow> bool" where
  "task_moves durable token \<equiv> (task_move durable token)\<^sup>*\<^sup>*"

text \<open>What holds of every stored task.\<close>

definition task_ok :: "bool \<Rightarrow> stored_task \<Rightarrow> bool" where
  "task_ok durable r \<longleftrightarrow> rec_status r \<in> {''queued'', ''leased'', ''succeeded'', ''failed'', ''cancelled''}
     \<and> task_wf (rec_task r) \<and> 0 \<le> rec_attempt r
     \<and> (durable \<longrightarrow> rec_attempt r \<le> max_retries (rec_task r) + 1
         \<and> (rec_status r = ''queued'' \<longrightarrow> rec_attempt r \<le> max_retries (rec_task r)))"

definition all_opt :: "('a \<Rightarrow> bool) \<Rightarrow> 'a option \<Rightarrow> bool" where
  "all_opt P x \<longleftrightarrow> (case x of None \<Rightarrow> True | Some y \<Rightarrow> P y)"

lemma all_opt_simps [simp]: "all_opt P None" "all_opt P (Some y) = P y"
  by (simp_all add: all_opt_def)

lemma task_move_ok: "task_move durable token x y \<Longrightarrow> all_opt (task_ok durable) x \<Longrightarrow> all_opt (task_ok durable) y"
  by (induction rule: task_move.induct) (auto simp: task_ok_def same_task_def queued_task_def task_wf_def)

lemma task_moves_ok: "task_moves durable token x y \<Longrightarrow> all_opt (task_ok durable) x \<Longrightarrow> all_opt (task_ok durable) y"
  by (induction rule: rtranclp.induct) (blast intro: task_move_ok)+

text \<open>A later state of a task: the envelope stays, attempts only grow, final states stay.\<close>

definition task_le :: "stored_task \<Rightarrow> stored_task \<Rightarrow> bool" where
  "task_le r r' \<longleftrightarrow> rec_task r' = rec_task r \<and> rec_attempt r \<le> rec_attempt r' \<and> (rec_final r \<longrightarrow> r' = r)"

definition task_later :: "stored_task option \<Rightarrow> stored_task option \<Rightarrow> bool" where
  "task_later x y \<longleftrightarrow> (\<forall>r. x = Some r \<longrightarrow> (\<exists>r'. y = Some r' \<and> task_le r r'))"

lemma task_later_refl [simp]: "task_later x x"
  by (simp add: task_later_def task_le_def)

lemma task_later_trans: "task_later x y \<Longrightarrow> task_later y z \<Longrightarrow> task_later x z"
  by (fastforce simp: task_later_def task_le_def)

lemma task_move_later: "task_move durable token x y \<Longrightarrow> task_later x y"
  by (induction rule: task_move.induct)
    (auto simp: task_later_def task_le_def same_task_def rec_final_def final_states_def)

lemma task_moves_later: "task_moves durable token x y \<Longrightarrow> task_later x y"
  by (induction rule: rtranclp.induct) (auto intro: task_move_later task_later_trans)

text \<open>
  \<open>held cl x\<close>: the stored task is leased under the claim's token. \<open>genuine cl x\<close>: when it
  is, the claim is the record's own. Only the claim that writes a token makes it held.
\<close>

definition held :: "claimed \<Rightarrow> stored_task option \<Rightarrow> bool" where
  "held cl x \<longleftrightarrow> (\<exists>r. x = Some r \<and> rec_status r = ''leased'' \<and> rec_token r = claim_token cl)"

definition genuine :: "claimed \<Rightarrow> stored_task option \<Rightarrow> bool" where
  "genuine cl x \<longleftrightarrow> (\<forall>r. x = Some r \<longrightarrow> rec_status r = ''leased'' \<longrightarrow> rec_token r = claim_token cl
     \<longrightarrow> rec_task r = claim_task cl \<and> rec_attempt r = claim_attempt cl \<and> rec_worker r = claim_worker cl)"

lemma task_move_held: "task_move durable token x y \<Longrightarrow> token \<noteq> Some (claim_token cl) \<Longrightarrow> held cl y \<Longrightarrow> held cl x"
  by (induction rule: task_move.induct) (auto simp: held_def queued_task_def)

lemma task_move_genuine:
  "task_move durable token x y \<Longrightarrow> token \<noteq> Some (claim_token cl) \<Longrightarrow> genuine cl x \<Longrightarrow> genuine cl y"
  by (induction rule: task_move.induct) (auto simp: genuine_def same_task_def queued_task_def)

lemma task_moves_held:
  "task_moves durable token x y \<Longrightarrow> token \<noteq> Some (claim_token cl) \<Longrightarrow> held cl y \<Longrightarrow> held cl x"
  by (induction rule: rtranclp.induct) (blast intro: task_move_held)+

lemma task_moves_genuine:
  "task_moves durable token x y \<Longrightarrow> token \<noteq> Some (claim_token cl) \<Longrightarrow> genuine cl x \<Longrightarrow> genuine cl y"
  by (induction rule: rtranclp.induct) (blast intro: task_move_genuine)+

section \<open>Moves of the durable transports\<close>

lemma truncate_fields [simp]:
  fixes r :: "'a stored_task_scheme"
  shows "rec_task (stored_task.truncate r) = rec_task r"
  "rec_status (stored_task.truncate r) = rec_status r" "rec_attempt (stored_task.truncate r) = rec_attempt r"
  "rec_worker (stored_task.truncate r) = rec_worker r" "rec_expires (stored_task.truncate r) = rec_expires r"
  "rec_result (stored_task.truncate r) = rec_result r" "rec_error (stored_task.truncate r) = rec_error r"
  "rec_updated (stored_task.truncate r) = rec_updated r" "rec_token (stored_task.truncate r) = rec_token r"
  by (cases r, simp add: stored_task.truncate_def)+

lemma claim_active_truncate [simp]: "claim_active now cl (stored_task.truncate r) = claim_active now cl r"
  by (simp add: claim_active_def)

lemma lapse_task_simps [simp]: "rec_task (lapse_task fin now r) = rec_task r"
  "rec_attempt (lapse_task fin now r) = rec_attempt r"
  "rec_status (lapse_task fin now r) = (if rec_attempt r \<le> max_retries (rec_task r) then ''queued'' else ''failed'')"
  "rec_token (lapse_task fin now r) = []" "rec_expires (lapse_task fin now r) = 0"
  by (simp_all add: lapse_task_def Let_def)

lemma lapse_task_truncate [simp]: "stored_task.truncate (lapse_task fin now r) = lapse_task fin now (stored_task.truncate r)"
  by (cases r) (simp add: lapse_task_def Let_def stored_task.truncate_def)

lemma lapse_move: "rec_status r = ''leased'' \<Longrightarrow> task_move True token (Some r) (Some (lapse_task fin now r))"
  by (cases "rec_attempt r \<le> max_retries (rec_task r)", rule tm_retry, simp_all add: same_task_def)
    (rule tm_finish, simp_all add: same_task_def)

lemma lapse_moves: "rec_status r = ''leased'' \<Longrightarrow> task_moves True token (Some r) (Some (lapse_task fin now r))"
  by (rule r_into_rtranclp) (rule lapse_move)

lemma finish_task_simps [simp]: "rec_task (finish_task retry st r now x) = rec_task x"
  "rec_attempt (finish_task retry st r now x) = rec_attempt x"
  "rec_status (finish_task retry st r now x) = (if retry then ''queued'' else st)"
  "rec_result (finish_task retry st r now x) = (if retry then None else Some r)"
  by (simp_all add: finish_task_def)

lemma finish_task_truncate [simp]:
  "stored_task.truncate (finish_task retry st r now x) = finish_task retry st r now (stored_task.truncate x)"
  by (cases x) (simp add: finish_task_def stored_task.truncate_def)

text \<open>Finishing under a genuine claim is a move; shared with the Redis transport.\<close>

lemma finish_move:
  assumes "claim_active now cl x" "genuine cl (Some x)" "st \<in> {''succeeded'', ''failed''}"
  shows "task_move True token (Some x) (Some (finish_task (may_retry allow cl) st r now x))"
proof (cases "may_retry allow cl")
  case True
  with assms show ?thesis
    by (intro tm_retry) (auto simp: may_retry_def same_task_def claim_active_def genuine_def)
next
  case False
  with assms show ?thesis
    by (intro tm_finish) (auto simp: same_task_def claim_active_def)
qed

end
