(* ===== verification/Task_Transport.thy ===== *)
theory Task_Transport
  imports Task_Model
begin

text \<open>
  The protocol \<open>TaskTransport\<close> of \<open>resources/transport.py\<close>: its operations, the locale
  \<open>task_transport\<close> with the laws that the three transports are interpretations of, and what
  producers and workers may rely on: they call the operations in any order, each worker with the
  claims that were issued to it. \<open>wait_loop\<close> is the polling loop that the transports share.
\<close>

section \<open>The operations\<close>

text \<open>
  The lease token is the uuid that a claim draws. \<open>c 0\<close>, \<open>c 1\<close>, ... are the clock readings
  of one call.
\<close>

record 's transport =
  tp_submit :: "clock \<Rightarrow> task \<Rightarrow> 's \<Rightarrow> task_record result \<times> 's"
  tp_register :: "clock \<Rightarrow> worker \<Rightarrow> 's \<Rightarrow> worker \<times> 's"
  tp_beat_worker :: "clock \<Rightarrow> string \<Rightarrow> string \<Rightarrow> 's \<Rightarrow> bool \<times> 's"
  tp_claim :: "clock \<Rightarrow> string \<Rightarrow> worker \<Rightarrow> time \<Rightarrow> string list \<Rightarrow> string list \<Rightarrow> 's \<Rightarrow> claimed option \<times> 's"
  tp_heartbeat :: "clock \<Rightarrow> claimed \<Rightarrow> time \<Rightarrow> 's \<Rightarrow> bool \<times> 's"
  tp_complete :: "clock \<Rightarrow> claimed \<Rightarrow> task_result \<Rightarrow> 's \<Rightarrow> task_record result \<times> 's"
  tp_fail :: "clock \<Rightarrow> claimed \<Rightarrow> task_result \<Rightarrow> 's \<Rightarrow> task_record result \<times> 's"
  tp_recover :: "clock \<Rightarrow> 's \<Rightarrow> nat \<times> 's"
  tp_cancel :: "clock \<Rightarrow> string \<Rightarrow> string \<Rightarrow> 's \<Rightarrow> bool \<times> 's"

text \<open>Calls of the clients. A worker refers to the \<open>k\<close>-th claim that was issued.\<close>

datatype task_call =
    Submit string task
  | Register worker
  | Beat_Worker string string
  | Claim worker time "string list" "string list"
  | Heartbeat nat time
  | Complete nat task_result
  | Fail nat task_result
  | Recover
  | Cancel string string

datatype task_reply =
    Task_Reply "task_record result"
  | Worker_Reply worker
  | Bool_Reply bool
  | Claim_Reply "claimed option"
  | Count_Reply nat
  | No_Claim

fun task_step :: "'s transport \<Rightarrow> (nat \<Rightarrow> string) \<Rightarrow> clock \<times> task_call \<Rightarrow> 's \<times> claimed list
    \<Rightarrow> task_reply \<times> 's \<times> claimed list" where
  "task_step T uuid (c, Submit fresh raw) (s, L) = (case tp_submit T c (task_post_init fresh (c 0) raw) s of
     (x, s') \<Rightarrow> (Task_Reply x, s', L))"
| "task_step T uuid (c, Register w) (s, L) = (case tp_register T c w s of (x, s') \<Rightarrow> (Worker_Reply x, s', L))"
| "task_step T uuid (c, Beat_Worker i st) (s, L) = (case tp_beat_worker T c i st s of (x, s') \<Rightarrow> (Bool_Reply x, s', L))"
| "task_step T uuid (c, Claim w secs types namespaces) (s, L) =
     (case tp_claim T c (uuid (length L)) w secs types namespaces s of
       (None, s') \<Rightarrow> (Claim_Reply None, s', L)
     | (Some cl, s') \<Rightarrow> (Claim_Reply (Some cl), s', L @ [cl]))"
| "task_step T uuid (c, Heartbeat k secs) (s, L) = (if length L \<le> k then (No_Claim, s, L)
     else case tp_heartbeat T c (L ! k) secs s of (x, s') \<Rightarrow> (Bool_Reply x, s', L))"
| "task_step T uuid (c, Complete k r) (s, L) = (if length L \<le> k then (No_Claim, s, L)
     else case tp_complete T c (L ! k) r s of (x, s') \<Rightarrow> (Task_Reply x, s', L))"
| "task_step T uuid (c, Fail k r) (s, L) = (if length L \<le> k then (No_Claim, s, L)
     else case tp_fail T c (L ! k) r s of (x, s') \<Rightarrow> (Task_Reply x, s', L))"
| "task_step T uuid (c, Recover) (s, L) = (case tp_recover T c s of (x, s') \<Rightarrow> (Count_Reply x, s', L))"
| "task_step T uuid (c, Cancel i why) (s, L) = (case tp_cancel T c i why s of (x, s') \<Rightarrow> (Bool_Reply x, s', L))"

fun task_run :: "'s transport \<Rightarrow> (nat \<Rightarrow> string) \<Rightarrow> (clock \<times> task_call) list \<Rightarrow> 's \<times> claimed list
    \<Rightarrow> 's \<times> claimed list" where
  "task_run T uuid [] x = x"
| "task_run T uuid (e # es) x = task_run T uuid es (snd (task_step T uuid e x))"

lemma task_run_append: "task_run T uuid (es @ fs) x = task_run T uuid fs (task_run T uuid es x)"
  by (induction es arbitrary: x) simp_all

text \<open>The task that a claim is for, and the replies that accept what a worker did under it.\<close>

abbreviation claim_id :: "claimed \<Rightarrow> string" where
  "claim_id cl \<equiv> task_id (claim_task cl)"

definition acts_on :: "nat \<Rightarrow> task_call \<Rightarrow> bool" where
  "acts_on k e \<longleftrightarrow> (case e of Heartbeat j _ \<Rightarrow> j = k | Complete j _ \<Rightarrow> j = k | Fail j _ \<Rightarrow> j = k | _ \<Rightarrow> False)"

definition finishes :: "nat \<Rightarrow> task_call \<Rightarrow> bool" where
  "finishes k e \<longleftrightarrow> (case e of Complete j _ \<Rightarrow> j = k | Fail j _ \<Rightarrow> j = k | _ \<Rightarrow> False)"

definition accepted :: "task_reply \<Rightarrow> bool" where
  "accepted x \<longleftrightarrow> (case x of Task_Reply (Inr _) \<Rightarrow> True | Bool_Reply b \<Rightarrow> b | _ \<Rightarrow> False)"

section \<open>The polling loop\<close>

text \<open>
  \<open>wait_result\<close>: each round recovers (the durable transports), looks the task up and reads the
  monotonic clock; what the others do while it sleeps is part of the round. \<open>None\<close>: the rounds
  given are over and it still waits. \<open>Some (Inr None)\<close> is a timeout.
\<close>

definition wait_deadline :: "time option \<Rightarrow> time \<Rightarrow> time option" where
  "wait_deadline timeout start = (case timeout of None \<Rightarrow> None | Some x \<Rightarrow> Some (start + max 0 x))"

fun wait_loop :: "(clock \<Rightarrow> 's \<Rightarrow> 's) \<Rightarrow> (string \<Rightarrow> 's \<Rightarrow> task_record option) \<Rightarrow> string \<Rightarrow> time option
    \<Rightarrow> (clock \<times> time \<times> ('s \<Rightarrow> 's)) list \<Rightarrow> 's \<Rightarrow> task_result option result option \<times> 's" where
  "wait_loop recover get i deadline [] s = (None, s)"
| "wait_loop recover get i deadline ((c, now, others) # rounds) s = (let s1 = recover c s in
     case get i s1 of
       None \<Rightarrow> (Some (Inl TaskTransportError), s1)
     | Some r \<Rightarrow> if rec_final r then (Some (Inr (rec_result r)), s1)
         else case deadline of
           Some d \<Rightarrow> if d \<le> now then (Some (Inr None), s1) else wait_loop recover get i deadline rounds (others s1)
         | None \<Rightarrow> wait_loop recover get i deadline rounds (others s1))"

section \<open>The contract\<close>

definition evolves :: "('s \<Rightarrow> bool) \<Rightarrow> ('s \<Rightarrow> string \<Rightarrow> stored_task option) \<Rightarrow> bool \<Rightarrow> string option
    \<Rightarrow> 's \<Rightarrow> 's \<Rightarrow> bool" where
  "evolves I view durable token s s' \<longleftrightarrow> I s' \<and> (\<forall>i. task_moves durable token (view s i) (view s' i))"

lemma evolves_refl [simp]: "evolves I view durable token s s \<longleftrightarrow> I s"
  by (simp add: evolves_def)

lemma evolves_trans:
  "evolves I view durable token a b \<Longrightarrow> evolves I view durable token b c \<Longrightarrow> evolves I view durable token a c"
  unfolding evolves_def by (blast intro: rtranclp_trans)

text \<open>An operation that claims nothing makes moves that a claiming one may make, too.\<close>

lemma task_moves_token: "task_moves durable None x y \<Longrightarrow> task_moves durable token x y"
proof (induction rule: rtranclp.induct)
  case (rtrancl_into_rtrancl a b c)
  have "task_move durable token b c"
    using rtrancl_into_rtrancl.hyps(2) by (cases rule: task_move.cases) (auto intro: task_move.intros)
  then show ?case using rtrancl_into_rtrancl.IH by (rule rtranclp.rtrancl_into_rtrancl[rotated])
qed simp

lemma evolves_token: "evolves I view durable None s s' \<Longrightarrow> evolves I view durable token s s'"
  by (simp add: evolves_def task_moves_token)

lemma evolves_single:
  assumes "I s'" "\<And>j. j \<noteq> i \<Longrightarrow> view s' j = view s j" "task_moves durable token (view s i) (view s' i)"
  shows "evolves I view durable token s s'"
  unfolding evolves_def
proof (intro conjI allI)
  show "task_moves durable token (view s j) (view s' j)" for j
    using assms(2)[of j] assms(3) by (cases "j = i") simp_all
qed (rule assms(1))

text \<open>A claim as it was issued: the record holds its worker, its attempt, its token.\<close>

definition issued :: "claimed \<Rightarrow> stored_task option \<Rightarrow> bool" where
  "issued cl x \<longleftrightarrow> (\<exists>r. x = Some r \<and> rec_status r = ''leased'' \<and> rec_token r = claim_token cl
     \<and> rec_task r = claim_task cl \<and> rec_attempt r = claim_attempt cl \<and> rec_worker r = claim_worker cl)"

locale task_transport =
  fixes T :: "'s transport" and init :: 's and inv :: "'s \<Rightarrow> bool"
    and view :: "'s \<Rightarrow> string \<Rightarrow> stored_task option" and durable :: bool
  assumes init: "inv init" "view init i = None"
    and submit: "inv s \<Longrightarrow> task_wf t \<Longrightarrow> evolves inv view durable None s (snd (tp_submit T c t s))"
    and register: "inv s \<Longrightarrow> evolves inv view durable None s (snd (tp_register T c w s))"
    and beat_worker: "inv s \<Longrightarrow> evolves inv view durable None s (snd (tp_beat_worker T c j st s))"
    and claim: "inv s \<Longrightarrow> evolves inv view durable (Some token) s (snd (tp_claim T c token w secs types nss s))"
    and claim_issued: "inv s \<Longrightarrow> tp_claim T c token w secs types nss s = (Some cl, s')
        \<Longrightarrow> claim_token cl = token \<and> issued cl (view s' (claim_id cl))"
    and heartbeat: "inv s \<Longrightarrow> genuine cl (view s (claim_id cl))
        \<Longrightarrow> evolves inv view durable None s (snd (tp_heartbeat T c cl secs s))"
    and heartbeat_held: "inv s \<Longrightarrow> fst (tp_heartbeat T c cl secs s) \<Longrightarrow> held cl (view s (claim_id cl))"
    and complete: "inv s \<Longrightarrow> genuine cl (view s (claim_id cl))
        \<Longrightarrow> evolves inv view durable None s (snd (tp_complete T c cl r s))"
    and complete_held: "inv s \<Longrightarrow> tp_complete T c cl r s = (Inr x, s')
        \<Longrightarrow> held cl (view s (claim_id cl)) \<and> \<not> held cl (view s' (claim_id cl))"
    and fail: "inv s \<Longrightarrow> genuine cl (view s (claim_id cl))
        \<Longrightarrow> evolves inv view durable None s (snd (tp_fail T c cl r s))"
    and fail_held: "inv s \<Longrightarrow> tp_fail T c cl r s = (Inr x, s')
        \<Longrightarrow> held cl (view s (claim_id cl)) \<and> \<not> held cl (view s' (claim_id cl))"
    and recover: "inv s \<Longrightarrow> evolves inv view durable None s (snd (tp_recover T c s))"
    and cancel: "inv s \<Longrightarrow> evolves inv view durable None s (snd (tp_cancel T c j why s))"
begin

lemma call_evolves:
  assumes "inv s" "\<forall>cl\<in>set L. genuine cl (view s (claim_id cl))"
    and "task_step T uuid e (s, L) = (x, s', L')"
  shows "evolves inv view durable (Some (uuid (length L))) s s'"
proof (cases e)
  case (Pair c call)
  have gen: "k < length L \<Longrightarrow> genuine (L ! k) (view s (claim_id (L ! k)))" for k
    using assms(2) by simp
  from assms(3) show ?thesis unfolding Pair
    using assms(1) submit[OF assms(1), THEN evolves_token, of "task_post_init f t w" for f t w]
      register[OF assms(1), THEN evolves_token] beat_worker[OF assms(1), THEN evolves_token]
      claim[OF assms(1)] heartbeat[OF assms(1) gen, THEN evolves_token]
      complete[OF assms(1) gen, THEN evolves_token] fail[OF assms(1) gen, THEN evolves_token]
      recover[OF assms(1), THEN evolves_token] cancel[OF assms(1), THEN evolves_token]
    by (cases call) (auto split: prod.splits option.splits if_splits, (metis not_le snd_conv)+)
qed

lemma call_issues:
  assumes "inv s" "task_step T uuid e (s, L) = (x, s', L')"
  shows "L' = L \<or> (\<exists>cl. L' = L @ [cl] \<and> claim_token cl = uuid (length L) \<and> issued cl (view s' (claim_id cl)))"
proof (cases e)
  case (Pair c call)
  from assms(2) show ?thesis unfolding Pair using claim_issued[OF assms(1)]
    by (cases call) (auto split: prod.splits option.splits if_splits)
qed

text \<open>
  What a run keeps: the records are in order; every claim issued has its own token, is genuine,
  and no longer held once a later claim for the same task was issued.
\<close>

definition sound :: "(nat \<Rightarrow> string) \<Rightarrow> 's \<times> claimed list \<Rightarrow> bool" where
  "sound uuid x \<longleftrightarrow> (case x of (s, L) \<Rightarrow> inv s \<and> (\<forall>i. all_opt (task_ok durable) (view s i))
     \<and> (\<forall>k<length L. claim_token (L ! k) = uuid k)
     \<and> (\<forall>cl\<in>set L. genuine cl (view s (claim_id cl)))
     \<and> (\<forall>k<length L. \<forall>j<k. claim_id (L ! j) = claim_id (L ! k) \<longrightarrow> \<not> held (L ! j) (view s (claim_id (L ! j)))))"

lemma sound_init: "sound uuid (init, [])"
  by (simp add: sound_def init)

lemma sound_step:
  assumes "inj uuid" "sound uuid (s, L)" "task_step T uuid e (s, L) = (x, s', L')"
  shows "sound uuid (s', L')"
proof -
  let ?tk = "Some (uuid (length L))"
  have inv: "inv s" and gen: "\<forall>cl\<in>set L. genuine cl (view s (claim_id cl))"
    and tok: "\<forall>k<length L. claim_token (L ! k) = uuid k"
    and dead: "\<And>j k. k < length L \<Longrightarrow> j < k \<Longrightarrow> claim_id (L ! j) = claim_id (L ! k)
      \<Longrightarrow> \<not> held (L ! j) (view s (claim_id (L ! j)))"
    and rec: "\<And>i. all_opt (task_ok durable) (view s i)"
    using assms(2) by (auto simp: sound_def)
  from call_evolves[OF inv gen assms(3)] have inv': "inv s'"
    and mv: "\<And>i. task_moves durable ?tk (view s i) (view s' i)" by (auto simp: evolves_def)
  have rec': "\<forall>i. all_opt (task_ok durable) (view s' i)"
    using task_moves_ok[OF mv rec] by blast
  have ne: "k < length L \<Longrightarrow> ?tk \<noteq> Some (claim_token (L ! k))" for k
    using tok injD[OF assms(1), of "length L" k] by auto
  have gen': "\<forall>cl\<in>set L. genuine cl (view s' (claim_id cl))"
    using task_moves_genuine[OF mv] ne gen by (metis in_set_conv_nth)
  have dead': "\<not> held (L ! j) (view s' (claim_id (L ! j)))"
    if "k < length L" "j < k" "claim_id (L ! j) = claim_id (L ! k)" for j k
    using task_moves_held[OF mv ne] dead[OF that] that by (meson less_trans)
  from call_issues[OF inv assms(3)] consider "L' = L"
    | cl where "L' = L @ [cl]" "claim_token cl = uuid (length L)" "issued cl (view s' (claim_id cl))" by blast
  then show ?thesis
  proof cases
    case 1
    then show ?thesis using inv' rec' tok gen' dead' by (auto simp: sound_def)
  next
    case 2
    have new: "\<not> held (L ! j) (view s' (claim_id (L ! j)))" if "j < length L" "claim_id (L ! j) = claim_id cl" for j
      using ne[OF that(1)] 2(2,3) that(2) by (auto simp: issued_def held_def)
    have "genuine cl (view s' (claim_id cl))" using 2(3) by (auto simp: issued_def genuine_def)
    then show ?thesis using 2(1,2) inv' rec' tok gen' dead' new
      by (auto simp: sound_def nth_append less_Suc_eq)
  qed
qed

lemma sound_step':
  "inj uuid \<Longrightarrow> sound uuid x \<Longrightarrow> sound uuid (snd (task_step T uuid e x))"
  using sound_step by (metis prod.collapse)

lemma sound_run: "inj uuid \<Longrightarrow> sound uuid x \<Longrightarrow> sound uuid (task_run T uuid es x)"
  by (induction es arbitrary: x) (simp_all add: sound_step')

lemma step_moves:
  assumes "sound uuid x"
  shows "task_moves durable (Some (uuid (length (snd x)))) (view (fst x) i) (view (fst (snd (task_step T uuid e x))) i)"
proof -
  obtain s L where x: "x = (s, L)" by (cases x)
  obtain y s' L' where st: "task_step T uuid e (s, L) = (y, s', L')" by (metis prod.collapse)
  show ?thesis using call_evolves[OF _ _ st] assms by (auto simp: sound_def x st evolves_def)
qed

text \<open>Over any run a task keeps its envelope, its attempts grow, and a final state stays.\<close>

lemma run_later:
  assumes "inj uuid" "sound uuid x"
  shows "task_later (view (fst x) i) (view (fst (task_run T uuid es x)) i)"
  using assms(2)
proof (induction es arbitrary: x)
  case (Cons e es)
  have "task_later (view (fst x) i) (view (fst (snd (task_step T uuid e x))) i)"
    by (rule task_moves_later[OF step_moves[OF Cons.prems]])
  then show ?case
    unfolding task_run.simps by (rule task_later_trans[OF _ Cons.IH[OF sound_step'[OF assms(1) Cons.prems]]])
qed simp

text \<open>The claims issued are never withdrawn.\<close>

lemma step_claims: "sound uuid x \<Longrightarrow> \<exists>ys. snd (snd (task_step T uuid e x)) = snd x @ ys"
proof -
  assume x: "sound uuid x"
  obtain s L where p: "x = (s, L)" by (cases x)
  obtain y s' L' where st: "task_step T uuid e (s, L) = (y, s', L')" by (metis prod.collapse)
  show ?thesis using call_issues[OF _ st] x by (auto simp: sound_def p st)
qed

lemma run_claims:
  "inj uuid \<Longrightarrow> sound uuid x \<Longrightarrow> \<exists>ys. snd (task_run T uuid es x) = snd x @ ys"
proof (induction es arbitrary: x)
  case (Cons e es)
  obtain ys zs where "snd (snd (task_step T uuid e x)) = snd x @ ys"
    "snd (task_run T uuid es (snd (task_step T uuid e x))) = snd (snd (task_step T uuid e x)) @ zs"
    using step_claims[OF Cons.prems(2)] Cons.IH[OF Cons.prems(1) sound_step'[OF Cons.prems]] by blast
  then show ?case by simp
qed simp

text \<open>A claim that is no longer held is never held again, and nothing done under it is accepted.\<close>

lemma run_dead:
  assumes "inj uuid" "sound uuid x" "k < length (snd x)" "\<not> held (snd x ! k) (view (fst x) i)"
  shows "\<not> held (snd x ! k) (view (fst (task_run T uuid es x)) i)"
  using assms(2-)
proof (induction es arbitrary: x)
  case (Cons e es)
  let ?y = "snd (task_step T uuid e x)"
  obtain ys where ys: "snd ?y = snd x @ ys" using step_claims[OF Cons.prems(1)] by blast
  have "Some (uuid (length (snd x))) \<noteq> Some (claim_token (snd x ! k))"
    using Cons.prems(1,2) injD[OF assms(1), of "length (snd x)" k] by (auto simp: sound_def)
  then have "\<not> held (snd x ! k) (view (fst ?y) i)"
    using task_moves_held[OF step_moves[OF Cons.prems(1)]] Cons.prems(3) by blast
  moreover have "snd ?y ! k = snd x ! k" "k < length (snd ?y)" using Cons.prems(2) by (simp_all add: ys nth_append)
  ultimately show ?case
    using Cons.IH[OF sound_step'[OF assms(1) Cons.prems(1)]] by (metis task_run.simps(2))
qed simp

lemma accepted_held:
  assumes "sound uuid x" "acts_on k e \<or> finishes k e" "accepted (fst (task_step T uuid (c, e) x))"
  shows "k < length (snd x) \<and> held (snd x ! k) (view (fst x) (claim_id (snd x ! k)))
    \<and> (finishes k e \<longrightarrow> \<not> held (snd x ! k) (view (fst (snd (task_step T uuid (c, e) x))) (claim_id (snd x ! k))))"
proof (cases x)
  case (Pair s L)
  have "inv s" using assms(1) by (simp add: sound_def Pair)
  from assms(2,3) show ?thesis unfolding Pair
    using complete_held[OF \<open>inv s\<close>] fail_held[OF \<open>inv s\<close>] heartbeat_held[OF \<open>inv s\<close>]
    by (cases e) (auto simp: acts_on_def finishes_def accepted_def split: if_splits prod.splits sum.splits,
        (metis fst_conv)+)
qed

text \<open>Only the last claim of a task is accepted: an earlier worker cannot interfere.\<close>

lemma superseded:
  assumes "inj uuid" "x = task_run T uuid es (init, [])" "j < k" "k < length (snd x)"
    "claim_id (snd x ! j) = claim_id (snd x ! k)" "acts_on j e"
  shows "\<not> accepted (fst (task_step T uuid (c, e) x))"
  using sound_run[OF assms(1) sound_init, of es, folded assms(2)] accepted_held[of uuid x j e c] assms(3-6)
  by (auto simp: sound_def split: prod.splits)

text \<open>And what is done under a claim is accepted until it is finished, once.\<close>

lemma finished_once:
  assumes "inj uuid" "x = task_run T uuid es (init, [])" "finishes k e"
    "accepted (fst (task_step T uuid (c, e) x))" "y = task_run T uuid fs (snd (task_step T uuid (c, e) x))"
    "acts_on k e'"
  shows "\<not> accepted (fst (task_step T uuid (c', e') y))"
proof -
  let ?z = "snd (task_step T uuid (c, e) x)"
  have sx: "sound uuid x" using sound_run[OF assms(1) sound_init] assms(2) by simp
  have sz: "sound uuid ?z" by (rule sound_step'[OF assms(1) sx])
  have acc: "k < length (snd x)" "\<not> held (snd x ! k) (view (fst ?z) (claim_id (snd x ! k)))"
    using accepted_held[OF sx _ assms(4)] assms(3) by blast+
  obtain ys zs where "snd ?z = snd x @ ys" "snd y = snd ?z @ zs"
    using step_claims[OF sx] run_claims[OF assms(1) sz] assms(5) by blast
  then have same: "snd ?z ! k = snd x ! k" "snd y ! k = snd x ! k" "k < length (snd ?z)"
    using acc(1) by (auto simp: nth_append)
  have "\<not> held (snd y ! k) (view (fst y) (claim_id (snd y ! k)))"
    using run_dead[OF assms(1) sz same(3)] acc(2) assms(5) same by simp
  moreover have "sound uuid y" using sound_run[OF assms(1) sz] assms(5) by simp
  ultimately show ?thesis using accepted_held assms(6) by blast
qed

lemma run_attempts:
  assumes "inj uuid" "view (fst (task_run T uuid es (init, []))) i = Some r"
  shows "task_ok durable r"
  using sound_run[OF assms(1) sound_init, of es] assms(2)
  by (auto simp: sound_def all_opt_def split: prod.splits option.splits)

end

end
