(* ===== verification/Task_SQLite.thy ===== *)
theory Task_SQLite
  imports Task_Transport "HOL-Library.List_Lexorder" "HOL-Library.Char_ord" "HOL-Library.Product_Lexorder"
begin

text \<open>
  \<open>SQLiteTaskTransport\<close> of \<open>resources/transport.py\<close>: the tables \<open>tasks\<close> and
  \<open>workers\<close>. Each operation is one transaction, so one step (a claim registers the worker in a
  transaction of its own first). The stored JSON of an envelope is the envelope, and the key column
  is its identifier.
\<close>

record task_row = stored_task +
  row_created_at :: time

record worker_row =
  wr_id :: string
  wr_descriptor :: worker
  wr_status :: string
  wr_last :: time

record task_db =
  task_rows :: "task_row list"
  worker_rows :: "worker_row list"

abbreviation row_id :: "'a task_record_scheme \<Rightarrow> string" where
  "row_id r \<equiv> task_id (rec_task r)"

definition sqt_init :: task_db where
  "sqt_init = \<lparr>task_rows = [], worker_rows = []\<rparr>"

definition queued_row :: "task \<Rightarrow> time \<Rightarrow> task_row" where
  "queued_row t now = stored_task.extend (queued_task t now) (task_row.fields now)"

definition sqt_get :: "string \<Rightarrow> task_db \<Rightarrow> task_record option" where
  "sqt_get i db = map_option task_record.truncate (find (\<lambda>r. row_id r = i) (task_rows db))"

definition sqt_submit :: "clock \<Rightarrow> task \<Rightarrow> task_db \<Rightarrow> task_record result \<times> task_db" where
  "sqt_submit c t db = (let now = c 0 in
     case find (\<lambda>r. row_id r = task_id t) (task_rows db) of
       Some r \<Rightarrow> if rec_task r \<noteq> t then (Inl TaskTransportError, db)
         else (case sqt_get (task_id t) db of None \<Rightarrow> (Inl TaskTransportError, db) | Some x \<Rightarrow> (Inr x, db))
     | None \<Rightarrow> let db1 = db\<lparr>task_rows := task_rows db @ [queued_row t now]\<rparr> in
         (case sqt_get (task_id t) db1 of None \<Rightarrow> (Inl TaskTransportError, db1) | Some x \<Rightarrow> (Inr x, db1)))"

definition worker_row_of :: "worker \<Rightarrow> worker_row" where
  "worker_row_of d = \<lparr>wr_id = worker_id d, wr_descriptor = d, wr_status = worker_status d, wr_last = last_heartbeat_at d\<rparr>"

definition sqt_register :: "clock \<Rightarrow> worker \<Rightarrow> task_db \<Rightarrow> worker \<times> task_db" where
  "sqt_register c w db = (let d = worker_heartbeat ''online'' (c 0) w; x = worker_row_of d;
       same = (\<lambda>y. wr_id y = wr_id x)
     in (d, db\<lparr>worker_rows := if list_ex same (worker_rows db) then tbl_update same (\<lambda>_. x) (worker_rows db)
                 else worker_rows db @ [x]\<rparr>))"

definition sqt_beat_worker :: "clock \<Rightarrow> string \<Rightarrow> string \<Rightarrow> task_db \<Rightarrow> bool \<times> task_db" where
  "sqt_beat_worker c i st db = (let now = c 0 in
     case find (\<lambda>y. wr_id y = i) (worker_rows db) of
       None \<Rightarrow> (False, db)
     | Some y \<Rightarrow> let d = worker_heartbeat st now (wr_descriptor y) in
         (True, db\<lparr>worker_rows := tbl_update (\<lambda>y. wr_id y = worker_id d)
            (\<lambda>y. y\<lparr>wr_descriptor := d, wr_status := worker_status d, wr_last := now\<rparr>) (worker_rows db)\<rparr>))"

definition sqt_list_workers :: "time option \<Rightarrow> time \<Rightarrow> task_db \<Rightarrow> worker list" where
  "sqt_list_workers max_age now db = map wr_descriptor (filter
     (\<lambda>y. case max_age of None \<Rightarrow> True | Some age \<Rightarrow> \<not> now - wr_last y > age)
     (sort_key wr_id (worker_rows db)))"

text \<open>The lapsed rows are taken back one by one; the \<open>n\<close>-th failure reads the clock again.\<close>

fun recover_rows :: "clock \<Rightarrow> nat \<Rightarrow> time \<Rightarrow> task_row list \<Rightarrow> nat \<times> task_row list" where
  "recover_rows c n now [] = (0, [])"
| "recover_rows c n now (r # rows) = (if row_lapsed now r
     then (case recover_rows c (Suc n) now rows of (k, rows') \<Rightarrow> (Suc k, lapse_task (c n) now r # rows'))
     else (case recover_rows c n now rows of (k, rows') \<Rightarrow> (k, r # rows')))"

definition sqt_recover_locked :: "clock \<Rightarrow> nat \<Rightarrow> time \<Rightarrow> task_db \<Rightarrow> nat \<times> task_db" where
  "sqt_recover_locked c n now db = (case recover_rows c n now (task_rows db) of
     (k, rows) \<Rightarrow> (k, db\<lparr>task_rows := rows\<rparr>))"

definition sqt_recover :: "clock \<Rightarrow> task_db \<Rightarrow> nat \<times> task_db" where
  "sqt_recover c db = sqt_recover_locked c 1 (c 0) db"

definition sqt_queue :: "task_db \<Rightarrow> task_row list" where
  "sqt_queue db = sort_key (\<lambda>r. (row_created_at r, row_id r))
     (filter (\<lambda>r. rec_status r = ''queued'') (task_rows db))"

definition sqt_active :: "string \<Rightarrow> task_db \<Rightarrow> int" where
  "sqt_active w db = int (tbl_count (\<lambda>r. rec_status r = ''leased'' \<and> rec_worker r = w) (task_rows db))"

definition sqt_claim :: "clock \<Rightarrow> string \<Rightarrow> worker \<Rightarrow> time \<Rightarrow> string list \<Rightarrow> string list \<Rightarrow> task_db
    \<Rightarrow> claimed option \<times> task_db" where
  "sqt_claim c token w secs types namespaces db =
     (let (d, db0) = sqt_register c w db;
          now = c 1;
          db1 = snd (sqt_recover_locked c 2 now db0);
          active = sqt_active (worker_id d) db1
      in if active \<ge> max_inflight d then (None, db1)
         else case find (\<lambda>r. eligible d types namespaces active (rec_task r)) (sqt_queue db1) of
           None \<Rightarrow> (None, db1)
         | Some r \<Rightarrow>
             let attempt = rec_attempt r + 1; expires = now + lease_span secs;
                 P = (\<lambda>x. row_id x = row_id r \<and> rec_status x = ''queued'')
             in if tbl_count P (task_rows db1) \<noteq> 1 then (None, db0)
                else (Some (make_claim (rec_task r) (worker_id d) token attempt expires),
                  db1\<lparr>task_rows := tbl_update P (\<lambda>x. x\<lparr>rec_status := ''leased'', rec_attempt := attempt,
                    rec_worker := worker_id d, rec_token := token, rec_expires := expires,
                    rec_updated := now\<rparr>) (task_rows db1)\<rparr>))"

definition sqt_heartbeat :: "clock \<Rightarrow> claimed \<Rightarrow> time \<Rightarrow> task_db \<Rightarrow> bool \<times> task_db" where
  "sqt_heartbeat c cl secs db = (let now = c 0; expires = now + lease_span secs;
       P = (\<lambda>r. row_id r = claim_id cl \<and> claim_active now cl r)
     in (tbl_count P (task_rows db) = 1,
         db\<lparr>task_rows := tbl_update P (\<lambda>r. r\<lparr>rec_expires := expires, rec_updated := now\<rparr>) (task_rows db)\<rparr>))"

definition sqt_finish :: "clock \<Rightarrow> claimed \<Rightarrow> task_result \<Rightarrow> string \<Rightarrow> bool \<Rightarrow> task_db
    \<Rightarrow> task_record result \<times> task_db" where
  "sqt_finish c cl r st allow_retry db = (let now = c 0; retry = may_retry allow_retry cl;
       P = (\<lambda>x. row_id x = claim_id cl \<and> claim_active now cl x);
       db1 = db\<lparr>task_rows := tbl_update P (finish_task retry st r now) (task_rows db)\<rparr>
     in if tbl_count P (task_rows db) \<noteq> 1 then (Inl TaskLeaseError, db)
        else case sqt_get (claim_id cl) db1 of None \<Rightarrow> (Inl TaskTransportError, db1) | Some x \<Rightarrow> (Inr x, db1))"

definition sqt_complete :: "clock \<Rightarrow> claimed \<Rightarrow> task_result \<Rightarrow> task_db \<Rightarrow> task_record result \<times> task_db" where
  "sqt_complete c cl r db = (if result_task_id r \<noteq> claim_id cl then (Inl TaskLeaseError, db)
     else if \<not> result_ok r then (Inl TaskTransportError, db)
     else sqt_finish c cl r ''succeeded'' False db)"

definition sqt_fail :: "clock \<Rightarrow> claimed \<Rightarrow> task_result \<Rightarrow> task_db \<Rightarrow> task_record result \<times> task_db" where
  "sqt_fail c cl r db = (if result_task_id r \<noteq> claim_id cl then (Inl TaskLeaseError, db)
     else if result_ok r then (Inl TaskTransportError, db)
     else sqt_finish c cl r ''failed'' True db)"

definition sqt_cancel :: "clock \<Rightarrow> string \<Rightarrow> string \<Rightarrow> task_db \<Rightarrow> bool \<times> task_db" where
  "sqt_cancel c i why db = (let res = task_failure (c 0) i why ''cancelled'' []; now = c 1;
       P = (\<lambda>r. row_id r = i \<and> rec_status r = ''queued'')
     in (tbl_count P (task_rows db) = 1,
         db\<lparr>task_rows := tbl_update P (\<lambda>r. r\<lparr>rec_status := ''cancelled'', rec_result := Some res,
           rec_error := why, rec_updated := now\<rparr>) (task_rows db)\<rparr>))"

definition sqt_counts :: "task_db \<Rightarrow> string \<Rightarrow> nat option" where
  "sqt_counts db st = (let n = tbl_count (\<lambda>r. rec_status r = st) (task_rows db) in if n = 0 then None else Some n)"

definition sqt_wait_result :: "string \<Rightarrow> time option \<Rightarrow> time \<Rightarrow> (clock \<times> time \<times> (task_db \<Rightarrow> task_db)) list
    \<Rightarrow> task_db \<Rightarrow> task_result option result option \<times> task_db" where
  "sqt_wait_result i timeout start = wait_loop (\<lambda>c db. snd (sqt_recover c db)) sqt_get i (wait_deadline timeout start)"

definition sqt :: "task_db transport" where
  "sqt = \<lparr>tp_submit = sqt_submit, tp_register = sqt_register, tp_beat_worker = sqt_beat_worker,
     tp_claim = sqt_claim, tp_heartbeat = sqt_heartbeat, tp_complete = sqt_complete, tp_fail = sqt_fail,
     tp_recover = sqt_recover, tp_cancel = sqt_cancel\<rparr>"

section \<open>The transport is a task transport\<close>

definition sqt_inv :: "task_db \<Rightarrow> bool" where
  "sqt_inv db \<longleftrightarrow> distinct (map row_id (task_rows db))"

definition sqt_view :: "task_db \<Rightarrow> string \<Rightarrow> stored_task option" where
  "sqt_view db i = map_option stored_task.truncate (find (\<lambda>r. row_id r = i) (task_rows db))"

lemma truncate_queued_row [simp]: "stored_task.truncate (queued_row t now) = queued_task t now"
  by (simp add: queued_row_def stored_task.truncate_def stored_task.extend_def task_row.fields_def queued_task_def)

lemma queued_row_task [simp]: "rec_task (queued_row t now) = t"
  using truncate_fields(1)[of "queued_row t now"] by (simp add: queued_task_def del: truncate_fields)

lemma sqt_viewD: "sqt_view db i = Some x \<Longrightarrow> \<exists>r\<in>set (task_rows db). row_id r = i \<and> x = stored_task.truncate r"
  by (auto simp: sqt_view_def dest!: find_SomeD)

lemma sqt_view_row: "sqt_inv db \<Longrightarrow> r \<in> set (task_rows db) \<Longrightarrow> sqt_view db (row_id r) = Some (stored_task.truncate r)"
  using find_Some_iff_key[of row_id "task_rows db" "row_id r" r] by (simp add: sqt_inv_def sqt_view_def)

lemma find_tbl_update:
  "(\<And>r. P r \<Longrightarrow> key (f r) = key r) \<Longrightarrow>
   find (\<lambda>r. key r = i) (tbl_update P f rows) = map_option (\<lambda>r. if P r then f r else r) (find (\<lambda>r. key r = i) rows)"
  by (induction rows) auto

lemma sqt_update_view:
  assumes "\<And>r. P r \<Longrightarrow> rec_task (f r) = rec_task r"
  shows "sqt_view (db\<lparr>task_rows := tbl_update P f (task_rows db)\<rparr>) i
    = map_option (\<lambda>r. stored_task.truncate (if P r then f r else r)) (find (\<lambda>r. row_id r = i) (task_rows db))"
  using find_tbl_update[of P row_id f i "task_rows db"] assms
  by (simp add: sqt_view_def option.map_comp comp_def)

lemma sqt_update_evolves:
  assumes "sqt_inv db" "\<And>r. P r \<Longrightarrow> rec_task (f r) = rec_task r"
    and "\<And>r. r \<in> set (task_rows db) \<Longrightarrow> P r
      \<Longrightarrow> task_move True token (Some (stored_task.truncate r)) (Some (stored_task.truncate (f r)))"
  shows "evolves sqt_inv sqt_view True token db (db\<lparr>task_rows := tbl_update P f (task_rows db)\<rparr>)"
  unfolding evolves_def
proof (intro conjI allI)
  show "sqt_inv (db\<lparr>task_rows := tbl_update P f (task_rows db)\<rparr>)"
    using assms(1) map_tbl_update_same[of P row_id f "task_rows db"] assms(2) by (simp add: sqt_inv_def)
  show "task_moves True token (sqt_view db i) (sqt_view (db\<lparr>task_rows := tbl_update P f (task_rows db)\<rparr>) i)" for i
  proof (cases "find (\<lambda>r. row_id r = i) (task_rows db)")
    case None
    then have "sqt_view (db\<lparr>task_rows := tbl_update P f (task_rows db)\<rparr>) i = None" "sqt_view db i = None"
      using sqt_update_view[of P f, OF assms(2)] by (simp_all add: sqt_view_def)
    then show ?thesis by simp
  next
    case (Some r)
    then have "sqt_view (db\<lparr>task_rows := tbl_update P f (task_rows db)\<rparr>) i
        = Some (stored_task.truncate (if P r then f r else r))" "sqt_view db i = Some (stored_task.truncate r)"
      using sqt_update_view[of P f, OF assms(2)] by (simp_all add: sqt_view_def)
    then show ?thesis using assms(3)[of r] find_SomeD[OF Some] by auto
  qed
qed

lemma recover_rows_ids: "map row_id (snd (recover_rows c n now rows)) = map row_id rows"
  by (induction rows arbitrary: n) (simp_all split: prod.splits, metis snd_conv)

lemma recover_rows_find:
  "find (\<lambda>r. row_id r = i) (snd (recover_rows c n now rows)) = None \<and> find (\<lambda>r. row_id r = i) rows = None
   \<or> (\<exists>r k. find (\<lambda>r. row_id r = i) rows = Some r \<and> find (\<lambda>r. row_id r = i) (snd (recover_rows c n now rows))
        = Some (if row_lapsed now r then lapse_task (c k) now r else r))"
proof (induction rows arbitrary: n)
  case (Cons r rows)
  from Cons.IH[of n] Cons.IH[of "Suc n"] show ?case
    by (auto split: prod.splits)
qed simp

lemma recover_rows_set:
  "r' \<in> set (snd (recover_rows c n now rows)) \<Longrightarrow>
   \<exists>r\<in>set rows. if row_lapsed now r then \<exists>k. r' = lapse_task (c k) now r else r' = r"
proof (induction rows arbitrary: n)
  case (Cons x rows)
  have "r' \<in> set (snd (recover_rows c n now (x # rows))) \<Longrightarrow>
    r' = (if row_lapsed now x then lapse_task (c n) now x else x)
    \<or> (\<exists>m. r' \<in> set (snd (recover_rows c m now rows)))"
    by (auto split: prod.splits if_splits) (metis snd_conv)+
  then show ?case using Cons by (metis list.set_intros)
qed simp

lemma sqt_recover_evolves:
  assumes "sqt_inv db"
  shows "evolves sqt_inv sqt_view True token db (snd (sqt_recover_locked c n now db))"
proof -
  have eq: "snd (sqt_recover_locked c n now db) = db\<lparr>task_rows := snd (recover_rows c n now (task_rows db))\<rparr>"
    by (simp add: sqt_recover_locked_def split: prod.splits)
  show ?thesis unfolding eq evolves_def
  proof (intro conjI allI)
    show "sqt_inv (db\<lparr>task_rows := snd (recover_rows c n now (task_rows db))\<rparr>)"
      using assms by (simp add: sqt_inv_def recover_rows_ids)
    fix i
    show "task_moves True token (sqt_view db i)
        (sqt_view (db\<lparr>task_rows := snd (recover_rows c n now (task_rows db))\<rparr>) i)"
      using recover_rows_find[of i c n now "task_rows db"]
        lapse_moves[of "stored_task.truncate r" token "c k" now for r k]
      by (auto simp: sqt_view_def row_lapsed_def)
  qed
qed

lemma sqt_workers_evolves [simp]:
  "evolves sqt_inv sqt_view True token db (db\<lparr>worker_rows := ws\<rparr>) \<longleftrightarrow> sqt_inv db"
  by (simp add: evolves_def sqt_inv_def sqt_view_def)

lemma sqt_register_evolves: "sqt_inv db \<Longrightarrow> evolves sqt_inv sqt_view True token db (snd (sqt_register c w db))"
  by (simp add: sqt_register_def Let_def)

text \<open>A claim: what it returns, and the row it leases.\<close>

definition claim_base :: "clock \<Rightarrow> worker \<Rightarrow> task_db \<Rightarrow> task_db" where
  "claim_base c w db = snd (sqt_recover_locked c 2 (c 1) (snd (sqt_register c w db)))"

lemma claim_base_evolves: "sqt_inv db \<Longrightarrow> evolves sqt_inv sqt_view True token db (claim_base c w db)"
proof -
  assume "sqt_inv db"
  then have "evolves sqt_inv sqt_view True token db (snd (sqt_register c w db))" by (rule sqt_register_evolves)
  moreover from this have "sqt_inv (snd (sqt_register c w db))" by (simp add: evolves_def)
  ultimately show ?thesis unfolding claim_base_def
    by (blast intro: evolves_trans sqt_recover_evolves)
qed

lemma claim_base_inv: "sqt_inv db \<Longrightarrow> sqt_inv (claim_base c w db)"
  using claim_base_evolves by (auto simp: evolves_def)

definition leased_row :: "string \<Rightarrow> string \<Rightarrow> time \<Rightarrow> time \<Rightarrow> 'a stored_task_scheme \<Rightarrow> 'a stored_task_scheme" where
  "leased_row w token expires now x = x\<lparr>rec_status := ''leased'', rec_attempt := rec_attempt x + 1,
     rec_worker := w, rec_token := token, rec_expires := expires, rec_updated := now\<rparr>"

lemma leased_row_simps [simp]: "rec_task (leased_row w token e now x) = rec_task x"
  "rec_status (leased_row w token e now x) = ''leased''" "rec_attempt (leased_row w token e now x) = rec_attempt x + 1"
  "rec_worker (leased_row w token e now x) = w" "rec_token (leased_row w token e now x) = token"
  "rec_expires (leased_row w token e now x) = e"
  by (simp_all add: leased_row_def)

lemma queued_unique:
  assumes "sqt_inv db" "r \<in> set (task_rows db)" "rec_status r = ''queued''"
  shows "tbl_count (\<lambda>x. row_id x = row_id r \<and> rec_status x = ''queued'') (task_rows db) = 1"
    and "x \<in> set (task_rows db) \<Longrightarrow> row_id x = row_id r \<and> rec_status x = ''queued'' \<longleftrightarrow> x = r"
proof -
  show *: "x \<in> set (task_rows db) \<Longrightarrow> row_id x = row_id r \<and> rec_status x = ''queued'' \<longleftrightarrow> x = r" for x
    using distinct_key_inj[of row_id "task_rows db" x r] assms by (auto simp: sqt_inv_def)
  show "tbl_count (\<lambda>x. row_id x = row_id r \<and> rec_status x = ''queued'') (task_rows db) = 1"
    by (subst tbl_count_key[of row_id]) (use assms * in \<open>auto simp: sqt_inv_def\<close>)
qed

lemma sqt_claim_cases:
  fixes c token w secs types nss db
  defines "d \<equiv> worker_heartbeat ''online'' (c 0) w" and "base \<equiv> claim_base c w db"
  assumes "sqt_inv db"
  obtains (none) "sqt_claim c token w secs types nss db = (None, base)"
      "sqt_active (worker_id d) base \<ge> max_inflight d
       \<or> (\<forall>r\<in>set (sqt_queue base). \<not> eligible d types nss (sqt_active (worker_id d) base) (rec_task r))"
  | (some) r where "r \<in> set (task_rows base)" "rec_status r = ''queued''"
      "sqt_active (worker_id d) base < max_inflight d"
      "find (\<lambda>r. eligible d types nss (sqt_active (worker_id d) base) (rec_task r)) (sqt_queue base) = Some r"
      "sqt_claim c token w secs types nss db =
        (Some (make_claim (rec_task r) (worker_id d) token (rec_attempt r + 1) (c 1 + lease_span secs)),
         base\<lparr>task_rows := tbl_update (\<lambda>x. x = r) (leased_row (worker_id d) token (c 1 + lease_span secs) (c 1)) (task_rows base)\<rparr>)"
proof -
  let ?act = "sqt_active (worker_id d) base"
  let ?f = "find (\<lambda>r. eligible d types nss ?act (rec_task r)) (sqt_queue base)"
  obtain ws where reg: "sqt_register c w db = (d, db\<lparr>worker_rows := ws\<rparr>)"
    by (simp add: sqt_register_def d_def Let_def)
  have base: "snd (sqt_recover_locked c 2 (c 1) (db\<lparr>worker_rows := ws\<rparr>)) = base"
    by (simp add: base_def claim_base_def reg)
  have inv: "sqt_inv base" using claim_base_inv[OF assms(3)] by (simp add: base_def)
  show thesis
  proof (cases "?act \<ge> max_inflight d \<or> ?f = None")
    case True
    then have "sqt_claim c token w secs types nss db = (None, base)"
      by (auto simp: sqt_claim_def reg base Let_def simp del: One_nat_def)
    then show ?thesis using True none by (auto simp: find_None_iff')
  next
    case False
    then obtain r where r: "?f = Some r" by blast
    then have q: "r \<in> set (task_rows base)" "rec_status r = ''queued''"
      by (auto dest!: find_SomeD simp: sqt_queue_def)
    have upd: "tbl_update (\<lambda>x. row_id x = row_id r \<and> rec_status x = ''queued'')
        (\<lambda>x. x\<lparr>rec_status := ''leased'', rec_attempt := rec_attempt r + 1, rec_worker := worker_id d,
           rec_token := token, rec_expires := c 1 + lease_span secs, rec_updated := c 1\<rparr>) (task_rows base)
      = tbl_update (\<lambda>x. x = r) (leased_row (worker_id d) token (c 1 + lease_span secs) (c 1)) (task_rows base)"
      unfolding tbl_update_def by (intro map_cong refl) (use queued_unique(2)[OF inv q] in \<open>auto simp: leased_row_def\<close>)
    show ?thesis using some[of r] False r q queued_unique(1)[OF inv q] upd
      by (simp add: sqt_claim_def reg base Let_def del: One_nat_def)
  qed
qed

text \<open>The laws, operation by operation.\<close>

lemma sqt_submit_evolves:
  assumes "sqt_inv db" "task_wf t"
  shows "evolves sqt_inv sqt_view True token db (snd (sqt_submit c t db))"
proof (cases "find (\<lambda>r. row_id r = task_id t) (task_rows db)")
  case None
  let ?db = "db\<lparr>task_rows := task_rows db @ [queued_row t (c 0)]\<rparr>"
  have fa: "find P (xs @ ys) = (case find P xs of None \<Rightarrow> find P ys | Some x \<Rightarrow> Some x)" for P and xs ys :: "task_row list"
    by (induction xs) auto
  have "task_id t \<notin> row_id ` set (task_rows db)" using None by (auto simp: find_None_iff')
  then have "sqt_inv ?db" using assms(1) by (simp add: sqt_inv_def)
  moreover have "sqt_view ?db j = sqt_view db j" if "j \<noteq> task_id t" for j
    using that by (auto simp: sqt_view_def fa split: option.splits)
  moreover have "task_moves True token (sqt_view db (task_id t)) (sqt_view ?db (task_id t))"
    using None by (auto simp: sqt_view_def fa intro!: r_into_rtranclp tm_submit assms(2))
  moreover have "snd (sqt_submit c t db) = ?db"
    using None by (simp add: sqt_submit_def Let_def split: option.splits)
  ultimately show ?thesis using evolves_single[of sqt_inv ?db "task_id t" sqt_view db] by simp
qed (use assms(1) in \<open>simp add: sqt_submit_def Let_def split: option.splits\<close>)

lemma sqt_claim_evolves:
  assumes "sqt_inv db"
  shows "evolves sqt_inv sqt_view True (Some token) db (snd (sqt_claim c token w secs types nss db))"
proof (cases rule: sqt_claim_cases[OF assms, of c token w secs types nss])
  case 1
  then show ?thesis using claim_base_evolves[OF assms] by simp
next
  case (2 r)
  let ?d = "worker_heartbeat ''online'' (c 0) w" and ?base = "claim_base c w db"
  let ?f = "leased_row (worker_id ?d) token (c 1 + lease_span secs) (c 1) :: task_row \<Rightarrow> task_row"
  have "evolves sqt_inv sqt_view True (Some token) ?base (?base\<lparr>task_rows := tbl_update (\<lambda>x. x = r) ?f (task_rows ?base)\<rparr>)"
    using 2(2) by (intro sqt_update_evolves claim_base_inv[OF assms]) (auto intro!: tm_claim simp: same_task_def)
  then show ?thesis using claim_base_evolves[OF assms] 2(5) by (auto intro: evolves_trans)
qed

lemma sqt_claim_issued:
  assumes "sqt_inv db" "sqt_claim c token w secs types nss db = (Some cl, db')"
  shows "claim_token cl = token \<and> issued cl (sqt_view db' (claim_id cl))"
proof (cases rule: sqt_claim_cases[OF assms(1), of c token w secs types nss])
  case 1
  then show ?thesis using assms(2) by simp
next
  case (2 r)
  let ?d = "worker_heartbeat ''online'' (c 0) w" and ?base = "claim_base c w db"
  let ?f = "leased_row (worker_id ?d) token (c 1 + lease_span secs) (c 1) :: task_row \<Rightarrow> task_row"
  have "find (\<lambda>x. row_id x = row_id r) (task_rows ?base) = Some r"
    using find_Some_iff_key[of row_id "task_rows ?base" "row_id r" r] claim_base_inv[OF assms(1)] 2(1)
    by (simp add: sqt_inv_def)
  moreover have "db' = ?base\<lparr>task_rows := tbl_update (\<lambda>x. x = r) ?f (task_rows ?base)\<rparr>"
    "cl = make_claim (rec_task r) (worker_id ?d) token (rec_attempt r + 1) (c 1 + lease_span secs)"
    using assms(2) 2(5) by simp_all
  moreover from this have "claim_id cl = row_id r" by (simp add: make_claim_def)
  ultimately show ?thesis
    using sqt_update_view[of "\<lambda>x. x = r" ?f ?base "row_id r"] by (simp add: issued_def make_claim_def)
qed

lemma sqt_active_held:
  assumes "sqt_inv db" "0 < tbl_count (\<lambda>r. row_id r = i \<and> claim_active now cl r) (task_rows db)"
  shows "\<exists>r\<in>set (task_rows db). row_id r = i \<and> claim_active now cl r
    \<and> sqt_view db i = Some (stored_task.truncate r) \<and> held cl (sqt_view db i)"
proof -
  from assms(2) obtain r where r: "r \<in> set (task_rows db)" "row_id r = i" "claim_active now cl r"
    by (auto simp: tbl_count_pos)
  then have "sqt_view db i = Some (stored_task.truncate r)" using sqt_view_row[OF assms(1) r(1)] by simp
  with r show ?thesis by (auto simp: held_def claim_active_def)
qed

lemma sqt_heartbeat_evolves:
  "sqt_inv db \<Longrightarrow> evolves sqt_inv sqt_view True token db (snd (sqt_heartbeat c cl secs db))"
  unfolding sqt_heartbeat_def Let_def snd_conv
  by (rule sqt_update_evolves) (auto intro!: tm_beat simp: same_task_def claim_active_def)

lemma sqt_heartbeat_held: "sqt_inv db \<Longrightarrow> fst (sqt_heartbeat c cl secs db) \<Longrightarrow> held cl (sqt_view db (claim_id cl))"
  using sqt_active_held[of db "claim_id cl" "c 0" cl] by (auto simp: sqt_heartbeat_def Let_def)

lemma sqt_finish_evolves:
  assumes "sqt_inv db" "genuine cl (sqt_view db (claim_id cl))" "st \<in> {''succeeded'', ''failed''}"
  shows "evolves sqt_inv sqt_view True token db (snd (sqt_finish c cl r st allow db))"
proof -
  let ?P = "\<lambda>x :: task_row. row_id x = claim_id cl \<and> claim_active (c 0) cl x"
  have "evolves sqt_inv sqt_view True token db
      (db\<lparr>task_rows := tbl_update ?P (finish_task (may_retry allow cl) st r (c 0)) (task_rows db)\<rparr>)"
  proof (rule sqt_update_evolves[OF assms(1)])
    fix x assume x: "x \<in> set (task_rows db)" "?P x"
    then have "genuine cl (Some (stored_task.truncate x))"
      using assms(2) sqt_view_row[OF assms(1) x(1)] by simp
    then show "task_move True token (Some (stored_task.truncate x))
        (Some (stored_task.truncate (finish_task (may_retry allow cl) st r (c 0) x)))"
      using finish_move[of "c 0" cl "stored_task.truncate x"] x assms(3) by simp
  qed simp
  then show ?thesis using assms(1) by (auto simp: sqt_finish_def Let_def split: option.splits)
qed

lemma sqt_finish_held:
  assumes "sqt_inv db" "sqt_finish c cl r st allow db = (Inr y, db')" "st \<noteq> ''leased''"
  shows "held cl (sqt_view db (claim_id cl)) \<and> \<not> held cl (sqt_view db' (claim_id cl))"
proof -
  let ?P = "\<lambda>x :: task_row. row_id x = claim_id cl \<and> claim_active (c 0) cl x"
  let ?f = "finish_task (may_retry allow cl) st r (c 0) :: task_row \<Rightarrow> task_row"
  from assms(2) have n: "tbl_count ?P (task_rows db) = 1"
    and db': "db' = db\<lparr>task_rows := tbl_update ?P ?f (task_rows db)\<rparr>"
    by (auto simp: sqt_finish_def Let_def split: if_splits option.splits)
  from n sqt_active_held[OF assms(1), of "claim_id cl" "c 0" cl] obtain x where
    x: "x \<in> set (task_rows db)" "?P x" "held cl (sqt_view db (claim_id cl))" by auto
  have "find (\<lambda>r. row_id r = claim_id cl) (task_rows db) = Some x"
    using find_Some_iff_key[of row_id "task_rows db" "claim_id cl" x] assms(1) x by (simp add: sqt_inv_def)
  then have "sqt_view db' (claim_id cl) = Some (stored_task.truncate (?f x))"
    using sqt_update_view[of ?P ?f db "claim_id cl"] x(2) db' by simp
  then show ?thesis using x(3) assms(3) by (simp add: held_def)
qed

lemma sqt_cancel_evolves: "sqt_inv db \<Longrightarrow> evolves sqt_inv sqt_view True token db (snd (sqt_cancel c i why db))"
  unfolding sqt_cancel_def Let_def snd_conv
  by (rule sqt_update_evolves) (auto intro!: tm_cancel simp: same_task_def)

interpretation sqt: task_transport sqt sqt_init sqt_inv sqt_view True
proof
  show "sqt_inv sqt_init" "sqt_view sqt_init i = None" for i
    by (simp_all add: sqt_init_def sqt_inv_def sqt_view_def)
next
  fix s c t assume "sqt_inv s" "task_wf t"
  then show "evolves sqt_inv sqt_view True None s (snd (tp_submit sqt c t s))"
    by (simp add: sqt_def sqt_submit_evolves)
next
  fix s c token w secs types nss cl s'
  assume "sqt_inv s" "tp_claim sqt c token w secs types nss s = (Some cl, s')"
  then show "claim_token cl = token \<and> issued cl (sqt_view s' (claim_id cl))"
    using sqt_claim_issued by (simp add: sqt_def)
next
  fix s cl c r x s' assume "sqt_inv s" "tp_complete sqt c cl r s = (Inr x, s')"
  then show "held cl (sqt_view s (claim_id cl)) \<and> \<not> held cl (sqt_view s' (claim_id cl))"
    using sqt_finish_held[of s c cl r "''succeeded''"] by (simp add: sqt_def sqt_complete_def split: if_splits)
next
  fix s cl c r x s' assume "sqt_inv s" "tp_fail sqt c cl r s = (Inr x, s')"
  then show "held cl (sqt_view s (claim_id cl)) \<and> \<not> held cl (sqt_view s' (claim_id cl))"
    using sqt_finish_held[of s c cl r "''failed''"] by (simp add: sqt_def sqt_fail_def split: if_splits)
qed (auto simp: sqt_def sqt_complete_def sqt_fail_def sqt_beat_worker_def sqt_recover_def Let_def
    intro: sqt_register_evolves sqt_claim_evolves sqt_heartbeat_evolves sqt_heartbeat_held sqt_finish_evolves
      sqt_recover_evolves sqt_cancel_evolves split: option.splits)

end
