(* ===== verification/Task_Memory.thy ===== *)
theory Task_Memory
  imports Task_Transport
begin

text \<open>
  \<open>InMemoryTaskTransport\<close> of \<open>resources/transport.py\<close>: dictionaries of records, workers and
  lease tokens behind a lock. Each operation holds the lock, so it is one step.
\<close>

record task_memory =
  mt_records :: "(string \<times> task_record) list"
  mt_workers :: "(string \<times> worker) list"
  mt_tokens :: "(string \<times> string) list"

definition mt_init :: task_memory where
  "mt_init = \<lparr>mt_records = [], mt_workers = [], mt_tokens = []\<rparr>"

definition mt_submit :: "clock \<Rightarrow> task \<Rightarrow> task_memory \<Rightarrow> task_record result \<times> task_memory" where
  "mt_submit c t s = (case map_of (mt_records s) (task_id t) of
     Some current \<Rightarrow> if rec_task current \<noteq> t then (Inl TaskTransportError, s) else (Inr current, s)
   | None \<Rightarrow> let r = plain_record t ''queued'' 0 [] (c 0)
       in (Inr r, s\<lparr>mt_records := AList.update (task_id t) r (mt_records s)\<rparr>))"

definition mt_register :: "clock \<Rightarrow> worker \<Rightarrow> task_memory \<Rightarrow> worker \<times> task_memory" where
  "mt_register c w s = (let d = worker_heartbeat ''online'' (c 0) w
     in (d, s\<lparr>mt_workers := AList.update (worker_id d) d (mt_workers s)\<rparr>))"

definition mt_beat_worker :: "clock \<Rightarrow> string \<Rightarrow> string \<Rightarrow> task_memory \<Rightarrow> bool \<times> task_memory" where
  "mt_beat_worker c i st s = (case map_of (mt_workers s) i of
     None \<Rightarrow> (False, s)
   | Some w \<Rightarrow> (True, s\<lparr>mt_workers := AList.update (worker_id w) (worker_heartbeat st (c 0) w) (mt_workers s)\<rparr>))"

definition mt_list_workers :: "time option \<Rightarrow> time \<Rightarrow> task_memory \<Rightarrow> worker list" where
  "mt_list_workers max_age now s = (case max_age of
     None \<Rightarrow> map snd (mt_workers s)
   | Some age \<Rightarrow> filter (\<lambda>w. now - last_heartbeat_at w \<le> age) (map snd (mt_workers s)))"

definition mt_recover_locked :: "time \<Rightarrow> task_memory \<Rightarrow> nat \<times> task_memory" where
  "mt_recover_locked now s = (let lapsed = map fst (filter (\<lambda>(i, r). row_lapsed now r) (mt_records s))
     in (length lapsed,
         s\<lparr>mt_records := map (\<lambda>(i, r). (i, if row_lapsed now r
               then plain_record (rec_task r) ''queued'' (rec_attempt r) ''task lease expired'' now else r)) (mt_records s),
           mt_tokens := filter (\<lambda>(i, _). i \<notin> set lapsed) (mt_tokens s)\<rparr>))"

definition mt_recover :: "clock \<Rightarrow> task_memory \<Rightarrow> nat \<times> task_memory" where
  "mt_recover c s = mt_recover_locked (c 0) s"

definition mt_active :: "string \<Rightarrow> task_memory \<Rightarrow> int" where
  "mt_active w s = int (length (filter (\<lambda>(i, r). rec_status r = ''leased'' \<and> rec_worker r = w) (mt_records s)))"

definition mt_claim :: "clock \<Rightarrow> string \<Rightarrow> worker \<Rightarrow> time \<Rightarrow> string list \<Rightarrow> string list \<Rightarrow> task_memory
    \<Rightarrow> claimed option \<times> task_memory" where
  "mt_claim c token w secs types namespaces s =
     (let (d, s0) = mt_register c w s;
          now = c 1;
          s1 = snd (mt_recover_locked now s0);
          active = mt_active (worker_id d) s1
      in if active \<ge> max_inflight d then (None, s1)
         else case find (\<lambda>(i, r). rec_status r = ''queued'' \<and> eligible d types namespaces active (rec_task r))
                (mt_records s1) of
           None \<Rightarrow> (None, s1)
         | Some (i, r) \<Rightarrow>
             let cl = make_claim (rec_task r) (worker_id d) token (rec_attempt r + 1) (now + lease_span secs)
             in (Some cl, s1\<lparr>mt_records := AList.update i ((plain_record (rec_task r) ''leased'' (claim_attempt cl) [] now)
                    \<lparr>rec_worker := claim_worker cl, rec_expires := claim_expires cl\<rparr>) (mt_records s1),
                  mt_tokens := AList.update i (claim_token cl) (mt_tokens s1)\<rparr>))"

definition mt_claim_is_current :: "time \<Rightarrow> claimed \<Rightarrow> task_memory \<Rightarrow> task_record option \<Rightarrow> bool" where
  "mt_claim_is_current now cl s record \<longleftrightarrow> (case record of None \<Rightarrow> False
     | Some r \<Rightarrow> rec_status r = ''leased'' \<and> rec_worker r = claim_worker cl \<and> rec_attempt r = claim_attempt cl
         \<and> map_of (mt_tokens s) (claim_id cl) = Some (claim_token cl) \<and> rec_expires r > now)"

definition mt_heartbeat :: "clock \<Rightarrow> claimed \<Rightarrow> time \<Rightarrow> task_memory \<Rightarrow> bool \<times> task_memory" where
  "mt_heartbeat c cl secs s = (let now = c 0 in case map_of (mt_records s) (claim_id cl) of
     None \<Rightarrow> (False, s)
   | Some r \<Rightarrow> if \<not> mt_claim_is_current now cl s (Some r) then (False, s)
       else (True, s\<lparr>mt_records := AList.update (claim_id cl) ((plain_record (rec_task r) ''leased'' (rec_attempt r) [] now)
              \<lparr>rec_worker := rec_worker r, rec_expires := now + lease_span secs\<rparr>) (mt_records s)\<rparr>))"

definition mt_finish :: "clock \<Rightarrow> claimed \<Rightarrow> task_result \<Rightarrow> string \<Rightarrow> bool \<Rightarrow> task_memory
    \<Rightarrow> task_record result \<times> task_memory" where
  "mt_finish c cl res st allow_retry s = (if result_task_id res \<noteq> claim_id cl then (Inl TaskLeaseError, s)
     else let now = c 0 in
       if \<not> mt_claim_is_current now cl s (map_of (mt_records s) (claim_id cl)) then (Inl TaskLeaseError, s)
       else let retry = may_retry allow_retry cl;
                r = (plain_record (claim_task cl) (if retry then ''queued'' else st) (claim_attempt cl) (result_error res) now)
                  \<lparr>rec_result := (if retry then None else Some res)\<rparr>
            in (Inr r, s\<lparr>mt_records := AList.update (claim_id cl) r (mt_records s),
                          mt_tokens := AList.delete (claim_id cl) (mt_tokens s)\<rparr>))"

definition mt_complete :: "clock \<Rightarrow> claimed \<Rightarrow> task_result \<Rightarrow> task_memory \<Rightarrow> task_record result \<times> task_memory" where
  "mt_complete c cl res s = (if \<not> result_ok res then (Inl TaskTransportError, s)
     else mt_finish c cl res ''succeeded'' False s)"

definition mt_fail :: "clock \<Rightarrow> claimed \<Rightarrow> task_result \<Rightarrow> task_memory \<Rightarrow> task_record result \<times> task_memory" where
  "mt_fail c cl res s = (if result_ok res then (Inl TaskTransportError, s) else mt_finish c cl res ''failed'' True s)"

definition mt_get :: "string \<Rightarrow> task_memory \<Rightarrow> task_record option" where
  "mt_get i s = map_of (mt_records s) i"

definition mt_cancel :: "clock \<Rightarrow> string \<Rightarrow> string \<Rightarrow> task_memory \<Rightarrow> bool \<times> task_memory" where
  "mt_cancel c i why s = (case map_of (mt_records s) i of
     None \<Rightarrow> (False, s)
   | Some r \<Rightarrow> if rec_final r then (False, s)
       else (True, s\<lparr>mt_records := AList.update i (plain_record (rec_task r) ''cancelled'' (rec_attempt r) why (c 0)) (mt_records s),
                     mt_tokens := AList.delete i (mt_tokens s)\<rparr>))"

definition mt_counts :: "task_memory \<Rightarrow> string \<Rightarrow> nat option" where
  "mt_counts s st = (let n = length (filter (\<lambda>(i, r). rec_status r = st) (mt_records s)) in if n = 0 then None else Some n)"

definition mt_wait_result :: "string \<Rightarrow> time option \<Rightarrow> time \<Rightarrow> (clock \<times> time \<times> (task_memory \<Rightarrow> task_memory)) list
    \<Rightarrow> task_memory \<Rightarrow> task_result option result option \<times> task_memory" where
  "mt_wait_result i timeout start = wait_loop (\<lambda>c s. s) mt_get i (wait_deadline timeout start)"

definition mt :: "task_memory transport" where
  "mt = \<lparr>tp_submit = mt_submit, tp_register = mt_register, tp_beat_worker = mt_beat_worker,
     tp_claim = mt_claim, tp_heartbeat = mt_heartbeat, tp_complete = mt_complete, tp_fail = mt_fail,
     tp_recover = mt_recover, tp_cancel = mt_cancel\<rparr>"

section \<open>The transport is a task transport\<close>

definition with_token :: "string option \<Rightarrow> task_record \<Rightarrow> stored_task" where
  "with_token tok r = task_record.extend r (stored_task.fields (case tok of None \<Rightarrow> [] | Some t \<Rightarrow> t))"

lemma with_token_simps [simp]: "rec_task (with_token tok r) = rec_task r"
  "rec_status (with_token tok r) = rec_status r" "rec_attempt (with_token tok r) = rec_attempt r"
  "rec_worker (with_token tok r) = rec_worker r" "rec_expires (with_token tok r) = rec_expires r"
  "rec_token (with_token tok r) = (case tok of None \<Rightarrow> [] | Some t \<Rightarrow> t)"
  by (simp_all add: with_token_def task_record.extend_def stored_task.fields_def)

lemma plain_record_simps [simp]: "rec_task (plain_record t st a e u) = t" "rec_status (plain_record t st a e u) = st"
  "rec_attempt (plain_record t st a e u) = a" "rec_worker (plain_record t st a e u) = []"
  "rec_expires (plain_record t st a e u) = 0" "rec_result (plain_record t st a e u) = None"
  by (simp_all add: plain_record_def)

definition mt_view :: "task_memory \<Rightarrow> string \<Rightarrow> stored_task option" where
  "mt_view s i = map_option (with_token (map_of (mt_tokens s) i)) (map_of (mt_records s) i)"

definition mt_inv :: "task_memory \<Rightarrow> bool" where
  "mt_inv s \<longleftrightarrow> distinct (map fst (mt_records s))
     \<and> (\<forall>(i, r)\<in>set (mt_records s). task_id (rec_task r) = i \<and> (rec_final r \<or> rec_status r \<in> {''queued'', ''leased''}))
     \<and> dom (map_of (mt_tokens s)) \<subseteq> dom (map_of (mt_records s))"

lemma mt_inv_lookup:
  "mt_inv s \<Longrightarrow> map_of (mt_records s) i = Some r
    \<Longrightarrow> task_id (rec_task r) = i \<and> (rec_final r \<or> rec_status r \<in> {''queued'', ''leased''})"
  unfolding mt_inv_def by (blast dest!: map_of_SomeD)

lemma mt_inv_update:
  assumes "mt_inv s" "task_id (rec_task r) = i" "rec_final r \<or> rec_status r \<in> {''queued'', ''leased''}"
    "mt_records s' = AList.update i r (mt_records s)" "\<And>j. j \<noteq> i \<Longrightarrow> map_of (mt_tokens s') j = map_of (mt_tokens s) j"
  shows "mt_inv s'"
  unfolding mt_inv_def
proof (intro conjI)
  show "distinct (map fst (mt_records s'))" using assms by (simp add: mt_inv_def distinct_update)
  show "\<forall>(i, r)\<in>set (mt_records s'). task_id (rec_task r) = i \<and> (rec_final r \<or> rec_status r \<in> {''queued'', ''leased''})"
    using assms set_AList_update_subset[of i r "mt_records s"] unfolding mt_inv_def by fastforce
  show "dom (map_of (mt_tokens s')) \<subseteq> dom (map_of (mt_records s'))"
  proof
    fix j assume j: "j \<in> dom (map_of (mt_tokens s'))"
    show "j \<in> dom (map_of (mt_records s'))"
    proof (cases "j = i")
      case False
      then have "j \<in> dom (map_of (mt_tokens s))" using j assms(5)[OF False] by (simp add: domIff)
      then have "j \<in> dom (map_of (mt_records s))" using assms(1) by (auto simp: mt_inv_def)
      then show ?thesis using False assms(4) by (auto simp: domIff)
    qed (simp add: assms(4) domIff)
  qed
qed

lemma mt_update_evolves:
  assumes "mt_inv s" "mt_records s' = AList.update i r' (mt_records s)" "task_id (rec_task r') = i"
    and "rec_final r' \<or> rec_status r' \<in> {''queued'', ''leased''}"
    and "\<And>j. j \<noteq> i \<Longrightarrow> map_of (mt_tokens s') j = map_of (mt_tokens s) j"
    and "task_move False token (mt_view s i) (Some (with_token (map_of (mt_tokens s') i) r'))"
  shows "evolves mt_inv mt_view False token s s'"
  using assms by (intro evolves_single[where i = i] mt_inv_update[of s r' i s'])
    (auto simp: mt_view_def)

lemma map_of_map_snd: "map_of (map (\<lambda>(i, r). (i, f r)) d) i = map_option f (map_of d i)"
  by (induction d) auto

lemma map_of_filter_fst: "map_of (filter (\<lambda>(i, _). P i) d) i = (if P i then map_of d i else None)"
  by (induction d) auto

lemma mt_recover_records:
  "mt_records (snd (mt_recover_locked now s)) = map (\<lambda>(i, r). (i, if row_lapsed now r
     then plain_record (rec_task r) ''queued'' (rec_attempt r) ''task lease expired'' now else r)) (mt_records s)"
  by (simp add: mt_recover_locked_def Let_def)

lemma mt_recover_inv:
  assumes "mt_inv s"
  shows "mt_inv (snd (mt_recover_locked now s))"
proof -
  let ?s = "snd (mt_recover_locked now s)"
  note recs = mt_recover_records[of now s]
  have keys: "map fst (mt_records ?s) = map fst (mt_records s)"
    unfolding recs by (auto intro: map_cong)
  have "\<forall>(i, r)\<in>set (mt_records ?s). task_id (rec_task r) = i \<and> (rec_final r \<or> rec_status r \<in> {''queued'', ''leased''})"
    using assms unfolding mt_inv_def recs by (fastforce split: if_splits)
  moreover have "dom (map_of (mt_tokens ?s)) \<subseteq> dom (map_of (mt_records ?s))"
  proof -
    have "dom (map_of (mt_tokens ?s)) \<subseteq> dom (map_of (mt_tokens s))"
      by (auto simp: mt_recover_locked_def Let_def map_of_filter_fst domIff split: if_splits)
    also have "\<dots> \<subseteq> dom (map_of (mt_records s))" using assms by (simp add: mt_inv_def)
    also have "\<dots> = dom (map_of (mt_records ?s))" unfolding dom_map_of_conv_image_fst set_map[symmetric] keys ..
    finally show ?thesis .
  qed
  ultimately show ?thesis using assms keys by (simp add: mt_inv_def)
qed

lemma mt_recover_evolves:
  assumes "mt_inv s"
  shows "evolves mt_inv mt_view False token s (snd (mt_recover_locked now s))"
  unfolding evolves_def
proof (intro conjI allI)
  let ?s = "snd (mt_recover_locked now s)"
  note recs = mt_recover_records[of now s]
  show "mt_inv ?s" by (rule mt_recover_inv[OF assms])
  fix i
  show "task_moves False token (mt_view s i) (mt_view ?s i)"
  proof (cases "map_of (mt_records s) i")
    case None
    then show ?thesis by (simp add: mt_view_def recs map_of_map_snd)
  next
    case (Some r)
    have d: "distinct (map fst (mt_records s))" using assms by (simp add: mt_inv_def)
    have only: "i \<in> set (map fst (filter (\<lambda>(i, r). row_lapsed now r) (mt_records s))) \<Longrightarrow> row_lapsed now r"
      using Some map_of_is_SomeI[OF d] by fastforce
    show ?thesis
    proof (cases "row_lapsed now r")
      case True
      with Some show ?thesis
        by (intro r_into_rtranclp) (auto simp: mt_view_def recs map_of_map_snd row_lapsed_def intro!: tm_retry simp: same_task_def)
    next
      case False
      then have "i \<notin> set (map fst (filter (\<lambda>(i, r). row_lapsed now r) (mt_records s)))"
        using only by blast
      then have "map_of (mt_tokens ?s) i = map_of (mt_tokens s) i"
        by (simp add: mt_recover_locked_def Let_def map_of_filter_fst)
      with False Some show ?thesis by (simp add: mt_view_def recs map_of_map_snd)
    qed
  qed
qed

lemma mt_register_evolves: "mt_inv s \<Longrightarrow> evolves mt_inv mt_view False token s (snd (mt_register c w s))"
  by (simp add: mt_register_def Let_def evolves_def mt_inv_def mt_view_def)

lemma mt_beat_worker_evolves: "mt_inv s \<Longrightarrow> evolves mt_inv mt_view False token s (snd (mt_beat_worker c i st s))"
  by (simp add: mt_beat_worker_def evolves_def mt_inv_def mt_view_def split: option.splits)

lemma mt_submit_evolves:
  assumes "mt_inv s" "task_wf t"
  shows "evolves mt_inv mt_view False token s (snd (mt_submit c t s))"
proof (cases "map_of (mt_records s) (task_id t)")
  case None
  then have "map_of (mt_tokens s) (task_id t) = None" using assms(1) by (auto simp: mt_inv_def dom_def)
  then have "with_token (map_of (mt_tokens s) (task_id t)) (plain_record t ''queued'' 0 [] (c 0)) = queued_task t (c 0)"
    by (simp add: with_token_def plain_record_def queued_task_def task_record.extend_def stored_task.fields_def)
  then show ?thesis using None assms(2)
    by (simp add: mt_submit_def Let_def)
      (rule mt_update_evolves[OF assms(1), where i = "task_id t"], simp, auto simp: mt_view_def intro!: tm_submit)
qed (use assms in \<open>simp add: mt_submit_def\<close>)

definition mt_base :: "clock \<Rightarrow> worker \<Rightarrow> task_memory \<Rightarrow> task_memory" where
  "mt_base c w s = snd (mt_recover_locked (c 1) (snd (mt_register c w s)))"

lemma mt_base_evolves:
  assumes "mt_inv s"
  shows "evolves mt_inv mt_view False token s (mt_base c w s)"
proof -
  have r: "evolves mt_inv mt_view False token s (snd (mt_register c w s))" by (rule mt_register_evolves[OF assms])
  then have "mt_inv (snd (mt_register c w s))" by (simp add: evolves_def)
  with r show ?thesis unfolding mt_base_def by (blast intro: evolves_trans mt_recover_evolves)
qed

lemma mt_claim_cases:
  fixes c token w secs types nss s
  defines "d \<equiv> worker_heartbeat ''online'' (c 0) w" and "base \<equiv> mt_base c w s"
  assumes "mt_inv s"
  obtains "mt_claim c token w secs types nss s = (None, base)"
  | r where "map_of (mt_records base) (task_id (rec_task r)) = Some r" "rec_status r = ''queued''"
      "mt_active (worker_id d) base < max_inflight d"
      "eligible d types nss (mt_active (worker_id d) base) (rec_task r)"
      "mt_claim c token w secs types nss s =
        (Some (make_claim (rec_task r) (worker_id d) token (rec_attempt r + 1) (c 1 + lease_span secs)),
         base\<lparr>mt_records := AList.update (task_id (rec_task r)) ((plain_record (rec_task r) ''leased'' (rec_attempt r + 1) [] (c 1))
            \<lparr>rec_worker := worker_id d, rec_expires := c 1 + lease_span secs\<rparr>) (mt_records base),
          mt_tokens := AList.update (task_id (rec_task r)) token (mt_tokens base)\<rparr>)"
proof -
  let ?act = "mt_active (worker_id d) base"
  let ?f = "find (\<lambda>(i, r). rec_status r = ''queued'' \<and> eligible d types nss ?act (rec_task r)) (mt_records base)"
  obtain ws where reg: "mt_register c w s = (d, s\<lparr>mt_workers := ws\<rparr>)" by (simp add: mt_register_def d_def Let_def)
  have base: "snd (mt_recover_locked (c 1) (s\<lparr>mt_workers := ws\<rparr>)) = base" by (simp add: base_def mt_base_def reg)
  have inv: "mt_inv base" using mt_base_evolves[OF assms(3)] by (auto simp: base_def evolves_def)
  show thesis
  proof (cases "?act \<ge> max_inflight d \<or> ?f = None")
    case True
    then have "mt_claim c token w secs types nss s = (None, base)"
      by (auto simp: mt_claim_def reg base Let_def simp del: One_nat_def)
    then show ?thesis using that(1) by blast
  next
    case False
    then obtain i r where r: "?f = Some (i, r)" by fastforce
    then have "(i, r) \<in> set (mt_records base)" "rec_status r = ''queued''" "eligible d types nss ?act (rec_task r)"
      by (auto dest!: find_SomeD)
    moreover from this have "map_of (mt_records base) i = Some r" "task_id (rec_task r) = i"
      using inv by (auto simp: mt_inv_def)
    ultimately show ?thesis using that(2)[of r] False r
      by (simp add: mt_claim_def reg base Let_def make_claim_def del: One_nat_def)
  qed
qed

lemma mt_claim_evolves:
  assumes "mt_inv s"
  shows "evolves mt_inv mt_view False (Some token) s (snd (mt_claim c token w secs types nss s))"
proof (cases rule: mt_claim_cases[OF assms, of c token w secs types nss])
  case 1
  then show ?thesis using mt_base_evolves[OF assms] by simp
next
  case (2 r)
  have b: "evolves mt_inv mt_view False (Some token) s (mt_base c w s)" by (rule mt_base_evolves[OF assms])
  then have "mt_inv (mt_base c w s)" by (simp add: evolves_def)
  then have "evolves mt_inv mt_view False (Some token) (mt_base c w s) (snd (mt_claim c token w secs types nss s))"
    unfolding 2(5) by (rule mt_update_evolves[where i = "task_id (rec_task r)"], simp)
      (use 2(1,2) in \<open>auto simp: mt_view_def same_task_def intro!: tm_claim\<close>)
  with b show ?thesis by (rule evolves_trans)
qed

lemma mt_claim_issued:
  assumes "mt_inv s" "mt_claim c token w secs types nss s = (Some cl, s')"
  shows "claim_token cl = token \<and> issued cl (mt_view s' (claim_id cl))"
  by (cases rule: mt_claim_cases[OF assms(1), of c token w secs types nss])
    (use assms(2) in \<open>auto simp: issued_def make_claim_def mt_view_def\<close>)

lemma mt_current:
  assumes "mt_claim_is_current now cl s (map_of (mt_records s) (claim_id cl))"
  obtains r where "map_of (mt_records s) (claim_id cl) = Some r" "rec_status r = ''leased''"
    "rec_worker r = claim_worker cl" "rec_attempt r = claim_attempt cl"
    "map_of (mt_tokens s) (claim_id cl) = Some (claim_token cl)" "held cl (mt_view s (claim_id cl))"
  using assms by (auto simp: mt_claim_is_current_def mt_view_def held_def split: option.splits)

lemma mt_heartbeat_evolves:
  assumes "mt_inv s"
  shows "evolves mt_inv mt_view False token s (snd (mt_heartbeat c cl secs s))"
proof (cases "mt_claim_is_current (c 0) cl s (map_of (mt_records s) (claim_id cl))")
  case True
  then obtain r where r: "map_of (mt_records s) (claim_id cl) = Some r" "rec_status r = ''leased''"
    "map_of (mt_tokens s) (claim_id cl) = Some (claim_token cl)" by (rule mt_current)
  show ?thesis using mt_inv_lookup[OF assms r(1)] r
    by (simp add: mt_heartbeat_def Let_def True[unfolded r(1)])
      (rule mt_update_evolves[OF assms, where i = "claim_id cl"], simp,
        auto simp: mt_view_def same_task_def intro!: tm_beat)
qed (use assms in \<open>auto simp: mt_heartbeat_def mt_claim_is_current_def Let_def split: option.splits\<close>)

lemma mt_heartbeat_held: "fst (mt_heartbeat c cl secs s) \<Longrightarrow> held cl (mt_view s (claim_id cl))"
proof -
  assume "fst (mt_heartbeat c cl secs s)"
  then have "mt_claim_is_current (c 0) cl s (map_of (mt_records s) (claim_id cl))"
    by (auto simp: mt_heartbeat_def Let_def split: option.splits if_splits)
  then show ?thesis by (rule mt_current)
qed

lemma mt_finish_evolves:
  assumes "mt_inv s" "genuine cl (mt_view s (claim_id cl))" "st \<in> {''succeeded'', ''failed''}"
  shows "evolves mt_inv mt_view False token s (snd (mt_finish c cl r st allow s))"
proof (cases "result_task_id r = claim_id cl \<and> mt_claim_is_current (c 0) cl s (map_of (mt_records s) (claim_id cl))")
  case True
  then obtain x where x: "map_of (mt_records s) (claim_id cl) = Some x" "rec_status x = ''leased''"
    "rec_attempt x = claim_attempt cl" "map_of (mt_tokens s) (claim_id cl) = Some (claim_token cl)"
    by (auto elim: mt_current)
  with assms(2) have same: "rec_task x = claim_task cl" by (auto simp: genuine_def mt_view_def)
  show ?thesis
  proof (cases "may_retry allow cl")
    case True': True
    show ?thesis using True True' x same assms(3)
      by (simp add: mt_finish_def Let_def)
        (rule mt_update_evolves[OF assms(1), where i = "claim_id cl"], simp,
          auto simp: mt_view_def same_task_def delete_conv' rec_final_def final_states_def intro!: tm_retry)
  next
    case False
    show ?thesis using True False x same assms(3)
      by (simp add: mt_finish_def Let_def)
        (rule mt_update_evolves[OF assms(1), where i = "claim_id cl"], simp,
          auto simp: mt_view_def same_task_def delete_conv' rec_final_def final_states_def intro!: tm_finish)
  qed
qed (use assms(1) in \<open>auto simp: mt_finish_def Let_def\<close>)

lemma mt_finish_held:
  assumes "mt_finish c cl r st allow s = (Inr y, s')" "st \<noteq> ''leased''"
  shows "held cl (mt_view s (claim_id cl)) \<and> \<not> held cl (mt_view s' (claim_id cl))"
proof -
  from assms(1) have "mt_claim_is_current (c 0) cl s (map_of (mt_records s) (claim_id cl))"
    by (auto simp: mt_finish_def Let_def split: if_splits)
  then have "held cl (mt_view s (claim_id cl))" by (rule mt_current)
  moreover have "\<not> held cl (mt_view s' (claim_id cl))"
    using assms by (auto simp: mt_finish_def Let_def mt_view_def held_def split: if_splits)
  ultimately show ?thesis by simp
qed

lemma mt_cancel_evolves:
  assumes "mt_inv s"
  shows "evolves mt_inv mt_view False token s (snd (mt_cancel c i why s))"
proof (cases "map_of (mt_records s) i")
  case (Some r)
  show ?thesis
  proof (cases "rec_final r")
    case False
    then show ?thesis using Some mt_inv_lookup[OF assms Some]
      by (simp add: mt_cancel_def)
        (rule mt_update_evolves[OF assms, where i = i], simp,
          auto simp: mt_view_def same_task_def rec_final_def final_states_def delete_conv' intro!: tm_cancel)
  qed (use Some assms in \<open>simp add: mt_cancel_def\<close>)
qed (use assms in \<open>simp add: mt_cancel_def\<close>)

interpretation mt: task_transport mt mt_init mt_inv mt_view False
proof
  show "mt_inv mt_init" "mt_view mt_init i = None" for i
    by (simp_all add: mt_init_def mt_inv_def mt_view_def)
next
  fix s c token w secs types nss cl s'
  assume "mt_inv s" "tp_claim mt c token w secs types nss s = (Some cl, s')"
  then show "claim_token cl = token \<and> issued cl (mt_view s' (claim_id cl))"
    using mt_claim_issued by (simp add: mt_def)
next
  fix s cl c r x s' assume "tp_complete mt c cl r s = (Inr x, s')"
  then show "held cl (mt_view s (claim_id cl)) \<and> \<not> held cl (mt_view s' (claim_id cl))"
    using mt_finish_held[of c cl r "''succeeded''"] by (simp add: mt_def mt_complete_def split: if_splits)
next
  fix s cl c r x s' assume "tp_fail mt c cl r s = (Inr x, s')"
  then show "held cl (mt_view s (claim_id cl)) \<and> \<not> held cl (mt_view s' (claim_id cl))"
    using mt_finish_held[of c cl r "''failed''"] by (simp add: mt_def mt_fail_def split: if_splits)
qed (auto simp: mt_def mt_complete_def mt_fail_def mt_recover_def
    intro: mt_submit_evolves mt_register_evolves mt_beat_worker_evolves mt_claim_evolves mt_heartbeat_evolves
      mt_heartbeat_held mt_finish_evolves mt_recover_evolves mt_cancel_evolves)

end
