(* ===== verification/Task_Redis.thy ===== *)
theory Task_Redis
  imports Task_Transport "HOL-Library.List_Lexorder" "HOL-Library.Char_ord"
begin

text \<open>
  \<open>RedisTaskTransport\<close> of \<open>resources/transport.py\<close>: the task values, the set of task
  identifiers, the queue, the set of leased tasks and the workers of one namespace. The namespace
  lock serialises the operations and the pipelines are transactions, so an operation is one step.
  A Redis set is a list without duplicates, in the order in which the server returns it.
\<close>

record task_redis =
  rt_tasks :: "(string \<times> stored_task) list"
  rt_ids :: "string list"
  rt_queue :: "string list"
  rt_leased :: "string list"
  rt_workers :: "(string \<times> worker) list"
  rt_worker_ids :: "string list"

definition rt_init :: task_redis where
  "rt_init = \<lparr>rt_tasks = [], rt_ids = [], rt_queue = [], rt_leased = [], rt_workers = [], rt_worker_ids = []\<rparr>"

definition rt_load :: "task_redis \<Rightarrow> string \<Rightarrow> stored_task option" where
  "rt_load s i = map_of (rt_tasks s) i"

definition rt_get :: "string \<Rightarrow> task_redis \<Rightarrow> task_record option" where
  "rt_get i s = map_option task_record.truncate (rt_load s i)"

definition rt_submit :: "clock \<Rightarrow> task \<Rightarrow> task_redis \<Rightarrow> task_record result \<times> task_redis" where
  "rt_submit c t s = (let now = c 0 in case rt_load s (task_id t) of
     Some r \<Rightarrow> if rec_task r \<noteq> t then (Inl TaskTransportError, s) else (Inr (task_record.truncate r), s)
   | None \<Rightarrow> let s1 = s\<lparr>rt_tasks := AList.update (task_id t) (queued_task t now) (rt_tasks s),
         rt_ids := sadd (task_id t) (rt_ids s), rt_queue := rt_queue s @ [task_id t]\<rparr>
       in case rt_get (task_id t) s1 of None \<Rightarrow> (Inl TaskTransportError, s1) | Some x \<Rightarrow> (Inr x, s1))"

definition rt_register :: "clock \<Rightarrow> worker \<Rightarrow> task_redis \<Rightarrow> worker \<times> task_redis" where
  "rt_register c w s = (let d = worker_heartbeat ''online'' (c 0) w
     in (d, s\<lparr>rt_workers := AList.update (worker_id d) d (rt_workers s),
              rt_worker_ids := sadd (worker_id d) (rt_worker_ids s)\<rparr>))"

definition rt_beat_worker :: "clock \<Rightarrow> string \<Rightarrow> string \<Rightarrow> task_redis \<Rightarrow> bool \<times> task_redis" where
  "rt_beat_worker c i st s = (case map_of (rt_workers s) i of
     None \<Rightarrow> (False, s)
   | Some w \<Rightarrow> let d = worker_heartbeat st (c 0) w
       in (True, s\<lparr>rt_workers := AList.update (worker_id d) d (rt_workers s)\<rparr>))"

definition rt_list_workers :: "time option \<Rightarrow> time \<Rightarrow> task_redis \<Rightarrow> worker list" where
  "rt_list_workers max_age now s = filter
     (\<lambda>w. case max_age of None \<Rightarrow> True | Some age \<Rightarrow> \<not> now - last_heartbeat_at w > age)
     (List.map_filter (map_of (rt_workers s)) (sort (rt_worker_ids s)))"

fun rt_recover_ids :: "clock \<Rightarrow> nat \<Rightarrow> time \<Rightarrow> string list \<Rightarrow> task_redis \<Rightarrow> nat \<times> task_redis" where
  "rt_recover_ids c n now [] s = (0, s)"
| "rt_recover_ids c n now (i # ids) s = (case rt_load s i of
     None \<Rightarrow> rt_recover_ids c n now ids (s\<lparr>rt_leased := removeAll i (rt_leased s)\<rparr>)
   | Some r \<Rightarrow>
       if rec_status r \<noteq> ''leased'' then rt_recover_ids c n now ids (s\<lparr>rt_leased := removeAll i (rt_leased s)\<rparr>)
       else if rec_expires r > now then rt_recover_ids c n now ids s
       else (case rt_recover_ids c (Suc n) now ids (s\<lparr>rt_tasks := AList.update i (lapse_task (c n) now r) (rt_tasks s),
                 rt_leased := removeAll i (rt_leased s),
                 rt_queue := (if rec_attempt r \<le> max_retries (rec_task r) then rt_queue s @ [i] else rt_queue s)\<rparr>)
             of (k, s') \<Rightarrow> (Suc k, s')))"

definition rt_recover_locked :: "clock \<Rightarrow> nat \<Rightarrow> time \<Rightarrow> task_redis \<Rightarrow> nat \<times> task_redis" where
  "rt_recover_locked c n now s = rt_recover_ids c n now (rt_leased s) s"

definition rt_recover :: "clock \<Rightarrow> task_redis \<Rightarrow> nat \<times> task_redis" where
  "rt_recover c s = rt_recover_locked c 1 (c 0) s"

definition rt_active :: "string \<Rightarrow> task_redis \<Rightarrow> int" where
  "rt_active w s = int (length (filter
     (\<lambda>i. case rt_load s i of None \<Rightarrow> False | Some r \<Rightarrow> rec_worker r = w) (rt_leased s)))"

text \<open>The scan of the queue: what it selects and the stale entries met before.\<close>

fun rt_scan :: "(task \<Rightarrow> bool) \<Rightarrow> task_redis \<Rightarrow> string list \<Rightarrow> (string \<times> stored_task) option \<times> string list" where
  "rt_scan elig s [] = (None, [])"
| "rt_scan elig s (i # ids) = (case rt_load s i of
     None \<Rightarrow> (case rt_scan elig s ids of (x, stale) \<Rightarrow> (x, i # stale))
   | Some r \<Rightarrow>
       if rec_status r \<noteq> ''queued'' then (case rt_scan elig s ids of (x, stale) \<Rightarrow> (x, i # stale))
       else if elig (rec_task r) then (Some (i, r), [])
       else rt_scan elig s ids)"

definition rt_claim :: "clock \<Rightarrow> string \<Rightarrow> worker \<Rightarrow> time \<Rightarrow> string list \<Rightarrow> string list \<Rightarrow> task_redis
    \<Rightarrow> claimed option \<times> task_redis" where
  "rt_claim c token w secs types namespaces s =
     (let (d, s0) = rt_register c w s;
          now = c 1;
          s1 = snd (rt_recover_locked c 2 now s0);
          active = rt_active (worker_id d) s1
      in if active \<ge> max_inflight d then (None, s1)
         else let (selected, stale) = rt_scan (eligible d types namespaces active) s1 (rt_queue s1);
                  s2 = s1\<lparr>rt_queue := fold removeAll stale (rt_queue s1)\<rparr>
           in case selected of
             None \<Rightarrow> (None, s2)
           | Some (i, r) \<Rightarrow>
               let attempt = rec_attempt r + 1; expires = now + lease_span secs
               in (Some (make_claim (rec_task r) (worker_id d) token attempt expires),
                   s2\<lparr>rt_tasks := AList.update i (r\<lparr>rec_status := ''leased'', rec_attempt := attempt,
                       rec_worker := worker_id d, rec_token := token, rec_expires := expires,
                       rec_result := None, rec_updated := now\<rparr>) (rt_tasks s2),
                     rt_queue := remove1 i (rt_queue s2), rt_leased := sadd i (rt_leased s2)\<rparr>))"

definition rt_claim_active :: "time \<Rightarrow> claimed \<Rightarrow> stored_task option \<Rightarrow> bool" where
  "rt_claim_active now cl x \<longleftrightarrow> (case x of None \<Rightarrow> False | Some r \<Rightarrow> claim_active now cl r)"

definition rt_heartbeat :: "clock \<Rightarrow> claimed \<Rightarrow> time \<Rightarrow> task_redis \<Rightarrow> bool \<times> task_redis" where
  "rt_heartbeat c cl secs s = (let now = c 0 in case rt_load s (claim_id cl) of
     None \<Rightarrow> (False, s)
   | Some r \<Rightarrow> if \<not> rt_claim_active now cl (Some r) then (False, s)
       else (True, s\<lparr>rt_tasks := AList.update (claim_id cl)
              (r\<lparr>rec_expires := now + lease_span secs, rec_updated := now\<rparr>) (rt_tasks s)\<rparr>))"

definition rt_finish :: "clock \<Rightarrow> claimed \<Rightarrow> task_result \<Rightarrow> string \<Rightarrow> bool \<Rightarrow> task_redis
    \<Rightarrow> task_record result \<times> task_redis" where
  "rt_finish c cl res st allow_retry s = (let now = c 0 in case rt_load s (claim_id cl) of
     None \<Rightarrow> (Inl TaskLeaseError, snd (rt_recover_locked c 1 now s))
   | Some r \<Rightarrow> if \<not> rt_claim_active now cl (Some r)
       then (Inl TaskLeaseError, snd (rt_recover_locked c 1 now s))
       else let retry = may_retry allow_retry cl;
                s1 = s\<lparr>rt_tasks := AList.update (claim_id cl) (finish_task retry st res now r) (rt_tasks s),
                  rt_leased := removeAll (claim_id cl) (rt_leased s),
                  rt_queue := (if retry then rt_queue s @ [claim_id cl] else rt_queue s)\<rparr>
            in case rt_get (claim_id cl) s1 of None \<Rightarrow> (Inl TaskTransportError, s1) | Some x \<Rightarrow> (Inr x, s1))"

definition rt_complete :: "clock \<Rightarrow> claimed \<Rightarrow> task_result \<Rightarrow> task_redis \<Rightarrow> task_record result \<times> task_redis" where
  "rt_complete c cl r s = (if result_task_id r \<noteq> claim_id cl then (Inl TaskLeaseError, s)
     else if \<not> result_ok r then (Inl TaskTransportError, s)
     else rt_finish c cl r ''succeeded'' False s)"

definition rt_fail :: "clock \<Rightarrow> claimed \<Rightarrow> task_result \<Rightarrow> task_redis \<Rightarrow> task_record result \<times> task_redis" where
  "rt_fail c cl r s = (if result_task_id r \<noteq> claim_id cl then (Inl TaskLeaseError, s)
     else if result_ok r then (Inl TaskTransportError, s)
     else rt_finish c cl r ''failed'' True s)"

definition rt_cancel :: "clock \<Rightarrow> string \<Rightarrow> string \<Rightarrow> task_redis \<Rightarrow> bool \<times> task_redis" where
  "rt_cancel c i why s = (let now = c 0 in case rt_load s i of
     None \<Rightarrow> (False, s)
   | Some r \<Rightarrow> if rec_status r \<noteq> ''queued'' then (False, s)
       else let res = task_failure (c 1) i why ''cancelled'' []
         in (True, s\<lparr>rt_tasks := AList.update i (r\<lparr>rec_status := ''cancelled'', rec_result := Some res,
                rec_error := why, rec_updated := now\<rparr>) (rt_tasks s),
              rt_queue := removeAll i (rt_queue s)\<rparr>))"

definition rt_counts :: "task_redis \<Rightarrow> string \<Rightarrow> nat option" where
  "rt_counts s st = (let n = length (filter (\<lambda>r. rec_status r = st) (List.map_filter (rt_load s) (sort (rt_ids s))))
     in if n = 0 then None else Some n)"

definition rt_wait_result :: "string \<Rightarrow> time option \<Rightarrow> time \<Rightarrow> (clock \<times> time \<times> (task_redis \<Rightarrow> task_redis)) list
    \<Rightarrow> task_redis \<Rightarrow> task_result option result option \<times> task_redis" where
  "rt_wait_result i timeout start = wait_loop (\<lambda>c s. snd (rt_recover c s)) rt_get i (wait_deadline timeout start)"

definition rt :: "task_redis transport" where
  "rt = \<lparr>tp_submit = rt_submit, tp_register = rt_register, tp_beat_worker = rt_beat_worker,
     tp_claim = rt_claim, tp_heartbeat = rt_heartbeat, tp_complete = rt_complete, tp_fail = rt_fail,
     tp_recover = rt_recover, tp_cancel = rt_cancel\<rparr>"

section \<open>The indexes and the values agree\<close>

definition has_status :: "string \<Rightarrow> stored_task option \<Rightarrow> bool" where
  "has_status st x \<longleftrightarrow> (\<exists>r. x = Some r \<and> rec_status r = st)"

lemma has_status_simps [simp]: "\<not> has_status st None" "has_status st (Some r) \<longleftrightarrow> rec_status r = st"
  by (simp_all add: has_status_def)

definition rt_inv :: "task_redis \<Rightarrow> bool" where
  "rt_inv s \<longleftrightarrow> (\<forall>i r. rt_load s i = Some r \<longrightarrow> task_id (rec_task r) = i \<and> i \<in> set (rt_ids s))
     \<and> distinct (rt_queue s) \<and> (\<forall>i. i \<in> set (rt_queue s) \<longleftrightarrow> has_status ''queued'' (rt_load s i))
     \<and> distinct (rt_leased s) \<and> (\<forall>i. i \<in> set (rt_leased s) \<longleftrightarrow> has_status ''leased'' (rt_load s i))"

lemma rt_invD:
  assumes "rt_inv s"
  shows "rt_load s i = Some r \<Longrightarrow> task_id (rec_task r) = i" "rt_load s i = Some r \<Longrightarrow> i \<in> set (rt_ids s)"
    "distinct (rt_queue s)" "i \<in> set (rt_queue s) \<longleftrightarrow> has_status ''queued'' (rt_load s i)"
    "distinct (rt_leased s)" "i \<in> set (rt_leased s) \<longleftrightarrow> has_status ''leased'' (rt_load s i)"
  using assms by (simp_all add: rt_inv_def)

lemma rt_load_other [simp]: "rt_load (s\<lparr>rt_leased := l\<rparr>) = rt_load s" "rt_load (s\<lparr>rt_queue := q\<rparr>) = rt_load s"
  "rt_load (s\<lparr>rt_ids := ids\<rparr>) = rt_load s" "rt_load (s\<lparr>rt_workers := ws\<rparr>) = rt_load s"
  "rt_load (s\<lparr>rt_worker_ids := wi\<rparr>) = rt_load s"
  by (simp_all add: rt_load_def fun_eq_iff)

text \<open>One value is written, and the queue and the leased set follow its status.\<close>

lemma rt_put_evolves:
  assumes inv: "rt_inv s" and key: "task_id (rec_task r') = i" and ids: "set (rt_ids s') = insert i (set (rt_ids s))"
    and load: "\<And>j. rt_load s' j = (if j = i then Some r' else rt_load s j)"
    and q: "distinct (rt_queue s')" "set (rt_queue s') - {i} = set (rt_queue s) - {i}"
      "i \<in> set (rt_queue s') \<longleftrightarrow> rec_status r' = ''queued''"
    and l: "distinct (rt_leased s')" "set (rt_leased s') - {i} = set (rt_leased s) - {i}"
      "i \<in> set (rt_leased s') \<longleftrightarrow> rec_status r' = ''leased''"
    and move: "task_move True token (rt_load s i) (Some r')"
  shows "evolves rt_inv rt_load True token s s'"
proof (rule evolves_single[where i = i])
  have "j \<in> set (rt_queue s') \<longleftrightarrow> has_status ''queued'' (rt_load s' j)" for j
    using q(2,3) rt_invD(4)[OF inv, of j] load[of j] by (cases "j = i") auto
  moreover have "j \<in> set (rt_leased s') \<longleftrightarrow> has_status ''leased'' (rt_load s' j)" for j
    using l(2,3) rt_invD(6)[OF inv, of j] load[of j] by (cases "j = i") auto
  moreover have "task_id (rec_task r) = j \<and> j \<in> set (rt_ids s')" if "rt_load s' j = Some r" for j r
    using that load[of j] rt_invD(1,2)[OF inv, of j r] key ids by (auto split: if_splits)
  ultimately show "rt_inv s'" using q(1) l(1) by (simp add: rt_inv_def)
qed (use load move in auto)

lemma rt_recover_ids_evolves:
  "rt_inv s \<Longrightarrow> evolves rt_inv rt_load True token s (snd (rt_recover_ids c n now ids s))"
proof (induction ids arbitrary: n s)
  case (Cons i ids)
  note inv = rt_invD[OF Cons.prems]
  show ?case
  proof (cases "has_status ''leased'' (rt_load s i)")
    case False
    then have "i \<notin> set (rt_leased s)" using inv(6) by simp
    then have "s\<lparr>rt_leased := removeAll i (rt_leased s)\<rparr> = s" by simp
    with False Cons show ?thesis by (auto split: option.splits)
  next
    case True
    then obtain r where r: "rt_load s i = Some r" "rec_status r = ''leased''" by (auto simp: has_status_def)
    let ?r = "lapse_task (c n) now r"
    let ?q = "if rec_attempt r \<le> max_retries (rec_task r) then rt_queue s @ [i] else rt_queue s"
    let ?s = "s\<lparr>rt_tasks := AList.update i ?r (rt_tasks s), rt_leased := removeAll i (rt_leased s), rt_queue := ?q\<rparr>"
    have nq: "i \<notin> set (rt_queue s)" using inv(4)[of i] r by simp
    have "evolves rt_inv rt_load True token s ?s"
      by (rule rt_put_evolves[OF Cons.prems, where i = i and r' = ?r])
        (use r nq inv(1,2)[OF r(1)] inv(3,5) lapse_move[OF r(2)] in \<open>auto simp: rt_load_def distinct_removeAll\<close>)
    moreover from this have "evolves rt_inv rt_load True token ?s (snd (rt_recover_ids c (Suc n) now ids ?s))"
      by (intro Cons.IH) (simp add: evolves_def)
    ultimately show ?thesis using r Cons.IH[OF Cons.prems]
      by (auto split: prod.splits intro: evolves_trans)
  qed
qed simp

lemma rt_recover_evolves:
  "rt_inv s \<Longrightarrow> evolves rt_inv rt_load True token s (snd (rt_recover_locked c n now s))"
  by (simp add: rt_recover_locked_def rt_recover_ids_evolves)

lemma rt_register_evolves: "rt_inv s \<Longrightarrow> evolves rt_inv rt_load True token s (snd (rt_register c w s))"
  by (simp add: rt_register_def Let_def evolves_def rt_inv_def)

lemma rt_beat_worker_evolves: "rt_inv s \<Longrightarrow> evolves rt_inv rt_load True token s (snd (rt_beat_worker c i st s))"
  by (simp add: rt_beat_worker_def Let_def evolves_def rt_inv_def split: option.splits)

lemma rt_submit_evolves:
  assumes "rt_inv s" "task_wf t"
  shows "evolves rt_inv rt_load True token s (snd (rt_submit c t s))"
proof (cases "rt_load s (task_id t)")
  case None
  let ?s = "s\<lparr>rt_tasks := AList.update (task_id t) (queued_task t (c 0)) (rt_tasks s),
    rt_ids := sadd (task_id t) (rt_ids s), rt_queue := rt_queue s @ [task_id t]\<rparr>"
  have "snd (rt_submit c t s) = ?s" using None by (simp add: rt_submit_def Let_def split: option.splits)
  moreover have "evolves rt_inv rt_load True token s ?s"
    by (rule rt_put_evolves[OF assms(1), where i = "task_id t" and r' = "queued_task t (c 0)"])
      (use None rt_invD(3-6)[OF assms(1)] assms(2) in \<open>auto simp: rt_load_def queued_task_def
        intro: tm_submit[unfolded queued_task_def]\<close>)
  ultimately show ?thesis by simp
qed (use assms(1) in \<open>simp add: rt_submit_def Let_def\<close>)

text \<open>In a consistent state the scan finds no stale entry.\<close>

lemma rt_scan_find:
  "\<forall>i\<in>set ids. has_status ''queued'' (rt_load s i) \<Longrightarrow> rt_scan elig s ids
    = (map_option (\<lambda>i. (i, the (rt_load s i))) (find (\<lambda>i. elig (rec_task (the (rt_load s i)))) ids), [])"
  by (induction ids) (auto simp: has_status_def)

definition rt_base :: "clock \<Rightarrow> worker \<Rightarrow> task_redis \<Rightarrow> task_redis" where
  "rt_base c w s = snd (rt_recover_locked c 2 (c 1) (snd (rt_register c w s)))"

lemma rt_base_evolves:
  assumes "rt_inv s"
  shows "evolves rt_inv rt_load True token s (rt_base c w s)"
proof -
  have r: "evolves rt_inv rt_load True token s (snd (rt_register c w s))" by (rule rt_register_evolves[OF assms])
  then have "rt_inv (snd (rt_register c w s))" by (simp add: evolves_def)
  with r show ?thesis unfolding rt_base_def by (blast intro: evolves_trans rt_recover_evolves)
qed

definition rt_lease :: "string \<Rightarrow> string \<Rightarrow> time \<Rightarrow> time \<Rightarrow> stored_task \<Rightarrow> stored_task" where
  "rt_lease w token expires now r = r\<lparr>rec_status := ''leased'', rec_attempt := rec_attempt r + 1,
     rec_worker := w, rec_token := token, rec_expires := expires, rec_result := None, rec_updated := now\<rparr>"

lemma rt_claim_cases:
  fixes c token w secs types nss s
  defines "d \<equiv> worker_heartbeat ''online'' (c 0) w" and "base \<equiv> rt_base c w s"
  assumes "rt_inv s"
  obtains "rt_claim c token w secs types nss s = (None, base)"
      "rt_active (worker_id d) base \<ge> max_inflight d \<or> (\<forall>i\<in>set (rt_queue base). \<forall>r. rt_load base i = Some r
         \<longrightarrow> \<not> eligible d types nss (rt_active (worker_id d) base) (rec_task r))"
  | i r where "rt_load base i = Some r" "rec_status r = ''queued''" "rt_active (worker_id d) base < max_inflight d"
      "find (\<lambda>i. eligible d types nss (rt_active (worker_id d) base) (rec_task (the (rt_load base i)))) (rt_queue base) = Some i"
      "rt_claim c token w secs types nss s =
        (Some (make_claim (rec_task r) (worker_id d) token (rec_attempt r + 1) (c 1 + lease_span secs)),
         base\<lparr>rt_tasks := AList.update i (rt_lease (worker_id d) token (c 1 + lease_span secs) (c 1) r) (rt_tasks base),
           rt_queue := remove1 i (rt_queue base), rt_leased := sadd i (rt_leased base)\<rparr>)"
proof -
  let ?act = "rt_active (worker_id d) base"
  let ?f = "find (\<lambda>i. eligible d types nss ?act (rec_task (the (rt_load base i)))) (rt_queue base)"
  obtain ws wi where reg: "rt_register c w s = (d, s\<lparr>rt_workers := ws, rt_worker_ids := wi\<rparr>)"
    by (simp add: rt_register_def d_def Let_def)
  have base: "snd (rt_recover_locked c 2 (c 1) (s\<lparr>rt_workers := ws, rt_worker_ids := wi\<rparr>)) = base"
    by (simp add: base_def rt_base_def reg)
  have inv: "rt_inv base" using rt_base_evolves[OF assms(3)] by (auto simp: base_def evolves_def)
  have scan: "rt_scan (eligible d types nss ?act) base (rt_queue base) = (map_option (\<lambda>i. (i, the (rt_load base i))) ?f, [])"
    by (rule rt_scan_find) (use rt_invD(4)[OF inv] in simp)
  have same: "base\<lparr>rt_queue := rt_queue base\<rparr> = base" by simp
  show thesis
  proof (cases "?act \<ge> max_inflight d \<or> ?f = None")
    case True
    then have "rt_claim c token w secs types nss s = (None, base)"
      by (auto simp: rt_claim_def reg base scan Let_def simp del: One_nat_def)
    then show ?thesis using that(1) True by (fastforce simp: find_None_iff')
  next
    case False
    then obtain i where i: "?f = Some i" by blast
    then obtain r where r: "rt_load base i = Some r" "rec_status r = ''queued''"
      using rt_invD(4)[OF inv, of i] by (auto simp: has_status_def dest!: find_SomeD)
    show ?thesis using that(2)[of i r] False i r
      by (simp add: rt_claim_def reg base scan Let_def rt_lease_def del: One_nat_def)
  qed
qed

lemma rt_lease_simps [simp]: "rec_task (rt_lease w token e now x) = rec_task x"
  "rec_status (rt_lease w token e now x) = ''leased''" "rec_attempt (rt_lease w token e now x) = rec_attempt x + 1"
  "rec_worker (rt_lease w token e now x) = w" "rec_token (rt_lease w token e now x) = token"
  "rec_expires (rt_lease w token e now x) = e"
  by (simp_all add: rt_lease_def)

lemma rt_lease_evolves:
  assumes inv: "rt_inv s" and r: "rt_load s i = Some r" "rec_status r = ''queued''"
  shows "evolves rt_inv rt_load True (Some token) s (s\<lparr>rt_tasks := AList.update i (rt_lease w token e now r) (rt_tasks s),
    rt_queue := remove1 i (rt_queue s), rt_leased := sadd i (rt_leased s)\<rparr>)"
  by (rule rt_put_evolves[OF inv, where i = i and r' = "rt_lease w token e now r"])
    (use r rt_invD(1,2)[OF inv r(1)] rt_invD(3,5)[OF inv] in \<open>auto simp: rt_load_def same_task_def intro!: tm_claim\<close>)

lemma rt_claim_evolves:
  assumes "rt_inv s"
  shows "evolves rt_inv rt_load True (Some token) s (snd (rt_claim c token w secs types nss s))"
proof (cases rule: rt_claim_cases[OF assms, of c token w secs types nss])
  case 1
  then show ?thesis using rt_base_evolves[OF assms] by simp
next
  case (2 i r)
  have b: "evolves rt_inv rt_load True (Some token) s (rt_base c w s)" by (rule rt_base_evolves[OF assms])
  then have "rt_inv (rt_base c w s)" by (simp add: evolves_def)
  from rt_lease_evolves[OF this 2(1,2)] show ?thesis
    unfolding 2(5) snd_conv by (rule evolves_trans[OF b])
qed

lemma rt_claim_issued:
  assumes "rt_inv s" "rt_claim c token w secs types nss s = (Some cl, s')"
  shows "claim_token cl = token \<and> issued cl (rt_load s' (claim_id cl))"
proof (cases rule: rt_claim_cases[OF assms(1), of c token w secs types nss])
  case 1
  then show ?thesis using assms(2) by simp
next
  case (2 i r)
  have "rt_inv (rt_base c w s)" using rt_base_evolves[OF assms(1)] by (auto simp: evolves_def)
  from rt_invD(1)[OF this 2(1)] show ?thesis using 2(5) assms(2)
    by (auto simp: issued_def make_claim_def rt_load_def)
qed

lemma rt_heartbeat_evolves:
  assumes "rt_inv s"
  shows "evolves rt_inv rt_load True token s (snd (rt_heartbeat c cl secs s))"
proof (cases "rt_load s (claim_id cl)")
  case (Some r)
  show ?thesis
  proof (cases "claim_active (c 0) cl r")
    case True
    let ?r = "r\<lparr>rec_expires := c 0 + lease_span secs, rec_updated := c 0\<rparr>"
    have "evolves rt_inv rt_load True token s (s\<lparr>rt_tasks := AList.update (claim_id cl) ?r (rt_tasks s)\<rparr>)"
      by (rule rt_put_evolves[OF assms, where i = "claim_id cl" and r' = ?r])
        (use True Some rt_invD(1,2)[OF assms Some] rt_invD(3-6)[OF assms]
          in \<open>auto simp: rt_load_def same_task_def claim_active_def intro!: tm_beat\<close>)
    then show ?thesis using True Some by (simp add: rt_heartbeat_def rt_claim_active_def Let_def)
  qed (use Some assms in \<open>simp add: rt_heartbeat_def rt_claim_active_def Let_def\<close>)
qed (use assms in \<open>simp add: rt_heartbeat_def Let_def\<close>)

lemma rt_heartbeat_held: "fst (rt_heartbeat c cl secs s) \<Longrightarrow> held cl (rt_load s (claim_id cl))"
  by (auto simp: rt_heartbeat_def rt_claim_active_def claim_active_def held_def Let_def split: option.splits if_splits)

lemma rt_finish_evolves:
  assumes inv: "rt_inv s" and gen: "genuine cl (rt_load s (claim_id cl))" and st: "st \<in> {''succeeded'', ''failed''}"
  shows "evolves rt_inv rt_load True token s (snd (rt_finish c cl res st allow s))"
proof (cases "rt_claim_active (c 0) cl (rt_load s (claim_id cl))")
  case True
  then obtain r where r: "rt_load s (claim_id cl) = Some r" "claim_active (c 0) cl r"
    by (auto simp: rt_claim_active_def split: option.splits)
  let ?r = "finish_task (may_retry allow cl) st res (c 0) r"
  let ?s = "s\<lparr>rt_tasks := AList.update (claim_id cl) ?r (rt_tasks s),
    rt_leased := removeAll (claim_id cl) (rt_leased s),
    rt_queue := (if may_retry allow cl then rt_queue s @ [claim_id cl] else rt_queue s)\<rparr>"
  have nq: "claim_id cl \<notin> set (rt_queue s)" using rt_invD(4)[OF inv, of "claim_id cl"] r by (simp add: claim_active_def)
  have "evolves rt_inv rt_load True token s ?s"
    by (rule rt_put_evolves[OF inv, where i = "claim_id cl" and r' = ?r])
      (use r nq st rt_invD(1,2)[OF inv r(1)] rt_invD(3,5)[OF inv] finish_move[OF r(2) gen[unfolded r(1)] st]
        in \<open>auto simp: rt_load_def distinct_removeAll\<close>)
  moreover have "snd (rt_finish c cl res st allow s) = ?s"
    using r by (simp add: rt_finish_def rt_claim_active_def Let_def split: option.splits)
  ultimately show ?thesis by simp
next
  case False
  then have "snd (rt_finish c cl res st allow s) = snd (rt_recover_locked c 1 (c 0) s)"
    by (cases "rt_load s (claim_id cl)") (simp_all add: rt_finish_def rt_claim_active_def Let_def)
  then show ?thesis using rt_recover_evolves[OF inv] by simp
qed

lemma rt_finish_held:
  assumes "rt_finish c cl res st allow s = (Inr y, s')" "st \<noteq> ''leased''"
  shows "held cl (rt_load s (claim_id cl)) \<and> \<not> held cl (rt_load s' (claim_id cl))"
proof -
  from assms(1) obtain r where r: "rt_load s (claim_id cl) = Some r" "claim_active (c 0) cl r"
    by (auto simp: rt_finish_def rt_claim_active_def Let_def split: option.splits if_splits)
  then show ?thesis using assms
    by (auto simp: rt_finish_def rt_claim_active_def claim_active_def held_def Let_def rt_load_def
        split: option.splits if_splits)
qed

lemma rt_cancel_evolves:
  assumes "rt_inv s"
  shows "evolves rt_inv rt_load True token s (snd (rt_cancel c i why s))"
proof (cases "has_status ''queued'' (rt_load s i)")
  case True
  then obtain r where r: "rt_load s i = Some r" "rec_status r = ''queued''" by (auto simp: has_status_def)
  have nl: "i \<notin> set (rt_leased s)" using rt_invD(6)[OF assms, of i] r by simp
  show ?thesis using r
    by (simp add: rt_cancel_def Let_def)
      (rule rt_put_evolves[OF assms, where i = i and r' = "r\<lparr>rec_status := ''cancelled'',
          rec_result := Some (task_failure (c (Suc 0)) i why ''cancelled'' []), rec_error := why, rec_updated := c 0\<rparr>"],
        use nl rt_invD(1,2)[OF assms r(1)] rt_invD(3,5)[OF assms]
        in \<open>auto simp: rt_load_def same_task_def distinct_removeAll intro!: tm_cancel\<close>)
qed (use assms in \<open>auto simp: rt_cancel_def Let_def split: option.splits\<close>)

interpretation rt: task_transport rt rt_init rt_inv rt_load True
proof
  show "rt_inv rt_init" "rt_load rt_init i = None" for i
    by (simp_all add: rt_init_def rt_inv_def rt_load_def)
next
  fix s c token w secs types nss cl s'
  assume "rt_inv s" "tp_claim rt c token w secs types nss s = (Some cl, s')"
  then show "claim_token cl = token \<and> issued cl (rt_load s' (claim_id cl))"
    using rt_claim_issued by (simp add: rt_def)
next
  fix s cl c r x s' assume "tp_complete rt c cl r s = (Inr x, s')"
  then show "held cl (rt_load s (claim_id cl)) \<and> \<not> held cl (rt_load s' (claim_id cl))"
    using rt_finish_held[of c cl r "''succeeded''"] by (simp add: rt_def rt_complete_def split: if_splits)
next
  fix s cl c r x s' assume "tp_fail rt c cl r s = (Inr x, s')"
  then show "held cl (rt_load s (claim_id cl)) \<and> \<not> held cl (rt_load s' (claim_id cl))"
    using rt_finish_held[of c cl r "''failed''"] by (simp add: rt_def rt_fail_def split: if_splits)
qed (auto simp: rt_def rt_complete_def rt_fail_def rt_recover_def
    intro: rt_submit_evolves rt_register_evolves rt_beat_worker_evolves rt_claim_evolves rt_heartbeat_evolves
      rt_heartbeat_held rt_finish_evolves rt_recover_evolves rt_cancel_evolves)

end
