(* ===== verification/Task_Properties.thy ===== *)
theory Task_Properties
  imports Task_SQLite Task_Memory Task_Redis
begin

text \<open>
  What producers and workers may rely on, over any sequence of calls to the transports of
  \<open>resources/transport.py\<close>: the life of a task, the bound on its attempts, the fencing of
  stale workers, which task a claim gets, and the polling loop; and how the in-memory transport
  departs from the contract. The lease tokens are \<open>uuid4().hex\<close>; that they are all different
  is the hypothesis \<open>inj uuid\<close>.
\<close>

section \<open>A concrete run\<close>

definition ex_uuid :: "nat \<Rightarrow> string" where
  "ex_uuid n = replicate n CHR ''u''"

lemma ex_uuid_inj: "inj ex_uuid"
  by (rule injI) (metis ex_uuid_def length_replicate)

definition ex_worker_offer :: offer where
  "ex_worker_offer = \<lparr>offer_threads = 4, offer_gpus = 0, offer_backend = ''local'', offer_device_tokens = [],
     offer_memory_mb = None, offer_gpu_memory_mb = None, offer_gpu_memory_by_device = [], offer_device_bindings = []\<rparr>"

definition ex_need :: requirement where
  "ex_need = \<lparr>need_threads = 1, need_gpus = 0, need_backend = ''local'', need_device_tokens = [], need_memory_mb = None,
     need_gpu_memory_mb = None, need_capabilities = [], need_timeout_seconds = None, need_metadata = JObj []\<rparr>"

definition ex_worker :: "string \<Rightarrow> worker" where
  "ex_worker i = \<lparr>worker_id = i, executor_backend = ''thread'', worker_resource_backend = ''local'', worker_host = ''h'',
     worker_capabilities = [], worker_offer = ex_worker_offer, max_inflight = 1, worker_status = ''online'',
     last_heartbeat_at = 0, worker_metadata = JObj []\<rparr>"

definition ex_task :: "string \<Rightarrow> int \<Rightarrow> task" where
  "ex_task i n = \<lparr>task_id = i, task_type = ''eval'', task_payload = JObj [], task_requirement = ex_need,
     task_executor = ''auto'', input_refs = [], output_refs = [], parent_task_id = None, trace_id = [],
     task_namespace = [], max_retries = n, task_created_at = 0, task_metadata = JObj []\<rparr>"

definition ex_result :: "string \<Rightarrow> string \<Rightarrow> task_result" where
  "ex_result i st = \<lparr>result_task_id = i, result_status = st, result_worker = [], result_lease = [], result_error = [],
     result_started_at = 0, result_finished_at = 0, result_body = JObj []\<rparr>"

text \<open>A task with one retry; its first worker lets the lease lapse, and a second one claims it.\<close>

definition ex_calls :: "(clock \<times> task_call) list" where
  "ex_calls = [(\<lambda>_. 1, Submit [] (ex_task ''t'' 1)), (\<lambda>_. 2, Claim (ex_worker ''w'') 10 [] []),
     (\<lambda>_. 20, Claim (ex_worker ''v'') 10 [] [])]"

abbreviation run_status :: "('s \<Rightarrow> string \<Rightarrow> stored_task option) \<Rightarrow> 's \<times> claimed list \<Rightarrow> (string \<times> int) option" where
  "run_status view x \<equiv> map_option (\<lambda>r. (rec_status r, rec_attempt r)) (view (fst x) ''t'')"

section \<open>The life of a task\<close>

text \<open>
  C9. On each of the three transports, whatever is called in between: a task that was submitted
  keeps its envelope, its attempt counter never goes back, and once it has succeeded, failed or been
  cancelled its record (result, error, time) does not change any more.
\<close>

theorem task_lifecycle:
  assumes "inj uuid"
  shows "task_later (sqt_view (fst (task_run sqt uuid es (sqt_init, []))) i)
      (sqt_view (fst (task_run sqt uuid (es @ fs) (sqt_init, []))) i)
    \<and> task_later (rt_load (fst (task_run rt uuid es (rt_init, []))) i)
      (rt_load (fst (task_run rt uuid (es @ fs) (rt_init, []))) i)
    \<and> task_later (mt_view (fst (task_run mt uuid es (mt_init, []))) i)
      (mt_view (fst (task_run mt uuid (es @ fs) (mt_init, []))) i)"
  using sqt.run_later[OF assms sqt.sound_run[OF assms sqt.sound_init]]
    rt.run_later[OF assms rt.sound_run[OF assms rt.sound_init]]
    mt.run_later[OF assms mt.sound_run[OF assms mt.sound_init]]
  by (simp add: task_run_append)

theorem task_lifecycle_witness:
  "let done = ex_calls @ [(\<lambda>_. 25, Complete 1 (ex_result ''t'' ''ok''))]; more = [(\<lambda>_. 40, Recover), (\<lambda>_. 41, Cancel ''t'' ''x'')] in
   run_status sqt_view (task_run sqt ex_uuid done (sqt_init, [])) = Some (''succeeded'', 2)
   \<and> task_later (sqt_view (fst (task_run sqt ex_uuid done (sqt_init, []))) ''t'')
       (sqt_view (fst (task_run sqt ex_uuid (done @ more) (sqt_init, []))) ''t'')"
proof -
  have "run_status sqt_view (task_run sqt ex_uuid (ex_calls @ [(\<lambda>_. 25, Complete 1 (ex_result ''t'' ''ok''))]) (sqt_init, []))
    = Some (''succeeded'', 2)"
    by code_simp
  then show ?thesis
    unfolding Let_def using task_lifecycle[OF ex_uuid_inj] by blast
qed

text \<open>
  C10. On the durable transports a task is attempted at most \<open>max_retries + 1\<close> times, and it is
  queued again only while retries are left, however its leases are lost, failed or recovered.
\<close>

theorem attempts_bounded:
  assumes "inj uuid"
    and "sqt_view (fst (task_run sqt uuid es (sqt_init, []))) i = Some r \<or> rt_load (fst (task_run rt uuid es (rt_init, []))) i = Some r"
  shows "0 \<le> rec_attempt r \<and> rec_attempt r \<le> max_retries (rec_task r) + 1
    \<and> (rec_status r = ''queued'' \<longrightarrow> rec_attempt r \<le> max_retries (rec_task r))"
  using assms(2) sqt.run_attempts[OF assms(1), of es i r] rt.run_attempts[OF assms(1), of es i r]
  by (auto simp: task_ok_def)

theorem attempts_bounded_witness:
  "\<exists>r. sqt_view (fst (task_run sqt ex_uuid ex_calls (sqt_init, []))) ''t'' = Some r
     \<and> rec_attempt r = 2 \<and> max_retries (rec_task r) = 1 \<and> rec_attempt r \<le> max_retries (rec_task r) + 1"
proof -
  have "map_option (\<lambda>r. (rec_attempt r, max_retries (rec_task r)))
      (sqt_view (fst (task_run sqt ex_uuid ex_calls (sqt_init, []))) ''t'') = Some (2, 1)"
    by code_simp
  then obtain r where r: "sqt_view (fst (task_run sqt ex_uuid ex_calls (sqt_init, []))) ''t'' = Some r"
    "rec_attempt r = 2" "max_retries (rec_task r) = 1" by auto
  then show ?thesis using attempts_bounded[OF ex_uuid_inj, of ex_calls "''t''" r] by blast
qed

section \<open>Stale workers\<close>

text \<open>
  C11. SQLite: once a later claim for the same task has been issued, nothing that a worker does
  under an earlier claim is accepted: no heartbeat, no completion, no failure.
\<close>

theorem sql_superseded_claim:
  assumes "inj uuid" "x = task_run sqt uuid es (sqt_init, [])" "j < k" "k < length (snd x)"
    "claim_id (snd x ! j) = claim_id (snd x ! k)" "acts_on j e"
  shows "\<not> accepted (fst (task_step sqt uuid (c, e) x))"
  by (rule sqt.superseded[OF assms])

theorem sql_superseded_claim_witness:
  "let x = task_run sqt ex_uuid ex_calls (sqt_init, []) in length (snd x) = 2
   \<and> \<not> accepted (fst (task_step sqt ex_uuid (\<lambda>_. 5, Complete 0 (ex_result ''t'' ''ok'')) x))
   \<and> accepted (fst (task_step sqt ex_uuid (\<lambda>_. 25, Complete 1 (ex_result ''t'' ''ok'')) x))"
proof -
  let ?x = "task_run sqt ex_uuid ex_calls (sqt_init, [])"
  have "length (snd ?x) = 2" "claim_id (snd ?x ! 0) = claim_id (snd ?x ! 1)"
    "accepted (fst (task_step sqt ex_uuid (\<lambda>_. 25, Complete 1 (ex_result ''t'' ''ok'')) ?x))" by code_simp+
  then show ?thesis
    unfolding Let_def using sql_superseded_claim[OF ex_uuid_inj refl, of 0 1 ex_calls "Complete 0 (ex_result ''t'' ''ok'')"]
    by (auto simp: acts_on_def)
qed

text \<open>
  Redis: the same, although a refused completion also recovers the lapsed leases.
\<close>

theorem redis_superseded_claim:
  assumes "inj uuid" "x = task_run rt uuid es (rt_init, [])" "j < k" "k < length (snd x)"
    "claim_id (snd x ! j) = claim_id (snd x ! k)" "acts_on j e"
  shows "\<not> accepted (fst (task_step rt uuid (c, e) x))"
  by (rule rt.superseded[OF assms])

theorem redis_superseded_claim_witness:
  "let x = task_run rt ex_uuid ex_calls (rt_init, []) in length (snd x) = 2
   \<and> \<not> accepted (fst (task_step rt ex_uuid (\<lambda>_. 5, Heartbeat 0 10) x))
   \<and> accepted (fst (task_step rt ex_uuid (\<lambda>_. 25, Heartbeat 1 10) x))"
proof -
  let ?x = "task_run rt ex_uuid ex_calls (rt_init, [])"
  have "length (snd ?x) = 2" "claim_id (snd ?x ! 0) = claim_id (snd ?x ! 1)"
    "accepted (fst (task_step rt ex_uuid (\<lambda>_. 25, Heartbeat 1 10) ?x))" by code_simp+
  then show ?thesis
    unfolding Let_def using redis_superseded_claim[OF ex_uuid_inj refl, of 0 1 ex_calls "Heartbeat 0 10"]
    by (auto simp: acts_on_def)
qed

text \<open>
  SQLite: a claim is finished at most once. After a completion or failure under it was
  accepted, no heartbeat, completion or failure under it is accepted, whatever else is called, also
  when the task was queued again for a retry.
\<close>

theorem sql_finished_once:
  assumes "inj uuid" "x = task_run sqt uuid es (sqt_init, [])" "finishes k e"
    "accepted (fst (task_step sqt uuid (c, e) x))" "y = task_run sqt uuid fs (snd (task_step sqt uuid (c, e) x))"
    "acts_on k e'"
  shows "\<not> accepted (fst (task_step sqt uuid (c', e') y))"
  by (rule sqt.finished_once[OF assms])

theorem sql_finished_once_witness:
  "let x = task_run sqt ex_uuid ex_calls (sqt_init, []); e = (\<lambda>_. 25, Fail 1 (ex_result ''t'' ''bad''))
   in accepted (fst (task_step sqt ex_uuid e x))
     \<and> \<not> accepted (fst (task_step sqt ex_uuid (\<lambda>_. 26, Complete 1 (ex_result ''t'' ''ok''))
           (task_run sqt ex_uuid [(\<lambda>_. 25, Recover)] (snd (task_step sqt ex_uuid e x)))))"
proof -
  have "accepted (fst (task_step sqt ex_uuid (\<lambda>_. 25, Fail 1 (ex_result ''t'' ''bad''))
      (task_run sqt ex_uuid ex_calls (sqt_init, []))))" by code_simp
  moreover have "finishes 1 (Fail 1 (ex_result ''t'' ''bad''))" "acts_on 1 (Complete 1 (ex_result ''t'' ''ok''))"
    by (simp_all add: finishes_def acts_on_def)
  ultimately show ?thesis unfolding Let_def using sql_finished_once[OF ex_uuid_inj refl _ _ refl] by blast
qed

text \<open>
  Redis: a claim is finished at most once.
\<close>

theorem redis_finished_once:
  assumes "inj uuid" "x = task_run rt uuid es (rt_init, [])" "finishes k e"
    "accepted (fst (task_step rt uuid (c, e) x))" "y = task_run rt uuid fs (snd (task_step rt uuid (c, e) x))"
    "acts_on k e'"
  shows "\<not> accepted (fst (task_step rt uuid (c', e') y))"
  by (rule rt.finished_once[OF assms])

theorem redis_finished_once_witness:
  "let x = task_run rt ex_uuid [(\<lambda>_. 1, Submit [] (ex_task ''t'' 1)), (\<lambda>_. 2, Claim (ex_worker ''w'') 10 [] [])] (rt_init, []);
     e = (\<lambda>_. 5, Fail 0 (ex_result ''t'' ''bad''))
   in accepted (fst (task_step rt ex_uuid e x))
     \<and> \<not> accepted (fst (task_step rt ex_uuid (\<lambda>_. 6, Heartbeat 0 10)
           (task_run rt ex_uuid [(\<lambda>_. 5, Claim (ex_worker ''w'') 10 [] [])] (snd (task_step rt ex_uuid e x)))))"
proof -
  let ?es = "[(\<lambda>_. 1, Submit [] (ex_task ''t'' 1)), (\<lambda>_. 2, Claim (ex_worker ''w'') 10 [] [])]"
  have "accepted (fst (task_step rt ex_uuid (\<lambda>_. 5, Fail 0 (ex_result ''t'' ''bad''))
      (task_run rt ex_uuid ?es (rt_init, []))))" by code_simp
  moreover have "finishes 0 (Fail 0 (ex_result ''t'' ''bad''))" "acts_on 0 (Heartbeat 0 10)"
    by (simp_all add: finishes_def acts_on_def)
  ultimately show ?thesis unfolding Let_def using redis_finished_once[OF ex_uuid_inj refl _ _ refl] by blast
qed

section \<open>Which task a claim gets\<close>

lemma find_sort_key:
  assumes "find P (sort_key k xs) = Some x" "y \<in> set xs" "P y"
  shows "k x \<le> k y"
proof -
  let ?ys = "sort_key k xs"
  from assms(1) obtain i where i: "i < length ?ys" "x = ?ys ! i" "\<forall>j<i. \<not> P (?ys ! j)"
    by (auto simp: find_Some_iff)
  from assms(2) obtain j where j: "j < length ?ys" "y = ?ys ! j"
    by (metis in_set_conv_nth set_sort)
  then have "i \<le> j" using i(3) assms(3) not_le by blast
  then have "map k ?ys ! i \<le> map k ?ys ! j"
    using j(1) by (intro sorted_nth_mono) auto
  then show ?thesis using i j by simp
qed

lemma fst_SomeD: "map_option f (fst p) = Some y \<Longrightarrow> \<exists>x s. p = (Some x, s) \<and> f x = y"
  by (cases p) auto

lemma count_one_more:
  assumes "distinct (map key rows)" "r \<in> set rows" "\<not> P r" "P (f r)"
  shows "tbl_count P (tbl_update (\<lambda>x. x = r) f rows) = Suc (tbl_count P rows)"
  using assms(1,2)
proof (induction rows)
  case (Cons x rows)
  show ?case
  proof (cases "x = r")
    case True
    then have "r \<notin> set rows" using Cons.prems(1) by auto
    then have "tbl_update (\<lambda>x. x = r) f rows = rows" by (auto intro!: tbl_update_none)
    then show ?thesis using True assms(3,4) by simp
  qed (use Cons in auto)
qed simp

text \<open>
  SQLite: the outcome of a claim. It returns nothing only when the worker's inflight limit is
  reached or no queued task fits it. Otherwise it takes, among the queued tasks that fit the worker
  and the filters, the oldest (by time of submission, then by identifier), leases exactly that row
  to the worker with the next attempt number, and the worker's leased rows stay within its limit.
\<close>

theorem sql_claim_outcome:
  fixes c token w secs types nss db
  defines "d \<equiv> worker_heartbeat ''online'' (c 0) w" and "base \<equiv> claim_base c w db"
  defines "fits \<equiv> \<lambda>r. rec_status r = ''queued'' \<and> eligible d types nss (sqt_active (worker_id d) base) (rec_task r)"
  assumes "sqt_inv db"
  shows "case sqt_claim c token w secs types nss db of
      (None, db') \<Rightarrow> db' = base
        \<and> (max_inflight d \<le> sqt_active (worker_id d) base \<or> (\<forall>r\<in>set (task_rows base). \<not> fits r))
    | (Some cl, db') \<Rightarrow> sqt_active (worker_id d) db' \<le> max_inflight d
        \<and> (\<exists>r\<in>set (task_rows base). fits r
            \<and> (\<forall>x\<in>set (task_rows base). fits x \<longrightarrow> (row_created_at r, row_id r) \<le> (row_created_at x, row_id x))
            \<and> cl = make_claim (rec_task r) (worker_id d) token (rec_attempt r + 1) (c 1 + lease_span secs)
            \<and> db' = base\<lparr>task_rows := tbl_update (\<lambda>x. x = r)
                (leased_row (worker_id d) token (c 1 + lease_span secs) (c 1)) (task_rows base)\<rparr>)"
proof (cases rule: sqt_claim_cases[OF assms(4), of c token w secs types nss])
  case 1
  then show ?thesis by (auto simp: d_def base_def fits_def sqt_queue_def)
next
  case (2 r)
  have inv: "sqt_inv base" using claim_base_inv[OF assms(4)] by (simp add: base_def)
  have r: "r \<in> set (task_rows base)" "fits r"
    using 2(1,2,4) by (auto simp: base_def fits_def d_def dest!: find_SomeD)
  have first: "(row_created_at r, row_id r) \<le> (row_created_at x, row_id x)"
    if "x \<in> set (task_rows base)" "fits x" for x
    by (rule find_sort_key[OF 2(4)[unfolded sqt_queue_def, folded d_def base_def]])
      (use that in \<open>auto simp: fits_def\<close>)
  let ?f = "leased_row (worker_id d) token (c 1 + lease_span secs) (c 1) :: task_row \<Rightarrow> task_row"
  let ?db = "base\<lparr>task_rows := tbl_update (\<lambda>x. x = r) ?f (task_rows base)\<rparr>"
  have "sqt_active (worker_id d) ?db = sqt_active (worker_id d) base + 1"
    using count_one_more[of row_id "task_rows base" r "\<lambda>r. rec_status r = ''leased'' \<and> rec_worker r = worker_id d" ?f]
      inv r by (simp add: sqt_active_def sqt_inv_def fits_def)
  then show ?thesis using 2(3,5) r first unfolding d_def[symmetric] base_def[symmetric] by auto
qed

theorem sql_claim_outcome_witness:
  "let db = fst (task_run sqt ex_uuid [(\<lambda>_. 1, Submit [] (ex_task ''b'' 1)), (\<lambda>_. 1, Submit [] (ex_task ''a'' 1))] (sqt_init, []))
   in \<exists>cl db'. sqt_claim (\<lambda>_. 2) [] (ex_worker ''w'') 10 [] [] db = (Some cl, db') \<and> claim_id cl = ''a''
      \<and> sqt_active ''w'' db' \<le> 1"
proof -
  let ?db = "fst (task_run sqt ex_uuid [(\<lambda>_. 1, Submit [] (ex_task ''b'' 1)), (\<lambda>_. 1, Submit [] (ex_task ''a'' 1))] (sqt_init, []))"
  have inv: "sqt_inv ?db" by code_simp
  have "map_option claim_id (fst (sqt_claim (\<lambda>_. 2) [] (ex_worker ''w'') 10 [] [] ?db)) = Some ''a''" by code_simp
  from fst_SomeD[OF this] obtain cl db' where eq: "sqt_claim (\<lambda>_. 2) [] (ex_worker ''w'') 10 [] [] ?db = (Some cl, db')" "claim_id cl = ''a''"
    by blast
  have "worker_id (worker_heartbeat ''online'' 2 (ex_worker ''w'')) = ''w''"
    "max_inflight (worker_heartbeat ''online'' 2 (ex_worker ''w'')) = 1" by code_simp+
  moreover from sql_claim_outcome[OF inv, where c = "\<lambda>_. 2" and token = "[]" and w = "ex_worker ''w''" and secs = 10
      and types = "[]" and nss = "[]", unfolded eq(1) prod.case option.case]
  have "sqt_active (worker_id (worker_heartbeat ''online'' 2 (ex_worker ''w''))) db'
    \<le> max_inflight (worker_heartbeat ''online'' 2 (ex_worker ''w''))" by (rule conjunct1)
  ultimately have "sqt_active ''w'' db' \<le> 1" by (simp only:)
  with eq show ?thesis unfolding Let_def by blast
qed

text \<open>
  Redis: the outcome of a claim in any reachable state. It returns nothing only when the
  worker's limit is reached or no stored queued task fits it: the queue never loses a task, so a
  task that is queued can be claimed. Otherwise it takes the first task of the queue that fits.
\<close>

theorem redis_claim_outcome:
  fixes c token w secs types nss s
  defines "d \<equiv> worker_heartbeat ''online'' (c 0) w" and "base \<equiv> rt_base c w s"
  defines "fits \<equiv> \<lambda>r. rec_status r = ''queued'' \<and> eligible d types nss (rt_active (worker_id d) base) (rec_task r)"
  assumes "inj uuid" "s = fst (task_run rt uuid es (rt_init, []))"
  shows "case rt_claim c token w secs types nss s of
      (None, s') \<Rightarrow> s' = base \<and> (max_inflight d \<le> rt_active (worker_id d) base
        \<or> (\<forall>i r. rt_load base i = Some r \<longrightarrow> \<not> fits r))
    | (Some cl, s') \<Rightarrow> rt_active (worker_id d) base < max_inflight d
        \<and> (\<exists>before i after r. rt_queue base = before @ i # after \<and> rt_load base i = Some r \<and> fits r
            \<and> (\<forall>j\<in>set before. \<forall>x. rt_load base j = Some x \<longrightarrow> \<not> fits x)
            \<and> cl = make_claim (rec_task r) (worker_id d) token (rec_attempt r + 1) (c 1 + lease_span secs)
            \<and> rt_queue s' = before @ after \<and> rt_leased s' = sadd i (rt_leased base))"
proof -
  have "rt_inv s" using rt.sound_run[OF assms(4) rt.sound_init, of es] assms(5) by (auto simp: rt.sound_def)
  then have inv: "rt_inv base" using rt_base_evolves by (auto simp: evolves_def base_def)
  let ?P = "\<lambda>i. eligible d types nss (rt_active (worker_id d) base) (rec_task (the (rt_load base i)))"
  show ?thesis
  proof (cases rule: rt_claim_cases[OF \<open>rt_inv s\<close>, of c token w secs types nss])
    case 1
    then show ?thesis using rt_invD(4)[OF inv] unfolding d_def[symmetric] base_def[symmetric]
      by (auto simp: fits_def has_status_def)
  next
    case (2 i r)
    from 2(4) obtain n where n: "n < length (rt_queue base)" "i = rt_queue base ! n" "\<forall>m<n. \<not> ?P (rt_queue base ! m)"
      by (auto simp: find_Some_iff d_def base_def)
    let ?xs = "take n (rt_queue base)" and ?ys = "drop (Suc n) (rt_queue base)"
    have q: "rt_queue base = ?xs @ i # ?ys" using n by (simp add: id_take_nth_drop)
    have "i \<notin> set ?xs" using rt_invD(3)[OF inv] q by (metis disjoint_iff distinct_append list.set_intros(1))
    then have rm: "remove1 i (rt_queue base) = ?xs @ ?ys" by (subst q) (simp add: remove1_append)
    have "fits r" using 2(1,2,4) by (auto simp: fits_def d_def base_def dest!: find_SomeD)
    moreover have "\<not> fits x" if "j \<in> set ?xs" "rt_load base j = Some x" for j x
      using n that by (auto simp: fits_def in_set_conv_nth)
    ultimately have "rt_queue base = ?xs @ i # ?ys \<and> rt_load base i = Some r \<and> fits r
        \<and> (\<forall>j\<in>set ?xs. \<forall>x. rt_load base j = Some x \<longrightarrow> \<not> fits x)"
      using q 2(1) by (simp add: base_def)
    with 2(3,5) rm show ?thesis unfolding d_def[symmetric] base_def[symmetric]
      by (simp del: One_nat_def) metis
  qed
qed

theorem redis_claim_outcome_witness:
  "let s = fst (task_run rt ex_uuid [(\<lambda>_. 1, Submit [] (ex_task ''b'' 1)), (\<lambda>_. 1, Submit [] (ex_task ''a'' 1))] (rt_init, []))
   in \<exists>cl s'. rt_claim (\<lambda>_. 2) [] (ex_worker ''w'') 10 [] [] s = (Some cl, s') \<and> claim_id cl = ''b''
      \<and> rt_active ''w'' (rt_base (\<lambda>_. 2) (ex_worker ''w'') s) < 1"
proof -
  let ?s = "fst (task_run rt ex_uuid [(\<lambda>_. 1, Submit [] (ex_task ''b'' 1)), (\<lambda>_. 1, Submit [] (ex_task ''a'' 1))] (rt_init, []))"
  have "map_option claim_id (fst (rt_claim (\<lambda>_. 2) [] (ex_worker ''w'') 10 [] [] ?s)) = Some ''b''" by code_simp
  from fst_SomeD[OF this] obtain cl s' where eq: "rt_claim (\<lambda>_. 2) [] (ex_worker ''w'') 10 [] [] ?s = (Some cl, s')" "claim_id cl = ''b''"
    by blast
  have "worker_id (worker_heartbeat ''online'' 2 (ex_worker ''w'')) = ''w''"
    "max_inflight (worker_heartbeat ''online'' 2 (ex_worker ''w'')) = 1" by code_simp+
  moreover from redis_claim_outcome[OF ex_uuid_inj refl, where c = "\<lambda>_. 2" and token = "[]" and w = "ex_worker ''w''"
      and secs = 10 and types = "[]" and nss = "[]"
      and es = "[(\<lambda>_. 1, Submit [] (ex_task ''b'' 1)), (\<lambda>_. 1, Submit [] (ex_task ''a'' 1))]",
      unfolded eq(1) prod.case option.case]
  have "rt_active (worker_id (worker_heartbeat ''online'' 2 (ex_worker ''w''))) (rt_base (\<lambda>_. 2) (ex_worker ''w'') ?s)
    < max_inflight (worker_heartbeat ''online'' 2 (ex_worker ''w''))" by (rule conjunct1)
  ultimately have "rt_active ''w'' (rt_base (\<lambda>_. 2) (ex_worker ''w'') ?s) < 1" by (simp only:)
  with eq show ?thesis unfolding Let_def by blast
qed

section \<open>Waiting for a result\<close>




section \<open>The in-memory transport is weaker\<close>

text \<open>
  The in-memory transport does not keep the contract of the durable ones, although its
  documentation says so: a task without retries whose lease lapses is attempted again, and a leased
  task can be cancelled under its worker. The durable transports fail the first and refuse the second.
\<close>

theorem memory_transport_departs:
  "let lapse = [(\<lambda>_. 1, Submit [] (ex_task ''t'' 0)), (\<lambda>_. 2, Claim (ex_worker ''w'') 10 [] []),
         (\<lambda>_. 20, Claim (ex_worker ''v'') 10 [] [])];
       cancel = [(\<lambda>_. 1, Submit [] (ex_task ''t'' 0)), (\<lambda>_. 2, Claim (ex_worker ''w'') 10 [] []), (\<lambda>_. 3, Cancel ''t'' [])]
   in run_status mt_view (task_run mt ex_uuid lapse (mt_init, [])) = Some (''leased'', 2)
    \<and> run_status sqt_view (task_run sqt ex_uuid lapse (sqt_init, [])) = Some (''failed'', 1)
    \<and> run_status rt_load (task_run rt ex_uuid lapse (rt_init, [])) = Some (''failed'', 1)
    \<and> run_status mt_view (task_run mt ex_uuid cancel (mt_init, [])) = Some (''cancelled'', 1)
    \<and> run_status sqt_view (task_run sqt ex_uuid cancel (sqt_init, [])) = Some (''leased'', 1)
    \<and> run_status rt_load (task_run rt ex_uuid cancel (rt_init, [])) = Some (''leased'', 1)"
  by code_simp

end
