(* ===== verification/Resource_Context.thy ===== *)
theory Resource_Context
  imports Resource_Model
begin

text \<open>
  \<open>ResourceContext\<close> of \<open>resources/context.py\<close>: the passive view of a grant under a lease
  that a Case receives. The mappings \<open>grant\<close> and \<open>lease\<close> are records of the keys that the
  program reads; a key is missing, null or has a value.
\<close>

section \<open>Mappings\<close>

datatype 'a entry = Missing | Null | Val 'a

text \<open>\<open>m.get(k, d)\<close>, and \<open>x or d\<close> on the result.\<close>

definition entry_get :: "'a entry \<Rightarrow> 'a entry \<Rightarrow> 'a entry" where
  "entry_get e d = (case e of Missing \<Rightarrow> d | _ \<Rightarrow> e)"

definition num_or :: "'a::zero entry \<Rightarrow> 'a \<Rightarrow> 'a" where
  "num_or e d = (case e of Val x \<Rightarrow> if x = 0 then d else x | _ \<Rightarrow> d)"

definition text_or :: "string entry \<Rightarrow> string \<Rightarrow> string" where
  "text_or e d = (case e of Val x \<Rightarrow> if x = [] then d else x | _ \<Rightarrow> d)"

definition list_or :: "'a list entry \<Rightarrow> 'a list" where
  "list_or e = (case e of Val x \<Rightarrow> x | _ \<Rightarrow> [])"

record grant_map =
  g_workers :: "int entry"
  g_threads :: "int entry"
  g_gpus :: "int entry"
  g_memory_mb :: "rat entry"
  g_gpu_memory_mb :: "rat entry"
  g_device_tokens :: "string list entry"
  g_capabilities :: "string list entry"
  g_backend :: "string entry"
  g_compute_backend :: "string entry"
  g_device :: "string entry"
  g_resolved_devices :: "(string \<times> string) list entry"

definition empty_grant :: grant_map where
  "empty_grant = \<lparr>g_workers = Missing, g_threads = Missing, g_gpus = Missing, g_memory_mb = Missing,
     g_gpu_memory_mb = Missing, g_device_tokens = Missing, g_capabilities = Missing, g_backend = Missing,
     g_compute_backend = Missing, g_device = Missing, g_resolved_devices = Missing\<rparr>"

record lease_map =
  lm_lease_id :: string
  lm_fencing_token :: int
  lm_resources :: grant_map

section \<open>Contexts\<close>

record resource_context =
  ctx_scope :: string
  ctx_execution_backend :: string
  ctx_compute_backend :: string
  ctx_device :: string
  ctx_threads :: int
  ctx_nested :: bool
  ctx_namespace :: string
  ctx_grant :: grant_map
  ctx_lease :: lease_map
  ctx_metadata :: "(string \<times> json) list"

definition context_post_init :: "resource_context \<Rightarrow> resource_context" where
  "context_post_init x = x\<lparr>
     ctx_scope := or_default (ctx_scope x) ''training'',
     ctx_execution_backend := or_default (ctx_execution_backend x) ''outer'',
     ctx_compute_backend := or_default (ctx_compute_backend x) ''auto'',
     ctx_device := or_default (ctx_device x) ''cpu'',
     ctx_threads := max 1 (if ctx_threads x = 0 then 1 else ctx_threads x)\<rparr>"

text \<open>\<open>{**a, **b}\<close>, and \<open>value.strip(".")\<close>.\<close>

definition dict_merge :: "(string \<times> 'a) list \<Rightarrow> (string \<times> 'a) list \<Rightarrow> (string \<times> 'a) list" where
  "dict_merge a b = fold (\<lambda>(k, v). AList.update k v) b a"

definition strip_dots :: "string \<Rightarrow> string" where
  "strip_dots s = rev (dropWhile (\<lambda>ch. ch = CHR ''.'') (rev (dropWhile (\<lambda>ch. ch = CHR ''.'') s)))"

definition derive_view :: "string \<Rightarrow> string \<Rightarrow> (string \<times> json) list \<Rightarrow> resource_context \<Rightarrow> resource_context" where
  "derive_view scope namespace_suffix metadata x =
     (let suffix = strip_dots namespace_suffix;
          ns = strip_dots (ctx_namespace x);
          namespace = (if suffix \<noteq> [] then (if ns \<noteq> [] then ns @ ''.'' @ suffix else suffix) else ns)
      in context_post_init (x\<lparr>ctx_scope := or_default scope (ctx_scope x), ctx_nested := True,
           ctx_namespace := namespace,
           ctx_metadata := dict_merge (dict_merge (ctx_metadata x)
             [(''parent_namespace'', JStr (ctx_namespace x)),
              (''parent_lease_id'', JStr (lm_lease_id (ctx_lease x))),
              (''resource_view_non_owning'', JBool True)]) metadata\<rparr>))"

end
