(* ===== verification/Grant_Pool.thy ===== *)
theory Grant_Pool
  imports Resource_Context
begin

text \<open>
  \<open>ResourceGrantPool\<close> of \<open>resources/grant_pool.py\<close>: concurrent children of one parent grant.
  A pool is what its parent grants in total, what is still available, and the active subgrants.
  \<open>acquire\<close> is a context manager: \<open>gp_acquire\<close> is its entry (the waiting loop included) and
  \<open>gp_release\<close> its exit, each under the pool's condition variable.
\<close>

section \<open>State\<close>

record quantities =
  q_workers :: int
  q_threads :: int
  q_gpus :: int
  q_memory :: rat
  q_gpu_memory :: rat

definition q_plus :: "quantities \<Rightarrow> quantities \<Rightarrow> quantities" where
  "q_plus a b = \<lparr>q_workers = q_workers a + q_workers b, q_threads = q_threads a + q_threads b,
     q_gpus = q_gpus a + q_gpus b, q_memory = q_memory a + q_memory b, q_gpu_memory = q_gpu_memory a + q_gpu_memory b\<rparr>"

definition q_minus :: "quantities \<Rightarrow> quantities \<Rightarrow> quantities" where
  "q_minus a b = \<lparr>q_workers = q_workers a - q_workers b, q_threads = q_threads a - q_threads b,
     q_gpus = q_gpus a - q_gpus b, q_memory = q_memory a - q_memory b, q_gpu_memory = q_gpu_memory a - q_gpu_memory b\<rparr>"

definition q_le :: "quantities \<Rightarrow> quantities \<Rightarrow> bool" where
  "q_le a b \<longleftrightarrow> q_workers a \<le> q_workers b \<and> q_threads a \<le> q_threads b \<and> q_gpus a \<le> q_gpus b
     \<and> q_memory a \<le> q_memory b \<and> q_gpu_memory a \<le> q_gpu_memory b"

definition q_zero :: quantities where
  "q_zero = \<lparr>q_workers = 0, q_threads = 0, q_gpus = 0, q_memory = 0, q_gpu_memory = 0\<rparr>"

record child_resources =
  cr_quantities :: quantities
  cr_tokens :: "string list"
  cr_backend :: string
  cr_compute_backend :: string
  cr_device :: string
  cr_capabilities :: "string list"
  cr_resolved :: "(string \<times> string) list"

record subgrant =
  sg_id :: string
  sg_context :: resource_context
  sg_resources :: child_resources

record grant_pool =
  gp_parent :: resource_context
  gp_totals :: quantities
  gp_available :: quantities
  gp_tokens :: "string list"
  gp_available_tokens :: "string list"
  gp_capabilities :: "string list"
  gp_backend :: string
  gp_compute_backend :: string
  gp_device :: string
  gp_resolved :: "(string \<times> string) list"
  gp_active :: "(string \<times> subgrant) list"

definition gp_total_quantities :: "resource_context \<Rightarrow> quantities" where
  "gp_total_quantities parent = (let grant = ctx_grant parent; from_lease = lm_resources (ctx_lease parent)
     in \<lparr>q_workers = max 1 (num_or (entry_get (g_workers grant) (entry_get (g_workers from_lease)
            (entry_get (g_threads grant) (Val (ctx_threads parent))))) 1),
         q_threads = max 1 (num_or (entry_get (g_threads grant) (Val (ctx_threads parent))) 1),
         q_gpus = max 0 (num_or (entry_get (g_gpus grant) (entry_get (g_gpus from_lease) (Val 0))) 0),
         q_memory = max 0 (num_or (entry_get (g_memory_mb grant) (entry_get (g_memory_mb from_lease) (Val 0))) 0),
         q_gpu_memory = max 0 (num_or (entry_get (g_gpu_memory_mb grant)
            (entry_get (g_gpu_memory_mb from_lease) (Val 0))) 0)\<rparr>)"

definition gp_make :: "resource_context \<Rightarrow> grant_pool" where
  "gp_make parent = (let grant = ctx_grant parent; from_lease = lm_resources (ctx_lease parent);
       totals = gp_total_quantities parent;
       tokens = list_or (entry_get (g_device_tokens grant) (entry_get (g_device_tokens from_lease) (Val [])))
     in \<lparr>gp_parent = parent, gp_totals = totals, gp_available = totals, gp_tokens = tokens,
         gp_available_tokens = tokens,
         gp_capabilities = list_or (entry_get (g_capabilities grant) (entry_get (g_capabilities from_lease) (Val []))),
         gp_backend = text_or (entry_get (g_backend grant) (entry_get (g_backend from_lease) (Val ''local''))) ''local'',
         gp_compute_backend = text_or (entry_get (g_compute_backend grant)
            (if ctx_compute_backend parent \<noteq> [] then Val (ctx_compute_backend parent)
             else entry_get (g_compute_backend from_lease) (Val ''auto''))) (ctx_compute_backend parent),
         gp_device = text_or (entry_get (g_device grant)
            (if ctx_device parent \<noteq> [] then Val (ctx_device parent)
             else entry_get (g_device from_lease) (Val ''cpu''))) (ctx_device parent),
         gp_resolved = list_or (entry_get (g_resolved_devices grant) (entry_get (g_resolved_devices from_lease) (Val []))),
         gp_active = []\<rparr>)"

section \<open>Requests\<close>

definition requested_resources :: "request \<Rightarrow> child_resources" where
  "requested_resources r = \<lparr>cr_quantities = \<lparr>q_workers = workers r, q_threads = threads r,
       q_gpus = max (gpus r) (int (length (device_tokens r))),
       q_memory = max 0 (case memory_mb r of None \<Rightarrow> 0 | Some m \<Rightarrow> m),
       q_gpu_memory = max 0 (case gpu_memory_mb r of None \<Rightarrow> 0 | Some m \<Rightarrow> m)\<rparr>,
     cr_tokens = device_tokens r, cr_backend = backend r, cr_compute_backend = compute_backend r,
     cr_device = device r, cr_capabilities = capabilities r, cr_resolved = []\<rparr>"

definition is_generic_value :: "string \<Rightarrow> bool" where
  "is_generic_value v \<longleftrightarrow> py_lower (py_strip v) \<in> {[], ''auto'', ''any'', ''none''}"

definition is_accelerator_device :: "string \<Rightarrow> bool" where
  "is_accelerator_device v \<longleftrightarrow> list_ex (\<lambda>p. starts_with p (py_lower (py_strip v)))
     [''accelerator'', ''cuda'', ''gpu'', ''mps'', ''rocm'', ''xpu'']"

definition is_specific_device :: "string \<Rightarrow> bool" where
  "is_specific_device v \<longleftrightarrow> is_accelerator_device v \<and> CHR '':'' \<in> set (py_lower (py_strip v))"

definition device_outside :: "grant_pool \<Rightarrow> string \<Rightarrow> bool" where
  "device_outside p wanted \<longleftrightarrow> is_accelerator_device wanted
     \<and> (\<not> (q_gpus (gp_totals p) > 0 \<or> gp_tokens p \<noteq> [] \<or> is_accelerator_device (gp_device p))
        \<or> is_specific_device wanted \<and> py_lower wanted \<notin> insert (py_lower (gp_device p))
            (py_lower ` set (gp_tokens p) \<union> (py_lower \<circ> snd) ` set (gp_resolved p)))"

definition validate_static :: "grant_pool \<Rightarrow> child_resources \<Rightarrow> unit result" where
  "validate_static p res =
     (if \<not> q_le (cr_quantities res) (gp_totals p) then Inl ResourceSubgrantError
      else if \<not> set (cr_tokens res) \<subseteq> set (gp_tokens p) then Inl ResourceSubgrantError
      else if \<not> set (cr_capabilities res) \<subseteq> set (gp_capabilities p) then Inl ResourceSubgrantError
      else if py_lower (or_default (cr_backend res) ''auto'') \<notin> {[], ''auto'', ''any'', py_lower (gp_backend p)}
        then Inl ResourceSubgrantError
      else let wanted = py_lower (or_default (cr_compute_backend res) ''auto''); own = py_lower (gp_compute_backend p)
        in if \<not> is_generic_value own \<and> \<not> is_generic_value wanted \<and> wanted \<noteq> own then Inl ResourceSubgrantError
           else if device_outside p (or_default (cr_device res) ''auto'') then Inl ResourceSubgrantError
           else Inr ())"

definition can_allocate :: "grant_pool \<Rightarrow> child_resources \<Rightarrow> string list \<Rightarrow> bool" where
  "can_allocate p res wanted \<longleftrightarrow>
     (if \<not> q_le (cr_quantities res) (gp_available p) then False
      else if wanted \<noteq> [] then set wanted \<subseteq> set (gp_available_tokens p)
      else if gp_tokens p \<noteq> [] \<and> q_gpus (cr_quantities res) > 0
        then q_gpus (cr_quantities res) \<le> int (length (gp_available_tokens p))
      else True)"

text \<open>The tokens of a child: the ones it names, or the first free ones.\<close>

definition pick_tokens :: "grant_pool \<Rightarrow> child_resources \<Rightarrow> string list \<Rightarrow> string list" where
  "pick_tokens p res wanted = (if wanted \<noteq> [] then wanted
     else if q_gpus (cr_quantities res) \<noteq> 0 then take (nat (q_gpus (cr_quantities res))) (gp_available_tokens p) else [])"

definition settle_resources :: "grant_pool \<Rightarrow> string list \<Rightarrow> child_resources \<Rightarrow> child_resources" where
  "settle_resources p tokens res =
     (let resolved = List.map_filter (\<lambda>t. map_option (Pair t) (map_of (gp_resolved p) t)) tokens;
          wanted_compute = or_default (cr_compute_backend res) ''auto'';
          wanted_device = or_default (cr_device res) ''auto''
      in res\<lparr>cr_tokens := tokens, cr_resolved := resolved, cr_backend := gp_backend p,
         cr_compute_backend := (if is_generic_value wanted_compute then gp_compute_backend p else wanted_compute),
         cr_device := (if resolved \<noteq> [] then snd (hd resolved)
           else if q_gpus (cr_quantities res) > 0 then gp_device p
           else if \<not> is_generic_value wanted_device then wanted_device else gp_device p)\<rparr>)"

definition grant_of_resources :: "child_resources \<Rightarrow> grant_map" where
  "grant_of_resources res = (let q = cr_quantities res in \<lparr>g_workers = Val (q_workers q), g_threads = Val (q_threads q),
     g_gpus = Val (q_gpus q), g_memory_mb = Val (q_memory q), g_gpu_memory_mb = Val (q_gpu_memory q),
     g_device_tokens = Val (cr_tokens res), g_capabilities = Val (cr_capabilities res), g_backend = Val (cr_backend res),
     g_compute_backend = Val (cr_compute_backend res), g_device = Val (cr_device res),
     g_resolved_devices = Val (cr_resolved res)\<rparr>)"

definition child_context :: "grant_pool \<Rightarrow> string \<Rightarrow> string \<Rightarrow> string \<Rightarrow> (string \<times> json) list \<Rightarrow> child_resources \<Rightarrow> resource_context" where
  "child_context p grant_id scope suffix metadata res = (let parent = gp_parent p;
       ns = strip_dots (ctx_namespace parent); sfx = strip_dots suffix
     in context_post_init \<lparr>ctx_scope = or_default scope (ctx_scope parent),
       ctx_execution_backend = ctx_execution_backend parent, ctx_compute_backend = cr_compute_backend res,
       ctx_device = cr_device res, ctx_threads = q_threads (cr_quantities res), ctx_nested = True,
       ctx_namespace = (if ns = [] then sfx else if sfx = [] then ns else ns @ ''.'' @ sfx),
       ctx_grant = grant_of_resources res, ctx_lease = ctx_lease parent,
       ctx_metadata = dict_merge (dict_merge (ctx_metadata parent)
         [(''parent_namespace'', JStr (ctx_namespace parent)), (''parent_lease_id'', JStr (lm_lease_id (ctx_lease parent))),
          (''resource_subgrant_id'', JStr grant_id)]) metadata\<rparr>)"

definition gp_allocate :: "string \<Rightarrow> string \<Rightarrow> string \<Rightarrow> (string \<times> json) list \<Rightarrow> child_resources \<Rightarrow> grant_pool
    \<Rightarrow> subgrant \<times> grant_pool" where
  "gp_allocate grant_id scope suffix metadata res p =
     (let tokens = pick_tokens p res (cr_tokens res);
          res' = settle_resources p tokens res;
          sg = \<lparr>sg_id = grant_id, sg_context = child_context p grant_id scope suffix metadata res', sg_resources = res'\<rparr>
      in (sg, p\<lparr>gp_available := q_minus (gp_available p) (cr_quantities res),
                gp_available_tokens := fold remove1 tokens (gp_available_tokens p),
                gp_active := AList.update grant_id sg (gp_active p)\<rparr>))"

text \<open>
  The entry: the checks, then rounds of the waiting loop. A round has what the caller's
  \<open>checkpoint\<close> raises, a clock reading, and what the other children do to the pool while this
  one waits. \<open>None\<close>: the rounds given are over and it still waits.
\<close>

fun gp_wait :: "string \<Rightarrow> string \<Rightarrow> string \<Rightarrow> (string \<times> json) list \<Rightarrow> time \<Rightarrow> child_resources
    \<Rightarrow> (py_error option \<times> time \<times> (grant_pool \<Rightarrow> grant_pool)) list \<Rightarrow> grant_pool
    \<Rightarrow> subgrant result option \<times> grant_pool" where
  "gp_wait grant_id scope suffix metadata deadline res [] p = (None, p)"
| "gp_wait grant_id scope suffix metadata deadline res ((raised, now, others) # rounds) p = (case raised of
     Some e \<Rightarrow> (Some (Inl e), p)
   | None \<Rightarrow> if deadline > 0 \<and> deadline \<le> now then (Some (Inl TimeoutError), p)
       else if can_allocate p res (cr_tokens res)
         then (case gp_allocate grant_id scope suffix metadata res p of (sg, p') \<Rightarrow> (Some (Inr sg), p'))
       else gp_wait grant_id scope suffix metadata deadline res rounds (others p))"

definition gp_acquire :: "string \<Rightarrow> request \<Rightarrow> string \<Rightarrow> string \<Rightarrow> (string \<times> json) list \<Rightarrow> time
    \<Rightarrow> (py_error option \<times> time \<times> (grant_pool \<Rightarrow> grant_pool)) list \<Rightarrow> grant_pool
    \<Rightarrow> subgrant result option \<times> grant_pool" where
  "gp_acquire grant_id r scope suffix metadata deadline rounds p =
     (let res = requested_resources r
      in if \<not> distinct (cr_tokens res) then (Some (Inl ResourceSubgrantError), p)
         else case validate_static p res of
           Inl e \<Rightarrow> (Some (Inl e), p)
         | Inr _ \<Rightarrow> gp_wait grant_id scope suffix metadata deadline res rounds p)"

text \<open>\<open>{token: index for index, token in enumerate(tokens)}\<close>: the last index of a token.\<close>

definition token_order :: "string list \<Rightarrow> string \<Rightarrow> nat" where
  "token_order tokens t = (case map_of (rev (zip tokens [0..<length tokens])) t of None \<Rightarrow> length tokens | Some n \<Rightarrow> n)"

definition gp_release :: "subgrant \<Rightarrow> grant_pool \<Rightarrow> grant_pool" where
  "gp_release sg p = p\<lparr>gp_active := AList.delete (sg_id sg) (gp_active p),
     gp_available := q_plus (gp_available p) (cr_quantities (sg_resources sg)),
     gp_available_tokens := sort_key (token_order (gp_tokens p)) (gp_available_tokens p @ cr_tokens (sg_resources sg))\<rparr>"

end
