(* ===== verification/Grant_Properties.thy ===== *)
theory Grant_Properties
  imports Grant_Pool
begin

text \<open>
  The grant pool over any sequence of entries and exits of children: nothing is granted twice, an
  exit gives back what the entry took, and when an entry can succeed at all.
\<close>

section \<open>Runs\<close>

text \<open>
  An entry is the last round of its waiting loop; the identifiers are fresh uuids. Requests are
  built by the constructor.
\<close>

inductive gp_step :: "grant_pool \<Rightarrow> grant_pool \<Rightarrow> bool" where
  gp_enter: "gp_acquire i (request_post_init thr r) scope suffix metadata deadline [(None, now, id)] p = (Some (Inr sg), p')
    \<Longrightarrow> i \<notin> fst ` set (gp_active p) \<Longrightarrow> gp_step p p'"
| gp_exit: "(i, sg) \<in> set (gp_active p) \<Longrightarrow> gp_step p (gp_release sg p)"

abbreviation gp_run :: "grant_pool \<Rightarrow> grant_pool \<Rightarrow> bool" where
  "gp_run \<equiv> gp_step\<^sup>*\<^sup>*"

section \<open>Sums of quantities\<close>

definition q_sum :: "(string \<times> subgrant) list \<Rightarrow> quantities" where
  "q_sum d = foldr (\<lambda>(i, sg). q_plus (cr_quantities (sg_resources sg))) d q_zero"

lemma q_simps: "q_plus a b = q_plus b a" "q_plus (q_plus a b) c = q_plus a (q_plus b c)"
  "q_plus a (q_plus b c) = q_plus b (q_plus a c)" "q_plus a q_zero = a" "q_plus q_zero a = a"
  "q_plus (q_minus a b) b = a" "q_plus b (q_minus a b) = a"
  by (simp_all add: q_plus_def q_minus_def q_zero_def)

lemma q_plus_mono: "q_le q_zero a \<Longrightarrow> q_le q_zero b \<Longrightarrow> q_le q_zero (q_plus a b)"
  by (simp add: q_le_def q_plus_def q_zero_def)

lemma q_minus_mono: "q_le b a \<Longrightarrow> q_le q_zero (q_minus a b)"
  by (simp add: q_le_def q_minus_def q_zero_def)

lemma q_le_plus: "q_le q_zero b \<Longrightarrow> q_le a (q_plus a b)"
  by (simp add: q_le_def q_plus_def q_zero_def)

lemma q_sum_Nil [simp]: "q_sum [] = q_zero"
  by (simp add: q_sum_def)

lemma q_sum_Cons [simp]: "q_sum ((i, sg) # d) = q_plus (cr_quantities (sg_resources sg)) (q_sum d)"
  by (simp add: q_sum_def)

lemma q_sum_append: "q_sum (d @ e) = q_plus (q_sum d) (q_sum e)"
  by (induction d) (auto simp: q_simps)

lemma q_sum_delete:
  "distinct (map fst d) \<Longrightarrow> (i, sg) \<in> set d \<Longrightarrow> q_sum d = q_plus (q_sum (AList.delete i d)) (cr_quantities (sg_resources sg))"
proof (induction d)
  case (Cons x d)
  show ?case
  proof (cases "x = (i, sg)")
    case True
    then have "AList.delete i d = d" using Cons.prems(1) by (auto intro!: delete_idem)
    then show ?thesis using True by (simp add: q_simps)
  next
    case False
    then have "(i, sg) \<in> set d" "fst x \<noteq> i" using Cons.prems by (auto simp: rev_image_eqI)
    then show ?thesis using Cons by (cases x) (simp add: q_simps)
  qed
qed simp

definition held_tokens :: "(string \<times> subgrant) list \<Rightarrow> string multiset" where
  "held_tokens d = sum_list (map (\<lambda>(i, sg). mset (cr_tokens (sg_resources sg))) d)"

lemma held_tokens_simps [simp]: "held_tokens [] = {#}"
  "held_tokens ((i, sg) # d) = mset (cr_tokens (sg_resources sg)) + held_tokens d"
  "held_tokens (d @ e) = held_tokens d + held_tokens e"
  by (simp_all add: held_tokens_def)

lemma held_tokens_delete:
  "distinct (map fst d) \<Longrightarrow> (i, sg) \<in> set d
    \<Longrightarrow> held_tokens d = held_tokens (AList.delete i d) + mset (cr_tokens (sg_resources sg))"
proof (induction d)
  case (Cons x d)
  show ?case
  proof (cases "x = (i, sg)")
    case True
    then have "AList.delete i d = d" using Cons.prems(1) by (auto intro!: delete_idem)
    then show ?thesis using True by simp
  next
    case False
    then have "(i, sg) \<in> set d" "fst x \<noteq> i" using Cons.prems by (auto simp: rev_image_eqI)
    then show ?thesis using Cons by (cases x) simp
  qed
qed simp

section \<open>The invariant\<close>

definition gp_inv :: "grant_pool \<Rightarrow> bool" where
  "gp_inv p \<longleftrightarrow> distinct (map fst (gp_active p))
     \<and> (\<forall>(i, sg)\<in>set (gp_active p). sg_id sg = i \<and> q_le q_zero (cr_quantities (sg_resources sg)))
     \<and> gp_totals p = q_plus (gp_available p) (q_sum (gp_active p)) \<and> q_le q_zero (gp_available p)
     \<and> mset (gp_tokens p) = mset (gp_available_tokens p) + held_tokens (gp_active p)"

lemma gp_make_inv: "gp_inv (gp_make parent)"
  by (auto simp: gp_inv_def gp_make_def Let_def q_simps gp_total_quantities_def q_le_def q_zero_def q_plus_def)

lemma gp_acquire_Inr:
  assumes "gp_acquire i r scope suffix metadata deadline [(None, now, f)] p = (Some (Inr sg), p')"
  shows "distinct (device_tokens r) \<and> validate_static p (requested_resources r) = Inr ()
    \<and> can_allocate p (requested_resources r) (device_tokens r)
    \<and> gp_allocate i scope suffix metadata (requested_resources r) p = (sg, p')"
  using assms
  by (auto simp: gp_acquire_def Let_def requested_resources_def split: if_splits sum.splits prod.splits)

lemma settle_resources_simps [simp]: "cr_quantities (settle_resources p tokens res) = cr_quantities res"
  "cr_tokens (settle_resources p tokens res) = tokens"
  by (simp_all add: settle_resources_def Let_def)

lemma mset_fold_remove1: "mset (fold remove1 xs ys) = mset ys - mset xs"
  by (induction xs arbitrary: ys) simp_all

lemma mset_take_subset: "mset (take n xs) \<subseteq># mset xs"
  by (metis append_take_drop_id mset_append mset_subset_eq_add_left)

lemma pick_tokens_subset:
  assumes "can_allocate p res (cr_tokens res)" "distinct (cr_tokens res)"
  shows "mset (pick_tokens p res (cr_tokens res)) \<subseteq># mset (gp_available_tokens p)"
proof (cases "cr_tokens res = []")
  case False
  have "set (cr_tokens res) \<subseteq> set (gp_available_tokens p)"
    using assms(1) False by (simp add: can_allocate_def split: if_splits)
  then have "mset (cr_tokens res) \<subseteq># mset (gp_available_tokens p)"
    using assms(2) by (simp add: subseteq_mset_def distinct_count_atmost_1 count_greater_eq_one_iff)
      (metis count_eq_zero_iff count_greater_zero_iff less_one not_le set_mset_mset subsetD zero_le)
  then show ?thesis using False by (simp add: pick_tokens_def)
qed (simp add: pick_tokens_def mset_take_subset)

lemma requested_nonneg: "q_le q_zero (cr_quantities (requested_resources (request_post_init thr r)))"
  using request_post_init_wf[of thr r] by (simp add: requested_resources_def q_le_def q_zero_def request_wf_def)

lemma gp_enter_inv:
  assumes "gp_inv p" "gp_acquire i (request_post_init thr r) scope suffix metadata deadline [(None, now, f)] p = (Some (Inr sg), p')"
    "i \<notin> fst ` set (gp_active p)"
  shows "gp_inv p' \<and> gp_totals p' = gp_totals p \<and> gp_tokens p' = gp_tokens p"
proof -
  let ?r = "request_post_init thr r"
  let ?res = "requested_resources ?r"
  let ?t = "pick_tokens p ?res (cr_tokens ?res)"
  have toks: "cr_tokens ?res = device_tokens ?r" by (simp add: requested_resources_def)
  from gp_acquire_Inr[OF assms(2)] have d: "distinct (cr_tokens ?res)" and can: "can_allocate p ?res (cr_tokens ?res)"
    and al: "gp_allocate i scope suffix metadata ?res p = (sg, p')" by (simp_all add: toks)
  have le: "q_le (cr_quantities ?res) (gp_available p)" using can by (simp add: can_allocate_def split: if_splits)
  have sg: "sg_id sg = i" "cr_quantities (sg_resources sg) = cr_quantities ?res" "cr_tokens (sg_resources sg) = ?t"
    and p': "gp_available p' = q_minus (gp_available p) (cr_quantities ?res)" "gp_totals p' = gp_totals p"
      "gp_tokens p' = gp_tokens p" "gp_active p' = gp_active p @ [(i, sg)]"
      "gp_available_tokens p' = fold remove1 ?t (gp_available_tokens p)"
    using al assms(3) by (auto simp: gp_allocate_def Let_def update_new)
  have "mset (gp_available_tokens p') + mset ?t = mset (gp_available_tokens p)"
    using pick_tokens_subset[OF can d] by (simp add: p' mset_fold_remove1)
  moreover have "q_plus (gp_available p') (cr_quantities ?res) = gp_available p" by (simp add: p' q_simps)
  ultimately show ?thesis
    using assms(1,3) requested_nonneg[of thr r] q_minus_mono[OF le] sg p'
    by (auto simp: gp_inv_def q_sum_append q_simps ac_simps)
qed

lemma gp_exit_inv:
  assumes "gp_inv p" "(i, sg) \<in> set (gp_active p)"
  shows "gp_inv (gp_release sg p) \<and> gp_totals (gp_release sg p) = gp_totals p \<and> gp_tokens (gp_release sg p) = gp_tokens p"
proof -
  have d: "distinct (map fst (gp_active p))" and i: "sg_id sg = i" "q_le q_zero (cr_quantities (sg_resources sg))"
    using assms by (auto simp: gp_inv_def)
  have "distinct (map fst (AList.delete i (gp_active p)))" by (rule distinct_delete[OF d])
  moreover have "set (AList.delete i (gp_active p)) \<subseteq> set (gp_active p)" by (auto simp: AList.delete_eq)
  ultimately show ?thesis
    using assms q_sum_delete[OF d assms(2)] held_tokens_delete[OF d assms(2)] i
    by (auto simp: gp_inv_def gp_release_def q_simps q_plus_mono ac_simps)
qed

lemma gp_run_inv:
  assumes "gp_run p p'" "gp_inv p"
  shows "gp_inv p' \<and> gp_totals p' = gp_totals p \<and> gp_tokens p' = gp_tokens p"
  using assms
proof (induction rule: rtranclp.induct)
  case (rtrancl_into_rtrancl a b c)
  from rtrancl_into_rtrancl.hyps(2) show ?case
    using rtrancl_into_rtrancl.IH rtrancl_into_rtrancl.prems gp_enter_inv gp_exit_inv
    by (cases rule: gp_step.cases) metis+
qed simp

lemma held_tokens_member:
  "(i, sg) \<in> set d \<Longrightarrow> mset (cr_tokens (sg_resources sg)) \<subseteq># held_tokens d"
proof (induction d)
  case (Cons x d)
  then show ?case
    by (cases x) (auto intro: subset_mset.order_trans[OF _ mset_subset_eq_add_right])
qed simp

lemma held_tokens_two:
  assumes "distinct (map fst d)" "(i, sg) \<in> set d" "(j, sg') \<in> set d" "i \<noteq> j"
  shows "mset (cr_tokens (sg_resources sg)) + mset (cr_tokens (sg_resources sg')) \<subseteq># held_tokens d"
proof -
  have "(j, sg') \<in> set (AList.delete i d)" using assms by (auto simp: AList.delete_eq)
  then have "mset (cr_tokens (sg_resources sg')) \<subseteq># held_tokens (AList.delete i d)" by (rule held_tokens_member)
  then show ?thesis using held_tokens_delete[OF assms(1,2)] by (simp add: add.commute)
qed

lemma sub_distinct_disjoint:
  assumes "mset a + mset b \<subseteq># mset c" "distinct c"
  shows "set a \<inter> set b = {}"
proof (rule ccontr)
  assume "set a \<inter> set b \<noteq> {}"
  then obtain x where x: "x \<in> set a" "x \<in> set b" by blast
  then have "1 \<le> count (mset a) x" "1 \<le> count (mset b) x" by (simp_all add: Suc_le_eq)
  then have "2 \<le> count (mset a + mset b) x" unfolding count_union by linarith
  also have "\<dots> \<le> count (mset c) x" using assms(1) by (rule mset_subset_eq_count)
  finally show False using assms(2) by (simp add: distinct_count_atmost_1 split: if_splits)
qed

section \<open>Examples\<close>

definition ex_parent :: "int \<Rightarrow> resource_context" where
  "ex_parent n = \<lparr>ctx_scope = ''training'', ctx_execution_backend = ''outer'', ctx_compute_backend = ''auto'', ctx_device = ''cpu'',
     ctx_threads = 4, ctx_nested = False, ctx_namespace = ''case'',
     ctx_grant = empty_grant\<lparr>g_workers := Val 4, g_gpus := Val n, g_device_tokens := Val [''cuda:0'', ''cuda:1'']\<rparr>,
     ctx_lease = \<lparr>lm_lease_id = ''l'', lm_fencing_token = 7, lm_resources = empty_grant\<rparr>, ctx_metadata = []\<rparr>"

definition ex_child :: "int \<Rightarrow> request" where
  "ex_child n = \<lparr>workers = 1, threads = 1, gpus = n, memory_mb = None, gpu_memory_mb = None, backend = ''local'',
     compute_backend = ''auto'', device = ''cpu'', device_tokens = [], capabilities = [], request_metadata = JObj []\<rparr>"

definition ex_enter :: "string \<Rightarrow> int \<Rightarrow> grant_pool \<Rightarrow> subgrant result option \<times> grant_pool" where
  "ex_enter i n = gp_acquire i (request_post_init (Some 1) (ex_child n)) ''s'' ''x'' [] 0 [(None, 1, id)]"

definition granted :: "subgrant result option \<Rightarrow> bool" where
  "granted x \<longleftrightarrow> (case x of Some (Inr _) \<Rightarrow> True | _ \<Rightarrow> False)"

lemma ex_enter_step: "granted (fst (ex_enter i n p)) \<Longrightarrow> i \<notin> fst ` set (gp_active p) \<Longrightarrow> gp_step p (snd (ex_enter i n p))"
  by (cases "ex_enter i n p") (auto simp: granted_def ex_enter_def intro: gp_enter split: option.splits sum.splits)

section \<open>Properties\<close>

text \<open>
  C22. Whatever children entered and left: what is available and what the active children hold add
  up to the parent's totals, nothing goes below zero, the children hold only tokens of the parent
  that are not available, and no token is held by two children.
\<close>

theorem grant_pool_conserved:
  assumes "gp_run (gp_make parent) p"
  shows "gp_total_quantities parent = q_plus (gp_available p) (q_sum (gp_active p)) \<and> q_le q_zero (gp_available p)
    \<and> mset (gp_tokens (gp_make parent)) = mset (gp_available_tokens p) + held_tokens (gp_active p)
    \<and> (distinct (gp_tokens (gp_make parent)) \<longrightarrow> (\<forall>(i, a)\<in>set (gp_active p).
         set (cr_tokens (sg_resources a)) \<inter> set (gp_available_tokens p) = {}
         \<and> (\<forall>(j, b)\<in>set (gp_active p). i \<noteq> j \<longrightarrow>
              set (cr_tokens (sg_resources a)) \<inter> set (cr_tokens (sg_resources b)) = {})))"
proof -
  have inv: "gp_inv p" and same: "gp_totals p = gp_total_quantities parent" "gp_tokens p = gp_tokens (gp_make parent)"
    using gp_run_inv[OF assms gp_make_inv] by (simp_all add: gp_make_def Let_def)
  have split: "mset (gp_tokens p) = mset (gp_available_tokens p) + held_tokens (gp_active p)"
    and d: "distinct (map fst (gp_active p))" using inv by (simp_all add: gp_inv_def)
  have one: "mset (cr_tokens (sg_resources a)) + mset (gp_available_tokens p) \<subseteq># mset (gp_tokens p)"
    if "(i, a) \<in> set (gp_active p)" for i a
    using held_tokens_member[OF that] by (simp add: split add.commute)
  have two: "mset (cr_tokens (sg_resources a)) + mset (cr_tokens (sg_resources b)) \<subseteq># mset (gp_tokens p)"
    if "(i, a) \<in> set (gp_active p)" "(j, b) \<in> set (gp_active p)" "i \<noteq> j" for i j a b
    using held_tokens_two[OF d that] by (simp add: split subset_mset.add_increasing)
  show ?thesis
    using inv same sub_distinct_disjoint[OF one] sub_distinct_disjoint[OF two]
    by (auto simp: gp_inv_def split: prod.splits) blast+
qed

lemma ex_run: "gp_run (gp_make (ex_parent 2)) (snd (ex_enter ''b'' 1 (snd (ex_enter ''a'' 1 (gp_make (ex_parent 2))))))"
proof -
  let ?p = "gp_make (ex_parent 2)"
  let ?q = "snd (ex_enter ''a'' 1 ?p)"
  have "granted (fst (ex_enter ''a'' 1 ?p))" "''a'' \<notin> fst ` set (gp_active ?p)" by code_simp+
  then have "gp_step ?p ?q" by (rule ex_enter_step)
  moreover have "granted (fst (ex_enter ''b'' 1 ?q))" "''b'' \<notin> fst ` set (gp_active ?q)" by code_simp+
  then have "gp_step ?q (snd (ex_enter ''b'' 1 ?q))" by (rule ex_enter_step)
  ultimately show ?thesis by (meson rtranclp.intros)
qed

theorem grant_pool_conserved_witness:
  "let p = snd (ex_enter ''b'' 1 (snd (ex_enter ''a'' 1 (gp_make (ex_parent 2))))) in
   map fst (gp_active p) = [''a'', ''b''] \<and> q_gpus (gp_available p) = 0
   \<and> gp_total_quantities (ex_parent 2) = q_plus (gp_available p) (q_sum (gp_active p))"
proof -
  let ?p = "snd (ex_enter ''b'' 1 (snd (ex_enter ''a'' 1 (gp_make (ex_parent 2)))))"
  have "map fst (gp_active ?p) = [''a'', ''b'']" "q_gpus (gp_available ?p) = 0" by code_simp+
  then show ?thesis using grant_pool_conserved[OF ex_run] by (simp add: Let_def)
qed

text \<open>
  What a child gets: the checks are made before anything is taken; a granted child has
  exactly the quantities it asked for and they were available; it carries the parent's lease, so
  the parent's fence; it gets the tokens it named, or else the first free ones, as many as gpus it
  asked for when the parent has tokens; and a refused or timed-out entry leaves the pool alone.
\<close>

theorem grant_acquire_outcome:
  "case gp_acquire i r scope suffix metadata deadline [(raised, now, others)] p of
     (None, p') \<Rightarrow> p' = others p \<and> \<not> can_allocate p (requested_resources r) (device_tokens r)
   | (Some (Inl e), p') \<Rightarrow> p' = p \<and> (e = ResourceSubgrantError \<or> raised = Some e \<or> e = TimeoutError \<and> 0 < deadline \<and> deadline \<le> now)
   | (Some (Inr sg), p') \<Rightarrow> cr_quantities (sg_resources sg) = cr_quantities (requested_resources r)
       \<and> q_le (cr_quantities (sg_resources sg)) (gp_available p)
       \<and> gp_available p' = q_minus (gp_available p) (cr_quantities (sg_resources sg))
       \<and> ctx_lease (sg_context sg) = ctx_lease (gp_parent p) \<and> ctx_nested (sg_context sg)
       \<and> (if device_tokens r \<noteq> [] then cr_tokens (sg_resources sg) = device_tokens r
          else cr_tokens (sg_resources sg) = take (nat (q_gpus (cr_quantities (sg_resources sg)))) (gp_available_tokens p))
       \<and> gp_active p' = AList.update i sg (gp_active p)"
proof (cases "distinct (device_tokens r) \<and> validate_static p (requested_resources r) = Inr ()")
  case True
  have tok: "cr_tokens (requested_resources r) = device_tokens r" by (simp add: requested_resources_def)
  show ?thesis
  proof (cases "raised = None \<and> \<not> (deadline > 0 \<and> deadline \<le> now) \<and> can_allocate p (requested_resources r) (device_tokens r)")
    case ready: True
    then have "q_le (cr_quantities (requested_resources r)) (gp_available p)" by (simp add: can_allocate_def split: if_splits)
    with True ready show ?thesis
      by (auto simp: gp_acquire_def tok Let_def gp_allocate_def pick_tokens_def child_context_def context_post_init_def)
  qed (use True tok in \<open>auto simp: gp_acquire_def Let_def split: option.splits\<close>)
next
  case False
  have "validate_static p x = Inl e \<Longrightarrow> e = ResourceSubgrantError" for x e
    by (auto simp: validate_static_def Let_def split: if_splits)
  with False show ?thesis
    by (auto simp: gp_acquire_def Let_def requested_resources_def split: sum.splits)
qed

theorem grant_acquire_outcome_witness:
  "\<exists>sg p'. ex_enter ''a'' 1 (gp_make (ex_parent 2)) = (Some (Inr sg), p')
     \<and> ctx_lease (sg_context sg) = ctx_lease (ex_parent 2) \<and> cr_tokens (sg_resources sg) = [''cuda:0'']"
proof -
  let ?p = "gp_make (ex_parent 2)"
  have "granted (fst (ex_enter ''a'' 1 ?p))" by code_simp
  then obtain sg p' where eq: "ex_enter ''a'' 1 ?p = (Some (Inr sg), p')"
    by (cases "ex_enter ''a'' 1 ?p") (auto simp: granted_def split: option.splits sum.splits)
  have facts: "device_tokens (request_post_init (Some 1) (ex_child 1)) = []"
    "q_gpus (cr_quantities (requested_resources (request_post_init (Some 1) (ex_child 1)))) = 1"
    "gp_available_tokens ?p = [''cuda:0'', ''cuda:1'']" "gp_parent ?p = ex_parent 2" by code_simp+
  show ?thesis using eq facts grant_acquire_outcome[where i = "''a''" and r = "request_post_init (Some 1) (ex_child 1)"
      and scope = "''s''" and suffix = "''x''" and metadata = "[]" and deadline = 0 and raised = None and now = 1
      and others = id and p = ?p, folded ex_enter_def, unfolded eq prod.case option.case sum.case]
    by auto
qed

text \<open>
  A pool with no active child grants at once every request that passes the static checks,
  unless the parent counts more gpus than it names device tokens.
\<close>

theorem idle_pool_grants:
  assumes "gp_run (gp_make parent) p" "gp_active p = []"
    and "gp_tokens p = [] \<or> q_gpus (gp_totals p) \<le> int (length (gp_tokens p))"
    and "distinct (device_tokens r)" "validate_static p (requested_resources r) = Inr ()"
    and "deadline \<le> 0 \<or> now < deadline"
  shows "\<exists>sg. fst (gp_acquire i r scope suffix metadata deadline [(None, now, others)] p) = Some (Inr sg)"
proof -
  let ?res = "requested_resources r"
  have inv: "gp_inv p" using gp_run_inv[OF assms(1) gp_make_inv] by simp
  have avail: "gp_available p = gp_totals p" "mset (gp_available_tokens p) = mset (gp_tokens p)"
    using inv assms(2) by (simp_all add: gp_inv_def q_simps)
  have le: "q_le (cr_quantities ?res) (gp_totals p)" "set (device_tokens r) \<subseteq> set (gp_tokens p)"
    using assms(5) by (auto simp: validate_static_def requested_resources_def split: if_splits)
  have "can_allocate p ?res (device_tokens r)"
    using le assms(3) mset_eq_length[OF avail(2)] mset_eq_setD[OF avail(2)]
    by (auto simp: can_allocate_def avail(1) q_le_def)
  then show ?thesis using assms(4-6)
    by (auto simp: gp_acquire_def Let_def requested_resources_def split: prod.splits)
qed

theorem idle_pool_grants_witness:
  "\<exists>sg. fst (gp_acquire ''a'' (request_post_init (Some 1) (ex_child 2)) ''s'' ''x'' [] 5 [(None, 1, id)] (gp_make (ex_parent 2)))
     = Some (Inr sg)"
proof (rule idle_pool_grants[where parent = "ex_parent 2"])
  show "gp_active (gp_make (ex_parent 2)) = []"
    "gp_tokens (gp_make (ex_parent 2)) = [] \<or> q_gpus (gp_totals (gp_make (ex_parent 2))) \<le> int (length (gp_tokens (gp_make (ex_parent 2))))"
    "distinct (device_tokens (request_post_init (Some 1) (ex_child 2)))"
    "validate_static (gp_make (ex_parent 2)) (requested_resources (request_post_init (Some 1) (ex_child 2))) = Inr ()"
    "(5 :: time) \<le> 0 \<or> (1 :: time) < 5" by code_simp+
qed simp

lemma gp_wait_stuck:
  "\<not> can_allocate p res (cr_tokens res) \<Longrightarrow>
   gp_wait i scope suffix metadata 0 res (replicate n (None, now, id)) p = (None, p)"
  by (induction n) simp_all

text \<open>
  When the parent counts more gpus than it names device tokens, a request for the gpus passes
  the static checks and then waits for ever, although no other child is active: the loop has no
  exit without a deadline.
\<close>

theorem grant_pool_can_stall:
  "fst (gp_acquire ''a'' (request_post_init (Some 1) (ex_child 3)) ''s'' ''x'' [] 0
     (replicate n (None, 1, id)) (gp_make (ex_parent 3))) = None
   \<and> validate_static (gp_make (ex_parent 3)) (requested_resources (request_post_init (Some 1) (ex_child 3))) = Inr ()
   \<and> gp_active (gp_make (ex_parent 3)) = []"
proof -
  let ?p = "gp_make (ex_parent 3)" and ?r = "request_post_init (Some 1) (ex_child 3)"
  have "\<not> can_allocate ?p (requested_resources ?r) (cr_tokens (requested_resources ?r))" by code_simp
  then have "gp_wait ''a'' ''s'' ''x'' [] 0 (requested_resources ?r) (replicate n (None, 1, id)) ?p = (None, ?p)"
    by (rule gp_wait_stuck)
  moreover have "distinct (cr_tokens (requested_resources ?r))" "validate_static ?p (requested_resources ?r) = Inr ()"
    "gp_active ?p = []" by code_simp+
  ultimately show ?thesis by (simp add: gp_acquire_def)
qed

end
