(* ===== verification/Wire.thy ===== *)
theory Wire
  imports Prelude
begin

text \<open>
  Python values as the wire protocols carry them, and \<open>wire.py\<close>: freezing turns lists into
  tuples and mappings into read-only views, recursively, thawing goes back. Also the conversions
  \<open>str\<close>, \<open>int\<close>, \<open>float\<close> and \<open>or\<close> that the \<open>from_dict\<close> functions apply; where
  they are not determined here (the text of floats and containers, numbers in strings) they are
  left unspecified.
\<close>

section \<open>Values\<close>

text \<open>
  Mappings have string keys, without duplicates, in insertion order; a read-only view is the
  mapping it shows. \<open>PObject\<close> is any other object, by its class name.
\<close>

datatype pyval =
    PNone
  | PBool bool
  | PInt int
  | PNum rat
  | PStr string
  | PList "pyval list"
  | PTuple "pyval list"
  | PMap "(string \<times> pyval) list"
  | PObject string

type_synonym dict = "(string \<times> pyval) list"

fun truthy :: "pyval \<Rightarrow> bool" where
  "truthy PNone \<longleftrightarrow> False"
| "truthy (PBool b) \<longleftrightarrow> b"
| "truthy (PInt i) \<longleftrightarrow> i \<noteq> 0"
| "truthy (PNum r) \<longleftrightarrow> r \<noteq> 0"
| "truthy (PStr s) \<longleftrightarrow> s \<noteq> []"
| "truthy (PList xs) \<longleftrightarrow> xs \<noteq> []"
| "truthy (PTuple xs) \<longleftrightarrow> xs \<noteq> []"
| "truthy (PMap d) \<longleftrightarrow> d \<noteq> []"
| "truthy (PObject c) \<longleftrightarrow> True"

definition int_string :: "int \<Rightarrow> string" where
  "int_string i = (if i < 0 then ''-'' @ nat_string (nat (- i)) else nat_string (nat i))"

fun py_str :: "pyval \<Rightarrow> string" where
  "py_str (PStr s) = s"
| "py_str PNone = ''None''"
| "py_str (PBool b) = (if b then ''True'' else ''False'')"
| "py_str (PInt i) = int_string i"

fun py_int :: "pyval \<Rightarrow> int result" where
  "py_int (PInt i) = Inr i"
| "py_int (PBool b) = Inr (if b then 1 else 0)"
| "py_int (PNum r) = Inr (if r < 0 then - \<lfloor>- r\<rfloor> else \<lfloor>r\<rfloor>)"
| "py_int PNone = Inl TypeError"
| "py_int (PList xs) = Inl TypeError"
| "py_int (PTuple xs) = Inl TypeError"
| "py_int (PMap d) = Inl TypeError"

fun py_float :: "pyval \<Rightarrow> rat result" where
  "py_float (PInt i) = Inr (of_int i)"
| "py_float (PBool b) = Inr (if b then 1 else 0)"
| "py_float (PNum r) = Inr r"
| "py_float PNone = Inl TypeError"
| "py_float (PList xs) = Inl TypeError"
| "py_float (PTuple xs) = Inl TypeError"
| "py_float (PMap d) = Inl TypeError"

text \<open>\<open>dict(x)\<close>: an empty list or tuple gives the empty mapping, a scalar has no items.\<close>

fun py_dict :: "pyval \<Rightarrow> dict result" where
  "py_dict (PMap d) = Inr d"
| "py_dict (PList []) = Inr []"
| "py_dict (PTuple []) = Inr []"
| "py_dict PNone = Inl TypeError"
| "py_dict (PBool b) = Inl TypeError"
| "py_dict (PInt i) = Inl TypeError"
| "py_dict (PNum r) = Inl TypeError"

definition dict_get :: "dict \<Rightarrow> string \<Rightarrow> pyval \<Rightarrow> pyval" where
  "dict_get d k dflt = (case map_of d k of None \<Rightarrow> dflt | Some v \<Rightarrow> v)"

definition py_or :: "pyval \<Rightarrow> pyval \<Rightarrow> pyval" where
  "py_or a b = (if truthy a then a else b)"

definition dict_update :: "dict \<Rightarrow> dict \<Rightarrow> dict" where
  "dict_update a b = fold (\<lambda>(k, v). AList.update k v) b a"

lemma py_or_simps [simp]: "py_or (PStr s) (PStr t) = PStr (if s = [] then t else s)"
  "py_or (PMap d) (PMap []) = PMap d" "py_or (PInt i) (PInt j) = PInt (if i = 0 then j else i)"
  "py_or (PNum r) (PNum q) = PNum (if r = 0 then q else r)"
  by (auto simp: py_or_def)

text \<open>Exceptions pass through.\<close>

definition rbind :: "'a result \<Rightarrow> ('a \<Rightarrow> 'b result) \<Rightarrow> 'b result" where
  "rbind x f = (case x of Inl e \<Rightarrow> Inl e | Inr y \<Rightarrow> f y)"

definition guard :: "bool \<Rightarrow> py_error \<Rightarrow> unit result" where
  "guard b e = (if b then Inr () else Inl e)"

lemma rbind_simps [simp]: "rbind (Inl e) f = Inl e" "rbind (Inr x) f = f x"
  by (simp_all add: rbind_def)

lemma rbind_Inr: "rbind x f = Inr y \<longleftrightarrow> (\<exists>z. x = Inr z \<and> f z = Inr y)"
  by (cases x) simp_all

lemma guard_Inr [simp]: "guard b e = Inr u \<longleftrightarrow> b"
  by (simp add: guard_def)

lemma rbind_guard [simp]: "rbind (guard b e) f = Inr y \<longleftrightarrow> b \<and> f () = Inr y"
  by (simp add: rbind_def guard_def)

lemma guard_simps [simp]: "guard True e = Inr ()" "guard False e = Inl e"
  by (simp_all add: guard_def)

text \<open>A comprehension whose body may raise, and iteration over a value.\<close>

primrec map_result :: "('a \<Rightarrow> 'b result) \<Rightarrow> 'a list \<Rightarrow> 'b list result" where
  "map_result f [] = Inr []"
| "map_result f (x # xs) = rbind (f x) (\<lambda>y. rbind (map_result f xs) (\<lambda>ys. Inr (y # ys)))"

lemma map_result_Inr: "map_result f xs = Inr ys \<longleftrightarrow> list_all2 (\<lambda>x y. f x = Inr y) xs ys"
  by (induction xs arbitrary: ys) (auto simp: rbind_Inr list_all2_Cons1)

lemma map_result_map: "(\<And>x. x \<in> set xs \<Longrightarrow> f (g x) = Inr (h x)) \<Longrightarrow> map_result f (map g xs) = Inr (map h xs)"
  by (induction xs) auto

fun py_iter :: "pyval \<Rightarrow> pyval list result" where
  "py_iter (PList xs) = Inr xs"
| "py_iter (PTuple xs) = Inr xs"
| "py_iter (PMap d) = Inr (map (\<lambda>(k, v). PStr k) d)"
| "py_iter (PStr s) = Inr (map (\<lambda>ch. PStr [ch]) s)"
| "py_iter PNone = Inl TypeError"
| "py_iter (PBool b) = Inl TypeError"
| "py_iter (PInt i) = Inl TypeError"
| "py_iter (PNum r) = Inl TypeError"

text \<open>Fields of a payload: \<open>str(data.get(k, d))\<close>, \<open>dict(data.get(k, {}) or {})\<close>, \<open>int(data.get(k, d) or d)\<close>.\<close>

definition get_str :: "dict \<Rightarrow> string \<Rightarrow> string" where
  "get_str d k = py_str (dict_get d k (PStr []))"

definition get_str_or :: "dict \<Rightarrow> string \<Rightarrow> string" where
  "get_str_or d k = py_str (py_or (dict_get d k (PStr [])) (PStr []))"

definition get_dict :: "dict \<Rightarrow> string \<Rightarrow> dict result" where
  "get_dict d k = py_dict (py_or (dict_get d k (PMap [])) (PMap []))"

definition get_int :: "dict \<Rightarrow> string \<Rightarrow> int \<Rightarrow> int result" where
  "get_int d k n = py_int (py_or (dict_get d k (PInt n)) (PInt n))"

definition get_float :: "dict \<Rightarrow> string \<Rightarrow> rat result" where
  "get_float d k = py_float (py_or (dict_get d k (PNum 0)) (PNum 0))"

lemmas get_defs = get_str_def get_str_or_def get_dict_def get_int_def get_float_def dict_get_def

section \<open>Equality\<close>

text \<open>Numbers are equal by value; a list is not equal to a tuple; mappings ignore the order.\<close>

fun num_value :: "pyval \<Rightarrow> rat option" where
  "num_value (PBool b) = Some (if b then 1 else 0)"
| "num_value (PInt i) = Some (of_int i)"
| "num_value (PNum r) = Some r"
| "num_value _ = None"

fun py_eq :: "pyval \<Rightarrow> pyval \<Rightarrow> bool" where
  "py_eq (PStr s) w \<longleftrightarrow> (case w of PStr t \<Rightarrow> s = t | _ \<Rightarrow> False)"
| "py_eq (PList xs) w \<longleftrightarrow> (case w of PList ys \<Rightarrow> list_all2 py_eq xs ys | _ \<Rightarrow> False)"
| "py_eq (PTuple xs) w \<longleftrightarrow> (case w of PTuple ys \<Rightarrow> list_all2 py_eq xs ys | _ \<Rightarrow> False)"
| "py_eq (PMap d) w \<longleftrightarrow> (case w of PMap e \<Rightarrow> length d = length e
     \<and> list_all (\<lambda>(k, v). case map_of e k of None \<Rightarrow> False | Some u \<Rightarrow> py_eq v u) d | _ \<Rightarrow> False)"
| "py_eq PNone w \<longleftrightarrow> w = PNone"
| "py_eq (PObject c) w \<longleftrightarrow> w = PObject c"
| "py_eq v w \<longleftrightarrow> num_value v = num_value w"

section \<open>Freezing and thawing\<close>

fun wire_safe :: "pyval \<Rightarrow> bool" where
  "wire_safe (PList xs) \<longleftrightarrow> list_all wire_safe xs"
| "wire_safe (PTuple xs) \<longleftrightarrow> list_all wire_safe xs"
| "wire_safe (PMap d) \<longleftrightarrow> list_all (\<lambda>(k, v). wire_safe v) d"
| "wire_safe (PObject c) \<longleftrightarrow> False"
| "wire_safe v \<longleftrightarrow> True"

fun frozen :: "pyval \<Rightarrow> pyval" where
  "frozen (PList xs) = PTuple (map frozen xs)"
| "frozen (PTuple xs) = PTuple (map frozen xs)"
| "frozen (PMap d) = PMap (map (\<lambda>(k, v). (k, frozen v)) d)"
| "frozen v = v"

definition freeze_wire_value :: "pyval \<Rightarrow> pyval result" where
  "freeze_wire_value v = (if wire_safe v then Inr (frozen v) else Inl TypeError)"

definition freeze_wire_mapping :: "dict \<Rightarrow> dict result" where
  "freeze_wire_mapping d = (case freeze_wire_value (PMap d) of Inl e \<Rightarrow> Inl e | Inr (PMap f) \<Rightarrow> Inr f | Inr _ \<Rightarrow> Inl TypeError)"

fun thaw_wire_value :: "pyval \<Rightarrow> pyval" where
  "thaw_wire_value (PMap d) = PMap (map (\<lambda>(k, v). (k, thaw_wire_value v)) d)"
| "thaw_wire_value (PTuple xs) = PList (map thaw_wire_value xs)"
| "thaw_wire_value v = v"

definition thaw_wire_mapping :: "dict \<Rightarrow> dict" where
  "thaw_wire_mapping d = map (\<lambda>(k, v). (k, thaw_wire_value v)) d"

section \<open>Round trips\<close>

lemma lower_char_idem [simp]: "lower_char (lower_char ch) = lower_char ch"
  by (auto simp: lower_char_def Let_def of_char_of)

lemma is_space_lower [simp]: "is_space (lower_char ch) \<longleftrightarrow> is_space ch"
  by (auto simp: lower_char_def is_space_def Let_def)

lemma py_lower_idem [simp]: "py_lower (py_lower s) = py_lower s"
  by (simp add: py_lower_def comp_def)

lemma py_strip_lower: "py_strip (py_lower s) = py_lower (py_strip s)"
  by (simp add: py_strip_def py_lower_def dropWhile_map rev_map comp_def)

lemma lower_strip_idem [simp]: "py_lower (py_strip (py_lower (py_strip s))) = py_lower (py_strip s)"
  by (simp add: py_strip_lower)

lemma frozen_idem [simp]: "frozen (frozen v) = frozen v"
  by (induction v rule: frozen.induct) (auto simp: comp_def)

lemma wire_safe_frozen [simp]: "wire_safe (frozen v) \<longleftrightarrow> wire_safe v"
  by (induction v rule: frozen.induct) (auto simp: list_all_iff)

lemma frozen_thaw [simp]: "frozen (thaw_wire_value (frozen v)) = frozen v"
  by (induction v rule: frozen.induct) (auto simp: comp_def)

lemma wire_safe_thaw [simp]: "wire_safe (thaw_wire_value (frozen v)) \<longleftrightarrow> wire_safe v"
  by (induction v rule: frozen.induct) (auto simp: list_all_iff)

text \<open>A frozen mapping.\<close>

definition frozen_dict :: "dict \<Rightarrow> bool" where
  "frozen_dict d \<longleftrightarrow> (\<forall>(k, v)\<in>set d. wire_safe v \<and> frozen v = v)"

lemma freeze_wire_mapping_eq:
  "freeze_wire_mapping d = (if list_all (\<lambda>(k, v). wire_safe v) d then Inr (map (\<lambda>(k, v). (k, frozen v)) d) else Inl TypeError)"
  by (simp add: freeze_wire_mapping_def freeze_wire_value_def)

lemma freeze_wire_mapping_frozen: "freeze_wire_mapping d = Inr f \<Longrightarrow> frozen_dict f"
  by (fastforce simp: freeze_wire_mapping_eq frozen_dict_def list_all_iff split: if_splits)

lemma freeze_frozen_dict [simp]: "frozen_dict f \<Longrightarrow> freeze_wire_mapping f = Inr f"
  by (auto simp: freeze_wire_mapping_eq frozen_dict_def list_all_iff intro!: map_idI)

lemma freeze_thaw_dict [simp]: "frozen_dict f \<Longrightarrow> freeze_wire_mapping (thaw_wire_mapping f) = Inr f"
proof -
  assume f: "frozen_dict f"
  have "wire_safe (thaw_wire_value v) \<and> frozen (thaw_wire_value v) = v" if "(k, v) \<in> set f" for k v
  proof -
    have v: "wire_safe v" "frozen v = v" using f that by (auto simp: frozen_dict_def)
    show ?thesis using frozen_thaw[of v] wire_safe_thaw[of v] unfolding v(2) by (simp add: v(1))
  qed
  then show ?thesis
    by (auto simp: freeze_wire_mapping_eq thaw_wire_mapping_def list_all_iff intro!: map_idI)
qed

text \<open>Mappings without duplicate keys, at any depth; on them equality is reflexive.\<close>

fun keys_ok :: "pyval \<Rightarrow> bool" where
  "keys_ok (PList xs) \<longleftrightarrow> list_all keys_ok xs"
| "keys_ok (PTuple xs) \<longleftrightarrow> list_all keys_ok xs"
| "keys_ok (PMap d) \<longleftrightarrow> distinct (map fst d) \<and> list_all (\<lambda>(k, v). keys_ok v) d"
| "keys_ok v \<longleftrightarrow> True"

lemma py_eq_refl: "keys_ok v \<Longrightarrow> py_eq v v"
proof (induction v rule: keys_ok.induct)
  case (3 d)
  have "map_of d k = Some v \<and> py_eq v v" if "(k, v) \<in> set d" for k v
    using 3 that by (auto simp: list_all_iff)
  then show ?case by (auto simp: list_all_iff)
qed (auto simp: list_all_iff list_all2_same)

text \<open>A value with a list or a tuple in it, however deep.\<close>

fun has_sequence :: "pyval \<Rightarrow> bool" where
  "has_sequence (PList xs) \<longleftrightarrow> True"
| "has_sequence (PTuple xs) \<longleftrightarrow> True"
| "has_sequence (PMap d) \<longleftrightarrow> list_ex (\<lambda>(k, v). has_sequence v) d"
| "has_sequence v \<longleftrightarrow> False"

text \<open>A frozen value equals its thawed form only if it has no sequence in it.\<close>

lemma map_of_mapk_pair: "map_of (map (\<lambda>(k, v). (k, f v)) d) k = map_option f (map_of d k)"
  by (induction d) auto

lemma frozen_eq_thawed:
  "keys_ok v \<Longrightarrow> py_eq (frozen v) (thaw_wire_value (frozen v)) \<longleftrightarrow> \<not> has_sequence v"
proof (induction v rule: keys_ok.induct)
  case (3 d)
  have m: "map_of (map (\<lambda>(k, v). (k, f v)) d) k = Some (f v)" if "(k, v) \<in> set d" for k v and f :: "pyval \<Rightarrow> pyval"
    using 3(2) that by (simp add: map_of_mapk_pair)
  have "(case map_of (map (\<lambda>(k, v). (k, thaw_wire_value (frozen v))) d) k of None \<Rightarrow> False
      | Some u \<Rightarrow> py_eq (frozen v) u) \<longleftrightarrow> \<not> has_sequence v" if "(k, v) \<in> set d" for k v
    using 3 that m[OF that, of "\<lambda>v. thaw_wire_value (frozen v)"] by (auto simp: list_all_iff)
  then have "(\<forall>(k, v)\<in>set d. case map_of (map (\<lambda>(k, v). (k, thaw_wire_value (frozen v))) d) k of None \<Rightarrow> False
      | Some u \<Rightarrow> py_eq (frozen v) u) \<longleftrightarrow> (\<forall>(k, v)\<in>set d. \<not> has_sequence v)" by (intro ball_cong) auto
  then show ?case by (simp add: list_all_iff list_ex_iff comp_def case_prod_unfold cong: option.case_cong)
qed simp_all

end
