(* ===== verification/Evaluation_Event.thy ===== *)
theory Evaluation_Event
  imports Wire
begin

text \<open>
  The wire envelopes of \<open>evaluation/event.py\<close>: evaluation events, dispositions and
  verification receipts, with the checks of their constructors, \<open>as_dict\<close> and
  \<open>from_dict\<close>. The payloads are frozen mappings. The digest of a disposition is a
  SHA-256 of its canonical JSON; the hash function is the parameter \<open>sha\<close>.
\<close>

section \<open>Events\<close>

record event_envelope =
  ev_id :: string
  ev_candidate_codec :: string
  ev_candidate :: dict
  ev_feedback_codec :: string
  ev_feedback :: dict
  ev_provenance :: "dict list"
  ev_identity :: dict
  ev_count :: int
  ev_complete :: bool
  ev_metadata :: dict

fun freeze_all :: "dict list \<Rightarrow> dict list result" where
  "freeze_all [] = Inr []"
| "freeze_all (d # ds) = rbind (freeze_wire_mapping d) (\<lambda>f. rbind (freeze_all ds) (\<lambda>fs. Inr (f # fs)))"

definition make_event :: "event_envelope \<Rightarrow> event_envelope result" where
  "make_event x =
     (let i = py_strip (ev_id x); cc = py_strip (ev_candidate_codec x); fc = py_strip (ev_feedback_codec x) in
      rbind (guard (i \<noteq> []) ValueError) (\<lambda>_.
      rbind (guard (cc \<noteq> [] \<and> fc \<noteq> []) ValueError) (\<lambda>_.
      rbind (guard (0 \<le> ev_count x) ValueError) (\<lambda>_.
      rbind (freeze_all (ev_provenance x)) (\<lambda>prov.
      rbind (freeze_wire_mapping (ev_candidate x)) (\<lambda>cand.
      rbind (freeze_wire_mapping (ev_feedback x)) (\<lambda>feed.
      rbind (freeze_wire_mapping (ev_identity x)) (\<lambda>ident.
      rbind (freeze_wire_mapping (ev_metadata x)) (\<lambda>meta.
      Inr \<lparr>ev_id = i, ev_candidate_codec = cc, ev_candidate = cand, ev_feedback_codec = fc, ev_feedback = feed,
           ev_provenance = prov, ev_identity = ident, ev_count = ev_count x, ev_complete = ev_complete x,
           ev_metadata = meta\<rparr>)))))))))"

definition event_schema :: string where
  "event_schema = ''blackbase.evaluation_event/v1''"

definition event_as_dict :: "event_envelope \<Rightarrow> dict" where
  "event_as_dict x = [(''schema'', PStr event_schema), (''event_id'', PStr (ev_id x)),
     (''candidate_codec'', PStr (ev_candidate_codec x)), (''candidate_payload'', PMap (thaw_wire_mapping (ev_candidate x))),
     (''feedback_codec'', PStr (ev_feedback_codec x)), (''feedback_payload'', PMap (thaw_wire_mapping (ev_feedback x))),
     (''provenance'', PList (map (PMap \<circ> thaw_wire_mapping) (ev_provenance x))),
     (''identity'', PMap (thaw_wire_mapping (ev_identity x))), (''evaluation_count'', PInt (ev_count x)),
     (''semantic_complete'', PBool (ev_complete x)), (''metadata'', PMap (thaw_wire_mapping (ev_metadata x)))]"

fun py_items :: "pyval \<Rightarrow> pyval list result" where
  "py_items (PList xs) = Inr xs"
| "py_items (PTuple xs) = Inr xs"
| "py_items (PMap d) = Inr (map (PStr \<circ> fst) d)"
| "py_items (PInt i) = Inl TypeError"
| "py_items (PNum r) = Inl TypeError"
| "py_items (PBool b) = Inl TypeError"
| "py_items PNone = Inl TypeError"

text \<open>\<open>dict(item or {})\<close> for every item of the provenance.\<close>

fun dicts_of :: "pyval list \<Rightarrow> dict list result" where
  "dicts_of [] = Inr []"
| "dicts_of (v # vs) = rbind (py_dict (py_or v (PMap []))) (\<lambda>d. rbind (dicts_of vs) (\<lambda>ds. Inr (d # ds)))"

definition event_from_dict :: "dict \<Rightarrow> event_envelope result" where
  "event_from_dict data =
     rbind (guard (get_str_or data ''schema'' = event_schema) ValueError) (\<lambda>_.
     rbind (get_dict data ''candidate_payload'') (\<lambda>cand.
     rbind (get_dict data ''feedback_payload'') (\<lambda>feed.
     rbind (rbind (py_items (py_or (dict_get data ''provenance'' (PTuple [])) (PTuple []))) dicts_of) (\<lambda>prov.
     rbind (get_dict data ''identity'') (\<lambda>ident.
     rbind (get_int data ''evaluation_count'' 0) (\<lambda>n.
     rbind (get_dict data ''metadata'') (\<lambda>meta.
     make_event \<lparr>ev_id = get_str data ''event_id'', ev_candidate_codec = get_str data ''candidate_codec'',
       ev_candidate = cand, ev_feedback_codec = get_str data ''feedback_codec'', ev_feedback = feed,
       ev_provenance = prov, ev_identity = ident, ev_count = n,
       ev_complete = truthy (dict_get data ''semantic_complete'' (PBool True)), ev_metadata = meta\<rparr>)))))))"

section \<open>Dispositions\<close>

record disposition =
  d_event_id :: string
  d_status :: string
  d_codec :: string
  d_payload :: dict
  d_event_key :: string
  d_authority_key :: string
  d_identity :: dict
  d_metadata :: dict

definition decision_states :: "string set" where
  "decision_states = {''committed'', ''rejected'', ''failed''}"

definition make_disposition :: "disposition \<Rightarrow> disposition result" where
  "make_disposition x =
     (let i = py_strip (d_event_id x); st = py_lower (py_strip (d_status x)); codec = py_strip (d_codec x);
          ek = py_strip (d_event_key x); ak = py_strip (d_authority_key x) in
      rbind (guard (i \<noteq> []) ValueError) (\<lambda>_.
      rbind (guard (st \<in> decision_states) ValueError) (\<lambda>_.
      rbind (guard (codec \<noteq> []) ValueError) (\<lambda>_.
      rbind (guard (ek \<noteq> []) ValueError) (\<lambda>_.
      rbind (guard (\<not> (st = ''committed'' \<and> ak = [])) ValueError) (\<lambda>_.
      rbind (freeze_wire_mapping (d_payload x)) (\<lambda>payload.
      rbind (freeze_wire_mapping (d_identity x)) (\<lambda>ident.
      rbind (freeze_wire_mapping (d_metadata x)) (\<lambda>meta.
      Inr \<lparr>d_event_id = i, d_status = st, d_codec = codec, d_payload = payload, d_event_key = ek,
           d_authority_key = ak, d_identity = ident, d_metadata = meta\<rparr>)))))))))"

definition disposition_schema :: string where
  "disposition_schema = ''blackbase.evaluation_disposition/v1''"

definition disposition_as_dict :: "disposition \<Rightarrow> dict" where
  "disposition_as_dict x = [(''schema'', PStr disposition_schema), (''event_id'', PStr (d_event_id x)),
     (''status'', PStr (d_status x)), (''disposition_codec'', PStr (d_codec x)),
     (''disposition_payload'', PMap (thaw_wire_mapping (d_payload x))), (''event_snapshot_key'', PStr (d_event_key x)),
     (''authority_snapshot_key'', PStr (d_authority_key x)), (''identity'', PMap (thaw_wire_mapping (d_identity x))),
     (''metadata'', PMap (thaw_wire_mapping (d_metadata x)))]"

definition disposition_from_dict :: "dict \<Rightarrow> disposition result" where
  "disposition_from_dict data =
     rbind (guard (get_str_or data ''schema'' = disposition_schema) ValueError) (\<lambda>_.
     rbind (get_dict data ''disposition_payload'') (\<lambda>payload.
     rbind (get_dict data ''identity'') (\<lambda>ident.
     rbind (get_dict data ''metadata'') (\<lambda>meta.
     make_disposition \<lparr>d_event_id = get_str data ''event_id'', d_status = get_str data ''status'',
       d_codec = get_str data ''disposition_codec'', d_payload = payload,
       d_event_key = get_str_or data ''event_snapshot_key'', d_authority_key = get_str_or data ''authority_snapshot_key'',
       d_identity = ident, d_metadata = meta\<rparr>))))"

definition disposition_digest :: "(dict \<Rightarrow> string) \<Rightarrow> disposition \<Rightarrow> string" where
  "disposition_digest sha x = ''sha256:'' @ sha (disposition_as_dict x)"

section \<open>Verification receipts\<close>

record receipt =
  r_event_id :: string
  r_event_key :: string
  r_event_revision :: int
  r_event_digest :: string
  r_event_schema :: string
  r_dest_key :: string
  r_dest_revision :: int
  r_dest_digest :: string
  r_dest_schema :: string
  r_digest :: string
  r_verifier :: string
  r_verified_at :: time
  r_metadata :: dict

definition digest_ok :: "string \<Rightarrow> bool" where
  "digest_ok s \<longleftrightarrow> starts_with ''sha256:'' s \<and> length s = 71"

definition make_receipt :: "receipt \<Rightarrow> receipt result" where
  "make_receipt x =
     (let i = py_strip (r_event_id x); ek = py_strip (r_event_key x); dk = py_strip (r_dest_key x);
          ed = py_lower (py_strip (r_event_digest x)); dd = py_lower (py_strip (r_dest_digest x));
          es = py_strip (r_event_schema x); ds = py_strip (r_dest_schema x);
          dg = py_lower (py_strip (r_digest x)); v = py_strip (r_verifier x) in
      rbind (guard (i \<noteq> [] \<and> ek \<noteq> [] \<and> dk \<noteq> []) ValueError) (\<lambda>_.
      rbind (guard (0 < r_event_revision x \<and> 0 < r_dest_revision x) ValueError) (\<lambda>_.
      rbind (guard (digest_ok ed \<and> digest_ok dd) ValueError) (\<lambda>_.
      rbind (guard (es \<noteq> [] \<and> ds \<noteq> []) ValueError) (\<lambda>_.
      rbind (guard (digest_ok dg) ValueError) (\<lambda>_.
      rbind (guard (v \<noteq> []) ValueError) (\<lambda>_.
      rbind (guard (0 < r_verified_at x) ValueError) (\<lambda>_.
      rbind (freeze_wire_mapping (r_metadata x)) (\<lambda>meta.
      Inr \<lparr>r_event_id = i, r_event_key = ek, r_event_revision = r_event_revision x, r_event_digest = ed,
           r_event_schema = es, r_dest_key = dk, r_dest_revision = r_dest_revision x, r_dest_digest = dd,
           r_dest_schema = ds, r_digest = dg, r_verifier = v, r_verified_at = r_verified_at x, r_metadata = meta\<rparr>)))))))))"

definition receipt_schema :: string where
  "receipt_schema = ''blackbase.evaluation_disposition_verification/v2''"

definition receipt_as_dict :: "receipt \<Rightarrow> dict" where
  "receipt_as_dict x = [(''schema'', PStr receipt_schema), (''event_id'', PStr (r_event_id x)),
     (''event_snapshot_key'', PStr (r_event_key x)), (''event_snapshot_revision'', PInt (r_event_revision x)),
     (''event_snapshot_digest'', PStr (r_event_digest x)), (''event_snapshot_schema'', PStr (r_event_schema x)),
     (''destination_snapshot_key'', PStr (r_dest_key x)), (''destination_snapshot_revision'', PInt (r_dest_revision x)),
     (''destination_snapshot_digest'', PStr (r_dest_digest x)), (''destination_snapshot_schema'', PStr (r_dest_schema x)),
     (''disposition_digest'', PStr (r_digest x)), (''verifier'', PStr (r_verifier x)),
     (''verified_at'', PNum (r_verified_at x)), (''metadata'', PMap (thaw_wire_mapping (r_metadata x)))]"

definition receipt_from_dict :: "dict \<Rightarrow> receipt result" where
  "receipt_from_dict data =
     rbind (guard (get_str_or data ''schema'' = receipt_schema) ValueError) (\<lambda>_.
     rbind (get_int data ''event_snapshot_revision'' 0) (\<lambda>er.
     rbind (get_int data ''destination_snapshot_revision'' 0) (\<lambda>dr.
     rbind (get_float data ''verified_at'') (\<lambda>t.
     rbind (get_dict data ''metadata'') (\<lambda>meta.
     make_receipt \<lparr>r_event_id = get_str data ''event_id'', r_event_key = get_str data ''event_snapshot_key'',
       r_event_revision = er, r_event_digest = get_str data ''event_snapshot_digest'',
       r_event_schema = get_str data ''event_snapshot_schema'', r_dest_key = get_str data ''destination_snapshot_key'',
       r_dest_revision = dr, r_dest_digest = get_str data ''destination_snapshot_digest'',
       r_dest_schema = get_str data ''destination_snapshot_schema'', r_digest = get_str data ''disposition_digest'',
       r_verifier = get_str data ''verifier'', r_verified_at = t, r_metadata = meta\<rparr>)))))"

section \<open>Well-formed envelopes and their round trips\<close>

text \<open>What the constructors establish: they are the identity on their own results.\<close>

definition event_wf :: "event_envelope \<Rightarrow> bool" where
  "event_wf x \<longleftrightarrow> make_event x = Inr x"

definition disposition_wf :: "disposition \<Rightarrow> bool" where
  "disposition_wf x \<longleftrightarrow> make_disposition x = Inr x"

definition receipt_wf :: "receipt \<Rightarrow> bool" where
  "receipt_wf x \<longleftrightarrow> make_receipt x = Inr x"

lemma freeze_wire_mapping_idem: "freeze_wire_mapping d = Inr f \<Longrightarrow> freeze_wire_mapping f = Inr f"
  by (rule freeze_frozen_dict) (rule freeze_wire_mapping_frozen)

lemma freeze_all_idem: "freeze_all ds = Inr fs \<Longrightarrow> freeze_all fs = Inr fs \<and> list_all frozen_dict fs"
proof (induction ds arbitrary: fs)
  case (Cons d ds)
  then obtain f fs' where f: "freeze_wire_mapping d = Inr f" "freeze_all ds = Inr fs'" "fs = f # fs'"
    by (auto simp: rbind_Inr)
  then show ?case
    using Cons.IH[OF f(2)] freeze_wire_mapping_idem[OF f(1)] freeze_wire_mapping_frozen[OF f(1)] by simp
qed simp

lemma make_event_wf:
  assumes "make_event x = Inr y"
  shows "event_wf y"
proof -
  obtain prov cand feed ident meta where
    f: "freeze_all (ev_provenance x) = Inr prov" "freeze_wire_mapping (ev_candidate x) = Inr cand"
      "freeze_wire_mapping (ev_feedback x) = Inr feed" "freeze_wire_mapping (ev_identity x) = Inr ident"
      "freeze_wire_mapping (ev_metadata x) = Inr meta"
    and y: "y = \<lparr>ev_id = py_strip (ev_id x), ev_candidate_codec = py_strip (ev_candidate_codec x), ev_candidate = cand,
      ev_feedback_codec = py_strip (ev_feedback_codec x), ev_feedback = feed, ev_provenance = prov, ev_identity = ident,
      ev_count = ev_count x, ev_complete = ev_complete x, ev_metadata = meta\<rparr>"
    and c: "py_strip (ev_id x) \<noteq> []" "py_strip (ev_candidate_codec x) \<noteq> []" "py_strip (ev_feedback_codec x) \<noteq> []"
      "0 \<le> ev_count x"
    using assms unfolding make_event_def Let_def rbind_Inr guard_Inr sum.inject by (elim exE conjE) (rule that, assumption+, erule sym, simp_all)
  show ?thesis
    using freeze_all_idem[OF f(1)] f(2-5)[THEN freeze_wire_mapping_idem] c
    by (simp add: y event_wf_def make_event_def Let_def)
qed

lemma make_disposition_wf:
  assumes "make_disposition x = Inr y"
  shows "disposition_wf y"
proof -
  obtain payload ident meta where
    f: "freeze_wire_mapping (d_payload x) = Inr payload" "freeze_wire_mapping (d_identity x) = Inr ident"
      "freeze_wire_mapping (d_metadata x) = Inr meta"
    and y: "y = \<lparr>d_event_id = py_strip (d_event_id x), d_status = py_lower (py_strip (d_status x)),
      d_codec = py_strip (d_codec x), d_payload = payload, d_event_key = py_strip (d_event_key x),
      d_authority_key = py_strip (d_authority_key x), d_identity = ident, d_metadata = meta\<rparr>"
    and c: "py_strip (d_event_id x) \<noteq> []" "py_lower (py_strip (d_status x)) \<in> decision_states"
      "py_strip (d_codec x) \<noteq> []" "py_strip (d_event_key x) \<noteq> []"
      "py_lower (py_strip (d_status x)) = ''committed'' \<longrightarrow> py_strip (d_authority_key x) \<noteq> []"
    using assms unfolding make_disposition_def Let_def rbind_Inr guard_Inr sum.inject by (elim exE conjE) (rule that, assumption+, erule sym, simp_all)
  show ?thesis
    using f[THEN freeze_wire_mapping_idem] c
    by (simp add: y disposition_wf_def make_disposition_def Let_def)
qed

lemma make_receipt_wf:
  assumes "make_receipt x = Inr y"
  shows "receipt_wf y"
proof -
  obtain meta where f: "freeze_wire_mapping (r_metadata x) = Inr meta" and "r_metadata y = meta"
    using assms by (auto simp: make_receipt_def Let_def rbind_Inr)
  then have m: "freeze_wire_mapping (r_metadata y) = Inr (r_metadata y)"
    using freeze_wire_mapping_idem by simp
  show ?thesis
    using assms m by (cases y) (auto simp: make_receipt_def receipt_wf_def Let_def rbind_Inr)
qed

text \<open>The lists and mappings of a well-formed envelope are frozen.\<close>

lemma event_wfD:
  assumes "event_wf x"
  shows "frozen_dict (ev_candidate x)" "frozen_dict (ev_feedback x)" "frozen_dict (ev_identity x)"
    "frozen_dict (ev_metadata x)" "freeze_all (ev_provenance x) = Inr (ev_provenance x)"
  using assms
  by (cases x, (auto simp: event_wf_def make_event_def Let_def rbind_Inr dest: freeze_wire_mapping_frozen)[1])+

lemma disposition_wfD:
  assumes "disposition_wf x"
  shows "frozen_dict (d_payload x)" "frozen_dict (d_identity x)" "frozen_dict (d_metadata x)"
    "d_status x \<in> decision_states" "d_event_key x \<noteq> []" "d_event_id x \<noteq> []"
    "d_status x = ''committed'' \<Longrightarrow> d_authority_key x \<noteq> []"
  using assms
  by (cases x, (auto simp: disposition_wf_def make_disposition_def Let_def rbind_Inr dest: freeze_wire_mapping_frozen)[1])+

lemma receipt_wfD: "receipt_wf x \<Longrightarrow> frozen_dict (r_metadata x)"
  by (cases x, auto simp: receipt_wf_def make_receipt_def Let_def rbind_Inr dest: freeze_wire_mapping_frozen)

lemma dicts_of_maps: "dicts_of (map (PMap \<circ> f) ds) = Inr (map f ds)"
  by (induction ds) (auto simp: py_or_def)

lemma freeze_all_thaw: "freeze_all ds = Inr ds \<Longrightarrow> freeze_all (map thaw_wire_mapping ds) = Inr ds"
proof -
  assume "freeze_all ds = Inr ds"
  then have "list_all frozen_dict ds" by (blast dest: freeze_all_idem)
  then show ?thesis by (induction ds) auto
qed

lemma schema_nonempty [simp]: "event_schema \<noteq> []" "disposition_schema \<noteq> []" "receipt_schema \<noteq> []"
  by (simp_all add: event_schema_def disposition_schema_def receipt_schema_def)

lemma py_items_or [simp]: "py_items (py_or (PList xs) (PTuple [])) = Inr xs"
  by (simp add: py_or_def)

lemma make_event_thaw:
  assumes "event_wf x"
  shows "make_event \<lparr>ev_id = ev_id x, ev_candidate_codec = ev_candidate_codec x,
    ev_candidate = thaw_wire_mapping (ev_candidate x), ev_feedback_codec = ev_feedback_codec x,
    ev_feedback = thaw_wire_mapping (ev_feedback x), ev_provenance = map thaw_wire_mapping (ev_provenance x),
    ev_identity = thaw_wire_mapping (ev_identity x), ev_count = ev_count x, ev_complete = ev_complete x,
    ev_metadata = thaw_wire_mapping (ev_metadata x)\<rparr> = Inr x"
  using event_wfD[OF assms] assms by (simp add: make_event_def event_wf_def freeze_all_thaw Let_def)

lemma event_round_trip: "event_wf x \<Longrightarrow> event_from_dict (event_as_dict x) = Inr x"
  by (simp add: event_from_dict_def event_as_dict_def get_defs dicts_of_maps make_event_thaw)

lemma make_receipt_thaw:
  assumes "receipt_wf x"
  shows "make_receipt \<lparr>r_event_id = r_event_id x, r_event_key = r_event_key x, r_event_revision = r_event_revision x,
    r_event_digest = r_event_digest x, r_event_schema = r_event_schema x, r_dest_key = r_dest_key x,
    r_dest_revision = r_dest_revision x, r_dest_digest = r_dest_digest x, r_dest_schema = r_dest_schema x,
    r_digest = r_digest x, r_verifier = r_verifier x, r_verified_at = r_verified_at x,
    r_metadata = thaw_wire_mapping (r_metadata x)\<rparr> = Inr x"
  using receipt_wfD[OF assms] assms by (simp add: make_receipt_def receipt_wf_def Let_def)

lemma get_num_same [simp]: "(if i = 0 then 0 else i) = i"
  by simp

lemma receipt_round_trip: "receipt_wf x \<Longrightarrow> receipt_from_dict (receipt_as_dict x) = Inr x"
  by (simp add: receipt_from_dict_def receipt_as_dict_def get_defs make_receipt_thaw)

lemma make_disposition_thaw:
  assumes "disposition_wf x"
  shows "make_disposition \<lparr>d_event_id = d_event_id x, d_status = d_status x, d_codec = d_codec x,
    d_payload = thaw_wire_mapping (d_payload x), d_event_key = d_event_key x, d_authority_key = d_authority_key x,
    d_identity = thaw_wire_mapping (d_identity x), d_metadata = thaw_wire_mapping (d_metadata x)\<rparr> = Inr x"
  using disposition_wfD(1-3)[OF assms] assms by (simp add: make_disposition_def disposition_wf_def Let_def)

lemma disposition_round_trip: "disposition_wf x \<Longrightarrow> disposition_from_dict (disposition_as_dict x) = Inr x"
  by (simp add: disposition_from_dict_def disposition_as_dict_def get_defs make_disposition_thaw)

end
