(* ===== verification/Evaluation_Evidence.thy ===== *)
theory Evaluation_Evidence
  imports Evaluation_Event
begin

text \<open>
  The records of the evidence journal (\<open>EvaluationEvidenceRecord\<close> of
  \<open>evaluation/journal.py\<close>) and the transitions that \<open>EvaluationEvidenceJournal\<close> applies to
  one record: each is the \<open>update\<close> closure of a method, from the current record, if there is
  one, to the next or an exception. \<open>sha\<close> is the hash of a disposition.
\<close>

section \<open>Records\<close>

record evidence =
  e_event_id :: string
  e_run_id :: string
  e_event_key :: string
  e_status :: string
  e_disposition :: "dict option"
  e_disposition_key :: string
  e_verification :: "dict option"
  e_identity :: dict
  e_metadata :: dict
  e_revision :: int
  e_created :: time
  e_updated :: time

definition active_statuses :: "string set" where
  "active_statuses = {''preparing'', ''pending'', ''deciding''}"

definition terminal_statuses :: "string set" where
  "terminal_statuses = {''committed'', ''rejected'', ''failed'', ''abandoned''}"

definition e_terminal :: "evidence \<Rightarrow> bool" where
  "e_terminal x \<longleftrightarrow> e_status x \<in> terminal_statuses"

definition e_terminal_verified :: "evidence \<Rightarrow> bool" where
  "e_terminal_verified x \<longleftrightarrow> e_status x \<in> decision_states \<and> e_verification x \<noteq> None"

text \<open>The two payloads that a record checks: they are parsed, compared and frozen again.\<close>

definition check_disposition :: "string \<Rightarrow> string \<Rightarrow> dict option \<Rightarrow> dict option result" where
  "check_disposition event_id st d = rbind (case d of None \<Rightarrow> Inr None
       | Some raw \<Rightarrow> rbind (disposition_from_dict raw) (\<lambda>env.
           rbind (guard (d_event_id env = event_id) ValueError) (\<lambda>_.
           rbind (freeze_wire_mapping (disposition_as_dict env)) (\<lambda>f. Inr (Some f)))))
     (\<lambda>payload.
     rbind (guard (\<not> (st = ''deciding'' \<and> payload = None)) ValueError) (\<lambda>_.
     rbind (if st \<in> decision_states
        then (case payload of None \<Rightarrow> Inl ValueError
          | Some f \<Rightarrow> rbind (disposition_from_dict f) (\<lambda>env. guard (d_status env = st) ValueError))
        else Inr ()) (\<lambda>_.
     rbind (guard (\<not> (st \<in> {''preparing'', ''pending''} \<and> payload \<noteq> None)) ValueError) (\<lambda>_.
     Inr payload))))"

definition check_verification :: "(dict \<Rightarrow> string) \<Rightarrow> string \<Rightarrow> string \<Rightarrow> string \<Rightarrow> dict option \<Rightarrow> dict option \<Rightarrow> dict option result" where
  "check_verification sha event_id event_key st payload v = (case v of None \<Rightarrow> Inr None
     | Some raw \<Rightarrow> rbind (receipt_from_dict raw) (\<lambda>rc.
        case payload of None \<Rightarrow> Inl ValueError | Some f \<Rightarrow>
          rbind (disposition_from_dict f) (\<lambda>env.
          rbind (guard (r_event_id rc = event_id) ValueError) (\<lambda>_.
          rbind (guard (r_event_key rc = event_key) ValueError) (\<lambda>_.
          rbind (guard (r_digest rc = disposition_digest sha env) ValueError) (\<lambda>_.
          rbind (guard (st \<in> decision_states) ValueError) (\<lambda>_.
          rbind (freeze_wire_mapping (receipt_as_dict rc)) (\<lambda>g. Inr (Some g))))))))) "

definition make_evidence :: "(dict \<Rightarrow> string) \<Rightarrow> evidence \<Rightarrow> evidence result" where
  "make_evidence sha x =
     (let i = py_strip (e_event_id x); run = py_strip (e_run_id x); key = py_strip (e_event_key x);
          st = py_lower (py_strip (e_status x)) in
      rbind (guard (i \<noteq> [] \<and> run \<noteq> [] \<and> key \<noteq> []) ValueError) (\<lambda>_.
      rbind (guard (st \<in> active_statuses \<union> terminal_statuses) ValueError) (\<lambda>_.
      rbind (guard (1 \<le> e_revision x) ValueError) (\<lambda>_.
      rbind (guard (0 < e_created x \<and> 0 < e_updated x \<and> e_created x \<le> e_updated x) ValueError) (\<lambda>_.
      rbind (check_disposition i st (e_disposition x)) (\<lambda>payload.
      rbind (check_verification sha i key st payload (e_verification x)) (\<lambda>verification.
      rbind (freeze_wire_mapping (e_identity x)) (\<lambda>ident.
      rbind (freeze_wire_mapping (e_metadata x)) (\<lambda>meta.
      Inr \<lparr>e_event_id = i, e_run_id = run, e_event_key = key, e_status = st, e_disposition = payload,
           e_disposition_key = py_strip (e_disposition_key x), e_verification = verification, e_identity = ident,
           e_metadata = meta, e_revision = e_revision x, e_created = e_created x, e_updated = e_updated x\<rparr>)))))))))"

definition evidence_schema_v1 :: string where
  "evidence_schema_v1 = ''blackbase.evaluation_evidence_record/v1''"

definition evidence_schema_v2 :: string where
  "evidence_schema_v2 = ''blackbase.evaluation_evidence_record/v2''"

definition opt_value :: "dict option \<Rightarrow> pyval" where
  "opt_value d = (case d of None \<Rightarrow> PNone | Some p \<Rightarrow> PMap (thaw_wire_mapping p))"

definition evidence_as_dict :: "evidence \<Rightarrow> dict" where
  "evidence_as_dict x = [(''schema'', PStr evidence_schema_v2), (''event_id'', PStr (e_event_id x)),
     (''run_id'', PStr (e_run_id x)), (''event_snapshot_key'', PStr (e_event_key x)), (''status'', PStr (e_status x)),
     (''disposition'', opt_value (e_disposition x)), (''disposition_snapshot_key'', PStr (e_disposition_key x)),
     (''verification'', opt_value (e_verification x)), (''identity'', PMap (thaw_wire_mapping (e_identity x))),
     (''metadata'', PMap (thaw_wire_mapping (e_metadata x))), (''revision'', PInt (e_revision x)),
     (''created_at'', PNum (e_created x)), (''updated_at'', PNum (e_updated x))]"

definition get_mapping :: "dict \<Rightarrow> string \<Rightarrow> dict option" where
  "get_mapping d k = (case dict_get d k PNone of PMap m \<Rightarrow> Some m | _ \<Rightarrow> None)"

definition evidence_from_dict :: "(dict \<Rightarrow> string) \<Rightarrow> dict \<Rightarrow> evidence result" where
  "evidence_from_dict sha data =
     rbind (guard (get_str_or data ''schema'' \<in> {evidence_schema_v1, evidence_schema_v2}) ValueError) (\<lambda>_.
     rbind (get_dict data ''identity'') (\<lambda>ident.
     rbind (get_dict data ''metadata'') (\<lambda>meta.
     rbind (get_int data ''revision'' 1) (\<lambda>n.
     rbind (get_float data ''created_at'') (\<lambda>t.
     rbind (get_float data ''updated_at'') (\<lambda>u.
     make_evidence sha \<lparr>e_event_id = get_str data ''event_id'', e_run_id = get_str data ''run_id'',
       e_event_key = get_str data ''event_snapshot_key'', e_status = get_str data ''status'',
       e_disposition = get_mapping data ''disposition'', e_disposition_key = get_str_or data ''disposition_snapshot_key'',
       e_verification = get_mapping data ''verification'', e_identity = ident, e_metadata = meta, e_revision = n,
       e_created = t, e_updated = u\<rparr>))))))"

section \<open>Transitions\<close>

definition expected_revision :: "int option \<Rightarrow> evidence \<Rightarrow> unit result" where
  "expected_revision n cur = guard (n = None \<or> n = Some (e_revision cur)) EvaluationEvidenceRevisionConflict"

definition next_evidence :: "(dict \<Rightarrow> string) \<Rightarrow> time \<Rightarrow> evidence \<Rightarrow> string \<Rightarrow> dict option \<Rightarrow> string option \<Rightarrow> dict option
    \<Rightarrow> dict \<Rightarrow> evidence result" where
  "next_evidence sha now cur st d dkey v metadata = make_evidence sha (cur\<lparr>e_status := st,
     e_disposition := (case d of None \<Rightarrow> e_disposition cur | Some p \<Rightarrow> Some p),
     e_disposition_key := (case dkey of None \<Rightarrow> e_disposition_key cur | Some k \<Rightarrow> k),
     e_verification := (case v of None \<Rightarrow> e_verification cur | Some p \<Rightarrow> Some p),
     e_metadata := dict_update (e_metadata cur) metadata, e_revision := e_revision cur + 1, e_updated := now\<rparr>)"

text \<open>
  The record that \<open>reserve\<close> asks for. Both time stamps have \<open>time.time\<close> as their default, read
  one after the other.
\<close>

definition reserve_request :: "(dict \<Rightarrow> string) \<Rightarrow> time \<Rightarrow> time \<Rightarrow> string \<Rightarrow> string \<Rightarrow> string \<Rightarrow> dict \<Rightarrow> dict \<Rightarrow> evidence result" where
  "reserve_request sha t u event_id run_id event_key identity metadata = make_evidence sha
     \<lparr>e_event_id = event_id, e_run_id = run_id, e_event_key = event_key, e_status = ''preparing'', e_disposition = None,
      e_disposition_key = [], e_verification = None, e_identity = identity, e_metadata = metadata, e_revision = 1,
      e_created = t, e_updated = u\<rparr>"

definition reserve_update :: "evidence \<Rightarrow> evidence option \<Rightarrow> evidence result" where
  "reserve_update requested current = (case current of None \<Rightarrow> Inr requested
     | Some cur \<Rightarrow> if e_run_id cur = e_run_id requested \<and> e_event_key cur = e_event_key requested
         \<and> py_eq (PMap (e_identity cur)) (PMap (e_identity requested))
       then Inr cur else Inl EvaluationEvidenceConflict)"

definition durable_update :: "(dict \<Rightarrow> string) \<Rightarrow> time \<Rightarrow> int option \<Rightarrow> evidence option \<Rightarrow> evidence result" where
  "durable_update sha now expected current = (case current of None \<Rightarrow> Inl EvaluationEvidenceConflict
     | Some cur \<Rightarrow> rbind (expected_revision expected cur) (\<lambda>_.
        if e_status cur = ''preparing'' then next_evidence sha now cur ''pending'' None None None []
        else if e_status cur \<in> {''pending'', ''deciding''} \<union> terminal_statuses then Inr cur
        else Inl EvaluationEvidenceConflict))"

text \<open>\<open>dict(current.disposition or {}) == payload\<close>: the stored mapping is frozen, the payload is not.\<close>

definition same_intent :: "evidence \<Rightarrow> disposition \<Rightarrow> bool" where
  "same_intent cur env \<longleftrightarrow>
     py_eq (PMap (case e_disposition cur of None \<Rightarrow> [] | Some d \<Rightarrow> d)) (PMap (disposition_as_dict env))"

definition prepare_update :: "(dict \<Rightarrow> string) \<Rightarrow> time \<Rightarrow> disposition \<Rightarrow> string \<Rightarrow> int option \<Rightarrow> evidence option \<Rightarrow> evidence result" where
  "prepare_update sha now env dkey expected current = (case current of None \<Rightarrow> Inl EvaluationEvidenceConflict
     | Some cur \<Rightarrow> rbind (expected_revision expected cur) (\<lambda>_.
        if d_event_key env \<noteq> e_event_key cur then Inl EvaluationEvidenceConflict
        else if e_status cur = ''pending''
          then next_evidence sha now cur ''deciding'' (Some (disposition_as_dict env)) (Some dkey) None []
        else if e_status cur = ''deciding''
          then (if same_intent cur env \<and> e_disposition_key cur = dkey then Inr cur else Inl EvaluationEvidenceConflict)
        else if e_status cur = d_status env \<and> same_intent cur env then Inr cur
        else Inl EvaluationEvidenceConflict))"

definition settle_update :: "(dict \<Rightarrow> string) \<Rightarrow> time \<Rightarrow> receipt \<Rightarrow> int option \<Rightarrow> evidence option \<Rightarrow> evidence result" where
  "settle_update sha now rc expected current = (case current of None \<Rightarrow> Inl EvaluationEvidenceConflict
     | Some cur \<Rightarrow> rbind (expected_revision expected cur) (\<lambda>_.
        case e_disposition cur of None \<Rightarrow> Inl EvaluationEvidenceConflict
        | Some d \<Rightarrow> rbind (disposition_from_dict d) (\<lambda>env.
            let destination = (if d_status env = ''committed'' then d_authority_key env else e_disposition_key cur)
            in if r_event_id rc \<noteq> e_event_id cur \<or> r_event_key rc \<noteq> e_event_key cur \<or> r_dest_key rc \<noteq> destination
                \<or> r_digest rc \<noteq> disposition_digest sha env then Inl EvaluationEvidenceConflict
            else if e_status cur \<in> decision_states then
              (if e_status cur \<noteq> d_status env then Inl EvaluationEvidenceConflict
               else case e_verification cur of
                 Some v \<Rightarrow> rbind (receipt_from_dict v) (\<lambda>old.
                    if \<not> py_eq (PMap (receipt_as_dict old)) (PMap (receipt_as_dict rc)) then Inl EvaluationEvidenceConflict
                    else Inr cur)
               | None \<Rightarrow> next_evidence sha now cur (e_status cur) None None (Some (receipt_as_dict rc)) [])
            else if e_status cur \<noteq> ''deciding'' then Inl EvaluationEvidenceConflict
            else next_evidence sha now cur (d_status env) None None (Some (receipt_as_dict rc)) [])))"

definition abandon_update :: "(dict \<Rightarrow> string) \<Rightarrow> time \<Rightarrow> string \<Rightarrow> dict \<Rightarrow> int option \<Rightarrow> evidence option \<Rightarrow> evidence result" where
  "abandon_update sha now reason metadata expected current = (case current of None \<Rightarrow> Inl EvaluationEvidenceConflict
     | Some cur \<Rightarrow> rbind (expected_revision expected cur) (\<lambda>_.
        if e_status cur = ''abandoned'' then Inr cur
        else if e_terminal cur then Inl EvaluationEvidenceConflict
        else next_evidence sha now cur ''abandoned'' None None None
               (dict_update [(''abandon_reason'', PStr reason)] metadata)))"

section \<open>The payloads of a record\<close>

text \<open>The frozen form in which a record keeps a disposition and a receipt.\<close>

definition disposition_frozen :: "disposition \<Rightarrow> dict" where
  "disposition_frozen x = [(''schema'', PStr disposition_schema), (''event_id'', PStr (d_event_id x)),
     (''status'', PStr (d_status x)), (''disposition_codec'', PStr (d_codec x)),
     (''disposition_payload'', PMap (d_payload x)), (''event_snapshot_key'', PStr (d_event_key x)),
     (''authority_snapshot_key'', PStr (d_authority_key x)), (''identity'', PMap (d_identity x)),
     (''metadata'', PMap (d_metadata x))]"

definition receipt_frozen :: "receipt \<Rightarrow> dict" where
  "receipt_frozen x = [(''schema'', PStr receipt_schema), (''event_id'', PStr (r_event_id x)),
     (''event_snapshot_key'', PStr (r_event_key x)), (''event_snapshot_revision'', PInt (r_event_revision x)),
     (''event_snapshot_digest'', PStr (r_event_digest x)), (''event_snapshot_schema'', PStr (r_event_schema x)),
     (''destination_snapshot_key'', PStr (r_dest_key x)), (''destination_snapshot_revision'', PInt (r_dest_revision x)),
     (''destination_snapshot_digest'', PStr (r_dest_digest x)), (''destination_snapshot_schema'', PStr (r_dest_schema x)),
     (''disposition_digest'', PStr (r_digest x)), (''verifier'', PStr (r_verifier x)),
     (''verified_at'', PNum (r_verified_at x)), (''metadata'', PMap (r_metadata x))]"

lemma frozen_thaw_map:
  assumes "frozen_dict p"
  shows "wire_safe (PMap (thaw_wire_mapping p)) \<and> frozen (PMap (thaw_wire_mapping p)) = PMap p"
  using freeze_thaw_dict[OF assms] by (auto simp: freeze_wire_mapping_eq split: if_splits)

lemma disposition_freeze:
  "disposition_wf x \<Longrightarrow> freeze_wire_mapping (disposition_as_dict x) = Inr (disposition_frozen x)"
  using disposition_wfD(1-3)[THEN frozen_thaw_map, of x]
  by (simp add: disposition_as_dict_def disposition_frozen_def freeze_wire_mapping_eq)

lemma receipt_freeze: "receipt_wf x \<Longrightarrow> freeze_wire_mapping (receipt_as_dict x) = Inr (receipt_frozen x)"
  using receipt_wfD[THEN frozen_thaw_map, of x]
  by (simp add: receipt_as_dict_def receipt_frozen_def freeze_wire_mapping_eq)

lemma thaw_frozen_forms [simp]:
  "thaw_wire_mapping (disposition_frozen x) = disposition_as_dict x"
  "thaw_wire_mapping (receipt_frozen y) = receipt_as_dict y"
  by (simp_all add: thaw_wire_mapping_def disposition_frozen_def disposition_as_dict_def receipt_frozen_def receipt_as_dict_def)

lemma disposition_from_frozen: "disposition_wf x \<Longrightarrow> disposition_from_dict (disposition_frozen x) = Inr x"
  by (cases x) (simp add: disposition_from_dict_def disposition_frozen_def get_defs disposition_wf_def)

lemma receipt_from_frozen: "receipt_wf x \<Longrightarrow> receipt_from_dict (receipt_frozen x) = Inr x"
  by (cases x) (simp add: receipt_from_dict_def receipt_frozen_def get_defs receipt_wf_def)

lemma disposition_from_dict_wf: "disposition_from_dict d = Inr x \<Longrightarrow> disposition_wf x"
  unfolding disposition_from_dict_def rbind_Inr by (elim exE conjE) (rule make_disposition_wf)

lemma receipt_from_dict_wf: "receipt_from_dict d = Inr x \<Longrightarrow> receipt_wf x"
  unfolding receipt_from_dict_def rbind_Inr by (elim exE conjE) (rule make_receipt_wf)

text \<open>What the two checks accept.\<close>

definition intent_ok :: "string \<Rightarrow> string \<Rightarrow> disposition option \<Rightarrow> bool" where
  "intent_ok event_id st env = (case env of None \<Rightarrow> st \<notin> insert ''deciding'' decision_states
     | Some x \<Rightarrow> disposition_wf x \<and> d_event_id x = event_id \<and> (st \<in> decision_states \<longrightarrow> d_status x = st)
         \<and> st \<notin> {''preparing'', ''pending''})"

definition verdict_ok :: "(dict \<Rightarrow> string) \<Rightarrow> string \<Rightarrow> string \<Rightarrow> string \<Rightarrow> disposition option \<Rightarrow> receipt option \<Rightarrow> bool" where
  "verdict_ok sha event_id event_key st env rc = (case rc of None \<Rightarrow> True
     | Some r \<Rightarrow> receipt_wf r \<and> r_event_id r = event_id \<and> r_event_key r = event_key \<and> st \<in> decision_states
         \<and> (\<exists>x. env = Some x \<and> r_digest r = disposition_digest sha x))"

lemma check_disposition_frozen:
  assumes "intent_ok i st env"
  shows "check_disposition i st (map_option disposition_frozen env) = Inr (map_option disposition_frozen env)"
    and "check_disposition i st (map_option disposition_as_dict env) = Inr (map_option disposition_frozen env)"
  using assms
  by (auto simp: check_disposition_def intent_ok_def disposition_from_frozen disposition_freeze disposition_round_trip
      split: option.splits)

lemma check_dispositionD:
  assumes "check_disposition i st d = Inr p"
  obtains env where "p = map_option disposition_frozen env" "intent_ok i st env"
    "case d of None \<Rightarrow> env = None | Some raw \<Rightarrow> \<exists>x. env = Some x \<and> disposition_from_dict raw = Inr x"
proof (cases d)
  case None
  then show ?thesis using assms that[of None]
    by (auto simp: check_disposition_def intent_ok_def rbind_Inr split: if_splits)
next
  case (Some raw)
  then obtain x where x: "disposition_from_dict raw = Inr x"
    using assms by (auto simp: check_disposition_def rbind_Inr)
  then have w: "disposition_wf x" by (rule disposition_from_dict_wf)
  then have "p = Some (disposition_frozen x) \<and> intent_ok i st (Some x)"
    using assms x by (auto simp: Some check_disposition_def intent_ok_def disposition_freeze disposition_from_frozen rbind_Inr
        split: if_splits)
  then show ?thesis using that[of "Some x"] x by (simp add: Some)
qed

lemma check_verification_frozen:
  assumes "intent_ok i st env" "verdict_ok sha i key st env rc"
  shows "check_verification sha i key st (map_option disposition_frozen env) (map_option receipt_frozen rc)
      = Inr (map_option receipt_frozen rc)"
    and "check_verification sha i key st (map_option disposition_frozen env) (map_option receipt_as_dict rc)
      = Inr (map_option receipt_frozen rc)"
  using assms
  by (auto simp: check_verification_def intent_ok_def verdict_ok_def receipt_from_frozen receipt_freeze receipt_round_trip
      disposition_from_frozen split: option.splits)

lemma check_verificationD:
  assumes "check_verification sha i key st (map_option disposition_frozen env) v = Inr g" "intent_ok i st env"
  obtains rc where "g = map_option receipt_frozen rc" "verdict_ok sha i key st env rc"
    "case v of None \<Rightarrow> rc = None | Some raw \<Rightarrow> \<exists>x. rc = Some x \<and> receipt_from_dict raw = Inr x"
proof (cases v)
  case None
  then show ?thesis using assms(1) that[of None] by (simp add: check_verification_def verdict_ok_def)
next
  case (Some raw)
  then obtain x where x: "receipt_from_dict raw = Inr x"
    using assms(1) by (auto simp: check_verification_def rbind_Inr)
  then have w: "receipt_wf x" by (rule receipt_from_dict_wf)
  then have "g = Some (receipt_frozen x) \<and> verdict_ok sha i key st env (Some x)"
    using assms x by (cases env) (auto simp: Some check_verification_def verdict_ok_def intent_ok_def receipt_freeze
        disposition_from_frozen rbind_Inr)
  then show ?thesis using that[of "Some x"] x by (simp add: Some)
qed

section \<open>Valid records\<close>

text \<open>A valid record: the constructor accepts it and changes nothing.\<close>

definition evidence_wf :: "(dict \<Rightarrow> string) \<Rightarrow> evidence \<Rightarrow> bool" where
  "evidence_wf sha x \<longleftrightarrow> make_evidence sha x = Inr x"

definition plain_ok :: "evidence \<Rightarrow> bool" where
  "plain_ok x \<longleftrightarrow> e_event_id x \<noteq> [] \<and> py_strip (e_event_id x) = e_event_id x \<and> e_run_id x \<noteq> []
     \<and> py_strip (e_run_id x) = e_run_id x \<and> e_event_key x \<noteq> [] \<and> py_strip (e_event_key x) = e_event_key x
     \<and> e_status x \<in> active_statuses \<union> terminal_statuses \<and> py_lower (py_strip (e_status x)) = e_status x
     \<and> 1 \<le> e_revision x \<and> 0 < e_created x \<and> e_created x \<le> e_updated x
     \<and> py_strip (e_disposition_key x) = e_disposition_key x \<and> frozen_dict (e_identity x) \<and> frozen_dict (e_metadata x)"

definition evidence_ok :: "(dict \<Rightarrow> string) \<Rightarrow> evidence \<Rightarrow> disposition option \<Rightarrow> receipt option \<Rightarrow> bool" where
  "evidence_ok sha x env rc \<longleftrightarrow> plain_ok x \<and> e_disposition x = map_option disposition_frozen env
     \<and> e_verification x = map_option receipt_frozen rc \<and> intent_ok (e_event_id x) (e_status x) env
     \<and> verdict_ok sha (e_event_id x) (e_event_key x) (e_status x) env rc"

lemma evidence_okD:
  assumes "evidence_ok sha x env rc"
  shows "e_disposition x = map_option disposition_frozen env" "e_verification x = map_option receipt_frozen rc"
    "intent_ok (e_event_id x) (e_status x) env" "verdict_ok sha (e_event_id x) (e_event_key x) (e_status x) env rc"
    "frozen_dict (e_identity x)" "frozen_dict (e_metadata x)"
  using assms by (simp_all add: evidence_ok_def plain_ok_def)

lemma evidence_ok_wf:
  assumes "evidence_ok sha x env rc"
  shows "evidence_wf sha x"
proof -
  note D = evidence_okD[OF assms] and F = check_disposition_frozen(1)[OF evidence_okD(3)[OF assms]]
    and G = check_verification_frozen(1)[OF evidence_okD(3,4)[OF assms]]
  show ?thesis
    using assms unfolding evidence_wf_def make_evidence_def Let_def
    by (cases x) (use D F G in \<open>simp add: evidence_ok_def plain_ok_def\<close>)
qed

lemma evidence_ok_thaw:
  assumes "evidence_ok sha x env rc"
  shows "make_evidence sha (x\<lparr>e_disposition := map_option disposition_as_dict env,
      e_verification := map_option receipt_as_dict rc, e_identity := thaw_wire_mapping (e_identity x),
      e_metadata := thaw_wire_mapping (e_metadata x)\<rparr>) = Inr x"
proof -
  note D = evidence_okD[OF assms] and F = check_disposition_frozen(2)[OF evidence_okD(3)[OF assms]]
    and G = check_verification_frozen(2)[OF evidence_okD(3,4)[OF assms]]
  show ?thesis
    using assms unfolding make_evidence_def Let_def
    by (cases x) (use D F G in \<open>simp add: evidence_ok_def plain_ok_def\<close>)
qed

lemma make_evidenceD:
  assumes "make_evidence sha x = Inr y"
  obtains env rc where "evidence_ok sha y env rc"
    "case e_disposition x of None \<Rightarrow> env = None | Some raw \<Rightarrow> \<exists>d. env = Some d \<and> disposition_from_dict raw = Inr d"
    "case e_verification x of None \<Rightarrow> rc = None | Some raw \<Rightarrow> \<exists>r. rc = Some r \<and> receipt_from_dict raw = Inr r"
    "e_event_id y = py_strip (e_event_id x)" "e_run_id y = py_strip (e_run_id x)" "e_event_key y = py_strip (e_event_key x)"
    "e_status y = py_lower (py_strip (e_status x))" "e_revision y = e_revision x" "e_created y = e_created x"
    "e_updated y = e_updated x" "freeze_wire_mapping (e_identity x) = Inr (e_identity y)"
    "e_disposition_key y = py_strip (e_disposition_key x)" "freeze_wire_mapping (e_metadata x) = Inr (e_metadata y)"
proof -
  let ?i = "py_strip (e_event_id x)" and ?k = "py_strip (e_event_key x)" and ?st = "py_lower (py_strip (e_status x))"
  obtain p g ident meta where
    c: "?i \<noteq> []" "py_strip (e_run_id x) \<noteq> []" "?k \<noteq> []" "?st \<in> active_statuses \<union> terminal_statuses"
      "1 \<le> e_revision x" "0 < e_created x" "e_created x \<le> e_updated x"
    and p: "check_disposition ?i ?st (e_disposition x) = Inr p"
    and g: "check_verification sha ?i ?k ?st p (e_verification x) = Inr g"
    and f: "freeze_wire_mapping (e_identity x) = Inr ident" "freeze_wire_mapping (e_metadata x) = Inr meta"
    and y: "\<lparr>e_event_id = ?i, e_run_id = py_strip (e_run_id x), e_event_key = ?k, e_status = ?st, e_disposition = p,
      e_disposition_key = py_strip (e_disposition_key x), e_verification = g, e_identity = ident,
      e_metadata = meta, e_revision = e_revision x, e_created = e_created x, e_updated = e_updated x\<rparr> = y"
    using assms unfolding make_evidence_def Let_def rbind_Inr guard_Inr sum.inject
    by (elim exE conjE) (rule that, assumption+)
  obtain env where env: "p = map_option disposition_frozen env" "intent_ok ?i ?st env"
    "case e_disposition x of None \<Rightarrow> env = None | Some raw \<Rightarrow> \<exists>d. env = Some d \<and> disposition_from_dict raw = Inr d"
    using p by (rule check_dispositionD)
  obtain rc where rc: "g = map_option receipt_frozen rc" "verdict_ok sha ?i ?k ?st env rc"
    "case e_verification x of None \<Rightarrow> rc = None | Some raw \<Rightarrow> \<exists>r. rc = Some r \<and> receipt_from_dict raw = Inr r"
    using g[unfolded env(1)] env(2) by (rule check_verificationD)
  show thesis
  proof (rule that)
    show "evidence_ok sha y env rc"
      using c env rc f[THEN freeze_wire_mapping_frozen] unfolding evidence_ok_def plain_ok_def y[symmetric] by simp
  qed (use env rc f in \<open>simp_all add: y[symmetric]\<close>)
qed

lemma evidence_wfE:
  assumes "evidence_wf sha x"
  obtains env rc where "evidence_ok sha x env rc"
  using assms make_evidenceD unfolding evidence_wf_def by blast

lemma make_evidence_wf: "make_evidence sha x = Inr y \<Longrightarrow> evidence_wf sha y"
  by (erule make_evidenceD) (rule evidence_ok_wf)

lemma evidence_schema_nonempty [simp]: "evidence_schema_v2 \<noteq> []"
  by (simp add: evidence_schema_v2_def)

lemma opt_value_simps [simp]: "opt_value None = PNone" "opt_value (Some d) = PMap (thaw_wire_mapping d)"
  by (simp_all add: opt_value_def)

lemma evidence_round_trip_ok:
  assumes "evidence_ok sha x env rc"
  shows "evidence_from_dict sha (evidence_as_dict x) = Inr x"
proof -
  have D: "get_mapping (evidence_as_dict x) ''disposition'' = map_option disposition_as_dict env"
    "get_mapping (evidence_as_dict x) ''verification'' = map_option receipt_as_dict rc"
    using evidence_okD(1,2)[OF assms] by (cases env; cases rc; simp add: get_mapping_def dict_get_def evidence_as_dict_def)+
  have x: "\<lparr>e_event_id = e_event_id x, e_run_id = e_run_id x, e_event_key = e_event_key x, e_status = e_status x,
      e_disposition = map_option disposition_as_dict env, e_disposition_key = e_disposition_key x,
      e_verification = map_option receipt_as_dict rc, e_identity = thaw_wire_mapping (e_identity x),
      e_metadata = thaw_wire_mapping (e_metadata x), e_revision = e_revision x, e_created = e_created x,
      e_updated = e_updated x\<rparr> = x\<lparr>e_disposition := map_option disposition_as_dict env,
      e_verification := map_option receipt_as_dict rc, e_identity := thaw_wire_mapping (e_identity x),
      e_metadata := thaw_wire_mapping (e_metadata x)\<rparr>" by simp
  have n: "e_revision x \<noteq> 0" "e_created x \<noteq> 0" "e_updated x \<noteq> 0"
    using assms by (auto simp: evidence_ok_def plain_ok_def)
  show ?thesis
    unfolding evidence_from_dict_def D
    by (simp add: get_defs evidence_as_dict_def n x evidence_ok_thaw[OF assms])
qed

lemma evidence_round_trip: "evidence_wf sha x \<Longrightarrow> evidence_from_dict sha (evidence_as_dict x) = Inr x"
  by (erule evidence_wfE) (rule evidence_round_trip_ok)

end
