(* ===== verification/Evaluation_Journal.thy ===== *)
theory Evaluation_Journal
  imports Evaluation_Evidence "HOL-Library.List_Lexorder" "HOL-Library.Char_ord"
begin

text \<open>
  \<open>EvaluationEvidenceJournal\<close> of \<open>evaluation/journal.py\<close> and its three backends. The methods of
  the abstract class take the backend's \<open>_atomic_update\<close> as an argument; an updater gets the
  clock reading it would make. The locale \<open>evidence_store\<close> is what they rely on.

  A record is kept in memory as itself, in SQLite and in Redis as its dictionary. The name of a
  Redis key contains a SHA-256 digest of the event id, taken to be injective: here the event id
  is the key. The JSON text of a payload is identified with its value.
\<close>

type_synonym updater = "time \<Rightarrow> evidence option \<Rightarrow> evidence result"
type_synonym 's atomic = "string \<Rightarrow> updater \<Rightarrow> 's \<Rightarrow> evidence result \<times> 's"

section \<open>The methods\<close>

definition journal_reserve :: "(dict \<Rightarrow> string) \<Rightarrow> 's atomic \<Rightarrow> time \<Rightarrow> time \<Rightarrow> string \<Rightarrow> string \<Rightarrow> string \<Rightarrow> dict \<Rightarrow> dict \<Rightarrow> 's
    \<Rightarrow> evidence result \<times> 's" where
  "journal_reserve sha atomic t u event_id run_id event_key identity metadata s =
     (case reserve_request sha t u event_id run_id event_key identity metadata of
       Inl e \<Rightarrow> (Inl e, s)
     | Inr requested \<Rightarrow> atomic (e_event_id requested) (\<lambda>now. reserve_update requested) s)"

definition mark_event_durable :: "(dict \<Rightarrow> string) \<Rightarrow> 's atomic \<Rightarrow> string \<Rightarrow> int option \<Rightarrow> 's \<Rightarrow> evidence result \<times> 's" where
  "mark_event_durable sha atomic event_id expected s =
     atomic event_id (\<lambda>now. durable_update sha now expected) s"

definition prepare_disposition :: "(dict \<Rightarrow> string) \<Rightarrow> 's atomic \<Rightarrow> disposition \<Rightarrow> string \<Rightarrow> int option \<Rightarrow> 's
    \<Rightarrow> evidence result \<times> 's" where
  "prepare_disposition sha atomic env dkey expected s =
     atomic (d_event_id env) (\<lambda>now. prepare_update sha now env dkey expected) s"

definition journal_settle :: "(dict \<Rightarrow> string) \<Rightarrow> 's atomic \<Rightarrow> string \<Rightarrow> receipt \<Rightarrow> int option \<Rightarrow> 's \<Rightarrow> evidence result \<times> 's" where
  "journal_settle sha atomic event_id rc expected s =
     atomic event_id (\<lambda>now. settle_update sha now rc expected) s"

definition journal_abandon :: "(dict \<Rightarrow> string) \<Rightarrow> 's atomic \<Rightarrow> string \<Rightarrow> string \<Rightarrow> dict \<Rightarrow> int option \<Rightarrow> 's
    \<Rightarrow> evidence result \<times> 's" where
  "journal_abandon sha atomic event_id reason metadata expected s =
     (if py_strip reason = [] then (Inl ValueError, s)
      else atomic event_id (\<lambda>now. abandon_update sha now (py_strip reason) metadata expected) s)"

section \<open>Listing\<close>

text \<open>\<open>records.sort(key=lambda item: (item.created_at, item.event_id))\<close>, and the slice.\<close>

definition sort_records :: "evidence list \<Rightarrow> evidence list" where
  "sort_records xs = sort_key e_created (sort_key e_event_id xs)"

definition take_limit :: "int option \<Rightarrow> 'a list \<Rightarrow> 'a list" where
  "take_limit limit xs = (case limit of None \<Rightarrow> xs | Some n \<Rightarrow> take (nat (max 0 n)) xs)"

fun decode_all :: "(dict \<Rightarrow> string) \<Rightarrow> dict list \<Rightarrow> evidence list result" where
  "decode_all sha [] = Inr []"
| "decode_all sha (d # ds) =
     rbind (evidence_from_dict sha d) (\<lambda>x. rbind (decode_all sha ds) (\<lambda>xs. Inr (x # xs)))"

type_synonym 's listing = "string option \<Rightarrow> string list option \<Rightarrow> int option \<Rightarrow> 's \<Rightarrow> evidence list result"

definition list_unresolved :: "'s listing \<Rightarrow> string option \<Rightarrow> int option \<Rightarrow> 's \<Rightarrow> evidence list result" where
  "list_unresolved list_records run_id limit s =
     rbind (list_records run_id (Some [''deciding'', ''pending'', ''preparing'']) limit s) (\<lambda>active.
     let remaining = map_option (\<lambda>n. max 0 (n - int (length active))) limit
     in if remaining = Some 0 then Inr active
        else rbind (list_records run_id (Some [''committed'', ''rejected'', ''failed'']) remaining s) (\<lambda>terminal.
          Inr (take_limit limit (sort_key e_created (active @ filter (\<lambda>x. \<not> e_terminal_verified x) terminal)))))"

section \<open>In memory\<close>

type_synonym mem_journal = "(string \<times> evidence) list"

definition mj_detach :: "(dict \<Rightarrow> string) \<Rightarrow> evidence \<Rightarrow> evidence result" where
  "mj_detach sha x = evidence_from_dict sha (evidence_as_dict x)"

definition mj_atomic :: "(dict \<Rightarrow> string) \<Rightarrow> time \<Rightarrow> mem_journal atomic" where
  "mj_atomic sha now event_id u s = (case u now (map_of s event_id) of
       Inl e \<Rightarrow> (Inl e, s)
     | Inr updated \<Rightarrow> (case mj_detach sha updated of
         Inl e \<Rightarrow> (Inl e, s)
       | Inr kept \<Rightarrow> (mj_detach sha updated, AList.update (e_event_id updated) kept s)))"

definition mj_get :: "(dict \<Rightarrow> string) \<Rightarrow> string \<Rightarrow> mem_journal \<Rightarrow> evidence option result" where
  "mj_get sha event_id s = (case map_of s event_id of None \<Rightarrow> Inr None | Some x \<Rightarrow> rbind (mj_detach sha x) (\<lambda>y. Inr (Some y)))"

definition selects :: "string option \<Rightarrow> string list option \<Rightarrow> string \<Rightarrow> string \<Rightarrow> bool" where
  "selects run_id statuses run st \<longleftrightarrow> (run_id = None \<or> run_id = Some run)
     \<and> (case statuses of None \<Rightarrow> True | Some sts \<Rightarrow> st \<in> py_lower ` set sts)"

definition mj_list :: "(dict \<Rightarrow> string) \<Rightarrow> mem_journal listing" where
  "mj_list sha run_id statuses limit s =
     rbind (decode_all sha (map evidence_as_dict (filter (\<lambda>x. selects run_id statuses (e_run_id x) (e_status x)) (map snd s))))
       (\<lambda>xs. Inr (take_limit limit (sort_records xs)))"

section \<open>SQLite\<close>

record evidence_row =
  er_namespace :: string
  er_event_id :: string
  er_run_id :: string
  er_status :: string
  er_revision :: int
  er_created :: time
  er_payload :: dict

type_synonym evidence_db = "evidence_row list"

definition sj_select :: "string \<Rightarrow> string \<Rightarrow> evidence_db \<Rightarrow> evidence_row option" where
  "sj_select ns event_id db = find (\<lambda>r. er_namespace r = ns \<and> er_event_id r = event_id) db"

definition evidence_row_of :: "string \<Rightarrow> evidence \<Rightarrow> evidence_row" where
  "evidence_row_of ns x = \<lparr>er_namespace = ns, er_event_id = e_event_id x, er_run_id = e_run_id x, er_status = e_status x,
     er_revision = e_revision x, er_created = e_created x, er_payload = evidence_as_dict x\<rparr>"

text \<open>\<open>INSERT ... ON CONFLICT(namespace, event_id) DO UPDATE\<close>.\<close>

definition sj_upsert :: "evidence_row \<Rightarrow> evidence_db \<Rightarrow> evidence_db" where
  "sj_upsert r db = (if list_ex (\<lambda>o'. er_namespace o' = er_namespace r \<and> er_event_id o' = er_event_id r) db
     then map (\<lambda>o'. if er_namespace o' = er_namespace r \<and> er_event_id o' = er_event_id r then r else o') db
     else db @ [r])"

definition sj_get :: "(dict \<Rightarrow> string) \<Rightarrow> string \<Rightarrow> string \<Rightarrow> evidence_db \<Rightarrow> evidence option result" where
  "sj_get sha ns event_id db = (case sj_select ns event_id db of None \<Rightarrow> Inr None
     | Some r \<Rightarrow> rbind (evidence_from_dict sha (er_payload r)) (\<lambda>x. Inr (Some x)))"

text \<open>One transaction; an exception rolls it back. The result is decoded after the commit.\<close>

definition sj_atomic :: "(dict \<Rightarrow> string) \<Rightarrow> string \<Rightarrow> time \<Rightarrow> evidence_db atomic" where
  "sj_atomic sha ns now event_id u db = (case rbind (sj_get sha ns event_id db) (u now) of
       Inl e \<Rightarrow> (Inl e, db)
     | Inr updated \<Rightarrow> (evidence_from_dict sha (evidence_as_dict updated), sj_upsert (evidence_row_of ns updated) db))"

definition sj_list :: "(dict \<Rightarrow> string) \<Rightarrow> string \<Rightarrow> evidence_db listing" where
  "sj_list sha ns run_id statuses limit db =
     (if statuses = Some [] then Inr []
      else decode_all sha (map er_payload (take_limit limit (sort_key er_created (sort_key er_event_id
        (filter (\<lambda>r. er_namespace r = ns \<and> selects run_id statuses (er_run_id r) (er_status r)) db))))))"

section \<open>Redis\<close>

type_synonym redis_journal = "(string \<times> dict) list"

definition rj_get :: "(dict \<Rightarrow> string) \<Rightarrow> string \<Rightarrow> redis_journal \<Rightarrow> evidence option result" where
  "rj_get sha event_id s = (case map_of s event_id of None \<Rightarrow> Inr None
     | Some d \<Rightarrow> rbind (evidence_from_dict sha d) (\<lambda>x. Inr (Some x)))"

text \<open>
  The WATCH loop. An attempt has a clock reading and what other clients do to the server between
  its GET and its EXEC, with a flag for a write to the watched key; then EXEC fails and the next
  attempt starts. Out of attempts, the caller gets \<open>EvaluationEvidenceRevisionConflict\<close>.
\<close>

type_synonym attempt = "time \<times> bool \<times> (redis_journal \<Rightarrow> redis_journal)"

fun rj_attempts :: "(dict \<Rightarrow> string) \<Rightarrow> attempt list \<Rightarrow> redis_journal atomic" where
  "rj_attempts sha [] event_id u s = (Inl EvaluationEvidenceRevisionConflict, s)"
| "rj_attempts sha ((now, touched, others) # rest) event_id u s =
     (case rbind (rj_get sha event_id s) (u now) of
       Inl e \<Rightarrow> (Inl e, others s)
     | Inr updated \<Rightarrow> if touched \<or> map_of (others s) event_id \<noteq> map_of s event_id
         then rj_attempts sha rest event_id u (others s)
         else (evidence_from_dict sha (evidence_as_dict updated),
               AList.update event_id (evidence_as_dict updated) (others s)))"

definition max_watch_retries :: "int \<Rightarrow> nat" where
  "max_watch_retries n = nat (max 1 n)"

text \<open>\<open>_atomic_update\<close> on its own: no other client writes.\<close>

definition rj_atomic :: "(dict \<Rightarrow> string) \<Rightarrow> int \<Rightarrow> time \<Rightarrow> redis_journal atomic" where
  "rj_atomic sha retries now = rj_attempts sha (replicate (max_watch_retries retries) (now, False, \<lambda>s. s))"

definition rj_list :: "(dict \<Rightarrow> string) \<Rightarrow> redis_journal listing" where
  "rj_list sha run_id statuses limit s = rbind (decode_all sha (map snd s))
     (\<lambda>xs. Inr (take_limit limit (sort_records (filter (\<lambda>x. selects run_id statuses (e_run_id x) (e_status x)) xs))))"

section \<open>The interface of a backend\<close>

text \<open>
  What the methods rely on: a record under its event id, an update that is applied to it in one
  step, and nothing else changed. \<open>spec_atomic\<close> is the update of a map of records.
\<close>

definition spec_atomic :: "time \<Rightarrow> (string \<Rightarrow> evidence option) atomic" where
  "spec_atomic now i u m = (case u now (m i) of Inl e \<Rightarrow> (Inl e, m) | Inr x \<Rightarrow> (Inr x, m(i \<mapsto> x)))"

definition records_ok :: "(dict \<Rightarrow> string) \<Rightarrow> (string \<Rightarrow> evidence option) \<Rightarrow> bool" where
  "records_ok sha m \<longleftrightarrow> (\<forall>i x. m i = Some x \<longrightarrow> evidence_wf sha x \<and> e_event_id x = i)"

text \<open>An updater that stays with valid records of its event.\<close>

definition sound_updater :: "(dict \<Rightarrow> string) \<Rightarrow> string \<Rightarrow> updater \<Rightarrow> bool" where
  "sound_updater sha i u \<longleftrightarrow> (\<forall>now cur x. (\<forall>c. cur = Some c \<longrightarrow> evidence_wf sha c \<and> e_event_id c = i)
     \<longrightarrow> u now cur = Inr x \<longrightarrow> evidence_wf sha x \<and> e_event_id x = i)"

text \<open>A call of a method; the second clock reading is the one of \<open>reserve\<close>.\<close>

datatype journal_op =
    Reserve time string string string dict dict
  | Durable string "int option"
  | Prepare disposition string "int option"
  | Settle string receipt "int option"
  | Abandon string string dict "int option"

fun journal_call :: "(dict \<Rightarrow> string) \<Rightarrow> (time \<Rightarrow> 's atomic) \<Rightarrow> time \<Rightarrow> journal_op \<Rightarrow> 's \<Rightarrow> evidence result \<times> 's" where
  "journal_call sha atomic now (Reserve t i run key identity metadata) s =
     journal_reserve sha (atomic now) t now i run key identity metadata s"
| "journal_call sha atomic now (Durable i expected) s = mark_event_durable sha (atomic now) i expected s"
| "journal_call sha atomic now (Prepare env dkey expected) s = prepare_disposition sha (atomic now) env dkey expected s"
| "journal_call sha atomic now (Settle i rc expected) s = journal_settle sha (atomic now) i rc expected s"
| "journal_call sha atomic now (Abandon i reason metadata expected) s =
     journal_abandon sha (atomic now) i reason metadata expected s"

text \<open>Dispositions and receipts come from their constructors.\<close>

fun op_ok :: "journal_op \<Rightarrow> bool" where
  "op_ok (Prepare env dkey expected) \<longleftrightarrow> disposition_wf env"
| "op_ok (Settle i rc expected) \<longleftrightarrow> receipt_wf rc"
| "op_ok _ \<longleftrightarrow> True"

fun journal_run :: "(dict \<Rightarrow> string) \<Rightarrow> (time \<Rightarrow> 's atomic) \<Rightarrow> (time \<times> journal_op) list \<Rightarrow> 's \<Rightarrow> 's" where
  "journal_run sha atomic [] s = s"
| "journal_run sha atomic ((now, op) # ops) s = journal_run sha atomic ops (snd (journal_call sha atomic now op s))"

lemma next_evidence_wf: "next_evidence sha now cur st d dk v m = Inr x \<Longrightarrow> evidence_wf sha x"
  unfolding next_evidence_def by (rule make_evidence_wf)

lemma evidence_wf_plain: "evidence_wf sha x \<Longrightarrow> plain_ok x"
  by (erule evidence_wfE) (simp add: evidence_ok_def)

lemma next_evidence_id: "evidence_wf sha cur \<Longrightarrow> next_evidence sha now cur st d dk v m = Inr x \<Longrightarrow> e_event_id x = e_event_id cur"
  using evidence_wf_plain[of sha cur] unfolding next_evidence_def plain_ok_def by (auto elim!: make_evidenceD)

named_theorems updates \<open>the transitions of a record, unfolded\<close>

lemmas [updates] = durable_update_def prepare_update_def settle_update_def abandon_update_def expected_revision_def Let_def

lemma sound_updaters:
  "sound_updater sha i (\<lambda>now. durable_update sha now n)"
  "sound_updater sha i (\<lambda>now. prepare_update sha now env dkey n)"
  "sound_updater sha i (\<lambda>now. settle_update sha now rc n)"
  "sound_updater sha i (\<lambda>now. abandon_update sha now reason metadata n)"
  unfolding sound_updater_def updates rbind_Inr
  by (auto split: option.splits if_splits simp: rbind_Inr intro: next_evidence_wf dest: next_evidence_id)

lemma reserve_updater:
  "evidence_wf sha r \<Longrightarrow> sound_updater sha (e_event_id r) (\<lambda>now. reserve_update r)"
  by (auto simp: sound_updater_def reserve_update_def split: option.splits if_splits)

locale evidence_store =
  fixes sha :: "dict \<Rightarrow> string" and good :: "'s \<Rightarrow> bool" and look :: "'s \<Rightarrow> string \<Rightarrow> evidence option"
    and atomic :: "time \<Rightarrow> 's atomic"
  assumes look_ok: "good s \<Longrightarrow> records_ok sha (look s)"
    and atomic_error: "good s \<Longrightarrow> u now (look s i) = Inl e \<Longrightarrow> atomic now i u s = (Inl e, s)"
    and atomic_update: "good s \<Longrightarrow> u now (look s i) = Inr x \<Longrightarrow> evidence_wf sha x \<Longrightarrow> e_event_id x = i
      \<Longrightarrow> fst (atomic now i u s) = Inr x \<and> good (snd (atomic now i u s)) \<and> look (snd (atomic now i u s)) = (look s)(i \<mapsto> x)"
begin

lemma atomic_refines:
  assumes "good s" "sound_updater sha i u"
  shows "map_prod id look (atomic now i u s) = spec_atomic now i u (look s) \<and> good (snd (atomic now i u s))"
proof (cases "u now (look s i)")
  case (Inl e)
  then show ?thesis using atomic_error[of s u now i e] Inl assms(1) by (simp add: spec_atomic_def)
next
  case (Inr x)
  have "evidence_wf sha x \<and> e_event_id x = i"
    using assms(2) Inr look_ok[OF assms(1)] unfolding sound_updater_def records_ok_def by blast
  then show ?thesis using atomic_update[of s u now i x] assms(1) Inr by (simp add: spec_atomic_def prod_eq_iff)
qed

lemma call_refines:
  assumes "good s"
  shows "map_prod id look (journal_call sha atomic now op s) = journal_call sha spec_atomic now op (look s)
    \<and> good (snd (journal_call sha atomic now op s))"
proof (cases op)
  case (Reserve t i run key identity metadata)
  show ?thesis
  proof (cases "reserve_request sha t now i run key identity metadata")
    case (Inr r)
    then have "evidence_wf sha r" unfolding reserve_request_def by (rule make_evidence_wf)
    then show ?thesis using atomic_refines[OF assms reserve_updater, of r] Inr
      by (simp add: Reserve journal_reserve_def)
  qed (use assms in \<open>simp add: Reserve journal_reserve_def\<close>)
next
  case (Abandon i reason metadata expected)
  then show ?thesis using atomic_refines[OF assms sound_updaters(4)] assms by (simp add: journal_abandon_def)
qed (use atomic_refines[OF assms] sound_updaters in
    \<open>simp_all add: mark_event_durable_def prepare_disposition_def journal_settle_def\<close>)

lemma run_refines:
  assumes "good s"
  shows "look (journal_run sha atomic ops s) = journal_run sha spec_atomic ops (look s) \<and> good (journal_run sha atomic ops s)"
  using assms
proof (induction ops arbitrary: s)
  case (Cons step ops)
  obtain now op where step: "step = (now, op)" by force
  note R = call_refines[OF Cons.prems, of now op]
  have "look (snd (journal_call sha atomic now op s)) = snd (journal_call sha spec_atomic now op (look s))"
    by (metis R snd_map_prod)
  then show ?case using Cons.IH[of "snd (journal_call sha atomic now op s)"] R by (simp add: step)
qed simp

end

section \<open>The backends provide it\<close>

definition mj_good :: "(dict \<Rightarrow> string) \<Rightarrow> mem_journal \<Rightarrow> bool" where
  "mj_good sha s \<longleftrightarrow> records_ok sha (map_of s)"

interpretation mj: evidence_store sha "mj_good sha" map_of "mj_atomic sha" for sha
proof
  fix s i x and u :: updater and now :: time
  assume "mj_good sha s" "u now (map_of s i) = Inr x" "evidence_wf sha x" "e_event_id x = i"
  then show "fst (mj_atomic sha now i u s) = Inr x \<and> mj_good sha (snd (mj_atomic sha now i u s))
      \<and> map_of (snd (mj_atomic sha now i u s)) = (map_of s)(i \<mapsto> x)"
    by (simp add: mj_atomic_def mj_detach_def evidence_round_trip mj_good_def records_ok_def update_conv')
qed (simp_all add: mj_good_def mj_atomic_def)

text \<open>The rows of a namespace hold the records under their primary key, with matching columns.\<close>

definition sj_look :: "(dict \<Rightarrow> string) \<Rightarrow> string \<Rightarrow> evidence_db \<Rightarrow> string \<Rightarrow> evidence option" where
  "sj_look sha ns db i = (case sj_get sha ns i db of Inr x \<Rightarrow> x | Inl e \<Rightarrow> None)"

definition sj_good :: "(dict \<Rightarrow> string) \<Rightarrow> string \<Rightarrow> evidence_db \<Rightarrow> bool" where
  "sj_good sha ns db \<longleftrightarrow> (\<forall>r\<in>set db. er_namespace r = ns \<longrightarrow> (\<exists>x. evidence_wf sha x \<and> r = evidence_row_of ns x))"

lemma sj_select_row:
  assumes "sj_good sha ns db" "sj_select ns i db = Some r"
  obtains x where "evidence_wf sha x" "r = evidence_row_of ns x" "e_event_id x = i"
proof -
  have r: "r \<in> set db" "er_namespace r = ns" "er_event_id r = i"
    using assms(2) by (auto simp: sj_select_def find_Some_iff)
  then obtain x where x: "evidence_wf sha x" "r = evidence_row_of ns x" using assms(1) unfolding sj_good_def by blast
  then have "e_event_id x = i" using r(3) by (simp add: evidence_row_of_def)
  with x show thesis by (rule that)
qed

lemma sj_get_row:
  assumes "sj_good sha ns db" "sj_select ns i db = Some r"
  obtains x where "evidence_wf sha x" "r = evidence_row_of ns x" "e_event_id x = i"
    "sj_get sha ns i db = Inr (Some x)" "sj_look sha ns db i = Some x"
proof -
  obtain x where x: "evidence_wf sha x" "r = evidence_row_of ns x" "e_event_id x = i"
    using assms by (rule sj_select_row)
  moreover have "er_payload r = evidence_as_dict x" using x(2) by (simp add: evidence_row_of_def)
  then have "sj_get sha ns i db = Inr (Some x)" using evidence_round_trip[OF x(1)] by (simp add: sj_get_def assms(2))
  ultimately show thesis by (intro that[of x]) (simp_all add: sj_look_def)
qed

lemma sj_get_None: "sj_select ns i db = None \<Longrightarrow> sj_get sha ns i db = Inr None \<and> sj_look sha ns db i = None"
  by (simp add: sj_look_def sj_get_def)

lemma sj_get_ok: "sj_good sha ns db \<Longrightarrow> sj_get sha ns i db = Inr (sj_look sha ns db i)"
  by (cases "sj_select ns i db") (auto simp: sj_get_None elim: sj_get_row)

lemma sj_records_ok: "sj_good sha ns db \<Longrightarrow> records_ok sha (sj_look sha ns db)"
  unfolding records_ok_def by (metis option.distinct(1) option.exhaust option.inject sj_get_None sj_get_row)

lemma sj_select_upsert:
  "sj_select (er_namespace r) j (sj_upsert r db) =
    (if j = er_event_id r then Some r else sj_select (er_namespace r) j db)"
proof -
  have "find (\<lambda>o'. er_namespace o' = er_namespace r \<and> er_event_id o' = j)
      (map (\<lambda>o'. if er_namespace o' = er_namespace r \<and> er_event_id o' = er_event_id r then r else o') db) =
    (if j = er_event_id r then (if list_ex (\<lambda>o'. er_namespace o' = er_namespace r \<and> er_event_id o' = j) db then Some r else None)
     else find (\<lambda>o'. er_namespace o' = er_namespace r \<and> er_event_id o' = j) db)"
    by (induction db) auto
  moreover have "find P (db @ [r]) = (case find P db of None \<Rightarrow> if P r then Some r else None | Some y \<Rightarrow> Some y)" for P
    by (induction db) auto
  moreover have "\<not> list_ex P db \<Longrightarrow> find P db = None" for P by (induction db) auto
  ultimately show ?thesis by (auto simp: sj_select_def sj_upsert_def split: option.splits)
qed

lemma sj_good_upsert: "sj_good sha ns db \<Longrightarrow> evidence_wf sha x \<Longrightarrow> sj_good sha ns (sj_upsert (evidence_row_of ns x) db)"
  by (auto simp: sj_good_def sj_upsert_def)

interpretation sj: evidence_store sha "sj_good sha ns" "sj_look sha ns" "sj_atomic sha ns" for sha ns
proof
  fix s
  assume "sj_good sha ns s"
  then show "records_ok sha (sj_look sha ns s)" by (rule sj_records_ok)
next
  fix s i e and u :: updater and now :: time
  assume "sj_good sha ns s" "u now (sj_look sha ns s i) = Inl e"
  then show "sj_atomic sha ns now i u s = (Inl e, s)" by (simp add: sj_atomic_def sj_get_ok)
next
  fix s i x and u :: updater and now :: time
  assume a: "sj_good sha ns s" "u now (sj_look sha ns s i) = Inr x" "evidence_wf sha x" "e_event_id x = i"
  let ?s = "sj_upsert (evidence_row_of ns x) s"
  have g: "sj_good sha ns ?s" using a(1,3) by (rule sj_good_upsert)
  have "sj_look sha ns ?s j = ((sj_look sha ns s)(i \<mapsto> x)) j" for j
    using sj_select_upsert[of "evidence_row_of ns x" j s] a(3,4) sj_get_ok[OF g, of j]
    by (auto simp: sj_look_def sj_get_def evidence_row_of_def evidence_round_trip)
  then show "fst (sj_atomic sha ns now i u s) = Inr x \<and> sj_good sha ns (snd (sj_atomic sha ns now i u s))
      \<and> sj_look sha ns (snd (sj_atomic sha ns now i u s)) = (sj_look sha ns s)(i \<mapsto> x)"
    using a g by (auto simp: sj_atomic_def sj_get_ok evidence_round_trip)
qed

definition rj_look :: "(dict \<Rightarrow> string) \<Rightarrow> redis_journal \<Rightarrow> string \<Rightarrow> evidence option" where
  "rj_look sha s i = (case rj_get sha i s of Inr x \<Rightarrow> x | Inl e \<Rightarrow> None)"

definition rj_good :: "(dict \<Rightarrow> string) \<Rightarrow> redis_journal \<Rightarrow> bool" where
  "rj_good sha s \<longleftrightarrow> (\<forall>i d. map_of s i = Some d \<longrightarrow> (\<exists>x. evidence_wf sha x \<and> e_event_id x = i \<and> d = evidence_as_dict x))"

lemma rj_get_ok:
  assumes "rj_good sha s"
  shows "rj_get sha i s = Inr (rj_look sha s i)"
proof (cases "map_of s i")
  case (Some d)
  then obtain x where "evidence_wf sha x" "d = evidence_as_dict x" using assms unfolding rj_good_def by blast
  then show ?thesis using Some by (simp add: rj_look_def rj_get_def evidence_round_trip)
qed (simp add: rj_look_def rj_get_def)

lemma rj_records_ok: "rj_good sha s \<Longrightarrow> records_ok sha (rj_look sha s)"
  unfolding records_ok_def
proof (intro allI impI)
  fix i x
  assume g: "rj_good sha s" and x: "rj_look sha s i = Some x"
  then obtain d where d: "map_of s i = Some d" by (cases "map_of s i") (auto simp: rj_look_def rj_get_def)
  with g obtain y where y: "evidence_wf sha y" "e_event_id y = i" "d = evidence_as_dict y" unfolding rj_good_def by blast
  then have "x = y" using x d evidence_round_trip[OF y(1)] by (simp add: rj_look_def rj_get_def)
  then show "evidence_wf sha x \<and> e_event_id x = i" using y by simp
qed

lemma rj_attempts_one:
  "rj_attempts sha (replicate (max_watch_retries n) (now, False, \<lambda>s. s)) = rj_attempts sha [(now, False, \<lambda>s. s)]"
proof -
  have "max_watch_retries n = Suc (max_watch_retries n - 1)" by (simp add: max_watch_retries_def)
  then obtain k where "max_watch_retries n = Suc k" by blast
  then show ?thesis by (intro ext) (simp split: sum.split)
qed

interpretation rj: evidence_store sha "rj_good sha" "rj_look sha" "rj_atomic sha n" for sha n
proof
  fix s
  assume "rj_good sha s"
  then show "records_ok sha (rj_look sha s)" by (rule rj_records_ok)
next
  fix s i e and u :: updater and now :: time
  assume "rj_good sha s" "u now (rj_look sha s i) = Inl e"
  then show "rj_atomic sha n now i u s = (Inl e, s)" by (simp add: rj_atomic_def rj_attempts_one rj_get_ok)
next
  fix s i x and u :: updater and now :: time
  assume a: "rj_good sha s" "u now (rj_look sha s i) = Inr x" "evidence_wf sha x" "e_event_id x = i"
  let ?s = "AList.update i (evidence_as_dict x) s"
  have g: "rj_good sha ?s" using a(1,3,4) by (auto simp: rj_good_def update_conv')
  have "rj_look sha ?s j = ((rj_look sha s)(i \<mapsto> x)) j" for j
    using a(3) by (simp add: rj_look_def rj_get_def update_conv' evidence_round_trip)
  then show "fst (rj_atomic sha n now i u s) = Inr x \<and> rj_good sha (snd (rj_atomic sha n now i u s))
      \<and> rj_look sha (snd (rj_atomic sha n now i u s)) = (rj_look sha s)(i \<mapsto> x)"
    using a g by (auto simp: rj_atomic_def rj_attempts_one rj_get_ok evidence_round_trip)
qed

end
