(* ===== verification/Evaluation_Properties.thy ===== *)
theory Evaluation_Properties
  imports Evaluation_Journal
begin

text \<open>
  Properties of the evaluation evidence: envelopes and records come back from their dictionaries,
  the three journals do what a map of records does, a record only moves forward, and a decision
  is only reached with a receipt that matches it.
\<close>

section \<open>One transition\<close>

text \<open>A settled record: its decision is the disposition's and its receipt is about that disposition.\<close>

definition settled :: "(dict \<Rightarrow> string) \<Rightarrow> evidence \<Rightarrow> bool" where
  "settled sha x \<longleftrightarrow> (\<exists>env rc. e_disposition x = Some (disposition_frozen env) \<and> e_verification x = Some (receipt_frozen rc)
     \<and> d_status env = e_status x \<and> r_event_id rc = e_event_id x \<and> r_event_key rc = e_event_key x
     \<and> r_digest rc = disposition_digest sha env
     \<and> r_dest_key rc = (if e_status x = ''committed'' then d_authority_key env else e_disposition_key x))"

definition status_edges :: "(string \<times> string) set" where
  "status_edges = {(''preparing'', ''pending''), (''pending'', ''deciding'')} \<union> {''deciding''} \<times> decision_states
     \<union> active_statuses \<times> {''abandoned''}"

definition same_identity :: "evidence \<Rightarrow> evidence \<Rightarrow> bool" where
  "same_identity a b \<longleftrightarrow> e_event_id b = e_event_id a \<and> e_run_id b = e_run_id a \<and> e_event_key b = e_event_key a
     \<and> e_identity b = e_identity a \<and> e_created b = e_created a"

definition evidence_move :: "(dict \<Rightarrow> string) \<Rightarrow> evidence \<Rightarrow> evidence \<Rightarrow> bool" where
  "evidence_move sha a b \<longleftrightarrow> same_identity a b \<and> e_revision b = e_revision a + 1
     \<and> (e_disposition a \<noteq> None \<longrightarrow> e_disposition b = e_disposition a)
     \<and> (e_verification a \<noteq> None \<longrightarrow> e_verification b = e_verification a)
     \<and> ((e_status a, e_status b) \<in> status_edges \<or> e_status b = e_status a \<and> e_status a \<in> decision_states \<and> e_verification a = None)
     \<and> (e_status b \<in> decision_states \<longrightarrow> settled sha b)"

lemma statuses [simp]:
  "py_lower (py_strip ''pending'') = ''pending''" "py_lower (py_strip ''deciding'') = ''deciding''"
  "py_lower (py_strip ''abandoned'') = ''abandoned''"
  by code_simp+

lemma next_evidenceD:
  assumes "next_evidence sha now cur st d dk v m = Inr x" "evidence_wf sha cur"
  shows "same_identity cur x" "e_revision x = e_revision cur + 1" "e_status x = py_lower (py_strip st)"
    "d = None \<Longrightarrow> e_disposition x = e_disposition cur" "v = None \<Longrightarrow> e_verification x = e_verification cur"
    "disposition_wf env \<Longrightarrow> d = Some (disposition_as_dict env) \<Longrightarrow> e_disposition x = Some (disposition_frozen env)"
    "receipt_wf rc \<Longrightarrow> v = Some (receipt_as_dict rc) \<Longrightarrow> e_verification x = Some (receipt_frozen rc)"
    "dk = None \<Longrightarrow> e_disposition_key x = e_disposition_key cur"
proof -
  obtain env0 rc0 where c: "evidence_ok sha cur env0 rc0" using assms(2) by (rule evidence_wfE)
  then have p: "plain_ok cur" by (simp add: evidence_ok_def)
  note M = make_evidenceD[OF assms(1)[unfolded next_evidence_def]]
  show "same_identity cur x" by (rule M) (use p in \<open>simp add: same_identity_def plain_ok_def\<close>)
  show "e_revision x = e_revision cur + 1" by (rule M) simp
  show "e_status x = py_lower (py_strip st)" by (rule M) simp
  show "e_disposition_key x = e_disposition_key cur" if "dk = None"
    using assms(1) p that unfolding next_evidence_def by (elim make_evidenceD) (simp add: plain_ok_def)
  show "e_disposition x = e_disposition cur" if "d = None"
    using assms(1) evidence_okD[OF c] that unfolding next_evidence_def
    by (elim make_evidenceD) (cases env0; auto simp: evidence_ok_def intent_ok_def disposition_from_frozen)
  show "e_verification x = e_verification cur" if "v = None"
    using assms(1) evidence_okD[OF c] that unfolding next_evidence_def
    by (elim make_evidenceD) (cases rc0; auto simp: evidence_ok_def verdict_ok_def receipt_from_frozen)
  show "e_disposition x = Some (disposition_frozen env)" if "disposition_wf env" "d = Some (disposition_as_dict env)"
    using assms(1) that unfolding next_evidence_def
    by (elim make_evidenceD) (auto simp: evidence_ok_def disposition_round_trip)
  show "e_verification x = Some (receipt_frozen rc)" if "receipt_wf rc" "v = Some (receipt_as_dict rc)"
    using assms(1) that unfolding next_evidence_def
    by (elim make_evidenceD) (auto simp: evidence_ok_def receipt_round_trip)
qed

lemma decision_strip [simp]: "st \<in> decision_states \<Longrightarrow> py_lower (py_strip st) = st"
proof -
  have "\<forall>st\<in>decision_states. py_lower (py_strip st) = st" unfolding decision_states_def by code_simp
  then show "st \<in> decision_states \<Longrightarrow> ?thesis" by blast
qed

lemma status_simps [simp]: "''pending'' \<notin> decision_states" "''deciding'' \<notin> decision_states" "''abandoned'' \<notin> decision_states"
  "''preparing'' \<notin> decision_states"
  by (simp_all add: decision_states_def)

lemma wf_statuses:
  assumes "evidence_wf sha x" "e_status x \<in> {''preparing'', ''pending''}"
  shows "e_disposition x = None" "e_verification x = None"
  using assms by (auto elim!: evidence_wfE simp: evidence_ok_def intent_ok_def verdict_ok_def split: option.splits)

lemma wf_not_decided:
  assumes "evidence_wf sha x" "e_status x \<notin> decision_states"
  shows "e_verification x = None"
  using assms by (auto elim!: evidence_wfE simp: evidence_ok_def verdict_ok_def split: option.splits)

lemma durable_move:
  assumes "durable_update sha now n (Some a) = Inr b" "evidence_wf sha a"
  shows "b = a \<or> evidence_move sha a b"
proof -
  consider "b = a" | "e_status a = ''preparing''" "next_evidence sha now a ''pending'' None None None [] = Inr b"
    using assms(1) by (auto simp: durable_update_def rbind_Inr split: if_splits)
  then show ?thesis
  proof cases
    case 2
    show ?thesis using next_evidenceD[OF 2(2) assms(2)] 2(1) by (simp add: evidence_move_def status_edges_def)
  qed simp
qed

lemma prepare_move:
  assumes "prepare_update sha now env dkey n (Some a) = Inr b" "evidence_wf sha a" "disposition_wf env"
  shows "b = a \<or> evidence_move sha a b"
proof -
  consider "b = a" | "e_status a = ''pending''"
      "next_evidence sha now a ''deciding'' (Some (disposition_as_dict env)) (Some dkey) None [] = Inr b"
    using assms(1) by (auto simp: prepare_update_def rbind_Inr split: if_splits)
  then show ?thesis
  proof cases
    case 2
    show ?thesis using next_evidenceD[OF 2(2) assms(2)] wf_statuses[OF assms(2)] 2(1)
      by (simp add: evidence_move_def status_edges_def)
  qed simp
qed

lemma settle_move:
  assumes "settle_update sha now rc n (Some a) = Inr b" "evidence_wf sha a" "receipt_wf rc"
  shows "b = a \<or> evidence_move sha a b"
proof -
  obtain env0 rc0 where a: "evidence_ok sha a env0 rc0" using assms(2) by (rule evidence_wfE)
  obtain d where d: "e_disposition a = Some d" using assms(1) by (auto simp: settle_update_def rbind_Inr split: option.splits)
  then obtain env where env: "env0 = Some env" "d = disposition_frozen env" "disposition_wf env"
    using evidence_okD(1,3)[OF a] by (auto simp: intent_ok_def)
  let ?dest = "if d_status env = ''committed'' then d_authority_key env else e_disposition_key a"
  consider "b = a" | st where "r_event_id rc = e_event_id a" "r_event_key rc = e_event_key a" "r_dest_key rc = ?dest"
      "r_digest rc = disposition_digest sha env" "st = d_status env"
      "next_evidence sha now a st None None (Some (receipt_as_dict rc)) [] = Inr b"
      "e_verification a = None" "e_status a = ''deciding'' \<or> e_status a = st"
    using assms(1) wf_not_decided[OF assms(2)] d env
    by (auto simp: settle_update_def rbind_Inr disposition_from_frozen Let_def split: if_splits option.splits)
  then show ?thesis
  proof cases
    case 2
    note N = next_evidenceD[OF 2(6) assms(2)]
    have st: "d_status env \<in> decision_states" using disposition_wfD(4)[OF env(3)] .
    have "settled sha b" unfolding settled_def
      using 2(1-5) N(1,3,4,8) N(7)[OF assms(3)] d env(2) st
      by (intro exI[of _ env] exI[of _ rc]) (auto simp: same_identity_def)
    then show ?thesis using 2 N st by (auto simp: evidence_move_def status_edges_def)
  qed simp
qed

lemma abandon_move:
  assumes "abandon_update sha now reason metadata n (Some a) = Inr b" "evidence_wf sha a"
  shows "b = a \<or> evidence_move sha a b"
proof -
  consider "b = a" | m where "e_status a \<in> active_statuses" "next_evidence sha now a ''abandoned'' None None None m = Inr b"
    using assms(1) evidence_wf_plain[OF assms(2)]
    by (auto simp: abandon_update_def rbind_Inr e_terminal_def plain_ok_def split: if_splits)
  then show ?thesis
  proof cases
    case 2
    show ?thesis using next_evidenceD[OF 2(2) assms(2)] 2(1) by (simp add: evidence_move_def status_edges_def)
  qed simp
qed

section \<open>Runs on a map of records\<close>

definition evolved :: "evidence \<Rightarrow> evidence \<Rightarrow> bool" where
  "evolved a b \<longleftrightarrow> same_identity a b \<and> e_revision a \<le> e_revision b \<and> (e_revision b = e_revision a \<longrightarrow> b = a)
     \<and> (e_disposition a \<noteq> None \<longrightarrow> e_disposition b = e_disposition a)
     \<and> (e_verification a \<noteq> None \<longrightarrow> e_verification b = e_verification a)
     \<and> (e_terminal a \<longrightarrow> e_status b = e_status a)"

definition journal_evolves :: "(string \<Rightarrow> evidence option) \<Rightarrow> (string \<Rightarrow> evidence option) \<Rightarrow> bool" where
  "journal_evolves m m' \<longleftrightarrow> (\<forall>i a. m i = Some a \<longrightarrow> (\<exists>b. m' i = Some b \<and> evolved a b))"

definition all_settled :: "(dict \<Rightarrow> string) \<Rightarrow> (string \<Rightarrow> evidence option) \<Rightarrow> bool" where
  "all_settled sha m \<longleftrightarrow> (\<forall>i x. m i = Some x \<longrightarrow> e_status x \<in> decision_states \<longrightarrow> settled sha x)"

lemma evolved_refl [simp]: "evolved a a"
  by (simp add: evolved_def same_identity_def)

lemma evolved_trans: "evolved a b \<Longrightarrow> evolved b d \<Longrightarrow> evolved a d"
  by (auto simp: evolved_def same_identity_def e_terminal_def)

lemma journal_evolves_trans: "journal_evolves m m' \<Longrightarrow> journal_evolves m' m'' \<Longrightarrow> journal_evolves m m''"
  unfolding journal_evolves_def by (meson evolved_trans)

lemma move_evolved: "evidence_move sha a b \<Longrightarrow> evolved a b"
  by (auto simp: evidence_move_def evolved_def status_edges_def e_terminal_def terminal_statuses_def active_statuses_def)

text \<open>What a call makes of the record of its event: it is new, or it moves.\<close>

definition call_effect :: "(dict \<Rightarrow> string) \<Rightarrow> evidence option \<Rightarrow> evidence \<Rightarrow> bool" where
  "call_effect sha cur b \<longleftrightarrow> (case cur of None \<Rightarrow> e_status b \<notin> decision_states | Some a \<Rightarrow> b = a \<or> evidence_move sha a b)"

definition spec_step :: "(dict \<Rightarrow> string) \<Rightarrow> (string \<Rightarrow> evidence option) \<Rightarrow> (string \<Rightarrow> evidence option) \<Rightarrow> bool" where
  "spec_step sha m m' \<longleftrightarrow> m' = m \<or> (\<exists>i b. m' = m(i \<mapsto> b) \<and> evidence_wf sha b \<and> e_event_id b = i \<and> call_effect sha (m i) b)"

lemma spec_atomic_step:
  assumes "records_ok sha m" "sound_updater sha i u" "\<And>b. u now (m i) = Inr b \<Longrightarrow> call_effect sha (m i) b"
  shows "spec_step sha m (snd (spec_atomic now i u m))"
proof (cases "u now (m i)")
  case (Inr b)
  then have "evidence_wf sha b \<and> e_event_id b = i" using assms(1,2) unfolding sound_updater_def records_ok_def by blast
  then show ?thesis using assms(3)[OF Inr] Inr by (auto simp: spec_atomic_def spec_step_def)
qed (simp add: spec_atomic_def spec_step_def)

lemma updater_None [simp]:
  "durable_update sha now n None = Inl EvaluationEvidenceConflict" "prepare_update sha now env dkey n None = Inl EvaluationEvidenceConflict"
  "settle_update sha now rc n None = Inl EvaluationEvidenceConflict"
  "abandon_update sha now reason metadata n None = Inl EvaluationEvidenceConflict"
  by (simp_all add: updates)

lemma spec_reserve_step:
  assumes "records_ok sha m"
  shows "spec_step sha m (snd (journal_reserve sha (spec_atomic now) t now i run key identity metadata m))"
proof (cases "reserve_request sha t now i run key identity metadata")
  case (Inr r)
  have "e_status r = py_lower (py_strip ''preparing'')"
    using Inr unfolding reserve_request_def by (elim make_evidenceD) simp
  then have "e_status r \<notin> decision_states" by (simp only:) code_simp
  then have E: "call_effect sha (m (e_event_id r)) b" if "reserve_update r (m (e_event_id r)) = Inr b" for b
    using that by (auto simp: reserve_update_def call_effect_def split: option.splits if_splits)
  have "evidence_wf sha r" using Inr unfolding reserve_request_def by (rule make_evidence_wf)
  from spec_atomic_step[OF assms reserve_updater[OF this] E] show ?thesis
    by (simp add: journal_reserve_def Inr)
qed (simp add: journal_reserve_def spec_step_def)

lemma spec_call_step:
  assumes "records_ok sha m" "op_ok op"
  shows "spec_step sha m (snd (journal_call sha spec_atomic now op m))"
proof -
  have wf: "evidence_wf sha a" if "m i = Some a" for i a using assms(1) that by (simp add: records_ok_def)
  show ?thesis
  proof (cases op)
    case (Reserve t i run key identity metadata)
    show ?thesis unfolding Reserve journal_call.simps by (rule spec_reserve_step[OF assms(1)])
  next
    case (Durable i n)
    show ?thesis unfolding Durable journal_call.simps mark_event_durable_def
      by (rule spec_atomic_step[OF assms(1) sound_updaters(1)])
         (cases "m i", auto simp: call_effect_def dest: durable_move wf)
  next
    case (Prepare env dkey n)
    then have w: "disposition_wf env" using assms(2) by simp
    show ?thesis unfolding Prepare journal_call.simps prepare_disposition_def
      by (rule spec_atomic_step[OF assms(1) sound_updaters(2)])
         (cases "m (d_event_id env)", auto simp: call_effect_def dest: prepare_move[OF _ _ w] wf)
  next
    case (Settle i rc n)
    then have w: "receipt_wf rc" using assms(2) by simp
    show ?thesis unfolding Settle journal_call.simps journal_settle_def
      by (rule spec_atomic_step[OF assms(1) sound_updaters(3)])
         (cases "m i", auto simp: call_effect_def dest: settle_move[OF _ _ w] wf)
  next
    case (Abandon i reason metadata n)
    have "spec_step sha m (snd (spec_atomic now i (\<lambda>now. abandon_update sha now (py_strip reason) metadata n) m))"
      by (rule spec_atomic_step[OF assms(1) sound_updaters(4)])
         (cases "m i", auto simp: call_effect_def dest: abandon_move wf)
    then show ?thesis by (simp add: Abandon journal_abandon_def spec_step_def)
  qed
qed

lemma call_effect_settled:
  assumes "call_effect sha cur b" "e_status b \<in> decision_states" "\<And>a. cur = Some a \<Longrightarrow> e_status a \<in> decision_states \<Longrightarrow> settled sha a"
  shows "settled sha b"
  using assms by (cases cur) (auto simp: call_effect_def evidence_move_def)

lemma call_effect_evolved: "call_effect sha (Some a) b \<Longrightarrow> evolved a b"
  using move_evolved by (auto simp: call_effect_def)

lemma spec_step_ok:
  assumes "spec_step sha m m'" "records_ok sha m"
  shows "records_ok sha m'" "journal_evolves m m'" "all_settled sha m \<Longrightarrow> all_settled sha m'"
proof -
  consider "m' = m" | i b where "m' = m(i \<mapsto> b)" "evidence_wf sha b" "e_event_id b = i" "call_effect sha (m i) b"
    using assms(1) unfolding spec_step_def by blast
  note cs = this
  show "records_ok sha m'" by (cases rule: cs) (use assms(2) in \<open>auto simp: records_ok_def\<close>)
  show "journal_evolves m m'" by (cases rule: cs) (auto simp: journal_evolves_def intro: call_effect_evolved)
  show "all_settled sha m'" if "all_settled sha m"
    by (cases rule: cs) (use that in \<open>auto simp: all_settled_def intro: call_effect_settled\<close>)
qed

lemma spec_run_ok:
  assumes "list_all (op_ok \<circ> snd) ops" "records_ok sha m"
  shows "journal_evolves m (journal_run sha spec_atomic ops m)
    \<and> (all_settled sha m \<longrightarrow> all_settled sha (journal_run sha spec_atomic ops m))"
  using assms
proof (induction ops arbitrary: m)
  case Nil
  then show ?case by (simp add: journal_evolves_def)
next
  case (Cons step ops)
  obtain now op where step: "step = (now, op)" by force
  have S: "spec_step sha m (snd (journal_call sha spec_atomic now op m))"
    using spec_call_step Cons.prems by (simp add: step)
  note N = spec_step_ok[OF S Cons.prems(2)]
  show ?case using Cons.IH[OF _ N(1)] N(2,3) Cons.prems(1) journal_evolves_trans by (auto simp: step)
qed

context evidence_store
begin

lemma run_evolves:
  assumes "good s" "list_all (op_ok \<circ> snd) ops"
  shows "journal_evolves (look s) (look (journal_run sha atomic ops s))"
    and "all_settled sha (look s) \<Longrightarrow> all_settled sha (look (journal_run sha atomic ops s))"
  using spec_run_ok[OF assms(2) look_ok[OF assms(1)]] run_refines[OF assms(1), of ops] by simp_all

end

section \<open>Examples\<close>

definition ex_sha :: "dict \<Rightarrow> string" where
  "ex_sha d = replicate 64 CHR ''0''"

definition ex_env :: disposition where
  "ex_env = \<lparr>d_event_id = ''e1'', d_status = ''committed'', d_codec = ''state/v1'',
     d_payload = [(''accepted'', PTuple [PInt 1, PInt 4])], d_event_key = ''event/1'', d_authority_key = ''state/2'',
     d_identity = [], d_metadata = []\<rparr>"

definition ex_receipt :: receipt where
  "ex_receipt = \<lparr>r_event_id = ''e1'', r_event_key = ''event/1'', r_event_revision = 1,
     r_event_digest = ''sha256:'' @ replicate 64 CHR ''a'', r_event_schema = ''event/v1'', r_dest_key = ''state/2'',
     r_dest_revision = 2, r_dest_digest = ''sha256:'' @ replicate 64 CHR ''b'', r_dest_schema = ''state/v1'',
     r_digest = ''sha256:'' @ replicate 64 CHR ''0'', r_verifier = ''verifier'', r_verified_at = 5, r_metadata = []\<rparr>"

definition ex_event :: event_envelope where
  "ex_event = \<lparr>ev_id = '' e1'', ev_candidate_codec = ''c/v1'', ev_candidate = [(''x'', PList [PNum (1 / 2), PNone])],
     ev_feedback_codec = ''f/v1'', ev_feedback = [], ev_provenance = [[(''source'', PStr ''a'')]], ev_identity = [],
     ev_count = 2, ev_complete = True, ev_metadata = []\<rparr>"

definition ex_record :: evidence where
  "ex_record = \<lparr>e_event_id = ''e1'', e_run_id = ''r1'', e_event_key = ''event/1'', e_status = ''Deciding'',
     e_disposition = Some (disposition_as_dict ex_env), e_disposition_key = [], e_verification = None, e_identity = [],
     e_metadata = [], e_revision = 3, e_created = 1, e_updated = 4\<rparr>"

definition ex_journal_ops :: "(time \<times> journal_op) list" where
  "ex_journal_ops = [(1, Reserve 1 ''e1'' ''r1'' ''event/1'' [] []), (2, Durable ''e1'' (Some 1)), (3, Prepare ex_env ''disposition/1'' None),
     (4, Settle ''e1'' ex_receipt None)]"

lemma ex_envelopes_wf: "disposition_wf ex_env" "receipt_wf ex_receipt"
  unfolding disposition_wf_def receipt_wf_def by code_simp+

lemma ex_journal_ops_ok: "list_all (op_ok \<circ> snd) ex_journal_ops"
  using ex_envelopes_wf by (simp add: ex_journal_ops_def)

lemma ex_empty: "mj_good sha []" "sj_good sha ns []" "rj_good sha []"
  by (simp_all add: mj_good_def sj_good_def rj_good_def records_ok_def)

section \<open>Round trips\<close>

text \<open>
  C35. Events, dispositions, receipts and journal records survive the wire: whatever the
  constructor has built, \<open>from_dict\<close> applied to its \<open>as_dict\<close> gives the same value again.
\<close>

theorem evidence_round_trips:
  assumes "make_event e0 = Inr e" "make_disposition d0 = Inr d" "make_receipt r0 = Inr r" "make_evidence sha x0 = Inr x"
  shows "event_from_dict (event_as_dict e) = Inr e \<and> disposition_from_dict (disposition_as_dict d) = Inr d
    \<and> receipt_from_dict (receipt_as_dict r) = Inr r \<and> evidence_from_dict sha (evidence_as_dict x) = Inr x"
  using event_round_trip[OF make_event_wf[OF assms(1)]] disposition_round_trip[OF make_disposition_wf[OF assms(2)]]
    receipt_round_trip[OF make_receipt_wf[OF assms(3)]] evidence_round_trip[OF make_evidence_wf[OF assms(4)]]
  by simp

lemma ex_made: "\<not> Option.is_none (case make_event ex_event of Inr e \<Rightarrow> Some e | Inl e \<Rightarrow> None)"
  "\<not> Option.is_none (case make_evidence ex_sha ex_record of Inr e \<Rightarrow> Some e | Inl e \<Rightarrow> None)"
  by code_simp+

theorem evidence_round_trips_witness:
  "\<exists>e x. make_event ex_event = Inr e \<and> make_evidence ex_sha ex_record = Inr x
    \<and> event_from_dict (event_as_dict e) = Inr e \<and> disposition_from_dict (disposition_as_dict ex_env) = Inr ex_env
    \<and> receipt_from_dict (receipt_as_dict ex_receipt) = Inr ex_receipt \<and> evidence_from_dict ex_sha (evidence_as_dict x) = Inr x"
proof -
  obtain e x where e: "make_event ex_event = Inr e" and x: "make_evidence ex_sha ex_record = Inr x"
    using ex_made by (auto simp: Option.is_none_def split: sum.splits)
  show ?thesis
    using evidence_round_trips[OF e ex_envelopes_wf(1)[unfolded disposition_wf_def] ex_envelopes_wf(2)[unfolded receipt_wf_def] x] e x by blast
qed

section \<open>The three journals\<close>



text \<open>
  Redis under interference: when other clients write between the attempts of the WATCH loop,
  a call that returns a record has done its update in one step on the data as it was just before
  its successful EXEC, with the writes of all the others up to then in place; no write is lost.
\<close>

theorem redis_update_linearizes:
  assumes "rj_attempts sha attempts i u s = (Inr x, s')"
  shows "\<exists>k<length attempts. rj_atomic sha n (fst (attempts ! k)) i u (fold (snd \<circ> snd) (take (Suc k) attempts) s) = (Inr x, s')"
  using assms
proof (induction attempts arbitrary: s)
  case (Cons a rest)
  obtain now touched others where a: "a = (now, touched, others)" by (cases a) auto
  show ?case
  proof (cases "touched \<or> map_of (others s) i \<noteq> map_of s i")
    case True
    then have "rj_attempts sha rest i u (others s) = (Inr x, s')"
      using Cons.prems by (auto simp: a split: sum.splits if_splits)
    from Cons.IH[OF this] obtain k where "k < length rest"
      "rj_atomic sha n (fst (rest ! k)) i u (fold (snd \<circ> snd) (take (Suc k) rest) (others s)) = (Inr x, s')" by blast
    then show ?thesis by (intro exI[of _ "Suc k"]) (simp add: a comp_def)
  next
    case False
    then have "rj_get sha i (others s) = rj_get sha i s" by (simp add: rj_get_def)
    then have "rj_atomic sha n now i u (others s) = (Inr x, s')"
      using Cons.prems False by (auto simp: a rj_atomic_def rj_attempts_one split: sum.splits)
    then show ?thesis by (intro exI[of _ 0]) (simp add: a)
  qed
qed simp

text \<open>Another client reserves the event first; the second attempt returns that client's record.\<close>

definition ex_reserved :: evidence where
  "ex_reserved = \<lparr>e_event_id = ''e1'', e_run_id = ''r1'', e_event_key = ''event/1'', e_status = ''preparing'', e_disposition = None,
     e_disposition_key = [], e_verification = None, e_identity = [], e_metadata = [], e_revision = 1, e_created = 2,
     e_updated = 2\<rparr>"

definition ex_attempts :: "attempt list" where
  "ex_attempts = [(2, True, AList.update ''e1'' (evidence_as_dict (ex_reserved\<lparr>e_created := 1\<rparr>))), (3, False, \<lambda>s. s)]"

lemma ex_race: "rj_attempts ex_sha ex_attempts ''e1'' (\<lambda>now. reserve_update ex_reserved) []
    = (Inr (ex_reserved\<lparr>e_created := 1\<rparr>), [(''e1'', evidence_as_dict (ex_reserved\<lparr>e_created := 1\<rparr>))])"
  by code_simp

theorem redis_update_linearizes_witness:
  "\<exists>k<2. rj_atomic ex_sha 32 (fst (ex_attempts ! k)) ''e1'' (\<lambda>now. reserve_update ex_reserved)
      (fold (snd \<circ> snd) (take (Suc k) ex_attempts) [])
    = (Inr (ex_reserved\<lparr>e_created := 1\<rparr>), [(''e1'', evidence_as_dict (ex_reserved\<lparr>e_created := 1\<rparr>))])"
  using redis_update_linearizes[OF ex_race, of 32] by (simp add: ex_attempts_def numeral_2_eq_2)

section \<open>What a run keeps\<close>




text \<open>
  C38. In every journal reached from an empty one, a record with a decision (committed, rejected
  or failed) is settled: it has the disposition it decided on and a verification receipt for that
  event, that event Snapshot, the digest of that disposition and the destination it names.
\<close>

theorem decisions_are_verified:
  assumes "list_all (op_ok \<circ> snd) ops"
  shows "(all_settled sha (map_of (journal_run sha (mj_atomic sha) ops []))) \<and>
    (all_settled sha (sj_look sha ns (journal_run sha (sj_atomic sha ns) ops []))) \<and>
    (all_settled sha (rj_look sha (journal_run sha (rj_atomic sha n) ops [])))"
proof (intro conjI)
  show "all_settled sha (map_of (journal_run sha (mj_atomic sha) ops []))"
    using assms by (intro mj.run_evolves(2) ex_empty) (simp_all add: all_settled_def)
  show "all_settled sha (sj_look sha ns (journal_run sha (sj_atomic sha ns) ops []))"
    using assms by (intro sj.run_evolves(2) ex_empty)
      (simp_all add: all_settled_def sj_look_def sj_get_def sj_select_def)
  show "all_settled sha (rj_look sha (journal_run sha (rj_atomic sha n) ops []))"
    using assms by (intro rj.run_evolves(2) ex_empty) (simp_all add: all_settled_def rj_look_def rj_get_def)
qed

lemma ex_committed: "map_option e_status (map_of (journal_run ex_sha (mj_atomic ex_sha) ex_journal_ops []) ''e1'') = Some ''committed''"
  by code_simp

theorem decisions_are_verified_witness:
  "\<exists>x. map_of (journal_run ex_sha (mj_atomic ex_sha) ex_journal_ops []) ''e1'' = Some x \<and> e_status x = ''committed'' \<and> settled ex_sha x"
  using decisions_are_verified[OF ex_journal_ops_ok, of ex_sha] ex_committed
  by (auto simp: all_settled_def decision_states_def)

section \<open>Preparing again\<close>

lemma same_intent_frozen:
  assumes "disposition_wf env" "keys_ok (PMap (disposition_frozen env))" "e_disposition a = Some (disposition_frozen env)"
  shows "same_intent a env \<longleftrightarrow> \<not> has_sequence (PMap (disposition_frozen env))"
proof -
  have "frozen (PMap (disposition_frozen env)) = PMap (disposition_frozen env)"
    using disposition_freeze[OF assms(1)] freeze_wire_mapping_idem by (fastforce simp: freeze_wire_mapping_eq split: if_splits)
  moreover have "thaw_wire_value (PMap (disposition_frozen env)) = PMap (disposition_as_dict env)"
    using thaw_frozen_forms(1)[of env] by (simp add: thaw_wire_mapping_def)
  ultimately show ?thesis using frozen_eq_thawed[OF assms(2)] assms(3) by (simp add: same_intent_def)
qed

text \<open>
  Preparing the disposition that is already prepared, the retry after a crash, is accepted
  only when no list occurs in its payload, identity or metadata: the stored mapping has tuples
  where the requested one has lists, Python's \<open>==\<close> tells them apart, and the journal answers
  that the event already has a different disposition intent.
\<close>

theorem prepare_again:
  assumes "sj_good sha ns db" "sj_look sha ns db (d_event_id env) = Some a" "e_status a = ''deciding''"
    "e_disposition a = Some (disposition_frozen env)" "disposition_wf env" "keys_ok (PMap (disposition_frozen env))"
    "e_event_key a = d_event_key env"
  shows "fst (prepare_disposition sha (sj_atomic sha ns now) env (e_disposition_key a) None db) =
    (if has_sequence (PMap (disposition_frozen env)) then Inl EvaluationEvidenceConflict else Inr a)"
proof -
  have "prepare_update sha now env (e_disposition_key a) None (Some a) =
      (if has_sequence (PMap (disposition_frozen env)) then Inl EvaluationEvidenceConflict else Inr a)"
    using assms(3-7) same_intent_frozen[OF assms(5,6,4)] by (simp add: prepare_update_def expected_revision_def)
  then have "fst (spec_atomic now (d_event_id env) (\<lambda>now. prepare_update sha now env (e_disposition_key a) None) (sj_look sha ns db))
      = (if has_sequence (PMap (disposition_frozen env)) then Inl EvaluationEvidenceConflict else Inr a)"
    using assms(2) by (simp add: spec_atomic_def)
  moreover have "sound_updater sha (d_event_id env) (\<lambda>now. prepare_update sha now env (e_disposition_key a) None)"
    by (rule sound_updaters(2))
  ultimately show ?thesis
    using sj.atomic_refines[OF assms(1), of "d_event_id env" "\<lambda>now. prepare_update sha now env (e_disposition_key a) None" now]
    by (auto simp: prepare_disposition_def prod_eq_iff)
qed

definition ex_prepared :: evidence_db where
  "ex_prepared = journal_run ex_sha (sj_atomic ex_sha ''ns'') (take 3 ex_journal_ops) []"

lemma ex_prepared_look:
  "case sj_look ex_sha ''ns'' ex_prepared ''e1'' of None \<Rightarrow> False | Some a \<Rightarrow> e_status a = ''deciding''
    \<and> e_disposition a = Some (disposition_frozen ex_env) \<and> e_event_key a = ''event/1'' \<and> e_disposition_key a = ''disposition/1''"
  "keys_ok (PMap (disposition_frozen ex_env))" "has_sequence (PMap (disposition_frozen ex_env))"
  "d_event_id ex_env = ''e1''" "d_event_key ex_env = ''event/1''"
  by code_simp+

theorem prepare_again_witness:
  "fst (prepare_disposition ex_sha (sj_atomic ex_sha ''ns'' 4) ex_env ''disposition/1'' None ex_prepared)
    = Inl EvaluationEvidenceConflict"
proof -
  have g: "sj_good ex_sha ''ns'' ex_prepared" unfolding ex_prepared_def using sj.run_refines[OF ex_empty(2)] by blast
  obtain a where a: "sj_look ex_sha ''ns'' ex_prepared ''e1'' = Some a" "e_status a = ''deciding''"
    "e_disposition a = Some (disposition_frozen ex_env)" "e_event_key a = ''event/1''" "e_disposition_key a = ''disposition/1''"
    using ex_prepared_look(1) by (auto split: option.splits)
  show ?thesis
    using prepare_again[OF g _ a(2,3) ex_envelopes_wf(1) ex_prepared_look(2), of 4] a(1,4,5) ex_prepared_look(3-5) by simp
qed

end
