(* ===== verification/Budget_Settlement.thy ===== *)
theory Budget_Settlement
  imports Wire
begin

text \<open>
  \<open>resources/budget_settlement.py\<close>: the journal of the debts between a parent budget
  reservation and the child it was delegated to. A record names the reservation and the child's
  handle and says how far the settlement has come; the rows of the SQLite table hold records as
  dictionaries. Each method is one transaction.
\<close>

section \<open>Records\<close>

record settlement =
  s_id :: string
  s_run :: string
  s_parent :: string
  s_child :: string
  s_budget :: string
  s_reservation :: string
  s_authority :: dict
  s_handle :: dict
  s_amount :: int
  s_status :: string
  s_usage :: dict
  s_attempts :: int
  s_error :: dict
  s_created :: time
  s_updated :: time

definition settlement_states :: "string set" where
  "settlement_states = {''reserve_intent'', ''prepared'', ''settlement_ready'', ''retry_required'', ''settled'', ''reclaimed''}"

text \<open>\<open>_plain_wire\<close>: sequences become lists, other objects raise \<open>TypeError\<close>.\<close>

fun plain :: "pyval \<Rightarrow> pyval" where
  "plain (PList xs) = PList (map plain xs)"
| "plain (PTuple xs) = PList (map plain xs)"
| "plain (PMap d) = PMap (map (\<lambda>(k, v). (k, plain v)) d)"
| "plain v = v"

definition plain_wire :: "dict \<Rightarrow> dict result" where
  "plain_wire d = (if wire_safe (PMap d) then Inr (map (\<lambda>(k, v). (k, plain v)) d) else Inl TypeError)"

definition make_settlement :: "time \<Rightarrow> settlement \<Rightarrow> settlement result" where
  "make_settlement now x =
     (let i = py_strip (s_id x); run = py_strip (s_run x); parent = py_strip (s_parent x); child = py_strip (s_child x);
          b = py_strip (s_budget x); rsv = py_strip (s_reservation x);
          st = py_lower (py_strip (if s_status x = [] then ''prepared'' else s_status x)) in
      rbind (guard (i \<noteq> [] \<and> run \<noteq> [] \<and> parent \<noteq> [] \<and> child \<noteq> [] \<and> b \<noteq> [] \<and> rsv \<noteq> []) ValueError) (\<lambda>_.
      rbind (guard (st \<in> settlement_states) ValueError) (\<lambda>_.
      rbind (plain_wire (s_authority x)) (\<lambda>authority.
      rbind (plain_wire (s_handle x)) (\<lambda>handle.
      rbind (plain_wire (s_usage x)) (\<lambda>usage.
      rbind (plain_wire (s_error x)) (\<lambda>error.
      rbind (guard (0 \<le> s_amount x) ValueError) (\<lambda>_.
      Inr \<lparr>s_id = i, s_run = run, s_parent = parent, s_child = child, s_budget = b, s_reservation = rsv,
           s_authority = authority, s_handle = handle, s_amount = s_amount x, s_status = st, s_usage = usage,
           s_attempts = max 0 (s_attempts x), s_error = error,
           s_created = (if s_created x = 0 then now else s_created x),
           s_updated = (if s_updated x = 0 then now else s_updated x)\<rparr>))))))))"

definition settlement_schema_v1 :: string where
  "settlement_schema_v1 = ''blackbase.budget_settlement/v1''"

definition settlement_schema :: string where
  "settlement_schema = ''blackbase.budget_settlement/v2''"

definition settlement_as_dict :: "settlement \<Rightarrow> dict" where
  "settlement_as_dict x = [(''schema'', PStr settlement_schema), (''settlement_id'', PStr (s_id x)),
     (''project_run_id'', PStr (s_run x)), (''parent_case_run_id'', PStr (s_parent x)),
     (''child_case_run_id'', PStr (s_child x)), (''budget'', PStr (s_budget x)),
     (''parent_reservation_id'', PStr (s_reservation x)), (''parent_authority_ref'', PMap (s_authority x)),
     (''child_handle'', PMap (s_handle x)), (''requested_amount'', PInt (s_amount x)), (''status'', PStr (s_status x)),
     (''usage'', PMap (s_usage x)), (''attempts'', PInt (s_attempts x)), (''last_error'', PMap (s_error x)),
     (''created_at'', PNum (s_created x)), (''updated_at'', PNum (s_updated x))]"

text \<open>\<open>minimal_budget_authority_ref\<close>: what a version 1 record keeps of the parent's context.\<close>

definition minimal_budget_authority_ref :: "dict \<Rightarrow> dict result" where
  "minimal_budget_authority_ref payload =
     rbind (get_dict payload ''lease'') (\<lambda>lease.
     rbind (get_dict payload ''metadata'') (\<lambda>metadata.
     rbind (get_dict metadata ''budget_authority'') (\<lambda>authority.
     rbind (get_int lease ''fencing_token'' 0) (\<lambda>token.
     Inr [(''lease'', PMap [(''lease_id'', PStr (get_str lease ''lease_id'')), (''fencing_token'', PInt token)]),
          (''metadata'', PMap [(''budget_authority'', PMap (List.map_filter
             (\<lambda>k. map_option (Pair k) (map_of authority k))
             [''backend'', ''namespace'', ''scope'', ''path'', ''redis_url_env'']))])]))))"

definition settlement_from_dict :: "time \<Rightarrow> dict \<Rightarrow> settlement result" where
  "settlement_from_dict now payload = (let schema = get_str payload ''schema'' in
     rbind (guard (schema \<in> {settlement_schema_v1, settlement_schema}) ValueError) (\<lambda>_.
     rbind (get_dict payload ''parent_authority_ref'') (\<lambda>given.
     rbind (if schema = settlement_schema_v1
        then rbind (get_dict payload ''parent_resource_context'') minimal_budget_authority_ref else Inr given) (\<lambda>authority.
     rbind (get_dict payload ''child_handle'') (\<lambda>handle.
     rbind (get_int payload ''requested_amount'' 0) (\<lambda>amount.
     rbind (get_dict payload ''usage'') (\<lambda>usage.
     rbind (get_int payload ''attempts'' 0) (\<lambda>attempts.
     rbind (get_dict payload ''last_error'') (\<lambda>error.
     rbind (get_float payload ''created_at'') (\<lambda>created.
     rbind (get_float payload ''updated_at'') (\<lambda>updated.
     make_settlement now \<lparr>s_id = get_str payload ''settlement_id'', s_run = get_str payload ''project_run_id'',
       s_parent = get_str payload ''parent_case_run_id'', s_child = get_str payload ''child_case_run_id'',
       s_budget = get_str payload ''budget'', s_reservation = get_str payload ''parent_reservation_id'',
       s_authority = authority, s_handle = handle, s_amount = amount,
       s_status = py_str (dict_get payload ''status'' (PStr ''prepared'')), s_usage = usage, s_attempts = attempts,
       s_error = error, s_created = created, s_updated = updated\<rparr>)))))))))))"

section \<open>The journal\<close>

record settlement_row =
  sr_namespace :: string
  sr_id :: string
  sr_status :: string
  sr_payload :: dict
  sr_updated :: time

type_synonym settlement_db = "settlement_row list"

definition settlement_select :: "string \<Rightarrow> string \<Rightarrow> settlement_db \<Rightarrow> settlement_row option" where
  "settlement_select ns i db = find (\<lambda>r. sr_namespace r = ns \<and> sr_id r = i) db"

definition settlement_upsert :: "string \<Rightarrow> settlement \<Rightarrow> settlement_db \<Rightarrow> settlement_db" where
  "settlement_upsert ns x db = (let r = \<lparr>sr_namespace = ns, sr_id = s_id x, sr_status = s_status x,
       sr_payload = settlement_as_dict x, sr_updated = s_updated x\<rparr>
     in if list_ex (\<lambda>r'. sr_namespace r' = ns \<and> sr_id r' = s_id x) db
        then map (\<lambda>r'. if sr_namespace r' = ns \<and> sr_id r' = s_id x then r else r') db else db @ [r])"

definition settlement_prepare :: "string \<Rightarrow> time \<Rightarrow> settlement \<Rightarrow> settlement_db \<Rightarrow> settlement result \<times> settlement_db" where
  "settlement_prepare ns now x db = (case settlement_select ns (s_id x) db of
       Some r \<Rightarrow> (rbind (settlement_from_dict now (sr_payload r)) (\<lambda>cur.
          if s_reservation cur \<noteq> s_reservation x \<or> \<not> py_eq (PMap (s_handle cur)) (PMap (s_handle x)) then Inl ValueError
          else Inr cur), db)
     | None \<Rightarrow> (Inr x, settlement_upsert ns x db))"

text \<open>
  \<open>_transition\<close>. \<open>c 0\<close> is the reading for defaults of the row, \<open>c 1\<close> the new \<open>updated_at\<close>,
  \<open>c 2\<close> the reading for defaults of the new record.
\<close>

definition settlement_transition :: "string \<Rightarrow> clock \<Rightarrow> string \<Rightarrow> string \<Rightarrow> dict \<Rightarrow> dict \<Rightarrow> bool \<Rightarrow> settlement_db
    \<Rightarrow> settlement result \<times> settlement_db" where
  "settlement_transition ns c i st usage error increment db = (case settlement_select ns i db of
       None \<Rightarrow> (Inl KeyError, db)
     | Some r \<Rightarrow> (case settlement_from_dict (c 0) (sr_payload r) of
         Inl e \<Rightarrow> (Inl e, db)
       | Inr cur \<Rightarrow> if s_status cur \<in> {''settled'', ''reclaimed''} then (Inr cur, db)
           else (case settlement_from_dict (c 2) (dict_update (settlement_as_dict cur)
                [(''status'', PStr st), (''usage'', PMap (if usage = [] then s_usage cur else usage)),
                 (''attempts'', PInt (s_attempts cur + (if increment then 1 else 0))), (''last_error'', PMap error),
                 (''updated_at'', PNum (c 1))]) of
               Inl e \<Rightarrow> (Inl e, db)
             | Inr x \<Rightarrow> (Inr x, settlement_upsert ns x db))))"

definition mark_settled :: "string \<Rightarrow> clock \<Rightarrow> string \<Rightarrow> dict \<Rightarrow> settlement_db \<Rightarrow> settlement result \<times> settlement_db" where
  "mark_settled ns c i usage = settlement_transition ns c i ''settled'' usage [] True"

definition mark_reserved :: "string \<Rightarrow> clock \<Rightarrow> string \<Rightarrow> settlement_db \<Rightarrow> settlement result \<times> settlement_db" where
  "mark_reserved ns c i = settlement_transition ns c i ''prepared'' [] [] False"

definition mark_ready :: "string \<Rightarrow> clock \<Rightarrow> string \<Rightarrow> dict \<Rightarrow> settlement_db \<Rightarrow> settlement result \<times> settlement_db" where
  "mark_ready ns c i usage = settlement_transition ns c i ''settlement_ready'' usage [] True"

definition error_dict :: "string \<Rightarrow> string \<Rightarrow> dict" where
  "error_dict cls msg = [(''error_type'', PStr cls), (''message'', PStr msg)]"

definition mark_retry :: "string \<Rightarrow> clock \<Rightarrow> string \<Rightarrow> string \<Rightarrow> string \<Rightarrow> dict \<Rightarrow> settlement_db \<Rightarrow> settlement result \<times> settlement_db" where
  "mark_retry ns c i cls msg usage = settlement_transition ns c i ''retry_required'' usage (error_dict cls msg) True"

definition mark_reclaimed :: "string \<Rightarrow> clock \<Rightarrow> string \<Rightarrow> string \<Rightarrow> string \<Rightarrow> dict \<Rightarrow> settlement_db \<Rightarrow> settlement result \<times> settlement_db" where
  "mark_reclaimed ns c i cls msg usage = settlement_transition ns c i ''reclaimed'' usage (error_dict cls msg) True"

fun parse_rows :: "time \<Rightarrow> settlement_row list \<Rightarrow> settlement list result" where
  "parse_rows now [] = Inr []"
| "parse_rows now (r # rs) =
     rbind (settlement_from_dict now (sr_payload r)) (\<lambda>x. rbind (parse_rows now rs) (\<lambda>xs. Inr (x # xs)))"

definition settlement_pending :: "string \<Rightarrow> time \<Rightarrow> string \<Rightarrow> settlement_db \<Rightarrow> settlement list result" where
  "settlement_pending ns now run db = rbind
     (parse_rows now (sort_key sr_updated (filter (\<lambda>r. sr_namespace r = ns \<and> sr_status r \<notin> {''settled'', ''reclaimed''}) db)))
     (\<lambda>xs. Inr (filter (\<lambda>x. run = [] \<or> s_run x = run) xs))"

definition settlement_retryable :: "string \<Rightarrow> time \<Rightarrow> string \<Rightarrow> settlement_db \<Rightarrow> settlement list result" where
  "settlement_retryable ns now run db = rbind (settlement_pending ns now run db)
     (\<lambda>xs. Inr (filter (\<lambda>x. s_status x \<in> {''settlement_ready'', ''retry_required''}) xs))"

section \<open>Records and their dictionaries\<close>

lemma plain_idem [simp]: "plain (plain v) = plain v"
  by (induction v rule: plain.induct) (auto simp: comp_def)

lemma wire_safe_plain [simp]: "wire_safe (plain v) \<longleftrightarrow> wire_safe v"
  by (induction v rule: plain.induct) (auto simp: list_all_iff)

lemma plain_wire_idem: "plain_wire d = Inr p \<Longrightarrow> plain_wire p = Inr p"
  by (fastforce simp: plain_wire_def list_all_iff comp_def case_prod_unfold split: if_splits)

text \<open>A valid record: the constructor changes nothing.\<close>

definition settlement_wf :: "settlement \<Rightarrow> bool" where
  "settlement_wf x \<longleftrightarrow> (\<forall>now. make_settlement now x = Inr x)"

lemma make_settlement_wf:
  assumes "make_settlement now x = Inr y" "now \<noteq> 0"
  shows "settlement_wf y"
proof -
  let ?st = "py_lower (py_strip (if s_status x = [] then ''prepared'' else s_status x))"
  obtain au h u e where
    c: "py_strip (s_id x) \<noteq> []" "py_strip (s_run x) \<noteq> []" "py_strip (s_parent x) \<noteq> []" "py_strip (s_child x) \<noteq> []"
      "py_strip (s_budget x) \<noteq> []" "py_strip (s_reservation x) \<noteq> []" "?st \<in> settlement_states"
    and p: "plain_wire (s_authority x) = Inr au" "plain_wire (s_handle x) = Inr h" "plain_wire (s_usage x) = Inr u"
      "plain_wire (s_error x) = Inr e"
    and a: "0 \<le> s_amount x"
    and y: "\<lparr>s_id = py_strip (s_id x), s_run = py_strip (s_run x), s_parent = py_strip (s_parent x),
      s_child = py_strip (s_child x), s_budget = py_strip (s_budget x), s_reservation = py_strip (s_reservation x),
      s_authority = au, s_handle = h, s_amount = s_amount x, s_status = ?st, s_usage = u,
      s_attempts = max 0 (s_attempts x), s_error = e, s_created = (if s_created x = 0 then now else s_created x),
      s_updated = (if s_updated x = 0 then now else s_updated x)\<rparr> = y"
    using assms(1) unfolding make_settlement_def Let_def rbind_Inr guard_Inr sum.inject
    by (elim exE conjE) (rule that, assumption+)
  have "?st \<noteq> []" using c(7) by (auto simp: settlement_states_def)
  then show ?thesis
    using c a p[THEN plain_wire_idem] assms(2) unfolding settlement_wf_def make_settlement_def Let_def y[symmetric] by simp
qed

text \<open>The values a valid record has, and how a change of some fields is checked.\<close>

definition settlement_plain :: "settlement \<Rightarrow> bool" where
  "settlement_plain x \<longleftrightarrow> list_all (\<lambda>v. v \<noteq> [] \<and> py_strip v = v)
       [s_id x, s_run x, s_parent x, s_child x, s_budget x, s_reservation x]
     \<and> s_status x \<in> settlement_states \<and> list_all (\<lambda>d. plain_wire d = Inr d) [s_authority x, s_handle x, s_usage x, s_error x]
     \<and> 0 \<le> s_amount x \<and> 0 \<le> s_attempts x \<and> s_created x \<noteq> 0 \<and> s_updated x \<noteq> 0"

lemma state_strip: "st \<in> settlement_states \<Longrightarrow> st \<noteq> [] \<and> py_lower (py_strip st) = st"
proof -
  have "\<forall>st\<in>settlement_states. st \<noteq> [] \<and> py_lower (py_strip st) = st" unfolding settlement_states_def by code_simp
  then show "st \<in> settlement_states \<Longrightarrow> ?thesis" by blast
qed

lemma settlement_wf_iff: "settlement_wf x \<longleftrightarrow> settlement_plain x"
proof
  assume w: "settlement_wf x"
  then have "make_settlement 1 x = Inr x" "make_settlement 2 x = Inr x" by (simp_all add: settlement_wf_def)
  then show "settlement_plain x"
    by (cases x) (auto simp: make_settlement_def settlement_plain_def Let_def rbind_Inr split: if_splits)
next
  assume "settlement_plain x"
  then show "settlement_wf x" using state_strip[of "s_status x"]
    by (cases x) (simp add: settlement_wf_def settlement_plain_def make_settlement_def Let_def)
qed

lemma settlement_schemas [simp]: "settlement_schema \<noteq> settlement_schema_v1"
  by (simp add: settlement_schema_def settlement_schema_v1_def)

lemma settlement_from_as_dict: "settlement_from_dict now (settlement_as_dict x) = make_settlement now x"
  unfolding settlement_from_dict_def Let_def
  by (cases x) (simp add: settlement_as_dict_def get_str_def get_dict_def get_int_def get_float_def dict_get_def)

lemma settlement_round_trip: "settlement_wf x \<Longrightarrow> settlement_from_dict now (settlement_as_dict x) = Inr x"
  by (simp add: settlement_from_as_dict settlement_wf_def)

text \<open>The dictionary with the fields of a transition updated is that of the updated record.\<close>

lemma transition_dict:
  "dict_update (settlement_as_dict x)
     [(''status'', PStr st), (''usage'', PMap u), (''attempts'', PInt n), (''last_error'', PMap e), (''updated_at'', PNum t)]
   = settlement_as_dict (x\<lparr>s_status := st, s_usage := u, s_attempts := n, s_error := e, s_updated := t\<rparr>)"
  by (simp add: dict_update_def settlement_as_dict_def)

end
