(* ===== verification/Budget_Account.thy ===== *)
theory Budget_Account
  imports Budget_Ledger Wire
begin

text \<open>
  \<open>resources/budget_account.py\<close>: the handle a parent gives to a child, and the account with
  which a Case reserves and spends units of one budget. A claim is a mutable object that the
  account and its caller share and that methods compare by identity, so claims live in a heap and
  are passed by address; the account's dictionary maps claim ids to addresses. The authority is
  the record of operations of \<open>Budget_Ledger\<close>, on a state of its own.
\<close>

section \<open>Handles\<close>

record handle =
  h_id :: string
  h_budget :: string
  h_authority_budget :: string
  h_limit :: int
  h_authority :: dict
  h_lease_id :: string
  h_token :: int
  h_parent :: string
  h_metadata :: dict

definition make_handle :: "handle \<Rightarrow> handle result" where
  "make_handle x = (let i = py_strip (h_id x); b = py_strip (h_budget x);
       ab = py_strip (if h_authority_budget x = [] then b else h_authority_budget x) in
     rbind (guard (i \<noteq> []) ValueError) (\<lambda>_.
     rbind (guard (b \<noteq> [] \<and> ab \<noteq> []) ValueError) (\<lambda>_.
     rbind (guard (0 \<le> h_limit x) ValueError) (\<lambda>_.
     Inr (x\<lparr>h_id := i, h_budget := b, h_authority_budget := ab, h_token := max 0 (h_token x)\<rparr>)))))"

definition local_handle :: "string \<Rightarrow> string \<Rightarrow> int \<Rightarrow> string \<Rightarrow> handle result" where
  "local_handle uuid b limit i = make_handle \<lparr>h_id = (if i = [] then ''budget-handle-'' @ uuid else i), h_budget = b,
     h_authority_budget = b, h_limit = limit, h_authority = [], h_lease_id = [], h_token = 0, h_parent = [], h_metadata = []\<rparr>"

definition handle_as_dict :: "handle \<Rightarrow> dict" where
  "handle_as_dict x = [(''handle_id'', PStr (h_id x)), (''budget'', PStr (h_budget x)),
     (''authority_budget'', PStr (h_authority_budget x)), (''limit'', PInt (h_limit x)), (''authority'', PMap (h_authority x)),
     (''lease_id'', PStr (h_lease_id x)), (''fencing_token'', PInt (h_token x)),
     (''parent_reservation_id'', PStr (h_parent x)), (''metadata'', PMap (h_metadata x))]"

definition handle_from_dict :: "dict \<Rightarrow> handle result" where
  "handle_from_dict d =
     rbind (get_int d ''limit'' 0) (\<lambda>limit.
     rbind (get_dict d ''authority'') (\<lambda>authority.
     rbind (get_int d ''fencing_token'' 0) (\<lambda>token.
     rbind (get_dict d ''metadata'') (\<lambda>metadata.
     make_handle \<lparr>h_id = get_str d ''handle_id'', h_budget = get_str d ''budget'',
       h_authority_budget = py_str (dict_get d ''authority_budget'' (dict_get d ''budget'' (PStr []))), h_limit = limit,
       h_authority = authority, h_lease_id = get_str d ''lease_id'', h_token = token,
       h_parent = get_str d ''parent_reservation_id'', h_metadata = metadata\<rparr>))))"

section \<open>Claims and accounts\<close>

record claim =
  c_id :: string
  c_budget :: string
  c_amount :: int
  c_account :: string
  c_shared :: "reservation option"
  c_consumed :: int
  c_status :: string

definition claim_post_init :: "claim \<Rightarrow> claim result" where
  "claim_post_init x = (let i = py_strip (c_id x); b = py_strip (c_budget x);
       st = (if c_status x = [] then ''active'' else c_status x) in
     rbind (guard (i \<noteq> []) ValueError) (\<lambda>_.
     rbind (guard (b \<noteq> []) ValueError) (\<lambda>_.
     rbind (guard (0 \<le> c_amount x) ValueError) (\<lambda>_.
     rbind (guard (0 \<le> c_consumed x \<and> c_consumed x \<le> c_amount x) ValueError) (\<lambda>_.
     rbind (guard (st \<in> {''active'', ''completed'', ''cancelled''}) ValueError) (\<lambda>_.
     Inr (x\<lparr>c_id := i, c_budget := b, c_status := st\<rparr>)))))))"

definition c_remaining :: "claim \<Rightarrow> int" where
  "c_remaining x = max 0 (c_amount x - c_consumed x)"

definition c_active :: "claim \<Rightarrow> bool" where
  "c_active x \<longleftrightarrow> c_status x = ''active''"

record account =
  a_id :: string
  a_budget :: string
  a_authority_budget :: string
  a_attached :: bool
  a_lease_id :: string
  a_token :: int
  a_limit :: "int option"
  a_handle_id :: string
  a_spent :: int
  a_claims :: "(string \<times> nat) list"
  a_heap :: "claim list"

definition make_account :: "string \<Rightarrow> string \<Rightarrow> bool \<Rightarrow> string \<Rightarrow> string \<Rightarrow> int \<Rightarrow> int option \<Rightarrow> string \<Rightarrow> account result" where
  "make_account uuid budget attached ab lid token limit handle_id = (let name = py_strip budget in
     rbind (guard (name \<noteq> []) ValueError) (\<lambda>_.
     rbind (guard (case limit of None \<Rightarrow> True | Some n \<Rightarrow> 0 \<le> n) ValueError) (\<lambda>_.
     rbind (guard (attached \<longrightarrow> lid \<noteq> []) SharedBudgetConfigurationError) (\<lambda>_.
     rbind (guard (attached \<longrightarrow> 0 < token) SharedBudgetConfigurationError) (\<lambda>_.
     Inr \<lparr>a_id = ''budget-account-'' @ uuid, a_budget = name,
          a_authority_budget = py_strip (if ab = [] then name else ab), a_attached = attached,
          a_lease_id = lid, a_token = token, a_limit = limit, a_handle_id = handle_id, a_spent = 0, a_claims = [],
          a_heap = []\<rparr>)))))"

text \<open>
  \<open>from_handle\<close>: \<open>build\<close> is \<open>build_budget_authority_from_resource_context\<close>, asked only for a
  handle that names an authority; it says whether it gave one.
\<close>

definition account_from_handle :: "(handle \<Rightarrow> bool result) \<Rightarrow> string \<Rightarrow> handle \<Rightarrow> account result" where
  "account_from_handle build uuid x =
     rbind (if h_authority x = [] then Inr False else build x) (\<lambda>attached.
     make_account uuid (h_budget x) attached (h_authority_budget x) (h_lease_id x) (h_token x) (Some (h_limit x)) (h_id x))"

definition acc_active :: "account \<Rightarrow> claim list" where
  "acc_active a = filter c_active (map (\<lambda>(i, n). a_heap a ! n) (a_claims a))"

definition active_reserved :: "account \<Rightarrow> int" where
  "active_reserved a = sum_list (map c_remaining (acc_active a))"

definition active_claim_count :: "account \<Rightarrow> nat" where
  "active_claim_count a = length (acc_active a)"

definition remaining_limit :: "account \<Rightarrow> int option" where
  "remaining_limit a = (case a_limit a of None \<Rightarrow> None | Some n \<Rightarrow> Some (max 0 (n - a_spent a - active_reserved a)))"

definition acc_allowance :: "'s authority \<Rightarrow> time \<Rightarrow> int \<Rightarrow> int option \<Rightarrow> account \<times> 's \<Rightarrow> int result \<times> account \<times> 's" where
  "acc_allowance au now requested local_limit st = (case st of (a, s) \<Rightarrow>
     if requested < 0 then (Inl ValueError, st)
     else if (case local_limit of None \<Rightarrow> False | Some n \<Rightarrow> n < 0) then (Inl ValueError, st)
     else let allowed = (case local_limit of None \<Rightarrow> requested | Some n \<Rightarrow> min requested n);
              allowed = (case remaining_limit a of None \<Rightarrow> allowed | Some n \<Rightarrow> min allowed n)
       in if a_attached a then (case au_status au now (a_authority_budget a) s of
             (Inl e, s') \<Rightarrow> (Inl e, a, s')
           | (Inr snap, s') \<Rightarrow> (Inr (min allowed (snap_remaining snap)), a, s'))
          else (Inr allowed, st))"

text \<open>The result of \<open>reserve\<close> is the address of the claim.\<close>

definition acc_new :: "claim \<Rightarrow> bool \<Rightarrow> account \<Rightarrow> nat result \<times> account" where
  "acc_new x keep a = (case claim_post_init x of
       Inl e \<Rightarrow> (Inl e, a)
     | Inr y \<Rightarrow> (Inr (length (a_heap a)), a\<lparr>a_heap := a_heap a @ [y],
         a_claims := (if keep then AList.update (c_id x) (length (a_heap a)) (a_claims a) else a_claims a)\<rparr>))"

text \<open>The claim for a reservation that was made: the one the account has, or a new one.\<close>

definition acc_claim :: "string \<Rightarrow> int \<Rightarrow> string \<Rightarrow> reservation option \<Rightarrow> account \<Rightarrow> nat result \<times> account" where
  "acc_claim uuid requested rid shared a =
     (let i = (case shared of Some x \<Rightarrow> reservation_id x | None \<Rightarrow> if rid = [] then ''budget-local-'' @ uuid else rid)
      in case map_of (a_claims a) i of
        Some n \<Rightarrow> (if c_amount (a_heap a ! n) \<noteq> requested then Inl ValueError else Inr n, a)
      | None \<Rightarrow> acc_new \<lparr>c_id = i, c_budget = a_budget a, c_amount = requested, c_account = a_id a, c_shared = shared,
          c_consumed = 0, c_status = ''active''\<rparr> True a)"

definition acc_reserve :: "'s authority \<Rightarrow> time \<Rightarrow> string \<Rightarrow> string \<Rightarrow> int \<Rightarrow> string \<Rightarrow> account \<times> 's
    \<Rightarrow> nat result \<times> account \<times> 's" where
  "acc_reserve au now uuid fresh requested rid st = (case st of (a, s) \<Rightarrow>
     if requested < 0 then (Inl ValueError, st)
     else if (case remaining_limit a of None \<Rightarrow> False | Some n \<Rightarrow> n < requested) then (Inl ValueError, st)
     else if requested = 0 then
       (case acc_new \<lparr>c_id = (if rid = [] then ''budget-zero-'' @ uuid else rid), c_budget = a_budget a, c_amount = 0,
           c_account = a_id a, c_shared = None, c_consumed = 0, c_status = ''completed''\<rparr> False a of (r, a') \<Rightarrow> (r, a', s))
     else if \<not> a_attached a then (case acc_claim uuid requested rid None a of (r, a') \<Rightarrow> (r, a', s))
     else (case au_reserve au now (a_authority_budget a) requested (a_lease_id a) (a_token a) fresh rid s of
         (Inl e, s') \<Rightarrow> (Inl e, a, s')
       | (Inr x, s') \<Rightarrow> (case acc_claim uuid requested rid (Some x) a of (r, a') \<Rightarrow> (r, a', s'))))"

definition require_owned :: "nat \<Rightarrow> account \<Rightarrow> unit result" where
  "require_owned n a = (if length (a_heap a) \<le> n then Inl TypeError
     else guard (c_account (a_heap a ! n) = a_id a \<and> c_budget (a_heap a ! n) = a_budget a) ValueError)"

definition require_active :: "nat \<Rightarrow> account \<Rightarrow> claim result" where
  "require_active n a =
     rbind (require_owned n a) (\<lambda>_.
     rbind (guard (map_of (a_claims a) (c_id (a_heap a ! n)) = Some n) ValueError) (\<lambda>_.
     rbind (guard (c_active (a_heap a ! n)) RuntimeError) (\<lambda>_. Inr (a_heap a ! n))))"

definition put_claim :: "nat \<Rightarrow> claim \<Rightarrow> account \<Rightarrow> account" where
  "put_claim n x a = a\<lparr>a_heap := (a_heap a)[n := x]\<rparr>"

definition acc_consume :: "'s authority \<Rightarrow> time \<Rightarrow> nat \<Rightarrow> int \<Rightarrow> account \<times> 's \<Rightarrow> unit result \<times> account \<times> 's" where
  "acc_consume au now n delta st = (case st of (a, s) \<Rightarrow>
     if delta < 0 then (Inl ValueError, st)
     else if delta = 0 then (Inr (), st)
     else case require_active n a of
       Inl e \<Rightarrow> (Inl e, st)
     | Inr cur \<Rightarrow> if c_remaining cur < delta then (Inl ValueError, st)
         else (case c_shared cur of
             None \<Rightarrow> (Inr (), put_claim n (cur\<lparr>c_consumed := c_consumed cur + delta\<rparr>) a, s)
           | Some x \<Rightarrow> if \<not> a_attached a then (Inl RuntimeError, st)
               else (case au_consume au now (reservation_id x) delta s of
                   (Inl e, s') \<Rightarrow> (Inl e, a, s')
                 | (Inr x', s') \<Rightarrow> (Inr (), put_claim n (cur\<lparr>c_shared := Some x', c_consumed := c_consumed cur + delta\<rparr>) a, s'))))"

text \<open>The end of \<open>complete\<close> and \<open>cancel\<close>: what the claim consumed is spent, and it is closed.\<close>

definition close_claim :: "nat \<Rightarrow> claim \<Rightarrow> string \<Rightarrow> account \<Rightarrow> account" where
  "close_claim n x st a = (put_claim n (x\<lparr>c_status := st\<rparr>) a)\<lparr>a_spent := a_spent a + c_consumed x,
     a_claims := AList.delete (c_id x) (a_claims a)\<rparr>"

definition acc_complete :: "'s authority \<Rightarrow> time \<Rightarrow> nat \<Rightarrow> account \<times> 's \<Rightarrow> unit result \<times> account \<times> 's" where
  "acc_complete au now n st = (case st of (a, s) \<Rightarrow> (case require_owned n a of
       Inl e \<Rightarrow> (Inl e, st)
     | Inr _ \<Rightarrow> if c_status (a_heap a ! n) = ''completed'' then (Inr (), st)
         else (case require_active n a of
             Inl e \<Rightarrow> (Inl e, st)
           | Inr cur \<Rightarrow> (case c_shared cur of
                 None \<Rightarrow> (Inr (), close_claim n cur ''completed'' a, s)
               | Some x \<Rightarrow> if \<not> a_attached a then (Inl RuntimeError, st)
                   else (case au_complete au now (reservation_id x) (c_consumed cur) s of
                       (Inl e, s') \<Rightarrow> (Inl e, a, s')
                     | (Inr x', s') \<Rightarrow> (Inr (), close_claim n (cur\<lparr>c_shared := Some x'\<rparr>) ''completed'' a, s'))))))"

definition acc_cancel :: "'s authority \<Rightarrow> time \<Rightarrow> nat \<Rightarrow> account \<times> 's \<Rightarrow> bool result \<times> account \<times> 's" where
  "acc_cancel au now n st = (case st of (a, s) \<Rightarrow> (case require_owned n a of
       Inl e \<Rightarrow> (Inl e, st)
     | Inr _ \<Rightarrow> if \<not> c_active (a_heap a ! n) then (Inr False, st)
         else (case require_active n a of
             Inl e \<Rightarrow> (Inl e, st)
           | Inr cur \<Rightarrow> (case c_shared cur of
                 None \<Rightarrow> (Inr True, close_claim n cur ''cancelled'' a, s)
               | Some x \<Rightarrow> if \<not> a_attached a then (Inl RuntimeError, st)
                   else (case au_cancel au now (reservation_id x) s of
                       (Inl e, s') \<Rightarrow> (Inl e, a, s')
                     | (Inr _, s') \<Rightarrow> (Inr True, close_claim n cur ''cancelled'' a, s'))))))"

fun cancel_claims :: "'s authority \<Rightarrow> clock \<Rightarrow> nat \<Rightarrow> nat list \<Rightarrow> account \<times> 's \<Rightarrow> unit result \<times> account \<times> 's" where
  "cancel_claims au c k [] st = (Inr (), st)"
| "cancel_claims au c k (n # ns) st = (if c_active (a_heap (fst st) ! n)
     then (case acc_cancel au (c k) n st of (Inl e, st') \<Rightarrow> (Inl e, st') | (Inr _, st') \<Rightarrow> cancel_claims au c (Suc k) ns st')
     else cancel_claims au c k ns st)"

definition cancel_all :: "'s authority \<Rightarrow> clock \<Rightarrow> account \<times> 's \<Rightarrow> unit result \<times> account \<times> 's" where
  "cancel_all au c st = cancel_claims au c 0 (map snd (a_claims (fst st))) st"

end
