(* ===== verification/Delegation_Properties.thy ===== *)
theory Delegation_Properties
  imports Budget_Settlement Budget_Account
begin

text \<open>
  Properties of budget delegation: the settlement journal never loses an unfinished debt and
  never reopens a finished one, and what an account keeps, and does not keep, within its limit.
\<close>

section \<open>The settlement journal\<close>

datatype settlement_op =
    SPrepare settlement
  | SSettled string dict
  | SReserved string
  | SReady string dict
  | SRetry string string string dict
  | SReclaimed string string string dict

fun settlement_call :: "string \<Rightarrow> clock \<Rightarrow> settlement_op \<Rightarrow> settlement_db \<Rightarrow> settlement result \<times> settlement_db" where
  "settlement_call ns c (SPrepare x) db = settlement_prepare ns (c 0) x db"
| "settlement_call ns c (SSettled i usage) db = mark_settled ns c i usage db"
| "settlement_call ns c (SReserved i) db = mark_reserved ns c i db"
| "settlement_call ns c (SReady i usage) db = mark_ready ns c i usage db"
| "settlement_call ns c (SRetry i cls msg usage) db = mark_retry ns c i cls msg usage db"
| "settlement_call ns c (SReclaimed i cls msg usage) db = mark_reclaimed ns c i cls msg usage db"

fun settlement_run :: "string \<Rightarrow> (clock \<times> settlement_op) list \<Rightarrow> settlement_db \<Rightarrow> settlement_db" where
  "settlement_run ns [] db = db"
| "settlement_run ns ((c, op) # ops) db = settlement_run ns ops (snd (settlement_call ns c op db))"

text \<open>Records come from the constructor; clocks show positive times.\<close>

fun settlement_op_ok :: "clock \<times> settlement_op \<Rightarrow> bool" where
  "settlement_op_ok (c, SPrepare x) \<longleftrightarrow> settlement_wf x"
| "settlement_op_ok (c, _) \<longleftrightarrow> 0 < c 1 \<and> 0 < c 2"

definition settlement_row_of :: "string \<Rightarrow> settlement \<Rightarrow> settlement_row" where
  "settlement_row_of ns x = \<lparr>sr_namespace = ns, sr_id = s_id x, sr_status = s_status x, sr_payload = settlement_as_dict x,
     sr_updated = s_updated x\<rparr>"

lemma row_of_fields [simp]:
  "sr_namespace (settlement_row_of ns x) = ns" "sr_id (settlement_row_of ns x) = s_id x"
  "sr_status (settlement_row_of ns x) = s_status x" "sr_payload (settlement_row_of ns x) = settlement_as_dict x"
  "sr_updated (settlement_row_of ns x) = s_updated x"
  by (simp_all add: settlement_row_of_def)

definition settlement_key :: "settlement_row \<Rightarrow> string \<times> string" where
  "settlement_key r = (sr_namespace r, sr_id r)"

definition settlement_good :: "string \<Rightarrow> settlement_db \<Rightarrow> bool" where
  "settlement_good ns db \<longleftrightarrow> distinct (map settlement_key db)
     \<and> (\<forall>r\<in>set db. sr_namespace r = ns \<longrightarrow> (\<exists>x. settlement_wf x \<and> r = settlement_row_of ns x))"

definition settlement_holds :: "string \<Rightarrow> settlement_db \<Rightarrow> settlement \<Rightarrow> bool" where
  "settlement_holds ns db x \<longleftrightarrow> settlement_wf x \<and> settlement_row_of ns x \<in> set db"

definition settlement_terminal :: "settlement \<Rightarrow> bool" where
  "settlement_terminal x \<longleftrightarrow> s_status x \<in> {''settled'', ''reclaimed''}"

definition settlement_moves :: "settlement \<Rightarrow> settlement \<Rightarrow> bool" where
  "settlement_moves a b \<longleftrightarrow> s_id b = s_id a \<and> s_run b = s_run a \<and> s_parent b = s_parent a \<and> s_child b = s_child a
     \<and> s_budget b = s_budget a \<and> s_reservation b = s_reservation a \<and> s_authority b = s_authority a
     \<and> s_handle b = s_handle a \<and> s_amount b = s_amount a \<and> s_created b = s_created a \<and> s_attempts a \<le> s_attempts b
     \<and> (settlement_terminal a \<longrightarrow> b = a)"

definition settlement_evolves :: "string \<Rightarrow> settlement_db \<Rightarrow> settlement_db \<Rightarrow> bool" where
  "settlement_evolves ns db db' \<longleftrightarrow> (\<forall>a. settlement_holds ns db a \<longrightarrow> (\<exists>b. settlement_holds ns db' b \<and> settlement_moves a b))"

lemma moves_refl [simp]: "settlement_moves a a"
  by (simp add: settlement_moves_def)

lemma moves_trans: "settlement_moves a b \<Longrightarrow> settlement_moves b d \<Longrightarrow> settlement_moves a d"
  by (auto simp: settlement_moves_def)

lemma debts_evolve_refl: "settlement_evolves ns db db"
  by (auto simp: settlement_evolves_def)

lemma debts_evolve_trans: "settlement_evolves ns x y \<Longrightarrow> settlement_evolves ns y z \<Longrightarrow> settlement_evolves ns x z"
  unfolding settlement_evolves_def by (meson moves_trans)

lemma row_of_inj:
  assumes "settlement_wf x" "settlement_wf y" "settlement_row_of ns x = settlement_row_of ns y"
  shows "x = y"
proof -
  have "settlement_as_dict x = settlement_as_dict y" using assms(3) unfolding settlement_row_of_def by simp
  then have "(Inr x :: settlement result) = Inr y"
    using settlement_round_trip[OF assms(1), of 0] settlement_round_trip[OF assms(2), of 0] by (simp only:)
  then show ?thesis by simp
qed

lemma select_row:
  assumes "settlement_good ns db" "settlement_select ns i db = Some r"
  obtains x where "settlement_holds ns db x" "r = settlement_row_of ns x" "s_id x = i"
proof -
  have r: "r \<in> set db" "sr_namespace r = ns" "sr_id r = i"
    using assms(2) by (auto simp: settlement_select_def find_Some_iff)
  then obtain x where x: "settlement_wf x" "r = settlement_row_of ns x" using assms(1) unfolding settlement_good_def by blast
  then show thesis using r that[of x] by (simp add: settlement_holds_def settlement_row_of_def)
qed

lemma holds_unique:
  assumes "settlement_good ns db" "settlement_holds ns db x" "settlement_holds ns db y" "s_id x = s_id y"
  shows "x = y"
proof -
  have "inj_on settlement_key (set db)" using assms(1) by (simp add: settlement_good_def distinct_map)
  then have "settlement_row_of ns x = settlement_row_of ns y"
    by (rule inj_onD) (use assms in \<open>auto simp: settlement_holds_def settlement_key_def settlement_row_of_def\<close>)
  then show ?thesis using assms(2,3) row_of_inj by (auto simp: settlement_holds_def)
qed

text \<open>An upsert replaces the record of its id, if there is one, and keeps the others.\<close>

lemma upsert_eq: "settlement_upsert ns x db =
    (if (ns, s_id x) \<in> settlement_key ` set db
     then map (\<lambda>r. if settlement_key r = (ns, s_id x) then settlement_row_of ns x else r) db
     else db @ [settlement_row_of ns x])"
  by (auto simp: settlement_upsert_def Let_def settlement_row_of_def settlement_key_def list_ex_iff intro!: rev_image_eqI)

lemma upsert_set: "set (settlement_upsert ns x db) =
    insert (settlement_row_of ns x) {r \<in> set db. settlement_key r \<noteq> (ns, s_id x)}"
  by (auto simp: upsert_eq settlement_row_of_def settlement_key_def split: if_splits)

lemma upsert_keys: "map settlement_key (settlement_upsert ns x db) = sadd (ns, s_id x) (map settlement_key db)"
  by (auto simp: upsert_eq sadd_def settlement_row_of_def settlement_key_def)

lemma make_settlement_fields:
  assumes "make_settlement now x = Inr y"
  shows "s_id y = py_strip (s_id x)" "s_run y = py_strip (s_run x)" "s_parent y = py_strip (s_parent x)"
    "s_child y = py_strip (s_child x)" "s_budget y = py_strip (s_budget x)" "s_reservation y = py_strip (s_reservation x)"
    "plain_wire (s_authority x) = Inr (s_authority y)" "plain_wire (s_handle x) = Inr (s_handle y)" "s_amount y = s_amount x"
    "s_attempts y = max 0 (s_attempts x)" "s_created x \<noteq> 0 \<Longrightarrow> s_created y = s_created x"
  using assms by (auto simp: make_settlement_def Let_def rbind_Inr)

lemma transition_moves:
  assumes "settlement_wf a" "\<not> settlement_terminal a" "0 \<le> k"
    "make_settlement now (a\<lparr>s_status := st, s_usage := u, s_attempts := s_attempts a + k, s_error := e, s_updated := t\<rparr>) = Inr b"
  shows "settlement_moves a b"
  using make_settlement_fields[OF assms(4)] assms(1-3)
  by (simp add: settlement_wf_iff settlement_plain_def settlement_moves_def)

lemma transition_cases:
  assumes "settlement_good ns db" "0 < c 2"
  obtains "snd (settlement_transition ns c i st usage err inc db) = db"
  | a b where "settlement_holds ns db a" "settlement_wf b" "settlement_moves a b"
      "snd (settlement_transition ns c i st usage err inc db) = settlement_upsert ns b db"
proof (cases "settlement_select ns i db")
  case (Some r)
  then obtain a where a: "settlement_holds ns db a" "r = settlement_row_of ns a" using select_row[OF assms(1)] by blast
  then have w: "settlement_wf a" by (simp add: settlement_holds_def)
  then have g: "settlement_from_dict (c 0) (sr_payload r) = Inr a"
    using settlement_round_trip[OF w] a(2) by (simp add: settlement_row_of_def)
  show thesis
  proof (cases "settlement_terminal a")
    case False
    let ?x = "a\<lparr>s_status := st, s_usage := if usage = [] then s_usage a else usage,
      s_attempts := s_attempts a + (if inc then 1 else 0), s_error := err, s_updated := c 1\<rparr>"
    show thesis
    proof (cases "make_settlement (c 2) ?x")
      case (Inl e)
      then have "snd (settlement_transition ns c i st usage err inc db) = db"
        using False g Some by (simp add: settlement_transition_def settlement_terminal_def transition_dict settlement_from_as_dict)
      then show thesis by (rule that(1))
    next
      case (Inr b)
      have "snd (settlement_transition ns c i st usage err inc db) = settlement_upsert ns b db"
        using False g Some Inr
        by (simp add: settlement_transition_def settlement_terminal_def transition_dict settlement_from_as_dict)
      moreover have "settlement_moves a b" by (rule transition_moves[OF w False _ Inr]) simp
      moreover have "settlement_wf b" using make_settlement_wf[OF Inr] assms(2) by simp
      ultimately show thesis using that(2) a(1) by blast
    qed
  next
    case True
    then have "snd (settlement_transition ns c i st usage err inc db) = db"
      using g Some by (simp add: settlement_transition_def settlement_terminal_def)
    then show thesis by (rule that(1))
  qed
next
  case None
  then have "snd (settlement_transition ns c i st usage err inc db) = db" by (simp add: settlement_transition_def)
  then show thesis by (rule that(1))
qed

lemma upsert_good: "settlement_good ns db \<Longrightarrow> settlement_wf b \<Longrightarrow> settlement_good ns (settlement_upsert ns b db)"
  by (auto simp: settlement_good_def upsert_keys upsert_set)

lemma upsert_evolves:
  assumes "settlement_good ns db" "settlement_wf b" "\<And>a. settlement_holds ns db a \<Longrightarrow> s_id a = s_id b \<Longrightarrow> settlement_moves a b"
  shows "settlement_evolves ns db (settlement_upsert ns b db)"
  unfolding settlement_evolves_def
proof (intro allI impI)
  fix a assume a: "settlement_holds ns db a"
  show "\<exists>d. settlement_holds ns (settlement_upsert ns b db) d \<and> settlement_moves a d"
  proof (cases "s_id a = s_id b")
    case True
    then show ?thesis using assms(2) assms(3)[OF a] by (auto simp: settlement_holds_def upsert_set)
  next
    case False
    then show ?thesis using a by (auto simp: settlement_holds_def upsert_set settlement_key_def settlement_row_of_def)
  qed
qed

lemma settlement_step:
  assumes "settlement_good ns db" "settlement_op_ok (c, op)"
  shows "settlement_good ns (snd (settlement_call ns c op db)) \<and> settlement_evolves ns db (snd (settlement_call ns c op db))"
proof -
  have T: "settlement_good ns (snd (settlement_transition ns c i st usage err inc db))
      \<and> settlement_evolves ns db (snd (settlement_transition ns c i st usage err inc db))" if "0 < c 2" for i st usage err inc
  proof (rule transition_cases[where c = c, OF assms(1) that])
    fix a b assume h: "settlement_holds ns db a" "settlement_wf b" "settlement_moves a b"
      "snd (settlement_transition ns c i st usage err inc db) = settlement_upsert ns b db"
    have "settlement_evolves ns db (settlement_upsert ns b db)"
    proof (rule upsert_evolves[OF assms(1) h(2)])
      fix a' assume "settlement_holds ns db a'" "s_id a' = s_id b"
      then have "a' = a" using holds_unique[OF assms(1) _ h(1)] h(3) by (simp add: settlement_moves_def)
      then show "settlement_moves a' b" using h(3) by simp
    qed
    then show ?thesis using h(4) upsert_good[OF assms(1) h(2)] by simp
  qed (simp add: assms(1) debts_evolve_refl)
  show ?thesis
  proof (cases op)
    case (SPrepare x)
    then have w: "settlement_wf x" using assms(2) by simp
    show ?thesis
    proof (cases "settlement_select ns (s_id x) db")
      case None
      then have "\<not> settlement_holds ns db a" if "s_id a = s_id x" for a
        using that unfolding settlement_select_def find_None_iff settlement_holds_def
        by (metis row_of_fields(1,2))
      then show ?thesis using None upsert_good[OF assms(1) w] upsert_evolves[OF assms(1) w]
        by (auto simp: SPrepare settlement_prepare_def)
    qed (simp add: SPrepare settlement_prepare_def assms(1) debts_evolve_refl)
  qed (use T assms(2) in \<open>simp_all add: mark_settled_def mark_reserved_def mark_ready_def mark_retry_def mark_reclaimed_def\<close>)
qed

lemma settlement_run_ok:
  assumes "settlement_good ns db" "list_all settlement_op_ok ops"
  shows "settlement_good ns (settlement_run ns ops db) \<and> settlement_evolves ns db (settlement_run ns ops db)"
  using assms
proof (induction ops arbitrary: db)
  case (Cons step ops)
  obtain c op where step: "step = (c, op)" by force
  note S = settlement_step[OF Cons.prems(1), of c op]
  show ?case using Cons.IH[of "snd (settlement_call ns c op db)"] Cons.prems(2) S debts_evolve_trans by (auto simp: step)
qed (simp add: debts_evolve_refl)

lemma parse_rows_ok: "list_all settlement_wf xs \<Longrightarrow> parse_rows now (map (settlement_row_of ns) xs) = Inr xs"
  by (induction xs) (simp_all add: settlement_row_of_def settlement_round_trip)

lemma good_rows:
  assumes "settlement_good ns db"
  shows "\<exists>xs. list_all settlement_wf xs \<and> filter (\<lambda>r. sr_namespace r = ns) db = map (settlement_row_of ns) xs"
proof -
  have "\<forall>r\<in>set db. sr_namespace r = ns \<longrightarrow> (\<exists>x. settlement_wf x \<and> r = settlement_row_of ns x)"
    using assms by (simp add: settlement_good_def)
  then show ?thesis
  proof (induction db)
    case (Cons r db)
    then obtain xs where xs: "list_all settlement_wf xs" "filter (\<lambda>r. sr_namespace r = ns) db = map (settlement_row_of ns) xs"
      by auto
    show ?case
    proof (cases "sr_namespace r = ns")
      case True
      then obtain x where "settlement_wf x" "r = settlement_row_of ns x" using Cons.prems by auto
      then show ?thesis using xs True by (intro exI[of _ "x # xs"]) simp
    qed (use xs in auto)
  qed simp
qed

lemma sort_key_map: "sort_key f (map g xs) = map g (sort_key (f \<circ> g) xs)"
proof -
  have "insort_key f (g x) (map g ys) = map g (insort_key (f \<circ> g) x ys)" for x ys
    by (induction ys) simp_all
  then show ?thesis by (induction xs) simp_all
qed

lemma pending_exact:
  assumes "settlement_good ns db"
  obtains xs where "settlement_pending ns now run db = Inr xs"
    "set xs = {x. settlement_holds ns db x \<and> \<not> settlement_terminal x \<and> (run = [] \<or> s_run x = run)}"
proof -
  obtain ys where ys: "list_all settlement_wf ys" "filter (\<lambda>r. sr_namespace r = ns) db = map (settlement_row_of ns) ys"
    using good_rows[OF assms] by blast
  let ?P = "\<lambda>r. sr_status r \<notin> {''settled'', ''reclaimed''}"
  let ?zs = "sort_key s_updated (filter (\<lambda>x. \<not> settlement_terminal x) ys)"
  have m: "sort_key sr_updated (map (settlement_row_of ns) zs) = map (settlement_row_of ns) (sort_key s_updated zs)" for zs
    by (simp add: sort_key_map comp_def settlement_row_of_def)
  have "filter (\<lambda>r. sr_namespace r = ns \<and> ?P r) db = filter ?P (map (settlement_row_of ns) ys)"
    unfolding ys(2)[symmetric] by (simp add: conj_commute)
  also have "\<dots> = map (settlement_row_of ns) (filter (\<lambda>x. \<not> settlement_terminal x) ys)"
    by (simp add: filter_map comp_def settlement_row_of_def settlement_terminal_def)
  finally have "settlement_pending ns now run db = Inr (filter (\<lambda>x. run = [] \<or> s_run x = run) ?zs)"
    using ys(1) parse_rows_ok[of ?zs now ns] unfolding settlement_pending_def by (simp add: m list_all_iff)
  moreover have "settlement_holds ns db x \<longleftrightarrow> x \<in> set ys" for x
  proof -
    have "settlement_row_of ns x \<in> set db \<longleftrightarrow> settlement_row_of ns x \<in> set (filter (\<lambda>r. sr_namespace r = ns) db)"
      by (simp add: settlement_row_of_def)
    then have "settlement_row_of ns x \<in> set db \<longleftrightarrow> settlement_row_of ns x \<in> settlement_row_of ns ` set ys"
      unfolding ys(2) by simp
    then show ?thesis unfolding settlement_holds_def using ys(1) row_of_inj
      by (auto simp only: list_all_iff image_iff)
  qed
  ultimately show thesis by (intro that[of "filter (\<lambda>x. run = [] \<or> s_run x = run) ?zs"]) auto
qed

text \<open>
  C39. No delegated debt is lost or reopened. Over any sequence of calls on the journal a record
  stays, with the ids, the reservation, the handle and the amount it was prepared with, its
  attempts never decrease, and once settled or reclaimed it never changes again; at any time
  \<open>pending\<close> returns exactly the records that are neither settled nor reclaimed.
\<close>

theorem settlement_debts_kept:
  assumes "settlement_good ns db" "list_all settlement_op_ok ops"
  shows "(settlement_evolves ns db (settlement_run ns ops db)) \<and>
    (\<exists>xs. settlement_pending ns now run (settlement_run ns ops db) = Inr xs
      \<and> set xs = {x. settlement_holds ns (settlement_run ns ops db) x \<and> \<not> settlement_terminal x \<and> (run = [] \<or> s_run x = run)})"
proof (intro conjI)
  have g: "settlement_good ns (settlement_run ns ops db)" using settlement_run_ok[OF assms] by blast
  show "settlement_evolves ns db (settlement_run ns ops db)" using settlement_run_ok[OF assms] by blast
  show "\<exists>xs. settlement_pending ns now run (settlement_run ns ops db) = Inr xs
      \<and> set xs = {x. settlement_holds ns (settlement_run ns ops db) x \<and> \<not> settlement_terminal x \<and> (run = [] \<or> s_run x = run)}"
    by (rule pending_exact[OF g, of now run]) blast
qed

definition ex_debt :: settlement where
  "ex_debt = \<lparr>s_id = ''s1'', s_run = ''p1'', s_parent = ''c1'', s_child = ''c2'', s_budget = ''evaluations'', s_reservation = ''r1'',
     s_authority = [(''lease'', PMap [(''fencing_token'', PInt 3)])], s_handle = [(''limit'', PInt 5)], s_amount = 5,
     s_status = ''reserve_intent'', s_usage = [], s_attempts = 0, s_error = [], s_created = 1, s_updated = 1\<rparr>"

definition ex_debt_ops :: "(clock \<times> settlement_op) list" where
  "ex_debt_ops = [(\<lambda>_. 1, SPrepare ex_debt), (\<lambda>_. 2, SReserved ''s1''), (\<lambda>_. 3, SReady ''s1'' [(''used'', PInt 4)]),
     (\<lambda>_. 4, SRetry ''s1'' ''TimeoutError'' ''late'' [])]"

lemma ex_debt_ok: "settlement_good ''ns'' []" "list_all settlement_op_ok ex_debt_ops"
proof -
  have "settlement_plain ex_debt" by code_simp
  then show "list_all settlement_op_ok ex_debt_ops" by (simp add: ex_debt_ops_def settlement_wf_iff)
qed (simp add: settlement_good_def)

theorem settlement_debts_kept_witness:
  "settlement_evolves ''ns'' [] (settlement_run ''ns'' ex_debt_ops [])
    \<and> (\<exists>xs. settlement_pending ''ns'' 5 ''p1'' (settlement_run ''ns'' ex_debt_ops []) = Inr xs
      \<and> set xs = {x. settlement_holds ''ns'' (settlement_run ''ns'' ex_debt_ops []) x \<and> \<not> settlement_terminal x
          \<and> (''p1'' = [] \<or> s_run x = ''p1'')})
    \<and> (case settlement_retryable ''ns'' 5 ''p1'' (settlement_run ''ns'' ex_debt_ops []) of Inl e \<Rightarrow> False
      | Inr xs \<Rightarrow> map (\<lambda>x. (s_id x, s_status x, s_attempts x)) xs = [(''s1'', ''retry_required'', 2)])"
proof -
  have "case settlement_retryable ''ns'' 5 ''p1'' (settlement_run ''ns'' ex_debt_ops []) of Inl e \<Rightarrow> False
    | Inr xs \<Rightarrow> map (\<lambda>x. (s_id x, s_status x, s_attempts x)) xs = [(''s1'', ''retry_required'', 2)]"
    by code_simp
  then show ?thesis using settlement_debts_kept[OF ex_debt_ok, of 5 "''p1''"] by blast
qed

section \<open>The account\<close>

datatype account_op =
    AAllowance int "int option"
  | AReserve string string int string
  | AConsume nat int
  | AComplete nat
  | ACancel nat
  | ACancelAll clock

fun account_call :: "'s authority \<Rightarrow> time \<Rightarrow> account_op \<Rightarrow> account \<times> 's \<Rightarrow> account \<times> 's" where
  "account_call au now (AAllowance n l) st = snd (acc_allowance au now n l st)"
| "account_call au now (AReserve uuid fresh n rid) st = snd (acc_reserve au now uuid fresh n rid st)"
| "account_call au now (AConsume n d) st = snd (acc_consume au now n d st)"
| "account_call au now (AComplete n) st = snd (acc_complete au now n st)"
| "account_call au now (ACancel n) st = snd (acc_cancel au now n st)"
| "account_call au now (ACancelAll c) st = snd (cancel_all au c st)"

definition per_claim :: "(claim \<Rightarrow> int) \<Rightarrow> account \<Rightarrow> int" where
  "per_claim f a = sum_list (map (\<lambda>(i, n). f (a_heap a ! n)) (a_claims a))"

text \<open>What the account has handed out: the units spent by closed claims and those of open ones.\<close>

definition handed_out :: "account \<Rightarrow> int" where
  "handed_out a = a_spent a + per_claim c_amount a"

definition claim_ok :: "claim \<Rightarrow> bool" where
  "claim_ok x \<longleftrightarrow> c_active x \<and> 0 \<le> c_consumed x \<and> c_consumed x \<le> c_amount x"

definition account_inv :: "account \<Rightarrow> bool" where
  "account_inv a \<longleftrightarrow> distinct (map fst (a_claims a)) \<and> distinct (map snd (a_claims a)) \<and> 0 \<le> a_spent a
     \<and> (\<forall>(i, n)\<in>set (a_claims a). n < length (a_heap a) \<and> claim_ok (a_heap a ! n))"

definition within_limit :: "account \<Rightarrow> bool" where
  "within_limit a \<longleftrightarrow> (case a_limit a of None \<Rightarrow> True | Some m \<Rightarrow> handed_out a \<le> m)"

lemma inv_active:
  assumes "account_inv a"
  shows "acc_active a = map (\<lambda>(i, n). a_heap a ! n) (a_claims a)"
  using assms unfolding acc_active_def account_inv_def by (intro filter_True) (auto simp: claim_ok_def)

lemma active_reserved_eq:
  assumes "account_inv a"
  shows "active_reserved a = per_claim c_amount a - per_claim c_consumed a"
proof -
  have "map (c_remaining \<circ> (\<lambda>(i, n). a_heap a ! n)) (a_claims a)
      = map (\<lambda>(i, n). c_amount (a_heap a ! n) - c_consumed (a_heap a ! n)) (a_claims a)"
    using assms by (intro map_cong) (auto simp: account_inv_def claim_ok_def c_remaining_def)
  moreover have "sum_list (map (\<lambda>(i, n). f n - g n) xs) = sum_list (map (\<lambda>(i, n). f n) xs) - sum_list (map (\<lambda>(i, n). g n) xs)"
    for f g :: "nat \<Rightarrow> int" and xs :: "(string \<times> nat) list"
    by (induction xs) auto
  ultimately show ?thesis
    unfolding active_reserved_def inv_active[OF assms] per_claim_def map_map by (simp only:)
qed

lemma per_claim_nonneg: "account_inv a \<Longrightarrow> 0 \<le> per_claim c_consumed a"
  unfolding per_claim_def account_inv_def by (intro sum_list_nonneg) (auto simp: claim_ok_def)

text \<open>The changes an operation can make: the small ones, and a new claim.\<close>

inductive account_step :: "account \<Rightarrow> account \<Rightarrow> bool" where
  as_zero: "account_step a (a\<lparr>a_heap := a_heap a @ [x]\<rparr>)"
| as_spend: "require_active n a = Inr cur \<Longrightarrow> 0 < d \<Longrightarrow> d \<le> c_remaining cur
    \<Longrightarrow> account_step a (put_claim n (cur\<lparr>c_shared := sh, c_consumed := c_consumed cur + d\<rparr>) a)"
| as_close: "require_active n a = Inr cur \<Longrightarrow> account_step a (close_claim n (cur\<lparr>c_shared := sh\<rparr>) st a)"

definition account_grant :: "account \<Rightarrow> account \<Rightarrow> bool" where
  "account_grant a b \<longleftrightarrow> (\<exists>i x. map_of (a_claims a) i = None \<and> claim_ok x \<and> c_consumed x = 0
     \<and> (case remaining_limit a of None \<Rightarrow> True | Some m \<Rightarrow> c_amount x \<le> m)
     \<and> b = a\<lparr>a_heap := a_heap a @ [x], a_claims := AList.update i (length (a_heap a)) (a_claims a)\<rparr>)"

lemma require_activeD:
  assumes "require_active n a = Inr cur"
  shows "map_of (a_claims a) (c_id cur) = Some n" "cur = a_heap a ! n" "c_active cur" "n < length (a_heap a)"
  using assms by (auto simp: require_active_def require_owned_def rbind_Inr split: if_splits)

lemma per_claim_put:
  assumes "f x = f (a_heap a ! n)" "n < length (a_heap a)"
  shows "per_claim f (put_claim n x a) = per_claim f a"
proof -
  have "f ((a_heap a)[n := x] ! k) = f (a_heap a ! k)" for k
    using assms by (cases "k = n") simp_all
  then show ?thesis by (simp add: per_claim_def put_claim_def)
qed

lemma per_claim_delete:
  assumes "distinct (map fst (a_claims a))" "map_of (a_claims a) i = Some n"
  shows "per_claim f (a\<lparr>a_claims := AList.delete i (a_claims a)\<rparr>) = per_claim f a - f (a_heap a ! n)"
proof -
  have "sum_list (map (\<lambda>(i, n). f (a_heap a ! n)) (AList.delete i d)) = sum_list (map (\<lambda>(i, n). f (a_heap a ! n)) d) - f (a_heap a ! n)"
    if "distinct (map fst d)" "map_of d i = Some n" for d
    using that
  proof (induction d)
    case (Cons e d)
    show ?case
    proof (cases "fst e = i")
      case True
      then have "AList.delete i d = d" using Cons.prems(1) by (intro delete_id) (metis distinct.simps(2) list.simps(9) list.set_map)
      then show ?thesis using True Cons.prems(2) by (cases e) simp
    qed (use Cons in \<open>cases e, auto\<close>)
  qed simp
  from this[OF assms] show ?thesis by (simp add: per_claim_def)
qed

lemma per_claim_new:
  assumes "map_of (a_claims a) i = None" "account_inv a"
  shows "per_claim f (a\<lparr>a_heap := a_heap a @ [x], a_claims := AList.update i (length (a_heap a)) (a_claims a)\<rparr>) = per_claim f a + f x"
proof -
  have "AList.update i n d = d @ [(i, n)]" if "map_of d i = None" for n and d :: "(string \<times> nat) list"
    using that by (simp add: update_new map_of_eq_None_iff)
  moreover have "map (\<lambda>(i, n). f ((a_heap a @ [x]) ! n)) (a_claims a) = map (\<lambda>(i, n). f (a_heap a ! n)) (a_claims a)"
    using assms(2) by (intro map_cong) (auto simp: account_inv_def nth_append)
  then have "sum_list (map (\<lambda>(i, n). f ((a_heap a @ [x]) ! n)) (a_claims a)) = per_claim f a"
    unfolding per_claim_def by (simp only:)
  ultimately show ?thesis using assms(1) unfolding per_claim_def by (simp only: account.simps map_append sum_list_append) simp
qed

lemma account_step_limit: "account_step a b \<Longrightarrow> a_limit b = a_limit a"
  by (auto simp: put_claim_def close_claim_def elim!: account_step.cases)

lemma account_invD:
  assumes "account_inv a"
  shows "distinct (map fst (a_claims a))" "distinct (map snd (a_claims a))" "0 \<le> a_spent a"
    "(i, n) \<in> set (a_claims a) \<Longrightarrow> n < length (a_heap a) \<and> claim_ok (a_heap a ! n)"
  using assms by (auto simp: account_inv_def)

lemma active_ok:
  assumes "account_inv a" "require_active n a = Inr cur"
  shows "claim_ok cur"
  using account_invD(4)[OF assms(1) map_of_SomeD[OF require_activeD(1)[OF assms(2)]]] require_activeD(2)[OF assms(2)] by simp

lemma inv_spend:
  assumes "account_inv a" "require_active n a = Inr cur" "0 < d" "d \<le> c_remaining cur"
  shows "account_inv (put_claim n (cur\<lparr>c_shared := sh, c_consumed := c_consumed cur + d\<rparr>) a)"
proof -
  have "claim_ok (cur\<lparr>c_shared := sh, c_consumed := c_consumed cur + d\<rparr>)"
    using active_ok[OF assms(1,2)] assms(3,4) by (auto simp: claim_ok_def c_remaining_def c_active_def split: if_splits)
  then have "claim_ok ((a_heap a)[n := cur\<lparr>c_shared := sh, c_consumed := c_consumed cur + d\<rparr>] ! k)"
    if "(i, k) \<in> set (a_claims a)" for i k
    using account_invD(4)[OF assms(1) that] by (cases "k = n") simp_all
  then show ?thesis using assms(1) by (auto simp: account_inv_def put_claim_def)
qed

lemma inv_close:
  assumes "account_inv a" "require_active n a = Inr cur"
  shows "account_inv (close_claim n (cur\<lparr>c_shared := sh\<rparr>) st a)"
proof -
  note D = account_invD[OF assms(1)] and R = require_activeD[OF assms(2)]
  have other: "k \<noteq> n" if "(i, k) \<in> set (AList.delete (c_id cur) (a_claims a))" for i k
  proof
    assume k: "k = n"
    have i: "(i, k) \<in> set (a_claims a)" "i \<noteq> c_id cur" using that by (auto simp: AList.delete_eq)
    have "inj_on snd (set (a_claims a))" using D(2) by (simp add: distinct_map)
    then show False using inj_onD[of snd "set (a_claims a)" "(i, n)" "(c_id cur, n)"] i map_of_SomeD[OF R(1)] k by simp
  qed
  have "k < length (a_heap a) \<and> claim_ok ((a_heap a)[n := cur\<lparr>c_shared := sh, c_status := st\<rparr>] ! k)"
    if "(i, k) \<in> set (AList.delete (c_id cur) (a_claims a))" for i k
    using D(4)[of i k] other[OF that] that by (auto simp: AList.delete_eq)
  moreover have "distinct (map snd (AList.delete (c_id cur) (a_claims a)))"
    using D(2) unfolding AList.delete_eq by (rule distinct_map_filter)
  ultimately show ?thesis
    using D(1,3) active_ok[OF assms] by (auto simp: account_inv_def close_claim_def put_claim_def distinct_delete claim_ok_def)
qed

lemma inv_new:
  assumes "account_inv a" "map_of (a_claims a) i = None" "claim_ok x"
  shows "account_inv (a\<lparr>a_heap := a_heap a @ [x], a_claims := AList.update i (length (a_heap a)) (a_claims a)\<rparr>)"
proof -
  have "AList.update i n d = d @ [(i, n)]" if "map_of d i = None" for n and d :: "(string \<times> nat) list"
    using that by (simp add: update_new map_of_eq_None_iff)
  moreover have "k < length (a_heap a) \<and> claim_ok ((a_heap a @ [x]) ! k)" if "(j, k) \<in> set (a_claims a)" for j k
    using account_invD(4)[OF assms(1) that] by (simp add: nth_append)
  ultimately show ?thesis
    using account_invD(1-3)[OF assms(1)] assms(2,3) unfolding account_inv_def
    by (fastforce simp: map_of_eq_None_iff)
qed

lemma map_heap_append:
  assumes "account_inv a"
  shows "map (\<lambda>(i, n). f ((a_heap a @ [x]) ! n)) (a_claims a) = map (\<lambda>(i, n). f (a_heap a ! n)) (a_claims a)"
  using account_invD(4)[OF assms] by (intro map_cong) (auto simp: nth_append)

lemma account_step_inv: "account_step a b \<Longrightarrow> account_inv a \<Longrightarrow> account_inv b"
proof (induction rule: account_step.induct)
  case (as_zero a x)
  then have "k < length (a_heap a) \<and> claim_ok ((a_heap a @ [x]) ! k)" if "(j, k) \<in> set (a_claims a)" for j k
    using account_invD(4)[OF as_zero that] by (simp add: nth_append)
  then show ?case using as_zero by (fastforce simp: account_inv_def)
qed (simp_all add: inv_spend inv_close)

lemma account_grant_inv: "account_grant a b \<Longrightarrow> account_inv a \<Longrightarrow> account_inv b"
  by (auto simp: account_grant_def intro: inv_new)

text \<open>The small steps hand out nothing; a new claim stays within the limit when no open claim has consumed.\<close>

lemma handed_out_step: "account_step a b \<Longrightarrow> account_inv a \<Longrightarrow> handed_out b \<le> handed_out a"
proof (induction rule: account_step.induct)
  case (as_zero a x)
  have "per_claim c_amount (a\<lparr>a_heap := a_heap a @ [x]\<rparr>) = sum_list (map (\<lambda>(i, n). c_amount ((a_heap a @ [x]) ! n)) (a_claims a))"
    by (simp add: per_claim_def)
  also have "\<dots> = per_claim c_amount a" by (simp only: map_heap_append[OF as_zero] per_claim_def)
  finally show ?case by (simp add: handed_out_def)
next
  case (as_spend n a cur d sh)
  note R = require_activeD[OF as_spend(1)]
  show ?case
    using per_claim_put[of c_amount "cur\<lparr>c_shared := sh, c_consumed := c_consumed cur + d\<rparr>" a n] R(2,4)
    by (simp add: handed_out_def put_claim_def)
next
  case (as_close n a cur sh st)
  note R = require_activeD[OF as_close(1)]
  let ?a = "put_claim n (cur\<lparr>c_shared := sh, c_status := st\<rparr>) a"
  have "per_claim c_amount ?a = per_claim c_amount a" using R(2,4) by (intro per_claim_put) simp_all
  moreover have "per_claim c_amount (?a\<lparr>a_claims := AList.delete (c_id cur) (a_claims ?a)\<rparr>)
      = per_claim c_amount ?a - c_amount (a_heap ?a ! n)"
    using as_close(2) R(1) by (intro per_claim_delete) (simp_all add: put_claim_def account_inv_def)
  ultimately show ?case
    using active_ok[OF as_close(2,1)] R(4) by (simp add: handed_out_def close_claim_def put_claim_def per_claim_def claim_ok_def)
qed

lemma handed_out_grant:
  assumes "account_grant a b" "account_inv a" "within_limit a" "per_claim c_consumed a = 0"
  shows "within_limit b"
proof -
  obtain i x where x: "map_of (a_claims a) i = None" "case remaining_limit a of None \<Rightarrow> True | Some m \<Rightarrow> c_amount x \<le> m"
    "b = a\<lparr>a_heap := a_heap a @ [x], a_claims := AList.update i (length (a_heap a)) (a_claims a)\<rparr>"
    using assms(1) by (auto simp: account_grant_def)
  have "handed_out b = handed_out a + c_amount x"
    using per_claim_new[OF x(1) assms(2), of c_amount x] by (simp add: handed_out_def x(3))
  then show ?thesis
    using x(2) assms(3) active_reserved_eq[OF assms(2)] assms(4) unfolding x(3)
    by (auto simp: within_limit_def remaining_limit_def handed_out_def split: option.splits)
qed

section \<open>Operations of the account\<close>

lemma claim_post_init_ok:
  assumes "claim_post_init x = Inr y"
  shows "c_amount y = c_amount x" "c_consumed y = c_consumed x" "0 \<le> c_consumed y \<and> c_consumed y \<le> c_amount y"
    "c_status x = ''active'' \<Longrightarrow> c_active y"
  using assms by (auto simp: claim_post_init_def Let_def rbind_Inr c_active_def)

abbreviation quiet :: "account \<Rightarrow> account \<Rightarrow> bool" where
  "quiet \<equiv> account_step\<^sup>*\<^sup>*"

lemma consume_effect: "quiet (fst st) (fst (snd (acc_consume au now n d st)))"
proof -
  obtain a s where st: "st = (a, s)" by (cases st)
  have spend: "quiet a (put_claim n (cur\<lparr>c_consumed := c_consumed cur + d\<rparr>) a)"
    if "require_active n a = Inr cur" "0 < d" "d \<le> c_remaining cur" "c_shared cur = None" for cur
    using as_spend[OF that(1-3), of None] that(4) by (cases cur) auto
  have shared: "quiet a (put_claim n (cur\<lparr>c_shared := Some x, c_consumed := c_consumed cur + d\<rparr>) a)"
    if "require_active n a = Inr cur" "0 < d" "d \<le> c_remaining cur" for cur x
    using as_spend[OF that] by (rule r_into_rtranclp)
  show ?thesis
    by (auto simp: st acc_consume_def not_less not_le intro!: shared spend split: sum.splits option.splits prod.splits)
qed

lemma close_effect: "require_active n a = Inr cur \<Longrightarrow> quiet a (close_claim n cur st a)"
  using as_close[of n a cur "c_shared cur" st] by (cases cur) auto

lemma complete_effect: "quiet (fst st) (fst (snd (acc_complete au now n st)))"
  by (cases st) (auto simp: acc_complete_def intro: as_close close_effect split: sum.splits option.splits prod.splits)

lemma cancel_effect: "quiet (fst st) (fst (snd (acc_cancel au now n st)))"
  by (cases st) (auto simp: acc_cancel_def intro: as_close close_effect split: sum.splits option.splits prod.splits)

lemma cancel_claims_effect: "quiet (fst st) (fst (snd (cancel_claims au c k ns st)))"
proof (induction ns arbitrary: k st)
  case (Cons n ns)
  obtain r st' where r: "acc_cancel au (c k) n st = (r, st')" by (cases "acc_cancel au (c k) n st")
  then have "quiet (fst st) (fst st')" using cancel_effect[of st au "c k" n] by simp
  then show ?case using Cons.IH[of st' "Suc k"] Cons.IH[of st k] r by (auto split: sum.splits)
qed simp

lemma allowance_effect: "fst (snd (acc_allowance au now n l st)) = fst st"
  by (cases st) (auto simp: acc_allowance_def Let_def split: sum.splits option.splits prod.splits)

lemma acc_new_grant:
  assumes "map_of (a_claims a) (c_id x) = None" "c_status x = ''active''" "c_consumed x = 0"
    "case remaining_limit a of None \<Rightarrow> True | Some m \<Rightarrow> c_amount x \<le> m"
  shows "snd (acc_new x True a) = a \<or> account_grant a (snd (acc_new x True a))"
proof (cases "claim_post_init x")
  case (Inr y)
  have "account_grant a (snd (acc_new x True a))"
    using claim_post_init_ok[OF Inr] assms unfolding account_grant_def
    by (intro exI[of _ "c_id x"] exI[of _ y]) (simp add: acc_new_def Inr claim_ok_def cong: option.case_cong)
  then show ?thesis ..
qed (simp add: acc_new_def)

lemma acc_claim_effect:
  assumes "case remaining_limit a of None \<Rightarrow> True | Some m \<Rightarrow> n \<le> m"
  shows "snd (acc_claim uuid n rid shared a) = a \<or> account_grant a (snd (acc_claim uuid n rid shared a))"
proof -
  let ?i = "case shared of Some x \<Rightarrow> reservation_id x | None \<Rightarrow> if rid = [] then ''budget-local-'' @ uuid else rid"
  show ?thesis
  proof (cases "map_of (a_claims a) ?i")
    case None
    let ?x = "\<lparr>c_id = ?i, c_budget = a_budget a, c_amount = n, c_account = a_id a, c_shared = shared, c_consumed = 0,
      c_status = ''active''\<rparr>"
    have "acc_claim uuid n rid shared a = acc_new ?x True a" unfolding acc_claim_def Let_def None by simp
    then show ?thesis using acc_new_grant[of a ?x] None assms by (simp only: claim.simps simp_thms)
  qed (simp add: acc_claim_def)
qed

lemma reserve_effect:
  "fst (snd (acc_reserve au now uuid fresh n rid st)) = fst st \<or> account_step (fst st) (fst (snd (acc_reserve au now uuid fresh n rid st)))
    \<or> account_grant (fst st) (fst (snd (acc_reserve au now uuid fresh n rid st)))"
proof -
  obtain a s where st: "st = (a, s)" by (cases st)
  have zero: "snd (acc_new x False a) = a \<or> account_step a (snd (acc_new x False a))" for x
    by (auto simp: acc_new_def as_zero split: sum.splits)
  show ?thesis
  proof (cases "n < 0 \<or> (case remaining_limit a of None \<Rightarrow> False | Some m \<Rightarrow> m < n)")
    case True
    then show ?thesis by (auto simp: st acc_reserve_def)
  next
    case False
    then have lim: "case remaining_limit a of None \<Rightarrow> True | Some m \<Rightarrow> n \<le> m" by (auto split: option.splits)
    have e: "acc_reserve au now uuid fresh n rid st = (if n = 0 then
       (case acc_new \<lparr>c_id = (if rid = [] then ''budget-zero-'' @ uuid else rid), c_budget = a_budget a, c_amount = 0,
           c_account = a_id a, c_shared = None, c_consumed = 0, c_status = ''completed''\<rparr> False a of (r, a') \<Rightarrow> (r, a', s))
     else if \<not> a_attached a then (case acc_claim uuid n rid None a of (r, a') \<Rightarrow> (r, a', s))
     else (case au_reserve au now (a_authority_budget a) n (a_lease_id a) (a_token a) fresh rid s of
         (Inl e, s') \<Rightarrow> (Inl e, a, s')
       | (Inr x, s') \<Rightarrow> (case acc_claim uuid n rid (Some x) a of (r, a') \<Rightarrow> (r, a', s'))))"
      using False by (simp add: acc_reserve_def st)
    obtain r s' where au: "au_reserve au now (a_authority_budget a) n (a_lease_id a) (a_token a) fresh rid s = (r, s')"
      by (cases "au_reserve au now (a_authority_budget a) n (a_lease_id a) (a_token a) fresh rid s")
    show ?thesis unfolding e
      using zero acc_claim_effect[OF lim] by (cases r) (simp_all add: st au case_prod_unfold, blast+)
  qed
qed

fun account_run :: "'s authority \<Rightarrow> (time \<times> account_op) list \<Rightarrow> account \<times> 's \<Rightarrow> account \<times> 's" where
  "account_run au [] st = st"
| "account_run au ((now, op) # ops) st = account_run au ops (account_call au now op st)"

text \<open>Whenever \<open>reserve\<close> is called, no open claim has consumed anything yet.\<close>

fun reserves_fresh :: "'s authority \<Rightarrow> (time \<times> account_op) list \<Rightarrow> account \<times> 's \<Rightarrow> bool" where
  "reserves_fresh au [] st \<longleftrightarrow> True"
| "reserves_fresh au ((now, op) # ops) st \<longleftrightarrow>
     (case op of AReserve _ _ _ _ \<Rightarrow> per_claim c_consumed (fst st) = 0 | _ \<Rightarrow> True)
     \<and> reserves_fresh au ops (account_call au now op st)"

lemma quiet_ok:
  assumes "quiet a b" "account_inv a"
  shows "account_inv b \<and> handed_out b \<le> handed_out a \<and> a_limit b = a_limit a"
  using assms
proof (induction rule: rtranclp_induct)
  case (step y z)
  then have y: "account_inv y" "handed_out y \<le> handed_out a" "a_limit y = a_limit a" by blast+
  show ?case
    using account_step_inv[OF step(2) y(1)] handed_out_step[OF step(2) y(1)] account_step_limit[OF step(2)] y(2,3) by simp
qed simp

lemma within_mono: "within_limit a \<Longrightarrow> handed_out b \<le> handed_out a \<Longrightarrow> a_limit b = a_limit a \<Longrightarrow> within_limit b"
  by (auto simp: within_limit_def split: option.splits)

lemma grant_limit: "account_grant a b \<Longrightarrow> a_limit b = a_limit a"
  by (auto simp: account_grant_def)

lemma call_effect_cases:
  "quiet (fst st) (fst (account_call au now op st))
    \<or> (\<exists>uuid fresh n rid. op = AReserve uuid fresh n rid) \<and> account_grant (fst st) (fst (account_call au now op st))"
proof (cases op)
  case (AReserve uuid fresh n rid)
  then show ?thesis using reserve_effect[of au now uuid fresh n rid st] by auto
qed (simp_all add: consume_effect complete_effect cancel_effect cancel_claims_effect cancel_all_def allowance_effect)

lemma account_call_ok:
  assumes "account_inv (fst st)" "within_limit (fst st)"
    "case op of AReserve _ _ _ _ \<Rightarrow> per_claim c_consumed (fst st) = 0 | _ \<Rightarrow> True"
  shows "account_inv (fst (account_call au now op st)) \<and> within_limit (fst (account_call au now op st))
    \<and> a_limit (fst (account_call au now op st)) = a_limit (fst st)"
  using call_effect_cases[of st au now op]
proof
  assume "quiet (fst st) (fst (account_call au now op st))"
  from quiet_ok[OF this assms(1)] show ?thesis using within_mono[OF assms(2)] by blast
next
  assume g: "(\<exists>uuid fresh n rid. op = AReserve uuid fresh n rid) \<and> account_grant (fst st) (fst (account_call au now op st))"
  then have "per_claim c_consumed (fst st) = 0" using assms(3) by auto
  then show ?thesis using g handed_out_grant[OF _ assms(1,2)] account_grant_inv[OF _ assms(1)] grant_limit by blast
qed

lemma account_run_ok:
  assumes "account_inv (fst st)" "within_limit (fst st)" "reserves_fresh au ops st"
  shows "account_inv (fst (account_run au ops st)) \<and> within_limit (fst (account_run au ops st))
    \<and> a_limit (fst (account_run au ops st)) = a_limit (fst st)"
  using assms
proof (induction ops arbitrary: st)
  case (Cons step ops)
  obtain now op where step: "step = (now, op)" by (cases step)
  note C = account_call_ok[OF Cons.prems(1,2), of op au now]
  show ?case using Cons.IH[of "account_call au now op st"] C Cons.prems(3) by (simp add: step)
qed simp

text \<open>
  C40. An account with a limit hands out at most the limit, spent units and open claims together,
  with or without a shared authority and whatever that authority answers, as long as no unit of
  an open claim is consumed before the next reservation is made.
\<close>

theorem account_within_limit:
  assumes "make_account uuid b attached ab lid token (Some m) hid = Inr a" "reserves_fresh au ops (a, s)"
  shows "a_spent (fst (account_run au ops (a, s))) + per_claim c_amount (fst (account_run au ops (a, s))) \<le> m
    \<and> 0 \<le> a_spent (fst (account_run au ops (a, s)))"
proof -
  have a: "a_limit a = Some m" "a_claims a = []" "a_spent a = 0" "0 \<le> m"
    using assms(1) by (auto simp: make_account_def Let_def rbind_Inr)
  then have "account_inv a" "within_limit a" by (simp_all add: account_inv_def within_limit_def handed_out_def per_claim_def)
  then have R: "account_inv (fst (account_run au ops (a, s)))" "within_limit (fst (account_run au ops (a, s)))"
    "a_limit (fst (account_run au ops (a, s))) = Some m"
    using account_run_ok[of "(a, s)" au ops] assms(2) a(1) by simp_all
  show ?thesis using R(2) account_invD(3)[OF R(1)] by (simp add: within_limit_def handed_out_def R(3))
qed

definition ex_account :: account where
  "ex_account = \<lparr>a_id = ''budget-account-1'', a_budget = ''evaluations'', a_authority_budget = ''evaluations'', a_attached = False,
     a_lease_id = [], a_token = 0, a_limit = Some 5, a_handle_id = [], a_spent = 0, a_claims = [], a_heap = []\<rparr>"

definition no_authority :: "unit authority" where
  "no_authority = \<lparr>au_configure = \<lambda>now b m s. (Inl RuntimeError, s), au_status = \<lambda>now b s. (Inl RuntimeError, s),
     au_get = \<lambda>now i s. (Inl RuntimeError, s), au_reserve = \<lambda>now b n l t fresh i s. (Inl RuntimeError, s),
     au_complete = \<lambda>now i n s. (Inl RuntimeError, s), au_consume = \<lambda>now i n s. (Inl RuntimeError, s),
     au_cancel = \<lambda>now i s. (Inl RuntimeError, s)\<rparr>"

lemma ex_account_made: "make_account ''1'' ''evaluations'' False [] [] 0 (Some 5) [] = Inr ex_account"
  by code_simp

definition ex_account_ops :: "(time \<times> account_op) list" where
  "ex_account_ops = [(1, AReserve ''a'' [] 2 []), (1, AReserve ''b'' [] 3 []), (2, AConsume 0 2), (3, AComplete 0), (3, AConsume 1 1),
     (4, ACancel 1), (5, AReserve ''c'' [] 2 [])]"

lemma ex_account_fresh: "reserves_fresh no_authority ex_account_ops (ex_account, ())"
  by code_simp

theorem account_within_limit_witness:
  "a_spent (fst (account_run no_authority ex_account_ops (ex_account, ())))
      + per_claim c_amount (fst (account_run no_authority ex_account_ops (ex_account, ()))) \<le> 5
    \<and> 0 \<le> a_spent (fst (account_run no_authority ex_account_ops (ex_account, ())))"
  by (rule account_within_limit[OF ex_account_made ex_account_fresh])

text \<open>
  Without that condition the limit leaks: units an open claim has consumed count neither as
  spent nor as reserved. An account with a limit of 5 reserves 5, consumes them, and before the
  claim is completed reserves and consumes 5 more; when both claims are completed it has spent 10.
\<close>

theorem account_limit_leaks:
  "(let st = account_run no_authority [(1, AReserve ''a'' [] 5 []), (2, AConsume 0 5)] (ex_account, ())
    in remaining_limit (fst st) = Some 5
      \<and> a_spent (fst (account_run no_authority [(3, AReserve ''b'' [] 5 []), (4, AConsume 1 5), (5, AComplete 0), (6, AComplete 1)] st))
          = 10)"
  by code_simp

end
