(* ===== verification/Cancel_Model.thy ===== *)
theory Cancel_Model
  imports Wire
begin

text \<open>
  The data of \<open>resources/control.py\<close>: termination policies, cancellation references with their
  lineage, cancellation states, and the walk from a control to its ancestors that every store
  performs. The SHA-256 digest is the parameter \<open>sha\<close>; \<open>fresh\<close> is the uuid that names a control
  when the caller names none.
\<close>

section \<open>Termination policies\<close>

record termination_policy =
  tp_mode :: string
  tp_grace :: rat
  tp_kill_grace :: rat
  tp_poll :: rat

definition termination_post_init :: "termination_policy \<Rightarrow> termination_policy result" where
  "termination_post_init p = (let mode = py_lower (py_strip (or_default (tp_mode p) ''cooperative'')) in
     rbind (guard (mode \<in> {''cooperative'', ''cooperative_then_terminate''}) ValueError) (\<lambda>_.
     rbind (guard (\<not> (tp_grace p < 0 \<or> tp_kill_grace p < 0)) ValueError) (\<lambda>_.
     rbind (guard (\<not> tp_poll p \<le> 0) ValueError) (\<lambda>_.
     Inr (p\<lparr>tp_mode := mode\<rparr>)))))"

definition requires_isolation :: "termination_policy \<Rightarrow> bool" where
  "requires_isolation p \<longleftrightarrow> tp_mode p = ''cooperative_then_terminate''"

definition termination_from_dict :: "dict \<Rightarrow> termination_policy result" where
  "termination_from_dict d =
     rbind (py_float (py_or (dict_get d ''grace_seconds'' (PNum 5)) (PNum 0))) (\<lambda>grace.
     rbind (py_float (py_or (dict_get d ''kill_grace_seconds'' (PNum 1)) (PNum 0))) (\<lambda>kill.
     rbind (py_float (py_or (dict_get d ''poll_interval_seconds'' (PNum (1/20))) (PNum (1/20)))) (\<lambda>poll.
     termination_post_init \<lparr>tp_mode = py_str (dict_get d ''mode'' (PStr ''cooperative'')), tp_grace = grace,
       tp_kill_grace = kill, tp_poll = poll\<rparr>)))"

definition termination_as_dict :: "termination_policy \<Rightarrow> dict" where
  "termination_as_dict p = [(''mode'', PStr (tp_mode p)), (''grace_seconds'', PNum (tp_grace p)),
     (''kill_grace_seconds'', PNum (tp_kill_grace p)), (''poll_interval_seconds'', PNum (tp_poll p))]"

section \<open>References\<close>

definition max_lineage_depth :: nat where
  "max_lineage_depth = 256"

record cancel_ref =
  cr_id :: string
  cr_backend :: string
  cr_namespace :: string
  cr_path :: string
  cr_url_env :: string
  cr_deadline :: time
  cr_created :: time
  cr_parent :: "string option"
  cr_root :: "string option"
  cr_depth :: int
  cr_digest :: string
  cr_ttl :: rat
  cr_heartbeat :: rat
  cr_retention :: rat

definition hex_digest :: "string \<Rightarrow> bool" where
  "hex_digest s \<longleftrightarrow> length s = 64 \<and> list_all (\<lambda>ch. ch \<in> set ''0123456789abcdef'') s"

definition clean_parent :: "string option \<Rightarrow> string option" where
  "clean_parent x = (case x of None \<Rightarrow> None | Some p \<Rightarrow> if py_strip p = [] then None else Some (py_strip p))"

definition clean_root :: "string \<Rightarrow> string option \<Rightarrow> string" where
  "clean_root i x = py_strip (case x of None \<Rightarrow> i | Some y \<Rightarrow> or_default y i)"

definition clean_digest :: "(string \<Rightarrow> string) \<Rightarrow> string \<Rightarrow> string \<Rightarrow> string" where
  "clean_digest sha base x = (let y = py_lower (py_strip x) in if y = [] then sha (''root:'' @ base) else y)"

text \<open>\<open>__post_init__\<close>, at the time \<open>now\<close>.\<close>

definition cancel_ref_post_init :: "(string \<Rightarrow> string) \<Rightarrow> time \<Rightarrow> cancel_ref \<Rightarrow> cancel_ref result" where
  "cancel_ref_post_init sha now r =
     (let backend = py_lower (py_strip (or_default (cr_backend r) ''memory''));
          i = py_strip (cr_id r);
          parent = clean_parent (cr_parent r);
          root = clean_root i (cr_root r);
          digest = clean_digest sha root (cr_digest r) in
      rbind (guard (backend \<in> {''memory'', ''sqlite'', ''redis''}) ValueError) (\<lambda>_.
      rbind (guard (i \<noteq> []) ValueError) (\<lambda>_.
      rbind (guard (\<not> (backend = ''sqlite'' \<and> py_strip (cr_path r) = [])) ValueError) (\<lambda>_.
      rbind (guard (parent \<noteq> Some i) ValueError) (\<lambda>_.
      rbind (guard (0 \<le> cr_depth r \<and> cr_depth r \<le> int max_lineage_depth) ValueError) (\<lambda>_.
      rbind (guard (\<not> (cr_depth r = 0 \<and> parent \<noteq> None)) ValueError) (\<lambda>_.
      rbind (guard (\<not> (0 < cr_depth r \<and> parent = None)) ValueError) (\<lambda>_.
      rbind (guard (root \<noteq> []) ValueError) (\<lambda>_.
      rbind (guard (hex_digest digest) ValueError) (\<lambda>_.
      rbind (guard (\<not> (cr_ttl r < 0 \<or> cr_heartbeat r < 0 \<or> cr_retention r < 0)) ValueError) (\<lambda>_.
      rbind (guard (\<not> (cr_ttl r = 0 \<and> 0 < cr_heartbeat r)) ValueError) (\<lambda>_.
      rbind (guard (\<not> (0 < cr_ttl r \<and> cr_heartbeat r \<le> 0)) ValueError) (\<lambda>_.
      rbind (guard (\<not> (0 < cr_ttl r \<and> cr_ttl r < cr_heartbeat r * 2)) ValueError) (\<lambda>_.
      Inr (r\<lparr>cr_id := i, cr_backend := backend, cr_namespace := or_default (cr_namespace r) ''blackbase'',
        cr_url_env := or_default (cr_url_env r) ''BLACKBASE_REDIS_URL'',
        cr_deadline := max 0 (cr_deadline r), cr_created := (if cr_created r = 0 then now else cr_created r),
        cr_parent := parent, cr_root := Some root, cr_digest := digest\<rparr>)))))))))))))))"

definition process_local :: "cancel_ref \<Rightarrow> bool" where
  "process_local r \<longleftrightarrow> cr_backend r = ''memory''"

text \<open>\<open>payload.get(...)\<close> as it is passed to an optional text field.\<close>

definition get_opt :: "dict \<Rightarrow> string \<Rightarrow> string option" where
  "get_opt d k = (case dict_get d k PNone of PNone \<Rightarrow> None | v \<Rightarrow> Some (if truthy v then py_str v else []))"

definition cancel_ref_from_dict :: "(string \<Rightarrow> string) \<Rightarrow> time \<Rightarrow> dict \<Rightarrow> cancel_ref result" where
  "cancel_ref_from_dict sha now d =
     rbind (get_float d ''deadline_at'') (\<lambda>deadline.
     rbind (get_float d ''created_at'') (\<lambda>created.
     rbind (get_int d ''lineage_depth'' 0) (\<lambda>depth.
     rbind (get_float d ''active_ttl_seconds'') (\<lambda>ttl.
     rbind (get_float d ''heartbeat_seconds'') (\<lambda>beat.
     rbind (get_float d ''retention_seconds'') (\<lambda>retention.
     cancel_ref_post_init sha now \<lparr>cr_id = get_str d ''control_id'',
       cr_backend = py_str (dict_get d ''backend'' (PStr ''memory'')),
       cr_namespace = py_str (dict_get d ''namespace'' (PStr ''blackbase'')),
       cr_path = get_str d ''path'',
       cr_url_env = py_str (dict_get d ''redis_url_env'' (PStr ''BLACKBASE_REDIS_URL'')),
       cr_deadline = deadline, cr_created = created,
       cr_parent = get_opt d ''parent_control_id'', cr_root = get_opt d ''root_control_id'',
       cr_depth = depth, cr_digest = get_str_or d ''lineage_digest'',
       cr_ttl = ttl, cr_heartbeat = beat, cr_retention = retention\<rparr>))))))"

definition opt_val :: "string option \<Rightarrow> pyval" where
  "opt_val x = (case x of None \<Rightarrow> PNone | Some s \<Rightarrow> PStr s)"

definition cancel_ref_as_dict :: "cancel_ref \<Rightarrow> dict" where
  "cancel_ref_as_dict r = [(''control_id'', PStr (cr_id r)), (''backend'', PStr (cr_backend r)),
     (''namespace'', PStr (cr_namespace r)), (''path'', PStr (cr_path r)), (''redis_url_env'', PStr (cr_url_env r)),
     (''deadline_at'', PNum (cr_deadline r)), (''created_at'', PNum (cr_created r)),
     (''parent_control_id'', opt_val (cr_parent r)), (''root_control_id'', opt_val (cr_root r)),
     (''lineage_depth'', PInt (cr_depth r)), (''lineage_digest'', PStr (cr_digest r)),
     (''active_ttl_seconds'', PNum (cr_ttl r)), (''heartbeat_seconds'', PNum (cr_heartbeat r)),
     (''retention_seconds'', PNum (cr_retention r))]"

text \<open>What the constructor establishes.\<close>

definition cancel_ref_wf :: "cancel_ref \<Rightarrow> bool" where
  "cancel_ref_wf r \<longleftrightarrow> cr_backend r \<in> {''memory'', ''sqlite'', ''redis''}
     \<and> cr_id r \<noteq> [] \<and> py_strip (cr_id r) = cr_id r \<and> (cr_backend r = ''sqlite'' \<longrightarrow> py_strip (cr_path r) \<noteq> [])
     \<and> cr_namespace r \<noteq> [] \<and> cr_url_env r \<noteq> [] \<and> 0 \<le> cr_deadline r
     \<and> (case cr_parent r of None \<Rightarrow> True | Some p \<Rightarrow> p \<noteq> [] \<and> py_strip p = p \<and> p \<noteq> cr_id r)
     \<and> (case cr_root r of None \<Rightarrow> False | Some x \<Rightarrow> x \<noteq> [] \<and> py_strip x = x)
     \<and> 0 \<le> cr_depth r \<and> cr_depth r \<le> int max_lineage_depth \<and> (cr_depth r = 0 \<longleftrightarrow> cr_parent r = None)
     \<and> hex_digest (cr_digest r)
     \<and> 0 \<le> cr_ttl r \<and> 0 \<le> cr_heartbeat r \<and> 0 \<le> cr_retention r
     \<and> (cr_ttl r = 0 \<longleftrightarrow> cr_heartbeat r = 0) \<and> cr_heartbeat r * 2 \<le> cr_ttl r"

lemma hex_chars: "list_all (\<lambda>ch. \<not> is_space ch \<and> lower_char ch = ch) ''0123456789abcdef''"
  by code_simp

lemma hex_nonspace: assumes s: "hex_digest s" shows "py_strip s = s" "py_lower s = s" "s \<noteq> []"
proof -
  have ch: "\<not> is_space ch \<and> lower_char ch = ch" if "ch \<in> set s" for ch
    using s that hex_chars unfolding hex_digest_def list_all_iff by blast
  have "dropWhile is_space s = s" using ch by (cases s) auto
  moreover have "dropWhile is_space (rev s) = rev s" using ch by (cases s rule: rev_cases) auto
  ultimately show "py_strip s = s" by (simp add: py_strip_def)
  show "py_lower s = s" using ch by (simp add: py_lower_def map_idI)
  show "s \<noteq> []" using s by (auto simp: hex_digest_def)
qed

lemma ttl_ok: fixes ttl beat ret :: rat shows "\<not> (ttl < 0 \<or> beat < 0 \<or> ret < 0) \<and> \<not> (ttl = 0 \<and> 0 < beat) \<and> \<not> (0 < ttl \<and> beat \<le> 0) \<and> \<not> (0 < ttl \<and> ttl < beat * 2)
    \<longleftrightarrow> 0 \<le> ttl \<and> 0 \<le> beat \<and> 0 \<le> ret \<and> (ttl = 0 \<longleftrightarrow> beat = 0) \<and> beat * 2 \<le> ttl"
  by auto

lemma depth_ok: "(0 \<le> n \<and> n \<le> m) \<and> \<not> (n = 0 \<and> p \<noteq> None) \<and> \<not> (0 < n \<and> p = None) \<longleftrightarrow> 0 \<le> n \<and> n \<le> m \<and> (n = (0::int) \<longleftrightarrow> p = None)"
  by auto

lemma cancel_ref_post_init_Inr:
  "cancel_ref_post_init sha now r = Inr r' \<longleftrightarrow>
     (let backend = py_lower (py_strip (or_default (cr_backend r) ''memory'')); i = py_strip (cr_id r);
          parent = clean_parent (cr_parent r); root = clean_root i (cr_root r); digest = clean_digest sha root (cr_digest r) in
      backend \<in> {''memory'', ''sqlite'', ''redis''} \<and> i \<noteq> [] \<and> \<not> (backend = ''sqlite'' \<and> py_strip (cr_path r) = [])
      \<and> parent \<noteq> Some i \<and> 0 \<le> cr_depth r \<and> cr_depth r \<le> int max_lineage_depth \<and> (cr_depth r = 0 \<longleftrightarrow> parent = None)
      \<and> root \<noteq> [] \<and> hex_digest digest \<and> 0 \<le> cr_ttl r \<and> 0 \<le> cr_heartbeat r \<and> 0 \<le> cr_retention r
      \<and> (cr_ttl r = 0 \<longleftrightarrow> cr_heartbeat r = 0) \<and> cr_heartbeat r * 2 \<le> cr_ttl r
      \<and> r' = r\<lparr>cr_id := i, cr_backend := backend, cr_namespace := or_default (cr_namespace r) ''blackbase'',
        cr_url_env := or_default (cr_url_env r) ''BLACKBASE_REDIS_URL'',
        cr_deadline := max 0 (cr_deadline r), cr_created := (if cr_created r = 0 then now else cr_created r),
        cr_parent := parent, cr_root := Some root, cr_digest := digest\<rparr>)"
  unfolding cancel_ref_post_init_def Let_def rbind_guard sum.inject eq_commute[of _ r']
  using ttl_ok[of "cr_ttl r" "cr_heartbeat r" "cr_retention r"] depth_ok[of "cr_depth r" "int max_lineage_depth" "clean_parent (cr_parent r)"]
  by blast

lemma clean_parent_wf: "clean_parent x = Some p \<Longrightarrow> p \<noteq> [] \<and> py_strip p = p"
  by (auto simp: clean_parent_def split: option.splits if_splits)

lemma clean_parent_id: "(\<And>p. x = Some p \<Longrightarrow> p \<noteq> [] \<and> py_strip p = p) \<Longrightarrow> clean_parent x = x"
  by (auto simp: clean_parent_def split: option.splits)

lemma clean_root_wf: "py_strip (clean_root i x) = clean_root i x"
  by (simp add: clean_root_def)

lemma clean_digest_id: "hex_digest x \<Longrightarrow> clean_digest sha base x = x"
  by (simp add: clean_digest_def hex_nonspace Let_def)

lemma cancel_ref_post_init_wf:
  assumes "cancel_ref_post_init sha now r = Inr r'" shows "cancel_ref_wf r'"
  using assms clean_parent_wf[of "cr_parent r"] clean_root_wf[of "py_strip (cr_id r)" "cr_root r"]
  unfolding cancel_ref_post_init_Inr cancel_ref_wf_def Let_def
  by (cases "clean_parent (cr_parent r)") (auto simp: or_default_def)

lemma cancel_ref_post_init_id:
  assumes "cancel_ref_wf r" "cr_created r \<noteq> 0" shows "cancel_ref_post_init sha now r = Inr r"
proof -
  have root: "\<exists>x. cr_root r = Some x \<and> x \<noteq> [] \<and> py_strip x = x"
    using assms(1) by (auto simp: cancel_ref_wf_def split: option.splits)
  then obtain x where x: "cr_root r = Some x" "x \<noteq> []" "py_strip x = x" by blast
  have "clean_parent (cr_parent r) = cr_parent r"
    using assms(1) by (intro clean_parent_id) (auto simp: cancel_ref_wf_def)
  moreover have "clean_root (py_strip (cr_id r)) (cr_root r) = x" using x by (simp add: clean_root_def)
  moreover have "clean_digest sha x (cr_digest r) = cr_digest r"
    using assms(1) by (intro clean_digest_id) (simp add: cancel_ref_wf_def)
  moreover have "py_lower (py_strip (or_default (cr_backend r) ''memory'')) = cr_backend r"
    using assms(1) unfolding cancel_ref_wf_def by (elim conjE) (auto simp: py_lower_def lower_char_def py_strip_def is_space_def)
  ultimately show ?thesis
    using assms x(1) unfolding cancel_ref_post_init_Inr Let_def cancel_ref_wf_def
    by (cases "cr_parent r") auto
qed

section \<open>Round trips\<close>

lemma if_eq_self [simp]: "(if x = a then a else x) = x"
  by simp

lemma get_opt_val [simp]: "map_of d k = Some (opt_val x) \<Longrightarrow> get_opt d k = x"
  by (cases x) (auto simp: get_opt_def dict_get_def opt_val_def)

lemma cancel_ref_round_trip:
  assumes "cancel_ref_wf r" "cr_created r \<noteq> 0"
  shows "cancel_ref_from_dict sha now (cancel_ref_as_dict r) = Inr r"
proof -
  have "cancel_ref_from_dict sha now (cancel_ref_as_dict r) = cancel_ref_post_init sha now r"
    by (cases r) (simp add: cancel_ref_from_dict_def cancel_ref_as_dict_def get_defs get_opt_def opt_val_def split: option.split)
  then show ?thesis by (simp add: cancel_ref_post_init_id assms)
qed

definition termination_wf :: "termination_policy \<Rightarrow> bool" where
  "termination_wf p \<longleftrightarrow> tp_mode p \<in> {''cooperative'', ''cooperative_then_terminate''}
     \<and> 0 \<le> tp_grace p \<and> 0 \<le> tp_kill_grace p \<and> 0 < tp_poll p"

lemma termination_post_init_wf: "termination_post_init p = Inr q \<Longrightarrow> termination_wf q"
  by (auto simp: termination_post_init_def termination_wf_def Let_def)

lemma termination_round_trip: "termination_wf p \<Longrightarrow> termination_from_dict (termination_as_dict p) = Inr p"
proof -
  assume wf: "termination_wf p"
  then have mode: "py_lower (py_strip (or_default (tp_mode p) ''cooperative'')) = tp_mode p"
    unfolding termination_wf_def by (elim conjE insertE emptyE) (simp_all, code_simp+)
  have "termination_from_dict (termination_as_dict p) = termination_post_init p"
    using wf by (cases p) (simp add: termination_from_dict_def termination_as_dict_def get_defs termination_wf_def)
  also have "\<dots> = Inr p" using wf by (simp add: termination_post_init_def mode termination_wf_def)
  finally show ?thesis .
qed

section \<open>States and the lineage walk\<close>

record cancel_state =
  cs_requested :: bool
  cs_reason :: string
  cs_at :: time

definition idle_state :: cancel_state where
  "idle_state = \<lparr>cs_requested = False, cs_reason = [], cs_at = 0\<rparr>"

definition cancel_state_from_dict :: "dict \<Rightarrow> cancel_state result" where
  "cancel_state_from_dict d = rbind (get_float d ''requested_at'') (\<lambda>t.
     Inr \<lparr>cs_requested = truthy (dict_get d ''requested'' (PBool False)), cs_reason = get_str d ''reason'', cs_at = t\<rparr>)"

definition cancel_state_as_dict :: "cancel_state \<Rightarrow> dict" where
  "cancel_state_as_dict x = [(''requested'', PBool (cs_requested x)), (''reason'', PStr (cs_reason x)), (''requested_at'', PNum (cs_at x))]"

lemma cancel_state_round_trip: "cancel_state_from_dict (cancel_state_as_dict x) = Inr x"
  by (cases x) (simp add: cancel_state_from_dict_def cancel_state_as_dict_def get_defs)

lemma idle_simps [simp]: "\<not> cs_requested idle_state"
  by (simp add: idle_state_def)

text \<open>\<open>str(reason or "cancelled")\<close>.\<close>

definition request_state :: "string \<Rightarrow> time \<Rightarrow> cancel_state" where
  "request_state reason now = \<lparr>cs_requested = True, cs_reason = or_default reason ''cancelled'', cs_at = now\<rparr>"

lemma request_state_requested [simp]: "cs_requested (request_state reason now)"
  by (simp add: request_state_def)

text \<open>
  What a store records of a control: its state and its parent. \<open>walk\<close> looks for a request on the
  control \<open>x\<close> and its ancestors; \<open>seen\<close> are the controls it has passed. The check of the depth
  makes it end, whatever the records are.
\<close>

type_synonym lineage = "string \<Rightarrow> (cancel_state \<times> string option) option"

function walk :: "lineage \<Rightarrow> string list \<Rightarrow> string option \<Rightarrow> cancel_state result" where
  "walk m seen None = Inr idle_state"
| "walk m seen (Some i) =
     (if i \<in> set seen then Inl RuntimeError
      else if length (i # seen) > max_lineage_depth + 1 then Inl RuntimeError
      else case m i of None \<Rightarrow> Inr idle_state
        | Some (st, parent) \<Rightarrow> if cs_requested st then Inr st else walk m (i # seen) parent)"
  by pat_completeness auto

termination by (relation "measure (\<lambda>(m, seen, x). max_lineage_depth + 2 - length seen)") auto

declare walk.simps(2) [simp del]

text \<open>\<open>up m x is y\<close>: from \<open>x\<close>, the parents lead through the controls \<open>is\<close> to \<open>y\<close>.\<close>

primrec up :: "lineage \<Rightarrow> string option \<Rightarrow> string list \<Rightarrow> string option \<Rightarrow> bool" where
  "up m x [] y \<longleftrightarrow> x = y"
| "up m x (i # is) y \<longleftrightarrow> x = Some i \<and> (case m i of None \<Rightarrow> False | Some (st, parent) \<Rightarrow> up m parent is y)"

definition requested_in :: "lineage \<Rightarrow> string \<Rightarrow> bool" where
  "requested_in m i \<longleftrightarrow> (case m i of None \<Rightarrow> False | Some (st, p) \<Rightarrow> cs_requested st)"

lemma up_append: "up m x (is @ js) z \<longleftrightarrow> (\<exists>y. up m x is y \<and> up m y js z)"
proof (induction "is" arbitrary: x)
  case (Cons i "is")
  then show ?case by (cases "m i") auto
qed simp

lemma up_through: "up m x (xs @ k # ys) z \<Longrightarrow> up m x xs (Some k) \<and> up m (Some k) (k # ys) z"
  by (auto simp: up_append)

text \<open>The shortest way up passes no control twice.\<close>

lemma up_distinct:
  assumes "up m x is (Some a)"
  obtains js where "up m x js (Some a)" "distinct (js @ [a])" "length js \<le> length is" "set js \<subseteq> set is"
  using assms
proof (induction "length is" arbitrary: "is" thesis rule: less_induct)
  case less
  consider (dist) "distinct (is @ [a])" | (last) "a \<in> set is" | (rep) "\<not> distinct is" by auto
  then consider (1) "distinct (is @ [a])" | (2) xs ys where "is = xs @ a # ys"
    | (3) xs k ys zs where "is = xs @ k # ys @ k # zs"
  proof cases
    case last
    then show ?thesis using that(2) by (auto simp: in_set_conv_decomp)
  next
    case rep
    then obtain xs k ys zs where "is = xs @ [k] @ ys @ [k] @ zs" using not_distinct_decomp by blast
    then show ?thesis using that(3) by simp
  qed (use that in blast)
  then show ?case
  proof cases
    case 1
    then show ?thesis using less.prems by blast
  next
    case 2
    then have "up m x xs (Some a)" using less.prems(2) up_through by blast
    then show ?thesis
      by (rule less.hyps[rotated 2]) (use \<open>is = xs @ a # ys\<close> less.prems(1) in force)+
  next
    case 3
    have a: "up m x xs (Some k)" and b: "up m (Some k) ((k # ys) @ k # zs) (Some a)"
      using up_through[of m x xs k "ys @ k # zs"] less.prems(2) unfolding 3 by simp_all
    have "up m (Some k) (k # zs) (Some a)" using up_through[OF b] by blast
    with a have "up m x (xs @ k # zs) (Some a)" unfolding up_append by blast
    then show ?thesis
      by (rule less.hyps[rotated 2]) (use \<open>is = xs @ k # ys @ k # zs\<close> less.prems(1) in force)+
  qed
qed

lemma walk_distinct:
  assumes "up m x is (Some a)" "requested_in m a" "distinct (is @ [a])" "set (is @ [a]) \<inter> set seen = {}"
    "length seen + length is \<le> max_lineage_depth"
  shows "\<exists>st j p. walk m seen x = Inr st \<and> cs_requested st \<and> j \<in> set (is @ [a]) \<and> m j = Some (st, p)"
  using assms
proof (induction "is" arbitrary: x seen)
  case Nil
  then show ?case by (auto simp: walk.simps(2) requested_in_def split: option.splits)
next
  case (Cons k "is")
  obtain st p where p: "x = Some k" "m k = Some (st, p)" "up m p is (Some a)"
    using Cons.prems(1) by (auto split: option.splits)
  show ?case
  proof (cases "cs_requested st")
    case True
    then show ?thesis using p Cons.prems(4,5) by (auto simp: walk.simps(2))
  next
    case False
    have "\<exists>st j p'. walk m (k # seen) p = Inr st \<and> cs_requested st \<and> j \<in> set (is @ [a]) \<and> m j = Some (st, p')"
      using Cons.prems by (intro Cons.IH[OF p(3)]) auto
    then show ?thesis using p False Cons.prems(4,5) by (auto simp: walk.simps(2))
  qed
qed

text \<open>A request on an ancestor within the supported depth is found.\<close>

lemma walk_up:
  assumes "up m x is (Some a)" "requested_in m a" "length is \<le> max_lineage_depth"
  shows "\<exists>st j p. walk m [] x = Inr st \<and> cs_requested st \<and> j \<in> set (is @ [a]) \<and> m j = Some (st, p)"
proof -
  obtain js where js: "up m x js (Some a)" "distinct (js @ [a])" "length js \<le> length is" "set js \<subseteq> set is"
    using up_distinct[OF assms(1)] .
  have "\<exists>st j p. walk m [] x = Inr st \<and> cs_requested st \<and> j \<in> set (js @ [a]) \<and> m j = Some (st, p)"
    using js assms(2,3) by (intro walk_distinct) auto
  then show ?thesis using js(4) by auto
qed

lemma walk_result: "walk m seen x = Inr st \<Longrightarrow> cs_requested st \<Longrightarrow> \<exists>i p. m i = Some (st, p)"
proof (induction m seen x rule: walk.induct)
  case (2 m seen i)
  then show ?case by (simp add: walk.simps(2) split: if_splits option.splits prod.splits) blast
qed simp

lemma walk_error: "walk m seen x = Inl e \<Longrightarrow> e = RuntimeError"
  by (induction m seen x rule: walk.induct) (auto simp: walk.simps(2) split: if_splits option.splits)

text \<open>
  How a record that is kept may change: a request is added once and never changed, a parent is set
  at most once.
\<close>

definition record_grows :: "(cancel_state \<times> string option) \<Rightarrow> (cancel_state \<times> string option) \<Rightarrow> bool" where
  "record_grows x y \<longleftrightarrow> (fst y = fst x \<or> \<not> cs_requested (fst x) \<and> cs_requested (fst y)) \<and> (snd x = None \<or> snd y = snd x)"

lemma record_grows_refl [simp]: "record_grows x x"
  by (simp add: record_grows_def)

lemma record_grows_trans: "record_grows x y \<Longrightarrow> record_grows y z \<Longrightarrow> record_grows x z"
  by (auto simp: record_grows_def)

lemma record_grows_requested: "record_grows (st, p) y \<Longrightarrow> cs_requested st \<Longrightarrow> fst y = st"
  by (simp add: record_grows_def)

lemma up_grows:
  assumes "up m x is (Some a)" "\<And>i r. i \<in> set is \<Longrightarrow> m i = Some r \<Longrightarrow> \<exists>r'. m' i = Some r' \<and> record_grows r r'"
  shows "up m' x is (Some a)"
  using assms
proof (induction "is" arbitrary: x)
  case (Cons i "is")
  obtain st p where p: "x = Some i" "m i = Some (st, p)" "up m p is (Some a)"
    using Cons.prems(1) by (auto split: option.splits)
  have "p \<noteq> None" using p(3) by (cases "is") auto
  moreover obtain st' p' where "m' i = Some (st', p')" "record_grows (st, p) (st', p')"
    using Cons.prems(2)[of i] p(2) by auto
  ultimately have "m' i = Some (st', p)" by (auto simp: record_grows_def)
  moreover have "up m' p is (Some a)" using Cons.prems(2) by (intro Cons.IH[OF p(3)]) auto
  ultimately show ?case using p(1) by simp
qed simp

end
