(* ===== verification/Cancel_Store.thy ===== *)
theory Cancel_Store
  imports Cancel_Model
begin

text \<open>
  The protocol \<open>CancellationStore\<close> of \<open>resources/control.py\<close> as a record of operations, the
  \<open>CancellationToken\<close> and the \<open>CancellationHeartbeat\<close> over it, and the locale
  \<open>cancellation_store\<close> with the laws of the three stores. A durable \<open>request\<close> creates the control
  and then marks it, in two transactions; \<open>co_mark\<close> is the second, which other clients' steps may
  precede. Its result is \<open>None\<close> when the record has lapsed and the loop goes round again.
\<close>

record 's cancel_ops =
  co_create :: "clock \<Rightarrow> cancel_ref \<Rightarrow> 's \<Rightarrow> unit result \<times> 's"
  co_read :: "clock \<Rightarrow> cancel_ref \<Rightarrow> 's \<Rightarrow> cancel_state result \<times> 's"
  co_request :: "clock \<Rightarrow> cancel_ref \<Rightarrow> string \<Rightarrow> 's \<Rightarrow> bool result option \<times> 's"
  co_mark :: "clock \<Rightarrow> cancel_ref \<Rightarrow> string \<Rightarrow> 's \<Rightarrow> bool option \<times> 's"
  co_touch :: "clock \<Rightarrow> cancel_ref \<Rightarrow> 's \<Rightarrow> bool \<times> 's"
  co_retire :: "clock \<Rightarrow> cancel_ref \<Rightarrow> 's \<Rightarrow> 's"

section \<open>Tokens\<close>

definition token_init :: "'s cancel_ops \<Rightarrow> clock \<Rightarrow> cancel_ref \<Rightarrow> 's \<Rightarrow> unit result \<times> 's" where
  "token_init T c r s = co_create T c r s"

definition token_cancelled :: "'s cancel_ops \<Rightarrow> clock \<Rightarrow> cancel_ref \<Rightarrow> 's \<Rightarrow> bool result \<times> 's" where
  "token_cancelled T c r s = (case co_read T c r s of
     (Inl e, s') \<Rightarrow> (Inl e, s') | (Inr st, s') \<Rightarrow> (Inr (cs_requested st), s'))"

definition deadline_exceeded :: "cancel_ref \<Rightarrow> time \<Rightarrow> bool" where
  "deadline_exceeded r now \<longleftrightarrow> 0 < cr_deadline r \<and> cr_deadline r \<le> now"

definition remaining_seconds :: "cancel_ref \<Rightarrow> time \<Rightarrow> rat option" where
  "remaining_seconds r now = (if cr_deadline r \<le> 0 then None else Some (max 0 (cr_deadline r - now)))"

definition token_cancel :: "'s cancel_ops \<Rightarrow> clock \<Rightarrow> cancel_ref \<Rightarrow> string \<Rightarrow> 's \<Rightarrow> bool result option \<times> 's" where
  "token_cancel T c r reason s = co_request T c r (or_default reason ''cancelled'') s"

text \<open>\<open>checkpoint\<close>; \<open>None\<close>: the request of a passed deadline has not come to an end.\<close>

definition checkpoint :: "'s cancel_ops \<Rightarrow> clock \<Rightarrow> cancel_ref \<Rightarrow> 's \<Rightarrow> unit result option \<times> 's" where
  "checkpoint T c r s =
     (if deadline_exceeded r (c 0) then
        case token_cancel T (\<lambda>n. c (Suc n)) r ''case deadline exceeded'' s of
          (None, s') \<Rightarrow> (None, s')
        | (Some (Inl e), s') \<Rightarrow> (Some (Inl e), s')
        | (Some (Inr _), s') \<Rightarrow> (Some (Inl CaseDeadlineExceeded), s')
      else case co_read T (\<lambda>n. c (Suc n)) r s of
          (Inl e, s') \<Rightarrow> (Some (Inl e), s')
        | (Inr st, s') \<Rightarrow> (Some (if cs_requested st then Inl CancellationRequested else Inr ()), s'))"

section \<open>Heartbeats\<close>

text \<open>
  The state that the owner and the thread share. A round of the thread is a wait of one interval:
  it ends with the stop event set, or with a call of \<open>touch\<close> that may raise (\<open>fault\<close>). What other
  clients do during the wait is part of the round.
\<close>

record heartbeat =
  hb_lost :: bool
  hb_failed :: bool

definition heartbeat_init :: "'s cancel_ops \<Rightarrow> clock \<Rightarrow> cancel_ref \<Rightarrow> 's \<Rightarrow> heartbeat result \<times> 's" where
  "heartbeat_init T c r s =
     (let h = \<lparr>hb_lost = False, hb_failed = False\<rparr> in
      if 0 < cr_ttl r then case co_touch T c r s of (b, s') \<Rightarrow> (if b then Inr h else Inl RuntimeError, s')
      else (Inr h, s))"

record 's beat_round =
  br_stop :: bool
  br_clock :: clock
  br_fault :: bool
  br_others :: "'s \<Rightarrow> 's"

fun heartbeat_run :: "'s cancel_ops \<Rightarrow> cancel_ref \<Rightarrow> 's beat_round list \<Rightarrow> heartbeat \<times> 's \<Rightarrow> heartbeat \<times> 's" where
  "heartbeat_run T r [] (h, s) = (h, s)"
| "heartbeat_run T r (b # bs) (h, s) = (let s1 = br_others b s in
     if br_stop b then (h, s1)
     else if br_fault b then (h\<lparr>hb_failed := True, hb_lost := True\<rparr>, s1)
     else case co_touch T (br_clock b) r s1 of
       (True, s2) \<Rightarrow> heartbeat_run T r bs (h, s2)
     | (False, s2) \<Rightarrow> (h\<lparr>hb_lost := True\<rparr>, s2))"

definition assert_current :: "heartbeat \<Rightarrow> unit result" where
  "assert_current h = (if hb_failed h then Inl RuntimeError else if hb_lost h then Inl RuntimeError else Inr ())"

text \<open>The rounds come before the limit that the round before has set; nobody interferes.\<close>

fun timely :: "rat \<Rightarrow> time \<Rightarrow> ('s beat_round \<times> time \<times> time) list \<Rightarrow> bool" where
  "timely ttl limit [] \<longleftrightarrow> True"
| "timely ttl limit ((b, lo, hi) # xs) \<longleftrightarrow> clock_in (br_clock b) lo hi \<and> hi < limit
     \<and> \<not> br_stop b \<and> \<not> br_fault b \<and> br_others b = (\<lambda>s. s) \<and> timely ttl (lo + ttl) xs"

text \<open>\<open>close\<close>; \<open>alive\<close>: the thread has not ended within the time that it is given.\<close>

definition heartbeat_close :: "bool \<Rightarrow> heartbeat \<Rightarrow> unit result" where
  "heartbeat_close alive h = (if alive then Inl RuntimeError else assert_current h)"

section \<open>Runs\<close>

datatype cancel_call =
    Create cancel_ref
  | Read cancel_ref
  | Mark cancel_ref string
  | Touch cancel_ref
  | Retire cancel_ref

fun call_ref :: "cancel_call \<Rightarrow> cancel_ref" where
  "call_ref (Create r) = r"
| "call_ref (Read r) = r"
| "call_ref (Mark r reason) = r"
| "call_ref (Touch r) = r"
| "call_ref (Retire r) = r"

fun cancel_step :: "'s cancel_ops \<Rightarrow> clock \<Rightarrow> cancel_call \<Rightarrow> 's \<Rightarrow> 's" where
  "cancel_step T c (Create r) s = snd (co_create T c r s)"
| "cancel_step T c (Read r) s = snd (co_read T c r s)"
| "cancel_step T c (Mark r reason) s = snd (co_mark T c r reason s)"
| "cancel_step T c (Touch r) s = snd (co_touch T c r s)"
| "cancel_step T c (Retire r) s = co_retire T c r s"

type_synonym 's records = "'s \<Rightarrow> string \<Rightarrow> time \<Rightarrow> lineage"

text \<open>
  \<open>kept view ns K s t\<close>: the controls \<open>K\<close> of the namespace have a record at time \<open>t\<close>. In a
  \<open>kept_run\<close> every step finds them and leaves them so: nobody deletes them and they do not lapse.
\<close>

definition kept :: "'s records \<Rightarrow> string \<Rightarrow> string set \<Rightarrow> 's \<Rightarrow> time \<Rightarrow> bool" where
  "kept view ns K s t \<longleftrightarrow> (\<forall>i\<in>K. view s ns t i \<noteq> None)"

inductive kept_run :: "'s cancel_ops \<Rightarrow> 's records \<Rightarrow> string \<Rightarrow> string set \<Rightarrow> time \<times> 's \<Rightarrow> time \<times> 's \<Rightarrow> bool"
  for T view ns K where
  kept_refl: "kept_run T view ns K x x"
| kept_step: "kept_run T view ns K x (t, s) \<Longrightarrow> t \<le> t0 \<Longrightarrow> clock_in c t0 t1 \<Longrightarrow> kept view ns K s t1
    \<Longrightarrow> cancel_ref_wf (call_ref call)
    \<Longrightarrow> s' = cancel_step T c call s \<Longrightarrow> kept view ns K s' t1 \<Longrightarrow> kept_run T view ns K x (t1, s')"

section \<open>The contract\<close>

definition grows :: "'s records \<Rightarrow> 's \<Rightarrow> time \<Rightarrow> 's \<Rightarrow> bool" where
  "grows view s t1 s' \<longleftrightarrow> (\<forall>ns i t x y. t1 \<le> t \<longrightarrow> view s ns t1 i = Some x \<longrightarrow> view s' ns t i = Some y \<longrightarrow> record_grows x y)"

lemma growsD: "grows view s t1 s' \<Longrightarrow> t1 \<le> t \<Longrightarrow> view s ns t1 i = Some x \<Longrightarrow> view s' ns t i = Some y \<Longrightarrow> record_grows x y"
  unfolding grows_def by blast

locale cancellation_store =
  fixes T :: "'s cancel_ops"
    and inv :: "'s \<Rightarrow> bool"
    and view :: "'s records"
    and active :: "'s \<Rightarrow> string \<Rightarrow> time \<Rightarrow> string \<Rightarrow> bool"
  assumes view_time: "view s ns t' i = Some x \<Longrightarrow> t \<le> t' \<Longrightarrow> view s ns t i = Some x"
    and active_view: "active s ns t i \<Longrightarrow> view s ns t i \<noteq> None"
    and step_ok: "inv s \<Longrightarrow> clock_in c t0 t1 \<Longrightarrow> cancel_ref_wf (call_ref call) \<Longrightarrow> inv (cancel_step T c call s) \<and> grows view s t1 (cancel_step T c call s)"
    and read_walk: "inv s \<Longrightarrow> clock_in c t0 t1 \<Longrightarrow> view s (cr_namespace r) t0 = view s (cr_namespace r) t1
      \<Longrightarrow> fst (co_read T c r s) = walk (view s (cr_namespace r) t0) [] (Some (cr_id r))"
    and create_ok: "inv s \<Longrightarrow> clock_in c t0 t1 \<Longrightarrow> cancel_ref_wf r \<Longrightarrow> co_create T c r s = (Inr (), s') \<Longrightarrow> t1 \<le> t
      \<Longrightarrow> view s' (cr_namespace r) t (cr_id r) = Some (st, p) \<Longrightarrow> p = cr_parent r"
    and mark_ok: "inv s \<Longrightarrow> clock_in c t0 t1 \<Longrightarrow> co_mark T c r reason s = (Some b, s') \<Longrightarrow> t1 \<le> t
      \<Longrightarrow> active s' (cr_namespace r) t (cr_id r) \<Longrightarrow> requested_in (view s' (cr_namespace r) t) (cr_id r)"
    and touch_ok: "inv s \<Longrightarrow> clock_in c t0 t1 \<Longrightarrow> 0 < cr_ttl r \<Longrightarrow> active s (cr_namespace r) t1 (cr_id r)
      \<Longrightarrow> co_touch T c r s = (b, s') \<Longrightarrow> t < t0 + cr_ttl r \<Longrightarrow> b \<and> active s' (cr_namespace r) t (cr_id r)"
begin

lemma run_grows:
  assumes "kept_run T view ns K (t0, s) (t1, s')" "inv s" "i \<in> K" "view s ns t0 i = Some x"
  shows "inv s' \<and> t0 \<le> t1 \<and> (\<forall>y. view s' ns t1 i = Some y \<longrightarrow> record_grows x y)"
  using assms(1)
proof (induction x\<equiv>"(t0, s)" y\<equiv>"(t1, s')" arbitrary: t1 s' rule: kept_run.induct)
  case kept_refl
  then show ?case using assms by simp
next
  case (kept_step t s1 u c t1 call s')
  have 1: "inv s1" "t0 \<le> t" "\<forall>y. view s1 ns t i = Some y \<longrightarrow> record_grows x y" using kept_step.hyps(2) by auto
  have "t \<le> t1" using clock_inD(4)[OF kept_step.hyps(4)] kept_step.hyps(3) by simp
  obtain y where y: "view s1 ns t1 i = Some y" using kept_step.hyps(5) assms(3) by (auto simp: kept_def)
  have "record_grows x y" using 1(3) view_time[OF y \<open>t \<le> t1\<close>] by simp
  moreover have "record_grows y z" if "view s' ns t1 i = Some z" for z
    using growsD[OF conjunct2[OF step_ok[OF 1(1) kept_step.hyps(4,6)]] order_refl y] that kept_step.hyps(7) by blast
  ultimately show ?case
    using step_ok[OF 1(1) kept_step.hyps(4,6)] kept_step.hyps(7) 1(2) \<open>t \<le> t1\<close> record_grows_trans by fastforce
qed

lemma run_kept: "kept_run T view ns K (t0, s) (t1, s') \<Longrightarrow> kept view ns K s t0 \<Longrightarrow> kept view ns K s' t1"
  by (induction "(t0, s)" "(t1, s')" rule: kept_run.induct) auto

text \<open>
  As long as their records are kept, the descendants of a cancelled control stay below it and
  every read of one of them reports a request.
\<close>

lemma cancellation_reaches:
  assumes run: "kept_run T view ns K (t0, s) (t1, s')" and "inv s" and K: "insert a (set is) \<subseteq> K" "kept view ns K s t0"
    and up: "up (view s ns t0) (Some (cr_id r)) is (Some a)" and a: "requested_in (view s ns t0) a"
    and "length is \<le> max_lineage_depth" and ns: "cr_namespace r = ns"
    and c: "clock_in c t1 t2" and still: "view s' ns t1 = view s' ns t2"
  shows "\<exists>st. fst (co_read T c r s') = Inr st \<and> cs_requested st"
proof -
  have grow: "\<exists>y. view s' ns t1 i = Some y \<and> record_grows x y" if "i \<in> K" "view s ns t0 i = Some x" for i x
    using run_grows[OF run \<open>inv s\<close> that] run_kept[OF run K(2)] that(1) by (auto simp: kept_def)
  have "up (view s' ns t1) (Some (cr_id r)) is (Some a)"
    using up_grows[OF up, of "view s' ns t1"] grow K(1) by blast
  moreover have "requested_in (view s' ns t1) a"
  proof -
    obtain st p where "view s ns t0 a = Some (st, p)" "cs_requested st"
      using a by (auto simp: requested_in_def split: option.splits)
    then show ?thesis using grow[of a "(st, p)"] K(1) record_grows_requested by (fastforce simp: requested_in_def)
  qed
  ultimately have "\<exists>st. walk (view s' ns t1) [] (Some (cr_id r)) = Inr st \<and> cs_requested st"
    using walk_up assms(7) by blast
  moreover have "inv s'"
    using run_grows[OF run \<open>inv s\<close>, of a] K a by (auto simp: requested_in_def split: option.splits)
  ultimately show ?thesis using read_walk[OF _ c, of s' r] still unfolding ns by simp
qed

text \<open>Heartbeats in time keep a record active, if nobody else interferes.\<close>

lemma beats_keep:
  assumes "inv s" "cancel_ref_wf r" "0 < cr_ttl r" "\<And>t. t < limit \<Longrightarrow> active s (cr_namespace r) t (cr_id r)" "timely (cr_ttl r) limit xs"
  shows "fst (heartbeat_run T r (map fst xs) (h, s)) = h"
  using assms
proof (induction xs arbitrary: s limit)
  case (Cons x xs)
  obtain b lo hi where x: "x = (b, lo, hi)" by (cases x)
  have b: "clock_in (br_clock b) lo hi" "hi < limit" "\<not> br_stop b" "\<not> br_fault b" "br_others b = (\<lambda>s. s)"
    "timely (cr_ttl r) (lo + cr_ttl r) xs" using Cons.prems(5) x by auto
  obtain ok s' where s': "co_touch T (br_clock b) r s = (ok, s')" by (cases "co_touch T (br_clock b) r s")
  note touch = touch_ok[OF Cons.prems(1) b(1) Cons.prems(3) Cons.prems(4)[OF b(2)] s']
  have "inv s'" using step_ok[OF Cons.prems(1) b(1), of "Touch r"] Cons.prems(2) s' by simp
  then have "fst (heartbeat_run T r (map fst xs) (h, s')) = h"
    using touch by (intro Cons.IH[OF _ Cons.prems(2,3) _ b(6)]) auto
  moreover have "ok" using touch[of "lo"] Cons.prems(3) by simp
  ultimately show ?case using x b s' by (simp add: Let_def)
qed simp

end

end
