(* ===== verification/Cancel_Memory.thy ===== *)
theory Cancel_Memory
  imports Cancel_Store
begin

text \<open>
  \<open>InMemoryCancellationStore\<close> of \<open>resources/control.py\<close>: two dictionaries, keyed by namespace
  and control. A record never lapses. \<open>request\<close> does not create: on an unknown control it leaves a
  state without a parent, which a later \<open>create\<close> adds.
\<close>

type_synonym control_key = "string \<times> string"

record mem_controls =
  mc_states :: "(control_key \<times> cancel_state) list"
  mc_parents :: "(control_key \<times> string option) list"

definition mc_init :: mem_controls where
  "mc_init = \<lparr>mc_states = [], mc_parents = []\<rparr>"

definition ref_key :: "cancel_ref \<Rightarrow> control_key" where
  "ref_key r = (cr_namespace r, cr_id r)"

text \<open>\<open>dict.setdefault\<close>.\<close>

definition set_default :: "'k \<Rightarrow> 'v \<Rightarrow> ('k \<times> 'v) list \<Rightarrow> ('k \<times> 'v) list" where
  "set_default k v d = (if map_of d k = None then AList.update k v d else d)"

lemma map_of_set_default [simp]:
  "map_of (set_default k v d) k' = (if k' = k \<and> map_of d k = None then Some v else map_of d k')"
  by (auto simp: set_default_def)

definition mc_create :: "cancel_ref \<Rightarrow> mem_controls \<Rightarrow> unit result \<times> mem_controls" where
  "mc_create r s = (let k = ref_key r in
     if (case map_of (mc_parents s) k of None \<Rightarrow> False | Some p \<Rightarrow> p \<noteq> cr_parent r) then (Inl RuntimeError, s)
     else (Inr (), s\<lparr>mc_states := set_default k idle_state (mc_states s),
                     mc_parents := set_default k (cr_parent r) (mc_parents s)\<rparr>))"

function mc_walk :: "mem_controls \<Rightarrow> string \<Rightarrow> string list \<Rightarrow> string option \<Rightarrow> cancel_state result" where
  "mc_walk s ns visited None = Inr idle_state"
| "mc_walk s ns visited (Some i) =
     (if i \<in> set visited then Inl RuntimeError
      else if length (i # visited) > max_lineage_depth + 1 then Inl RuntimeError
      else let st = (case map_of (mc_states s) (ns, i) of None \<Rightarrow> idle_state | Some x \<Rightarrow> x) in
        if cs_requested st then Inr st
        else mc_walk s ns (i # visited) (case map_of (mc_parents s) (ns, i) of None \<Rightarrow> None | Some p \<Rightarrow> p))"
  by pat_completeness auto

termination by (relation "measure (\<lambda>(s, ns, visited, x). max_lineage_depth + 2 - length visited)") auto

declare mc_walk.simps(2) [simp del]

definition mc_read :: "cancel_ref \<Rightarrow> mem_controls \<Rightarrow> cancel_state result" where
  "mc_read r s = mc_walk s (cr_namespace r) [] (Some (cr_id r))"

definition mc_request :: "clock \<Rightarrow> cancel_ref \<Rightarrow> string \<Rightarrow> mem_controls \<Rightarrow> bool \<times> mem_controls" where
  "mc_request c r reason s = (let k = ref_key r in
     if (case map_of (mc_states s) k of None \<Rightarrow> False | Some st \<Rightarrow> cs_requested st) then (False, s)
     else (True, s\<lparr>mc_states := AList.update k (request_state reason (c 0)) (mc_states s)\<rparr>))"

definition mc_touch :: "cancel_ref \<Rightarrow> mem_controls \<Rightarrow> bool" where
  "mc_touch r s \<longleftrightarrow> map_of (mc_states s) (ref_key r) \<noteq> None"

definition mc_retire :: "cancel_ref \<Rightarrow> mem_controls \<Rightarrow> mem_controls" where
  "mc_retire r s = s\<lparr>mc_states := AList.delete (ref_key r) (mc_states s),
     mc_parents := AList.delete (ref_key r) (mc_parents s)\<rparr>"

definition mc_ops :: "mem_controls cancel_ops" where
  "mc_ops = \<lparr>co_create = (\<lambda>c r s. mc_create r s), co_read = (\<lambda>c r s. (mc_read r s, s)),
     co_request = (\<lambda>c r reason s. case mc_request c r reason s of (b, s') \<Rightarrow> (Some (Inr b), s')),
     co_mark = (\<lambda>c r reason s. case mc_request c r reason s of (b, s') \<Rightarrow> (Some b, s')),
     co_touch = (\<lambda>c r s. (mc_touch r s, s)), co_retire = (\<lambda>c r s. mc_retire r s)\<rparr>"

section \<open>The contract\<close>

definition mc_inv :: "mem_controls \<Rightarrow> bool" where
  "mc_inv s \<longleftrightarrow> (\<forall>k. map_of (mc_states s) k = None \<longrightarrow> map_of (mc_parents s) k = None)"

definition mc_parent :: "mem_controls \<Rightarrow> control_key \<Rightarrow> string option" where
  "mc_parent s k = (case map_of (mc_parents s) k of None \<Rightarrow> None | Some p \<Rightarrow> p)"

definition mc_view :: "mem_controls records" where
  "mc_view s ns t i = map_option (\<lambda>st. (st, mc_parent s (ns, i))) (map_of (mc_states s) (ns, i))"

lemma mc_inv_init: "mc_inv mc_init"
  by (simp add: mc_inv_def mc_init_def)

lemma mc_walk_view: "mc_inv s \<Longrightarrow> mc_walk s ns visited x = walk (mc_view s ns t) visited x"
proof (induction s ns visited x rule: mc_walk.induct)
  case (2 s ns visited i)
  show ?case
  proof (cases "map_of (mc_states s) (ns, i)")
    case None
    then have "map_of (mc_parents s) (ns, i) = None" using 2(2) by (simp add: mc_inv_def)
    then show ?thesis using None by (simp add: mc_walk.simps(2) walk.simps(2) mc_view_def)
  next
    case (Some st)
    then show ?thesis using 2 by (simp add: mc_walk.simps(2) walk.simps(2) mc_view_def mc_parent_def)
  qed
qed simp

lemma mc_step: "mc_inv s \<Longrightarrow> mc_inv (cancel_step mc_ops c call s) \<and> grows mc_view s t (cancel_step mc_ops c call s)"
proof (cases call)
  case (Create r)
  then show "mc_inv s \<Longrightarrow> ?thesis"
    by (auto simp: mc_ops_def mc_create_def mc_inv_def grows_def mc_view_def mc_parent_def record_grows_def Let_def
        split: if_splits option.splits)
next
  case (Mark r reason)
  then show "mc_inv s \<Longrightarrow> ?thesis"
    by (auto simp: mc_ops_def mc_request_def mc_inv_def grows_def mc_view_def mc_parent_def record_grows_def Let_def
        split: if_splits option.splits)
next
  case (Retire r)
  then show "mc_inv s \<Longrightarrow> ?thesis"
    by (auto simp: mc_ops_def mc_retire_def mc_inv_def grows_def mc_view_def mc_parent_def delete_conv' split: if_splits)
qed (auto simp: mc_ops_def grows_def mc_view_def)

interpretation mc: cancellation_store mc_ops mc_inv mc_view "\<lambda>s ns t i. mc_view s ns t i \<noteq> None"
proof
  show "mc_inv (cancel_step mc_ops c call s) \<and> grows mc_view s t1 (cancel_step mc_ops c call s)"
    if "mc_inv s" for s c call t1 using mc_step that by blast
  show "fst (co_read mc_ops c r s) = walk (mc_view s (cr_namespace r) t0) [] (Some (cr_id r))"
    if "mc_inv s" for s c r t0 using mc_walk_view[OF that] by (simp add: mc_ops_def mc_read_def)
  show "p = cr_parent r" if "co_create mc_ops c r s = (Inr (), s')" "mc_view s' (cr_namespace r) t (cr_id r) = Some (st, p)"
    for c r s s' t st p
    using that by (auto simp: mc_ops_def mc_create_def mc_view_def mc_parent_def Let_def ref_key_def split: if_splits option.splits)
  show "requested_in (mc_view s' (cr_namespace r) t) (cr_id r)"
    if "co_mark mc_ops c r reason s = (Some b, s')" "mc_view s' (cr_namespace r) t (cr_id r) \<noteq> None" for c r reason s b s' t
    using that by (auto simp: mc_ops_def mc_request_def mc_view_def requested_in_def Let_def ref_key_def split: if_splits option.splits)
qed (auto simp: mc_view_def mc_ops_def mc_touch_def ref_key_def)

end
