(* ===== verification/Cancel_SQLite.thy ===== *)
theory Cancel_SQLite
  imports Cancel_Memory
begin

text \<open>
  \<open>SQLiteCancellationStore\<close> of \<open>resources/control.py\<close>: one table, its primary key is the
  namespace and the control. Each method but \<open>request\<close> is one transaction, which an exception
  rolls back; it first deletes the rows that have expired. \<open>expires_at = 0\<close> means never.
\<close>

record control_row =
  w_key :: control_key
  w_requested :: bool
  w_reason :: string
  w_at :: time
  w_created :: time
  w_parent :: "string option"
  w_root :: "string option"
  w_depth :: int
  w_digest :: string
  w_retired :: time
  w_expires :: time

type_synonym control_rows = "control_row list"

definition row_at :: "control_rows \<Rightarrow> control_key \<Rightarrow> control_row option" where
  "row_at rows k = find (\<lambda>w. w_key w = k) rows"

definition row_expired :: "time \<Rightarrow> control_row \<Rightarrow> bool" where
  "row_expired now w \<longleftrightarrow> 0 < w_expires w \<and> w_expires w \<le> now"

definition sc_purge :: "time \<Rightarrow> control_rows \<Rightarrow> control_rows" where
  "sc_purge now rows = filter (\<lambda>w. \<not> row_expired now w) rows"

definition active_expires_at :: "cancel_ref \<Rightarrow> time \<Rightarrow> time" where
  "active_expires_at r now = (if 0 < cr_ttl r then now + cr_ttl r else 0)"

definition new_row :: "cancel_ref \<Rightarrow> time \<Rightarrow> control_row" where
  "new_row r expires = \<lparr>w_key = ref_key r, w_requested = False, w_reason = [], w_at = 0, w_created = cr_created r,
     w_parent = cr_parent r, w_root = cr_root r, w_depth = cr_depth r, w_digest = cr_digest r, w_retired = 0, w_expires = expires\<rparr>"

text \<open>A row from before the migration has no lineage.\<close>

definition no_lineage :: "control_row \<Rightarrow> bool" where
  "no_lineage w \<longleftrightarrow> (w_root w = None \<or> w_root w = Some []) \<and> w_digest w = []"

definition sc_create :: "clock \<Rightarrow> cancel_ref \<Rightarrow> control_rows \<Rightarrow> unit result \<times> control_rows" where
  "sc_create c r rows =
     (let k = ref_key r;
          rows1 = sc_purge (c 0) rows;
          expires = active_expires_at r (c 1);
          rows2 = (if row_at rows1 k = None then rows1 @ [new_row r expires] else rows1);
          rows3 = tbl_update (\<lambda>w. w_key w = k \<and> no_lineage w)
            (\<lambda>w. w\<lparr>w_parent := cr_parent r, w_root := cr_root r, w_depth := cr_depth r, w_digest := cr_digest r\<rparr>) rows2
      in case row_at rows3 k of
           None \<Rightarrow> (Inr (), rows3)
         | Some w \<Rightarrow>
             if (w_parent w, w_root w, w_depth w, w_digest w) \<noteq> (cr_parent r, cr_root r, cr_depth r, cr_digest r)
             then (Inl RuntimeError, rows)
             else (Inr (), if 0 < expires \<and> w_retired w \<le> 0
               then tbl_update (\<lambda>w. w_key w = k \<and> w_retired w \<le> 0) (\<lambda>w. w\<lparr>w_expires := expires\<rparr>) rows3 else rows3))"

definition row_state :: "control_row \<Rightarrow> cancel_state" where
  "row_state w = \<lparr>cs_requested = w_requested w, cs_reason = w_reason w, cs_at = w_at w\<rparr>"

text \<open>The loop of \<open>read\<close>; its \<open>n\<close>-th round reads the clock \<open>c n\<close>.\<close>

function sc_walk :: "clock \<Rightarrow> nat \<Rightarrow> cancel_ref \<Rightarrow> string list \<Rightarrow> string option \<Rightarrow> control_rows
    \<Rightarrow> cancel_state result \<times> control_rows" where
  "sc_walk c n r visited None rows = (Inr idle_state, rows)"
| "sc_walk c n r visited (Some i) rows =
     (if i \<in> set visited then (Inl RuntimeError, rows)
      else if length (i # visited) > max_lineage_depth + 1 then (Inl RuntimeError, rows)
      else case row_at rows (cr_namespace r, i) of
        None \<Rightarrow> (Inr idle_state, rows)
      | Some w \<Rightarrow>
          let rows1 = (if 0 < cr_ttl r \<and> w_retired w \<le> 0
            then tbl_update (\<lambda>w. w_key w = (cr_namespace r, i)) (\<lambda>w. w\<lparr>w_expires := active_expires_at r (c n)\<rparr>) rows
            else rows)
          in if w_requested w then (Inr (row_state w), rows1)
             else sc_walk c (Suc n) r (i # visited) (w_parent w) rows1)"
  by pat_completeness auto

termination by (relation "measure (\<lambda>(c, n, r, visited, x, rows). max_lineage_depth + 2 - length visited)") auto

declare sc_walk.simps(2) [simp del]

definition sc_read :: "clock \<Rightarrow> cancel_ref \<Rightarrow> control_rows \<Rightarrow> cancel_state result \<times> control_rows" where
  "sc_read c r rows = (case sc_walk c 1 r [] (Some (cr_id r)) (sc_purge (c 0) rows) of
     (Inl e, _) \<Rightarrow> (Inl e, rows) | (Inr st, rows') \<Rightarrow> (Inr st, rows'))"

definition sc_mark :: "clock \<Rightarrow> cancel_ref \<Rightarrow> string \<Rightarrow> control_rows \<Rightarrow> bool \<times> control_rows" where
  "sc_mark c r reason rows =
     (let rows1 = sc_purge (c 0) rows;
          P = (\<lambda>w. w_key w = ref_key r \<and> \<not> w_requested w \<and> w_retired w \<le> 0)
      in (tbl_count P rows1 = 1,
          tbl_update P (\<lambda>w. w\<lparr>w_requested := True, w_reason := or_default reason ''cancelled'', w_at := c 1\<rparr>) rows1))"

definition sc_request :: "clock \<Rightarrow> cancel_ref \<Rightarrow> string \<Rightarrow> control_rows \<Rightarrow> bool result \<times> control_rows" where
  "sc_request c r reason rows = (case sc_create c r rows of
     (Inl e, rows') \<Rightarrow> (Inl e, rows')
   | (Inr (), rows') \<Rightarrow> (case sc_mark (\<lambda>n. c (n + 2)) r reason rows' of (b, rows'') \<Rightarrow> (Inr b, rows'')))"

definition sc_touch :: "clock \<Rightarrow> cancel_ref \<Rightarrow> control_rows \<Rightarrow> bool \<times> control_rows" where
  "sc_touch c r rows =
     (let rows1 = sc_purge (c 0) rows; P = (\<lambda>w. w_key w = ref_key r \<and> w_retired w \<le> 0)
      in (tbl_count P rows1 = 1,
          if 0 < cr_ttl r then tbl_update P (\<lambda>w. w\<lparr>w_expires := active_expires_at r (c 1)\<rparr>) rows1 else rows1))"

definition sc_retire :: "clock \<Rightarrow> cancel_ref \<Rightarrow> control_rows \<Rightarrow> control_rows" where
  "sc_retire c r rows =
     (if 0 < cr_retention r
      then tbl_update (\<lambda>w. w_key w = ref_key r) (\<lambda>w. w\<lparr>w_retired := c 0, w_expires := c 1 + cr_retention r\<rparr>) rows
      else filter (\<lambda>w. w_key w \<noteq> ref_key r) rows)"

definition sc_ops :: "control_rows cancel_ops" where
  "sc_ops = \<lparr>co_create = sc_create, co_read = sc_read,
     co_request = (\<lambda>c r reason s. case sc_request c r reason s of (x, s') \<Rightarrow> (Some x, s')),
     co_mark = (\<lambda>c r reason s. case sc_mark c r reason s of (b, s') \<Rightarrow> (Some b, s')),
     co_touch = sc_touch, co_retire = sc_retire\<rparr>"

section \<open>The contract\<close>

definition sc_inv :: "control_rows \<Rightarrow> bool" where
  "sc_inv rows \<longleftrightarrow> distinct (map w_key rows) \<and> (\<forall>k w. row_at rows k = Some w \<longrightarrow> no_lineage w \<longrightarrow> w_parent w = None)"

definition sc_live :: "control_rows \<Rightarrow> time \<Rightarrow> control_key \<Rightarrow> control_row option" where
  "sc_live rows t k = (case row_at rows k of None \<Rightarrow> None | Some w \<Rightarrow> if row_expired t w then None else Some w)"

definition sc_view :: "control_rows records" where
  "sc_view rows ns t i = map_option (\<lambda>w. (row_state w, w_parent w)) (sc_live rows t (ns, i))"

definition sc_active :: "control_rows \<Rightarrow> string \<Rightarrow> time \<Rightarrow> string \<Rightarrow> bool" where
  "sc_active rows ns t i \<longleftrightarrow> (case sc_live rows t (ns, i) of None \<Rightarrow> False | Some w \<Rightarrow> w_retired w \<le> 0)"

lemma row_at_update: "(\<And>w. w_key (f w) = w_key w) \<Longrightarrow>
    row_at (tbl_update P f rows) k = map_option (\<lambda>w. if P w then f w else w) (row_at rows k)"
  by (induction rows) (auto simp: row_at_def)

lemma row_at_append: "row_at (rows @ ws) k = (case row_at rows k of None \<Rightarrow> row_at ws k | Some w \<Rightarrow> Some w)"
  by (induction rows) (auto simp: row_at_def)

lemma row_at_key: "row_at rows k = Some w \<Longrightarrow> w_key w = k"
  by (auto simp: row_at_def dest: find_SomeD)

lemma row_at_filter: "distinct (map w_key rows) \<Longrightarrow>
    row_at (filter P rows) k = (case row_at rows k of None \<Rightarrow> None | Some w \<Rightarrow> if P w then Some w else None)"
proof (induction rows)
  case (Cons w rows)
  show ?case
  proof (cases "w_key w = k")
    case True
    then have "row_at rows k = None" using Cons.prems by (auto simp: row_at_def find_None_iff' image_iff)
    with True Cons show ?thesis by (simp add: row_at_def)
  qed (use Cons in \<open>auto simp: row_at_def\<close>)
qed (simp add: row_at_def)

lemma sc_inv_keys: "sc_inv rows \<Longrightarrow> distinct (map w_key rows)"
  by (simp add: sc_inv_def)

lemma sc_inv_update:
  assumes "sc_inv rows" "\<And>w. w_key (f w) = w_key w" "\<And>w. no_lineage (f w) \<Longrightarrow> no_lineage w \<and> w_parent (f w) = w_parent w"
  shows "sc_inv (tbl_update P f rows)"
  using assms by (auto simp: sc_inv_def map_tbl_update_same row_at_update split: if_splits)

lemma sc_inv_filter: "sc_inv rows \<Longrightarrow> sc_inv (filter P rows)"
  by (auto simp: sc_inv_def distinct_map_filter row_at_filter split: option.splits if_splits)

lemma sc_inv_append:
  assumes "sc_inv rows" "row_at rows (w_key w) = None" "\<not> no_lineage w"
  shows "sc_inv (rows @ [w])"
proof -
  have "w_key w \<notin> w_key ` set rows" using assms(2) by (auto simp: row_at_def find_None_iff')
  then show ?thesis using assms by (auto simp: sc_inv_def row_at_append row_at_def[of "[w]"] split: option.splits if_splits)
qed

lemma sc_inv_init: "sc_inv []"
  by (simp add: sc_inv_def row_at_def)

lemma row_expired_mono: "row_expired t w \<Longrightarrow> t \<le> t' \<Longrightarrow> row_expired t' w"
  by (auto simp: row_expired_def)

lemma sc_live_purge: "sc_inv rows \<Longrightarrow> now \<le> t \<Longrightarrow> sc_live (sc_purge now rows) t k = sc_live rows t k"
  by (auto simp: sc_live_def sc_purge_def row_at_filter sc_inv_keys row_expired_mono split: option.splits)

lemma sc_live_row: "sc_live rows t k = Some w \<longleftrightarrow> row_at rows k = Some w \<and> \<not> row_expired t w"
  by (auto simp: sc_live_def split: option.splits)

lemma sc_purge_row: "sc_inv rows \<Longrightarrow>
    row_at (sc_purge now rows) k = Some w \<longleftrightarrow> row_at rows k = Some w \<and> \<not> row_expired now w"
  by (auto simp: sc_purge_def row_at_filter sc_inv_keys split: option.splits)

lemma sc_inv_purge: "sc_inv rows \<Longrightarrow> sc_inv (sc_purge now rows)"
  by (simp add: sc_purge_def sc_inv_filter)

text \<open>An operation grows the records if it does so on the rows that it does not purge.\<close>

definition row_grows :: "control_row \<Rightarrow> control_row \<Rightarrow> bool" where
  "row_grows w w' \<longleftrightarrow> record_grows (row_state w, w_parent w) (row_state w', w_parent w')"

lemma row_grows_refl [simp]: "row_grows w w"
  by (simp add: row_grows_def)

lemma sc_growsI:
  assumes "\<And>k w w'. row_at rows k = Some w \<Longrightarrow> \<not> row_expired t w \<Longrightarrow> row_at rows' k = Some w' \<Longrightarrow> row_grows w w'"
  shows "grows sc_view rows t rows'"
  using assms by (auto simp: grows_def sc_view_def sc_live_row row_grows_def)

lemma row_grows_expires [simp]: "row_grows w (w\<lparr>w_expires := e\<rparr>)" "row_grows w (w\<lparr>w_retired := d, w_expires := e\<rparr>)"
  by (simp_all add: row_grows_def row_state_def)

lemma no_lineage_simps [simp]: "no_lineage (w\<lparr>w_expires := e\<rparr>) = no_lineage w" "no_lineage (w\<lparr>w_retired := d\<rparr>) = no_lineage w"
  "no_lineage (w\<lparr>w_requested := q, w_reason := x, w_at := t\<rparr>) = no_lineage w"
  by (simp_all add: no_lineage_def)

text \<open>Rows that differ in the expiry at most.\<close>

definition only_expiry :: "control_row \<Rightarrow> control_row \<Rightarrow> bool" where
  "only_expiry w w' \<longleftrightarrow> w'\<lparr>w_expires := 0\<rparr> = w\<lparr>w_expires := 0\<rparr>"

lemma only_expiry_simps [simp]: "only_expiry w w" "only_expiry w (w\<lparr>w_expires := e\<rparr>)"
  by (simp_all add: only_expiry_def)

lemma only_expiry_fields:
  assumes "only_expiry w w'"
  shows "w_key w' = w_key w" "row_state w' = row_state w" "w_parent w' = w_parent w" "w_retired w' = w_retired w"
    "w_requested w' = w_requested w" "no_lineage w' = no_lineage w"
  using arg_cong[OF assms[unfolded only_expiry_def], of w_key] arg_cong[OF assms[unfolded only_expiry_def], of row_state]
    arg_cong[OF assms[unfolded only_expiry_def], of w_parent] arg_cong[OF assms[unfolded only_expiry_def], of w_retired]
    arg_cong[OF assms[unfolded only_expiry_def], of w_requested] arg_cong[OF assms[unfolded only_expiry_def], of no_lineage]
  by (simp_all add: row_state_def)

lemma only_expiry_trans: "rel_option only_expiry x y \<Longrightarrow> rel_option only_expiry y z \<Longrightarrow> rel_option only_expiry x z"
  by (auto simp: only_expiry_def elim!: option.rel_cases)

lemma sc_walk_rows:
  assumes "sc_walk c n r visited x rows = (res, rows')"
  shows "map w_key rows' = map w_key rows \<and> (\<forall>k. rel_option only_expiry (row_at rows k) (row_at rows' k))"
  using assms
proof (induction c n r visited x rows arbitrary: res rows' rule: sc_walk.induct)
  case (2 c n r visited i rows)
  show ?case
  proof (cases "i \<in> set visited \<or> length (i # visited) > max_lineage_depth + 1 \<or> row_at rows (cr_namespace r, i) = None")
    case True
    then have "rows' = rows" using 2(2) by (simp add: sc_walk.simps(2) split: if_splits)
    then show ?thesis by (simp add: option.rel_refl)
  next
    case False
    then obtain w where w: "row_at rows (cr_namespace r, i) = Some w" "i \<notin> set visited"
      "\<not> length (i # visited) > max_lineage_depth + 1" by auto
    define rows1 where "rows1 = (if 0 < cr_ttl r \<and> w_retired w \<le> 0
      then tbl_update (\<lambda>w. w_key w = (cr_namespace r, i)) (\<lambda>w. w\<lparr>w_expires := active_expires_at r (c n)\<rparr>) rows else rows)"
    have 1: "map w_key rows1 = map w_key rows \<and> (\<forall>k. rel_option only_expiry (row_at rows k) (row_at rows1 k))"
      by (auto simp: rows1_def map_tbl_update_same row_at_update option.rel_map intro!: option.rel_refl_strong)
    show ?thesis
    proof (cases "w_requested w")
      case True
      then show ?thesis using 2(2) w 1 by (auto simp: sc_walk.simps(2) rows1_def[symmetric] Let_def)
    next
      case nreq: False
      have "sc_walk c (Suc n) r (i # visited) (w_parent w) rows1 = (res, rows')"
        using 2(2) w nreq by (simp add: sc_walk.simps(2) rows1_def[symmetric] Let_def)
      then have 2: "map w_key rows' = map w_key rows1 \<and> (\<forall>k. rel_option only_expiry (row_at rows1 k) (row_at rows' k))"
        using 2(1)[OF w(2,3,1) rows1_def nreq] by blast
      have "rel_option only_expiry (row_at rows k) (row_at rows' k)" for k
        using 1 2 only_expiry_trans by blast
      then show ?thesis using 1 2 by simp
    qed
  qed
qed (simp add: option.rel_refl)

lemma sc_walk_view:
  assumes "\<And>i w. row_at rows (cr_namespace r, i) = Some w \<Longrightarrow> m i = Some (row_state w, w_parent w)"
    "\<And>i. row_at rows (cr_namespace r, i) = None \<Longrightarrow> m i = None"
  shows "fst (sc_walk c n r visited x rows) = walk m visited x"
  using assms
proof (induction c n r visited x rows rule: sc_walk.induct)
  case (2 c n r visited i rows)
  show ?case
  proof (cases "row_at rows (cr_namespace r, i)")
    case None
    then show ?thesis using 2(3)[of i] by (simp add: sc_walk.simps(2) walk.simps(2))
  next
    case (Some w)
    let ?rows = "if 0 < cr_ttl r \<and> w_retired w \<le> 0
      then tbl_update (\<lambda>w. w_key w = (cr_namespace r, i)) (\<lambda>w. w\<lparr>w_expires := active_expires_at r (c n)\<rparr>) rows else rows"
    have "m j = Some (row_state w', w_parent w')" if "row_at ?rows (cr_namespace r, j) = Some w'" for j w'
      using that 2(2)[of j] by (auto simp: row_at_update row_state_def split: if_splits)
    moreover have "m j = None" if "row_at ?rows (cr_namespace r, j) = None" for j
      using that 2(3)[of j] by (auto simp: row_at_update split: if_splits)
    ultimately show ?thesis
      using 2(1)[OF _ _ Some, of ?rows] 2(2)[OF Some] Some
      by (simp add: sc_walk.simps(2) walk.simps(2) Let_def row_state_def split: if_splits)
  qed
qed simp

lemma sc_create_rows:
  assumes inv: "sc_inv rows" and r: "cr_digest r \<noteq> []" and create: "sc_create c r rows = (res, rows')"
  shows "sc_inv rows' \<and> (\<forall>k w w'. row_at rows k = Some w \<longrightarrow> \<not> row_expired (c 0) w \<longrightarrow> row_at rows' k = Some w' \<longrightarrow> row_grows w w')
    \<and> (res = Inr () \<longrightarrow> (\<forall>w. row_at rows' (ref_key r) = Some w \<longrightarrow> w_parent w = cr_parent r))"
proof -
  define k where "k = ref_key r"
  define rows1 where "rows1 = sc_purge (c 0) rows"
  define rows2 where "rows2 = (if row_at rows1 k = None then rows1 @ [new_row r (active_expires_at r (c 1))] else rows1)"
  define rows3 where "rows3 = tbl_update (\<lambda>w. w_key w = k \<and> no_lineage w)
    (\<lambda>w. w\<lparr>w_parent := cr_parent r, w_root := cr_root r, w_depth := cr_depth r, w_digest := cr_digest r\<rparr>) rows2"
  have inv1: "sc_inv rows1" using inv by (simp add: rows1_def sc_inv_purge)
  have "\<not> no_lineage (new_row r e)" for e using r by (simp add: no_lineage_def new_row_def)
  then have inv2: "sc_inv rows2" using inv1 by (auto simp: rows2_def new_row_def k_def intro!: sc_inv_append)
  have inv3: "sc_inv rows3" unfolding rows3_def using r by (intro sc_inv_update[OF inv2]) (auto simp: no_lineage_def)
  have grow: "row_grows w w'" if w: "row_at rows j = Some w" "\<not> row_expired (c 0) w" "row_at rows3 j = Some w'" for j w w'
  proof -
    have "row_at rows1 j = Some w" using w inv by (simp add: rows1_def sc_purge_row)
    then have 2: "row_at rows2 j = Some w" by (auto simp: rows2_def row_at_append)
    then have "no_lineage w \<Longrightarrow> w_parent w = None" using inv2 unfolding sc_inv_def by blast
    then show ?thesis using w(3) 2 by (auto simp: rows3_def row_at_update row_grows_def record_grows_def row_state_def split: if_splits)
  qed
  define rows4 where "rows4 = tbl_update (\<lambda>w. w_key w = k \<and> w_retired w \<le> 0) (\<lambda>w. w\<lparr>w_expires := active_expires_at r (c 1)\<rparr>) rows3"
  from create consider (error) "res = Inl RuntimeError" "rows' = rows"
    | (fine) "\<forall>w. row_at rows3 k = Some w \<longrightarrow> w_parent w = cr_parent r" "rows' = rows3 \<or> rows' = rows4"
    unfolding sc_create_def Let_def k_def[symmetric] rows1_def[symmetric] rows2_def[symmetric] rows3_def[symmetric] rows4_def[symmetric]
    by (auto split: option.splits if_splits)
  then show ?thesis
  proof cases
    case fine
    have "sc_inv rows4" unfolding rows4_def by (rule sc_inv_update[OF inv3]) auto
    moreover have "row_grows w w'" if "row_at rows j = Some w" "\<not> row_expired (c 0) w" "row_at rows4 j = Some w'" for j w w'
      using grow[OF that(1,2)] that(3) by (auto simp: rows4_def row_at_update row_grows_def row_state_def split: if_splits)
    moreover have "w_parent w = cr_parent r" if "row_at rows4 k = Some w" for w
      using fine(1) that by (auto simp: rows4_def row_at_update)
    ultimately show ?thesis using inv3 grow fine unfolding k_def by blast
  qed (use inv in auto)
qed

lemma sc_step:
  assumes "sc_inv s" "clock_in c t0 t1" "cancel_ref_wf (call_ref call)"
  shows "sc_inv (cancel_step sc_ops c call s) \<and> grows sc_view s t1 (cancel_step sc_ops c call s)"
proof -
  have live: "\<not> row_expired (c 0) w" if "\<not> row_expired t1 w" for w
    using that row_expired_mono clock_inD(2)[OF assms(2)] by blast
  have purge: "row_at (sc_purge (c 0) s) k = Some w" if "row_at s k = Some w" "\<not> row_expired t1 w" for k w
    using that live assms(1) by (simp add: sc_purge_row)
  have inv1: "sc_inv (sc_purge (c 0) s)" by (rule sc_inv_purge[OF assms(1)])
  show ?thesis
  proof (cases call)
    case (Create r)
    then have "cr_digest r \<noteq> []" using assms(3) by (auto simp: cancel_ref_wf_def hex_digest_def)
    then show ?thesis using sc_create_rows[OF assms(1), of r c] live Create
      by (cases "sc_create c r s") (auto simp: sc_ops_def intro!: sc_growsI)
  next
    case (Read r)
    obtain res rows' where w: "sc_walk c 1 r [] (Some (cr_id r)) (sc_purge (c 0) s) = (res, rows')" by fastforce
    note rows = sc_walk_rows[OF w]
    have "sc_inv rows'" unfolding sc_inv_def
    proof safe
      show "distinct (map w_key rows')" using rows inv1 by (simp add: sc_inv_def)
      fix i j w assume w: "row_at rows' (i, j) = Some w" "no_lineage w"
      obtain v where "row_at (sc_purge (c 0) s) (i, j) = Some v" "only_expiry v w"
        using conjunct2[OF rows, rule_format, of "(i, j)"] w(1) by (auto elim: option.rel_cases)
      then show "w_parent w = None" using w(2) only_expiry_fields[of v w] inv1 unfolding sc_inv_def by metis
    qed
    moreover have "row_grows w w'" if "row_at s k = Some w" "\<not> row_expired t1 w" "row_at rows' k = Some w'" for k w w'
      using conjunct2[OF rows, rule_format, of k] purge[OF that(1,2)] that(3) only_expiry_fields by (fastforce simp: row_grows_def)
    ultimately show ?thesis using w assms(1) Read
      by (cases res) (auto simp: sc_ops_def sc_read_def intro!: sc_growsI)
  next
    case (Mark r reason)
    then show ?thesis using inv1 purge
      by (auto simp: sc_ops_def sc_mark_def Let_def row_at_update row_grows_def record_grows_def row_state_def
          intro!: sc_growsI sc_inv_update split: if_splits)
  next
    case (Touch r)
    then show ?thesis using inv1 purge
      by (auto simp: sc_ops_def sc_touch_def Let_def row_at_update intro!: sc_growsI sc_inv_update split: if_splits)
  next
    case (Retire r)
    then show ?thesis using assms(1) by (auto simp: sc_ops_def sc_retire_def row_at_update row_at_filter sc_inv_keys
          intro!: sc_growsI sc_inv_update sc_inv_filter split: if_splits option.splits)
  qed
qed

lemma sc_view_between:
  assumes "clock_in c t0 t1" "sc_view s ns t0 = sc_view s ns t1" "row_at s (ns, i) = Some w"
  shows "row_expired (c n) w = row_expired t0 w"
proof -
  have "sc_view s ns t0 i = sc_view s ns t1 i" using assms(2) by simp
  then have "row_expired t1 w = row_expired t0 w" using assms(3) by (auto simp: sc_view_def sc_live_def split: if_splits)
  then show ?thesis using row_expired_mono[of t0 w "c n"] row_expired_mono[of "c n" w t1] clock_inD(1,2)[OF assms(1), of n] by blast
qed

interpretation sc: cancellation_store sc_ops sc_inv sc_view sc_active
proof
  show "sc_inv (cancel_step sc_ops c call s) \<and> grows sc_view s t1 (cancel_step sc_ops c call s)"
    if "sc_inv s" "clock_in c t0 t1" "cancel_ref_wf (call_ref call)" for s c t0 t1 call by (rule sc_step[OF that])
  show "fst (co_read sc_ops c r s) = walk (sc_view s (cr_namespace r) t0) [] (Some (cr_id r))"
    if "sc_inv s" "clock_in c t0 t1" "sc_view s (cr_namespace r) t0 = sc_view s (cr_namespace r) t1" for s c t0 t1 r
  proof -
    have "sc_view s (cr_namespace r) t0 i = map_option (\<lambda>w. (row_state w, w_parent w)) (row_at (sc_purge (c 0) s) (cr_namespace r, i))" for i
      using sc_view_between[OF that(2,3)] that(1) by (auto simp: sc_view_def sc_live_def sc_purge_def row_at_filter sc_inv_keys split: option.splits)
    then have "fst (sc_walk c 1 r [] (Some (cr_id r)) (sc_purge (c 0) s)) = walk (sc_view s (cr_namespace r) t0) [] (Some (cr_id r))"
      by (intro sc_walk_view) simp_all
    then show ?thesis by (auto simp: sc_ops_def sc_read_def split: prod.splits sum.splits)
  qed
  show "p = cr_parent r" if "sc_inv s" "co_create sc_ops c r s = (Inr (), s')"
      "sc_view s' (cr_namespace r) t (cr_id r) = Some (st, p)" "cancel_ref_wf r"
    for c r s s' t st p
  proof -
    have "cr_digest r \<noteq> []" using that(4) by (auto simp: cancel_ref_wf_def hex_digest_def)
    then show ?thesis using sc_create_rows[OF that(1), of r c "Inr ()" s'] that(2,3)
      by (auto simp: sc_ops_def sc_view_def sc_live_row ref_key_def)
  qed
  show "requested_in (sc_view s' (cr_namespace r) t) (cr_id r)"
    if "sc_inv s" "co_mark sc_ops c r reason s = (Some b, s')" "sc_active s' (cr_namespace r) t (cr_id r)" for c r reason s b s' t
  proof -
    note act = that(3) and mark = that(2)
    obtain w where w: "row_at s' (ref_key r) = Some w" "\<not> row_expired t w" "w_retired w \<le> 0"
      using act by (auto simp: sc_active_def sc_live_row ref_key_def split: option.splits)
    obtain v where v: "row_at (sc_purge (c 0) s) (ref_key r) = Some v"
      "w = (if w_key v = ref_key r \<and> \<not> w_requested v \<and> w_retired v \<le> 0
        then v\<lparr>w_requested := True, w_reason := or_default reason ''cancelled'', w_at := c 1\<rparr> else v)"
      using mark w(1) by (auto simp: sc_ops_def sc_mark_def Let_def row_at_update)
    have "w_requested w" using w(3) row_at_key[OF v(1)] unfolding v(2) by (auto split: if_splits)
    then show ?thesis using w by (auto simp: requested_in_def sc_view_def sc_live_def row_state_def ref_key_def)
  qed
  show "b \<and> sc_active s' (cr_namespace r) t (cr_id r)"
    if "sc_inv s" "clock_in c t0 t1" "0 < cr_ttl r" "sc_active s (cr_namespace r) t1 (cr_id r)"
      "co_touch sc_ops c r s = (b, s')" "t < t0 + cr_ttl r" for s c t0 t1 r b s' t
  proof -
    note act = that(4) and touch = that(5)
    define rows1 where "rows1 = sc_purge (c 0) s"
    define P where "P = (\<lambda>w :: control_row. w_key w = ref_key r \<and> w_retired w \<le> 0)"
    obtain w where w: "row_at s (ref_key r) = Some w" "\<not> row_expired t1 w" "w_retired w \<le> 0"
      using act by (auto simp: sc_active_def sc_live_row ref_key_def split: option.splits)
    have "row_at rows1 (ref_key r) = Some w" unfolding rows1_def
      using w that(1) row_expired_mono[of "c 0" w t1] clock_inD(2)[OF that(2)] by (auto simp: sc_purge_row)
    moreover from this have "tbl_count P rows1 = 1"
    proof -
      have "w \<in> set rows1" "w_key w = ref_key r" using \<open>row_at rows1 (ref_key r) = Some w\<close> unfolding row_at_def by (auto dest: find_SomeD)
      then have "\<exists>w\<in>set rows1. P w" using w(3) unfolding P_def by blast
      moreover have "distinct (map w_key rows1)" unfolding rows1_def by (rule sc_inv_keys[OF sc_inv_purge[OF that(1)]])
      ultimately show ?thesis by (subst tbl_count_key[where key = w_key and k = "ref_key r"]) (simp_all add: P_def)
    qed
    moreover have "t < c 1 + cr_ttl r" "0 < cr_ttl r" using \<open>t < t0 + cr_ttl r\<close> \<open>0 < cr_ttl r\<close> clock_inD(1)[OF that(2), of 1] by auto
    moreover have "b = (tbl_count P rows1 = 1)" "s' = tbl_update P (\<lambda>w. w\<lparr>w_expires := c 1 + cr_ttl r\<rparr>) rows1"
      using touch \<open>0 < cr_ttl r\<close> by (simp_all add: sc_ops_def sc_touch_def Let_def P_def rows1_def active_expires_at_def)
    moreover have "P w" using w(3) row_at_key[OF w(1)] by (simp add: P_def)
    ultimately show ?thesis
      by (simp add: sc_active_def sc_live_def row_at_update ref_key_def[symmetric] row_expired_def w(3))
  qed
qed (auto simp: sc_view_def sc_active_def sc_live_row row_expired_def split: option.splits)

end
