(* ===== verification/Cancel_Redis.thy ===== *)
theory Cancel_Redis
  imports Cancel_SQLite
begin

text \<open>
  \<open>RedisCancellationStore\<close> of \<open>resources/control.py\<close>: one JSON value per control, with a time to
  live that the server enforces: a key is gone from the second it expires. \<open>c n\<close> is the server's
  clock at the \<open>n\<close>-th command. \<open>request\<close> writes under \<open>WATCH\<close>: \<open>rc_attempt\<close> is one round of its
  loop, with the writes of other clients between \<open>WATCH\<close> and \<open>EXEC\<close> as a parameter; they, or the
  expiry of the key, make \<open>EXEC\<close> fail. In the other operations the commands follow one another
  undisturbed.
\<close>

record control_entry =
  ce_state :: cancel_state
  ce_parent :: "string option"
  ce_root :: "string option"
  ce_depth :: int
  ce_digest :: string
  ce_retired :: time

type_synonym control_db = "(string \<times> control_entry \<times> time option) list"

section \<open>Commands\<close>

definition gone :: "time \<Rightarrow> time option \<Rightarrow> bool" where
  "gone now ex \<longleftrightarrow> (case ex of None \<Rightarrow> False | Some d \<Rightarrow> d \<le> now)"

definition db_get :: "time \<Rightarrow> string \<Rightarrow> control_db \<Rightarrow> control_entry option" where
  "db_get now k s = (case map_of s k of None \<Rightarrow> None | Some (e, ex) \<Rightarrow> if gone now ex then None else Some e)"

definition db_expiry :: "time \<Rightarrow> int option \<Rightarrow> time option" where
  "db_expiry now ttl = map_option (\<lambda>n. now + of_int n) ttl"

definition db_set :: "time \<Rightarrow> string \<Rightarrow> control_entry \<Rightarrow> int option \<Rightarrow> control_db \<Rightarrow> control_db" where
  "db_set now k e ttl s = AList.update k (e, db_expiry now ttl) s"

definition db_set_nx :: "time \<Rightarrow> string \<Rightarrow> control_entry \<Rightarrow> int option \<Rightarrow> control_db \<Rightarrow> bool \<times> control_db" where
  "db_set_nx now k e ttl s = (if db_get now k s = None then (True, db_set now k e ttl s) else (False, s))"

definition db_apply :: "(string \<times> (control_entry \<times> time option) option) list \<Rightarrow> control_db \<Rightarrow> control_db" where
  "db_apply ws s = fold (\<lambda>(k, v). case v of None \<Rightarrow> AList.delete k | Some x \<Rightarrow> AList.update k x) ws s"

section \<open>Operations\<close>

definition rc_key :: "string \<Rightarrow> string \<Rightarrow> string" where
  "rc_key ns i = ''blackbase:'' @ ns @ '':control:'' @ i"

definition rc_ref_key :: "cancel_ref \<Rightarrow> string" where
  "rc_ref_key r = rc_key (cr_namespace r) (cr_id r)"

definition rc_ttl :: "cancel_ref \<Rightarrow> int option" where
  "rc_ttl r = (if 0 < cr_ttl r then Some (max 1 \<lceil>cr_ttl r\<rceil>) else None)"

definition rc_entry :: "cancel_ref \<Rightarrow> control_entry" where
  "rc_entry r = \<lparr>ce_state = idle_state, ce_parent = cr_parent r, ce_root = cr_root r, ce_depth = cr_depth r,
     ce_digest = cr_digest r, ce_retired = 0\<rparr>"

text \<open>\<open>_touch_key\<close>. If the key expires before \<open>EXEC\<close>, the next round of the loop does not find it.\<close>

definition rc_touch_key :: "clock \<Rightarrow> string \<Rightarrow> int option \<Rightarrow> control_db \<Rightarrow> bool \<times> control_db" where
  "rc_touch_key c k ttl s = (case db_get (c 0) k s of
     None \<Rightarrow> (False, s)
   | Some e \<Rightarrow> if 0 < ce_retired e then (False, s)
       else case ttl of None \<Rightarrow> (True, s)
       | Some n \<Rightarrow> if db_get (c 1) k s = None then (False, s) else (True, db_set (c 1) k e ttl s))"

definition rc_touch :: "clock \<Rightarrow> cancel_ref \<Rightarrow> control_db \<Rightarrow> bool \<times> control_db" where
  "rc_touch c r s = rc_touch_key c (rc_ref_key r) (rc_ttl r) s"

definition rc_create :: "clock \<Rightarrow> cancel_ref \<Rightarrow> control_db \<Rightarrow> unit result \<times> control_db" where
  "rc_create c r s =
     (let k = rc_ref_key r;
          check = (\<lambda>e s. if (ce_parent e, ce_root e, ce_depth e, ce_digest e) \<noteq> (cr_parent r, cr_root r, cr_depth r, cr_digest r)
            then (Inl RuntimeError, s)
            else if ce_retired e \<le> 0 then (Inr (), snd (rc_touch (\<lambda>n. c (n + 4)) r s)) else (Inr (), s))
      in case db_set_nx (c 0) k (rc_entry r) (rc_ttl r) s of
           (True, s1) \<Rightarrow> (Inr (), s1)
         | (False, _) \<Rightarrow> (case db_get (c 1) k s of
             Some e \<Rightarrow> check e s
           | None \<Rightarrow> (case db_set_nx (c 2) k (rc_entry r) (rc_ttl r) s of
               (True, s1) \<Rightarrow> (Inr (), s1)
             | (False, _) \<Rightarrow> (case db_get (c 3) k s of None \<Rightarrow> (Inl RuntimeError, s) | Some e \<Rightarrow> check e s))))"

function rc_walk :: "clock \<Rightarrow> nat \<Rightarrow> cancel_ref \<Rightarrow> string list \<Rightarrow> string option \<Rightarrow> control_db
    \<Rightarrow> cancel_state result \<times> control_db" where
  "rc_walk c n r visited None s = (Inr idle_state, s)"
| "rc_walk c n r visited (Some i) s =
     (if i \<in> set visited then (Inl RuntimeError, s)
      else if length (i # visited) > max_lineage_depth + 1 then (Inl RuntimeError, s)
      else case db_get (c n) (rc_key (cr_namespace r) i) s of
        None \<Rightarrow> (Inr idle_state, s)
      | Some e \<Rightarrow>
          let s1 = (if ce_retired e \<le> 0
            then snd (rc_touch_key (\<lambda>j. c (n + 1 + j)) (rc_key (cr_namespace r) i) (rc_ttl r) s) else s)
          in if cs_requested (ce_state e) then (Inr (ce_state e), s1)
             else rc_walk c (n + 3) r (i # visited) (ce_parent e) s1)"
  by pat_completeness auto

termination by (relation "measure (\<lambda>(c, n, r, visited, x, s). max_lineage_depth + 2 - length visited)") auto

declare rc_walk.simps(2) [simp del]

definition rc_read :: "clock \<Rightarrow> cancel_ref \<Rightarrow> control_db \<Rightarrow> cancel_state result \<times> control_db" where
  "rc_read c r s = rc_walk c 0 r [] (Some (cr_id r)) s"

datatype request_attempt = Missing | Conflict | Verdict bool

definition rc_attempt :: "clock \<Rightarrow> (string \<times> (control_entry \<times> time option) option) list \<Rightarrow> cancel_ref \<Rightarrow> string \<Rightarrow> control_db
    \<Rightarrow> request_attempt \<times> control_db" where
  "rc_attempt c ws r reason s = (let k = rc_ref_key r in case db_get (c 0) k s of
     None \<Rightarrow> (Missing, s)
   | Some e \<Rightarrow> if 0 < ce_retired e then (Verdict False, s)
       else if cs_requested (ce_state e) then (Verdict False, s)
       else let s1 = db_apply ws s in
         if k \<in> fst ` set ws \<or> db_get (c 2) k s1 = None then (Conflict, s1)
         else (Verdict True, db_set (c 2) k (e\<lparr>ce_state := request_state reason (c 1)\<rparr>) (rc_ttl r) s1))"

text \<open>
  \<open>request\<close> with the rounds of its loop that happen; \<open>None\<close>: they are over and it still tries.
\<close>

fun rc_request_loop :: "(clock \<times> (string \<times> (control_entry \<times> time option) option) list) list \<Rightarrow> cancel_ref \<Rightarrow> string
    \<Rightarrow> control_db \<Rightarrow> bool result option \<times> control_db" where
  "rc_request_loop [] r reason s = (None, s)"
| "rc_request_loop ((c, ws) # rounds) r reason s = (case rc_attempt c ws r reason s of
     (Verdict b, s1) \<Rightarrow> (Some (Inr b), s1)
   | (Conflict, s1) \<Rightarrow> rc_request_loop rounds r reason s1
   | (Missing, s1) \<Rightarrow> (case rc_create (\<lambda>n. c (n + 3)) r s1 of
       (Inl e, s2) \<Rightarrow> (Some (Inl e), s2)
     | (Inr (), s2) \<Rightarrow> rc_request_loop rounds r reason s2))"

definition rc_request :: "(clock \<times> (string \<times> (control_entry \<times> time option) option) list) list \<Rightarrow> clock \<Rightarrow> cancel_ref
    \<Rightarrow> string \<Rightarrow> control_db \<Rightarrow> bool result option \<times> control_db" where
  "rc_request rounds c r reason s = (case rc_create c r s of
     (Inl e, s1) \<Rightarrow> (Some (Inl e), s1) | (Inr (), s1) \<Rightarrow> rc_request_loop rounds r reason s1)"

definition rc_mark :: "clock \<Rightarrow> cancel_ref \<Rightarrow> string \<Rightarrow> control_db \<Rightarrow> bool option \<times> control_db" where
  "rc_mark c r reason s = (case rc_attempt c [] r reason s of
     (Verdict b, s1) \<Rightarrow> (Some b, s1) | (_, s1) \<Rightarrow> (None, s1))"

text \<open>\<open>retire\<close>. If the key expires before \<open>EXEC\<close>, the next round does not find it and returns.\<close>

definition rc_retire :: "clock \<Rightarrow> cancel_ref \<Rightarrow> control_db \<Rightarrow> control_db" where
  "rc_retire c r s = (let k = rc_ref_key r in
     if 0 < cr_retention r then
       case db_get (c 0) k s of
         None \<Rightarrow> s
       | Some e \<Rightarrow> if db_get (c 2) k s = None then s
           else db_set (c 2) k (e\<lparr>ce_retired := c 1\<rparr>) (Some (max 1 \<lceil>cr_retention r\<rceil>)) s
     else AList.delete k s)"

text \<open>The operations, with \<open>m\<close> undisturbed rounds for a request.\<close>

definition quiet_rounds :: "nat \<Rightarrow> clock \<Rightarrow> (clock \<times> (string \<times> (control_entry \<times> time option) option) list) list" where
  "quiet_rounds m c = map (\<lambda>i. (\<lambda>n. c (n + 6 + 9 * i), [])) [0..<m]"

definition rc_ops :: "nat \<Rightarrow> control_db cancel_ops" where
  "rc_ops m = \<lparr>co_create = rc_create, co_read = rc_read, co_request = (\<lambda>c. rc_request (quiet_rounds m c) c),
     co_mark = rc_mark, co_touch = rc_touch, co_retire = rc_retire\<rparr>"

section \<open>The contract\<close>

definition rc_view :: "control_db records" where
  "rc_view s ns t i = map_option (\<lambda>e. (ce_state e, ce_parent e)) (db_get t (rc_key ns i) s)"

definition rc_active :: "control_db \<Rightarrow> string \<Rightarrow> time \<Rightarrow> string \<Rightarrow> bool" where
  "rc_active s ns t i \<longleftrightarrow> (case db_get t (rc_key ns i) s of None \<Rightarrow> False | Some e \<Rightarrow> ce_retired e \<le> 0)"

lemma rc_key_inj [simp]: "rc_key ns i = rc_key ns j \<longleftrightarrow> i = j"
  by (simp add: rc_key_def)

lemma gone_mono: "gone t ex \<Longrightarrow> t \<le> t' \<Longrightarrow> gone t' ex"
  by (auto simp: gone_def split: option.splits)

lemma db_get_time: "db_get t' k s = Some e \<Longrightarrow> t \<le> t' \<Longrightarrow> db_get t k s = Some e"
  by (auto simp: db_get_def gone_mono split: option.splits if_splits)

lemma db_get_eq: "db_get t k s = Some e \<Longrightarrow> db_get t' k s = Some e' \<Longrightarrow> e' = e"
  by (auto simp: db_get_def split: option.splits if_splits)

lemma db_get_set: "db_get t k (db_set now j e ttl s) = (if k = j then if gone t (db_expiry now ttl) then None else Some e else db_get t k s)"
  by (auto simp: db_get_def db_set_def)

lemma db_get_delete: "db_get t k (AList.delete j s) = (if k = j then None else db_get t k s)"
  by (auto simp: db_get_def delete_conv')

lemma db_apply_other: "k \<notin> fst ` set ws \<Longrightarrow> db_get t k (db_apply ws s) = db_get t k s"
  unfolding db_apply_def
  by (induction ws arbitrary: s) (auto simp: db_get_def delete_conv' split: option.splits)

text \<open>An operation grows the records if it does so on each key that is live throughout.\<close>

definition entry_grows :: "control_entry \<Rightarrow> control_entry \<Rightarrow> bool" where
  "entry_grows e e' \<longleftrightarrow> record_grows (ce_state e, ce_parent e) (ce_state e', ce_parent e')"

lemma entry_grows_simps [simp]: "entry_grows e e" "entry_grows e (e\<lparr>ce_retired := d\<rparr>)"
  "\<not> cs_requested (ce_state e) \<Longrightarrow> cs_requested st \<Longrightarrow> entry_grows e (e\<lparr>ce_state := st\<rparr>)"
  by (auto simp: entry_grows_def record_grows_def)

text \<open>Touching and reading change no value.\<close>

definition entry_of :: "control_db \<Rightarrow> string \<Rightarrow> control_entry option" where
  "entry_of s k = map_option fst (map_of s k)"

lemma db_get_entry: "db_get t k s = Some e \<Longrightarrow> entry_of s k = Some e"
  by (auto simp: db_get_def entry_of_def split: option.splits if_splits)

lemma entry_of_set: "entry_of (db_set now j e ttl s) k = (if k = j then Some e else entry_of s k)"
  by (simp add: entry_of_def db_set_def)

lemma rc_growsI:
  assumes "\<And>k e e'. db_get t1 k s = Some e \<Longrightarrow> entry_of s' k = Some e' \<Longrightarrow> entry_grows e e'"
  shows "grows rc_view s t1 s'"
  using assms db_get_entry by (fastforce simp: grows_def rc_view_def entry_grows_def)

lemma entry_of_delete: "entry_of (AList.delete j s) k = (if k = j then None else entry_of s k)"
  by (simp add: entry_of_def delete_conv')

lemma rc_touch_entry [simp]: "entry_of (snd (rc_touch_key c k ttl s)) j = entry_of s j"
  by (auto simp: rc_touch_key_def entry_of_set dest: db_get_entry split: option.splits)

lemma rc_touch_other: "j \<noteq> k \<Longrightarrow> db_get t j (snd (rc_touch_key c k ttl s)) = db_get t j s"
  by (auto simp: rc_touch_key_def db_get_set split: option.splits)

lemma rc_walk_entry: "entry_of (snd (rc_walk c n r visited x s)) j = entry_of s j"
proof (induction c n r visited x s rule: rc_walk.induct)
  case (2 c n r visited i s)
  show ?case
  proof (cases "db_get (c n) (rc_key (cr_namespace r) i) s")
    case (Some e)
    then show ?thesis using 2[OF _ _ Some refl] by (auto simp: rc_walk.simps(2) Let_def)
  qed (simp add: rc_walk.simps(2))
qed simp

lemma rc_create_cases:
  assumes "rc_create c r s = (x, s')"
  obtains (error) "x = Inl RuntimeError" "s' = s"
  | (fresh) n where "x = Inr ()" "db_get (c n) (rc_ref_key r) s = None" "s' = db_set (c n) (rc_ref_key r) (rc_entry r) (rc_ttl r) s"
  | (old) e where "x = Inr ()" "entry_of s (rc_ref_key r) = Some e" "ce_parent e = cr_parent r" "\<And>j. entry_of s' j = entry_of s j"
proof (cases "db_get (c 0) (rc_ref_key r) s")
  case None
  then show ?thesis using assms fresh[of 0] by (simp add: rc_create_def db_set_nx_def Let_def)
next
  case (Some e0)
  show ?thesis
  proof (cases "db_get (c 1) (rc_ref_key r) s = None \<and> db_get (c 2) (rc_ref_key r) s = None")
    case True
    then show ?thesis using Some assms fresh[of 2] by (simp add: rc_create_def db_set_nx_def Let_def)
  next
    case False
    then consider (check) e where "entry_of s (rc_ref_key r) = Some e" "ce_parent e = cr_parent r" "x = Inr ()"
        "s' = snd (rc_touch (\<lambda>n. c (n + 4)) r s) \<or> s' = s"
      | "x = Inl RuntimeError" "s' = s"
      using Some assms unfolding rc_create_def db_set_nx_def Let_def
      by (auto dest: db_get_entry split: option.splits if_splits)
    then show ?thesis using old error by cases (auto simp: rc_touch_def)
  qed
qed

lemma rc_mark_cases:
  assumes "rc_mark c r reason s = (x, s')"
  obtains (same) "s' = s" "\<And>b. x = Some b \<Longrightarrow> \<not> b \<and> (\<exists>e. entry_of s (rc_ref_key r) = Some e \<and> (0 < ce_retired e \<or> cs_requested (ce_state e)))"
  | (set) e where "x = Some True" "db_get (c 0) (rc_ref_key r) s = Some e" "\<not> cs_requested (ce_state e)"
      "s' = db_set (c 2) (rc_ref_key r) (e\<lparr>ce_state := request_state reason (c 1)\<rparr>) (rc_ttl r) s"
proof (cases "db_get (c 0) (rc_ref_key r) s")
  case None
  then show ?thesis using assms same by (simp add: rc_mark_def rc_attempt_def Let_def)
next
  case (Some e)
  then show ?thesis using assms same set[OF _ Some] db_get_entry[OF Some]
    by (auto simp: rc_mark_def rc_attempt_def Let_def db_apply_def split: if_splits)
qed

lemma rc_step:
  assumes "clock_in c t0 t1"
  shows "grows rc_view s t1 (cancel_step (rc_ops m) c call s)"
proof -
  have keep: "grows rc_view s t1 s'" if "\<And>j. entry_of s' j = entry_of s j" for s'
    using that by (intro rc_growsI) (metis db_get_entry entry_grows_simps(1) option.inject)
  have live: "entry_of s k = Some e \<and> db_get (c n) k s = Some e" if "db_get t1 k s = Some e" for k e n
    using that db_get_time clock_inD(2)[OF assms] db_get_entry by blast
  show ?thesis
  proof (cases call)
    case (Create r)
    obtain x s' where x: "rc_create c r s = (x, s')" by fastforce
    then have "grows rc_view s t1 s'"
    proof (cases rule: rc_create_cases)
      case (fresh n)
      show ?thesis
      proof (rule rc_growsI)
        fix k e e' assume "db_get t1 k s = Some e" "entry_of s' k = Some e'"
        then show "entry_grows e e'" using live[of k e n] fresh by (auto simp: entry_of_set split: if_splits)
      qed
    qed (auto intro: keep)
    then show ?thesis using Create x by (simp add: rc_ops_def)
  next
    case (Mark r reason)
    obtain x s' where x: "rc_mark c r reason s = (x, s')" by fastforce
    then have "grows rc_view s t1 s'"
    proof (cases rule: rc_mark_cases)
      case (set e0)
      show ?thesis
      proof (rule rc_growsI)
        fix k e e' assume "db_get t1 k s = Some e" "entry_of s' k = Some e'"
        then show "entry_grows e e'" using live[of k e 0] set by (auto simp: entry_of_set split: if_splits)
      qed
    qed (auto intro: keep)
    then show ?thesis using Mark x by (simp add: rc_ops_def)
  next
    case (Retire r)
    have "entry_grows e e'" if "db_get t1 k s = Some e" "entry_of (rc_retire c r s) k = Some e'" for k e e'
      using live[OF that(1)] that(2) unfolding rc_retire_def Let_def
      by (auto simp: entry_of_set entry_of_delete split: option.splits if_splits)
    then show ?thesis using Retire by (simp add: rc_ops_def rc_growsI)
  qed (simp_all add: rc_ops_def rc_touch_def rc_read_def keep rc_walk_entry)
qed

lemma rc_walk_view:
  assumes "\<And>i j. i \<notin> set visited \<Longrightarrow> map_option (\<lambda>e. (ce_state e, ce_parent e)) (db_get (c j) (rc_key (cr_namespace r) i) s) = m i"
  shows "fst (rc_walk c n r visited x s) = walk m visited x"
  using assms
proof (induction c n r visited x s rule: rc_walk.induct)
  case (2 c n r visited i s)
  show ?case
  proof (cases "i \<in> set visited \<or> length (i # visited) > max_lineage_depth + 1")
    case True
    then show ?thesis by (auto simp: rc_walk.simps(2) walk.simps(2))
  next
    case False
    then have m: "m i = map_option (\<lambda>e. (ce_state e, ce_parent e)) (db_get (c n) (rc_key (cr_namespace r) i) s)"
      using 2(2)[of i n] by simp
    show ?thesis
    proof (cases "db_get (c n) (rc_key (cr_namespace r) i) s")
      case None
      then show ?thesis using False m by (simp add: rc_walk.simps(2) walk.simps(2))
    next
      case (Some e)
      define s1 where "s1 = (if ce_retired e \<le> 0
        then snd (rc_touch_key (\<lambda>j. c (n + 1 + j)) (rc_key (cr_namespace r) i) (rc_ttl r) s) else s)"
      have "map_option (\<lambda>e. (ce_state e, ce_parent e)) (db_get (c j) (rc_key (cr_namespace r) k) s1) = m k"
        if "k \<notin> set (i # visited)" for k j
        using that 2(2)[of k j] by (auto simp: s1_def rc_touch_other)
      then show ?thesis using 2(1)[OF _ _ Some s1_def] False m Some
        by (simp add: rc_walk.simps(2) walk.simps(2) s1_def[symmetric] Let_def)
    qed
  qed
qed simp

lemma rc_view_between:
  assumes "clock_in c t0 t1" "rc_view s ns t0 = rc_view s ns t1"
  shows "rc_view s ns (c n) i = rc_view s ns t0 i"
proof -
  have "rc_view s ns t1 i = rc_view s ns t0 i" using assms(2) by simp
  then show ?thesis using clock_inD(1,2)[OF assms(1), of n]
    by (auto simp: rc_view_def db_get_def split: option.splits if_splits dest: gone_mono)
qed

interpretation rc: cancellation_store "rc_ops m" "\<lambda>s. True" rc_view rc_active for m :: nat
proof
  show "True \<and> grows rc_view s t1 (cancel_step (rc_ops m) c call s)"
    if "clock_in c t0 t1" for s c t0 t1 call using rc_step[OF that] by simp
  show "fst (co_read (rc_ops m) c r s) = walk (rc_view s (cr_namespace r) t0) [] (Some (cr_id r))"
    if "clock_in c t0 t1" "rc_view s (cr_namespace r) t0 = rc_view s (cr_namespace r) t1" for s c t0 t1 r
  proof -
    have "fst (rc_walk c 0 r [] (Some (cr_id r)) s) = walk (rc_view s (cr_namespace r) t0) [] (Some (cr_id r))"
      by (rule rc_walk_view) (use rc_view_between[OF that] in \<open>simp add: rc_view_def\<close>)
    then show ?thesis by (simp add: rc_ops_def rc_read_def)
  qed
  show "p = cr_parent r" if "clock_in c t0 t1" "co_create (rc_ops m) c r s = (Inr (), s')" "t1 \<le> t"
      "rc_view s' (cr_namespace r) t (cr_id r) = Some (st, p)" for c t0 t1 r s s' t st p
  proof -
    have "rc_create c r s = (Inr (), s')" using that(2) by (simp add: rc_ops_def)
    then show ?thesis using that(4)
      by (cases rule: rc_create_cases) (auto simp: rc_view_def rc_ref_key_def[symmetric] entry_of_set rc_entry_def dest!: db_get_entry)
  qed
  show "requested_in (rc_view s' (cr_namespace r) t) (cr_id r)"
    if "clock_in c t0 t1" "co_mark (rc_ops m) c r reason s = (Some b, s')" "t1 \<le> t" "rc_active s' (cr_namespace r) t (cr_id r)"
    for c t0 t1 r reason s b s' t
  proof -
    note act = that(4)
    obtain e where e: "db_get t (rc_ref_key r) s' = Some e" "ce_retired e \<le> 0"
      using act by (auto simp: rc_active_def rc_ref_key_def split: option.splits)
    have "rc_mark c r reason s = (Some b, s')" using that(2) by (simp add: rc_ops_def)
    then have "cs_requested (ce_state e)"
      by (cases rule: rc_mark_cases) (use e db_get_entry[OF e(1)] in \<open>auto simp: entry_of_set\<close>)
    then show ?thesis using e by (simp add: requested_in_def rc_view_def rc_ref_key_def[symmetric])
  qed
  show "b \<and> rc_active s' (cr_namespace r) t (cr_id r)"
    if "clock_in c t0 t1" "0 < cr_ttl r" "rc_active s (cr_namespace r) t1 (cr_id r)"
      "co_touch (rc_ops m) c r s = (b, s')" "t < t0 + cr_ttl r" for s c t0 t1 r b s' t
  proof -
    obtain e where e: "db_get t1 (rc_ref_key r) s = Some e" "ce_retired e \<le> 0"
      using \<open>rc_active s (cr_namespace r) t1 (cr_id r)\<close> by (auto simp: rc_active_def rc_ref_key_def split: option.splits)
    have "db_get (c n) (rc_ref_key r) s = Some e" for n using db_get_time[OF e(1)] clock_inD(2)[OF that(1)] by blast
    moreover have "t < c 1 + of_int (max 1 \<lceil>cr_ttl r\<rceil>)"
      using that(5) clock_inD(1)[OF that(1), of 1] le_of_int_ceiling[of "cr_ttl r"] by linarith
    ultimately show ?thesis using that(2,4) e(2)
      by (auto simp: rc_ops_def rc_touch_def rc_touch_key_def rc_ttl_def rc_active_def rc_ref_key_def[symmetric] db_get_set
          db_expiry_def gone_def)
  qed
  show "rc_view s ns t i = Some x" if "rc_view s ns t' i = Some x" "t \<le> t'" for s ns t' i x t
    using that db_get_time[OF _ that(2)] by (auto simp: rc_view_def)
qed (auto simp: rc_view_def rc_active_def split: option.splits)

end
