(* ===== verification/Case_Control.thy ===== *)
theory Case_Control
  imports Budget_Settlement Cancel_Model
begin

text \<open>
  The identity and the control of a Case invocation, from \<open>project/execution.py\<close>:
  \<open>CaseRunIdentity\<close> and \<open>ExecutionControl\<close>. Uuids are parameters; a fresh one is not empty.
\<close>

section \<open>Identities\<close>

record identity =
  ci_project :: string
  ci_root :: string
  ci_case :: string
  ci_parent :: string
  ci_invocation :: string
  ci_attempt :: int
  ci_depth :: int

text \<open>\<open>__post_init__\<close>; \<open>p\<close> and \<open>q\<close> are the identifiers it would generate for the Project and the Case.\<close>

definition identity_post_init :: "string \<Rightarrow> string \<Rightarrow> identity \<Rightarrow> identity result" where
  "identity_post_init p q x =
     (let proj = or_default (ci_project x) p; top = or_default (ci_root x) proj; run = or_default (ci_case x) q;
          inv = or_default (ci_invocation x) run; depth = max 0 (ci_depth x) in
      rbind (guard (\<not> (0 < depth \<and> ci_parent x = [])) ValueError) (\<lambda>_.
      Inr \<lparr>ci_project = proj, ci_root = top, ci_case = run, ci_parent = ci_parent x, ci_invocation = inv,
           ci_attempt = max 0 (ci_attempt x), ci_depth = depth\<rparr>))"

text \<open>\<open>child\<close>: \<open>u\<close> and \<open>v\<close> are fresh names for the Case run and the invocation.\<close>

definition identity_child :: "string \<Rightarrow> string \<Rightarrow> string \<Rightarrow> string \<Rightarrow> identity \<Rightarrow> identity result" where
  "identity_child u v invocation run x = identity_post_init u u
     \<lparr>ci_project = ci_project x, ci_root = ci_root x, ci_case = or_default run u, ci_parent = ci_case x,
      ci_invocation = or_default invocation v, ci_attempt = 0, ci_depth = ci_depth x + 1\<rparr>"

definition identity_for_attempt :: "int \<Rightarrow> identity \<Rightarrow> identity result" where
  "identity_for_attempt n x = (let k = max 0 n in
     if k = ci_attempt x then Inr x
     else identity_post_init [] []
       \<lparr>ci_project = ci_project x, ci_root = ci_root x,
        ci_case = ci_invocation x @ '':attempt:'' @ int_string k, ci_parent = ci_parent x,
        ci_invocation = ci_invocation x, ci_attempt = k, ci_depth = ci_depth x\<rparr>)"

definition identity_from_dict :: "string \<Rightarrow> string \<Rightarrow> dict \<Rightarrow> identity result" where
  "identity_from_dict p q d =
     rbind (get_int d ''attempt'' 0) (\<lambda>attempt.
     rbind (get_int d ''depth'' 0) (\<lambda>depth.
     identity_post_init p q \<lparr>ci_project = get_str d ''project_run_id'', ci_root = get_str d ''root_run_id'',
       ci_case = get_str d ''case_run_id'', ci_parent = get_str d ''parent_case_run_id'',
       ci_invocation = get_str d ''invocation_id'', ci_attempt = attempt, ci_depth = depth\<rparr>))"

definition identity_as_dict :: "identity \<Rightarrow> dict" where
  "identity_as_dict x = [(''project_run_id'', PStr (ci_project x)), (''root_run_id'', PStr (ci_root x)),
     (''case_run_id'', PStr (ci_case x)), (''parent_case_run_id'', PStr (ci_parent x)),
     (''invocation_id'', PStr (ci_invocation x)), (''attempt'', PInt (ci_attempt x)), (''depth'', PInt (ci_depth x))]"

definition identity_wf :: "identity \<Rightarrow> bool" where
  "identity_wf x \<longleftrightarrow> ci_project x \<noteq> [] \<and> ci_root x \<noteq> [] \<and> ci_case x \<noteq> [] \<and> ci_invocation x \<noteq> []
     \<and> 0 \<le> ci_attempt x \<and> 0 \<le> ci_depth x \<and> (0 < ci_depth x \<longrightarrow> ci_parent x \<noteq> [])"

lemma or_default_eq_Nil [simp]: "or_default s d = [] \<longleftrightarrow> s = [] \<and> d = []"
  by (simp add: or_default_def)

lemma identity_post_init_wf: "identity_post_init p q x = Inr y \<Longrightarrow> p \<noteq> [] \<Longrightarrow> q \<noteq> [] \<Longrightarrow> identity_wf y"
  by (auto simp: identity_post_init_def identity_wf_def Let_def)

lemma identity_post_init_id: "identity_wf x \<Longrightarrow> identity_post_init p q x = Inr x"
  by (cases x) (auto simp: identity_post_init_def identity_wf_def Let_def)

lemma identity_round_trip: "identity_wf x \<Longrightarrow> identity_from_dict p q (identity_as_dict x) = Inr x"
proof -
  assume wf: "identity_wf x"
  have "identity_from_dict p q (identity_as_dict x) = identity_post_init p q x"
    by (cases x) (simp add: identity_from_dict_def identity_as_dict_def get_defs)
  then show ?thesis by (simp add: identity_post_init_id wf)
qed

text \<open>A child names its parent and stays in the same Project run; an attempt keeps the lineage.\<close>

lemma identity_child_wf:
  assumes "identity_wf x" "u \<noteq> []" "v \<noteq> []"
  shows "\<exists>y. identity_child u v invocation run x = Inr y \<and> identity_wf y \<and> ci_parent y = ci_case x
    \<and> ci_project y = ci_project x \<and> ci_root y = ci_root x \<and> ci_depth y = ci_depth x + 1 \<and> ci_attempt y = 0"
  using assms by (auto simp: identity_child_def identity_post_init_def identity_wf_def Let_def or_default_def)

lemma identity_for_attempt_wf:
  assumes "identity_wf x"
  shows "\<exists>y. identity_for_attempt n x = Inr y \<and> identity_wf y \<and> ci_attempt y = max 0 n \<and> ci_parent y = ci_parent x
    \<and> ci_project y = ci_project x \<and> ci_root y = ci_root x \<and> ci_depth y = ci_depth x \<and> ci_invocation y = ci_invocation x"
  using assms by (auto simp: identity_for_attempt_def identity_post_init_def identity_wf_def Let_def or_default_def)

section \<open>Execution control\<close>

record control =
  ec_cancel :: cancel_ref
  ec_termination :: termination_policy
  ec_metadata :: dict

text \<open>\<open>freeze_wire_mapping(_transport_safe(...))\<close>, for values without objects of other classes.\<close>

definition safe_mapping :: "dict \<Rightarrow> dict result" where
  "safe_mapping d = rbind (plain_wire d) freeze_wire_mapping"

definition control_post_init :: "cancel_ref list \<Rightarrow> control \<Rightarrow> control result" where
  "control_post_init ancestors x =
     rbind (guard (ancestors = []) ValueError) (\<lambda>_.
     rbind (safe_mapping (ec_metadata x)) (\<lambda>md. Inr (x\<lparr>ec_metadata := md\<rparr>)))"

definition with_timeout :: "(string \<Rightarrow> string) \<Rightarrow> clock \<Rightarrow> string \<Rightarrow> rat option \<Rightarrow> cancel_ref \<Rightarrow> termination_policy \<Rightarrow> dict \<Rightarrow> control result" where
  "with_timeout sha c fresh timeout_seconds opts term md =
     (let timeout = (case timeout_seconds of None \<Rightarrow> 0 | Some x \<Rightarrow> x) in
      rbind (guard (\<not> timeout < 0) ValueError) (\<lambda>_.
      let deadline = (if timeout = 0 then 0 else c 0 + timeout) in
      rbind (cancel_ref_post_init sha (c 1) \<lparr>cr_id = fresh, cr_backend = cr_backend opts, cr_namespace = cr_namespace opts,
          cr_path = cr_path opts, cr_url_env = cr_url_env opts, cr_deadline = deadline, cr_created = c 1, cr_parent = None,
          cr_root = None, cr_depth = 0, cr_digest = [], cr_ttl = cr_ttl opts, cr_heartbeat = cr_heartbeat opts,
          cr_retention = cr_retention opts\<rparr>) (\<lambda>ref.
      control_post_init [] \<lparr>ec_cancel = ref, ec_termination = term, ec_metadata = md\<rparr>)))"

text \<open>The child may be a control of its own or only a reference.\<close>

datatype child_arg = Child_Control control | Child_Ref cancel_ref

definition lineage_step :: "(string \<Rightarrow> string) \<Rightarrow> cancel_ref \<Rightarrow> string \<Rightarrow> string" where
  "lineage_step sha parent i = sha (cr_digest parent @ '':'' @ cr_id parent @ '':'' @ i)"

definition ref_root :: "cancel_ref \<Rightarrow> string" where
  "ref_root r = (case cr_root r of None \<Rightarrow> cr_id r | Some x \<Rightarrow> or_default x (cr_id r))"

definition extends_lineage :: "(string \<Rightarrow> string) \<Rightarrow> cancel_ref \<Rightarrow> cancel_ref \<Rightarrow> bool" where
  "extends_lineage sha parent r \<longleftrightarrow> cr_parent r = Some (cr_id parent) \<and> cr_root r = Some (ref_root parent)
     \<and> cr_depth r = cr_depth parent + 1 \<and> cr_digest r = lineage_step sha parent (cr_id r)"

fun check_intermediates :: "(string \<Rightarrow> string) \<Rightarrow> cancel_ref \<Rightarrow> cancel_ref \<Rightarrow> cancel_ref list \<Rightarrow> cancel_ref result" where
  "check_intermediates sha self expected [] = Inr expected"
| "check_intermediates sha self expected (r # rs) =
     rbind (guard (cr_backend r = cr_backend self \<and> cr_namespace r = cr_namespace self \<and> cr_path r = cr_path self) ValueError) (\<lambda>_.
     rbind (guard (extends_lineage sha expected r) ValueError) (\<lambda>_.
     check_intermediates sha self r rs))"

definition effective_deadline :: "time \<Rightarrow> time \<Rightarrow> time" where
  "effective_deadline a b = (let ds = filter (\<lambda>x. 0 < x) [a, b] in if ds = [] then 0 else min_list ds)"

definition derive_child :: "(string \<Rightarrow> string) \<Rightarrow> time \<Rightarrow> control \<Rightarrow> child_arg \<Rightarrow> cancel_ref list \<Rightarrow> control result" where
  "derive_child sha now self child mids =
     (let cref = (case child of Child_Control x \<Rightarrow> ec_cancel x | Child_Ref r \<Rightarrow> r);
          term = (case child of Child_Control x \<Rightarrow> ec_termination x | Child_Ref _ \<Rightarrow> ec_termination self);
          cmd = (case child of Child_Control x \<Rightarrow> ec_metadata x | Child_Ref _ \<Rightarrow> []) in
      rbind (check_intermediates sha (ec_cancel self) (ec_cancel self) mids) (\<lambda>parent.
      rbind (guard (Some (cr_id cref) \<notin> {Some (cr_id (ec_cancel self)), cr_root (ec_cancel self)}
          \<and> cr_id cref \<notin> cr_id ` set mids) ValueError) (\<lambda>_.
      rbind (cancel_ref_post_init sha now
        \<lparr>cr_id = cr_id cref, cr_backend = cr_backend parent, cr_namespace = cr_namespace parent, cr_path = cr_path parent,
         cr_url_env = cr_url_env parent, cr_deadline = effective_deadline (cr_deadline parent) (cr_deadline cref),
         cr_created = cr_created cref, cr_parent = Some (cr_id parent), cr_root = Some (ref_root parent),
         cr_depth = cr_depth parent + 1, cr_digest = lineage_step sha parent (cr_id cref), cr_ttl = cr_ttl parent,
         cr_heartbeat = cr_heartbeat parent, cr_retention = cr_retention parent\<rparr>) (\<lambda>ref.
      control_post_init [] \<lparr>ec_cancel = ref, ec_termination = term,
        ec_metadata = dict_update (dict_update (ec_metadata self) cmd)
          [(''parent_control_id'', PStr (cr_id (ec_cancel self))), (''lineage_root_control_id'', opt_val (cr_root ref)),
           (''lineage_depth'', PInt (cr_depth ref)), (''lineage_digest'', PStr (cr_digest ref)),
           (''intermediate_control_ids'', PList (map (\<lambda>r. PStr (cr_id r)) mids))]\<rparr>))))"

definition control_from_dict :: "(string \<Rightarrow> string) \<Rightarrow> time \<Rightarrow> string \<Rightarrow> dict \<Rightarrow> control result" where
  "control_from_dict sha now fresh d =
     (let payload = (case dict_get d ''cancellation'' PNone of PMap x \<Rightarrow> x | _ \<Rightarrow> []) in
      rbind (cancel_ref_from_dict sha now payload) (\<lambda>ref.
      rbind (py_iter (py_or (dict_get d ''ancestor_cancellations'' (PTuple [])) (PTuple []))) (\<lambda>raw.
      rbind (map_result (\<lambda>v. rbind (py_dict v) (cancel_ref_from_dict sha now)) raw) (\<lambda>ancestors.
      rbind (get_dict d ''termination'') (\<lambda>t.
      rbind (termination_from_dict t) (\<lambda>term.
      rbind (get_dict d ''metadata'') (\<lambda>md.
      control_post_init ancestors \<lparr>ec_cancel = ref, ec_termination = term, ec_metadata = md\<rparr>)))))))"

definition control_as_dict :: "control \<Rightarrow> dict" where
  "control_as_dict x = [(''cancellation'', PMap (cancel_ref_as_dict (ec_cancel x))), (''ancestor_cancellations'', PList []),
     (''deadline_at'', PNum (cr_deadline (ec_cancel x))), (''termination'', PMap (termination_as_dict (ec_termination x))),
     (''metadata'', PMap (thaw_wire_mapping (ec_metadata x)))]"


text \<open>What a derived control is.\<close>

lemma check_intermediates_Inr:
  assumes "check_intermediates sha self expected mids = Inr parent" "ref_root expected = base" "base \<noteq> []"
    "cr_backend expected = cr_backend self" "cr_namespace expected = cr_namespace self" "cr_path expected = cr_path self"
  shows "cr_backend parent = cr_backend self \<and> cr_namespace parent = cr_namespace self \<and> cr_path parent = cr_path self
    \<and> ref_root parent = base \<and> cr_depth parent = cr_depth expected + int (length mids) \<and> parent = last (expected # mids)"
  using assms
proof (induction mids arbitrary: expected)
  case (Cons r rs)
  have r: "cr_backend r = cr_backend self" "cr_namespace r = cr_namespace self" "cr_path r = cr_path self"
    "extends_lineage sha expected r" "check_intermediates sha self r rs = Inr parent" using Cons.prems(1) by auto
  then have "ref_root r = base" "cr_depth r = cr_depth expected + 1"
    using Cons.prems(2,3) by (auto simp: extends_lineage_def ref_root_def or_default_def split: option.splits)
  then show ?case using Cons.IH[OF r(5) _ Cons.prems(3) r(1,2,3)] by (auto split: if_splits)
qed simp

lemma effective_deadline_le:
  "0 \<le> effective_deadline a b" "0 < a \<Longrightarrow> 0 < effective_deadline a b \<and> effective_deadline a b \<le> a"
  "0 < b \<Longrightarrow> 0 < effective_deadline a b \<and> effective_deadline a b \<le> b"
  "\<not> 0 < a \<Longrightarrow> \<not> 0 < b \<Longrightarrow> effective_deadline a b = 0"
  by (auto simp: effective_deadline_def Let_def)

definition child_ref :: "child_arg \<Rightarrow> cancel_ref" where
  "child_ref child = (case child of Child_Control x \<Rightarrow> ec_cancel x | Child_Ref r \<Rightarrow> r)"

lemma frozen_plain [simp]: "frozen (plain v) = frozen v"
  by (induction v rule: plain.induct) (auto simp: comp_def)

lemma safe_mapping_simps: "safe_mapping d = (if list_all (\<lambda>(k, v). wire_safe v) d then Inr (map (\<lambda>(k, v). (k, frozen v)) d) else Inl TypeError)"
  by (auto simp: safe_mapping_def plain_wire_def freeze_wire_mapping_eq list_all_iff frozen_plain)

lemma derive_child_Inr:
  assumes "derive_child sha now self child mids = Inr x" "cancel_ref_wf (ec_cancel self)"
  shows "\<exists>parent. check_intermediates sha (ec_cancel self) (ec_cancel self) mids = Inr parent
    \<and> cr_id (child_ref child) \<notin> {cr_id (ec_cancel self), ref_root (ec_cancel self)} \<union> cr_id ` set mids
    \<and> cancel_ref_post_init sha now
        \<lparr>cr_id = cr_id (child_ref child), cr_backend = cr_backend parent, cr_namespace = cr_namespace parent, cr_path = cr_path parent,
         cr_url_env = cr_url_env parent, cr_deadline = effective_deadline (cr_deadline parent) (cr_deadline (child_ref child)),
         cr_created = cr_created (child_ref child), cr_parent = Some (cr_id parent), cr_root = Some (ref_root parent),
         cr_depth = cr_depth parent + 1, cr_digest = lineage_step sha parent (cr_id (child_ref child)), cr_ttl = cr_ttl parent,
         cr_heartbeat = cr_heartbeat parent, cr_retention = cr_retention parent\<rparr> = Inr (ec_cancel x)"
proof -
  have root: "cr_root (ec_cancel self) = Some (ref_root (ec_cancel self))"
    using assms(2) by (auto simp: cancel_ref_wf_def ref_root_def split: option.splits)
  show ?thesis using assms(1)
    unfolding derive_child_def Let_def rbind_Inr guard_Inr child_ref_def[symmetric] control_post_init_def root by auto
qed

end
