(* ===== verification/Cancel_Properties.thy ===== *)
theory Cancel_Properties
  imports Cancel_Redis Case_Control
begin

text \<open>
  Properties of cancellation: lineages, what the three stores promise about requests, records and
  heartbeats, and what Redis keys do not keep apart.
\<close>

section \<open>What the stores promise\<close>

text \<open>
  \<open>read\<close> is the lineage walk over the recorded controls, if none of them lapses meanwhile.
\<close>

definition reads_lineage :: "'s cancel_ops \<Rightarrow> ('s \<Rightarrow> bool) \<Rightarrow> 's records \<Rightarrow> bool" where
  "reads_lineage T I view \<longleftrightarrow> (\<forall>s c t0 t1 r. I s \<longrightarrow> clock_in c t0 t1
     \<longrightarrow> view s (cr_namespace r) t0 = view s (cr_namespace r) t1
     \<longrightarrow> fst (co_read T c r s) = walk (view s (cr_namespace r) t0) [] (Some (cr_id r)))"

text \<open>
  A request on a control is seen by every descendant within the supported depth, after any run
  that keeps the records of the controls between them.
\<close>

definition reaches_descendants :: "'s cancel_ops \<Rightarrow> ('s \<Rightarrow> bool) \<Rightarrow> 's records \<Rightarrow> bool" where
  "reaches_descendants T I view \<longleftrightarrow> (\<forall>s t0 s' t1 a is r c t2.
     I s \<longrightarrow> requested_in (view s (cr_namespace r) t0) a
     \<longrightarrow> up (view s (cr_namespace r) t0) (Some (cr_id r)) is (Some a) \<longrightarrow> length is \<le> max_lineage_depth
     \<longrightarrow> kept view (cr_namespace r) (insert a (set is)) s t0
     \<longrightarrow> kept_run T view (cr_namespace r) (insert a (set is)) (t0, s) (t1, s')
     \<longrightarrow> clock_in c t1 t2 \<longrightarrow> view s' (cr_namespace r) t1 = view s' (cr_namespace r) t2
     \<longrightarrow> (\<exists>st. fst (co_read T c r s') = Inr st \<and> cs_requested st))"

text \<open>
  A successful call of \<open>request\<close> marks an active record, and while the record is kept its request
  (the reason and the time) never changes.
\<close>

definition first_request_wins :: "'s cancel_ops \<Rightarrow> ('s \<Rightarrow> bool) \<Rightarrow> 's records \<Rightarrow> ('s \<Rightarrow> string \<Rightarrow> time \<Rightarrow> string \<Rightarrow> bool) \<Rightarrow> bool" where
  "first_request_wins T I view active \<longleftrightarrow>
     (\<forall>s c t0 t1 r reason b s'. I s \<longrightarrow> clock_in c t0 t1 \<longrightarrow> co_mark T c r reason s = (Some b, s')
        \<longrightarrow> active s' (cr_namespace r) t1 (cr_id r) \<longrightarrow> requested_in (view s' (cr_namespace r) t1) (cr_id r))
   \<and> (\<forall>s t0 s' t1 ns i st p st' p'. I s \<longrightarrow> kept_run T view ns {i} (t0, s) (t1, s') \<longrightarrow> view s ns t0 i = Some (st, p)
        \<longrightarrow> cs_requested st \<longrightarrow> view s' ns t1 i = Some (st', p') \<longrightarrow> st' = st)"

text \<open>Heartbeats in time keep an active record.\<close>

definition heartbeats_hold :: "'s cancel_ops \<Rightarrow> ('s \<Rightarrow> bool) \<Rightarrow> ('s \<Rightarrow> string \<Rightarrow> time \<Rightarrow> string \<Rightarrow> bool) \<Rightarrow> bool" where
  "heartbeats_hold T I active \<longleftrightarrow> (\<forall>s r c t0 t1 xs.
     I s \<longrightarrow> cancel_ref_wf r \<longrightarrow> 0 < cr_ttl r \<longrightarrow> clock_in c t0 t1 \<longrightarrow> active s (cr_namespace r) t1 (cr_id r)
     \<longrightarrow> timely (cr_ttl r) (t0 + cr_ttl r) xs
     \<longrightarrow> (\<exists>h s1. heartbeat_init T c r s = (Inr h, s1)
         \<and> assert_current (fst (heartbeat_run T r (map fst xs) (h, s1))) = Inr ()))"

context cancellation_store
begin

lemma reads_lineage_ok: "reads_lineage T inv view"
  unfolding reads_lineage_def using read_walk by blast

lemma reaches_descendants_ok: "reaches_descendants T inv view"
  unfolding reaches_descendants_def using cancellation_reaches by blast

lemma first_request_wins_ok: "first_request_wins T inv view active"
  unfolding first_request_wins_def
proof (intro conjI allI impI)
  fix s c t0 t1 r reason b s'
  assume "inv s" "clock_in c t0 t1" "co_mark T c r reason s = (Some b, s')" "active s' (cr_namespace r) t1 (cr_id r)"
  then show "requested_in (view s' (cr_namespace r) t1) (cr_id r)" using mark_ok by blast
next
  fix s t0 s' t1 ns i st p st' p'
  assume a: "inv s" "kept_run T view ns {i} (t0, s) (t1, s')" "view s ns t0 i = Some (st, p)" "cs_requested st"
    "view s' ns t1 i = Some (st', p')"
  show "st' = st" using run_grows[OF a(2,1) _ a(3)] record_grows_requested[OF _ a(4)] a(5) by fastforce
qed

lemma heartbeats_hold_ok: "heartbeats_hold T inv active"
  unfolding heartbeats_hold_def
proof (intro allI impI)
  fix s r c t0 t1 and xs :: "('s beat_round \<times> time \<times> time) list"
  assume a: "inv s" "cancel_ref_wf r" "0 < cr_ttl r" "clock_in c t0 t1" "active s (cr_namespace r) t1 (cr_id r)"
    "timely (cr_ttl r) (t0 + cr_ttl r) xs"
  obtain b s1 where s1: "co_touch T c r s = (b, s1)" by fastforce
  note touch = touch_ok[OF a(1,4,3,5) s1]
  have "inv s1" using step_ok[OF a(1,4), of "Touch r"] a(2) s1 by simp
  then have "fst (heartbeat_run T r (map fst xs) (\<lparr>hb_lost = False, hb_failed = False\<rparr>, s1)) = \<lparr>hb_lost = False, hb_failed = False\<rparr>"
    using touch by (intro beats_keep[OF _ a(2,3) _ a(6)]) auto
  moreover have "b" using touch[of t0] a(3) by simp
  ultimately show "\<exists>h s1. heartbeat_init T c r s = (Inr h, s1) \<and> assert_current (fst (heartbeat_run T r (map fst xs) (h, s1))) = Inr ()"
    using s1 a(3) by (auto simp: heartbeat_init_def assert_current_def)
qed

end

section \<open>Examples\<close>

definition cancel_sha :: "string \<Rightarrow> string" where
  "cancel_sha s = replicate 64 (CHR ''0'')"

definition ex_ref :: "string \<Rightarrow> string \<Rightarrow> string \<Rightarrow> rat \<Rightarrow> cancel_ref" where
  "ex_ref backend ns i ttl = \<lparr>cr_id = i, cr_backend = backend, cr_namespace = ns, cr_path = ''db'', cr_url_env = ''URL'',
     cr_deadline = 0, cr_created = 1, cr_parent = None, cr_root = Some i, cr_depth = 0, cr_digest = cancel_sha i,
     cr_ttl = ttl, cr_heartbeat = ttl / 2, cr_retention = 0\<rparr>"

definition ex_child_ref :: "string \<Rightarrow> string \<Rightarrow> rat \<Rightarrow> cancel_ref" where
  "ex_child_ref parent i ttl = (ex_ref ''sqlite'' ''ns'' i ttl)\<lparr>cr_parent := Some parent, cr_root := Some parent, cr_depth := 1\<rparr>"

definition ex_controls :: control_rows where
  "ex_controls = snd (sc_mark (\<lambda>_. 2) (ex_ref ''sqlite'' ''ns'' ''p'' 0) ''stop''
     (snd (sc_create (\<lambda>_. 1) (ex_child_ref ''p'' ''k'' 0) (snd (sc_create (\<lambda>_. 1) (ex_ref ''sqlite'' ''ns'' ''p'' 0) [])))))"

definition ex_control :: control where
  "ex_control = \<lparr>ec_cancel = ex_ref ''sqlite'' ''ns'' ''p'' 10,
     ec_termination = \<lparr>tp_mode = ''cooperative'', tp_grace = 5, tp_kill_grace = 1, tp_poll = 1\<rparr>, ec_metadata = []\<rparr>"

lemma ex_controls_inv: "sc_inv ex_controls"
proof -
  have wf: "cancel_ref_wf (ex_ref ''sqlite'' ''ns'' ''p'' 0)" "cancel_ref_wf (ex_child_ref ''p'' ''k'' 0)" by code_simp+
  have step: "sc_inv (cancel_step sc_ops (\<lambda>_. t) call s)" if "sc_inv s" "0 < t" "cancel_ref_wf (call_ref call)" for s t call
    using sc.step_ok[OF that(1), of "\<lambda>_. t" t t call] that(2,3) by simp
  have ex: "ex_controls = cancel_step sc_ops (\<lambda>_. 2) (Mark (ex_ref ''sqlite'' ''ns'' ''p'' 0) ''stop'')
      (cancel_step sc_ops (\<lambda>_. 1) (Create (ex_child_ref ''p'' ''k'' 0)) (cancel_step sc_ops (\<lambda>_. 1) (Create (ex_ref ''sqlite'' ''ns'' ''p'' 0)) []))"
    by (simp add: ex_controls_def sc_ops_def split: prod.split)
  show ?thesis unfolding ex by (intro step sc_inv_init) (simp_all add: wf)
qed

section \<open>Requests and records\<close>

text \<open>
  C14. What \<open>read\<close> answers. On each of the three stores a read is the walk from the control to its
  ancestors over the recorded controls: the state of the nearest control with a request, no request
  when the walk ends at a root or at a control without a record, an error on a cycle or beyond the
  supported depth.
\<close>
theorem stores_read_lineage:
  "reads_lineage mc_ops mc_inv mc_view \<and> reads_lineage sc_ops sc_inv sc_view \<and> reads_lineage (rc_ops m) (\<lambda>s. True) rc_view"
  using mc.reads_lineage_ok sc.reads_lineage_ok rc.reads_lineage_ok by blast

text \<open>
  C13. A cancellation reaches every descendant. On each store: once a control has a request, every
  read of a control below it, at most 256 levels down, reports a request, whatever the clients do
  in between, as long as the records of the controls on the way are kept.
\<close>
theorem stores_reach_descendants:
  "reaches_descendants mc_ops mc_inv mc_view \<and> reaches_descendants sc_ops sc_inv sc_view
   \<and> reaches_descendants (rc_ops m) (\<lambda>s. True) rc_view"
  using mc.reaches_descendants_ok sc.reaches_descendants_ok rc.reaches_descendants_ok by blast

text \<open>
  C15. The first request wins. On each store a request that comes to a verdict leaves an active record
  requested, and while the record is kept the state that the first request wrote (reason and time)
  never changes.
\<close>
theorem stores_first_request_wins:
  "first_request_wins mc_ops mc_inv mc_view (\<lambda>s ns t i. mc_view s ns t i \<noteq> None)
   \<and> first_request_wins sc_ops sc_inv sc_view sc_active
   \<and> first_request_wins (rc_ops m) (\<lambda>s. True) rc_view rc_active"
  using mc.first_request_wins_ok sc.first_request_wins_ok rc.first_request_wins_ok by blast

text \<open>
  Heartbeats hold the control. On the durable stores, if the first touch finds the record active
  and every later one comes before the time to live of the one before is over, the heartbeat starts
  and never reports the control as lost.
\<close>
theorem stores_heartbeats_hold:
  "heartbeats_hold sc_ops sc_inv sc_active \<and> heartbeats_hold (rc_ops m) (\<lambda>s. True) rc_active"
  using sc.heartbeats_hold_ok rc.heartbeats_hold_ok by blast

theorem stores_reach_descendants_witness:
  "\<exists>st. fst (sc_read (\<lambda>_. 3) (ex_child_ref ''p'' ''k'' 0) ex_controls) = Inr st \<and> cs_requested st"
proof -
  let ?r = "ex_child_ref ''p'' ''k'' 0"
  have ns: "cr_namespace ?r = ''ns''" by code_simp
  have 1: "reaches_descendants sc_ops sc_inv sc_view" using stores_reach_descendants by blast
  have "sc_view ex_controls ''ns'' 3 ''p'' \<noteq> None \<and> sc_view ex_controls ''ns'' 3 ''k'' \<noteq> None" by code_simp
  then have 2: "kept sc_view ''ns'' (insert ''p'' (set [''k''])) ex_controls 3" by (auto simp: kept_def)
  have 3: "requested_in (sc_view ex_controls ''ns'' 3) ''p''" "up (sc_view ex_controls ''ns'' 3) (Some (cr_id ?r)) [''k''] (Some ''p'')"
    by code_simp+
  have "\<exists>st. fst (co_read sc_ops (\<lambda>_. 3) ?r ex_controls) = Inr st \<and> cs_requested st"
    using 1[unfolded reaches_descendants_def, THEN spec, of ex_controls, THEN spec, of 3, THEN spec, of ex_controls, THEN spec, of 3,
        THEN spec, of "''p''", THEN spec, of "[''k'']", THEN spec, of ?r, THEN spec, of "\<lambda>_. 3", THEN spec, of 3]
      2 3 ex_controls_inv kept_refl[of sc_ops sc_view "''ns''" "insert ''p'' (set [''k''])" "(3, ex_controls)"]
    unfolding ns by (simp add: max_lineage_depth_def)
  then show ?thesis by (simp add: sc_ops_def)
qed

section \<open>Lineages\<close>

text \<open>The reference that \<open>derive_child\<close> builds, below \<open>parent\<close>.\<close>

definition below :: "(string \<Rightarrow> string) \<Rightarrow> cancel_ref \<Rightarrow> cancel_ref \<Rightarrow> cancel_ref" where
  "below sha parent r = \<lparr>cr_id = cr_id r, cr_backend = cr_backend parent, cr_namespace = cr_namespace parent,
     cr_path = cr_path parent, cr_url_env = cr_url_env parent, cr_deadline = effective_deadline (cr_deadline parent) (cr_deadline r),
     cr_created = cr_created r, cr_parent = Some (cr_id parent), cr_root = Some (ref_root parent),
     cr_depth = cr_depth parent + 1, cr_digest = lineage_step sha parent (cr_id r), cr_ttl = cr_ttl parent,
     cr_heartbeat = cr_heartbeat parent, cr_retention = cr_retention parent\<rparr>"

lemma post_init_below:
  assumes sha: "\<And>x. hex_digest (sha x)" and wf: "cancel_ref_wf parent" "cancel_ref_wf r" and "cr_created r \<noteq> 0"
    and "cr_id r \<noteq> cr_id parent"
  shows "cancel_ref_post_init sha now (below sha parent r)
    = (if cr_depth parent < int max_lineage_depth then Inr (below sha parent r) else Inl ValueError)"
proof (cases "cr_depth parent < int max_lineage_depth")
  case True
  have "ref_root parent \<noteq> []" "py_strip (ref_root parent) = ref_root parent"
    using wf(1) by (auto simp: cancel_ref_wf_def ref_root_def split: option.splits)
  then have "cancel_ref_wf (below sha parent r)"
    using wf True assms(5) sha effective_deadline_le(1) by (auto simp: cancel_ref_wf_def below_def lineage_step_def)
  moreover have "cr_created (below sha parent r) \<noteq> 0" using assms(4) by (simp add: below_def)
  ultimately show ?thesis using True by (simp add: cancel_ref_post_init_id)
next
  case False
  then have "cancel_ref_post_init sha now (below sha parent r) \<noteq> Inr x" for x
    unfolding cancel_ref_post_init_Inr Let_def by (simp add: below_def)
  moreover have "cancel_ref_post_init sha now q = Inl e \<Longrightarrow> e = ValueError" for q e
    unfolding cancel_ref_post_init_def Let_def by (auto simp: rbind_def guard_def split: if_splits)
  ultimately show ?thesis using False by (cases "cancel_ref_post_init sha now (below sha parent r)") auto
qed

lemma check_intermediates_Inl: "check_intermediates sha self expected mids = Inl e \<Longrightarrow> e = ValueError"
  by (induction mids arbitrary: expected) (auto simp: rbind_def guard_def split: if_splits)

lemma check_intermediates_wf:
  "check_intermediates sha self expected mids = Inr parent \<Longrightarrow> cancel_ref_wf expected \<Longrightarrow> \<forall>r\<in>set mids. cancel_ref_wf r \<Longrightarrow> cancel_ref_wf parent"
  by (induction mids arbitrary: expected) auto

text \<open>
  C16. Derived controls extend the lineage. When \<open>derive_child\<close> accepts, the child's reference is
  well formed and below the last intermediate: same authority and root, one level deeper, the same
  lease times, a deadline within those of its parent and its own, a new identifier. It refuses
  with ValueError exactly when the child is the parent, its root or an intermediate, when the
  intermediates break the lineage, or when the limit of the depth is reached; otherwise only metadata that is not
  serialisable is refused.
\<close>
theorem derive_child_lineage:
  assumes "\<And>x. hex_digest (sha x)" "cancel_ref_wf (ec_cancel self)" "cancel_ref_wf (child_ref child)"
    "cr_created (child_ref child) \<noteq> 0" "\<forall>r\<in>set mids. cancel_ref_wf r"
  shows "let p = ec_cancel self; c = child_ref child; q = last (p # mids) in
    case derive_child sha now self child mids of
      Inl e \<Rightarrow> (e = ValueError \<longleftrightarrow> check_intermediates sha p p mids = Inl ValueError
          \<or> cr_id c \<in> {cr_id p, ref_root p} \<union> cr_id ` set mids \<or> int max_lineage_depth \<le> cr_depth p + int (length mids))
        \<and> (e = ValueError \<or> e = TypeError)
    | Inr x \<Rightarrow> let r = ec_cancel x in cancel_ref_wf r \<and> cr_id r = cr_id c \<and> cr_id c \<notin> {cr_id p, ref_root p} \<union> cr_id ` set mids
        \<and> cr_backend r = cr_backend p \<and> cr_namespace r = cr_namespace p \<and> cr_path r = cr_path p
        \<and> cr_parent r = Some (cr_id q) \<and> cr_root r = Some (ref_root p) \<and> cr_depth r = cr_depth p + int (length mids) + 1
        \<and> cr_ttl r = cr_ttl q \<and> cr_heartbeat r = cr_heartbeat q \<and> cr_retention r = cr_retention q
        \<and> (0 < cr_deadline q \<longrightarrow> 0 < cr_deadline r \<and> cr_deadline r \<le> cr_deadline q)
        \<and> (0 < cr_deadline c \<longrightarrow> 0 < cr_deadline r \<and> cr_deadline r \<le> cr_deadline c)"
proof (cases "check_intermediates sha (ec_cancel self) (ec_cancel self) mids")
  case (Inl e)
  then show ?thesis using check_intermediates_Inl[OF Inl] by (simp add: derive_child_def Let_def)
next
  case parent: (Inr parent)
  let ?p = "ec_cancel self" and ?c = "child_ref child"
  note wf = check_intermediates_wf[OF parent assms(2,5)]
  have root: "cr_root ?p = Some (ref_root ?p)" "ref_root ?p \<noteq> []"
    using assms(2) by (auto simp: cancel_ref_wf_def ref_root_def split: option.splits)
  have q: "cr_backend parent = cr_backend ?p" "cr_namespace parent = cr_namespace ?p" "cr_path parent = cr_path ?p"
    "ref_root parent = ref_root ?p" "cr_depth parent = cr_depth ?p + int (length mids)" "parent = last (?p # mids)"
    using check_intermediates_Inr[OF parent refl root(2) refl refl refl] by auto
  show ?thesis
  proof (cases "cr_id ?c \<in> {cr_id ?p, ref_root ?p} \<union> cr_id ` set mids")
    case True
    then show ?thesis using parent root(1)
      by (auto simp: derive_child_def Let_def child_ref_def[symmetric] guard_def)
  next
    case False
    have "cr_id ?c \<noteq> cr_id parent"
    proof -
      have "parent = ?p \<or> parent \<in> set mids" using q(6) by (cases mids) auto
      then show ?thesis using False by auto
    qed
    note init = post_init_below[where sha = sha and now = now, OF assms(1) wf assms(3,4) this]
    obtain md tm where derive: "derive_child sha now self child mids
        = rbind (cancel_ref_post_init sha now (below sha parent ?c)) (\<lambda>ref. control_post_init [] \<lparr>ec_cancel = ref, ec_termination = tm, ec_metadata = md ref\<rparr>)"
      using that parent False root(1) unfolding derive_child_def Let_def below_def child_ref_def[symmetric] rbind_simps by simp
    show ?thesis
    proof (cases "cr_depth parent < int max_lineage_depth")
      case deep: False
      then show ?thesis using derive init parent q(5) by (simp add: Let_def)
    next
      case depth: True
      then have "cancel_ref_wf (below sha parent ?c)" using init cancel_ref_post_init_wf by simp
      then show ?thesis using derive init parent q depth False effective_deadline_le
        by (auto simp: Let_def control_post_init_def safe_mapping_simps below_def split: if_splits)
    qed
  qed
qed

theorem derive_child_lineage_witness:
  "case derive_child cancel_sha 2 ex_control (Child_Ref (ex_ref ''memory'' ''other'' ''k'' 0)) [] of
     Inl e \<Rightarrow> False | Inr x \<Rightarrow> cr_parent (ec_cancel x) = Some ''p'' \<and> cr_depth (ec_cancel x) = 1 \<and> cr_ttl (ec_cancel x) = 10"
proof -
  have wf: "\<And>x. hex_digest (cancel_sha x)" "cancel_ref_wf (ec_cancel ex_control)"
    "cancel_ref_wf (child_ref (Child_Ref (ex_ref ''memory'' ''other'' ''k'' 0)))"
    "cr_created (child_ref (Child_Ref (ex_ref ''memory'' ''other'' ''k'' 0))) \<noteq> 0"
    by (simp add: cancel_sha_def hex_digest_def, code_simp+)
  have "case derive_child cancel_sha 2 ex_control (Child_Ref (ex_ref ''memory'' ''other'' ''k'' 0)) [] of Inl e \<Rightarrow> False | Inr x \<Rightarrow> True"
    by code_simp
  moreover have "cr_depth (ec_cancel ex_control) = 0 \<and> cr_id (ec_cancel ex_control) = ''p'' \<and> cr_ttl (ec_cancel ex_control) = 10"
    by (simp add: ex_control_def ex_ref_def)
  ultimately show ?thesis using derive_child_lineage[where sha = cancel_sha and now = 2 and mids = "[]", OF wf]
    by (cases "derive_child cancel_sha 2 ex_control (Child_Ref (ex_ref ''memory'' ''other'' ''k'' 0)) []") (auto simp: Let_def)
qed

section \<open>The stores differ\<close>

text \<open>
  The Redis keys do not keep namespaces apart: a request on the control \<open>b:control:c\<close> of the
  namespace \<open>a\<close> cancels the control \<open>c\<close> of the namespace \<open>a:control:b\<close>. On SQLite the namespace is
  part of the key, and the other control is not cancelled.
\<close>
theorem redis_namespaces_collide:
  "let r = ex_ref ''redis'' ''a'' ''b:control:c'' 0; q = ex_ref ''redis'' ''a:control:b'' ''c'' 0;
       db = snd (rc_mark (\<lambda>_. 2) r ''stop'' (snd (rc_create (\<lambda>_. 1) r [])));
       rows = snd (sc_mark (\<lambda>_. 2) r ''stop'' (snd (sc_create (\<lambda>_. 1) r []))) in
   fst (rc_read (\<lambda>_. 3) q db) = Inr (request_state ''stop'' 2) \<and> fst (sc_read (\<lambda>_. 3) q rows) = Inr idle_state"
  by code_simp

text \<open>
  A read refreshes the whole lineage with the reader's time to live. A reader with a shorter one
  than the parent's ends the parent's lease early. References made by \<open>derive_child\<close> inherit the
  times of the parent, so they do not.
\<close>

lemma read_shortens_parent:
  "let p = ex_ref ''sqlite'' ''ns'' ''p'' 120; k = ex_child_ref ''p'' ''k'' 2;
       rows = snd (sc_create (\<lambda>_. 1) k (snd (sc_create (\<lambda>_. 1) p [])))
   in fst (sc_touch (\<lambda>_. 60) p rows) \<and> \<not> fst (sc_touch (\<lambda>_. 60) p (snd (sc_read (\<lambda>_. 2) k rows)))"
  by code_simp

text \<open>
  Redis requests under interference. A round of the request loop that succeeds while other
  clients write has the effect of an undisturbed one after their writes; it can only succeed if
  none of them wrote the key; a round that does not succeed writes nothing of its own.
\<close>
theorem redis_attempt_linearizes:
  "case rc_attempt c ws r reason s of
     (Verdict True, s') \<Rightarrow> rc_ref_key r \<notin> fst ` set ws \<and> rc_mark c r reason (db_apply ws s) = (Some True, s')
   | (Verdict False, s') \<Rightarrow> rc_mark c r reason s = (Some False, s) \<and> s' = s
   | (Missing, s') \<Rightarrow> s' = s | (Conflict, s') \<Rightarrow> s' = db_apply ws s"
proof (cases "db_get (c 0) (rc_ref_key r) s")
  case None
  then show ?thesis by (simp add: rc_attempt_def Let_def)
next
  case (Some e)
  show ?thesis
  proof (cases "0 < ce_retired e \<or> cs_requested (ce_state e) \<or> rc_ref_key r \<in> fst ` set ws
      \<or> db_get (c 2) (rc_ref_key r) (db_apply ws s) = None")
    case True
    with Some show ?thesis by (auto simp: rc_attempt_def rc_mark_def Let_def)
  next
    case False
    then have "db_get (c 0) (rc_ref_key r) (db_apply ws s) = Some e" using Some by (simp add: db_apply_other)
    with Some False show ?thesis by (auto simp: rc_attempt_def rc_mark_def Let_def db_apply_def)
  qed
qed

end
