(* ===== verification/Pipeline_Spec.thy ===== *)
theory Pipeline_Spec
  imports Wire
begin

text \<open>
  \<open>kernel/spec.py\<close> and the policies of \<open>kernel/orchestrator.py\<close>: slot and pipeline
  specifications, their reading from payloads, the policies built from them over a registry of
  operators, and how a policy selects an operator. Operators are of any type \<open>'op\<close>; a name that
  the registry does not know resolves to \<open>None\<close>.
\<close>

section \<open>Slots\<close>

definition replace_char :: "char \<Rightarrow> char \<Rightarrow> string \<Rightarrow> string" where
  "replace_char a b s = map (\<lambda>ch. if ch = a then b else ch) s"

definition normalize_slot_name :: "string \<Rightarrow> string" where
  "normalize_slot_name s = replace_char (CHR '' '') (CHR ''_'') (replace_char (CHR ''-'') (CHR ''_'') (py_lower (py_strip s)))"

definition slot_method_map :: "(string \<times> string) list" where
  "slot_method_map = [(''init'', ''initialize''), (''initializer'', ''initialize''), (''mutate'', ''mutate''),
     (''repair'', ''repair''), (''encode'', ''encode''), (''decode'', ''decode''), (''transform'', ''transform''),
     (''codec'', ''encode''), (''head'', ''decode'')]"

definition get_method_for_slot :: "string \<Rightarrow> string" where
  "get_method_for_slot slot = (case map_of slot_method_map slot of None \<Rightarrow> ''transform'' | Some m \<Rightarrow> m)"

definition is_pipeline_slot :: "string \<Rightarrow> bool" where
  "is_pipeline_slot slot \<longleftrightarrow> normalize_slot_name slot \<in> {''init'', ''initializer'', ''mutate'', ''repair'', ''encode'', ''decode''}"

record slot_spec =
  sl_slot :: string
  sl_operators :: "string list"
  sl_mode :: string
  sl_method :: "string option"
  sl_routes :: "(string \<times> string) list"
  sl_stages :: "(int \<times> string) list"
  sl_selector :: string
  sl_index :: string
  sl_default :: "string option"
  sl_strict :: pyval
  sl_merge :: "string option"
  sl_timeout :: "rat option"
  sl_cancel :: bool

text \<open>\<open>... if value not in (None, "") else None\<close>.\<close>

definition nonempty_val :: "pyval \<Rightarrow> bool" where
  "nonempty_val v \<longleftrightarrow> v \<noteq> PNone \<and> v \<noteq> PStr []"

definition opt_str :: "dict \<Rightarrow> string \<Rightarrow> string option" where
  "opt_str d k = (let v = dict_get d k PNone in if nonempty_val v then Some (py_str v) else None)"

text \<open>An item of \<open>stages\<close>: a pair of a threshold and a name.\<close>

definition read_stage :: "pyval \<Rightarrow> (int \<times> string) result" where
  "read_stage v = rbind (py_iter v) (\<lambda>xs. case xs of
     [a, b] \<Rightarrow> rbind (py_int a) (\<lambda>n. Inr (n, py_str b))
   | _ \<Rightarrow> Inl ValueError)"

definition stage_items :: "pyval \<Rightarrow> pyval list result" where
  "stage_items v = (case v of PMap d \<Rightarrow> Inr (map (\<lambda>(k, x). PTuple [PStr k, x]) d) | _ \<Rightarrow> py_iter v)"

definition slot_from_value :: "dict \<Rightarrow> slot_spec result" where
  "slot_from_value d =
     rbind (stage_items (py_or (dict_get d ''stages'' (PTuple [])) (PTuple []))) (\<lambda>items.
     rbind (py_iter (dict_get d ''operators'' (PTuple []))) (\<lambda>names.
     rbind (get_dict d ''routes'') (\<lambda>routes.
     rbind (map_result read_stage items) (\<lambda>stages.
     rbind (let v = dict_get d ''timeout_seconds'' PNone in
         if nonempty_val v then rbind (py_float v) (\<lambda>t. Inr (Some t)) else Inr None) (\<lambda>timeout.
     Inr \<lparr>sl_slot = py_str (dict_get d ''slot'' (dict_get d ''name'' (PStr []))),
          sl_operators = map py_str (filter (\<lambda>v. py_strip (py_str v) \<noteq> []) names),
          sl_mode = py_str (py_or (dict_get d ''mode'' (PStr ''serial'')) (PStr ''serial'')),
          sl_method = opt_str d ''method'',
          sl_routes = map (\<lambda>(k, v). (k, py_str v)) routes,
          sl_stages = stages,
          sl_selector = py_str (py_or (dict_get d ''selector_key'' (PStr ''strategy_id'')) (PStr ''strategy_id'')),
          sl_index = py_str (py_or (dict_get d ''index_key'' (PStr ''vns_k'')) (PStr ''vns_k'')),
          sl_default = map_option py_strip (opt_str d ''default_operator''),
          sl_strict = dict_get d ''strict'' PNone,
          sl_merge = opt_str d ''merge'',
          sl_timeout = timeout,
          sl_cancel = truthy (dict_get d ''cancel_on_error'' (PBool True))\<rparr>)))))"

definition opt_text :: "string option \<Rightarrow> pyval" where
  "opt_text x = (case x of None \<Rightarrow> PNone | Some s \<Rightarrow> PStr s)"

definition slot_as_dict :: "slot_spec \<Rightarrow> dict" where
  "slot_as_dict s = [(''slot'', PStr (sl_slot s)), (''operators'', PList (map PStr (sl_operators s))),
     (''mode'', PStr (sl_mode s)), (''method'', opt_text (sl_method s)),
     (''routes'', PMap (map (\<lambda>(k, v). (k, PStr v)) (sl_routes s))),
     (''stages'', PList (map (\<lambda>(n, v). PList [PInt n, PStr v]) (sl_stages s))),
     (''selector_key'', PStr (sl_selector s)), (''index_key'', PStr (sl_index s)),
     (''default_operator'', opt_text (sl_default s)), (''strict'', sl_strict s), (''merge'', opt_text (sl_merge s)),
     (''timeout_seconds'', case sl_timeout s of None \<Rightarrow> PNone | Some t \<Rightarrow> PNum t), (''cancel_on_error'', PBool (sl_cancel s))]"

record pipeline_spec =
  ps_key :: string
  ps_slots :: "slot_spec list"
  ps_params :: dict

definition pipeline_from_value :: "dict \<Rightarrow> pipeline_spec result" where
  "pipeline_from_value d =
     rbind (py_iter (dict_get d ''slots'' (PTuple []))) (\<lambda>items.
     rbind (map_result (\<lambda>v. rbind (py_dict (py_or v (PMap []))) slot_from_value) items) (\<lambda>slots.
     rbind (get_dict d ''params'') (\<lambda>params.
     Inr \<lparr>ps_key = py_str (py_or (dict_get d ''key'' (PStr ''default'')) (PStr ''default'')), ps_slots = slots, ps_params = params\<rparr>)))"

definition pipeline_as_dict :: "pipeline_spec \<Rightarrow> dict" where
  "pipeline_as_dict p = [(''key'', PStr (ps_key p)), (''slots'', PList (map (\<lambda>s. PMap (slot_as_dict s)) (ps_slots p))),
     (''params'', PMap (ps_params p))]"

section \<open>Policies\<close>

record 'op policy_spec =
  po_mode :: string
  po_operators :: "'op option list"
  po_routes :: "(string \<times> 'op option) list"
  po_selector :: string
  po_index :: string
  po_default :: "'op option"
  po_stages :: "(int \<times> 'op option) list"
  po_strict :: bool
  po_merge :: "string option"
  po_timeout :: "rat option"
  po_cancel :: bool

definition resolve_operator :: "(string \<times> 'op) list \<Rightarrow> bool \<Rightarrow> string option \<Rightarrow> 'op option result" where
  "resolve_operator registry strict name = (case name of
     None \<Rightarrow> Inr None
   | Some s \<Rightarrow> if s = [] then Inr None
       else (let found = map_of registry (py_strip s) in if found = None \<and> strict then Inl KeyError else Inr found))"

definition build_policy :: "(string \<times> 'op) list \<Rightarrow> bool \<Rightarrow> slot_spec \<Rightarrow> 'op policy_spec result" where
  "build_policy registry strict s =
     (let local = (if sl_strict s = PNone then strict else truthy (sl_strict s)) in
      rbind (map_result (\<lambda>n. resolve_operator registry local (Some n)) (sl_operators s)) (\<lambda>ops.
      rbind (map_result (\<lambda>(k, n). rbind (resolve_operator registry local (Some n)) (\<lambda>x. Inr (k, x))) (sl_routes s)) (\<lambda>routes.
      rbind (map_result (\<lambda>(k, n). rbind (resolve_operator registry local (Some n)) (\<lambda>x. Inr (k, x))) (sl_stages s)) (\<lambda>stages.
      rbind (resolve_operator registry False (sl_default s)) (\<lambda>dflt.
      Inr \<lparr>po_mode = py_lower (py_strip (or_default (sl_mode s) ''serial'')), po_operators = ops, po_routes = routes,
           po_selector = or_default (sl_selector s) ''strategy_id'', po_index = or_default (sl_index s) ''vns_k'',
           po_default = dflt, po_stages = stages, po_strict = local, po_merge = sl_merge s, po_timeout = sl_timeout s,
           po_cancel = sl_cancel s\<rparr>)))))"

text \<open>\<open>int(ctx.get(key, 0))\<close> with 0 when it raises; \<open>parse\<close> is \<open>int\<close> on strings.\<close>

definition ctx_int :: "(string \<Rightarrow> int result) \<Rightarrow> pyval \<Rightarrow> int result" where
  "ctx_int parse v = (case v of PStr s \<Rightarrow> parse s | PObject c \<Rightarrow> Inl TypeError | _ \<Rightarrow> py_int v)"

definition int_or_zero :: "int result \<Rightarrow> int" where
  "int_or_zero x = (case x of Inl e \<Rightarrow> 0 | Inr n \<Rightarrow> n)"

fun last_stage :: "int \<Rightarrow> 'op option \<Rightarrow> (int \<times> 'op option) list \<Rightarrow> 'op option" where
  "last_stage g selected [] = selected"
| "last_stage g selected ((start, x) # xs) = (if g < start then selected else last_stage g x xs)"

definition select_operator :: "(string \<Rightarrow> int result) \<Rightarrow> 'op policy_spec \<Rightarrow> dict \<Rightarrow> 'op option" where
  "select_operator parse p ctx =
     (let mode = py_lower (py_strip (or_default (po_mode p) ''serial'')) in
      if mode = ''switch'' then
        if po_operators p = [] then None
        else let i = int_or_zero (ctx_int parse (dict_get ctx (po_index p) (PInt 0)));
                 k = max 0 (min i (int (length (po_operators p)) - 1))
             in po_operators p ! nat k
      else if mode = ''dynamic'' then
        let g = int_or_zero (ctx_int parse (dict_get ctx ''generation'' (PInt 0)));
            selected = last_stage g None (sort_key fst (po_stages p))
        in if selected \<noteq> None then selected else po_default p
      else if mode = ''router'' \<and> po_routes p \<noteq> [] then
        let by_index = (let v = dict_get ctx (po_index p) PNone in
              if v = PNone then po_default p
              else case ctx_int parse v of
                Inl e \<Rightarrow> po_default p
              | Inr n \<Rightarrow> snd (po_routes p ! nat (n mod int (length (po_routes p)))));
            sel = dict_get ctx (po_selector p) PNone
        in if sel = PNone then by_index
           else case map_of (po_routes p) (py_str sel) of Some x \<Rightarrow> x | None \<Rightarrow> by_index
      else None)"

section \<open>Kernels\<close>

text \<open>
  \<open>build_pipeline_kernel\<close>: for each named slot its method and policy; a later slot of the same
  name replaces an earlier one in its place.
\<close>

definition add_slot :: "(string \<times> 'op) list \<Rightarrow> bool \<Rightarrow> slot_spec \<Rightarrow> (string \<times> string \<times> 'op policy_spec) list
    \<Rightarrow> (string \<times> string \<times> 'op policy_spec) list result" where
  "add_slot registry strict s K =
     (let name = normalize_slot_name (sl_slot s) in
      if name = [] then Inr K
      else let meth = py_strip (case sl_method s of None \<Rightarrow> get_method_for_slot name | Some m \<Rightarrow> or_default m (get_method_for_slot name)) in
        rbind (build_policy registry strict s) (\<lambda>p. Inr (AList.update name (meth, p) K)))"

fun build_kernel :: "(string \<times> 'op) list \<Rightarrow> bool \<Rightarrow> slot_spec list \<Rightarrow> (string \<times> string \<times> 'op policy_spec) list
    \<Rightarrow> (string \<times> string \<times> 'op policy_spec) list result" where
  "build_kernel registry strict [] K = Inr K"
| "build_kernel registry strict (s # ss) K = rbind (add_slot registry strict s K) (build_kernel registry strict ss)"

definition build_pipeline_kernel :: "(string \<times> 'op) list \<Rightarrow> bool \<Rightarrow> dict \<Rightarrow> (string \<times> string \<times> 'op policy_spec) list result" where
  "build_pipeline_kernel registry strict spec = rbind (pipeline_from_value spec) (\<lambda>p. build_kernel registry strict (ps_slots p) [])"

section \<open>Facts\<close>

definition slot_wf :: "slot_spec \<Rightarrow> bool" where
  "slot_wf s \<longleftrightarrow> (\<forall>n\<in>set (sl_operators s). py_strip n \<noteq> []) \<and> sl_mode s \<noteq> [] \<and> sl_method s \<noteq> Some [] \<and> sl_selector s \<noteq> []
     \<and> sl_index s \<noteq> [] \<and> sl_default s \<noteq> Some [] \<and> map_option py_strip (sl_default s) = sl_default s \<and> sl_merge s \<noteq> Some []"

lemma opt_str_text [simp]: "map_of d k = Some (opt_text x) \<Longrightarrow> x \<noteq> Some [] \<Longrightarrow> opt_str d k = x"
  by (cases x) (auto simp: opt_str_def dict_get_def opt_text_def nonempty_val_def)

lemma py_or_empty [simp]: "py_or v (PTuple []) = (if truthy v then v else PTuple [])"
  by (simp add: py_or_def)

lemma read_stages: "map_result read_stage (map (\<lambda>(n, v). PList [PInt n, PStr v]) xs) = Inr xs"
  using map_result_map[of xs read_stage "\<lambda>(n, v). PList [PInt n, PStr v]" "\<lambda>x. x"] by (auto simp: read_stage_def)

lemma read_routes: "map (\<lambda>x. case case x of (k, v) \<Rightarrow> (k, PStr v) of (k, v) \<Rightarrow> (k, py_str v)) xs = xs"
  by (induction xs) auto

lemma slot_round_trip: "slot_wf s \<Longrightarrow> slot_from_value (slot_as_dict s) = Inr s"
proof -
  assume wf: "slot_wf s"
  have ops: "filter (\<lambda>v. py_strip (py_str v) \<noteq> []) (map PStr (sl_operators s)) = map PStr (sl_operators s)"
    using wf by (auto simp: slot_wf_def filter_id_conv)
  show ?thesis using wf
    by (cases s; cases "sl_timeout s")
      (auto simp: slot_from_value_def slot_as_dict_def get_dict_def dict_get_def stage_items_def ops read_stages read_routes py_or_def slot_wf_def
        nonempty_val_def Let_def comp_def split: option.splits)
qed

lemma last_stage_sorted:
  "sorted (map fst xs) \<Longrightarrow> last_stage g selected xs
     = (case filter (\<lambda>x. fst x \<le> g) xs of [] \<Rightarrow> selected | y # ys \<Rightarrow> snd (last (y # ys)))"
proof (induction g selected xs rule: last_stage.induct)
  case (2 g selected start x xs)
  show ?case
  proof (cases "g < start")
    case True
    then have "filter (\<lambda>x. fst x \<le> g) xs = []" using 2(2) by (auto simp: filter_empty_conv)
    then show ?thesis using True by simp
  next
    case False
    then show ?thesis using 2 by (auto split: list.splits)
  qed
qed simp

lemma resolve_operator_Inr:
  "resolve_operator registry strict (Some n) = Inr x \<longleftrightarrow>
    x = (if n = [] then None else map_of registry (py_strip n)) \<and> (strict \<longrightarrow> n \<noteq> [] \<longrightarrow> map_of registry (py_strip n) \<noteq> None)"
  by (auto simp: resolve_operator_def Let_def)

end
