(* ===== verification/Pipeline_Run.thy ===== *)
theory Pipeline_Run
  imports Pipeline_Spec
begin

text \<open>
  \<open>call_binding.py\<close> and the executor of \<open>kernel/orchestrator.py\<close>: one invocation per operator,
  serial runs, parallel runs in batches with deadline, cancellation and failure audit, merging and
  routing. Operators change a state \<open>'s\<close> (the mutable context and whatever they reach from it).
  What the branches of a batch do is given by rounds: one round of the collecting loop sees whether
  the cancel event is set, what the monotonic clock reads, which branches have finished with what,
  and which can still be cancelled or are already over.
\<close>

section \<open>Calls\<close>

text \<open>
  A callable: which of the declared argument shapes its signature binds (\<open>None\<close>: it has no
  inspectable signature), and its body.
\<close>

record ('a, 's, 'r) callable =
  cl_binds :: "('a \<Rightarrow> bool) option"
  cl_body :: "'a \<Rightarrow> 's \<Rightarrow> 'r result \<times> 's"

text \<open>\<open>BoundCallOutcome\<close>: the value, the index of the candidate, whether there was a signature.\<close>

record 'r bound_outcome =
  bo_value :: 'r
  bo_index :: nat
  bo_signature :: bool

definition bind_index :: "('a \<Rightarrow> bool) \<Rightarrow> 'a list \<Rightarrow> nat option" where
  "bind_index binds xs = find (\<lambda>i. binds (xs ! i)) [0..<length xs]"

definition invoke_with_outcome :: "('a, 's, 'r) callable \<Rightarrow> 'a list \<Rightarrow> 's \<Rightarrow> 'r bound_outcome result \<times> 's" where
  "invoke_with_outcome f declared s =
     (let run = (\<lambda>i b. case cl_body f (declared ! i) s of
            (Inl e, s') \<Rightarrow> (Inl e, s') | (Inr v, s') \<Rightarrow> (Inr \<lparr>bo_value = v, bo_index = i, bo_signature = b\<rparr>, s'))
      in if declared = [] then (Inl ValueError, s)
         else case cl_binds f of
           None \<Rightarrow> run 0 False
         | Some binds \<Rightarrow> (case bind_index binds declared of None \<Rightarrow> (Inl TypeError, s) | Some i \<Rightarrow> run i True))"

definition invoke_bound_once :: "('a, 's, 'r) callable \<Rightarrow> 'a list \<Rightarrow> 's \<Rightarrow> 'r result \<times> 's" where
  "invoke_bound_once f declared s = (case invoke_with_outcome f declared s of
     (Inl e, s') \<Rightarrow> (Inl e, s') | (Inr x, s') \<Rightarrow> (Inr (bo_value x), s'))"

text \<open>The shapes in which operators are called; the context is part of the state.\<close>

datatype 'v call_args = Value_Context 'v | Value_Only 'v | No_Args

record ('v, 's) operator =
  op_name :: string
  op_method :: "string \<Rightarrow> ('v call_args, 's, 'v) callable option"
  op_callable :: "('v call_args, 's, 'v) callable option"

definition call_operator :: "('v, 's) operator \<Rightarrow> 'v \<Rightarrow> string \<Rightarrow> 's \<Rightarrow> 'v result \<times> 's" where
  "call_operator f v meth s = (case op_method f meth of
     Some g \<Rightarrow> invoke_bound_once g [Value_Context v, Value_Only v, No_Args] s
   | None \<Rightarrow> (case op_callable f of
       Some g \<Rightarrow> invoke_bound_once g [Value_Context v, Value_Only v, No_Args] s
     | None \<Rightarrow> (Inr v, s)))"

section \<open>Serial runs\<close>

fun run_serial :: "('s \<Rightarrow> bool) \<Rightarrow> bool \<Rightarrow> string \<Rightarrow> ('v, 's) operator option list \<Rightarrow> 'v \<Rightarrow> 's \<Rightarrow> 'v result \<times> 's" where
  "run_serial cancelled strict meth [] v s = (Inr v, s)"
| "run_serial cancelled strict meth (None # ops) v s = run_serial cancelled strict meth ops v s"
| "run_serial cancelled strict meth (Some f # ops) v s =
     (if cancelled s then (Inl PipelineCancellationError, s)
      else case call_operator f v meth s of
        (Inl e, s') \<Rightarrow> (if e = PipelineCancellationError \<or> strict then Inl e else Inr v, s')
      | (Inr w, s') \<Rightarrow> if cancelled s' then (Inl PipelineCancellationError, s')
          else run_serial cancelled strict meth ops w s')"

section \<open>Parallel runs\<close>

record branch_failure =
  bf_index :: nat
  bf_operator :: string
  bf_error :: py_error
  bf_timed_out :: bool
  bf_cancelled :: bool
  bf_running :: bool

record 'v round =
  rd_set :: bool
  rd_now :: time
  rd_result :: "nat \<Rightarrow> 'v result option"
  rd_cancel :: "nat \<Rightarrow> bool"
  rd_over :: "nat \<Rightarrow> bool"

text \<open>\<open>run_op\<close>: the flags say whether the run is cancelled at its three checkpoints.\<close>

definition run_op :: "('v \<Rightarrow> 'v result) \<Rightarrow> ('s \<Rightarrow> 's result) \<Rightarrow> bool \<Rightarrow> bool \<Rightarrow> bool \<Rightarrow> string \<Rightarrow> 'v \<Rightarrow> 's
    \<Rightarrow> ('v, 's) operator option \<Rightarrow> 'v result" where
  "run_op copy_value copy_context c1 c2 c3 meth v s f =
     rbind (guard (\<not> c1) PipelineCancellationError) (\<lambda>_.
     rbind (copy_value v) (\<lambda>w.
     rbind (copy_context s) (\<lambda>t.
     case f of
       None \<Rightarrow> Inr w
     | Some g \<Rightarrow> rbind (guard (\<not> c2) PipelineCancellationError) (\<lambda>_.
         rbind (fst (call_operator g w meth t)) (\<lambda>x.
         rbind (guard (\<not> c3) PipelineCancellationError) (\<lambda>_. Inr x))))))"

definition cancel_pending :: "(nat \<Rightarrow> string) \<Rightarrow> 'v round \<Rightarrow> bool \<Rightarrow> nat list \<Rightarrow> branch_failure list" where
  "cancel_pending name r timed_out pending = map (\<lambda>i.
     \<lparr>bf_index = i, bf_operator = name i, bf_error = (if timed_out then TimeoutError else CancelledError),
      bf_timed_out = timed_out, bf_cancelled = rd_cancel r i, bf_running = (\<not> rd_cancel r i \<and> \<not> rd_over r i)\<rparr>) pending"

definition done_values :: "'v round \<Rightarrow> nat list \<Rightarrow> (nat \<times> 'v) list" where
  "done_values r pending = List.map_filter (\<lambda>i. case rd_result r i of Some (Inr v) \<Rightarrow> Some (i, v) | _ \<Rightarrow> None) pending"

definition done_failures :: "(nat \<Rightarrow> string) \<Rightarrow> 'v round \<Rightarrow> nat list \<Rightarrow> branch_failure list" where
  "done_failures name r pending = List.map_filter (\<lambda>i. case rd_result r i of
     Some (Inl e) \<Rightarrow> Some \<lparr>bf_index = i, bf_operator = name i, bf_error = e, bf_timed_out = False,
       bf_cancelled = (e = CancelledError \<or> e = PipelineCancellationError), bf_running = False\<rparr>
   | _ \<Rightarrow> None) pending"

definition still_pending :: "'v round \<Rightarrow> nat list \<Rightarrow> nat list" where
  "still_pending r pending = filter (\<lambda>i. rd_result r i = None) pending"

definition past :: "time option \<Rightarrow> time \<Rightarrow> bool" where
  "past deadline now \<longleftrightarrow> (case deadline of None \<Rightarrow> False | Some d \<Rightarrow> d \<le> now)"

type_synonym 'v collected = "(nat \<times> 'v) list \<times> branch_failure list \<times> bool"

text \<open>
  The collecting loop; \<open>None\<close>: the rounds are over and branches are still pending. The two kinds
  of batches differ in a round without a finished branch: \<open>wait\<close> on futures only returns so at the
  deadline, while the loop over pool handles polls again.
\<close>

definition add_collected :: "'v collected \<Rightarrow> 'v collected \<Rightarrow> 'v collected" where
  "add_collected x y = (fst x @ fst y, fst (snd x) @ fst (snd y), snd (snd y))"

fun collect_futures :: "bool \<Rightarrow> (nat \<Rightarrow> string) \<Rightarrow> time option \<Rightarrow> bool \<Rightarrow> bool \<Rightarrow> 'v round list \<Rightarrow> nat list \<Rightarrow> 'v collected option" where
  "collect_futures pool name deadline strict coe rs [] = Some ([], [], False)"
| "collect_futures pool name deadline strict coe [] (p # ps) = None"
| "collect_futures pool name deadline strict coe (r # rs) (p # ps) =
     (let pending = p # ps; rest = still_pending r pending; failed = done_failures name r pending; oks = done_values r pending in
      if rd_set r then Some ([], cancel_pending name r False pending, True)
      else if past deadline (rd_now r) then Some ([], cancel_pending name r True pending, True)
      else if rest = pending then
        if pool then collect_futures pool name deadline strict coe rs pending
        else Some ([], cancel_pending name r True pending, True)
      else if failed \<noteq> [] \<and> strict \<and> coe \<and> rest \<noteq> [] then Some (oks, failed @ cancel_pending name r False rest, True)
      else map_option (add_collected (oks, failed, False)) (collect_futures pool name deadline strict coe rs rest))"

definition collect_future_batch :: "(nat \<Rightarrow> string) \<Rightarrow> time option \<Rightarrow> bool \<Rightarrow> bool \<Rightarrow> 'v round list \<Rightarrow> nat list \<Rightarrow> 'v collected option" where
  "collect_future_batch = collect_futures False"

definition collect_pool_batch :: "(nat \<Rightarrow> string) \<Rightarrow> time option \<Rightarrow> bool \<Rightarrow> bool \<Rightarrow> 'v round list \<Rightarrow> nat list \<Rightarrow> 'v collected option" where
  "collect_pool_batch = collect_futures True"

fun batches :: "nat \<Rightarrow> nat list \<Rightarrow> nat list list" where
  "batches w [] = []"
| "batches w (i # is) = (i # take (w - 1) is) # batches w (drop (w - 1) is)"

fun run_batches :: "('v round list \<Rightarrow> nat list \<Rightarrow> 'v collected option) \<Rightarrow> nat list list \<Rightarrow> 'v round list list \<Rightarrow> 'v collected option" where
  "run_batches col [] rss = Some ([], [], False)"
| "run_batches col (b # bs) [] = None"
| "run_batches col (b # bs) (rs # rss) = (case col rs b of
     None \<Rightarrow> None
   | Some (oks, failed, True) \<Rightarrow> Some (oks, failed, True)
   | Some (oks, failed, False) \<Rightarrow> map_option (add_collected (oks, failed, False)) (run_batches col bs rss))"

definition worker_limit :: "int option \<Rightarrow> nat \<Rightarrow> nat" where
  "worker_limit threads n = (let w = max 1 n in case threads of None \<Rightarrow> w | Some t \<Rightarrow> min w (nat (max 1 t)))"

definition parallel_deadline :: "rat option \<Rightarrow> rat option \<Rightarrow> time \<Rightarrow> time option" where
  "parallel_deadline ctx_timeout slot_timeout now =
     (case (if ctx_timeout \<noteq> None then ctx_timeout else slot_timeout) of None \<Rightarrow> None | Some t \<Rightarrow> Some (now + max 0 t))"

record parallel_report =
  rp_branches :: nat
  rp_completed :: nat
  rp_success :: "nat list"
  rp_failures :: "branch_failure list"
  rp_timed_out :: bool
  rp_cancelled :: bool
  rp_running :: nat

definition make_report :: "nat \<Rightarrow> (nat \<times> 'v) list \<Rightarrow> branch_failure list \<Rightarrow> parallel_report" where
  "make_report n oks failed = \<lparr>rp_branches = n, rp_completed = length oks, rp_success = sort (map fst oks), rp_failures = failed,
     rp_timed_out = list_ex bf_timed_out failed, rp_cancelled = list_ex bf_cancelled failed,
     rp_running = length (filter bf_running failed)\<rparr>"

definition not_submitted :: "(nat \<Rightarrow> string) \<Rightarrow> bool \<Rightarrow> nat \<Rightarrow> branch_failure" where
  "not_submitted name timed_out i = \<lparr>bf_index = i, bf_operator = name i,
     bf_error = (if timed_out then TimeoutError else CancelledError), bf_timed_out = timed_out, bf_cancelled = True, bf_running = False\<rparr>"

definition run_parallel :: "bool \<Rightarrow> (nat \<Rightarrow> string) \<Rightarrow> time option \<Rightarrow> bool \<Rightarrow> bool \<Rightarrow> nat \<Rightarrow> nat \<Rightarrow> 'v round list list
    \<Rightarrow> ('v list result \<times> parallel_report) option" where
  "run_parallel pool name deadline strict coe w n rss =
     (if n = 0 then Some (Inr [], make_report 0 ([] :: (nat \<times> 'v) list) [])
      else map_option (\<lambda>(oks, failed, abort).
        let seen = map fst oks @ map bf_index failed;
            timed_out = list_ex bf_timed_out failed;
            failed = (if abort then failed @ map (not_submitted name timed_out) (filter (\<lambda>i. i \<notin> set seen) [0..<n]) else failed);
            failures = sort_key bf_index failed;
            ordered = map snd (sort_key fst oks)
        in (if failures \<noteq> [] \<and> strict then Inl PipelineParallelError else Inr ordered, make_report n oks failures))
       (run_batches (if pool then collect_pool_batch name deadline strict coe else collect_future_batch name deadline strict coe)
          (batches w [0..<n]) rss))"

section \<open>Merging, routing, policies\<close>

text \<open>A merge strategy is a name or a function; \<open>numpy\<close> are the array operations.\<close>

datatype 'v merge = No_Merge | Merge_Name string | Merge_Call "'v list \<Rightarrow> 'v result"

datatype 'v merged = One 'v | Tuple "'v list" | Listed "'v list"

definition merge_parallel :: "(string \<Rightarrow> 'v list \<Rightarrow> 'v result) \<Rightarrow> 'v merge \<Rightarrow> 'v \<Rightarrow> 'v list \<Rightarrow> 'v merged result" where
  "merge_parallel numpy strategy fallback outputs =
     (if outputs = [] then Inr (One fallback)
      else case strategy of
        Merge_Call f \<Rightarrow> rbind (f outputs) (\<lambda>v. Inr (One v))
      | No_Merge \<Rightarrow> Inr (Tuple outputs)
      | Merge_Name raw \<Rightarrow> let name = py_lower (py_strip raw) in
          if name = [] then Inr (Tuple outputs)
          else if name \<in> {''last'', ''override''} then Inr (One (last outputs))
          else if name = ''first'' then Inr (One (hd outputs))
          else if name \<in> {''list'', ''collect''} then Inr (Listed outputs)
          else if name \<in> {''sum'', ''mean'', ''avg'', ''concat'', ''concatenate''} then rbind (numpy name outputs) (\<lambda>v. Inr (One v))
          else Inl ValueError)"

definition run_router :: "(string \<Rightarrow> int result) \<Rightarrow> ('s \<Rightarrow> bool) \<Rightarrow> ('s \<Rightarrow> dict) \<Rightarrow> ('v, 's) operator policy_spec \<Rightarrow> string \<Rightarrow> 'v \<Rightarrow> 's
    \<Rightarrow> 'v result \<times> 's" where
  "run_router parse cancelled ctx p meth v s =
     (if cancelled s then (Inl PipelineCancellationError, s)
      else case select_operator parse p (ctx s) of
        None \<Rightarrow> (if po_strict p \<and> py_lower (py_strip (po_mode p)) = ''router'' then Inl KeyError else Inr v, s)
      | Some f \<Rightarrow> (case call_operator f v meth s of
          (Inl e, s') \<Rightarrow> (Inl e, s')
        | (Inr w, s') \<Rightarrow> (if cancelled s' then Inl PipelineCancellationError else Inr w, s')))"

text \<open>
  What a policy run needs from its surroundings: how the cancel event and the context are read from
  the state, the lease of threads, the timeout in the context, the clock, the rounds.
\<close>

record ('v, 's) surroundings =
  su_parse :: "string \<Rightarrow> int result"
  su_cancelled :: "'s \<Rightarrow> bool"
  su_ctx :: "'s \<Rightarrow> dict"
  su_threads :: "'s \<Rightarrow> int option"
  su_timeout :: "'s \<Rightarrow> rat option"
  su_now :: time
  su_pool :: bool
  su_rounds :: "'v round list list"
  su_numpy :: "string \<Rightarrow> 'v list \<Rightarrow> 'v result"
  su_report :: "parallel_report \<Rightarrow> 's \<Rightarrow> 's"

definition operator_name :: "('v, 's) operator option list \<Rightarrow> nat \<Rightarrow> string" where
  "operator_name ops i = (case ops ! i of None \<Rightarrow> ''NoneType'' | Some f \<Rightarrow> op_name f)"

definition run_policy :: "('v, 's) surroundings \<Rightarrow> ('v, 's) operator policy_spec \<Rightarrow> string \<Rightarrow> 'v \<Rightarrow> 's \<Rightarrow> ('v merged result \<times> 's) option" where
  "run_policy E p meth v s =
     (let mode = py_lower (or_default (po_mode p) ''serial'') in
      if mode = ''serial'' then
        Some (case run_serial (su_cancelled E) (po_strict p) meth (po_operators p) v s of (x, s') \<Rightarrow> (rbind x (\<lambda>w. Inr (One w)), s'))
      else if mode = ''parallel'' then
        map_option (\<lambda>(x, report). (rbind x (merge_parallel (su_numpy E) (case po_merge p of None \<Rightarrow> No_Merge | Some m \<Rightarrow> Merge_Name m) v),
            su_report E report s))
          (let ops = po_operators p in
           run_parallel (su_pool E) (operator_name ops) (parallel_deadline (su_timeout E s) (po_timeout p) (su_now E))
             (po_strict p) (po_cancel p) (worker_limit (su_threads E s) (length ops)) (length ops) (su_rounds E))
      else if mode \<in> {''router'', ''switch'', ''dynamic''} then
        Some (case run_router (su_parse E) (su_cancelled E) (su_ctx E) p meth v s of (x, s') \<Rightarrow> (rbind x (\<lambda>w. Inr (One w)), s'))
      else Some (if po_strict p then Inl ValueError else Inr (One v), s))"

definition run_slot :: "('v, 's) surroundings \<Rightarrow> (string \<times> string \<times> ('v, 's) operator policy_spec) list \<Rightarrow> string \<Rightarrow> 'v \<Rightarrow> 's
    \<Rightarrow> ('v merged result \<times> 's) option" where
  "run_slot E K slot v s = (case map_of K (normalize_slot_name slot) of
     None \<Rightarrow> Some (Inr (One v), s) | Some (meth, p) \<Rightarrow> run_policy E p meth v s)"

section \<open>Facts\<close>

text \<open>Every pending branch is accounted for once: finished well, failed, or still pending.\<close>

lemma map_filter_Cons: "List.map_filter f (x # xs) = (case f x of None \<Rightarrow> List.map_filter f xs | Some y \<Rightarrow> y # List.map_filter f xs)"
  by (simp add: List.map_filter_simps)

lemma round_parts:
  "mset (map fst (done_values r pending)) + mset (map bf_index (done_failures name r pending)) + mset (still_pending r pending) = mset pending"
  by (induction pending)
    (auto simp: done_values_def done_failures_def still_pending_def map_filter_Cons List.map_filter_simps split: option.splits sum.splits)

lemma cancel_pending_index [simp]: "map bf_index (cancel_pending name r b pending) = pending"
  by (simp add: cancel_pending_def comp_def)

lemma still_pending_self: "still_pending r pending = pending \<Longrightarrow> done_values r pending = [] \<and> done_failures name r pending = []"
  by (auto simp: still_pending_def filter_id_conv done_values_def done_failures_def List.map_filter_def)

definition indices :: "'v collected \<Rightarrow> nat multiset" where
  "indices x = mset (map fst (fst x)) + mset (map bf_index (fst (snd x)))"

lemma indices_simps [simp]:
  "indices (oks, failed, b) = mset (map fst oks) + mset (map bf_index failed)"
  "indices (add_collected x y) = indices x + indices y"
  by (simp_all add: indices_def add_collected_def)

lemma collect_indices: "collect_futures pool name deadline strict coe rs pending = Some x \<Longrightarrow> indices x = mset pending"
proof (induction pool name deadline strict coe rs pending arbitrary: x rule: collect_futures.induct)
  case (3 pool name deadline strict coe r rs p ps)
  let ?pending = "p # ps"
  note parts = round_parts[of r ?pending name]
  consider (set) "rd_set r" | (late) "\<not> rd_set r" "past deadline (rd_now r)"
    | (idle) "\<not> rd_set r" "\<not> past deadline (rd_now r)" "still_pending r ?pending = ?pending"
    | (abort) "\<not> rd_set r" "\<not> past deadline (rd_now r)" "still_pending r ?pending \<noteq> ?pending"
        "done_failures name r ?pending \<noteq> [] \<and> strict \<and> coe \<and> still_pending r ?pending \<noteq> []"
    | (go) "\<not> rd_set r" "\<not> past deadline (rd_now r)" "still_pending r ?pending \<noteq> ?pending"
        "\<not> (done_failures name r ?pending \<noteq> [] \<and> strict \<and> coe \<and> still_pending r ?pending \<noteq> [])" by blast
  then show ?case
  proof cases
    case idle
    then show ?thesis using 3 by (cases pool) (auto simp: Let_def)
  next
    case abort
    then have "x = (done_values r ?pending, done_failures name r ?pending @ cancel_pending name r False (still_pending r ?pending), True)"
      using 3(3) by (simp add: Let_def)
    then show ?thesis using parts by (simp add: add.assoc)
  next
    case go
    then obtain y where y: "collect_futures pool name deadline strict coe rs (still_pending r ?pending) = Some y"
      "x = add_collected (done_values r ?pending, done_failures name r ?pending, False) y"
      using 3(3) by (auto simp: Let_def split: if_splits)
    then have "indices y = mset (still_pending r ?pending)" using 3(2)[OF refl refl refl refl go y(1)] by simp
    then show ?thesis using parts y(2) by (simp add: add.assoc)
  qed (use 3(3) in \<open>auto simp: Let_def\<close>)
qed simp_all

lemma set_done_values: "(i, v) \<in> set (done_values r pending) \<longleftrightarrow> i \<in> set pending \<and> rd_result r i = Some (Inr v)"
  by (induction pending) (auto simp: done_values_def map_filter_Cons List.map_filter_simps split: option.splits sum.splits)

lemma collect_done: "collect_futures pool name deadline strict coe rs pending = Some (oks, failed, ab) \<Longrightarrow> (i, v) \<in> set oks
    \<Longrightarrow> \<exists>r\<in>set rs. rd_result r i = Some (Inr v)"
proof (induction pool name deadline strict coe rs pending arbitrary: oks failed ab rule: collect_futures.induct)
  case (3 pool name deadline strict coe r rs p ps)
  have fin: "\<exists>r'\<in>set (r # rs). rd_result r' i = Some (Inr v)" if "(i, v) \<in> set (done_values r (p # ps))"
    using that by (simp add: set_done_values)
  show ?case
  proof (cases "rd_set r \<or> past deadline (rd_now r)")
    case True
    then show ?thesis using 3(3,4) by (auto simp: Let_def split: if_splits)
  next
    case False
    show ?thesis
    proof (cases "still_pending r (p # ps) = p # ps")
      case True
      then show ?thesis using 3(1,3,4) False by (cases pool) (auto simp: Let_def)
    next
      case prog: False
      then show ?thesis using 3(2)[OF refl refl refl refl] 3(3,4) False fin
        by (fastforce simp: Let_def add_collected_def split: if_splits)
    qed
  qed
qed auto

lemma batches_concat [simp]: "0 < w \<Longrightarrow> concat (batches w is) = is"
  by (induction w "is" rule: batches.induct) auto

lemma batches_length: "b \<in> set (batches w is) \<Longrightarrow> length b \<le> max 1 w"
  by (induction w "is" rule: batches.induct) auto

end
