(* ===== verification/Context_Store.thy ===== *)
theory Context_Store
  imports Wire
begin

text \<open>
  \<open>context/context_store.py\<close>: key-value stores with a time to live, in memory and on Redis, and
  what both promise: the locale \<open>context_store\<close>. Values are what \<open>detach_context_value\<close> accepts;
  \<open>rx_fits\<close> says whether the codec's encoding of a value is within the limit. A prefix without glob
  characters is assumed, so \<open>SCAN\<close> with the pattern \<open>prefix:*\<close> finds the keys that start so.
\<close>

section \<open>In memory\<close>

record mem_context =
  mx_default :: "rat option"
  mx_data :: dict
  mx_expires :: "(string \<times> time) list"

definition mx_init :: "rat option \<Rightarrow> mem_context" where
  "mx_init dflt = \<lparr>mx_default = dflt, mx_data = [], mx_expires = []\<rparr>"

definition pick_ttl :: "rat option \<Rightarrow> rat option \<Rightarrow> rat option" where
  "pick_ttl dflt ttl = (if ttl \<noteq> None then ttl else dflt)"

definition mx_sweep :: "time \<Rightarrow> mem_context \<Rightarrow> mem_context" where
  "mx_sweep now s =
     (let expired = map fst (filter (\<lambda>(k, t). t \<le> now) (mx_expires s)) in
      s\<lparr>mx_expires := filter (\<lambda>(k, t). k \<notin> set expired) (mx_expires s),
        mx_data := filter (\<lambda>(k, v). k \<notin> set expired) (mx_data s)\<rparr>)"

definition mx_get :: "clock \<Rightarrow> string \<Rightarrow> mem_context \<Rightarrow> pyval option result \<times> mem_context" where
  "mx_get c k s = (let s1 = mx_sweep (c 0) s in (Inr (map_of (mx_data s1) k), s1))"

definition mx_contains :: "clock \<Rightarrow> string \<Rightarrow> mem_context \<Rightarrow> bool \<times> mem_context" where
  "mx_contains c k s = (let s1 = mx_sweep (c 0) s in (k \<in> fst ` set (mx_data s1), s1))"

definition mx_getitem :: "clock \<Rightarrow> string \<Rightarrow> mem_context \<Rightarrow> pyval result \<times> mem_context" where
  "mx_getitem c k s = (let s1 = mx_sweep (c 0) s in
     (case map_of (mx_data s1) k of None \<Rightarrow> Inl KeyError | Some v \<Rightarrow> Inr v, s1))"

definition mx_len :: "clock \<Rightarrow> mem_context \<Rightarrow> nat \<times> mem_context" where
  "mx_len c s = (let s1 = mx_sweep (c 0) s in (length (mx_data s1), s1))"

definition put_expiry :: "string \<Rightarrow> time option \<Rightarrow> (string \<times> time) list \<Rightarrow> (string \<times> time) list" where
  "put_expiry k ex d = (case ex of None \<Rightarrow> AList.delete k d | Some t \<Rightarrow> AList.update k t d)"

definition expires_in :: "rat option \<Rightarrow> time \<Rightarrow> time option" where
  "expires_in ttl now = (case ttl of None \<Rightarrow> None | Some x \<Rightarrow> if 0 < x then Some (now + x) else None)"

definition mx_set :: "clock \<Rightarrow> string \<Rightarrow> pyval \<Rightarrow> rat option \<Rightarrow> mem_context \<Rightarrow> unit result \<times> mem_context" where
  "mx_set c k v ttl s = (let s1 = mx_sweep (c 0) s in
     (Inr (), s1\<lparr>mx_data := AList.update k v (mx_data s1),
                  mx_expires := put_expiry k (expires_in (pick_ttl (mx_default s) ttl) (c 1)) (mx_expires s1)\<rparr>))"

definition mx_delete :: "string \<Rightarrow> mem_context \<Rightarrow> mem_context" where
  "mx_delete k s = s\<lparr>mx_data := AList.delete k (mx_data s), mx_expires := AList.delete k (mx_expires s)\<rparr>"

definition mx_clear :: "mem_context \<Rightarrow> mem_context" where
  "mx_clear s = s\<lparr>mx_data := [], mx_expires := []\<rparr>"

definition mx_snapshot :: "clock \<Rightarrow> mem_context \<Rightarrow> dict result \<times> mem_context" where
  "mx_snapshot c s = (let s1 = mx_sweep (c 0) s in (Inr (mx_data s1), s1))"

definition mx_patch :: "clock \<Rightarrow> dict \<Rightarrow> string list \<Rightarrow> rat option \<Rightarrow> mem_context \<Rightarrow> unit result \<times> mem_context" where
  "mx_patch c vals dels ttl s =
     (let ex = expires_in (pick_ttl (mx_default s) ttl) (c 0);
          s1 = mx_sweep (c 1) s;
          s2 = fold mx_delete dels s1
      in (Inr (), fold (\<lambda>(k, v) s. s\<lparr>mx_data := AList.update k v (mx_data s), mx_expires := put_expiry k ex (mx_expires s)\<rparr>) vals s2))"

text \<open>\<open>update\<close> of the base class, for a store with atomic patches.\<close>

definition mx_update :: "clock \<Rightarrow> dict \<Rightarrow> rat option \<Rightarrow> mem_context \<Rightarrow> unit result \<times> mem_context" where
  "mx_update c vals ttl s = mx_patch c vals [] ttl s"

section \<open>On Redis\<close>

record redis_conf =
  rx_prefix :: string
  rx_default :: "rat option"
  rx_fits :: "pyval \<Rightarrow> bool"

type_synonym redis_context = "(string \<times> pyval \<times> time option) list"

definition rx_key :: "redis_conf \<Rightarrow> string \<Rightarrow> string" where
  "rx_key C k = rx_prefix C @ '':'' @ k"

definition rx_ttl :: "redis_conf \<Rightarrow> rat option \<Rightarrow> int option" where
  "rx_ttl C ttl = (case pick_ttl (rx_default C) ttl of None \<Rightarrow> None | Some x \<Rightarrow> if 0 < x then Some \<lfloor>x\<rfloor> else None)"

definition rx_serialize :: "redis_conf \<Rightarrow> pyval \<Rightarrow> pyval result" where
  "rx_serialize C v = (if wire_safe v \<and> rx_fits C v then Inr v else Inl ValueError)"

definition over :: "time \<Rightarrow> time option \<Rightarrow> bool" where
  "over now ex \<longleftrightarrow> (case ex of None \<Rightarrow> False | Some t \<Rightarrow> t \<le> now)"

definition rx_lookup :: "time \<Rightarrow> string \<Rightarrow> redis_context \<Rightarrow> pyval option" where
  "rx_lookup now k s = (case map_of s k of None \<Rightarrow> None | Some (v, ex) \<Rightarrow> if over now ex then None else Some v)"

definition rx_get :: "redis_conf \<Rightarrow> clock \<Rightarrow> string \<Rightarrow> redis_context \<Rightarrow> pyval option result" where
  "rx_get C c k s = Inr (rx_lookup (c 0) (rx_key C k) s)"

text \<open>\<open>SETEX\<close> refuses a time to live that is not positive.\<close>

definition response_error :: py_error where
  "response_error = UserError ''ResponseError''"

definition rx_store :: "time \<Rightarrow> int option \<Rightarrow> string \<Rightarrow> pyval \<Rightarrow> redis_context \<Rightarrow> unit result \<times> redis_context" where
  "rx_store now ttl k v s = (case ttl of
     None \<Rightarrow> (Inr (), AList.update k (v, None) s)
   | Some n \<Rightarrow> if n \<le> 0 then (Inl response_error, s) else (Inr (), AList.update k (v, Some (now + of_int n)) s))"

definition rx_set :: "redis_conf \<Rightarrow> clock \<Rightarrow> string \<Rightarrow> pyval \<Rightarrow> rat option \<Rightarrow> redis_context \<Rightarrow> unit result \<times> redis_context" where
  "rx_set C c k v ttl s = (case rx_serialize C v of
     Inl e \<Rightarrow> (Inl e, s) | Inr w \<Rightarrow> rx_store (c 0) (rx_ttl C ttl) (rx_key C k) w s)"

definition rx_delete :: "redis_conf \<Rightarrow> string \<Rightarrow> redis_context \<Rightarrow> redis_context" where
  "rx_delete C k s = AList.delete (rx_key C k) s"

text \<open>
  One \<open>MULTI\<close>/\<open>EXEC\<close>: all commands run, a failing one does not stop the others, and its error is
  raised afterwards.
\<close>

definition rx_exec :: "redis_conf \<Rightarrow> time \<Rightarrow> int option \<Rightarrow> string \<times> pyval \<Rightarrow> unit result \<times> redis_context \<Rightarrow> unit result \<times> redis_context" where
  "rx_exec C now ttl p acc = (case rx_store now ttl (rx_key C (fst p)) (snd p) (snd acc) of
     (Inl e, s') \<Rightarrow> (if fst acc = Inr () then Inl e else fst acc, s') | (Inr u, s') \<Rightarrow> (fst acc, s'))"

definition rx_patch :: "redis_conf \<Rightarrow> clock \<Rightarrow> dict \<Rightarrow> string list \<Rightarrow> rat option \<Rightarrow> redis_context \<Rightarrow> unit result \<times> redis_context" where
  "rx_patch C c vals dels ttl s = (case map_result (\<lambda>(k, v). rbind (rx_serialize C v) (\<lambda>w. Inr (k, w))) vals of
     Inl e \<Rightarrow> (Inl e, s)
   | Inr ser \<Rightarrow> fold (rx_exec C (c 0) (rx_ttl C ttl)) ser (Inr (), fold (rx_delete C) dels s))"

definition rx_update :: "redis_conf \<Rightarrow> clock \<Rightarrow> dict \<Rightarrow> rat option \<Rightarrow> redis_context \<Rightarrow> unit result \<times> redis_context" where
  "rx_update C c vals ttl s = rx_patch C c vals [] ttl s"

definition has_prefix :: "redis_conf \<Rightarrow> string \<Rightarrow> bool" where
  "has_prefix C k \<longleftrightarrow> starts_with (rx_prefix C @ '':'') k"

definition rx_clear :: "redis_conf \<Rightarrow> redis_context \<Rightarrow> redis_context" where
  "rx_clear C s = filter (\<lambda>(k, x). \<not> has_prefix C k) s"

definition rx_snapshot :: "redis_conf \<Rightarrow> clock \<Rightarrow> redis_context \<Rightarrow> dict result" where
  "rx_snapshot C c s = Inr (List.map_filter (\<lambda>(k, v, ex).
     if has_prefix C k \<and> \<not> over (c 0) ex then Some (drop (length (rx_prefix C) + 1) k, v) else None) s)"

text \<open>\<open>__contains__\<close>, \<open>__getitem__\<close>, \<open>__delitem__\<close> and \<open>__len__\<close> of the base class.\<close>

definition rx_contains :: "redis_conf \<Rightarrow> clock \<Rightarrow> string \<Rightarrow> redis_context \<Rightarrow> bool" where
  "rx_contains C c k s \<longleftrightarrow> rx_lookup (c 0) (rx_key C k) s \<noteq> None"

definition rx_getitem :: "redis_conf \<Rightarrow> clock \<Rightarrow> string \<Rightarrow> redis_context \<Rightarrow> pyval result" where
  "rx_getitem C c k s = (case rx_lookup (c 0) (rx_key C k) s of None \<Rightarrow> Inl KeyError | Some v \<Rightarrow> Inr v)"

definition rx_delitem :: "redis_conf \<Rightarrow> clock \<Rightarrow> string \<Rightarrow> redis_context \<Rightarrow> unit result \<times> redis_context" where
  "rx_delitem C c k s = (if rx_contains C c k s then (Inr (), rx_delete C k s) else (Inl KeyError, s))"

section \<open>Operations and replies\<close>

datatype ctx_call =
    Get string
  | Set string pyval "rat option"
  | Delete string
  | Clear
  | Snapshot
  | Patch dict "string list" "rat option"

datatype ctx_reply = Value "pyval option" | Done "unit result" | Snap "string \<Rightarrow> pyval option"

fun mx_step :: "time \<Rightarrow> ctx_call \<Rightarrow> mem_context \<Rightarrow> ctx_reply \<times> mem_context" where
  "mx_step t (Get k) s = (case mx_get (\<lambda>_. t) k s of (Inr x, s') \<Rightarrow> (Value x, s'))"
| "mx_step t (Set k v ttl) s = (case mx_set (\<lambda>_. t) k v ttl s of (x, s') \<Rightarrow> (Done x, s'))"
| "mx_step t (Delete k) s = (Done (Inr ()), mx_delete k s)"
| "mx_step t Clear s = (Done (Inr ()), mx_clear s)"
| "mx_step t Snapshot s = (case mx_snapshot (\<lambda>_. t) s of (Inr d, s') \<Rightarrow> (Snap (map_of d), s'))"
| "mx_step t (Patch vals dels ttl) s = (case mx_patch (\<lambda>_. t) vals dels ttl s of (x, s') \<Rightarrow> (Done x, s'))"

fun rx_step :: "redis_conf \<Rightarrow> time \<Rightarrow> ctx_call \<Rightarrow> redis_context \<Rightarrow> ctx_reply \<times> redis_context" where
  "rx_step C t (Get k) s = (case rx_get C (\<lambda>_. t) k s of Inr x \<Rightarrow> (Value x, s))"
| "rx_step C t (Set k v ttl) s = (case rx_set C (\<lambda>_. t) k v ttl s of (x, s') \<Rightarrow> (Done x, s'))"
| "rx_step C t (Delete k) s = (Done (Inr ()), rx_delete C k s)"
| "rx_step C t Clear s = (Done (Inr ()), rx_clear C s)"
| "rx_step C t Snapshot s = (case rx_snapshot C (\<lambda>_. t) s of Inr d \<Rightarrow> (Snap (map_of d), s))"
| "rx_step C t (Patch vals dels ttl) s = (case rx_patch C (\<lambda>_. t) vals dels ttl s of (x, s') \<Rightarrow> (Done x, s'))"

section \<open>The contract\<close>

text \<open>
  The specification: a map from keys to values with an expiry, of which the entries that are over
  are gone.
\<close>

type_synonym ctx_map = "string \<Rightarrow> (pyval \<times> time option) option"

definition later :: "time \<Rightarrow> ctx_map \<Rightarrow> ctx_map" where
  "later t m k = (case m k of None \<Rightarrow> None | Some (v, ex) \<Rightarrow> if over t ex then None else Some (v, ex))"

fun ctx_spec_step :: "rat option \<Rightarrow> time \<Rightarrow> ctx_call \<Rightarrow> ctx_map \<Rightarrow> ctx_reply \<times> ctx_map" where
  "ctx_spec_step dflt t (Get k) m = (Value (map_option fst (m k)), m)"
| "ctx_spec_step dflt t (Set k v ttl) m = (Done (Inr ()), m(k \<mapsto> (v, expires_in (pick_ttl dflt ttl) t)))"
| "ctx_spec_step dflt t (Delete k) m = (Done (Inr ()), m(k := None))"
| "ctx_spec_step dflt t Clear m = (Done (Inr ()), \<lambda>k. None)"
| "ctx_spec_step dflt t Snapshot m = (Snap (\<lambda>k. map_option fst (m k)), m)"
| "ctx_spec_step dflt t (Patch vals dels ttl) m = (Done (Inr ()),
     fold (\<lambda>(k, v) m. m(k \<mapsto> (v, expires_in (pick_ttl dflt ttl) t))) vals (fold (\<lambda>k m. m(k := None)) dels m))"

fun ctx_run :: "(time \<Rightarrow> ctx_call \<Rightarrow> 's \<Rightarrow> ctx_reply \<times> 's) \<Rightarrow> (time \<times> ctx_call) list \<Rightarrow> 's \<Rightarrow> ctx_reply list" where
  "ctx_run step [] s = []"
| "ctx_run step ((t, call) # xs) s = (case step t call s of (x, s') \<Rightarrow> x # ctx_run step xs s')"

definition spec_ctx :: "rat option \<Rightarrow> time \<Rightarrow> ctx_call \<Rightarrow> ctx_map \<Rightarrow> ctx_reply \<times> ctx_map" where
  "spec_ctx dflt t call m = ctx_spec_step dflt t call (later t m)"

text \<open>The calls that are not reads.\<close>

fun changes :: "ctx_call \<Rightarrow> bool" where
  "changes (Get k) \<longleftrightarrow> False"
| "changes Snapshot \<longleftrightarrow> False"
| "changes _ \<longleftrightarrow> True"

locale context_store =
  fixes I :: "'s \<Rightarrow> bool"
    and view :: "'s \<Rightarrow> time \<Rightarrow> ctx_map"
    and step :: "time \<Rightarrow> ctx_call \<Rightarrow> 's \<Rightarrow> ctx_reply \<times> 's"
    and ok :: "ctx_call \<Rightarrow> bool"
    and dflt :: "rat option"
  assumes reads_ok: "\<not> changes c \<Longrightarrow> ok c"
    and view_later: "I s \<Longrightarrow> t \<le> t' \<Longrightarrow> view s t' = later t' (view s t)"
    and step_refines: "I s \<Longrightarrow> ok call \<Longrightarrow> step t call s = (x, s') \<Longrightarrow>
      I s' \<and> x = fst (ctx_spec_step dflt t call (view s t)) \<and> view s' t = later t (snd (ctx_spec_step dflt t call (view s t)))"
begin

lemma later_later: "t \<le> t' \<Longrightarrow> later t' (later t m) = later t' m"
  by (auto simp: later_def over_def fun_eq_iff split: option.splits)

text \<open>In the order of time the replies are those of the specification.\<close>

lemma run_refines:
  assumes "I s" "sorted (t # map fst xs)" "\<forall>(u, call)\<in>set xs. ok call" "view s t = later t m"
  shows "ctx_run step xs s = ctx_run (spec_ctx dflt) xs m"
  using assms
proof (induction xs arbitrary: s t m)
  case (Cons x xs)
  obtain u call where x: "x = (u, call)" by fastforce
  have ok: "ok call" "t \<le> u" "sorted (u # map fst xs)" using Cons.prems(2,3) x by auto
  obtain y s' where y: "step u call s = (y, s')" by fastforce
  have view: "view s u = later u m" using view_later[OF Cons.prems(1) ok(2)] Cons.prems(4) later_later[OF ok(2)] by simp
  have s': "I s'" "y = fst (ctx_spec_step dflt u call (later u m))" "view s' u = later u (snd (ctx_spec_step dflt u call (later u m)))"
    using step_refines[OF Cons.prems(1) ok(1) y] view by auto
  have "ctx_run step xs s' = ctx_run (spec_ctx dflt) xs (snd (ctx_spec_step dflt u call (later u m)))"
    using Cons.prems(3) s' ok(3) by (intro Cons.IH) auto
  moreover obtain z m' where "ctx_spec_step dflt u call (later u m) = (z, m')" by fastforce
  ultimately show ?case using x y s'(2) by (simp add: spec_ctx_def[of dflt u call m])
qed simp

end

subsection \<open>The memory store\<close>

definition mx_inv :: "rat option \<Rightarrow> mem_context \<Rightarrow> bool" where
  "mx_inv dflt s \<longleftrightarrow> mx_default s = dflt \<and> distinct (map fst (mx_data s)) \<and> distinct (map fst (mx_expires s))"

definition mx_view :: "mem_context \<Rightarrow> time \<Rightarrow> ctx_map" where
  "mx_view s t = later t (\<lambda>k. map_option (\<lambda>v. (v, map_of (mx_expires s) k)) (map_of (mx_data s) k))"

lemma map_of_filter_key: "map_of (filter (\<lambda>(k, v). P k) d) k = (if P k then map_of d k else None)"
  by (induction d) auto

lemma mx_sweep_maps:
  assumes "distinct (map fst (mx_expires s))"
  shows "map_of (mx_data (mx_sweep t s)) k = (if over t (map_of (mx_expires s) k) then None else map_of (mx_data s) k)"
    and "map_of (mx_expires (mx_sweep t s)) k = (if over t (map_of (mx_expires s) k) then None else map_of (mx_expires s) k)"
proof -
  have "k \<in> set (map fst (filter (\<lambda>(k, u). u \<le> t) (mx_expires s))) \<longleftrightarrow> over t (map_of (mx_expires s) k)"
  proof -
    have "k \<in> set (map fst (filter (\<lambda>(k, u). u \<le> t) (mx_expires s))) \<longleftrightarrow> (\<exists>u. (k, u) \<in> set (mx_expires s) \<and> u \<le> t)"
      by force
    also have "\<dots> \<longleftrightarrow> (\<exists>u. map_of (mx_expires s) k = Some u \<and> u \<le> t)" using assms by simp
    finally show ?thesis by (simp add: over_def split: option.split)
  qed
  then show "map_of (mx_data (mx_sweep t s)) k = (if over t (map_of (mx_expires s) k) then None else map_of (mx_data s) k)"
    "map_of (mx_expires (mx_sweep t s)) k = (if over t (map_of (mx_expires s) k) then None else map_of (mx_expires s) k)"
    by (auto simp: mx_sweep_def Let_def map_of_filter_key)
qed

lemma mx_sweep_inv: "mx_inv dflt s \<Longrightarrow> mx_inv dflt (mx_sweep t s)"
  by (simp add: mx_inv_def mx_sweep_def Let_def distinct_map_filter)

lemma mx_sweep_view: "mx_inv dflt s \<Longrightarrow> t \<le> t' \<Longrightarrow> mx_view (mx_sweep t s) t' = mx_view s t'"
  by (auto simp: mx_view_def later_def mx_sweep_maps mx_inv_def over_def fun_eq_iff split: option.splits)

lemma mx_view_sweep: "mx_inv dflt s \<Longrightarrow>
    mx_view s t k = map_option (\<lambda>v. (v, map_of (mx_expires (mx_sweep t s)) k)) (map_of (mx_data (mx_sweep t s)) k)"
  by (auto simp: mx_view_def later_def mx_sweep_maps mx_inv_def split: option.splits)

lemma later_idem [simp]: "later t (later t m) = later t m"
  by (auto simp: later_def fun_eq_iff split: option.splits)

text \<open>Assigning and removing, on the pair of dictionaries and on the map.\<close>

definition mx_put :: "time option \<Rightarrow> string \<Rightarrow> pyval \<Rightarrow> mem_context \<Rightarrow> mem_context" where
  "mx_put ex k v s = s\<lparr>mx_data := AList.update k v (mx_data s), mx_expires := put_expiry k ex (mx_expires s)\<rparr>"

definition mx_map :: "mem_context \<Rightarrow> ctx_map" where
  "mx_map s k = map_option (\<lambda>v. (v, map_of (mx_expires s) k)) (map_of (mx_data s) k)"

lemma mx_map_put [simp]: "mx_map (mx_put ex k v s) = (mx_map s)(k \<mapsto> (v, ex))"
  by (auto simp: mx_map_def mx_put_def put_expiry_def delete_conv' fun_eq_iff split: option.splits)

lemma mx_map_delete [simp]: "mx_map (mx_delete k s) = (mx_map s)(k := None)"
  by (auto simp: mx_map_def mx_delete_def delete_conv' fun_eq_iff)

lemma mx_inv_put: "mx_inv dflt s \<Longrightarrow> mx_inv dflt (mx_put ex k v s)"
  by (auto simp: mx_inv_def mx_put_def put_expiry_def distinct_update distinct_delete split: option.splits)

lemma mx_inv_delete: "mx_inv dflt s \<Longrightarrow> mx_inv dflt (mx_delete k s)"
  by (auto simp: mx_inv_def mx_delete_def distinct_delete)

lemma mx_map_puts: "mx_map (fold (\<lambda>(k, v) s. mx_put ex k v s) vals s) = fold (\<lambda>(k, v) m. m(k \<mapsto> (v, ex))) vals (mx_map s)"
  by (induction vals arbitrary: s) auto

lemma mx_map_deletes: "mx_map (fold mx_delete dels s) = fold (\<lambda>k m. m(k := None)) dels (mx_map s)"
  by (induction dels arbitrary: s) auto

lemma mx_inv_puts: "mx_inv dflt s \<Longrightarrow> mx_inv dflt (fold (\<lambda>(k, v) s. mx_put ex k v s) vals s)"
  by (induction vals arbitrary: s) (auto simp: mx_inv_put)

lemma mx_inv_deletes: "mx_inv dflt s \<Longrightarrow> mx_inv dflt (fold mx_delete dels s)"
  by (induction dels arbitrary: s) (auto simp: mx_inv_delete)

interpretation mx: context_store "mx_inv dflt" mx_view mx_step "\<lambda>_. True" dflt for dflt
proof
  show True if "\<not> changes c" for c by simp
  show "mx_view s t' = later t' (mx_view s t)" if "t \<le> t'" for s t t'
    using that by (auto simp: mx_view_def later_def over_def fun_eq_iff split: option.splits)
  fix s call t x s' assume inv: "mx_inv dflt s" and step: "mx_step t call s = (x, s')"
  have view: "mx_view u t = later t (mx_map u)" for u by (simp add: mx_view_def mx_map_def[abs_def])
  have swept: "mx_map (mx_sweep t s) = mx_view s t" using mx_view_sweep[OF inv] by (auto simp: mx_map_def)
  note invs = mx_sweep_inv[OF inv, of t]
  have dflt: "mx_default s = dflt" using inv by (simp add: mx_inv_def)
  show "mx_inv dflt s' \<and> x = fst (ctx_spec_step dflt t call (mx_view s t)) \<and> mx_view s' t = later t (snd (ctx_spec_step dflt t call (mx_view s t)))"
  proof (cases call)
    case (Get k)
    have "map_of (mx_data (mx_sweep t s)) k = map_option fst (mx_view s t k)" by (simp add: swept[symmetric] mx_map_def option.map_comp comp_def option.map_ident)
    then show ?thesis using step Get invs swept by (auto simp: mx_get_def Let_def view)
  next
    case (Set k v ttl)
    have "s' = mx_put (expires_in (pick_ttl dflt ttl) t) k v (mx_sweep t s)" "x = Done (Inr ())"
      using step Set dflt by (auto simp: mx_set_def Let_def mx_put_def)
    then show ?thesis using Set invs swept by (simp add: mx_inv_put view)
  next
    case (Delete k)
    then have "s' = mx_delete k s" "x = Done (Inr ())" using step by auto
    then show ?thesis using Delete inv by (auto simp: mx_inv_delete view later_def fun_eq_iff split: option.splits)
  next
    case Clear
    then show ?thesis using step inv by (auto simp: mx_clear_def mx_inv_def view mx_map_def later_def)
  next
    case Snapshot
    have "map_of (mx_data (mx_sweep t s)) = (\<lambda>k. map_option fst (mx_view s t k))"
      by (simp add: swept[symmetric] mx_map_def[abs_def] option.map_comp comp_def option.map_ident)
    then show ?thesis using step Snapshot invs swept by (auto simp: mx_snapshot_def Let_def view)
  next
    case (Patch vals dels ttl)
    have "s' = fold (\<lambda>(k, v) s. mx_put (expires_in (pick_ttl dflt ttl) t) k v s) vals (fold mx_delete dels (mx_sweep t s))"
      "x = Done (Inr ())"
      using step Patch dflt by (auto simp: mx_patch_def Let_def mx_put_def)
    then show ?thesis using Patch invs swept by (simp add: mx_inv_puts mx_inv_deletes view mx_map_puts mx_map_deletes)
  qed
qed

subsection \<open>The Redis store\<close>

text \<open>The calls on which Redis keeps the contract: values it can encode, whole seconds to live.\<close>

definition whole_ttl :: "redis_conf \<Rightarrow> rat option \<Rightarrow> bool" where
  "whole_ttl C ttl \<longleftrightarrow> (case pick_ttl (rx_default C) ttl of None \<Rightarrow> True | Some x \<Rightarrow> 0 < x \<longrightarrow> of_int \<lfloor>x\<rfloor> = x)"

fun rx_ok :: "redis_conf \<Rightarrow> ctx_call \<Rightarrow> bool" where
  "rx_ok C (Set k v ttl) \<longleftrightarrow> rx_serialize C v = Inr v \<and> whole_ttl C ttl"
| "rx_ok C (Patch vals dels ttl) \<longleftrightarrow> list_all (\<lambda>(k, v). rx_serialize C v = Inr v) vals \<and> whole_ttl C ttl"
| "rx_ok C call \<longleftrightarrow> True"

definition rx_map :: "redis_conf \<Rightarrow> redis_context \<Rightarrow> ctx_map" where
  "rx_map C s k = map_of s (rx_key C k)"

definition rx_view :: "redis_conf \<Rightarrow> redis_context \<Rightarrow> time \<Rightarrow> ctx_map" where
  "rx_view C s t = later t (rx_map C s)"

definition rx_inv :: "redis_context \<Rightarrow> bool" where
  "rx_inv s \<longleftrightarrow> distinct (map fst s)"

lemma rx_key_inj [simp]: "rx_key C k = rx_key C k' \<longleftrightarrow> k = k'"
  by (simp add: rx_key_def)

lemma has_prefix_iff: "has_prefix C x \<longleftrightarrow> (\<exists>k. x = rx_key C k)"
proof
  assume "has_prefix C x"
  then have "x = rx_key C (drop (length (rx_prefix C @ '':'')) x)"
    using append_take_drop_id[of "length (rx_prefix C @ '':'')" x] by (auto simp: has_prefix_def starts_with_def rx_key_def)
  then show "\<exists>k. x = rx_key C k" ..
qed (auto simp: has_prefix_def starts_with_def rx_key_def)

lemma rx_store_whole:
  assumes "whole_ttl C ttl"
  shows "rx_store t (rx_ttl C ttl) k v s = (Inr (), AList.update k (v, expires_in (pick_ttl (rx_default C) ttl) t) s)"
proof (cases "pick_ttl (rx_default C) ttl")
  case (Some x)
  then show ?thesis using assms by (cases "0 < x") (auto simp: rx_store_def rx_ttl_def whole_ttl_def expires_in_def)
qed (simp add: rx_store_def rx_ttl_def expires_in_def)

lemma rx_map_update [simp]: "rx_map C (AList.update (rx_key C k) x s) = (rx_map C s)(k \<mapsto> x)"
  by (auto simp: rx_map_def fun_eq_iff)

lemma rx_map_delete [simp]: "rx_map C (rx_delete C k s) = (rx_map C s)(k := None)"
  by (auto simp: rx_map_def rx_delete_def delete_conv' fun_eq_iff)

lemma rx_map_deletes: "rx_map C (fold (rx_delete C) dels s) = fold (\<lambda>k m. m(k := None)) dels (rx_map C s)"
  by (induction dels arbitrary: s) auto

lemma rx_inv_deletes: "rx_inv s \<Longrightarrow> rx_inv (fold (rx_delete C) dels s)"
  by (induction dels arbitrary: s) (auto simp: rx_inv_def rx_delete_def distinct_delete)

lemma rx_puts:
  assumes "whole_ttl C ttl" "rx_inv s"
  shows "\<exists>s'. fold (rx_exec C t (rx_ttl C ttl)) vals (Inr (), s) = (Inr (), s')
    \<and> rx_inv s' \<and> rx_map C s' = fold (\<lambda>(k, v) m. m(k \<mapsto> (v, expires_in (pick_ttl (rx_default C) ttl) t))) vals (rx_map C s)"
  using assms(2)
proof (induction vals arbitrary: s)
  case (Cons p vals)
  obtain k v where p: "p = (k, v)" by fastforce
  have "rx_inv (AList.update (rx_key C k) (v, expires_in (pick_ttl (rx_default C) ttl) t) s)"
    using Cons.prems by (simp add: rx_inv_def distinct_update)
  from Cons.IH[OF this] show ?case by (simp add: p rx_exec_def rx_store_whole[OF assms(1)])
qed simp

lemma rx_snapshot_map: "rx_inv s \<Longrightarrow>
    map_of (List.map_filter (\<lambda>(k, v, ex). if has_prefix C k \<and> \<not> over t ex then Some (drop (length (rx_prefix C) + 1) k, v) else None) s) k
      = map_option fst (rx_view C s t k)"
proof (induction s)
  case (Cons p s)
  obtain x v ex where p: "p = (x, v, ex)" by (cases p)
  show ?case
  proof (cases "x = rx_key C k")
    case True
    then have "map_of s (rx_key C k) = None" using Cons.prems p by (simp add: rx_inv_def map_of_eq_None_iff)
    then show ?thesis using Cons True p
      by (auto simp: rx_inv_def map_filter_simps has_prefix_iff rx_view_def later_def rx_map_def) (auto simp: rx_key_def)
  next
    case False
    then have "has_prefix C x \<Longrightarrow> drop (length (rx_prefix C) + 1) x \<noteq> k" by (auto simp: has_prefix_iff rx_key_def)
    then show ?thesis using Cons False p by (auto simp: rx_inv_def map_filter_simps rx_view_def later_def rx_map_def)
  qed
qed (simp add: map_filter_simps rx_view_def later_def rx_map_def)

lemma rx_map_clear [simp]: "rx_map C (rx_clear C s) = (\<lambda>k. None)"
proof -
  have "map_of (rx_clear C s) (rx_key C k) = None" for k
    unfolding rx_clear_def map_of_eq_None_iff by (auto simp: has_prefix_iff)
  then show ?thesis by (simp add: rx_map_def[abs_def])
qed

lemma later_update: "later t (m(k := x)) = later t ((later t m)(k := x))"
  by (auto simp: later_def fun_eq_iff split: option.splits)

lemma later_updates:
  "later t m = later t m' \<Longrightarrow> later t (fold (\<lambda>(k, v) m. m(k \<mapsto> (v, ex))) vals m) = later t (fold (\<lambda>(k, v) m. m(k \<mapsto> (v, ex))) vals m')"
proof (induction vals arbitrary: m m')
  case (Cons p vals)
  have "later t (m(fst p \<mapsto> (snd p, ex))) = later t (m'(fst p \<mapsto> (snd p, ex)))"
    using Cons.prems later_update[of t m] later_update[of t m'] by simp
  from Cons.IH[OF this] show ?case by (simp add: case_prod_beta)
qed simp

lemma later_removals:
  "later t m = later t m' \<Longrightarrow> later t (fold (\<lambda>k m. m(k := None)) dels m) = later t (fold (\<lambda>k m. m(k := None)) dels m')"
proof (induction dels arbitrary: m m')
  case (Cons k dels)
  have "later t (m(k := None)) = later t (m'(k := None))"
    using Cons.prems later_update[of t m] later_update[of t m'] by simp
  from Cons.IH[OF this] show ?case by simp
qed simp

lemma rx_serialize_all:
  "list_all (\<lambda>(k, v). rx_serialize C v = Inr v) vals \<Longrightarrow>
   map_result (\<lambda>(k, v). rbind (rx_serialize C v) (\<lambda>w. Inr (k, w))) vals = Inr vals"
  by (induction vals) auto

interpretation rx: context_store rx_inv "rx_view C" "rx_step C" "rx_ok C" "rx_default C" for C
proof
  show "rx_ok C c" if "\<not> changes c" for c using that by (cases c) auto
  show "rx_view C s t' = later t' (rx_view C s t)" if "t \<le> t'" for s t t'
    using that by (auto simp: rx_view_def later_def over_def fun_eq_iff split: option.splits)
  fix s call t x s' assume inv: "rx_inv s" and ok: "rx_ok C call" and step: "rx_step C t call s = (x, s')"
  show "rx_inv s' \<and> x = fst (ctx_spec_step (rx_default C) t call (rx_view C s t))
    \<and> rx_view C s' t = later t (snd (ctx_spec_step (rx_default C) t call (rx_view C s t)))"
  proof (cases call)
    case (Get k)
    then show ?thesis using step inv
      by (auto simp: rx_get_def rx_lookup_def rx_view_def later_def rx_map_def split: option.splits)
  next
    case (Set k v ttl)
    then have "x = Done (Inr ())" "s' = AList.update (rx_key C k) (v, expires_in (pick_ttl (rx_default C) ttl) t) s"
      using step ok by (auto simp: rx_set_def rx_store_whole)
    then show ?thesis using Set inv
      by (auto simp: rx_view_def rx_inv_def distinct_update later_def fun_eq_iff split: option.splits)
  next
    case (Delete k)
    then have "x = Done (Inr ())" "s' = rx_delete C k s" using step by auto
    then show ?thesis using Delete rx_inv_deletes[OF inv, of C "[k]"] by (auto simp: rx_view_def later_def fun_eq_iff split: option.splits)
  next
    case Clear
    then have "x = Done (Inr ())" "s' = rx_clear C s" using step by auto
    moreover have "rx_inv (rx_clear C s)" using inv by (simp add: rx_inv_def rx_clear_def distinct_map_filter)
    ultimately show ?thesis using Clear by (simp add: rx_view_def)
  next
    case Snapshot
    then show ?thesis using step inv rx_snapshot_map[OF inv, of C t] by (auto simp: rx_snapshot_def rx_view_def)
  next
    case (Patch vals dels ttl)
    have ser: "map_result (\<lambda>(k, v). rbind (rx_serialize C v) (\<lambda>w. Inr (k, w))) vals = Inr vals"
      using ok Patch by (intro rx_serialize_all) simp
    have w: "whole_ttl C ttl" using ok Patch by simp
    from rx_puts[OF w rx_inv_deletes[OF inv], of t vals C dels] step
    have "x = Done (Inr ())" "rx_inv s'"
      "rx_map C s' = fold (\<lambda>(k, v) m. m(k \<mapsto> (v, expires_in (pick_ttl (rx_default C) ttl) t))) vals (fold (\<lambda>k m. m(k := None)) dels (rx_map C s))"
      using Patch ser by (auto simp: rx_patch_def rx_map_deletes split: prod.splits)
    then show ?thesis using Patch
      by (auto simp: rx_view_def intro!: later_updates later_removals)
  qed
qed

end
