(* ===== verification/Pipeline_Fence.thy ===== *)
theory Pipeline_Fence
  imports Context_Store
begin

text \<open>
  \<open>_PipelineRunControl\<close> and \<open>_CancellationFencedHandle\<close> of \<open>kernel/orchestrator.py\<close>: the one-way
  cancellation of a parallel run and the fence between its branches and the context store. A write
  through the handle is two steps, the check and then the call on the store, and other branches, the
  cancellation and the end of the run may come between them: the relation \<open>fence_step\<close>.
\<close>

section \<open>The run control\<close>

record run_control =
  pc_token :: string
  pc_namespace :: string
  pc_parent :: bool
  pc_event :: bool
  pc_active :: bool
  pc_reason :: string

definition pc_init :: "string \<Rightarrow> string \<Rightarrow> bool \<Rightarrow> run_control" where
  "pc_init token ns parent = \<lparr>pc_token = token, pc_namespace = ns, pc_parent = parent, pc_event = False,
     pc_active = True, pc_reason = []\<rparr>"

definition pc_is_set :: "run_control \<Rightarrow> bool" where
  "pc_is_set ctl \<longleftrightarrow> pc_event ctl \<or> pc_parent ctl"

definition pc_cancel :: "string \<Rightarrow> run_control \<Rightarrow> run_control" where
  "pc_cancel reason ctl = ctl\<lparr>pc_reason := (if pc_reason ctl = [] then reason else pc_reason ctl), pc_event := True\<rparr>"

definition pc_set :: "run_control \<Rightarrow> run_control" where
  "pc_set ctl = pc_cancel ''operator requested cancellation'' ctl"

definition pc_reason_text :: "run_control \<Rightarrow> string" where
  "pc_reason_text ctl = (if pc_reason ctl \<noteq> [] then pc_reason ctl
     else if pc_parent ctl then ''parent pipeline cancellation requested'' else ''pipeline cancellation requested'')"

definition pc_close :: "run_control \<Rightarrow> run_control" where
  "pc_close ctl = ctl\<lparr>pc_active := False\<rparr>"

definition pc_raise_if_cancelled :: "run_control \<Rightarrow> unit result" where
  "pc_raise_if_cancelled ctl = (if pc_is_set ctl then Inl PipelineCancellationError else Inr ())"

definition pc_assert_writable :: "run_control \<Rightarrow> unit result" where
  "pc_assert_writable ctl = (if pc_is_set ctl \<or> \<not> pc_active ctl then Inl PipelineLateWriteRejected else Inr ())"

text \<open>
  \<open>wait\<close>: one round per look at the events, with what \<open>is_set\<close> answers and what the clock reads;
  \<open>None\<close>: the rounds are over.
\<close>

fun pc_wait_loop :: "time option \<Rightarrow> (bool \<times> time) list \<Rightarrow> bool option" where
  "pc_wait_loop deadline [] = None"
| "pc_wait_loop deadline ((is_set, now) # rs) =
     (if is_set then Some True
      else case deadline of
        None \<Rightarrow> pc_wait_loop deadline rs
      | Some d \<Rightarrow> if d - now \<le> 0 then Some False else pc_wait_loop deadline rs)"

definition pc_wait :: "rat option \<Rightarrow> time \<Rightarrow> (bool \<times> time) list \<Rightarrow> bool option" where
  "pc_wait timeout now rs = pc_wait_loop (map_option (\<lambda>t. now + max 0 t) timeout) rs"

lemma pc_cancel_set [simp]: "pc_is_set (pc_cancel reason ctl)"
  by (simp add: pc_is_set_def pc_cancel_def)

text \<open>The first reason is kept.\<close>

lemma pc_cancel_reason: "reason \<noteq> [] \<Longrightarrow> pc_reason (pc_cancel reason' (pc_cancel reason ctl)) = pc_reason (pc_cancel reason ctl)"
  by (simp add: pc_cancel_def)

lemma pc_wait_True: "pc_wait timeout now rs = Some True \<Longrightarrow> \<exists>r\<in>set rs. fst r"
  unfolding pc_wait_def by (induction "map_option (\<lambda>t. now + max 0 t) timeout" rs rule: pc_wait_loop.induct) (auto split: if_splits option.splits)

text \<open>With a timeout the wait ends at the first look past the deadline.\<close>

lemma pc_wait_ends: "r \<in> set rs \<Longrightarrow> now + max 0 t \<le> snd r \<Longrightarrow> pc_wait (Some t) now rs \<noteq> None"
proof -
  have "r \<in> set rs \<Longrightarrow> d \<le> snd r \<Longrightarrow> pc_wait_loop (Some d) rs \<noteq> None" for d by (induction rs) auto
  then show "r \<in> set rs \<Longrightarrow> now + max 0 t \<le> snd r \<Longrightarrow> ?thesis" by (simp add: pc_wait_def)
qed

section \<open>The fenced handle\<close>

definition mutating_methods :: "string list" where
  "mutating_methods = [''set'', ''update'', ''delete'', ''clear'', ''write'', ''write_snapshot'', ''write_population_snapshot'',
     ''commit_population_snapshot'', ''set_context_store'', ''set_snapshot_store'']"

definition store_attributes :: "string list" where
  "store_attributes = [''context_store'', ''snapshot_store'']"

text \<open>What \<open>__getattr__\<close> returns for an attribute of the target.\<close>

datatype handle_attribute = Sub_Handle string | Fenced_Call | Plain_Attribute

definition handle_getattr :: "string \<Rightarrow> string \<Rightarrow> bool \<Rightarrow> bool \<Rightarrow> handle_attribute" where
  "handle_getattr handle name is_none is_callable =
     (if name \<in> set store_attributes \<and> \<not> is_none then Sub_Handle (handle @ ''.'' @ name)
      else if name \<notin> set mutating_methods \<or> \<not> is_callable then Plain_Attribute
      else Fenced_Call)"

text \<open>What a branch does through a handle on a context store.\<close>

datatype handle_call = Method ctx_call | Update dict "rat option" | Item_Set string pyval | Item_Delete string

fun method_name :: "ctx_call \<Rightarrow> string" where
  "method_name (Get k) = ''get''"
| "method_name (Set k v ttl) = ''set''"
| "method_name (Delete k) = ''delete''"
| "method_name Clear = ''clear''"
| "method_name Snapshot = ''snapshot''"
| "method_name (Patch vals dels ttl) = ''apply_patch''"

fun checked :: "handle_call \<Rightarrow> bool" where
  "checked (Method c) \<longleftrightarrow> handle_getattr ''context_store'' (method_name c) False True = Fenced_Call"
| "checked (Update vals ttl) \<longleftrightarrow> handle_getattr ''context_store'' ''update'' False True = Fenced_Call"
| "checked (Item_Set k v) \<longleftrightarrow> True"
| "checked (Item_Delete k) \<longleftrightarrow> True"

text \<open>The call that reaches the store. (\<open>__delitem__\<close> of an absent key raises instead: nothing to delete.)\<close>

fun reaching :: "handle_call \<Rightarrow> ctx_call" where
  "reaching (Method c) = c"
| "reaching (Update vals ttl) = Patch vals [] ttl"
| "reaching (Item_Set k v) = Set k v None"
| "reaching (Item_Delete k) = Delete k"

definition handle_begin :: "run_control \<Rightarrow> handle_call \<Rightarrow> ctx_call result" where
  "handle_begin ctl h = (if checked h then rbind (pc_assert_writable ctl) (\<lambda>_. Inr (reaching h)) else Inr (reaching h))"

section \<open>Branches, cancellation and the end of the run\<close>

record 's fenced =
  fn_control :: run_control
  fn_store :: 's
  fn_flight :: "nat \<Rightarrow> ctx_call option"

datatype fence_event =
    Begin nat handle_call
  | Refused nat handle_call
  | Land nat ctx_call ctx_reply
  | Cancel string
  | Parent_Set
  | Close

inductive fence_step :: "(time \<Rightarrow> ctx_call \<Rightarrow> 's \<Rightarrow> ctx_reply \<times> 's) \<Rightarrow> time \<Rightarrow> 's fenced \<Rightarrow> fence_event \<Rightarrow> 's fenced \<Rightarrow> bool"
  for step t where
  begins: "fn_flight \<sigma> i = None \<Longrightarrow> handle_begin (fn_control \<sigma>) h = Inr c \<Longrightarrow>
    fence_step step t \<sigma> (Begin i h) (\<sigma>\<lparr>fn_flight := (fn_flight \<sigma>)(i \<mapsto> c)\<rparr>)"
| refused: "fn_flight \<sigma> i = None \<Longrightarrow> handle_begin (fn_control \<sigma>) h = Inl e \<Longrightarrow>
    fence_step step t \<sigma> (Refused i h) \<sigma>"
| land: "fn_flight \<sigma> i = Some c \<Longrightarrow> step t c (fn_store \<sigma>) = (x, s') \<Longrightarrow>
    fence_step step t \<sigma> (Land i c x) (\<sigma>\<lparr>fn_store := s', fn_flight := (fn_flight \<sigma>)(i := None)\<rparr>)"
| cancel: "fence_step step t \<sigma> (Cancel reason) (\<sigma>\<lparr>fn_control := pc_cancel reason (fn_control \<sigma>)\<rparr>)"
| parent: "fence_step step t \<sigma> Parent_Set (\<sigma>\<lparr>fn_control := (fn_control \<sigma>)\<lparr>pc_parent := True\<rparr>\<rparr>)"
| close: "fence_step step t \<sigma> Close (\<sigma>\<lparr>fn_control := pc_close (fn_control \<sigma>)\<rparr>)"

inductive_cases fence_stepE: "fence_step step t \<sigma> ev \<sigma>'"

inductive fence_run :: "(time \<Rightarrow> ctx_call \<Rightarrow> 's \<Rightarrow> ctx_reply \<times> 's) \<Rightarrow> 's fenced \<Rightarrow> (time \<times> fence_event) list \<Rightarrow> 's fenced \<Rightarrow> bool"
  for step where
  stop: "fence_run step \<sigma> [] \<sigma>"
| more: "fence_step step t \<sigma> ev \<sigma>1 \<Longrightarrow> fence_run step \<sigma>1 evs \<sigma>' \<Longrightarrow> fence_run step \<sigma> ((t, ev) # evs) \<sigma>'"

definition shut :: "run_control \<Rightarrow> bool" where
  "shut ctl \<longleftrightarrow> pc_is_set ctl \<or> \<not> pc_active ctl"

text \<open>The calls the fence knows as writes.\<close>

fun patches :: "handle_call \<Rightarrow> bool" where
  "patches (Method (Patch vals dels ttl)) \<longleftrightarrow> True"
| "patches _ \<longleftrightarrow> False"

lemma shut_step: "fence_step step t \<sigma> ev \<sigma>' \<Longrightarrow> shut (fn_control \<sigma>) \<Longrightarrow> shut (fn_control \<sigma>')"
  by (erule fence_stepE) (auto simp: shut_def pc_is_set_def pc_cancel_def pc_close_def)

lemma checked_writes: "changes (reaching h) \<Longrightarrow> \<not> patches h \<Longrightarrow> checked h"
  by (induction h rule: patches.induct) (auto simp: handle_getattr_def mutating_methods_def store_attributes_def elim: changes.elims)

lemma shut_begin: "shut ctl \<Longrightarrow> handle_begin ctl h = Inr c \<Longrightarrow> \<not> patches h \<Longrightarrow> \<not> changes c"
  using checked_writes[of h] by (auto simp: handle_begin_def pc_assert_writable_def shut_def split: if_splits)

lemma spec_reads: "\<not> changes c \<Longrightarrow> snd (ctx_spec_step dflt t c m) = m"
  by (cases c) auto

text \<open>Once the run is shut, a write that lands was under way before.\<close>

lemma late_flight:
  assumes "fence_run step \<sigma> evs \<sigma>'" "shut (fn_control \<sigma>)"
    "\<forall>(t, ev)\<in>set evs. \<forall>i h. ev = Begin i h \<longrightarrow> \<not> patches h"
  shows "(\<forall>t i c x. (t, Land i c x) \<in> set evs \<and> changes c \<longrightarrow> fn_flight \<sigma> i = Some c)
    \<and> (\<forall>i c. fn_flight \<sigma>' i = Some c \<and> changes c \<longrightarrow> fn_flight \<sigma> i = Some c)"
  using assms
proof (induction rule: fence_run.induct)
  case (more t \<sigma> ev \<sigma>1 evs \<sigma>')
  have shut: "shut (fn_control \<sigma>1)" using shut_step[OF more.hyps(1) more.prems(1)] .
  have old: "fn_flight \<sigma>1 i = Some c \<Longrightarrow> changes c \<Longrightarrow> fn_flight \<sigma> i = Some c" for i c
    using more.hyps(1)
  proof cases
    case (begins j h d)
    then have "\<not> changes d" using shut_begin[OF more.prems(1)] more.prems(2) by auto
    then show "fn_flight \<sigma>1 i = Some c \<Longrightarrow> changes c \<Longrightarrow> ?thesis" using begins by (auto split: if_splits)
  qed (auto split: if_splits)
  have "fn_flight \<sigma> i = Some c" if "ev = Land i c x" for i c x using more.hyps(1) that by (auto elim: fence_stepE)
  moreover have "\<forall>(t, ev)\<in>set evs. \<forall>i h. ev = Begin i h \<longrightarrow> \<not> patches h" using more.prems(2) by simp
  ultimately show ?case using more.IH[OF shut] old by simp (metis (no_types))
qed simp

text \<open>So, with no write under way, the store promises what it promised.\<close>

context context_store
begin

lemma reads_keep: "I s \<Longrightarrow> \<not> changes c \<Longrightarrow> step t c s = (x, s') \<Longrightarrow> t \<le> u \<Longrightarrow> I s' \<and> view s' u = view s u"
proof -
  assume a: "I s" "\<not> changes c" "step t c s = (x, s')" "t \<le> u"
  have "I s'" "view s' t = later t (view s t)" using step_refines[OF a(1) reads_ok[OF a(2)] a(3)] spec_reads[OF a(2)] by simp_all
  then show ?thesis using view_later[OF _ a(4)] view_later[OF a(1) order_refl[of t]] a(1) by simp
qed

lemma late_store:
  assumes "fence_run step \<sigma> evs \<sigma>'" "shut (fn_control \<sigma>)"
    "\<forall>(t, ev)\<in>set evs. t \<le> u \<and> (\<forall>i h. ev = Begin i h \<longrightarrow> \<not> patches h)"
    "\<forall>i c. fn_flight \<sigma> i = Some c \<longrightarrow> \<not> changes c" "I (fn_store \<sigma>)"
  shows "I (fn_store \<sigma>') \<and> view (fn_store \<sigma>') u = view (fn_store \<sigma>) u"
  using assms
proof (induction rule: fence_run.induct)
  case (more t \<sigma> ev \<sigma>1 evs \<sigma>')
  have shut: "shut (fn_control \<sigma>1)" using shut_step[OF more.hyps(1) more.prems(1)] .
  have "(\<forall>i c. fn_flight \<sigma>1 i = Some c \<longrightarrow> \<not> changes c) \<and> I (fn_store \<sigma>1) \<and> view (fn_store \<sigma>1) u = view (fn_store \<sigma>) u"
    using more.hyps(1)
  proof cases
    case (begins j h d)
    then show ?thesis using shut_begin[OF more.prems(1)] more.prems by auto
  next
    case (land j c x s')
    then show ?thesis using reads_keep[of "fn_store \<sigma>" c t x s' u] more.prems by auto
  qed (use more.prems in auto)
  then show ?case using more.IH[OF shut] more.prems(2) by simp
qed simp

end

end
