(* ===== verification/Pipeline_Properties.thy ===== *)
theory Pipeline_Properties
  imports Pipeline_Run Pipeline_Fence
begin

text \<open>
  Properties of pipeline runs: the accounts of a parallel run, when it returns, what a serial run
  returns, and what the fence keeps out after the run.
\<close>

section \<open>Accounts of a parallel run\<close>

lemma run_batches_indices:
  "\<lbrakk>\<And>rs b x. col rs b = Some x \<Longrightarrow> indices x = mset b; run_batches col bs rss = Some (oks, failed, ab)\<rbrakk>
   \<Longrightarrow> \<exists>done. mset done + mset (map fst oks) + mset (map bf_index failed) = mset (concat bs) \<and> (\<not> ab \<longrightarrow> done = [])"
proof (induction col bs rss arbitrary: oks failed ab rule: run_batches.induct)
  case (3 col b bs rs rss)
  obtain oks1 failed1 ab1 where c: "col rs b = Some (oks1, failed1, ab1)"
    using 3(3) by (cases "col rs b") auto
  have b: "mset (map fst oks1) + mset (map bf_index failed1) = mset b" using 3(2)[OF c] by simp
  show ?case
  proof (cases ab1)
    case True
    then have "mset (concat bs) + mset (map fst oks) + mset (map bf_index failed) = mset (concat (b # bs))" "ab"
      using 3(3) c b by auto
    then show ?thesis by blast
  next
    case False
    then obtain y where y: "run_batches col bs rss = Some y" "(oks, failed, ab) = add_collected (oks1, failed1, False) y"
      using 3(3) c by auto
    obtain oks2 failed2 ab2 where y': "y = (oks2, failed2, ab2)" by (cases y)
    have "\<exists>rest. mset rest + mset (map fst oks2) + mset (map bf_index failed2) = mset (concat bs) \<and> (\<not> ab2 \<longrightarrow> rest = [])"
      by (rule 3(1)[OF c refl refl]) (use False 3(2) y(1) y' in auto)
    then obtain rest where rest: "mset rest + mset (map fst oks2) + mset (map bf_index failed2) = mset (concat bs)" "\<not> ab2 \<longrightarrow> rest = []"
      by blast
    then have "mset rest + mset (map fst oks) + mset (map bf_index failed) = mset (concat (b # bs)) \<and> (\<not> ab \<longrightarrow> rest = [])"
      using y(2) y' by (simp add: add_collected_def ac_simps flip: b rest(1))
    then show ?thesis by blast
  qed
qed auto

lemma run_batches_done:
  "\<lbrakk>\<And>rs b oks failed ab i v. col rs b = Some (oks, failed, ab) \<Longrightarrow> (i, v) \<in> set oks \<Longrightarrow> \<exists>r\<in>set rs. rd_result r i = Some (Inr v);
    run_batches col bs rss = Some (oks, failed, ab); (i, v) \<in> set oks\<rbrakk>
   \<Longrightarrow> \<exists>rs\<in>set rss. \<exists>r\<in>set rs. rd_result r i = Some (Inr v)"
proof (induction col bs rss arbitrary: oks failed ab rule: run_batches.induct)
  case (3 col b bs rs rss)
  obtain oks1 failed1 ab1 where c: "col rs b = Some (oks1, failed1, ab1)"
    using 3(3) by (cases "col rs b") auto
  note first = 3(2)[OF c]
  show ?case
  proof (cases ab1)
    case True
    then show ?thesis using 3(3,4) c first by auto
  next
    case False
    then obtain oks2 failed2 ab2 where y: "run_batches col bs rss = Some (oks2, failed2, ab2)" "oks = oks1 @ oks2"
      using 3(3) c by (auto simp: add_collected_def)
    show ?thesis
    proof (cases "(i, v) \<in> set oks1")
      case True
      then show ?thesis using first by auto
    next
      case F: False
      then have "(i, v) \<in> set oks2" using y(2) 3(4) by simp
      then show ?thesis using 3(1)[OF c refl refl _ 3(2) y(1)] False by auto
    qed
  qed
qed auto

text \<open>The branches a report accounts for: each of the \<open>n\<close> branches once.\<close>

definition audited :: "parallel_report \<Rightarrow> nat \<Rightarrow> bool" where
  "audited rep n \<longleftrightarrow> mset (rp_success rep) + mset (map bf_index (rp_failures rep)) = mset [0..<n]
     \<and> sorted (rp_success rep) \<and> sorted (map bf_index (rp_failures rep))"

lemma mset_sorted: "mset (map f (sort_key g xs)) = mset (map f xs)"
  by (simp only: mset_map mset_sort)

lemma sort_fst_values: "list_all2 (\<lambda>i v. (i, v) \<in> set xs) (sort (map fst xs)) (map snd (sort_key fst xs))"
proof -
  have "sort (map fst xs) = map fst (sort_key fst xs)"
    by (rule properties_for_sort) (simp_all add: mset_sorted)
  moreover have "list_all2 (\<lambda>i v. (i, v) \<in> set xs) (map fst ys) (map snd ys)" if "set ys \<subseteq> set xs" for ys
    using that by (induction ys) auto
  ultimately show ?thesis by (simp del: map_map)
qed

text \<open>
  C17. A parallel run accounts for every branch exactly once, as a success or as a failure, both in
  branch order, whatever the rounds, the deadline and the cancellation do. It raises
  \<open>PipelineParallelError\<close> exactly when the policy is strict and some branch failed; otherwise the
  results are, in branch order, values that these very branches returned.
\<close>

theorem parallel_accounts:
  assumes "run_parallel pool name deadline strict coe w n rss = Some (res, rep)" "0 < w"
  shows "audited rep n \<and> rp_branches rep = n
    \<and> (res = Inl PipelineParallelError \<longleftrightarrow> strict \<and> rp_failures rep \<noteq> [])
    \<and> (\<forall>vs. res = Inr vs \<longrightarrow> list_all2 (\<lambda>i v. \<exists>rs\<in>set rss. \<exists>r\<in>set rs. rd_result r i = Some (Inr v)) (rp_success rep) vs)
    \<and> res \<in> range Inr \<union> {Inl PipelineParallelError}"
proof (cases "n = 0")
  case True
  then show ?thesis using assms(1) by (auto simp: run_parallel_def make_report_def audited_def)
next
  case False
  let ?col = "collect_futures pool name deadline strict coe"
  have col: "(if pool then collect_pool_batch name deadline strict coe else collect_future_batch name deadline strict coe) = ?col"
    by (simp add: collect_pool_batch_def collect_future_batch_def)
  obtain oks failed ab where r: "run_batches ?col (batches w [0..<n]) rss = Some (oks, failed, ab)"
    and res: "(res, rep) = (let seen = map fst oks @ map bf_index failed; timed_out = list_ex bf_timed_out failed;
        all = (if ab then failed @ map (not_submitted name timed_out) (filter (\<lambda>i. i \<notin> set seen) [0..<n]) else failed)
      in (if sort_key bf_index all \<noteq> [] \<and> strict then Inl PipelineParallelError else Inr (map snd (sort_key fst oks)),
          make_report n oks (sort_key bf_index all)))"
    using assms(1) False unfolding run_parallel_def col by (auto simp: Let_def)
  obtain rest where rest: "mset rest + mset (map fst oks) + mset (map bf_index failed) = mset [0..<n]" "\<not> ab \<longrightarrow> rest = []"
    using run_batches_indices[OF _ r] collect_indices[of pool name deadline strict coe] assms(2) by (metis batches_concat)
  define seen where "seen = map fst oks @ map bf_index failed"
  define all where "all = (if ab then failed @ map (not_submitted name (list_ex bf_timed_out failed)) (filter (\<lambda>i. i \<notin> set seen) [0..<n]) else failed)"
  have "mset (rest @ seen) = mset [0..<n]" using rest(1) by (simp add: seen_def add.assoc)
  then have "distinct (rest @ seen)" "set rest \<union> set seen = {0..<n}"
    using mset_eq_imp_distinct_iff[of "rest @ seen" "[0..<n]"] mset_eq_setD[of "rest @ seen" "[0..<n]"] by simp_all
  then have "mset (filter (\<lambda>i. i \<notin> set seen) [0..<n]) = mset rest" if ab
    by (intro iffD1[OF set_eq_iff_mset_eq_distinct]) auto
  then have "mset (map fst oks) + mset (map bf_index all) = mset [0..<n]"
    using rest by (cases ab) (simp_all add: all_def not_submitted_def comp_def ac_simps)
  then have "audited rep n" using res
    by (simp add: audited_def make_report_def Let_def mset_sorted del: mset_map flip: all_def seen_def)
  moreover have "\<forall>vs. res = Inr vs \<longrightarrow> list_all2 (\<lambda>i v. \<exists>rs\<in>set rss. \<exists>r\<in>set rs. rd_result r i = Some (Inr v)) (rp_success rep) vs"
    using res list_all2_mono[OF sort_fst_values[of oks]] run_batches_done[OF collect_done r]
    by (auto simp: make_report_def Let_def split: if_splits)
  ultimately show ?thesis using res by (auto simp: make_report_def Let_def)
qed

definition ex_rounds :: "string round list" where
  "ex_rounds = [\<lparr>rd_set = False, rd_now = 0, rd_result = \<lambda>i. if i = 1 then Some (Inr ''b'') else None, rd_cancel = \<lambda>_. True, rd_over = \<lambda>_. False\<rparr>,
     \<lparr>rd_set = False, rd_now = 1, rd_result = \<lambda>i. Some (Inr ''a''), rd_cancel = \<lambda>_. True, rd_over = \<lambda>_. False\<rparr>]"

lemma ex_rounds_run: "run_parallel False (\<lambda>i. ''op'') None True True 2 2 [ex_rounds] = Some (Inr [''a'', ''b''], make_report 2 [(1, ''b''), (0, ''a'')] [])"
  by (simp add: run_parallel_def ex_rounds_def collect_future_batch_def upt_rec Let_def past_def still_pending_def done_values_def
      done_failures_def List.map_filter_simps add_collected_def)

theorem parallel_accounts_witness: "audited (make_report 2 [(1, ''b''), (0, ''a'')] []) 2"
  using parallel_accounts[OF ex_rounds_run] by simp

section \<open>When a run returns\<close>

lemma collect_late:
  "(\<exists>r\<in>set rs. past deadline (rd_now r)) \<Longrightarrow> collect_futures pool name deadline strict coe rs pending \<noteq> None"
proof (induction pool name deadline strict coe rs pending rule: collect_futures.induct)
  case (3 pool name deadline strict coe r rs p ps)
  show ?case
  proof (cases "past deadline (rd_now r)")
    case False
    then show ?thesis using 3(1,2)[OF refl refl refl refl] 3(3) by (auto simp: Let_def simp del: not_None_eq)
  qed (auto simp: Let_def simp del: not_None_eq)
qed auto

text \<open>A round of \<open>wait\<close> on futures ends the batch or leaves fewer of them pending.\<close>

lemma still_pending_less: "still_pending r pending \<noteq> pending \<Longrightarrow> length (still_pending r pending) < length pending"
  by (metis still_pending_def filter_id_conv length_filter_less)

lemma collect_in_order: "length pending \<le> length rs \<Longrightarrow> collect_futures False name deadline strict coe rs pending \<noteq> None"
proof (induction "False" name deadline strict coe rs pending rule: collect_futures.induct)
  case (3 name deadline strict coe r rs p ps)
  have "still_pending r (p # ps) \<noteq> p # ps \<Longrightarrow> length (still_pending r (p # ps)) \<le> length rs"
    using still_pending_less[of r "p # ps"] 3(3) by simp
  then show ?case using 3(2)[OF refl refl refl refl] by (auto simp: Let_def simp del: not_None_eq)
qed simp_all

lemma run_batches_ends:
  "(\<And>b rs. b \<in> set bs \<Longrightarrow> rs \<in> set rss \<Longrightarrow> col rs b \<noteq> None) \<Longrightarrow> length bs \<le> length rss \<Longrightarrow> run_batches col bs rss \<noteq> None"
proof (induction col bs rss rule: run_batches.induct)
  case (3 col b bs rs rss)
  obtain oks failed ab where c: "col rs b = Some (oks, failed, ab)" using 3(2)[of b rs] by auto
  then show ?case
  proof (cases ab)
    case False
    have "run_batches col bs rss \<noteq> None" by (rule 3(1)[OF c refl refl]) (use False 3(2,3) in auto)
    then show ?thesis using c False by (simp del: not_None_eq)
  qed simp
qed simp_all

lemma batches_count: "length (batches w is) \<le> length is"
proof (induction w "is" rule: batches.induct)
  case (2 w i "is")
  then show ?case by simp
qed simp

text \<open>
  A parallel run returns. On futures it needs no assumption on the branches but that \<open>wait\<close>
  keeps its contract: at most as many rounds per batch as the batch has branches, and no more
  batches than branches. On pool handles, which are polled, it returns once the clock has passed the
  deadline in a round of each batch; so with a deadline a branch that never finishes cannot keep the
  caller waiting.
\<close>

theorem parallel_returns:
  assumes "n \<le> length rss" "0 < w"
    "\<forall>rs\<in>set rss. if pool then \<exists>r\<in>set rs. past deadline (rd_now r) else w \<le> length rs"
  shows "\<exists>res rep. run_parallel pool name deadline strict coe w n rss = Some (res, rep)"
proof (cases "n = 0")
  case False
  let ?col = "if pool then collect_pool_batch name deadline strict coe else collect_future_batch name deadline strict coe"
  have "run_batches ?col (batches w [0..<n]) rss \<noteq> None"
  proof (rule run_batches_ends)
    fix b rs assume "b \<in> set (batches w [0..<n])" "rs \<in> set rss"
    then show "?col rs b \<noteq> None"
      using assms(2,3) batches_length[of b w "[0..<n]"] collect_in_order[of b rs] collect_late[of rs deadline]
      by (auto simp: collect_pool_batch_def collect_future_batch_def max_def split: if_splits)
  qed (use batches_count[of w "[0..<n]"] assms(1) in simp)
  then show ?thesis using False by (auto simp: run_parallel_def Let_def)
qed (simp add: run_parallel_def)

theorem parallel_returns_witness:
  "\<exists>res rep. run_parallel True (\<lambda>i. ''op'') (Some 5) True True 1 1
     [[\<lparr>rd_set = False, rd_now = 7, rd_result = \<lambda>i. None :: string result option, rd_cancel = \<lambda>_. False, rd_over = \<lambda>_. False\<rparr>]] = Some (res, rep)"
  by (rule parallel_returns) (simp_all add: past_def)

section \<open>Failures with one worker\<close>

text \<open>A round in which the branch \<open>i\<close> has finished as \<open>outcome i\<close>, and what is recorded of it.\<close>

definition finished :: "(nat \<Rightarrow> 'v result) \<Rightarrow> nat \<Rightarrow> 'v round" where
  "finished outcome i = \<lparr>rd_set = False, rd_now = 0, rd_result = (\<lambda>j. if j = i then Some (outcome i) else None),
     rd_cancel = \<lambda>_. True, rd_over = \<lambda>_. False\<rparr>"

definition own_value :: "(nat \<Rightarrow> 'v result) \<Rightarrow> nat \<Rightarrow> (nat \<times> 'v) option" where
  "own_value outcome i = (case outcome i of Inr v \<Rightarrow> Some (i, v) | Inl e \<Rightarrow> None)"

definition own_failure :: "(nat \<Rightarrow> string) \<Rightarrow> (nat \<Rightarrow> 'v result) \<Rightarrow> nat \<Rightarrow> branch_failure option" where
  "own_failure name outcome i = (case outcome i of Inr v \<Rightarrow> None | Inl e \<Rightarrow> Some \<lparr>bf_index = i, bf_operator = name i, bf_error = e,
     bf_timed_out = False, bf_cancelled = (e = CancelledError \<or> e = PipelineCancellationError), bf_running = False\<rparr>)"

lemma collect_finished:
  "collect_futures pool name None strict coe [finished outcome i] [i]
     = Some (List.map_filter (own_value outcome) [i], List.map_filter (own_failure name outcome) [i], False)"
  by (cases "outcome i") (simp_all add: finished_def past_def still_pending_def done_values_def done_failures_def Let_def
      List.map_filter_simps own_value_def own_failure_def add_collected_def)

lemma batches_one: "batches (Suc 0) is = map (\<lambda>i. [i]) is"
  by (induction "is") simp_all

lemma run_finished:
  "run_batches (collect_futures pool name None strict coe) (map (\<lambda>i. [i]) is) (map (\<lambda>i. [finished outcome i]) is)
     = Some (List.map_filter (own_value outcome) is, List.map_filter (own_failure name outcome) is, False)"
  by (induction "is") (simp_all add: collect_finished add_collected_def map_filter_Cons List.map_filter_simps del: collect_futures.simps split: option.splits)

lemma sorted_own:
  assumes "sorted is" "\<And>i x. f i = Some x \<Longrightarrow> key x = i"
  shows "sort_key key (List.map_filter f is) = List.map_filter f is"
proof -
  have "\<forall>x\<in>set (List.map_filter f is). key x \<in> set is" for "is" using assms(2) by (auto simp: List.map_filter_def)
  then have "sorted (map key (List.map_filter f is))"
    using assms by (induction "is") (auto simp: map_filter_Cons List.map_filter_simps split: option.splits)
  then show ?thesis by (rule sort_key_id_if_sorted)
qed

lemma own_index: "own_value outcome i = Some x \<Longrightarrow> fst x = i" "own_failure name outcome i = Some y \<Longrightarrow> bf_index y = i"
  by (auto simp: own_value_def own_failure_def split: sum.splits)

text \<open>
  Cancelling the rest after a strict failure looks only at the failed branch's own batch: with one
  worker a batch is one branch, so whatever the branches return every one of them is run and the
  report has only their own outcomes, although the policy is strict and says \<open>cancel_on_error\<close>.
\<close>

theorem one_worker_runs_all:
  "\<exists>res. run_parallel pool name None True True 1 n (map (\<lambda>i. [finished outcome i]) [0..<n])
     = Some (res, make_report n (List.map_filter (own_value outcome) [0..<n]) (List.map_filter (own_failure name outcome) [0..<n]))"
  using sorted_own[of "[0..<n]" "own_failure name outcome" bf_index] own_index(2)[of name outcome]
  by (cases "n = 0") (auto simp: run_parallel_def batches_one run_finished Let_def collect_pool_batch_def collect_future_batch_def
      List.map_filter_simps)

section \<open>Serial runs\<close>

text \<open>
  \<open>ran ops v s w t\<close>: the given operators, one after another, took \<open>v\<close> to \<open>w\<close> and the state from \<open>s\<close>
  to \<open>t\<close>, and the run was not cancelled before or after any of them.
\<close>

inductive ran :: "('s \<Rightarrow> bool) \<Rightarrow> string \<Rightarrow> ('v, 's) operator option list \<Rightarrow> 'v \<Rightarrow> 's \<Rightarrow> 'v \<Rightarrow> 's \<Rightarrow> bool"
  for cancelled meth where
  none: "ran cancelled meth [] v s v s"
| skip: "ran cancelled meth ops v s w t \<Longrightarrow> ran cancelled meth (None # ops) v s w t"
| one: "\<not> cancelled s \<Longrightarrow> call_operator f v meth s = (Inr w, t) \<Longrightarrow> \<not> cancelled t
    \<Longrightarrow> ran cancelled meth ops w t x u \<Longrightarrow> ran cancelled meth (Some f # ops) v s x u"

inductive_cases ranE: "ran cancelled meth (a # ops) v s w t"

text \<open>What a serial run ends with at the operator \<open>f\<close>, the value so far being \<open>w\<close>.\<close>

definition stopped_at :: "('s \<Rightarrow> bool) \<Rightarrow> bool \<Rightarrow> string \<Rightarrow> ('v, 's) operator \<Rightarrow> 'v \<Rightarrow> 's \<Rightarrow> 'v result \<Rightarrow> 's \<Rightarrow> bool" where
  "stopped_at cancelled strict meth f w t x u \<longleftrightarrow>
     (cancelled t \<and> x = Inl PipelineCancellationError \<and> u = t)
   \<or> (\<not> cancelled t \<and> (\<exists>y. call_operator f w meth t = (y, u) \<and> (case y of
        Inr z \<Rightarrow> cancelled u \<and> x = Inl PipelineCancellationError
      | Inl e \<Rightarrow> x = (if strict \<or> e = PipelineCancellationError then Inl e else Inr w))))"

text \<open>
  A serial run either runs every operator in order, each on the value of the one before, and
  returns the last value; or it stops at one operator: cancelled before or after it with the
  cancellation error, or with the operator's own error when the policy is strict, or else with the
  value from before that operator, the later operators not being called. So a policy that is not
  strict raises nothing but a cancellation.
\<close>

theorem serial_outcome:
  assumes "run_serial cancelled strict meth ops v s = (x, u)"
  shows "(\<exists>w. x = Inr w \<and> ran cancelled meth ops v s w u)
    \<or> (\<exists>before f after w t. ops = before @ Some f # after \<and> ran cancelled meth before v s w t
        \<and> stopped_at cancelled strict meth f w t x u)"
  using assms
proof (induction cancelled strict meth ops v s rule: run_serial.induct)
  case (2 cancelled strict meth ops v s)
  then have "run_serial cancelled strict meth ops v s = (x, u)" by simp
  from 2(1)[OF this] show ?case by (metis append_Cons ran.skip)
next
  case (3 cancelled strict meth f ops v s)
  show ?case
  proof (cases "stopped_at cancelled strict meth f v s x u")
    case True
    then show ?thesis using ran.none by (metis append_Nil)
  next
    case False
    then obtain w t where step: "\<not> cancelled s" "call_operator f v meth s = (Inr w, t)" "\<not> cancelled t"
      "run_serial cancelled strict meth ops w t = (x, u)"
      using 3(2) by (auto simp: stopped_at_def split: if_splits prod.splits sum.splits)
    note more = ran.one[OF step(1-3)]
    from 3(1)[OF step(1) step(2)[symmetric] refl step(3) step(4)] show ?thesis
      using more by (metis append_Cons)
  qed
qed (auto intro: ran.none)

definition ex_operator :: "(nat \<Rightarrow> nat result) \<Rightarrow> (nat, unit) operator" where
  "ex_operator g = \<lparr>op_name = ''op'', op_method = \<lambda>m. Some \<lparr>cl_binds = Some (\<lambda>a. \<exists>v. a = Value_Only v),
     cl_body = \<lambda>a s. (case a of Value_Only v \<Rightarrow> g v | _ \<Rightarrow> Inl TypeError, s)\<rparr>, op_callable = None\<rparr>"

lemma ex_serial_run:
  "run_serial (\<lambda>_. False) False ''mutate'' [Some (ex_operator (\<lambda>v. Inr (v + 1))), None, Some (ex_operator (\<lambda>v. Inl ValueError))] 1 () = (Inr 2, ())"
  by (simp add: ex_operator_def call_operator_def invoke_bound_once_def invoke_with_outcome_def bind_index_def upt_rec Let_def)

theorem serial_outcome_witness:
  "\<exists>before f after w t. [Some (ex_operator (\<lambda>v. Inr (v + 1))), None, Some (ex_operator (\<lambda>v. Inl ValueError))] = before @ Some f # after
     \<and> ran (\<lambda>_. False) ''mutate'' before 1 () w t \<and> stopped_at (\<lambda>_. False) False ''mutate'' f w t (Inr 2) ()"
  using serial_outcome[OF ex_serial_run]
proof (elim disjE)
  assume "\<exists>w. Inr 2 = Inr w \<and> ran (\<lambda>_. False) ''mutate'' [Some (ex_operator (\<lambda>v. Inr (v + 1))), None, Some (ex_operator (\<lambda>v. Inl ValueError))] 1 () w ()"
  then show ?thesis
    by (auto elim!: ranE simp: ex_operator_def call_operator_def invoke_bound_once_def invoke_with_outcome_def bind_index_def upt_rec Let_def)
qed

section \<open>The fence\<close>

text \<open>
  Once the run is cancelled or over: a write that lands was under way before, and if none was, the
  store promises the same as before.
\<close>

definition fence_holds :: "(time \<Rightarrow> ctx_call \<Rightarrow> 's \<Rightarrow> ctx_reply \<times> 's) \<Rightarrow> ('s \<Rightarrow> bool) \<Rightarrow> ('s \<Rightarrow> time \<Rightarrow> ctx_map) \<Rightarrow> bool" where
  "fence_holds step I view \<longleftrightarrow> (\<forall>\<sigma> evs \<sigma>' u. fence_run step \<sigma> evs \<sigma>' \<longrightarrow> shut (fn_control \<sigma>) \<longrightarrow> I (fn_store \<sigma>)
     \<longrightarrow> (\<forall>(t, ev)\<in>set evs. t \<le> u \<and> (\<forall>i h. ev = Begin i h \<longrightarrow> \<not> patches h))
     \<longrightarrow> (\<forall>t i c x. (t, Land i c x) \<in> set evs \<and> changes c \<longrightarrow> fn_flight \<sigma> i = Some c)
       \<and> ((\<forall>i c. fn_flight \<sigma> i = Some c \<longrightarrow> \<not> changes c) \<longrightarrow> view (fn_store \<sigma>') u = view (fn_store \<sigma>) u))"

context context_store
begin

lemma fence_holds_ok: "fence_holds step I view"
  unfolding fence_holds_def
proof (intro allI impI conjI)
  fix \<sigma> evs \<sigma>' u
  assume run: "fence_run step \<sigma> evs \<sigma>'" "shut (fn_control \<sigma>)" and inv: "I (fn_store \<sigma>)"
    and evs: "\<forall>(t, ev)\<in>set evs. t \<le> u \<and> (\<forall>i h. ev = Begin i h \<longrightarrow> \<not> patches h)"
  show "fn_flight \<sigma> i = Some c" if "(t, Land i c x) \<in> set evs \<and> changes c" for t i c x
    using late_flight[OF run] evs that by fast
  show "view (fn_store \<sigma>') u = view (fn_store \<sigma>) u" if "\<forall>i c. fn_flight \<sigma> i = Some c \<longrightarrow> \<not> changes c"
    using late_store[OF run evs that inv] by simp
qed

end


definition late_control :: "string \<Rightarrow> run_control" where
  "late_control reason = pc_close (pc_cancel reason (pc_init ''token'' ''pipeline'' False))"

text \<open>
  \<open>apply_patch\<close> is not among the methods the handle fences: in a run that has been cancelled and
  closed, where the handle refuses \<open>set\<close> and \<open>update\<close>, a branch still writes any value through it.
\<close>

theorem patch_passes_fence:
  "handle_begin (late_control reason) (Method (Set k v None)) = Inl PipelineLateWriteRejected
    \<and> handle_begin (late_control reason) (Update [(k, v)] None) = Inl PipelineLateWriteRejected
    \<and> (\<exists>\<sigma>'. fence_run mx_step \<lparr>fn_control = late_control reason, fn_store = mx_init None, fn_flight = \<lambda>_. None\<rparr>
         [(t, Begin 0 (Method (Patch [(k, v)] [] None))), (t, Land 0 (Patch [(k, v)] [] None) (Done (Inr ())))] \<sigma>'
         \<and> mx_view (fn_store \<sigma>') t k = Some (v, None))"
proof (intro conjI)
  let ?P = "Patch [(k, v)] [] None"
  let ?\<sigma> = "\<lparr>fn_control = late_control reason, fn_store = mx_init None, fn_flight = \<lambda>_. None\<rparr>"
  let ?\<sigma>1 = "?\<sigma>\<lparr>fn_flight := (fn_flight ?\<sigma>)(0 \<mapsto> ?P)\<rparr>"
  define s' where "s' = snd (mx_step t ?P (mx_init None))"
  have lands: "mx_step t ?P (mx_init None) = (Done (Inr ()), s')"
    by (simp add: s'_def mx_patch_def Let_def)
  have begins: "fence_step mx_step t ?\<sigma> (Begin 0 (Method ?P)) ?\<sigma>1"
    by (rule fence_step.begins) (simp_all add: handle_begin_def handle_getattr_def mutating_methods_def store_attributes_def)
  have land: "fence_step mx_step t ?\<sigma>1 (Land 0 ?P (Done (Inr ())))
      (?\<sigma>1\<lparr>fn_store := s', fn_flight := (fn_flight ?\<sigma>1)(0 := None)\<rparr>)"
    by (rule fence_step.land) (use lands in simp_all)
  have "mx_view s' t k = Some (v, None)"
    by (simp add: s'_def mx_patch_def Let_def mx_init_def mx_sweep_def pick_ttl_def expires_in_def put_expiry_def mx_view_def later_def over_def)
  then show "\<exists>\<sigma>'. fence_run mx_step ?\<sigma> [(t, Begin 0 (Method ?P)), (t, Land 0 ?P (Done (Inr ())))] \<sigma>' \<and> mx_view (fn_store \<sigma>') t k = Some (v, None)"
    using fence_run.more[OF begins fence_run.more[OF land fence_run.stop]] by fastforce
qed (simp_all add: late_control_def handle_begin_def pc_assert_writable_def handle_getattr_def mutating_methods_def store_attributes_def
    pc_is_set_def pc_close_def pc_cancel_def)

text \<open>
  The check and the call are two steps: a write admitted before the run closed lands after it.
\<close>

lemma admitted_write_lands:
  "fence_step step t \<sigma> (Begin 0 h) \<sigma>1 \<Longrightarrow> \<exists>c x \<sigma>2. fence_run step \<sigma>1 [(t, Close), (t, Land 0 c x)] \<sigma>2 \<and> c = reaching h"
proof -
  assume "fence_step step t \<sigma> (Begin 0 h) \<sigma>1"
  then have c: "fn_flight \<sigma>1 0 = Some (reaching h)"
    by (auto elim!: fence_stepE simp: handle_begin_def pc_assert_writable_def split: if_splits)
  obtain x s' where land: "step t (reaching h) (fn_store \<sigma>1) = (x, s')" by fastforce
  let ?\<sigma> = "\<sigma>1\<lparr>fn_control := pc_close (fn_control \<sigma>1)\<rparr>"
  have "fence_step step t ?\<sigma> (Land 0 (reaching h) x) (?\<sigma>\<lparr>fn_store := s', fn_flight := (fn_flight ?\<sigma>)(0 := None)\<rparr>)"
    by (rule fence_step.land) (use c land in simp_all)
  then show ?thesis using fence_run.more[OF fence_step.close fence_run.more[OF _ fence_run.stop]] by blast
qed

end
