(* ===== verification/Snapshot_Model.thy ===== *)
theory Snapshot_Model
  imports Context_Store
begin

text \<open>
  \<open>context/snapshot_store.py\<close>: handles and records of snapshots, keys, the calls of the interface
  \<open>SnapshotStore\<close>, what every backend promises of them (\<open>snap_spec\<close>, the locale \<open>snapshot_store\<close>),
  and what a client may conclude from it.
\<close>

section \<open>Records\<close>

record snap_handle =
  sn_key :: string
  sn_backend :: string
  sn_schema :: string
  sn_meta :: dict
  sn_created :: time
  sn_revision :: int
  sn_digest :: string
  sn_expires :: "time option"
  sn_pinned :: bool

record snapshot = snap_handle +
  sn_data :: dict

text \<open>
  What a store is configured with: the default time to live, and, of the codec, the detached copy of
  a payload (or why it cannot be encoded), the digest of a schema and a payload, and whether a record
  is within the size limit.
\<close>

record snap_conf =
  sc_default :: "rat option"
  sc_detach :: "dict \<Rightarrow> dict result"
  sc_digest :: "string \<Rightarrow> dict \<Rightarrow> string"
  sc_fits :: "snapshot \<Rightarrow> bool"

abbreviation FileExistsError :: py_error where
  "FileExistsError \<equiv> UserError ''FileExistsError''"

abbreviation WatchError :: py_error where
  "WatchError \<equiv> UserError ''WatchError''"

definition wrap_snapshot_payload :: "pyval \<Rightarrow> dict" where
  "wrap_snapshot_payload v = [(''__blackbase_generic_payload__'', PInt 1), (''value'', v)]"

definition unwrap_snapshot_payload :: "dict \<Rightarrow> pyval" where
  "unwrap_snapshot_payload d = (if py_eq (dict_get d ''__blackbase_generic_payload__'' PNone) (PInt 1)
     then dict_get d ''value'' PNone else PMap d)"

lemma unwrap_wrap [simp]: "unwrap_snapshot_payload (wrap_snapshot_payload v) = v"
  by (simp add: unwrap_snapshot_payload_def wrap_snapshot_payload_def dict_get_def)

fun join_slash :: "string list \<Rightarrow> string" where
  "join_slash [] = []"
| "join_slash [x] = x"
| "join_slash (x # xs) = x @ ''/'' @ join_slash xs"

text \<open>\<open>hex\<close>: the first eight digits of a fresh UUID.\<close>

definition make_snapshot_key :: "string \<Rightarrow> int option \<Rightarrow> int option \<Rightarrow> string \<Rightarrow> string \<Rightarrow> string" where
  "make_snapshot_key prefix generation stp suffix hex = join_slash (filter (\<lambda>p. p \<noteq> [])
     ([py_strip prefix] @ (case generation of None \<Rightarrow> [] | Some n \<Rightarrow> [''gen-'' @ int_string n])
      @ (case stp of None \<Rightarrow> [] | Some n \<Rightarrow> [''step-'' @ int_string n]) @ [py_strip suffix, hex]))"

text \<open>The arguments of \<open>write\<close>; the key is given, or made before.\<close>

record snap_write =
  wr_data :: dict
  wr_key :: string
  wr_meta :: dict
  wr_schema :: string
  wr_ttl :: "rat option"
  wr_once :: bool
  wr_expected :: "int option"

datatype snap_call =
    Write snap_write
  | Read string
  | Delete_Snapshot string
  | Pin string string
  | Unpin string string

datatype snap_reply = Handle "snap_handle result" | Found "snapshot option result" | Deleted "unit result"

section \<open>The contract\<close>

type_synonym 'k snaps = "'k \<Rightarrow> snapshot option"

definition revision_of :: "snapshot option \<Rightarrow> int" where
  "revision_of x = (case x of None \<Rightarrow> 0 | Some r \<Rightarrow> sn_revision r)"

text \<open>Whether a set of pin owners has one (\<open>bool(owners)\<close>).\<close>

definition owned :: "string set \<Rightarrow> bool" where
  "owned X \<longleftrightarrow> X \<noteq> {}"

lemma owned_simps [simp]: "\<not> owned {}" "owned (insert x X)" "x \<in> X \<Longrightarrow> owned X"
  by (auto simp: owned_def)

lemma unowned_minus [simp]: "\<not> owned X \<Longrightarrow> X - Y = X"
  by (auto simp: owned_def)

lemma owned_minus [dest]: "owned (X - Y) \<Longrightarrow> owned X"
  by (auto simp: owned_def)

text \<open>Only the retention of a snapshot changes between writes: what is left is its content.\<close>

definition content :: "snapshot \<Rightarrow> string \<times> string \<times> dict \<times> time \<times> int \<times> string \<times> dict" where
  "content r = (sn_key r, sn_schema r, sn_meta r, sn_created r, sn_revision r, sn_digest r, sn_data r)"

definition write_fits :: "(dict \<Rightarrow> dict result) \<Rightarrow> (string \<Rightarrow> dict \<Rightarrow> string) \<Rightarrow> snap_write \<Rightarrow> int \<Rightarrow> bool \<Rightarrow> snapshot \<Rightarrow> bool" where
  "write_fits stored digest w n pinned r \<longleftrightarrow> stored (wr_data w) = Inr (sn_data r) \<and> sn_digest r = digest (wr_schema w) (sn_data r)
     \<and> sn_schema r = wr_schema w \<and> sn_meta r = wr_meta w \<and> sn_revision r = n + 1 \<and> sn_pinned r = pinned
     \<and> (pinned \<longrightarrow> sn_expires r = None)"

text \<open>
  A write is numbered after the snapshot it replaces; where none is left, a store may still count from
  one that has lapsed.
\<close>

definition write_spec :: "(dict \<Rightarrow> dict result) \<Rightarrow> (string \<Rightarrow> dict \<Rightarrow> string) \<Rightarrow> snap_write \<Rightarrow> 'k \<Rightarrow> 'k snaps \<Rightarrow> ('k \<Rightarrow> string set)
    \<Rightarrow> snap_handle result \<Rightarrow> 'k snaps \<Rightarrow> bool" where
  "write_spec stored digest w k V P x V' \<longleftrightarrow>
     (case x of
        Inl e \<Rightarrow> V' = V
      | Inr h \<Rightarrow> \<not> (wr_once w \<and> V k \<noteq> None)
          \<and> (\<exists>n r. (V k \<noteq> None \<longrightarrow> n = revision_of (V k)) \<and> (wr_expected w \<noteq> None \<longrightarrow> wr_expected w = Some n)
            \<and> h = snap_handle.truncate r \<and> V' = V(k \<mapsto> r) \<and> write_fits stored digest w n (owned (P k)) r))"

definition pin_spec :: "string \<Rightarrow> 'k \<Rightarrow> 'k snaps \<Rightarrow> ('k \<Rightarrow> string set) \<Rightarrow> snap_handle result \<Rightarrow> 'k snaps \<Rightarrow> ('k \<Rightarrow> string set) \<Rightarrow> bool" where
  "pin_spec owner k V P x V' P' \<longleftrightarrow>
     (case x of
        Inl e \<Rightarrow> V' = V \<and> P' = P \<and> (owner = [] \<or> V k = None)
      | Inr h \<Rightarrow> owner \<noteq> [] \<and> P' = P(k := insert owner (P k)) \<and> sn_pinned h
          \<and> (\<exists>r. V' = V(k \<mapsto> r) \<and> sn_pinned r \<and> (case V k of None \<Rightarrow> True | Some r' \<Rightarrow> content r = content r')))"

definition unpin_spec :: "string \<Rightarrow> 'k \<Rightarrow> 'k snaps \<Rightarrow> ('k \<Rightarrow> string set) \<Rightarrow> 'k snaps \<Rightarrow> ('k \<Rightarrow> string set) \<Rightarrow> bool" where
  "unpin_spec owner k V P V' P' \<longleftrightarrow> P' = P(k := P k - {owner}) \<and> (\<forall>j. j \<noteq> k \<longrightarrow> V' j = V j)
     \<and> (case V k of None \<Rightarrow> V' k = None
        | Some r \<Rightarrow> if owned (P' k) then (\<exists>r'. V' k = Some r' \<and> content r' = content r)
            else V' k = None \<or> (\<exists>r'. V' k = Some r' \<and> content r' = content r))"

text \<open>
  What a call may answer and change: \<open>V\<close> are the snapshots by key, \<open>P\<close> the owners of their pins,
  \<open>keyof\<close> what the store makes of a key (\<open>None\<close>: it refuses the key). \<open>V k = None\<close> in \<open>unpin\<close> also
  covers a snapshot that had lapsed.
\<close>

fun snap_spec :: "(string \<Rightarrow> 'k option) \<Rightarrow> (dict \<Rightarrow> dict result) \<Rightarrow> (string \<Rightarrow> dict \<Rightarrow> string) \<Rightarrow> snap_call \<Rightarrow> 'k snaps \<Rightarrow> ('k \<Rightarrow> string set)
    \<Rightarrow> snap_reply \<Rightarrow> 'k snaps \<Rightarrow> ('k \<Rightarrow> string set) \<Rightarrow> bool" where
  "snap_spec keyof stored digest (Write w) V P x V' P' \<longleftrightarrow> P' = P \<and>
     (\<exists>y. x = Handle y \<and> (case keyof (wr_key w) of None \<Rightarrow> \<not> ok y \<and> V' = V | Some k \<Rightarrow> write_spec stored digest w k V P y V'))"
| "snap_spec keyof stored digest (Read key) V P x V' P' \<longleftrightarrow> P' = P \<and> V' = V \<and>
     (case keyof key of None \<Rightarrow> \<exists>e. x = Found (Inl e) | Some k \<Rightarrow> x = Found (Inr (V k)))"
| "snap_spec keyof stored digest (Delete_Snapshot key) V P x V' P' \<longleftrightarrow> P' = P \<and>
     (case keyof key of None \<Rightarrow> (\<exists>e. x = Deleted (Inl e)) \<and> V' = V
      | Some k \<Rightarrow> if owned (P k) then x = Deleted (Inl RuntimeError) \<and> V' = V else x = Deleted (Inr ()) \<and> V' = V(k := None))"
| "snap_spec keyof stored digest (Pin key owner) V P x V' P' \<longleftrightarrow>
     (\<exists>y. x = Handle y \<and> (case keyof key of None \<Rightarrow> \<not> ok y \<and> V' = V \<and> P' = P | Some k \<Rightarrow> pin_spec (py_strip owner) k V P y V' P'))"
| "snap_spec keyof stored digest (Unpin key owner) V P x V' P' \<longleftrightarrow>
     (\<exists>y. x = Handle y \<and> (case keyof key of None \<Rightarrow> \<not> ok y \<and> V' = V \<and> P' = P | Some k \<Rightarrow> unpin_spec (py_strip owner) k V P V' P'))"

text \<open>The calls and replies of interest for one snapshot.\<close>

fun releases :: "(string \<Rightarrow> 'k option) \<Rightarrow> 'k \<Rightarrow> string \<Rightarrow> snap_call \<Rightarrow> bool" where
  "releases keyof k owner (Unpin key o') \<longleftrightarrow> keyof key = Some k \<and> py_strip o' = owner"
| "releases keyof k owner _ \<longleftrightarrow> False"

fun wrote :: "(string \<Rightarrow> 'k option) \<Rightarrow> 'k \<Rightarrow> snap_call \<times> snap_reply \<Rightarrow> bool" where
  "wrote keyof k (Write w, Handle (Inr h)) \<longleftrightarrow> keyof (wr_key w) = Some k"
| "wrote keyof k _ \<longleftrightarrow> False"

lemma write_specI:
  assumes "\<not> (wr_once w \<and> V k \<noteq> None)" "wr_expected w \<noteq> None \<longrightarrow> wr_expected w = Some n" "V k \<noteq> None \<longrightarrow> n = revision_of (V k)"
    "V' = V(k \<mapsto> r)" "write_fits stored digest w n (owned (P k)) r"
  shows "write_spec stored digest w k V P (Inr (snap_handle.truncate r)) V'"
  unfolding write_spec_def sum.case using assms by blast

lemma wrote_iff: "wrote keyof k (call, x) \<longleftrightarrow> (\<exists>w h. call = Write w \<and> x = Handle (Inr h) \<and> keyof (wr_key w) = Some k)"
  by (induction keyof k "(call, x)" rule: wrote.induct) auto

lemma write_spec_other: "write_spec stored digest w k V P x V' \<Longrightarrow> j \<noteq> k \<or> \<not> ok x \<Longrightarrow> V' j = V j"
  by (cases x) (auto simp: write_spec_def)

lemma pin_spec_other: "pin_spec owner k V P x V' P' \<Longrightarrow> j \<noteq> k \<Longrightarrow> V' j = V j \<and> P' j = P j"
  by (cases x) (auto simp: pin_spec_def)

lemma pin_spec_content: "pin_spec owner k V P x V' P' \<Longrightarrow> V j = Some r \<Longrightarrow> \<exists>r'. V' j = Some r' \<and> content r' = content r"
  by (cases x) (auto simp: pin_spec_def)

lemma unpin_spec_content: "unpin_spec owner k V P V' P' \<Longrightarrow> V j = Some r \<Longrightarrow> V' j = Some r' \<Longrightarrow> content r' = content r"
  by (cases "V k"; cases "j = k") (auto simp: unpin_spec_def split: if_splits)

lemma unpin_spec_none: "unpin_spec owner k V P V' P' \<Longrightarrow> V j = None \<Longrightarrow> V' j = None"
  by (cases "j = k") (auto simp: unpin_spec_def)

lemma snap_spec_content:
  assumes "snap_spec keyof stored digest call V P x V' P'" "\<not> wrote keyof k (call, x)" "V k = Some r" "V' k = Some r'"
  shows "content r' = content r"
proof (cases call)
  case (Write w)
  then obtain y where y: "x = Handle y" using assms(1) by auto
  show ?thesis
  proof (cases "keyof (wr_key w)")
    case (Some j)
    then have "write_spec stored digest w j V P y V'" using assms(1) Write y by simp
    moreover have "k \<noteq> j \<or> \<not> ok y" using assms(2) Write y Some by auto
    ultimately show ?thesis using write_spec_other assms(3,4) by (metis option.inject)
  qed (use assms Write y in auto)
next
  case (Pin key o')
  then show ?thesis using assms by (cases "keyof key") (auto dest: pin_spec_content)
next
  case (Unpin key o')
  then show ?thesis using assms by (cases "keyof key") (auto dest: unpin_spec_content)
qed (use assms in \<open>auto split: option.splits if_splits\<close>)

lemma snap_spec_gone:
  assumes "snap_spec keyof stored digest call V P x V' P'" "\<not> wrote keyof k (call, x)" "V k = None"
    "\<forall>key o'. call = Pin key o' \<longrightarrow> keyof key \<noteq> Some k"
  shows "V' k = None"
proof (cases call)
  case (Write w)
  then obtain y where y: "x = Handle y" using assms(1) by auto
  show ?thesis
  proof (cases "keyof (wr_key w)")
    case (Some j)
    then have "write_spec stored digest w j V P y V'" using assms(1) Write y by simp
    moreover have "k \<noteq> j \<or> \<not> ok y" using assms(2) Write y Some by auto
    ultimately show ?thesis using write_spec_other assms(3) by metis
  qed (use assms Write y in auto)
next
  case (Pin key o')
  then show ?thesis using assms pin_spec_other[of "py_strip o'" _ V P _ V' P' k] by (cases "keyof key") auto
next
  case (Unpin key o')
  then show ?thesis using assms by (cases "keyof key") (auto dest: unpin_spec_none)
qed (use assms in \<open>auto split: option.splits if_splits\<close>)

lemma snap_spec_pins:
  assumes "snap_spec keyof stored digest call V P x V' P'" "owner \<in> P k" "\<not> releases keyof k owner call"
  shows "owner \<in> P' k"
proof (cases call)
  case (Pin key o')
  then obtain y where y: "x = Handle y" using assms(1) by auto
  then show ?thesis using assms Pin by (cases "keyof key"; cases y) (auto simp: pin_spec_def)
next
  case (Unpin key o')
  then show ?thesis using assms by (cases "keyof key") (auto simp: unpin_spec_def)
qed (use assms in auto)

text \<open>A run: calls with their times and replies.\<close>

fun snap_run :: "(time \<Rightarrow> snap_call \<Rightarrow> 's \<Rightarrow> snap_reply \<times> 's) \<Rightarrow> (time \<times> snap_call) list \<Rightarrow> 's \<Rightarrow> snap_reply list \<times> 's" where
  "snap_run step [] s = ([], s)"
| "snap_run step ((t, call) # xs) s = (case step t call s of (x, s1) \<Rightarrow> case snap_run step xs s1 of (ys, s') \<Rightarrow> (x # ys, s'))"

locale snapshot_store =
  fixes I :: "'s \<Rightarrow> bool"
    and view :: "'s \<Rightarrow> time \<Rightarrow> 'k snaps"
    and pins :: "'s \<Rightarrow> 'k \<Rightarrow> string set"
    and step :: "time \<Rightarrow> snap_call \<Rightarrow> 's \<Rightarrow> snap_reply \<times> 's"
    and fine :: "snap_call \<Rightarrow> bool"
    and keyof :: "string \<Rightarrow> 'k option"
    and stored :: "dict \<Rightarrow> dict result"
    and digest :: "string \<Rightarrow> dict \<Rightarrow> string"
  assumes ages: "I s \<Longrightarrow> t \<le> t' \<Longrightarrow> view s t' k = view s t k \<or> view s t' k = None \<and> \<not> owned (pins s k)"
    and gone_stays: "I s \<Longrightarrow> t \<le> t' \<Longrightarrow> view s t k = None \<Longrightarrow> view s t' k = None"
    and pinned_there: "I s \<Longrightarrow> owned (pins s k) \<Longrightarrow> view s t k \<noteq> None"
    and refines: "I s \<Longrightarrow> fine call \<Longrightarrow> step t call s = (x, s') \<Longrightarrow>
      I s' \<and> snap_spec keyof stored digest call (view s t) (pins s) x (view s' t) (pins s')"
begin

text \<open>A pin holds until its owner releases it, and keeps the snapshot.\<close>

lemma step_pin_kept:
  assumes "I s" "fine call" "step t call s = (x, s')" "owner \<in> pins s k" "\<not> releases keyof k owner call"
  shows "owner \<in> pins s' k"
  using refines[OF assms(1-3)] snap_spec_pins[where P = "pins s", OF _ assms(4,5)] by blast

lemma run_pin_kept:
  assumes "I s" "\<forall>(t, call)\<in>set xs. fine call \<and> \<not> releases keyof k owner call" "owner \<in> pins s k" "snap_run step xs s = (ys, s')"
  shows "I s' \<and> owner \<in> pins s' k"
  using assms
proof (induction xs arbitrary: s ys)
  case (Cons p xs)
  obtain t call where p: "p = (t, call)" by fastforce
  obtain x s1 where x: "step t call s = (x, s1)" by fastforce
  obtain zs where zs: "snap_run step xs s1 = (zs, s')" using Cons.prems(4) p x by (auto split: prod.splits)
  have "I s1" "owner \<in> pins s1 k" using refines[of s call t x s1] step_pin_kept[of s call t x s1 owner k] Cons.prems x p by auto
  then show ?case using Cons.IH[OF _ _ _ zs] Cons.prems(2) by simp
qed simp

lemma pinned_survives:
  assumes "I s" "\<forall>(t, call)\<in>set xs. fine call \<and> \<not> releases keyof k owner call" "owner \<in> pins s k" "snap_run step xs s = (ys, s')"
    "keyof key = Some k" "fine (Delete_Snapshot key)"
  shows "view s' t k \<noteq> None \<and> fst (step t (Delete_Snapshot key) s') = Deleted (Inl RuntimeError)"
proof -
  have s': "I s'" "owned (pins s' k)" using run_pin_kept[OF assms(1-4)] by auto
  obtain x s'' where x: "step t (Delete_Snapshot key) s' = (x, s'')" by fastforce
  show ?thesis using refines[OF s'(1) assms(6) x] pinned_there[OF s'] x s'(2) assms(5) by simp
qed

text \<open>Between writes the content of a snapshot does not change, whatever happens to its retention.\<close>

lemma step_content_kept:
  assumes "I s" "fine call" "step t call s = (x, s')" "\<not> wrote keyof k (call, x)" "view s t k = Some r" "view s' t k = Some r'"
  shows "content r' = content r"
  using refines[OF assms(1-3)] snap_spec_content[where V = "view s t" and V' = "view s' t", OF _ assms(4-6)] by blast

text \<open>Nothing but a write or a pin brings a snapshot back.\<close>

lemma step_gone:
  assumes "I s" "fine call" "step t call s = (x, s')" "\<not> wrote keyof k (call, x)" "view s t k = None"
    "\<forall>key o'. call = Pin key o' \<longrightarrow> keyof key \<noteq> Some k"
  shows "view s' t k = None"
  using refines[OF assms(1-3)] snap_spec_gone[where V = "view s t", OF _ assms(4-6)] by blast

text \<open>
  The revision read for a pinned snapshot counts its writes: a compare-and-set on the revision sees
  every one of them.
\<close>

lemma step_revision:
  assumes "I s" "fine call" "step t call s = (x, s')" "view s t k \<noteq> None" "view s' t k \<noteq> None"
  shows "revision_of (view s' t k) = revision_of (view s t k) + (if wrote keyof k (call, x) then 1 else 0)"
proof (cases "wrote keyof k (call, x)")
  case True
  then obtain w h where "call = Write w" "x = Handle (Inr h)" "keyof (wr_key w) = Some k"
    unfolding wrote_iff by blast
  then have "write_spec stored digest w k (view s t) (pins s) (Inr h) (view s' t)" using refines[OF assms(1-3)] by simp
  then obtain r where "view s' t k = Some r" "sn_revision r = revision_of (view s t k) + 1"
    using assms(4) unfolding write_spec_def write_fits_def sum.case by (metis fun_upd_same)
  then show ?thesis using True by (simp add: revision_of_def[of "Some r"])
next
  case False
  obtain r r' where r: "view s t k = Some r" "view s' t k = Some r'" using assms(4,5) by blast
  have "content r' = content r" using step_content_kept[OF assms(1-3) False r] .
  then show ?thesis using False r by (simp add: revision_of_def content_def)
qed

lemma run_revision:
  assumes "I s" "\<forall>(t, call)\<in>set xs. fine call \<and> \<not> releases keyof k owner call" "owner \<in> pins s k" "snap_run step xs s = (ys, s')"
  shows "revision_of (view s' t k) = revision_of (view s t k) + int (length (filter (wrote keyof k) (zip (map snd xs) ys)))"
  using assms
proof (induction xs arbitrary: s ys)
  case (Cons p xs)
  obtain u call where p: "p = (u, call)" by fastforce
  obtain x s1 where x: "step u call s = (x, s1)" by fastforce
  obtain zs where zs: "snap_run step xs s1 = (zs, s')" "ys = x # zs" using Cons.prems(4) p x by (auto split: prod.splits)
  have s1: "I s1" "owner \<in> pins s1 k" using refines[of s call u x s1] step_pin_kept[of s call u x s1 owner k] Cons.prems x p by auto
  have same: "view s' a k = view s' b k" if "I s'" "owner \<in> pins s' k" for a b s'
    using ages[OF that(1), of a b k] ages[OF that(1), of b a k] that(2) by (cases "a \<le> b") auto
  have "revision_of (view s1 u k) = revision_of (view s u k) + (if wrote keyof k (call, x) then 1 else 0)"
    using step_revision[OF Cons.prems(1) _ x] pinned_there[OF s1(1)] pinned_there[OF Cons.prems(1)] s1(2) Cons.prems(2,3) p by force
  then show ?case using Cons.IH[OF s1(1) _ s1(2) zs(1)] Cons.prems(2) p zs(2) same[OF s1, of u t] same[OF Cons.prems(1,3), of u t] by simp
qed simp

end

end
