(* ===== verification/Snapshot_Memory.thy ===== *)
theory Snapshot_Memory
  imports Snapshot_Model
begin

text \<open>
  \<open>InMemorySnapshotStore\<close>. Its four dictionaries are maps: nothing depends on their order. A key
  without owners and a key with an empty set of owners are the same to all operations.
\<close>

record mem_snaps =
  ms_data :: "string \<Rightarrow> snapshot option"
  ms_expires :: "string \<Rightarrow> time option"
  ms_restore :: "string \<Rightarrow> time option option"
  ms_pins :: "string \<Rightarrow> string set"

definition ms_init :: mem_snaps where
  "ms_init = \<lparr>ms_data = \<lambda>_. None, ms_expires = \<lambda>_. None, ms_restore = \<lambda>_. None, ms_pins = \<lambda>_. {}\<rparr>"

definition ms_sweep :: "time \<Rightarrow> mem_snaps \<Rightarrow> mem_snaps" where
  "ms_sweep now s = s\<lparr>
     ms_expires := \<lambda>k. if over now (ms_expires s k) then None else ms_expires s k,
     ms_data := \<lambda>k. if over now (ms_expires s k) \<and> \<not> owned (ms_pins s k) then None else ms_data s k\<rparr>"

definition ms_write :: "snap_conf \<Rightarrow> clock \<Rightarrow> snap_write \<Rightarrow> mem_snaps \<Rightarrow> snap_handle result \<times> mem_snaps" where
  "ms_write C c w s =
     (let s1 = ms_sweep (c 0) s; k = wr_key w; current = ms_data s1 k in
      if wr_once w \<and> current \<noteq> None then (Inl FileExistsError, s1)
      else if wr_expected w \<noteq> None \<and> wr_expected w \<noteq> Some (revision_of current) then (Inl RuntimeError, s1)
      else case sc_detach C (wr_data w) of
        Inl e \<Rightarrow> (Inl e, s1)
      | Inr detached \<Rightarrow>
          let created = c 1; pinned = owned (ms_pins s1 k);
              expires = (if pinned then None else expires_in (pick_ttl (sc_default C) (wr_ttl w)) created);
              r = \<lparr>sn_key = k, sn_backend = ''memory'', sn_schema = wr_schema w, sn_meta = wr_meta w, sn_created = created,
                   sn_revision = revision_of current + 1, sn_digest = sc_digest C (wr_schema w) detached,
                   sn_expires = expires, sn_pinned = pinned, sn_data = detached\<rparr>
          in (Inr (snap_handle.truncate r), s1\<lparr>ms_data := (ms_data s1)(k \<mapsto> r), ms_expires := (ms_expires s1)(k := expires)\<rparr>))"

definition ms_read :: "clock \<Rightarrow> string \<Rightarrow> mem_snaps \<Rightarrow> snapshot option result \<times> mem_snaps" where
  "ms_read c k s = (let s1 = ms_sweep (c 0) s in (Inr (ms_data s1 k), s1))"

definition ms_delete :: "string \<Rightarrow> mem_snaps \<Rightarrow> unit result \<times> mem_snaps" where
  "ms_delete k s =
     (if owned (ms_pins s k) then (Inl RuntimeError, s)
      else (Inr (), s\<lparr>ms_data := (ms_data s)(k := None), ms_expires := (ms_expires s)(k := None), ms_restore := (ms_restore s)(k := None)\<rparr>))"

definition ms_pin :: "string \<Rightarrow> string \<Rightarrow> mem_snaps \<Rightarrow> snap_handle result \<times> mem_snaps" where
  "ms_pin k owner s =
     (let o' = py_strip owner in
      if o' = [] then (Inl ValueError, s)
      else case ms_data s k of
        None \<Rightarrow> (Inl KeyError, s)
      | Some r \<Rightarrow>
          let restore = (if \<not> owned (ms_pins s k) then (ms_restore s)(k \<mapsto> sn_expires r) else ms_restore s);
              r' = r\<lparr>sn_expires := None, sn_pinned := True\<rparr>
          in (Inr (snap_handle.truncate r'),
              s\<lparr>ms_data := (ms_data s)(k \<mapsto> r'), ms_expires := (ms_expires s)(k := None), ms_restore := restore,
                ms_pins := (ms_pins s)(k := insert o' (ms_pins s k))\<rparr>))"

definition ms_unpin :: "string \<Rightarrow> string \<Rightarrow> mem_snaps \<Rightarrow> snap_handle result \<times> mem_snaps" where
  "ms_unpin k owner s =
     (case ms_data s k of
        None \<Rightarrow> (Inl KeyError, s)
      | Some r \<Rightarrow>
          let owners = ms_pins s k - {py_strip owner}; pinned = (owned owners);
              restored = (if pinned then None else case ms_restore s k of None \<Rightarrow> None | Some e \<Rightarrow> e);
              r' = r\<lparr>sn_pinned := pinned, sn_expires := restored\<rparr>
          in (Inr (snap_handle.truncate r'),
              s\<lparr>ms_data := (ms_data s)(k \<mapsto> r'),
                ms_expires := (if restored \<noteq> None then (ms_expires s)(k := restored) else ms_expires s),
                ms_restore := (if pinned then ms_restore s else (ms_restore s)(k := None)),
                ms_pins := (ms_pins s)(k := owners)\<rparr>))"

fun ms_step :: "snap_conf \<Rightarrow> time \<Rightarrow> snap_call \<Rightarrow> mem_snaps \<Rightarrow> snap_reply \<times> mem_snaps" where
  "ms_step C t (Write w) s = (case ms_write C (\<lambda>_. t) w s of (x, s') \<Rightarrow> (Handle x, s'))"
| "ms_step C t (Read k) s = (case ms_read (\<lambda>_. t) k s of (x, s') \<Rightarrow> (Found x, s'))"
| "ms_step C t (Delete_Snapshot k) s = (case ms_delete k s of (x, s') \<Rightarrow> (Deleted x, s'))"
| "ms_step C t (Pin k owner) s = (case ms_pin k owner s of (x, s') \<Rightarrow> (Handle x, s'))"
| "ms_step C t (Unpin k owner) s = (case ms_unpin k owner s of (x, s') \<Rightarrow> (Handle x, s'))"

section \<open>The contract\<close>

definition ms_inv :: "mem_snaps \<Rightarrow> bool" where
  "ms_inv s \<longleftrightarrow> (\<forall>k. (owned (ms_pins s k) \<longrightarrow> ms_data s k \<noteq> None \<and> ms_expires s k = None)
     \<and> (ms_restore s k \<noteq> None \<longrightarrow> owned (ms_pins s k))
     \<and> (\<forall>r. ms_data s k = Some r \<longrightarrow> sn_pinned r = owned (ms_pins s k)))"

definition ms_view :: "mem_snaps \<Rightarrow> time \<Rightarrow> string snaps" where
  "ms_view s t k = (if over t (ms_expires s k) then None else ms_data s k)"

lemma over_mono: "over t ex \<Longrightarrow> t \<le> t' \<Longrightarrow> over t' ex"
  by (auto simp: over_def split: option.splits)

lemma over_None [simp]: "\<not> over t None"
  by (simp add: over_def)

lemma over_expires_in [simp]: "\<not> over t (expires_in ttl t)"
  by (auto simp: over_def expires_in_def split: option.splits)

lemma ms_sweep_view: "ms_inv s \<Longrightarrow> ms_inv (ms_sweep t s) \<and> ms_data (ms_sweep t s) = ms_view s t \<and> ms_view (ms_sweep t s) t = ms_view s t
    \<and> ms_pins (ms_sweep t s) = ms_pins s"
  by (auto simp: ms_sweep_def ms_view_def ms_inv_def fun_eq_iff)

lemma ms_inv_init: "ms_inv ms_init"
  by (simp add: ms_inv_def ms_init_def)

lemma ms_write_refines:
  assumes inv: "ms_inv s" and run: "ms_write C (\<lambda>_. t) w s = (x, s')"
  shows "ms_inv s' \<and> ms_pins s' = ms_pins s \<and> write_spec (sc_detach C) (sc_digest C) w (wr_key w) (ms_view s t) (ms_pins s) x (ms_view s' t)"
proof -
  let ?s = "ms_sweep t s" and ?k = "wr_key w"
  note swept = ms_sweep_view[OF inv, of t]
  show ?thesis
  proof (cases x)
    case (Inl e)
    then have "s' = ?s" using run by (auto simp: ms_write_def Let_def split: if_splits sum.splits)
    then show ?thesis using swept Inl by (auto simp: write_spec_def)
  next
    case (Inr h)
    then obtain d where d: "sc_detach C (wr_data w) = Inr d" "\<not> (wr_once w \<and> ms_view s t ?k \<noteq> None)"
      "wr_expected w \<noteq> None \<longrightarrow> wr_expected w = Some (revision_of (ms_view s t ?k))"
      using run swept by (auto simp: ms_write_def Let_def split: if_splits sum.splits)
    define r where "r = \<lparr>sn_key = ?k, sn_backend = ''memory'', sn_schema = wr_schema w, sn_meta = wr_meta w, sn_created = t,
      sn_revision = revision_of (ms_view s t ?k) + 1, sn_digest = sc_digest C (wr_schema w) d,
      sn_expires = (if owned (ms_pins s ?k) then None else expires_in (pick_ttl (sc_default C) (wr_ttl w)) t),
      sn_pinned = owned (ms_pins s ?k), sn_data = d\<rparr>"
    have s': "h = snap_handle.truncate r" "s' = ?s\<lparr>ms_data := (ms_data ?s)(?k \<mapsto> r), ms_expires := (ms_expires ?s)(?k := sn_expires r)\<rparr>"
      using run swept d Inr unfolding r_def by (auto simp: ms_write_def Let_def)
    have "write_fits (sc_detach C) (sc_digest C) w (revision_of (ms_view s t ?k)) (owned (ms_pins s ?k)) r"
      using d by (simp add: write_fits_def r_def)
    moreover have "ms_view s' t = (ms_view s t)(?k \<mapsto> r)"
    proof -
      have "\<not> over t (sn_expires r)" by (simp add: r_def)
      then have "ms_view s' t = (ms_view ?s t)(?k \<mapsto> r)" by (auto simp: s'(2) ms_view_def)
      then show ?thesis using swept by simp
    qed
    moreover have "ms_inv s'" using swept s'(2) by (auto simp: ms_inv_def r_def)
    moreover have "ms_pins s' = ms_pins s" using s'(2) swept by simp
    ultimately show ?thesis
      using write_specI[of w "ms_view s t" ?k "revision_of (ms_view s t ?k)" "ms_view s' t"] d(2,3) swept s'(1) Inr by simp
  qed
qed

lemma ms_pin_refines:
  assumes inv: "ms_inv s" and run: "ms_pin k owner s = (x, s')"
  shows "ms_inv s' \<and> pin_spec (py_strip owner) k (ms_view s t) (ms_pins s) x (ms_view s' t) (ms_pins s')"
proof (cases x)
  case (Inl e)
  then show ?thesis using inv run by (auto simp: ms_pin_def pin_spec_def ms_view_def Let_def split: if_splits option.splits)
next
  case (Inr h)
  then obtain r where r: "ms_data s k = Some r" "py_strip owner \<noteq> []" using run by (auto simp: ms_pin_def Let_def split: if_splits option.splits)
  let ?r = "r\<lparr>sn_expires := None, sn_pinned := True\<rparr>"
  have s': "h = snap_handle.truncate ?r" "ms_data s' = (ms_data s)(k \<mapsto> ?r)" "ms_expires s' = (ms_expires s)(k := None)"
    "ms_pins s' = (ms_pins s)(k := insert (py_strip owner) (ms_pins s k))"
    "ms_restore s' = (if \<not> owned (ms_pins s k) then (ms_restore s)(k \<mapsto> sn_expires r) else ms_restore s)"
    using run r Inr by (auto simp: ms_pin_def Let_def)
  have "ms_view s' t = (ms_view s t)(k \<mapsto> ?r)" using s' by (auto simp: ms_view_def)
  moreover have "content ?r = content r" by (simp add: content_def)
  moreover have "ms_inv s'" using inv s' by (auto simp: ms_inv_def split: if_splits)
  moreover have "ms_view s t k = Some r' \<Longrightarrow> r' = r" for r' using r by (auto simp: ms_view_def split: if_splits)
  ultimately show ?thesis using r s' Inr unfolding pin_spec_def
    by (auto simp: snap_handle.truncate_def split: option.split intro!: exI[of _ ?r])
qed

lemma ms_unpin_refines:
  assumes inv: "ms_inv s" and run: "ms_unpin k owner s = (x, s')"
  shows "ms_inv s' \<and> unpin_spec (py_strip owner) k (ms_view s t) (ms_pins s) (ms_view s' t) (ms_pins s')"
proof (cases "ms_data s k")
  case None
  then have "\<not> owned (ms_pins s k)" "s' = s" using inv run by (auto simp: ms_inv_def ms_unpin_def)
  then show ?thesis using inv None by (simp add: unpin_spec_def ms_view_def fun_upd_idem)
next
  case (Some r)
  define owners where "owners = ms_pins s k - {py_strip owner}"
  define restored where "restored = (if owned owners then None else case ms_restore s k of None \<Rightarrow> None | Some e \<Rightarrow> e)"
  let ?r = "r\<lparr>sn_pinned := owned owners, sn_expires := restored\<rparr>"
  have s': "ms_data s' = (ms_data s)(k \<mapsto> ?r)"
    "ms_expires s' = (if restored \<noteq> None then (ms_expires s)(k := restored) else ms_expires s)"
    "ms_restore s' = (if owned owners then ms_restore s else (ms_restore s)(k := None))"
    "ms_pins s' = (ms_pins s)(k := owners)"
    using run Some by (auto simp: ms_unpin_def Let_def owners_def restored_def)
  have same: "content ?r = content r" by (simp add: content_def)
  have other: "ms_view s' t j = ms_view s t j" if "j \<noteq> k" for j using s' that by (simp add: ms_view_def)
  have "ms_inv s'" using inv s' by (auto simp: ms_inv_def restored_def owners_def split: if_splits)
  moreover have "unpin_spec (py_strip owner) k (ms_view s t) (ms_pins s) (ms_view s' t) (ms_pins s')"
  proof (cases "\<not> owned (ms_pins s k)")
    case True
    then have "ms_restore s k = None" using inv by (auto simp: ms_inv_def)
    then have "restored = None" by (simp add: restored_def)
    then have "ms_view s' t k = (if over t (ms_expires s k) then None else Some ?r)" using s' by (simp add: ms_view_def)
    then show ?thesis using other s'(4) True Some same owners_def by (auto simp: unpin_spec_def ms_view_def)
  next
    case False
    then have ex: "ms_expires s k = None" using inv by (auto simp: ms_inv_def)
    have "owned owners \<Longrightarrow> restored = None" by (simp add: restored_def)
    then have "ms_view s' t k = None \<or> ms_view s' t k = Some ?r" "owned owners \<Longrightarrow> ms_view s' t k = Some ?r"
      using s' ex by (auto simp: ms_view_def)
    then show ?thesis using other s'(4) Some same owners_def ex by (auto simp: unpin_spec_def ms_view_def)
  qed
  ultimately show ?thesis ..
qed

interpretation ms: snapshot_store ms_inv ms_view ms_pins "ms_step C" "\<lambda>_. True" Some "sc_detach C" "sc_digest C" for C
proof
  fix s t t' k assume inv: "ms_inv s"
  show "ms_view s t' k = ms_view s t k \<or> ms_view s t' k = None \<and> \<not> owned (ms_pins s k)" if "t \<le> t'"
    using inv over_mono[OF _ that, of "ms_expires s k"] by (auto simp: ms_view_def ms_inv_def)
  show "ms_view s t' k = None" if "t \<le> t'" "ms_view s t k = None"
    using that over_mono[OF _ that(1), of "ms_expires s k"] by (auto simp: ms_view_def split: if_splits)
  show "ms_view s t k \<noteq> None" if "owned (ms_pins s k)" using inv that by (auto simp: ms_view_def ms_inv_def)
next
  fix s call t x s' assume inv: "ms_inv s" and step: "ms_step C t call s = (x, s')"
  show "ms_inv s' \<and> snap_spec Some (sc_detach C) (sc_digest C) call (ms_view s t) (ms_pins s) x (ms_view s' t) (ms_pins s')"
  proof (cases call)
    case (Write w)
    then show ?thesis using step ms_write_refines[OF inv] by (auto split: prod.splits)
  next
    case (Read k)
    then show ?thesis using step ms_sweep_view[OF inv, of t] by (auto simp: ms_read_def Let_def)
  next
    case (Delete_Snapshot k)
    then show ?thesis using step inv by (auto simp: ms_delete_def ms_inv_def ms_view_def split: if_splits)
  next
    case (Pin k owner)
    then show ?thesis using step ms_pin_refines[OF inv] by (auto split: prod.splits)
  next
    case (Unpin k owner)
    then show ?thesis using step ms_unpin_refines[OF inv] by (auto split: prod.splits)
  qed
qed

end
