(* ===== verification/Snapshot_Redis.thy ===== *)
theory Snapshot_Redis
  imports Snapshot_Memory
begin

text \<open>
  \<open>RedisSnapshotStore\<close>. The database holds payloads with an expiry and sets (of pin owners), in one
  name space of keys. Operations are sequences of commands; \<open>w n\<close> is what other clients do to the
  database right before the \<open>n\<close>-th command, so \<open>w = (\<lambda>_. id)\<close> is an operation without interference.
  A stored payload is the record it encodes, with \<open>sn_pinned = False\<close> as it has no such field.
\<close>

record redis_snaps =
  rs_vals :: "string \<Rightarrow> (snapshot \<times> time option) option"
  rs_sets :: "string \<Rightarrow> string set"

definition rs_init :: redis_snaps where
  "rs_init = \<lparr>rs_vals = \<lambda>_. None, rs_sets = \<lambda>_. {}\<rparr>"

section \<open>Commands\<close>

definition rs_live :: "time \<Rightarrow> string \<Rightarrow> redis_snaps \<Rightarrow> snapshot option" where
  "rs_live now k s = (case rs_vals s k of None \<Rightarrow> None | Some (r, ex) \<Rightarrow> if over now ex then None else Some r)"

text \<open>A command on a key of the other type is refused (\<open>WRONGTYPE\<close>).\<close>

definition rs_get :: "time \<Rightarrow> string \<Rightarrow> redis_snaps \<Rightarrow> snapshot option result" where
  "rs_get now k s = (if owned (rs_sets s k) then Inl response_error else Inr (rs_live now k s))"

definition rs_scard :: "time \<Rightarrow> string \<Rightarrow> redis_snaps \<Rightarrow> bool result" where
  "rs_scard now k s = (if rs_live now k s \<noteq> None then Inl response_error else Inr (owned (rs_sets s k)))"

definition rs_put :: "time \<Rightarrow> string \<Rightarrow> snapshot \<Rightarrow> int option \<Rightarrow> redis_snaps \<Rightarrow> unit result \<times> redis_snaps" where
  "rs_put now k r ttl s =
     (case ttl of
        None \<Rightarrow> (Inr (), s\<lparr>rs_vals := (rs_vals s)(k \<mapsto> (r, None)), rs_sets := (rs_sets s)(k := {})\<rparr>)
      | Some n \<Rightarrow> if n \<le> 0 then (Inl response_error, s)
          else (Inr (), s\<lparr>rs_vals := (rs_vals s)(k \<mapsto> (r, Some (now + of_int n))), rs_sets := (rs_sets s)(k := {})\<rparr>))"

definition rs_del :: "string \<Rightarrow> redis_snaps \<Rightarrow> redis_snaps" where
  "rs_del k s = s\<lparr>rs_vals := (rs_vals s)(k := None), rs_sets := (rs_sets s)(k := {})\<rparr>"

definition rs_sadd :: "time \<Rightarrow> string \<Rightarrow> string \<Rightarrow> redis_snaps \<Rightarrow> unit result \<times> redis_snaps" where
  "rs_sadd now k x s = (if rs_live now k s \<noteq> None then (Inl response_error, s)
     else (Inr (), s\<lparr>rs_vals := (rs_vals s)(k := None), rs_sets := (rs_sets s)(k := insert x (rs_sets s k))\<rparr>))"

definition rs_srem :: "time \<Rightarrow> string \<Rightarrow> string \<Rightarrow> redis_snaps \<Rightarrow> unit result \<times> redis_snaps" where
  "rs_srem now k x s = (if rs_live now k s \<noteq> None then (Inl response_error, s)
     else (Inr (), s\<lparr>rs_sets := (rs_sets s)(k := rs_sets s k - {x})\<rparr>))"

definition rs_expire :: "time \<Rightarrow> string \<Rightarrow> time option \<Rightarrow> redis_snaps \<Rightarrow> redis_snaps" where
  "rs_expire now k ex s = (case rs_live now k s of None \<Rightarrow> s | Some r \<Rightarrow> s\<lparr>rs_vals := (rs_vals s)(k \<mapsto> (r, ex))\<rparr>)"

section \<open>Keys\<close>

definition rs_normalize :: "string \<Rightarrow> string \<Rightarrow> string" where
  "rs_normalize prefix key =
     (let text = py_strip key in
      if starts_with (prefix @ '':'') text \<or> starts_with (prefix @ ''/'') text then drop (length prefix + 1) text else text)"

definition rs_key :: "string \<Rightarrow> string \<Rightarrow> string" where
  "rs_key prefix key = prefix @ '':'' @ rs_normalize prefix key"

definition rs_pin_key :: "string \<Rightarrow> string \<Rightarrow> string" where
  "rs_pin_key prefix key = rs_key prefix key @ '':pins''"

definition rs_ttl :: "snap_conf \<Rightarrow> rat option \<Rightarrow> int option" where
  "rs_ttl C ttl = (case pick_ttl (sc_default C) ttl of None \<Rightarrow> None | Some x \<Rightarrow> if 0 < x then Some \<lfloor>x\<rfloor> else None)"

section \<open>Operations\<close>

definition rs_write :: "snap_conf \<Rightarrow> string \<Rightarrow> clock \<Rightarrow> (nat \<Rightarrow> redis_snaps \<Rightarrow> redis_snaps) \<Rightarrow> snap_write \<Rightarrow> redis_snaps
    \<Rightarrow> snap_handle result \<times> redis_snaps" where
  "rs_write C prefix c w a s =
     (case sc_detach C (wr_data a) of Inl e \<Rightarrow> (Inl e, s) | Inr detached \<Rightarrow>
      let k = rs_key prefix (wr_key a); pk = rs_pin_key prefix (wr_key a); created = c 0;
          build = (\<lambda>n ex. \<lparr>sn_key = wr_key a, sn_backend = ''redis'', sn_schema = wr_schema a, sn_meta = wr_meta a,
             sn_created = created, sn_revision = n, sn_digest = sc_digest C (wr_schema a) detached, sn_expires = ex,
             sn_pinned = False, sn_data = detached\<rparr>)
      in if \<not> sc_fits C (build 1 None) then (Inl ValueError, s)
      else let s0 = w 0 s in
       case rs_get (c 1) k s0 of Inl e \<Rightarrow> (Inl e, s0) | Inr current \<Rightarrow>
       let actual = revision_of current in
       if wr_once a \<and> current \<noteq> None then (Inl FileExistsError, s0)
       else if wr_expected a \<noteq> None \<and> wr_expected a \<noteq> Some actual then (Inl RuntimeError, s0)
       else let ttl = rs_ttl C (wr_ttl a); s1 = w 1 s0 in
       case rs_scard (c 2) pk s1 of Inl e \<Rightarrow> (Inl e, s1) | Inr pinned \<Rightarrow>
       let expires = (case ttl of None \<Rightarrow> None | Some n \<Rightarrow> if pinned then None else Some (created + of_int n));
           r = build (actual + 1) expires; ex = (if pinned then None else ttl);
           handle = snap_handle.truncate (r\<lparr>sn_pinned := pinned\<rparr>);
           reply = (\<lambda>(x, s'). (case x of Inl e \<Rightarrow> Inl e | Inr u \<Rightarrow> Inr handle, s'))
       in if \<not> sc_fits C r then (Inl ValueError, s1)
       else if wr_once a then
         (let s2 = w 2 s1 in
          if rs_live (c 3) k s2 \<noteq> None \<or> owned (rs_sets s2 k) then (case ex of Some n \<Rightarrow> if n \<le> 0 then (Inl response_error, s2) else (Inl FileExistsError, s2)
              | None \<Rightarrow> (Inl FileExistsError, s2))
          else reply (rs_put (c 3) k r ex s2))
       else if wr_expected a \<noteq> None then
         (let s2 = w 2 s1 in
          case rs_get (c 3) k s2 of Inl e \<Rightarrow> (Inl e, s2) | Inr watched \<Rightarrow>
          if wr_expected a \<noteq> Some (revision_of watched) then (Inl RuntimeError, s2)
          else let s3 = w 3 s2 in
            if rs_vals s3 k \<noteq> rs_vals s2 k \<or> rs_sets s3 k \<noteq> rs_sets s2 k then (Inl WatchError, s3)
            else reply (rs_put (c 4) k r ex s3))
       else reply (rs_put (c 3) k r ex (w 2 s1)))"

definition rs_read :: "snap_conf \<Rightarrow> string \<Rightarrow> clock \<Rightarrow> (nat \<Rightarrow> redis_snaps \<Rightarrow> redis_snaps) \<Rightarrow> string \<Rightarrow> redis_snaps
    \<Rightarrow> snapshot option result \<times> redis_snaps" where
  "rs_read C prefix c w key s =
     (let s0 = w 0 s in
      case rs_get (c 0) (rs_key prefix key) s0 of
        Inl e \<Rightarrow> (Inl e, s0)
      | Inr None \<Rightarrow> (Inr None, s0)
      | Inr (Some r) \<Rightarrow>
          if sn_digest r \<noteq> [] \<and> sc_digest C (sn_schema r) (sn_data r) \<noteq> sn_digest r then (Inl ValueError, s0)
          else let s1 = w 1 s0 in
            case rs_scard (c 1) (rs_pin_key prefix key) s1 of
              Inl e \<Rightarrow> (Inl e, s1) | Inr pinned \<Rightarrow> (Inr (Some (r\<lparr>sn_pinned := pinned\<rparr>)), s1))"

definition rs_delete :: "string \<Rightarrow> clock \<Rightarrow> (nat \<Rightarrow> redis_snaps \<Rightarrow> redis_snaps) \<Rightarrow> string \<Rightarrow> redis_snaps \<Rightarrow> unit result \<times> redis_snaps" where
  "rs_delete prefix c w key s =
     (let s0 = w 0 s in
      case rs_scard (c 0) (rs_pin_key prefix key) s0 of
        Inl e \<Rightarrow> (Inl e, s0)
      | Inr pinned \<Rightarrow> if pinned then (Inl RuntimeError, s0) else (Inr (), rs_del (rs_key prefix key) (w 1 s0)))"

definition rs_pin :: "snap_conf \<Rightarrow> string \<Rightarrow> clock \<Rightarrow> (nat \<Rightarrow> redis_snaps \<Rightarrow> redis_snaps) \<Rightarrow> string \<Rightarrow> string \<Rightarrow> redis_snaps
    \<Rightarrow> snap_handle result \<times> redis_snaps" where
  "rs_pin C prefix c w key owner s =
     (let o' = py_strip owner; k = rs_key prefix key; s0 = w 0 s in
      if o' = [] then (Inl ValueError, s)
      else case rs_get (c 0) k s0 of
        Inl e \<Rightarrow> (Inl e, s0)
      | Inr None \<Rightarrow> (Inl KeyError, s0)
      | Inr (Some r0) \<Rightarrow>
          (case rs_sadd (c 1) (rs_pin_key prefix key) o' (w 1 s0) of
             (Inl e, s1) \<Rightarrow> (Inl e, s1)
           | (Inr u, s1) \<Rightarrow>
               let s2 = rs_expire (c 2) k None (w 2 s1) in
               (case rs_read C prefix (\<lambda>n. c (n + 3)) (\<lambda>n. w (n + 3)) key s2 of
                  (Inl e, s3) \<Rightarrow> (Inl e, s3)
                | (Inr None, s3) \<Rightarrow> (Inl KeyError, s3)
                | (Inr (Some r), s3) \<Rightarrow> (Inr (snap_handle.truncate (r\<lparr>sn_expires := None, sn_pinned := True\<rparr>)), s3))))"

text \<open>\<open>int\<close> of a float cuts towards zero.\<close>

definition trunc :: "rat \<Rightarrow> int" where
  "trunc x = (if 0 \<le> x then \<lfloor>x\<rfloor> else \<lceil>x\<rceil>)"

definition rs_unpin :: "snap_conf \<Rightarrow> string \<Rightarrow> clock \<Rightarrow> (nat \<Rightarrow> redis_snaps \<Rightarrow> redis_snaps) \<Rightarrow> string \<Rightarrow> string \<Rightarrow> redis_snaps
    \<Rightarrow> snap_handle result \<times> redis_snaps" where
  "rs_unpin C prefix c w key owner s =
     (let k = rs_key prefix key in
      case rs_srem (c 0) (rs_pin_key prefix key) (py_strip owner) (w 0 s) of
        (Inl e, s1) \<Rightarrow> (Inl e, s1)
      | (Inr u, s1) \<Rightarrow>
          (case rs_read C prefix (\<lambda>n. c (n + 1)) (\<lambda>n. w (n + 1)) key s1 of
             (Inl e, s2) \<Rightarrow> (Inl e, s2)
           | (Inr None, s2) \<Rightarrow> (Inl KeyError, s2)
           | (Inr (Some r), s2) \<Rightarrow>
               let s3 = w 3 s2 in
               (case rs_scard (c 3) (rs_pin_key prefix key) s3 of
                  Inl e \<Rightarrow> (Inl e, s3)
                | Inr pinned \<Rightarrow>
                    let handle = snap_handle.truncate (r\<lparr>sn_pinned := pinned\<rparr>) in
                    (case sn_expires r of
                       None \<Rightarrow> (Inr handle, s3)
                     | Some ex \<Rightarrow>
                         if pinned then (Inr handle, s3)
                         else let remaining = trunc (ex - c 4) in
                           if remaining \<le> 0 then (Inl KeyError, rs_del k (w 4 s3))
                           else (Inr handle, rs_expire (c 5) k (Some (c 5 + of_int remaining)) (w 4 s3))))))"

fun rs_step :: "snap_conf \<Rightarrow> string \<Rightarrow> time \<Rightarrow> snap_call \<Rightarrow> redis_snaps \<Rightarrow> snap_reply \<times> redis_snaps" where
  "rs_step C prefix t (Write a) s = (case rs_write C prefix (\<lambda>_. t) (\<lambda>_. id) a s of (x, s') \<Rightarrow> (Handle x, s'))"
| "rs_step C prefix t (Read key) s = (case rs_read C prefix (\<lambda>_. t) (\<lambda>_. id) key s of (x, s') \<Rightarrow> (Found x, s'))"
| "rs_step C prefix t (Delete_Snapshot key) s = (case rs_delete prefix (\<lambda>_. t) (\<lambda>_. id) key s of (x, s') \<Rightarrow> (Deleted x, s'))"
| "rs_step C prefix t (Pin key owner) s = (case rs_pin C prefix (\<lambda>_. t) (\<lambda>_. id) key owner s of (x, s') \<Rightarrow> (Handle x, s'))"
| "rs_step C prefix t (Unpin key owner) s = (case rs_unpin C prefix (\<lambda>_. t) (\<lambda>_. id) key owner s of (x, s') \<Rightarrow> (Handle x, s'))"

section \<open>The contract, without interference\<close>

text \<open>Keys of pin sets; no snapshot may have such a key.\<close>

definition is_pin_key :: "string \<Rightarrow> bool" where
  "is_pin_key k \<longleftrightarrow> starts_with (rev '':pins'') (rev k)"

fun rs_fine :: "string \<Rightarrow> snap_call \<Rightarrow> bool" where
  "rs_fine prefix (Write a) \<longleftrightarrow> \<not> is_pin_key (rs_key prefix (wr_key a))"
| "rs_fine prefix (Read key) \<longleftrightarrow> \<not> is_pin_key (rs_key prefix key)"
| "rs_fine prefix (Delete_Snapshot key) \<longleftrightarrow> \<not> is_pin_key (rs_key prefix key)"
| "rs_fine prefix (Pin key owner) \<longleftrightarrow> \<not> is_pin_key (rs_key prefix key)"
| "rs_fine prefix (Unpin key owner) \<longleftrightarrow> \<not> is_pin_key (rs_key prefix key)"

definition rs_pins :: "redis_snaps \<Rightarrow> string \<Rightarrow> string set" where
  "rs_pins s k = rs_sets s (k @ '':pins'')"

definition rs_inv :: "snap_conf \<Rightarrow> redis_snaps \<Rightarrow> bool" where
  "rs_inv C s \<longleftrightarrow> (\<forall>k. (is_pin_key k \<longrightarrow> rs_vals s k = None) \<and> (\<not> is_pin_key k \<longrightarrow> rs_sets s k = {})
     \<and> (owned (rs_pins s k) \<longrightarrow> (\<exists>r. rs_vals s k = Some (r, None)))
     \<and> (\<forall>r ex. rs_vals s k = Some (r, ex) \<longrightarrow> sn_digest r = sc_digest C (sn_schema r) (sn_data r)))"

definition rs_view :: "redis_snaps \<Rightarrow> time \<Rightarrow> string snaps" where
  "rs_view s t k = map_option (\<lambda>r. r\<lparr>sn_pinned := owned (rs_pins s k)\<rparr>) (rs_live t k s)"

lemma pin_key [simp]: "is_pin_key (k @ '':pins'')"
  by (simp add: is_pin_key_def starts_with_def)

lemma not_pin_key [simp]: "\<not> is_pin_key k \<Longrightarrow> k \<noteq> j @ '':pins''"
  by auto

lemma rs_pin_key_eq: "rs_pin_key prefix key = rs_key prefix key @ '':pins''"
  by (simp add: rs_pin_key_def)

lemma rs_inv_init: "rs_inv C rs_init"
  by (simp add: rs_inv_def rs_init_def rs_pins_def)

lemma rs_get_quiet: "rs_inv C s \<Longrightarrow> \<not> is_pin_key k \<Longrightarrow> rs_get t k s = Inr (rs_live t k s)"
  by (simp add: rs_get_def rs_inv_def)

lemma rs_live_pin: "rs_inv C s \<Longrightarrow> rs_live t (k @ '':pins'') s = None"
  by (simp add: rs_live_def rs_inv_def)

lemma rs_scard_quiet: "rs_inv C s \<Longrightarrow> rs_scard t (k @ '':pins'') s = Inr (owned (rs_pins s k))"
  by (simp add: rs_scard_def rs_live_pin rs_pins_def)

lemma rs_live_vals: "rs_live t k s = Some r \<Longrightarrow> \<exists>ex. rs_vals s k = Some (r, ex)"
  by (auto simp: rs_live_def split: option.splits if_splits)

lemma rs_live_digest: "rs_inv C s \<Longrightarrow> rs_live t k s = Some r \<Longrightarrow> sc_digest C (sn_schema r) (sn_data r) = sn_digest r"
  unfolding rs_inv_def using rs_live_vals by metis

lemma rs_read_quiet:
  "rs_inv C s \<Longrightarrow> \<not> is_pin_key (rs_key prefix key) \<Longrightarrow>
   rs_read C prefix (\<lambda>_. t) (\<lambda>_. id) key s = (Inr (rs_view s t (rs_key prefix key)), s)"
  by (auto simp: rs_read_def rs_get_quiet rs_scard_quiet rs_pin_key_eq rs_view_def rs_live_digest split: option.split)

lemma rs_view_none: "rs_view s t k = None \<longleftrightarrow> rs_live t k s = None"
  by (simp add: rs_view_def)

lemma rs_pinned_live: "rs_inv C s \<Longrightarrow> owned (rs_pins s k) \<Longrightarrow> \<exists>r. rs_live t k s = Some r \<and> rs_vals s k = Some (r, None)"
  by (fastforce simp: rs_inv_def rs_live_def)

lemma revision_view [simp]: "revision_of (rs_view s t k) = revision_of (rs_live t k s)"
  by (auto simp: rs_view_def revision_of_def split: option.split)

text \<open>Storing, removing and changing the expiry of a snapshot, on the view.\<close>

lemma rs_put_view:
  assumes "rs_inv C s" "\<not> is_pin_key k" "rs_put t k r ttl s = (Inr (), s')" "sn_digest r = sc_digest C (sn_schema r) (sn_data r)"
    "owned (rs_pins s k) \<Longrightarrow> ttl = None"
  shows "rs_inv C s' \<and> rs_pins s' = rs_pins s \<and> rs_view s' t = (rs_view s t)(k \<mapsto> r\<lparr>sn_pinned := owned (rs_pins s k)\<rparr>)"
proof -
  define ex where "ex = map_option (\<lambda>n. t + of_int n) ttl"
  have s': "s' = s\<lparr>rs_vals := (rs_vals s)(k \<mapsto> (r, ex)), rs_sets := (rs_sets s)(k := {})\<rparr>" "\<not> over t ex"
    "owned (rs_pins s k) \<Longrightarrow> ex = None"
    using assms(3,5) by (auto simp: ex_def rs_put_def over_def split: if_splits option.splits)
  have pins: "rs_pins s' = rs_pins s" using s'(1) assms(2) by (intro ext) (auto simp: rs_pins_def)
  have "rs_inv C s'" unfolding rs_inv_def pins using assms(1,2,4) s'(1,3) by (auto simp: rs_inv_def)
  moreover have "rs_view s' t = (rs_view s t)(k \<mapsto> r\<lparr>sn_pinned := owned (rs_pins s k)\<rparr>)"
    unfolding rs_view_def pins using s' by (auto simp: rs_live_def)
  ultimately show ?thesis using pins by blast
qed

lemma rs_del_view:
  assumes "rs_inv C s" "\<not> is_pin_key k" "\<not> owned (rs_pins s k)"
  shows "rs_inv C (rs_del k s) \<and> rs_pins (rs_del k s) = rs_pins s \<and> rs_view (rs_del k s) t = (rs_view s t)(k := None)"
proof -
  have pins: "rs_pins (rs_del k s) = rs_pins s" using assms(2) by (intro ext) (auto simp: rs_pins_def rs_del_def)
  have "rs_inv C (rs_del k s)" unfolding rs_inv_def pins using assms by (auto simp: rs_inv_def rs_del_def)
  moreover have "rs_view (rs_del k s) t = (rs_view s t)(k := None)" unfolding rs_view_def pins by (auto simp: rs_del_def rs_live_def)
  ultimately show ?thesis using pins by blast
qed

lemma rs_expire_view:
  assumes "rs_inv C s" "owned (rs_pins s k) \<Longrightarrow> ex = None" "\<not> over t ex"
  shows "rs_inv C (rs_expire t k ex s) \<and> rs_pins (rs_expire t k ex s) = rs_pins s \<and> rs_view (rs_expire t k ex s) t = rs_view s t"
proof (cases "rs_live t k s")
  case (Some r)
  have pins: "rs_pins (rs_expire t k ex s) = rs_pins s" by (auto simp: rs_pins_def rs_expire_def split: option.split)
  obtain ex' where v: "rs_vals s k = Some (r, ex')" using Some by (auto simp: rs_live_def split: option.splits if_splits)
  then have "\<not> is_pin_key k" using assms(1) by (auto simp: rs_inv_def)
  then have "rs_inv C (rs_expire t k ex s)" unfolding rs_inv_def pins using assms v Some by (auto simp: rs_inv_def rs_expire_def)
  moreover have "rs_view (rs_expire t k ex s) t = rs_view s t"
    unfolding rs_view_def pins using Some assms(3) by (auto simp: rs_expire_def rs_live_def fun_eq_iff)
  ultimately show ?thesis using pins by blast
qed (use assms(1) in \<open>simp add: rs_expire_def\<close>)

lemma rs_srem_view:
  assumes "rs_inv C s"
  shows "\<exists>s'. rs_srem t (k @ '':pins'') x s = (Inr (), s') \<and> rs_inv C s' \<and> rs_pins s' = (rs_pins s)(k := rs_pins s k - {x})
    \<and> (\<forall>t j. rs_live t j s' = rs_live t j s)"
proof -
  let ?s = "s\<lparr>rs_sets := (rs_sets s)(k @ '':pins'' := rs_sets s (k @ '':pins'') - {x})\<rparr>"
  have pins: "rs_pins ?s = (rs_pins s)(k := rs_pins s k - {x})" by (intro ext) (auto simp: rs_pins_def)
  have "rs_inv C ?s" unfolding rs_inv_def pins using assms by (auto simp: rs_inv_def)
  moreover have "\<forall>t j. rs_live t j ?s = rs_live t j s" by (simp add: rs_live_def)
  moreover have "rs_srem t (k @ '':pins'') x s = (Inr (), ?s)" using rs_live_pin[OF assms(1)] by (simp add: rs_srem_def)
  ultimately show ?thesis using pins by blast
qed

text \<open>What is left of \<open>write\<close> without interference.\<close>

definition rs_record :: "snap_conf \<Rightarrow> time \<Rightarrow> snap_write \<Rightarrow> dict \<Rightarrow> int \<Rightarrow> time option \<Rightarrow> snapshot" where
  "rs_record C t a d n ex = \<lparr>sn_key = wr_key a, sn_backend = ''redis'', sn_schema = wr_schema a, sn_meta = wr_meta a,
     sn_created = t, sn_revision = n, sn_digest = sc_digest C (wr_schema a) d, sn_expires = ex, sn_pinned = False, sn_data = d\<rparr>"

definition rs_written :: "snap_conf \<Rightarrow> time \<Rightarrow> snap_write \<Rightarrow> dict \<Rightarrow> int \<Rightarrow> bool \<Rightarrow> snapshot" where
  "rs_written C t a d n pinned = rs_record C t a d n
     (case rs_ttl C (wr_ttl a) of None \<Rightarrow> None | Some m \<Rightarrow> if pinned then None else Some (t + of_int m))"

lemma rs_put_cases: "rs_put t k r ttl s = (Inl response_error, s) \<or> (\<exists>s'. rs_put t k r ttl s = (Inr (), s'))"
  by (auto simp: rs_put_def split: option.split)

lemma rs_write_quiet:
  fixes a t
  defines "k prefix \<equiv> rs_key prefix (wr_key a)"
  assumes inv: "rs_inv C s" and fine: "\<not> is_pin_key (k prefix)" and d: "sc_detach C (wr_data a) = Inr d"
  defines "pinned \<equiv> owned (rs_pins s (k prefix))"
  defines "r \<equiv> rs_written C t a d (revision_of (rs_live t (k prefix) s) + 1) pinned"
  shows "rs_write C prefix (\<lambda>_. t) (\<lambda>_. id) a s =
     (if \<not> sc_fits C (rs_record C t a d 1 None) then (Inl ValueError, s)
      else if wr_once a \<and> rs_live t (k prefix) s \<noteq> None then (Inl FileExistsError, s)
      else if wr_expected a \<noteq> None \<and> wr_expected a \<noteq> Some (revision_of (rs_live t (k prefix) s)) then (Inl RuntimeError, s)
      else if \<not> sc_fits C r then (Inl ValueError, s)
      else case rs_put t (k prefix) r (if pinned then None else rs_ttl C (wr_ttl a)) s of
        (Inl e, s') \<Rightarrow> (Inl e, s') | (Inr u, s') \<Rightarrow> (Inr (snap_handle.truncate (r\<lparr>sn_pinned := pinned\<rparr>)), s'))"
proof -
  have sets: "\<not> owned (rs_sets s (k prefix))" using inv fine by (simp add: rs_inv_def)
  note simps = rs_write_def d rs_get_quiet[OF inv fine[unfolded k_def]] rs_scard_quiet[OF inv] rs_pin_key_eq Let_def
    sets[unfolded k_def] r_def pinned_def k_def rs_record_def rs_written_def
  show ?thesis
    by (cases "rs_live t (k prefix) s"; cases "owned (rs_pins s (k prefix))"; cases "wr_once a"; cases "wr_expected a")
      (simp_all add: simps split: sum.split prod.split unit.split)
qed

lemma rs_write_refines:
  assumes inv: "rs_inv C s" and fine: "\<not> is_pin_key (rs_key prefix (wr_key a))"
    and run: "rs_write C prefix (\<lambda>_. t) (\<lambda>_. id) a s = (x, s')"
  shows "rs_inv C s' \<and> rs_pins s' = rs_pins s
    \<and> write_spec (sc_detach C) (sc_digest C) a (rs_key prefix (wr_key a)) (rs_view s t) (rs_pins s) x (rs_view s' t)"
proof (cases "sc_detach C (wr_data a)")
  case (Inl e)
  then show ?thesis using run inv by (auto simp: rs_write_def write_spec_def)
next
  let ?k = "rs_key prefix (wr_key a)"
  case (Inr d)
  define pinned where "pinned = owned (rs_pins s ?k)"
  define r where "r = rs_written C t a d (revision_of (rs_live t ?k s) + 1) pinned"
  define ttl where "ttl = (if pinned then None else rs_ttl C (wr_ttl a))"
  note quiet = rs_write_quiet[OF inv fine Inr, of t, folded pinned_def, folded r_def ttl_def]
  consider (err) e where "x = Inl e" "s' = s"
    | (fin) "\<not> (wr_once a \<and> rs_live t ?k s \<noteq> None)" "wr_expected a \<noteq> None \<longrightarrow> wr_expected a = Some (revision_of (rs_live t ?k s))"
        "x = Inr (snap_handle.truncate (r\<lparr>sn_pinned := pinned\<rparr>))" "rs_put t ?k r ttl s = (Inr (), s')"
    using run rs_put_cases[of t ?k r ttl s] unfolding quiet by (auto split: if_splits)
  then show ?thesis
  proof cases
    case err
    then show ?thesis using inv by (simp add: write_spec_def)
  next
    case fin
    have "rs_inv C s' \<and> rs_pins s' = rs_pins s \<and> rs_view s' t = (rs_view s t)(?k \<mapsto> r\<lparr>sn_pinned := pinned\<rparr>)"
      unfolding pinned_def by (rule rs_put_view[OF inv fine fin(4)]) (simp_all add: r_def ttl_def pinned_def rs_written_def rs_record_def)
    moreover have "write_fits (sc_detach C) (sc_digest C) a (revision_of (rs_view s t ?k)) pinned (r\<lparr>sn_pinned := pinned\<rparr>)"
      using Inr by (simp add: write_fits_def r_def rs_written_def rs_record_def split: option.split)
    ultimately show ?thesis
      using write_specI[of a "rs_view s t" ?k "revision_of (rs_view s t ?k)" "rs_view s' t"] fin(1-3)
      by (simp add: rs_view_none pinned_def)
  qed
qed

lemma rs_pin_quiet:
  assumes inv: "rs_inv C s" and fine: "\<not> is_pin_key (rs_key prefix key)" and r: "rs_live t (rs_key prefix key) s = Some r"
    and owner: "py_strip owner \<noteq> []"
  defines "k \<equiv> rs_key prefix key"
  shows "\<exists>s'. rs_pin C prefix (\<lambda>_. t) (\<lambda>_. id) key owner s = (Inr (snap_handle.truncate (r\<lparr>sn_expires := None, sn_pinned := True\<rparr>)), s')
    \<and> rs_inv C s' \<and> rs_pins s' = (rs_pins s)(k := insert (py_strip owner) (rs_pins s k))
    \<and> rs_view s' t = (rs_view s t)(k \<mapsto> r\<lparr>sn_pinned := True\<rparr>)"
proof -
  let ?pk = "k @ '':pins''"
  define s1 where "s1 = s\<lparr>rs_sets := (rs_sets s)(?pk := insert (py_strip owner) (rs_sets s ?pk))\<rparr>"
  define s2 where "s2 = s1\<lparr>rs_vals := (rs_vals s1)(k \<mapsto> (r, None))\<rparr>"
  have "(rs_vals s)(?pk := None) = rs_vals s" using inv by (auto simp: rs_inv_def)
  then have sadd: "rs_sadd t ?pk (py_strip owner) s = (Inr (), s1)" using rs_live_pin[OF inv] by (simp add: rs_sadd_def s1_def)
  have "rs_live t k s1 = Some r" using r by (simp add: s1_def rs_live_def k_def)
  then have persist: "rs_expire t k None s1 = s2" by (simp add: rs_expire_def s2_def)
  have pins: "rs_pins s2 = (rs_pins s)(k := insert (py_strip owner) (rs_pins s k))" by (intro ext) (auto simp: rs_pins_def s1_def s2_def)
  obtain ex where v: "rs_vals s k = Some (r, ex)" using rs_live_vals[OF r] k_def by auto
  have inv2: "rs_inv C s2" unfolding rs_inv_def pins using inv fine v by (auto simp: rs_inv_def s1_def s2_def k_def)
  have view: "rs_view s2 t = (rs_view s t)(k \<mapsto> r\<lparr>sn_pinned := True\<rparr>)"
    unfolding rs_view_def pins by (auto simp: rs_live_def s1_def s2_def)
  have "rs_read C prefix (\<lambda>_. t) (\<lambda>_. id) key s2 = (Inr (Some (r\<lparr>sn_pinned := True\<rparr>)), s2)"
    using rs_read_quiet[OF inv2 fine, of t] view by (simp add: k_def)
  then have "rs_pin C prefix (\<lambda>_. t) (\<lambda>_. id) key owner s = (Inr (snap_handle.truncate (r\<lparr>sn_expires := None, sn_pinned := True\<rparr>)), s2)"
    using owner rs_get_quiet[OF inv fine, of t] r sadd persist by (simp add: rs_pin_def Let_def rs_pin_key_eq k_def)
  then show ?thesis using inv2 pins view by blast
qed

lemma rs_pin_refines:
  assumes inv: "rs_inv C s" and fine: "\<not> is_pin_key (rs_key prefix key)"
    and run: "rs_pin C prefix (\<lambda>_. t) (\<lambda>_. id) key owner s = (x, s')"
  shows "rs_inv C s' \<and> pin_spec (py_strip owner) (rs_key prefix key) (rs_view s t) (rs_pins s) x (rs_view s' t) (rs_pins s')"
proof (cases "py_strip owner = [] \<or> rs_live t (rs_key prefix key) s = None")
  case True
  then have "s' = s" "\<exists>e. x = Inl e" using run rs_get_quiet[OF inv fine, of t] by (auto simp: rs_pin_def Let_def split: if_splits)
  then show ?thesis using inv True by (auto simp: pin_spec_def rs_view_none)
next
  case False
  then obtain r where r: "rs_live t (rs_key prefix key) s = Some r" "py_strip owner \<noteq> []" by blast
  have "content (r\<lparr>sn_pinned := b\<rparr>) = content r" for b by (simp add: content_def)
  then show ?thesis using rs_pin_quiet[OF inv fine r] run r unfolding pin_spec_def
    by (auto simp: snap_handle.truncate_def rs_view_def split: option.split)
qed

lemma rs_unpin_refines:
  assumes inv: "rs_inv C s" and fine: "\<not> is_pin_key (rs_key prefix key)"
    and run: "rs_unpin C prefix (\<lambda>_. t) (\<lambda>_. id) key owner s = (x, s')"
  shows "rs_inv C s' \<and> unpin_spec (py_strip owner) (rs_key prefix key) (rs_view s t) (rs_pins s) (rs_view s' t) (rs_pins s')"
proof -
  let ?k = "rs_key prefix key"
  obtain s1 where s1: "rs_srem t (?k @ '':pins'') (py_strip owner) s = (Inr (), s1)" "rs_inv C s1"
    "rs_pins s1 = (rs_pins s)(?k := rs_pins s ?k - {py_strip owner})" "\<And>t j. rs_live t j s1 = rs_live t j s"
    using rs_srem_view[OF inv] by blast
  have view: "rs_view s1 t j = map_option (\<lambda>r. r\<lparr>sn_pinned := owned (rs_pins s1 j)\<rparr>) (rs_live t j s)" for j
    by (simp add: rs_view_def s1(4))
  have other: "rs_view s1 t j = rs_view s t j" if "j \<noteq> ?k" for j using that by (simp add: rs_view_def s1(3,4))
  have same: "content (r\<lparr>sn_pinned := b\<rparr>) = content r" for r b by (simp add: content_def)
  have mid: "unpin_spec (py_strip owner) ?k (rs_view s t) (rs_pins s) (rs_view s1 t) (rs_pins s1)"
    using other s1(3) by (auto simp: unpin_spec_def rs_view_def[of s t] view same split: option.split)
  note read = rs_read_quiet[OF s1(2) fine, of t] and card = rs_scard_quiet[OF s1(2)]
  show ?thesis
  proof (cases "rs_view s1 t ?k")
    case None
    then have "s' = s1" using run s1(1) read by (simp add: rs_unpin_def Let_def rs_pin_key_eq)
    then show ?thesis using s1(2) mid by simp
  next
    case (Some r)
    have "snd (rs_unpin C prefix (\<lambda>_. t) (\<lambda>_. id) key owner s) = (case sn_expires r of None \<Rightarrow> s1 | Some ex \<Rightarrow>
        if owned (rs_pins s1 ?k) then s1 else if trunc (ex - t) \<le> 0 then rs_del ?k s1
        else rs_expire t ?k (Some (t + of_int (trunc (ex - t)))) s1)"
      using s1(1) read card Some by (simp add: rs_unpin_def Let_def rs_pin_key_eq split: option.split)
    then have s': "s' = (case sn_expires r of None \<Rightarrow> s1 | Some ex \<Rightarrow>
        if owned (rs_pins s1 ?k) then s1 else if trunc (ex - t) \<le> 0 then rs_del ?k s1
        else rs_expire t ?k (Some (t + of_int (trunc (ex - t)))) s1)" using run by simp
    consider "s' = s1" | ex where "sn_expires r = Some ex" "\<not> owned (rs_pins s1 ?k)" "s' = rs_del ?k s1"
      | n where "0 < n" "\<not> owned (rs_pins s1 ?k)" "s' = rs_expire t ?k (Some (t + of_int n)) s1"
    proof (cases "sn_expires r")
      case (Some ex)
      then show ?thesis using s' that(1) that(2)[OF Some] that(3)[of "trunc (ex - t)"]
        by (cases "trunc (ex - t) \<le> 0"; cases "owned (rs_pins s1 ?k)") simp_all
    qed (use s' that in simp)
    then show ?thesis
    proof cases
      case 1
      then show ?thesis using s1(2) mid by simp
    next
      case 2
      then show ?thesis using rs_del_view[OF s1(2) fine, of t] mid by (auto simp: unpin_spec_def split: option.splits if_splits)
    next
      case 3
      then show ?thesis using rs_expire_view[OF s1(2), of ?k "Some (t + of_int n)" t] mid by (simp add: over_def)
    qed
  qed
qed

interpretation rs: snapshot_store "rs_inv C" rs_view rs_pins "rs_step C prefix" "rs_fine prefix" "\<lambda>key. Some (rs_key prefix key)"
  "sc_detach C" "sc_digest C" for C prefix
proof
  fix s t t' k assume inv: "rs_inv C s"
  show "rs_view s t k \<noteq> None" if "owned (rs_pins s k)" using rs_pinned_live[OF inv that, of t] by (auto simp: rs_view_def)
  show "rs_view s t' k = rs_view s t k \<or> rs_view s t' k = None \<and> \<not> owned (rs_pins s k)" if "t \<le> t'"
  proof (cases "owned (rs_pins s k)")
    case True
    then show ?thesis using rs_pinned_live[OF inv True, of t] by (auto simp: rs_view_def rs_live_def)
  next
    case False
    then show ?thesis using over_mono[OF _ that] by (auto simp: rs_view_def rs_live_def split: option.split)
  qed
  show "rs_view s t' k = None" if "t \<le> t'" "rs_view s t k = None"
    using that over_mono[OF _ that(1)] by (auto simp: rs_view_def rs_live_def split: option.splits if_splits)
next
  fix s call t x s' assume inv: "rs_inv C s" and fine: "rs_fine prefix call" and step: "rs_step C prefix t call s = (x, s')"
  show "rs_inv C s' \<and> snap_spec (\<lambda>key. Some (rs_key prefix key)) (sc_detach C) (sc_digest C) call (rs_view s t) (rs_pins s) x (rs_view s' t) (rs_pins s')"
  proof (cases call)
    case (Write a)
    then show ?thesis using step fine rs_write_refines[OF inv] by (auto split: prod.splits)
  next
    case (Read key)
    then show ?thesis using step fine inv rs_read_quiet[OF inv, of prefix key t] by (auto split: prod.splits)
  next
    case (Delete_Snapshot key)
    then show ?thesis using step fine inv rs_del_view[OF inv, of "rs_key prefix key" t]
      by (auto simp: rs_delete_def rs_pin_key_eq rs_scard_quiet[OF inv] Let_def split: if_splits)
  next
    case (Pin key owner)
    then show ?thesis using step fine rs_pin_refines[OF inv] by (auto split: prod.splits)
  next
    case (Unpin key owner)
    then show ?thesis using step fine rs_unpin_refines[OF inv] by (auto split: prod.splits)
  qed
qed

end
