(* ===== verification/Snapshot_File.thy ===== *)
theory Snapshot_File
  imports Snapshot_Memory Pipeline_Spec
begin

text \<open>
  \<open>FileSnapshotStore\<close>. All files of a snapshot lie side by side: the store is a map from slots (the
  directory and the name without suffix) to what they hold. A write is a list of file operations in
  the order of the code, so that a crash leaves a prefix of them done. Payload files are named by the
  revision and the transaction id; the legacy pickle file is not modelled.
\<close>

section \<open>Keys and slots\<close>

fun split_on :: "char \<Rightarrow> string \<Rightarrow> string list" where
  "split_on c [] = [[]]"
| "split_on c (x # xs) = (if x = c then [] # split_on c xs else case split_on c xs of [] \<Rightarrow> [[x]] | w # ws \<Rightarrow> (x # w) # ws)"

text \<open>\<open>fresh\<close>: the key made when none is given.\<close>

definition ff_normalize :: "string \<Rightarrow> string \<Rightarrow> string" where
  "ff_normalize fresh key =
     (let clean = (\<lambda>text. dropWhile (\<lambda>c. c = CHR ''/'') (replace_char (CHR 0x5C) (CHR ''/'') text));
          text = clean (if key = [] then fresh else py_strip key)
      in if text = [] then fresh else text)"

text \<open>\<open>path.with_suffix("")\<close> on the name: a dot that is neither first nor last begins the suffix.\<close>

definition strip_suffix :: "string \<Rightarrow> string" where
  "strip_suffix name =
     (let ext = takeWhile (\<lambda>c. c \<noteq> CHR ''.'') (rev name); n = length name; m = length ext in
      if m < n \<and> 0 < m \<and> 0 < n - m - 1 then take (n - m - 1) name else name)"

definition path_parts :: "string \<Rightarrow> string list" where
  "path_parts text = filter (\<lambda>p. p \<noteq> [] \<and> p \<noteq> ''.'') (split_on (CHR ''/'') text)"

fun resolve :: "string list \<Rightarrow> string list \<Rightarrow> string list" where
  "resolve dir [] = dir"
| "resolve dir (p # ps) = resolve (if p = ''..'' then butlast dir else dir @ [p]) ps"

definition ff_stem :: "string list \<Rightarrow> string \<Rightarrow> string list result" where
  "ff_stem base text =
     (let ps = path_parts text; ps' = (if ps = [] then [] else butlast ps @ [strip_suffix (last ps)]); r = resolve base ps' in
      if take (length base) r = base then Inr r else Inl ValueError)"

text \<open>\<open>stem.with_suffix(".meta.json")\<close> and its siblings replace the suffix the stem still has.\<close>

definition ff_slot :: "string list \<Rightarrow> string \<Rightarrow> string list result" where
  "ff_slot base text = rbind (ff_stem base text) (\<lambda>r. if r = [] then Inl ValueError else Inr (butlast r @ [strip_suffix (last r)]))"

section \<open>Files\<close>

datatype payload_file = Fallback_Npz | Fallback_Extras | Npz int string | Extras int string

record file_meta = snap_handle +
  fm_npz :: "payload_file option"
  fm_extras :: "payload_file option"
  fm_restore :: "time option"

record file_slot =
  fs_meta :: "file_meta option"
  fs_files :: "payload_file \<Rightarrow> dict option"
  fs_pins :: "string set"
  fs_once :: bool
  fs_claim :: "int option"

type_synonym file_store = "string list \<Rightarrow> file_slot"

definition empty_slot :: file_slot where
  "empty_slot = \<lparr>fs_meta = None, fs_files = \<lambda>_. None, fs_pins = {}, fs_once = False, fs_claim = None\<rparr>"

datatype file_action = Claim int | Put_File payload_file dict | Replace_Meta file_meta | Unlink payload_file | Mark_Once | Unclaim

fun file_act :: "file_action \<Rightarrow> file_slot \<Rightarrow> file_slot" where
  "file_act (Claim pid) x = x\<lparr>fs_claim := Some pid\<rparr>"
| "file_act (Put_File f d) x = x\<lparr>fs_files := (fs_files x)(f \<mapsto> d)\<rparr>"
| "file_act (Replace_Meta m) x = x\<lparr>fs_meta := Some m\<rparr>"
| "file_act (Unlink f) x = x\<lparr>fs_files := (fs_files x)(f := None)\<rparr>"
| "file_act Mark_Once x = x\<lparr>fs_once := True\<rparr>"
| "file_act Unclaim x = x\<lparr>fs_claim := None\<rparr>"

definition payload_path :: "payload_file option \<Rightarrow> payload_file \<Rightarrow> payload_file" where
  "payload_path f fallback = (case f of None \<Rightarrow> fallback | Some g \<Rightarrow> g)"

text \<open>What the claim of another process means: it is honoured while that process is alive.\<close>

definition file_claim_active :: "(int \<Rightarrow> bool) \<Rightarrow> file_slot \<Rightarrow> bool" where
  "file_claim_active alive x \<longleftrightarrow> (case fs_claim x of None \<Rightarrow> False | Some pid \<Rightarrow> 0 < pid \<and> alive pid)"

section \<open>Operations\<close>

text \<open>
  \<open>arr v\<close>: the array that numpy makes of a value, if it makes one. Values that are \<open>None\<close> are dropped,
  the others are encoded by the codec, which returns the empty mapping for the empty mapping.
\<close>

definition ff_arrays :: "(pyval \<Rightarrow> pyval option) \<Rightarrow> dict \<Rightarrow> dict" where
  "ff_arrays arr d = List.map_filter (\<lambda>(k, v). if v = PNone then None else map_option (\<lambda>a. (k, a)) (arr v)) d"

definition ff_extras :: "(pyval \<Rightarrow> pyval option) \<Rightarrow> dict \<Rightarrow> dict" where
  "ff_extras arr d = filter (\<lambda>(k, v). v \<noteq> PNone \<and> arr v = None) d"

definition ff_encoded :: "snap_conf \<Rightarrow> (pyval \<Rightarrow> pyval option) \<Rightarrow> dict \<Rightarrow> dict result" where
  "ff_encoded C arr d = (if ff_extras arr d = [] then Inr [] else sc_detach C (ff_extras arr d))"

definition ff_stored :: "snap_conf \<Rightarrow> (pyval \<Rightarrow> pyval option) \<Rightarrow> dict \<Rightarrow> dict result" where
  "ff_stored C arr d = rbind (ff_encoded C arr d) (\<lambda>ex. Inr (dict_update (ff_arrays arr d) ex))"

definition ff_cleanup :: "file_meta option \<Rightarrow> file_meta \<Rightarrow> file_action list" where
  "ff_cleanup old new =
     (case old of None \<Rightarrow> []
      | Some m \<Rightarrow>
          (if payload_path (fm_npz m) Fallback_Npz = payload_path (fm_npz new) Fallback_Npz then [] else [Unlink (payload_path (fm_npz m) Fallback_Npz)])
        @ (if payload_path (fm_extras m) Fallback_Extras = payload_path (fm_extras new) Fallback_Extras then []
           else [Unlink (payload_path (fm_extras m) Fallback_Extras)]))"

definition ff_plan :: "snap_conf \<Rightarrow> time \<Rightarrow> string \<Rightarrow> int \<Rightarrow> snap_write \<Rightarrow> string \<Rightarrow> dict \<Rightarrow> dict \<Rightarrow> file_slot
    \<Rightarrow> (snap_handle \<times> file_action list) result" where
  "ff_plan C created tx pid a text arrays ex x =
     (let actual = (case fs_meta x of None \<Rightarrow> 0 | Some m \<Rightarrow> sn_revision m); n = actual + 1;
          npz = (if arrays = [] then None else Some (Npz n tx)); extras = (if ex = [] then None else Some (Extras n tx));
          expires = (if owned (fs_pins x) then None else expires_in (pick_ttl (sc_default C) (wr_ttl a)) created);
          m = \<lparr>sn_key = text, sn_backend = ''file'', sn_schema = wr_schema a, sn_meta = wr_meta a, sn_created = created,
               sn_revision = n, sn_digest = sc_digest C (wr_schema a) (dict_update arrays ex), sn_expires = expires,
               sn_pinned = owned (fs_pins x), fm_npz = npz, fm_extras = extras, fm_restore = None\<rparr>
      in if wr_once a \<and> fs_meta x \<noteq> None then Inl FileExistsError
      else if wr_expected a \<noteq> None \<and> wr_expected a \<noteq> Some actual then Inl RuntimeError
      else if (arrays \<noteq> [] \<and> fs_files x (Npz n tx) \<noteq> None) \<or> (ex \<noteq> [] \<and> fs_files x (Extras n tx) \<noteq> None) then Inl FileExistsError
      else Inr (snap_handle.truncate m,
        [Claim pid] @ (if arrays = [] then [] else [Put_File (Npz n tx) arrays]) @ (if ex = [] then [] else [Put_File (Extras n tx) ex])
        @ [Replace_Meta m] @ ff_cleanup (fs_meta x) m @ (if wr_once a then [Mark_Once] else []) @ [Unclaim]))"

definition ff_write :: "snap_conf \<Rightarrow> (pyval \<Rightarrow> pyval option) \<Rightarrow> string list \<Rightarrow> (int \<Rightarrow> bool) \<Rightarrow> time \<Rightarrow> string \<Rightarrow> string \<Rightarrow> int \<Rightarrow> snap_write
    \<Rightarrow> file_store \<Rightarrow> snap_handle result \<times> file_store" where
  "ff_write C arr base alive created fresh tx pid a s =
     (let text = ff_normalize fresh (wr_key a) in
      case ff_slot base text of Inl e \<Rightarrow> (Inl e, s) | Inr k \<Rightarrow>
      case ff_encoded C arr (wr_data a) of Inl e \<Rightarrow> (Inl e, s) | Inr ex \<Rightarrow>
      if file_claim_active alive (s k) then (Inl RuntimeError, s)
      else case ff_plan C created tx pid a text (ff_arrays arr (wr_data a)) ex (s k) of
        Inl e \<Rightarrow> (Inl e, s(k := (s k)\<lparr>fs_claim := None\<rparr>))
      | Inr (h, acts) \<Rightarrow> (Inr h, s(k := fold file_act acts (s k))))"

definition slot_data :: "file_slot \<Rightarrow> file_meta \<Rightarrow> dict" where
  "slot_data x m =
     (let arrays = (case fs_files x (payload_path (fm_npz m) Fallback_Npz) of None \<Rightarrow> [] | Some d \<Rightarrow> d);
          ex = (case fs_files x (payload_path (fm_extras m) Fallback_Extras) of None \<Rightarrow> [] | Some d \<Rightarrow> d)
      in dict_update arrays ex)"

definition slot_record :: "file_slot \<Rightarrow> file_meta \<Rightarrow> snapshot" where
  "slot_record x m = snap_handle.extend ((snap_handle.truncate m)\<lparr>sn_pinned := owned (fs_pins x)\<rparr>) \<lparr>sn_data = slot_data x m\<rparr>"

text \<open>\<open>delete\<close> removes the metadata, the marker and the payload files it knows of; the claim stays.\<close>

definition slot_delete :: "file_slot \<Rightarrow> unit result \<times> file_slot" where
  "slot_delete x =
     (if owned (fs_pins x) then (Inl RuntimeError, x)
      else (Inr (), x\<lparr>fs_meta := None, fs_once := False, fs_pins := {},
        fs_files := \<lambda>f. if f \<in> {Fallback_Npz, Fallback_Extras} then None
          else case fs_meta x of None \<Rightarrow> fs_files x f
            | Some m \<Rightarrow> if fm_npz m = Some f \<or> fm_extras m = Some f then None else fs_files x f\<rparr>))"

definition slot_read :: "snap_conf \<Rightarrow> time \<Rightarrow> file_slot \<Rightarrow> snapshot option result \<times> file_slot" where
  "slot_read C now x =
     (case fs_meta x of
        None \<Rightarrow> (Inr None, x)
      | Some m \<Rightarrow>
          if over now (sn_expires m) then (case slot_delete x of (Inl e, x') \<Rightarrow> (Inl e, x') | (Inr u, x') \<Rightarrow> (Inr None, x'))
          else if sn_digest m \<noteq> [] \<and> sc_digest C (sn_schema m) (slot_data x m) \<noteq> sn_digest m then (Inl ValueError, x)
          else (Inr (Some (slot_record x m)), x))"

definition slot_pin :: "snap_conf \<Rightarrow> time \<Rightarrow> string \<Rightarrow> file_slot \<Rightarrow> snap_handle result \<times> file_slot" where
  "slot_pin C now owner x =
     (let o' = py_strip owner in
      if o' = [] then (Inl ValueError, x)
      else case slot_read C now x of
        (Inl e, x1) \<Rightarrow> (Inl e, x1)
      | (Inr None, x1) \<Rightarrow> (Inl KeyError, x1)
      | (Inr (Some r), x1) \<Rightarrow>
          let meta = (case fs_meta x1 of None \<Rightarrow> None
                | Some m \<Rightarrow> Some (if sn_expires m = None then m else m\<lparr>fm_restore := sn_expires m, sn_expires := None\<rparr>))
          in (Inr (snap_handle.truncate (r\<lparr>sn_expires := None, sn_pinned := True\<rparr>)),
              x1\<lparr>fs_pins := insert o' (fs_pins x1), fs_meta := meta\<rparr>))"

definition slot_unpin :: "snap_conf \<Rightarrow> time \<Rightarrow> time \<Rightarrow> string \<Rightarrow> file_slot \<Rightarrow> snap_handle result \<times> file_slot" where
  "slot_unpin C now now' owner x =
     (case slot_read C now x of
        (Inl e, x1) \<Rightarrow> (Inl e, x1)
      | (Inr None, x1) \<Rightarrow> (Inl KeyError, x1)
      | (Inr (Some r), x1) \<Rightarrow>
          let owners = fs_pins x1 - {py_strip owner}; x2 = x1\<lparr>fs_pins := owners\<rparr>;
              handle = (\<lambda>r. Inr (snap_handle.truncate (r\<lparr>sn_pinned := owned owners\<rparr>)))
          in if owned owners then (handle r, x2)
          else case fs_meta x2 of
            None \<Rightarrow> (handle r, x2)
          | Some m \<Rightarrow>
              if fm_restore m = None then (handle r, x2)
              else let x3 = x2\<lparr>fs_meta := Some (m\<lparr>sn_expires := fm_restore m, fm_restore := None\<rparr>)\<rparr> in
                (case slot_read C now' x3 of
                   (Inl e, x4) \<Rightarrow> (Inl e, x4)
                 | (Inr None, x4) \<Rightarrow> (Inl KeyError, x4)
                 | (Inr (Some r'), x4) \<Rightarrow> (handle r', x4)))"

definition at_slot :: "string list \<Rightarrow> string \<Rightarrow> string \<Rightarrow> (file_slot \<Rightarrow> 'a result \<times> file_slot) \<Rightarrow> file_store \<Rightarrow> 'a result \<times> file_store" where
  "at_slot base fresh key f s =
     (case ff_slot base (ff_normalize fresh key) of
        Inl e \<Rightarrow> (Inl e, s) | Inr k \<Rightarrow> (case f (s k) of (x, x') \<Rightarrow> (x, s(k := x'))))"

text \<open>What the surroundings give: the process id, which processes are alive, fresh names.\<close>

record file_env =
  fe_conf :: snap_conf
  fe_array :: "pyval \<Rightarrow> pyval option"
  fe_base :: "string list"
  fe_alive :: "int \<Rightarrow> bool"
  fe_pid :: int
  fe_key :: string
  fe_tx :: "time \<Rightarrow> file_store \<Rightarrow> string"

fun ff_step :: "file_env \<Rightarrow> time \<Rightarrow> snap_call \<Rightarrow> file_store \<Rightarrow> snap_reply \<times> file_store" where
  "ff_step E t (Write a) s =
     (case ff_write (fe_conf E) (fe_array E) (fe_base E) (fe_alive E) t (fe_key E) (fe_tx E t s) (fe_pid E) a s of (x, s') \<Rightarrow> (Handle x, s'))"
| "ff_step E t (Read key) s = (case at_slot (fe_base E) (fe_key E) key (slot_read (fe_conf E) t) s of (x, s') \<Rightarrow> (Found x, s'))"
| "ff_step E t (Delete_Snapshot key) s = (case at_slot (fe_base E) (fe_key E) key slot_delete s of (x, s') \<Rightarrow> (Deleted x, s'))"
| "ff_step E t (Pin key owner) s = (case at_slot (fe_base E) (fe_key E) key (slot_pin (fe_conf E) t owner) s of (x, s') \<Rightarrow> (Handle x, s'))"
| "ff_step E t (Unpin key owner) s = (case at_slot (fe_base E) (fe_key E) key (slot_unpin (fe_conf E) t t owner) s of (x, s') \<Rightarrow> (Handle x, s'))"

section \<open>The contract\<close>

definition meta_ok :: "snap_conf \<Rightarrow> file_slot \<Rightarrow> file_meta \<Rightarrow> bool" where
  "meta_ok C x m \<longleftrightarrow> sn_digest m = sc_digest C (sn_schema m) (slot_data x m)
     \<and> (fm_npz m = None \<or> (\<exists>tx. fm_npz m = Some (Npz (sn_revision m) tx)))
     \<and> (fm_extras m = None \<or> (\<exists>tx. fm_extras m = Some (Extras (sn_revision m) tx)))"

definition slot_ok :: "snap_conf \<Rightarrow> file_slot \<Rightarrow> bool" where
  "slot_ok C x \<longleftrightarrow> fs_files x Fallback_Npz = None \<and> fs_files x Fallback_Extras = None
     \<and> (owned (fs_pins x) \<longrightarrow> (\<exists>m. fs_meta x = Some m \<and> sn_expires m = None))
     \<and> (\<forall>m. fs_meta x = Some m \<longrightarrow> meta_ok C x m)"

definition slot_view :: "file_slot \<Rightarrow> time \<Rightarrow> snapshot option" where
  "slot_view x t = (case fs_meta x of None \<Rightarrow> None | Some m \<Rightarrow> if over t (sn_expires m) then None else Some (slot_record x m))"

definition ff_inv :: "snap_conf \<Rightarrow> file_store \<Rightarrow> bool" where
  "ff_inv C s \<longleftrightarrow> (\<forall>k. slot_ok C (s k))"

definition ff_view :: "file_store \<Rightarrow> time \<Rightarrow> string list snaps" where
  "ff_view s t k = slot_view (s k) t"

definition ff_pins :: "file_store \<Rightarrow> string list \<Rightarrow> string set" where
  "ff_pins s k = fs_pins (s k)"

definition ff_key :: "file_env \<Rightarrow> string \<Rightarrow> string list option" where
  "ff_key E key = (case ff_slot (fe_base E) (ff_normalize (fe_key E) key) of Inl e \<Rightarrow> None | Inr k \<Rightarrow> Some k)"

lemma unowned_empty: "\<not> owned X \<Longrightarrow> X = {}"
  by (simp add: owned_def)

lemma slot_record_content: "content (slot_record x m) = (sn_key m, sn_schema m, sn_meta m, sn_created m, sn_revision m, sn_digest m, slot_data x m)"
  by (simp add: content_def slot_record_def snap_handle.defs snapshot.defs)

lemma slot_record_sel [simp]: "sn_revision (slot_record x m) = sn_revision m" "sn_pinned (slot_record x m) = owned (fs_pins x)"
  "sn_expires (slot_record x m) = sn_expires m" "sn_data (slot_record x m) = slot_data x m"
  "sn_schema (slot_record x m) = sn_schema m" "sn_meta (slot_record x m) = sn_meta m" "sn_digest (slot_record x m) = sn_digest m"
  by (simp_all add: slot_record_def snap_handle.defs snapshot.defs)

lemma slot_data_same [simp]: "slot_data (x\<lparr>fs_meta := a, fs_pins := b\<rparr>) m = slot_data x m" "slot_data (x\<lparr>fs_meta := a\<rparr>) m = slot_data x m"
  "slot_data (x\<lparr>fs_pins := b\<rparr>) m = slot_data x m" "slot_data (x\<lparr>fs_claim := c\<rparr>) m = slot_data x m"
  "slot_data x (m\<lparr>sn_expires := e, fm_restore := r\<rparr>) = slot_data x m"
  "slot_data x (m\<lparr>fm_restore := r, sn_expires := e\<rparr>) = slot_data x m"
  by (simp_all add: slot_data_def)

lemma slot_delete_ok:
  assumes "slot_ok C x" "slot_delete x = (y, x')"
  shows "slot_ok C x' \<and> fs_pins x' = fs_pins x
    \<and> (if owned (fs_pins x) then y = Inl RuntimeError \<and> x' = x else y = Inr () \<and> slot_view x' t = None)"
proof (cases "owned (fs_pins x)")
  case False
  then have "fs_pins x = {}" by (rule unowned_empty)
  then show ?thesis using assms by (auto simp: slot_delete_def slot_ok_def slot_view_def split: option.splits)
qed (use assms in \<open>simp add: slot_delete_def\<close>)

lemma slot_read_ok:
  assumes "slot_ok C x" "slot_read C t x = (y, x')"
  shows "slot_ok C x' \<and> fs_pins x' = fs_pins x \<and> y = Inr (slot_view x t) \<and> slot_view x' t = slot_view x t \<and> (slot_view x t \<noteq> None \<longrightarrow> x' = x)"
proof (cases "fs_meta x")
  case (Some m)
  show ?thesis
  proof (cases "over t (sn_expires m)")
    case True
    then have "\<not> owned (fs_pins x)" using assms(1) Some by (auto simp: slot_ok_def)
    moreover obtain z x2 where z: "slot_delete x = (z, x2)" by fastforce
    ultimately show ?thesis using assms True Some slot_delete_ok[OF assms(1) z, of t] by (auto simp: slot_read_def slot_view_def)
  next
    case False
    have "meta_ok C x m" using assms(1) Some by (simp add: slot_ok_def)
    then show ?thesis using assms False Some by (auto simp: slot_read_def slot_view_def meta_ok_def)
  qed
qed (use assms in \<open>auto simp: slot_read_def slot_view_def\<close>)

lemma slot_view_Some: "slot_view x t = Some r \<longleftrightarrow> (\<exists>m. fs_meta x = Some m \<and> \<not> over t (sn_expires m) \<and> r = slot_record x m)"
  by (auto simp: slot_view_def split: option.split)

lemma slot_pin_ok:
  assumes "slot_ok C x" "slot_pin C t owner x = (y, x')"
  shows "slot_ok C x' \<and> (case y of
      Inl e \<Rightarrow> slot_view x' t = slot_view x t \<and> fs_pins x' = fs_pins x \<and> (py_strip owner = [] \<or> slot_view x t = None)
    | Inr h \<Rightarrow> py_strip owner \<noteq> [] \<and> fs_pins x' = insert (py_strip owner) (fs_pins x) \<and> sn_pinned h
        \<and> (\<exists>r r'. slot_view x t = Some r' \<and> slot_view x' t = Some r \<and> sn_pinned r \<and> content r = content r'))"
proof (cases "py_strip owner = []")
  case True
  then show ?thesis using assms by (auto simp: slot_pin_def)
next
  case False
  obtain z x1 where z: "slot_read C t x = (z, x1)" by fastforce
  note read = slot_read_ok[OF assms(1) z]
  show ?thesis
  proof (cases "slot_view x t")
    case None
    then show ?thesis using assms False z read by (auto simp: slot_pin_def)
  next
    case (Some r)
    then obtain m where m: "fs_meta x = Some m" "\<not> over t (sn_expires m)" "r = slot_record x m" "x1 = x" "z = Inr (Some r)"
      using read by (auto simp: slot_view_Some)
    define m' where "m' = (if sn_expires m = None then m else m\<lparr>fm_restore := sn_expires m, sn_expires := None\<rparr>)"
    have x': "x' = x\<lparr>fs_pins := insert (py_strip owner) (fs_pins x), fs_meta := Some m'\<rparr>"
      "y = Inr (snap_handle.truncate (r\<lparr>sn_expires := None, sn_pinned := True\<rparr>))"
      using assms(2) False z m by (auto simp: slot_pin_def Let_def m'_def)
    have m': "sn_expires m' = None" "content (slot_record x' m') = content (slot_record x m)" "meta_ok C x' m' = meta_ok C x m"
      by (simp_all add: m'_def x'(1) slot_record_content meta_ok_def slot_data_def)
    have "slot_ok C x'" using assms(1) m m' x'(1) by (auto simp: slot_ok_def)
    moreover have "slot_view x' t = Some (slot_record x' m')" using m'(1) x'(1) by (simp add: slot_view_def)
    ultimately show ?thesis using False x' m m'(2) Some by (auto simp: snap_handle.defs)
  qed
qed

lemma slot_unpin_ok:
  assumes "slot_ok C x" "slot_unpin C t t owner x = (y, x')"
  shows "slot_ok C x' \<and> fs_pins x' = fs_pins x - {py_strip owner}
    \<and> (case slot_view x t of None \<Rightarrow> slot_view x' t = None
       | Some r \<Rightarrow> if owned (fs_pins x') then (\<exists>r'. slot_view x' t = Some r' \<and> content r' = content r)
           else slot_view x' t = None \<or> (\<exists>r'. slot_view x' t = Some r' \<and> content r' = content r))"
proof -
  obtain z x1 where z: "slot_read C t x = (z, x1)" by fastforce
  note read = slot_read_ok[OF assms(1) z]
  show ?thesis
  proof (cases "slot_view x t")
    case None
    then have "x' = x1" using assms(2) z read by (auto simp: slot_unpin_def)
    moreover have "\<not> owned (fs_pins x)" using None assms(1) by (auto simp: slot_ok_def slot_view_def)
    ultimately show ?thesis using None read by auto
  next
    case (Some r)
    then obtain m where m: "fs_meta x = Some m" "\<not> over t (sn_expires m)" "r = slot_record x m" "x1 = x" "z = Inr (Some r)"
      using read by (auto simp: slot_view_Some)
    define owners where "owners = fs_pins x - {py_strip owner}"
    define x2 where "x2 = x\<lparr>fs_pins := owners\<rparr>"
    have mid: "content (slot_record x2 m) = content r" by (simp add: m(3) slot_record_content x2_def)
    have ok2: "slot_ok C x2" using assms(1) m(1) by (auto simp: slot_ok_def x2_def meta_ok_def owners_def)
    have view2: "slot_view x2 t = Some (slot_record x2 m)" using m(1,2) by (simp add: slot_view_def x2_def)
    show ?thesis
    proof (cases "owned owners \<or> fm_restore m = None")
      case True
      then have "x' = x2" using assms(2) z m(1,4,5)
        by (cases "owned owners") (auto simp: slot_unpin_def Let_def x2_def simp flip: owners_def)
      then show ?thesis using ok2 view2 mid Some by (auto simp: x2_def owners_def)
    next
      case False
      define m' where "m' = m\<lparr>sn_expires := fm_restore m, fm_restore := None\<rparr>"
      define x3 where "x3 = x2\<lparr>fs_meta := Some m'\<rparr>"
      have ok3: "slot_ok C x3" using ok2 m(1) False by (auto simp: slot_ok_def x3_def x2_def m'_def meta_ok_def slot_data_def)
      obtain z3 x4 where z3: "slot_read C t x3 = (z3, x4)" by fastforce
      have "x' = x4" using assms(2) z m(1,4,5) False z3
        by (auto simp: slot_unpin_def Let_def x2_def x3_def m'_def simp flip: owners_def split: option.splits sum.splits)
      moreover have "content (slot_record x3 m') = content r" by (simp add: m(3) slot_record_content x3_def x2_def m'_def slot_data_def)
      moreover have "slot_view x3 t = None \<or> slot_view x3 t = Some (slot_record x3 m')" by (simp add: slot_view_def x3_def)
      moreover have "fs_pins x3 = owners" by (simp add: x3_def x2_def)
      ultimately show ?thesis using slot_read_ok[OF ok3 z3] Some False by (auto simp: owners_def)
    qed
  qed
qed

section \<open>Writes, whole and cut short\<close>

text \<open>
  File operations that do not touch what a reader of the slot sees: the payload files of the current
  metadata and the metadata itself.
\<close>

definition payload_paths :: "file_slot \<Rightarrow> payload_file set" where
  "payload_paths x = (case fs_meta x of None \<Rightarrow> {} | Some m \<Rightarrow> {payload_path (fm_npz m) Fallback_Npz, payload_path (fm_extras m) Fallback_Extras})"

fun neutral :: "payload_file set \<Rightarrow> file_action \<Rightarrow> bool" where
  "neutral ps (Put_File f d) \<longleftrightarrow> f \<notin> ps \<and> f \<noteq> Fallback_Npz \<and> f \<noteq> Fallback_Extras"
| "neutral ps (Unlink f) \<longleftrightarrow> f \<notin> ps"
| "neutral ps (Replace_Meta m) \<longleftrightarrow> False"
| "neutral ps _ \<longleftrightarrow> True"

lemma slot_data_files: "fs_files x (payload_path (fm_npz m) Fallback_Npz) = fs_files y (payload_path (fm_npz m) Fallback_Npz) \<Longrightarrow>
    fs_files x (payload_path (fm_extras m) Fallback_Extras) = fs_files y (payload_path (fm_extras m) Fallback_Extras) \<Longrightarrow> slot_data x m = slot_data y m"
  by (simp add: slot_data_def)

lemma neutral_keeps:
  assumes "slot_ok C x" "neutral (payload_paths x) a"
  shows "slot_ok C (file_act a x) \<and> fs_meta (file_act a x) = fs_meta x \<and> fs_pins (file_act a x) = fs_pins x \<and> slot_view (file_act a x) t = slot_view x t"
proof -
  have same: "fs_meta (file_act a x) = fs_meta x" "fs_pins (file_act a x) = fs_pins x" using assms(2) by (cases a; simp)+
  have data: "slot_data (file_act a x) m = slot_data x m" if "fs_meta x = Some m" for m
    using assms(2) that by (cases a) (auto simp: payload_paths_def slot_data_def)
  have "fs_files (file_act a x) f = fs_files x f \<or> (\<exists>g. a = Unlink g)" if "f \<in> {Fallback_Npz, Fallback_Extras}" for f
    using assms(2) that by (cases a) auto
  then have "fs_files (file_act a x) Fallback_Npz = None" "fs_files (file_act a x) Fallback_Extras = None"
    using assms(1) by (cases a; force simp: slot_ok_def)+
  then have "slot_ok C (file_act a x)" using assms(1) same data by (auto simp: slot_ok_def meta_ok_def)
  moreover have "slot_view (file_act a x) t = slot_view x t"
    using same data by (auto simp: slot_view_def slot_record_def split: option.split)
  ultimately show ?thesis using same by simp
qed

lemma neutrals_keep:
  "slot_ok C x \<Longrightarrow> list_all (neutral (payload_paths x)) acts \<Longrightarrow> slot_ok C (fold file_act acts x) \<and> fs_meta (fold file_act acts x) = fs_meta x
    \<and> fs_pins (fold file_act acts x) = fs_pins x \<and> slot_view (fold file_act acts x) t = slot_view x t"
proof (induction acts arbitrary: x)
  case (Cons a acts)
  then have a: "slot_ok C (file_act a x)" "fs_meta (file_act a x) = fs_meta x" "fs_pins (file_act a x) = fs_pins x"
    "slot_view (file_act a x) t = slot_view x t" using neutral_keeps[of C x a t] by auto
  then have "payload_paths (file_act a x) = payload_paths x" by (simp add: payload_paths_def)
  then show ?case using Cons.IH[OF a(1)] Cons.prems(2) a by simp
qed simp

text \<open>A write replaces the metadata in one step; before and after it only neutral operations happen.\<close>

lemma ff_plan_parts:
  assumes ok: "slot_ok C x" and plan: "ff_plan C t tx pid a text arrays ex x = Inr (h, acts)"
  obtains pre m post where "acts = pre @ [Replace_Meta m] @ post" "h = snap_handle.truncate m"
    "list_all (neutral (payload_paths x)) pre"
    "\<And>x1. x1 = fold file_act pre x \<Longrightarrow> slot_ok C (x1\<lparr>fs_meta := Some m\<rparr>) \<and> slot_data (x1\<lparr>fs_meta := Some m\<rparr>) m = dict_update arrays ex
       \<and> list_all (neutral (payload_paths (x1\<lparr>fs_meta := Some m\<rparr>))) post"
    "sn_pinned m = owned (fs_pins x)" "\<not> over t (sn_expires m)" "owned (fs_pins x) \<longrightarrow> sn_expires m = None"
    "sn_revision m = (case fs_meta x of None \<Rightarrow> 0 | Some m \<Rightarrow> sn_revision m) + 1" "sn_schema m = wr_schema a" "sn_meta m = wr_meta a"
    "sn_digest m = sc_digest C (wr_schema a) (dict_update arrays ex)"
    "\<not> (wr_once a \<and> fs_meta x \<noteq> None)"
    "wr_expected a \<noteq> None \<longrightarrow> wr_expected a = Some (case fs_meta x of None \<Rightarrow> 0 | Some m \<Rightarrow> sn_revision m)"
proof -
  define n where "n = (case fs_meta x of None \<Rightarrow> 0 | Some m \<Rightarrow> sn_revision m) + 1"
  define m where "m = \<lparr>sn_key = text, sn_backend = ''file'', sn_schema = wr_schema a, sn_meta = wr_meta a, sn_created = t,
       sn_revision = n, sn_digest = sc_digest C (wr_schema a) (dict_update arrays ex),
       sn_expires = (if owned (fs_pins x) then None else expires_in (pick_ttl (sc_default C) (wr_ttl a)) t),
       sn_pinned = owned (fs_pins x), fm_npz = (if arrays = [] then None else Some (Npz n tx)),
       fm_extras = (if ex = [] then None else Some (Extras n tx)), fm_restore = None\<rparr>"
  define pre where "pre = [Claim pid] @ (if arrays = [] then [] else [Put_File (Npz n tx) arrays]) @ (if ex = [] then [] else [Put_File (Extras n tx) ex])"
  define post where "post = ff_cleanup (fs_meta x) m @ (if wr_once a then [Mark_Once] else []) @ [Unclaim]"
  have acts: "acts = pre @ [Replace_Meta m] @ post" "h = snap_handle.truncate m" "\<not> (wr_once a \<and> fs_meta x \<noteq> None)"
    "wr_expected a \<noteq> None \<longrightarrow> wr_expected a = Some (n - 1)" 
    using plan by (auto simp: ff_plan_def Let_def pre_def post_def m_def n_def split: if_splits)
  have fields: "sn_revision m = n" "sn_schema m = wr_schema a" "sn_digest m = sc_digest C (wr_schema a) (dict_update arrays ex)"
    "fm_npz m = (if arrays = [] then None else Some (Npz n tx))" "fm_extras m = (if ex = [] then None else Some (Extras n tx))"
    "owned (fs_pins x) \<Longrightarrow> sn_expires m = None" by (simp_all add: m_def)
  have fresh: "Npz n tx \<notin> payload_paths x" "Extras n tx \<notin> payload_paths x"
    using ok by (auto simp: payload_paths_def payload_path_def slot_ok_def meta_ok_def n_def split: option.splits)
  have pre: "list_all (neutral (payload_paths x)) pre" using fresh by (simp add: pre_def)
  have main: "slot_ok C (x1\<lparr>fs_meta := Some m\<rparr>) \<and> slot_data (x1\<lparr>fs_meta := Some m\<rparr>) m = dict_update arrays ex
       \<and> list_all (neutral (payload_paths (x1\<lparr>fs_meta := Some m\<rparr>))) post" if x1: "x1 = fold file_act pre x" for x1
  proof -
    have keep: "slot_ok C x1" "fs_pins x1 = fs_pins x" using neutrals_keep[OF ok pre] x1 by auto
    have files: "fs_files x1 (payload_path (fm_npz m) Fallback_Npz) = (if arrays = [] then None else Some arrays)"
      "fs_files x1 (payload_path (fm_extras m) Fallback_Extras) = (if ex = [] then None else Some ex)"
      using ok by (auto simp: x1 pre_def m_def payload_path_def slot_ok_def)
    have data: "slot_data (x1\<lparr>fs_meta := Some m\<rparr>) m = dict_update arrays ex"
      using files by (simp add: slot_data_def)
    have "meta_ok C (x1\<lparr>fs_meta := Some m\<rparr>) m" using data
      by (cases "arrays = []"; cases "ex = []") (simp_all add: meta_ok_def fields)
    then have "slot_ok C (x1\<lparr>fs_meta := Some m\<rparr>)" using keep by (simp add: slot_ok_def fields)
    moreover have "list_all (neutral (payload_paths (x1\<lparr>fs_meta := Some m\<rparr>))) (ff_cleanup (fs_meta x) m)"
    proof (cases "fs_meta x")
      case (Some m')
      then have "meta_ok C x m'" using ok by (simp add: slot_ok_def)
      then show ?thesis using Some
        by (cases "arrays = []"; cases "ex = []") (auto simp: ff_cleanup_def payload_paths_def meta_ok_def payload_path_def fields)
    qed (simp add: ff_cleanup_def)
    ultimately show ?thesis using data by (auto simp: post_def)
  qed
  show ?thesis by (rule that[OF acts(1,2) pre main]) (use acts(3,4) in \<open>simp_all add: m_def n_def\<close>)
qed

lemma slot_write_cut:
  assumes ok: "slot_ok C x" and plan: "ff_plan C t tx pid a text arrays ex x = Inr (h, acts)"
    and st: "stored (wr_data a) = Inr (dict_update arrays ex)"
  shows "\<exists>r. slot_view (fold file_act acts x) t = Some r \<and> h = snap_handle.truncate r
    \<and> \<not> (wr_once a \<and> slot_view x t \<noteq> None)
    \<and> (\<exists>j. (slot_view x t \<noteq> None \<longrightarrow> j = revision_of (slot_view x t)) \<and> (wr_expected a \<noteq> None \<longrightarrow> wr_expected a = Some j)
         \<and> write_fits stored (sc_digest C) a j (owned (fs_pins x)) r)
    \<and> (\<forall>n. slot_ok C (fold file_act (take n acts) x) \<and> fs_pins (fold file_act (take n acts) x) = fs_pins x
      \<and> (slot_view (fold file_act (take n acts) x) t = slot_view x t \<or> slot_view (fold file_act (take n acts) x) t = Some r))"
proof (rule ff_plan_parts[OF ok plan])
  fix pre m post
  assume acts: "acts = pre @ [Replace_Meta m] @ post" "h = snap_handle.truncate m" and pre: "list_all (neutral (payload_paths x)) pre"
    and main: "\<And>x1. x1 = fold file_act pre x \<Longrightarrow> slot_ok C (x1\<lparr>fs_meta := Some m\<rparr>) \<and> slot_data (x1\<lparr>fs_meta := Some m\<rparr>) m = dict_update arrays ex
       \<and> list_all (neutral (payload_paths (x1\<lparr>fs_meta := Some m\<rparr>))) post"
    and m: "sn_pinned m = owned (fs_pins x)" "\<not> over t (sn_expires m)" "owned (fs_pins x) \<longrightarrow> sn_expires m = None"
    and fields: "sn_revision m = (case fs_meta x of None \<Rightarrow> 0 | Some m \<Rightarrow> sn_revision m) + 1" "sn_schema m = wr_schema a" "sn_meta m = wr_meta a"
      "sn_digest m = sc_digest C (wr_schema a) (dict_update arrays ex)"
    and conds: "\<not> (wr_once a \<and> fs_meta x \<noteq> None)"
      "wr_expected a \<noteq> None \<longrightarrow> wr_expected a = Some (case fs_meta x of None \<Rightarrow> 0 | Some m \<Rightarrow> sn_revision m)"
  define j where "j = (case fs_meta x of None \<Rightarrow> 0 | Some m \<Rightarrow> sn_revision m)"
  have j: "slot_view x t \<noteq> None \<longrightarrow> j = revision_of (slot_view x t)"
    by (auto simp: j_def slot_view_def revision_of_def split: option.split)
  have once: "\<not> (wr_once a \<and> slot_view x t \<noteq> None)" using conds(1) by (auto simp: slot_view_def split: option.splits)
  define x1 where "x1 = fold file_act pre x"
  define x2 where "x2 = x1\<lparr>fs_meta := Some m\<rparr>"
  define r where "r = slot_record x2 m"
  note x2 = main[OF x1_def, folded x2_def]
  have pins: "fs_pins x2 = fs_pins x" using neutrals_keep[OF ok pre] by (simp add: x2_def x1_def)
  have view: "slot_view x2 t = Some r" using m(2) by (simp add: slot_view_def x2_def r_def)
  have cut: "slot_ok C (fold file_act (take n acts) x) \<and> fs_pins (fold file_act (take n acts) x) = fs_pins x
      \<and> (if n \<le> length pre then slot_view (fold file_act (take n acts) x) t = slot_view x t
         else slot_view (fold file_act (take n acts) x) t = Some r)" for n
  proof (cases "n \<le> length pre")
    case True
    then have "list_all (neutral (payload_paths x)) (take n acts)" using pre acts(1) by (auto simp: list_all_iff dest: in_set_takeD)
    then show ?thesis using neutrals_keep[OF ok] True by auto
  next
    case False
    then have t: "take n acts = pre @ Replace_Meta m # take (n - length pre - 1) post" using acts(1) by (simp add: take_Cons')
    then have "fold file_act (take n acts) x = fold file_act (take (n - length pre - 1) post) x2" by (simp add: x2_def x1_def)
    moreover have "list_all (neutral (payload_paths x2)) (take (n - length pre - 1) post)"
      using x2 by (auto simp: list_all_iff dest: in_set_takeD)
    ultimately show ?thesis using neutrals_keep[of C x2 "take (n - length pre - 1) post" t] x2 pins view False by auto
  qed
  have "slot_view (fold file_act acts x) t = Some r" using cut[of "length acts"] acts(1) by simp
  moreover have "h = snap_handle.truncate r" using m(1) pins acts(2) by (simp add: r_def slot_record_def snap_handle.defs snapshot.defs)
  moreover have "write_fits stored (sc_digest C) a j (owned (fs_pins x)) r"
    using x2 st fields m(3) pins by (simp add: write_fits_def r_def j_def)
  ultimately show ?thesis using cut once j conds(2)[folded j_def] by (intro exI[of _ r]) metis
qed

lemma ff_view_upd: "ff_view (s(k := x)) t = (ff_view s t)(k := slot_view x t)" "ff_pins (s(k := x)) = (ff_pins s)(k := fs_pins x)"
  by (auto simp: ff_view_def ff_pins_def fun_eq_iff)

lemma ff_inv_upd: "ff_inv C s \<Longrightarrow> slot_ok C x \<Longrightarrow> ff_inv C (s(k := x))"
  by (simp add: ff_inv_def)

lemma ff_write_refines:
  assumes inv: "ff_inv (fe_conf E) s"
    and run: "ff_write (fe_conf E) (fe_array E) (fe_base E) (fe_alive E) t (fe_key E) tx (fe_pid E) a s = (x, s')"
  shows "ff_inv (fe_conf E) s' \<and> ff_pins s' = ff_pins s \<and> (case ff_key E (wr_key a) of
      None \<Rightarrow> \<not> ok x \<and> ff_view s' t = ff_view s t
    | Some k \<Rightarrow> write_spec (ff_stored (fe_conf E) (fe_array E)) (sc_digest (fe_conf E)) a k (ff_view s t) (ff_pins s) x (ff_view s' t))"
proof (cases "ff_slot (fe_base E) (ff_normalize (fe_key E) (wr_key a))")
  case (Inl e)
  then show ?thesis using run inv by (auto simp: ff_write_def ff_key_def)
next
  case (Inr k)
  note slot_key = Inr
  have key: "ff_key E (wr_key a) = Some k" using Inr by (simp add: ff_key_def)
  let ?C = "fe_conf E"
  have slot: "slot_ok ?C (s k)" using inv by (simp add: ff_inv_def)
  consider (same) e where "x = Inl e" "s' = s" | (unclaimed) e where "x = Inl e" "s' = s(k := (s k)\<lparr>fs_claim := None\<rparr>)"
    | (fin) ex h acts where "ff_encoded ?C (fe_array E) (wr_data a) = Inr ex"
        "ff_plan ?C t tx (fe_pid E) a (ff_normalize (fe_key E) (wr_key a)) (ff_arrays (fe_array E) (wr_data a)) ex (s k) = Inr (h, acts)"
        "x = Inr h" "s' = s(k := fold file_act acts (s k))"
  proof (cases "ff_encoded ?C (fe_array E) (wr_data a)")
    case (Inr ex)
    show ?thesis
    proof (cases "file_claim_active (fe_alive E) (s k)")
      case False
      let ?plan = "ff_plan ?C t tx (fe_pid E) a (ff_normalize (fe_key E) (wr_key a)) (ff_arrays (fe_array E) (wr_data a)) ex (s k)"
      show ?thesis
      proof (cases ?plan)
        case (Inr p)
        then show ?thesis using that(3)[OF \<open>ff_encoded _ _ _ = Inr ex\<close>, of "fst p" "snd p"] run slot_key \<open>ff_encoded _ _ _ = Inr ex\<close> False
          by (cases p) (auto simp: ff_write_def Let_def)
      qed (use that(2) run slot_key Inr False in \<open>auto simp: ff_write_def Let_def\<close>)
    qed (use that(1) run slot_key Inr in \<open>auto simp: ff_write_def Let_def\<close>)
  qed (use that(1) run slot_key in \<open>auto simp: ff_write_def Let_def\<close>)
  then show ?thesis
  proof cases
    case same
    then show ?thesis using inv key by (simp add: write_spec_def)
  next
    case unclaimed
    have "slot_ok ?C ((s k)\<lparr>fs_claim := None\<rparr>)" "slot_view ((s k)\<lparr>fs_claim := None\<rparr>) t = slot_view (s k) t"
      using slot by (auto simp: slot_ok_def meta_ok_def slot_view_def slot_record_def split: option.split)
    then have "ff_inv ?C s'" "ff_view s' t = ff_view s t" "ff_pins s' = ff_pins s"
      unfolding unclaimed(2) using inv by (simp_all add: ff_inv_upd ff_view_upd fun_upd_idem ff_view_def ff_pins_def)
    then show ?thesis using key unclaimed(1) by (simp add: write_spec_def)
  next
    case fin
    have st: "ff_stored ?C (fe_array E) (wr_data a) = Inr (dict_update (ff_arrays (fe_array E) (wr_data a)) ex)"
      using fin(1) by (simp add: ff_stored_def)
    obtain r j where r: "slot_view (fold file_act acts (s k)) t = Some r" "h = snap_handle.truncate r"
      "\<not> (wr_once a \<and> slot_view (s k) t \<noteq> None)" "slot_view (s k) t \<noteq> None \<longrightarrow> j = revision_of (slot_view (s k) t)"
      "wr_expected a \<noteq> None \<longrightarrow> wr_expected a = Some j" "write_fits (ff_stored ?C (fe_array E)) (sc_digest ?C) a j (owned (fs_pins (s k))) r"
      and all: "\<forall>n. slot_ok ?C (fold file_act (take n acts) (s k)) \<and> fs_pins (fold file_act (take n acts) (s k)) = fs_pins (s k)"
      using slot_write_cut[OF slot fin(2), where stored = "ff_stored ?C (fe_array E)", OF st] by blast
    have after: "slot_ok ?C (fold file_act acts (s k))" "fs_pins (fold file_act acts (s k)) = fs_pins (s k)"
      using spec[OF all, of "length acts"] by simp_all
    have "ff_view s' t = (ff_view s t)(k \<mapsto> r)" "ff_pins s' = ff_pins s" "ff_inv ?C s'"
      using r(1) after inv by (simp_all add: fin(4) ff_view_upd ff_inv_upd fun_upd_idem ff_pins_def)
    then show ?thesis
      using key fin(3) r(2) write_specI[of a "ff_view s t" k j "ff_view s' t" r "ff_stored ?C (fe_array E)" "sc_digest ?C" "ff_pins s"] r(3-6)
      by (simp add: ff_view_def ff_pins_def)
  qed
qed

text \<open>An operation on one slot, seen from the store.\<close>

lemma at_slot_cases:
  assumes "at_slot (fe_base E) (fe_key E) key f s = (x, s')"
  obtains (bad) e where "ff_key E key = None" "x = Inl e" "s' = s"
    | (good) k x' where "ff_key E key = Some k" "f (s k) = (x, x')" "s' = s(k := x')"
  using assms by (auto simp: at_slot_def ff_key_def split: sum.splits prod.splits)

interpretation ff: snapshot_store "ff_inv (fe_conf E)" ff_view ff_pins "ff_step E" "\<lambda>_. True" "ff_key E"
  "ff_stored (fe_conf E) (fe_array E)" "sc_digest (fe_conf E)" for E
proof
  fix s t t' k assume inv: "ff_inv (fe_conf E) s"
  have slot: "slot_ok (fe_conf E) (s k)" using inv by (simp add: ff_inv_def)
  show "ff_view s t k \<noteq> None" if "owned (ff_pins s k)"
    using slot that by (auto simp: ff_view_def ff_pins_def slot_ok_def slot_view_def)
  show "ff_view s t' k = ff_view s t k \<or> ff_view s t' k = None \<and> \<not> owned (ff_pins s k)" if "t \<le> t'"
    using slot over_mono[OF _ that] by (auto simp: ff_view_def ff_pins_def slot_ok_def slot_view_def split: option.split)
  show "ff_view s t' k = None" if "t \<le> t'" "ff_view s t k = None"
    using that over_mono[OF _ that(1)] by (auto simp: ff_view_def slot_view_def split: option.splits if_splits)
next
  fix s call t x s' assume inv: "ff_inv (fe_conf E) s" and step: "ff_step E t call s = (x, s')"
  have slot: "slot_ok (fe_conf E) (s k)" for k using inv by (simp add: ff_inv_def)
  let ?spec = "snap_spec (ff_key E) (ff_stored (fe_conf E) (fe_array E)) (sc_digest (fe_conf E)) call (ff_view s t) (ff_pins s) x (ff_view s' t) (ff_pins s')"
  show "ff_inv (fe_conf E) s' \<and> ?spec"
  proof (cases call)
    case (Write a)
    then obtain y where y: "x = Handle y"
      "ff_write (fe_conf E) (fe_array E) (fe_base E) (fe_alive E) t (fe_key E) (fe_tx E t s) (fe_pid E) a s = (y, s')"
      using step by (auto split: prod.splits)
    show ?thesis using ff_write_refines[OF inv y(2)] Write y(1) by simp
  next
    case (Read key)
    then obtain y where y: "x = Found y" "at_slot (fe_base E) (fe_key E) key (slot_read (fe_conf E) t) s = (y, s')"
      using step by (auto split: prod.splits)
    from y(2) show ?thesis
    proof (cases rule: at_slot_cases)
      case (good k x')
      then show ?thesis using slot_read_ok[OF slot good(2)] Read y(1) inv
        by (simp add: ff_view_upd ff_inv_upd fun_upd_idem ff_view_def ff_pins_def)
    qed (use Read y(1) inv in simp)
  next
    case (Delete_Snapshot key)
    then obtain y where y: "x = Deleted y" "at_slot (fe_base E) (fe_key E) key slot_delete s = (y, s')"
      using step by (auto split: prod.splits)
    from y(2) show ?thesis
    proof (cases rule: at_slot_cases)
      case (good k x')
      then show ?thesis using slot_delete_ok[OF slot good(2), of t] Delete_Snapshot y(1) inv
        by (auto simp: ff_view_upd ff_inv_upd fun_upd_idem ff_view_def ff_pins_def)
    qed (use Delete_Snapshot y(1) inv in simp)
  next
    case (Pin key owner)
    then obtain y where y: "x = Handle y" "at_slot (fe_base E) (fe_key E) key (slot_pin (fe_conf E) t owner) s = (y, s')"
      using step by (auto split: prod.splits)
    from y(2) show ?thesis
    proof (cases rule: at_slot_cases)
      case (good k x')
      note pin = slot_pin_ok[OF slot good(2)]
      have "ff_inv (fe_conf E) s'" using pin inv good(3) by (simp add: ff_inv_upd)
      moreover have "pin_spec (py_strip owner) k (ff_view s t) (ff_pins s) y (ff_view s' t) (ff_pins s')"
      proof (cases y)
        case (Inl e)
        then show ?thesis using pin good(3) by (simp add: pin_spec_def ff_view_upd fun_upd_idem ff_view_def ff_pins_def)
      next
        case (Inr h)
        then obtain r r' where "slot_view (s k) t = Some r'" "slot_view x' t = Some r" "sn_pinned r" "content r = content r'" using pin by auto
        then show ?thesis using pin good(3) Inr
          by (auto simp: pin_spec_def ff_view_upd ff_view_def ff_pins_def intro!: exI[of _ r])
      qed
      ultimately show ?thesis using Pin y(1) good(1) by simp
    qed (use Pin y(1) inv in simp)
  next
    case (Unpin key owner)
    then obtain y where y: "x = Handle y" "at_slot (fe_base E) (fe_key E) key (slot_unpin (fe_conf E) t t owner) s = (y, s')"
      using step by (auto split: prod.splits)
    from y(2) show ?thesis
    proof (cases rule: at_slot_cases)
      case (good k x')
      note unpin = slot_unpin_ok[OF slot good(2)]
      have "ff_inv (fe_conf E) s'" using unpin inv good(3) by (simp add: ff_inv_upd)
      moreover have "unpin_spec (py_strip owner) k (ff_view s t) (ff_pins s) (ff_view s' t) (ff_pins s')"
      proof -
        have "ff_view s' t j = (if j = k then slot_view x' t else ff_view s t j)" "ff_pins s' = (ff_pins s)(k := fs_pins x')" for j
          by (simp_all add: good(3) ff_view_upd)
        then show ?thesis using unpin unfolding unpin_spec_def
          by (cases "slot_view (s k) t") (simp_all add: ff_view_def[of s] ff_pins_def[of s])
      qed
      ultimately show ?thesis using Unpin y(1) good(1) by simp
    qed (use Unpin y(1) inv in simp)
  qed
qed

end
