(* ===== verification/Snapshot_Properties.thy ===== *)
theory Snapshot_Properties
  imports Snapshot_Redis Snapshot_File
begin

text \<open>
  Properties of the snapshot stores: what the three backends keep of the contract, compare-and-set on
  Redis among other clients, crashes of a file write, and where the backends part.
\<close>

section \<open>The contract of the three stores\<close>

definition pins_hold :: "('s \<Rightarrow> bool) \<Rightarrow> ('s \<Rightarrow> time \<Rightarrow> 'k snaps) \<Rightarrow> ('s \<Rightarrow> 'k \<Rightarrow> string set) \<Rightarrow> (time \<Rightarrow> snap_call \<Rightarrow> 's \<Rightarrow> snap_reply \<times> 's)
    \<Rightarrow> (snap_call \<Rightarrow> bool) \<Rightarrow> (string \<Rightarrow> 'k option) \<Rightarrow> bool" where
  "pins_hold I view pins step fine keyof \<longleftrightarrow> (\<forall>s xs ys s' key k owner t.
     I s \<longrightarrow> (\<forall>(u, call)\<in>set xs. fine call \<and> \<not> releases keyof k owner call) \<longrightarrow> owner \<in> pins s k
     \<longrightarrow> snap_run step xs s = (ys, s') \<longrightarrow> keyof key = Some k \<longrightarrow> fine (Delete_Snapshot key)
     \<longrightarrow> view s' t k \<noteq> None \<and> fst (step t (Delete_Snapshot key) s') = Deleted (Inl RuntimeError))"

text \<open>While a snapshot is pinned its revision counts the writes, and its content changes by them only.\<close>

definition revisions_count :: "('s \<Rightarrow> bool) \<Rightarrow> ('s \<Rightarrow> time \<Rightarrow> 'k snaps) \<Rightarrow> ('s \<Rightarrow> 'k \<Rightarrow> string set) \<Rightarrow> (time \<Rightarrow> snap_call \<Rightarrow> 's \<Rightarrow> snap_reply \<times> 's)
    \<Rightarrow> (snap_call \<Rightarrow> bool) \<Rightarrow> (string \<Rightarrow> 'k option) \<Rightarrow> bool" where
  "revisions_count I view pins step fine keyof \<longleftrightarrow>
     (\<forall>s xs ys s' k owner t. I s \<longrightarrow> (\<forall>(u, call)\<in>set xs. fine call \<and> \<not> releases keyof k owner call) \<longrightarrow> owner \<in> pins s k
        \<longrightarrow> snap_run step xs s = (ys, s')
        \<longrightarrow> revision_of (view s' t k) = revision_of (view s t k) + int (length (filter (wrote keyof k) (zip (map snd xs) ys))))
   \<and> (\<forall>s t call x s' k r r'. I s \<longrightarrow> fine call \<longrightarrow> step t call s = (x, s') \<longrightarrow> \<not> wrote keyof k (call, x)
        \<longrightarrow> view s t k = Some r \<longrightarrow> view s' t k = Some r' \<longrightarrow> content r' = content r)
   \<and> (\<forall>s t a h s' k. I s \<longrightarrow> fine (Write a) \<longrightarrow> step t (Write a) s = (Handle (Inr h), s') \<longrightarrow> keyof (wr_key a) = Some k
        \<longrightarrow> view s t k \<noteq> None \<longrightarrow> \<not> wr_once a \<and> (wr_expected a = None \<or> wr_expected a = Some (revision_of (view s t k)))
          \<and> revision_of (view s' t k) = revision_of (view s t k) + 1)"

context snapshot_store
begin

lemma pins_hold_ok: "pins_hold I view pins step fine keyof"
  unfolding pins_hold_def using pinned_survives by blast

lemma revisions_count_ok: "revisions_count I view pins step fine keyof"
  unfolding revisions_count_def
proof (intro conjI allI impI)
  fix s xs ys s' k owner t
  assume "I s" "\<forall>(u, call)\<in>set xs. fine call \<and> \<not> releases keyof k owner call" "owner \<in> pins s k" "snap_run step xs s = (ys, s')"
  then show "revision_of (view s' t k) = revision_of (view s t k) + int (length (filter (wrote keyof k) (zip (map snd xs) ys)))"
    by (rule run_revision)
next
  fix s t call x s' k r r'
  assume "I s" "fine call" "step t call s = (x, s')" "\<not> wrote keyof k (call, x)" "view s t k = Some r" "view s' t k = Some r'"
  then show "content r' = content r" by (rule step_content_kept)
next
  fix s t a h s' k
  assume a: "I s" "fine (Write a)" "step t (Write a) s = (Handle (Inr h), s')" "keyof (wr_key a) = Some k" "view s t k \<noteq> None"
  then have spec: "write_spec stored digest a k (view s t) (pins s) (Inr h) (view s' t)" using refines[OF a(1-3)] by simp
  then show "\<not> wr_once a" using a(5) by (auto simp: write_spec_def)
  show "wr_expected a = None \<or> wr_expected a = Some (revision_of (view s t k))" using spec a(5) by (auto simp: write_spec_def)
  have "view s' t k \<noteq> None" using spec by (auto simp: write_spec_def)
  then show "revision_of (view s' t k) = revision_of (view s t k) + 1" using step_revision[OF a(1-3,5)] a(4) by simp
qed

end


text \<open>
  Revisions are exact on every backend: over any run that keeps a pin, the revision of the snapshot
  grows by the number of successful writes to it; no other call changes its content; and a write over
  a live snapshot succeeds only without \<open>write_once\<close> and with the expected revision, if one is given,
  equal to the current one. So of two clients that compare-and-set on the same revision one fails.
\<close>

theorem snapshot_revisions:
  "revisions_count ms_inv ms_view ms_pins (ms_step C) (\<lambda>_. True) Some
   \<and> revisions_count (rs_inv C) rs_view rs_pins (rs_step C prefix) (rs_fine prefix) (\<lambda>key. Some (rs_key prefix key))
   \<and> revisions_count (ff_inv (fe_conf E)) ff_view ff_pins (ff_step E) (\<lambda>_. True) (ff_key E)"
  by (intro conjI ms.revisions_count_ok rs.revisions_count_ok ff.revisions_count_ok)

section \<open>A file write cut short\<close>


definition ex_snap_conf :: snap_conf where
  "ex_snap_conf = \<lparr>sc_default = None, sc_detach = \<lambda>d. Inr d, sc_digest = \<lambda>sch d. sch, sc_fits = \<lambda>_. True\<rparr>"

definition ex_write :: "string \<Rightarrow> int \<Rightarrow> rat option \<Rightarrow> snap_write" where
  "ex_write k n ttl = \<lparr>wr_data = [(''x'', PInt n)], wr_key = k, wr_meta = [], wr_schema = ''v1'', wr_ttl = ttl, wr_once = False, wr_expected = None\<rparr>"


section \<open>Redis among other clients\<close>

text \<open>
  On Redis a write with an expected revision is a compare-and-set whatever other clients do between
  its commands: when it succeeds, the database it wrote into still held exactly that revision of the
  snapshot (the value it had watched), and the new revision is the next one.
\<close>

theorem redis_cas_exact:
  assumes "rs_write C prefix c w a s = (Inr h, s')" "wr_expected a = Some e" "\<not> wr_once a"
  shows "\<exists>s2 s3 r ttl. revision_of (rs_live (c 3) (rs_key prefix (wr_key a)) s2) = e
    \<and> rs_vals s3 (rs_key prefix (wr_key a)) = rs_vals s2 (rs_key prefix (wr_key a)) \<and> s2 = w 2 (w 1 (w 0 s)) \<and> s3 = w 3 s2
    \<and> rs_put (c 4) (rs_key prefix (wr_key a)) r ttl s3 = (Inr (), s') \<and> sn_revision r = e + 1 \<and> sn_revision h = e + 1"
proof -
  let ?k = "rs_key prefix (wr_key a)" and ?s0 = "w 0 s"
  let ?s2 = "w 2 (w 1 ?s0)"
  obtain d where d: "sc_detach C (wr_data a) = Inr d" using assms(1) by (auto simp: rs_write_def split: sum.splits)
  obtain cur where cur: "rs_get (c 1) ?k ?s0 = Inr cur" using assms(1) d
    by (auto simp: rs_write_def Let_def split: sum.splits if_splits)
  obtain pinned where pinned: "rs_scard (c 2) (rs_pin_key prefix (wr_key a)) (w 1 ?s0) = Inr pinned" using assms d cur
    by (auto simp: rs_write_def Let_def split: sum.splits if_splits)
  obtain watched where watched: "rs_get (c 3) ?k ?s2 = Inr watched" using assms d cur pinned
    by (auto simp: rs_write_def Let_def split: sum.splits if_splits)
  have e: "revision_of cur = e" using assms d cur by (auto simp: rs_write_def Let_def split: sum.splits if_splits)
  have e': "revision_of watched = e" using assms d cur pinned watched e
    by (auto simp: rs_write_def Let_def split: sum.splits if_splits)
  define r where "r = \<lparr>sn_key = wr_key a, sn_backend = ''redis'', sn_schema = wr_schema a, sn_meta = wr_meta a,
     sn_created = c 0, sn_revision = e + 1, sn_digest = sc_digest C (wr_schema a) d,
     sn_expires = (case rs_ttl C (wr_ttl a) of None \<Rightarrow> None | Some n \<Rightarrow> if pinned then None else Some (c 0 + of_int n)), sn_pinned = False, sn_data = d\<rparr>"
  define ttl where "ttl = (if pinned then None else rs_ttl C (wr_ttl a))"
  obtain y z where put: "rs_put (c 4) ?k r ttl (w 3 ?s2) = (y, z)" by fastforce
  have "rs_vals (w 3 ?s2) ?k = rs_vals ?s2 ?k \<and> (case y of Inl err \<Rightarrow> Inl err | Inr u \<Rightarrow> Inr (snap_handle.truncate (r\<lparr>sn_pinned := pinned\<rparr>)), z) = (Inr h, s')"
    using assms d cur pinned watched e e' put[unfolded r_def ttl_def] unfolding r_def
    by (simp add: rs_write_def Let_def split: if_splits)
  moreover from this have y: "y = Inr ()" by (cases y) auto
  ultimately have all: "rs_vals (w 3 ?s2) ?k = rs_vals ?s2 ?k" "y = Inr ()" "z = s'" "h = snap_handle.truncate (r\<lparr>sn_pinned := pinned\<rparr>)"
    by simp_all
  have "watched = rs_live (c 3) ?k ?s2" using watched by (auto simp: rs_get_def split: if_splits)
  then show ?thesis using all put e' by (intro exI[of _ ?s2] exI[of _ "w 3 ?s2"] exI[of _ r] exI[of _ ttl]) (auto simp: r_def snap_handle.defs)
qed

lemma rs_key_k: "rs_key ''p'' ''k'' = ''p:k''"
  by code_simp

theorem redis_cas_exact_witness:
  "\<exists>h s'. rs_write ex_snap_conf ''p'' (\<lambda>_. 0) (\<lambda>_. id) ((ex_write ''k'' 3 None)\<lparr>wr_expected := Some 0\<rparr>) rs_init = (Inr h, s') \<and> sn_revision h = 1"
proof -
  let ?a = "(ex_write ''k'' 3 None)\<lparr>wr_expected := Some 0\<rparr>"
  have k: "rs_key ''p'' (wr_key ?a) = ''p:k''" by (simp add: ex_write_def rs_key_k)
  have "\<not> is_pin_key (rs_key ''p'' (wr_key ?a))" unfolding k by code_simp
  from rs_write_quiet[OF rs_inv_init this, of ex_snap_conf "[(''x'', PInt 3)]" 0]
  obtain h s' where run: "rs_write ex_snap_conf ''p'' (\<lambda>_. 0) (\<lambda>_. id) ?a rs_init = (Inr h, s')"
    unfolding k by (simp add: ex_snap_conf_def ex_write_def rs_init_def rs_pins_def rs_live_def revision_of_def rs_ttl_def pick_ttl_def rs_put_def)
  have "wr_expected ?a = Some 0" "\<not> wr_once ?a" by (simp_all add: ex_write_def)
  from redis_cas_exact[OF run this] have "sn_revision h = 0 + 1" by (elim exE conjE)
  with run show ?thesis by (intro exI[of _ h] exI[of _ s']) simp
qed

section \<open>Where the backends part\<close>

definition found_data :: "snap_reply \<Rightarrow> dict option" where
  "found_data x = (case x of Found (Inr (Some r)) \<Rightarrow> Some (sn_data r) | _ \<Rightarrow> None)"

definition ex_file_env :: file_env where
  "ex_file_env = \<lparr>fe_conf = ex_snap_conf, fe_array = \<lambda>_. None, fe_base = [''snapshots''], fe_alive = \<lambda>_. False, fe_pid = 7, fe_key = ''fresh'',
     fe_tx = \<lambda>t s. ''tx''\<rparr>"

definition ex_rewrite :: "(time \<times> snap_call) list" where
  "ex_rewrite = [(0, Write (ex_write ''k'' 1 (Some 10))), (1, Pin ''k'' ''me''), (2, Write (ex_write ''k'' 2 None)),
     (20, Unpin ''k'' ''me''), (21, Read ''k'')]"

text \<open>
  What a release of the last pin restores depends on the backend. A snapshot is written to live for
  ten seconds, pinned, replaced under the pin by one without a time to live, and released after the
  ten seconds: in memory the replacement gets the expiry of the snapshot it replaced and is gone, on
  Redis and in files it is there.
\<close>

theorem release_after_rewrite:
  "found_data (last (fst (snap_run (ms_step ex_snap_conf) ex_rewrite ms_init))) = None
   \<and> found_data (last (fst (snap_run (rs_step ex_snap_conf ''p'') ex_rewrite rs_init))) = Some [(''x'', PInt 2)]
   \<and> found_data (last (fst (snap_run (ff_step ex_file_env) ex_rewrite (\<lambda>_. empty_slot)))) = Some [(''x'', PInt 2)]"
  by code_simp

text \<open>Keys of files lose their suffix, twice: snapshots under different keys share one slot. The key \<open>.\<close> is outside.\<close>

lemma ff_slot_name: "path_parts text = [name] \<Longrightarrow> strip_suffix name \<noteq> ''..'' \<Longrightarrow> ff_slot base text = Inr (base @ [strip_suffix (strip_suffix name)])"
  by (simp add: ff_slot_def ff_stem_def)

lemma file_keys_collide:
  "ff_slot base ''model.v1'' = Inr (base @ [''model'']) \<and> ff_slot base ''model.v2'' = Inr (base @ [''model''])
   \<and> ff_slot base ''model.v1.final'' = Inr (base @ [''model'']) \<and> ff_slot [''runs'', ''snapshots''] ''.'' = Inr [''runs'', ''snapshots'']"
proof -
  have "path_parts ''model.v1'' = [''model.v1'']" "strip_suffix ''model.v1'' = ''model''" "strip_suffix ''model'' = ''model''"
    "path_parts ''model.v2'' = [''model.v2'']" "strip_suffix ''model.v2'' = ''model''"
    "path_parts ''model.v1.final'' = [''model.v1.final'']" "strip_suffix ''model.v1.final'' = ''model.v1''"
    "ff_slot [''runs'', ''snapshots''] ''.'' = Inr [''runs'', ''snapshots'']" by code_simp+
  then show ?thesis by (simp add: ff_slot_name)
qed

text \<open>
  On Redis the owners of a pin are read before the value is set: pinned in between, a snapshot is
  written with a time to live, and is gone when that is over although it is pinned.
\<close>

definition pin_between :: "nat \<Rightarrow> redis_snaps \<Rightarrow> redis_snaps" where
  "pin_between n s = (if n = 2 then snd (rs_pin ex_snap_conf ''p'' (\<lambda>_. 1) (\<lambda>_. id) ''k'' ''me'' s) else s)"

lemma redis_pin_lost:
  "let s = snd (rs_write ex_snap_conf ''p'' (\<lambda>_. 0) (\<lambda>_. id) (ex_write ''k'' 1 None) rs_init);
       s' = snd (rs_write ex_snap_conf ''p'' (\<lambda>_. 1) pin_between (ex_write ''k'' 2 (Some 10)) s)
   in rs_sets s' ''p:k:pins'' = {''me''} \<and> rs_live 5 ''p:k'' s' \<noteq> None \<and> rs_live 11 ''p:k'' s' = None"
  by code_simp

text \<open>Without an expected revision a write counts from what it read: two writers produce one revision.\<close>

definition write_between :: "nat \<Rightarrow> redis_snaps \<Rightarrow> redis_snaps" where
  "write_between n s = (if n = 2 then snd (rs_write ex_snap_conf ''p'' (\<lambda>_. 1) (\<lambda>_. id) (ex_write ''k'' 1 None) s) else s)"

lemma redis_plain_write_races:
  "map_sum id sn_revision (fst (rs_write ex_snap_conf ''p'' (\<lambda>_. 0) write_between (ex_write ''k'' 2 None) rs_init)) = Inr 1
   \<and> revision_of (rs_live 1 ''p:k'' (write_between 2 rs_init)) = 1"
  by code_simp

text \<open>\<open>pin\<close> in memory does not sweep: it revives a snapshot that has lapsed and was not read since.\<close>

lemma memory_pin_revives:
  "found_data (last (fst (snap_run (ms_step ex_snap_conf) [(0, Write (ex_write ''k'' 1 (Some 10))), (20, Pin ''k'' ''me''), (21, Read ''k'')] ms_init)))
     = Some [(''x'', PInt 1)]
   \<and> found_data (last (fst (snap_run (rs_step ex_snap_conf ''p'') [(0, Write (ex_write ''k'' 1 (Some 10))), (20, Pin ''k'' ''me''), (21, Read ''k'')] rs_init)))
     = None"
  by code_simp

end
