(* ===== verification/Context_Properties.thy ===== *)
theory Context_Properties
  imports Context_Store
begin

text \<open>Properties of the context stores: one behaviour in memory and on Redis, and when two Redis stores are apart.\<close>

section \<open>The two stores agree\<close>

text \<open>
  C21. On calls in the order of time, with values the codec can encode and a time to live of whole
  seconds, the memory store and the Redis store give the same replies: those of a map whose entries
  vanish when their time is over. The Redis database may hold keys of others and stale keys of this
  store from before its \<open>clear\<close>.
\<close>

theorem context_stores_agree:
  assumes "sorted (map fst xs)" "\<forall>(t, call)\<in>set xs. rx_ok C call" "rx_inv s"
  shows "ctx_run mx_step xs (mx_init (rx_default C)) = ctx_run (spec_ctx (rx_default C)) xs (\<lambda>_. None)
    \<and> ctx_run (rx_step C) xs (rx_clear C s) = ctx_run (spec_ctx (rx_default C)) xs (\<lambda>_. None)"
proof (cases xs)
  case (Cons p ps)
  obtain t where t: "sorted (t # map fst xs)" using assms(1) Cons by (intro that[of "fst p"]) simp
  have "mx_inv (rx_default C) (mx_init (rx_default C))" "mx_view (mx_init (rx_default C)) t = later t (\<lambda>_. None)"
    by (auto simp: mx_inv_def mx_init_def mx_view_def later_def)
  then have "ctx_run mx_step xs (mx_init (rx_default C)) = ctx_run (spec_ctx (rx_default C)) xs (\<lambda>_. None)"
    using t by (intro mx.run_refines) auto
  moreover have "rx_inv (rx_clear C s)" using assms(3) by (simp add: rx_inv_def rx_clear_def distinct_map_filter)
  then have "ctx_run (rx_step C) xs (rx_clear C s) = ctx_run (spec_ctx (rx_default C)) xs (\<lambda>_. None)"
    using t assms(2) by (intro rx.run_refines) (auto simp: rx_view_def)
  ultimately show ?thesis by simp
qed simp

definition ex_conf :: redis_conf where
  "ex_conf = \<lparr>rx_prefix = ''ctx'', rx_default = Some 5, rx_fits = \<lambda>_. True\<rparr>"

theorem context_stores_agree_witness:
  "ctx_run (rx_step ex_conf) [(1, Set ''k'' (PInt 3) None), (2, Get ''k''), (6, Get ''k'')] (rx_clear ex_conf [])
     = ctx_run (spec_ctx (Some 5)) [(1, Set ''k'' (PInt 3) None), (2, Get ''k''), (6, Get ''k'')] (\<lambda>_. None)
   \<and> ctx_run (rx_step ex_conf) [(1, Set ''k'' (PInt 3) None), (2, Get ''k''), (6, Get ''k'')] []
     = [Done (Inr ()), Value (Some (PInt 3)), Value None]"
  using context_stores_agree[of "[(1, Set ''k'' (PInt 3) None), (2, Get ''k''), (6, Get ''k'')]" ex_conf "[]"]
  by (simp add: ex_conf_def whole_ttl_def pick_ttl_def rx_serialize_def rx_inv_def rx_clear_def rx_set_def rx_store_def rx_ttl_def
      rx_get_def rx_lookup_def over_def)

section \<open>Prefixes\<close>

lemma starts_with_append [simp]: "starts_with p (p @ x)"
  by (simp add: starts_with_def)

lemma starts_with_comparable: "starts_with p s \<Longrightarrow> starts_with q s \<Longrightarrow> starts_with p q \<or> starts_with q p"
  unfolding starts_with_def by (metis append_eq_append_conv_if append_take_drop_id take_add take_take min_def nle_le)

text \<open>
  Two Redis context stores on one database are apart, in the sense that \<open>clear\<close> on the first
  leaves every key of the second, exactly when neither of their prefixes, with the colon, begins the
  other: the stores of \<open>app\<close> and \<open>app:child\<close> are not, and clearing one removes keys of the other.
\<close>

theorem clear_isolated:
  "(\<forall>s. rx_map C' (rx_clear C s) = rx_map C' s) \<longleftrightarrow>
     \<not> starts_with (rx_prefix C @ '':'') (rx_prefix C' @ '':'') \<and> \<not> starts_with (rx_prefix C' @ '':'') (rx_prefix C @ '':'')"
proof
  let ?p = "rx_prefix C @ '':''" and ?q = "rx_prefix C' @ '':''"
  assume clear: "\<forall>s. rx_map C' (rx_clear C s) = rx_map C' s"
  have apart: "\<not> starts_with ?p (rx_key C' k)" for k
    using fun_cong[OF spec[OF clear, of "[(rx_key C' k, PNone, None)]"], of k] by (auto simp: rx_map_def rx_clear_def has_prefix_def split: if_splits)
  have "\<not> starts_with ?q ?p"
  proof
    assume "starts_with ?q ?p"
    then obtain k where "?p = rx_key C' k" using has_prefix_iff[of C' ?p] by (auto simp: has_prefix_def)
    then show False using apart[of k] starts_with_append[of ?p "[]"] by simp
  qed
  moreover have "starts_with ?p ?q \<Longrightarrow> starts_with ?p (rx_key C' [])" by (simp add: rx_key_def)
  ultimately show "\<not> starts_with ?p ?q \<and> \<not> starts_with ?q ?p" using apart by blast
next
  let ?p = "rx_prefix C @ '':''" and ?q = "rx_prefix C' @ '':''"
  assume apart: "\<not> starts_with ?p ?q \<and> \<not> starts_with ?q ?p"
  have "\<not> has_prefix C (rx_key C' k)" for k
    using starts_with_comparable[of ?p "rx_key C' k" ?q] starts_with_append[of ?q k] apart by (auto simp: has_prefix_def rx_key_def)
  then have "map_of (rx_clear C s) (rx_key C' k) = map_of s (rx_key C' k)" for s k
    by (induction s) (auto simp: rx_clear_def)
  then show "\<forall>s. rx_map C' (rx_clear C s) = rx_map C' s" by (auto simp: rx_map_def)
qed

text \<open>
  A time to live below a second is cut to zero, which Redis refuses; the transaction has run the
  deletions by then and none of the assignments.
\<close>

lemma short_ttl_half_patch:
  "rx_patch (C\<lparr>rx_fits := \<lambda>_. True\<rparr>) c [(k, PStr v)] [d] (Some (1 / 2)) s = (Inl response_error, rx_delete C d s)"
  by (simp add: rx_patch_def rx_serialize_def rx_exec_def rx_store_def rx_ttl_def pick_ttl_def rx_delete_def rx_key_def)

end
