(* ===== verification/Provider_Model.thy ===== *)
theory Provider_Model
  imports Wire Resource_Context
begin

text \<open>
  The contracts of the evaluation layer: references to live state (\<open>state_ref.py\<close>), and from
  \<open>evaluation/model.py\<close> capabilities, the contract of a transition method, the declaration of a
  provider, requests, bindings and results, with what their constructors check and normalise.
  Text fields are strings, sequences of names lists of strings; numeric arrays and data references
  are opaque values.
\<close>

section \<open>The codec of shared values\<close>

text \<open>\<open>encode_shared_value\<close> of \<open>types.py\<close> on plain values: sequences become lists.\<close>

fun encoded :: "pyval \<Rightarrow> pyval" where
  "encoded (PList xs) = PList (map encoded xs)"
| "encoded (PTuple xs) = PList (map encoded xs)"
| "encoded (PMap d) = PMap (map (\<lambda>(k, v). (k, encoded v)) d)"
| "encoded v = v"

definition encode_shared_value :: "pyval \<Rightarrow> pyval result" where
  "encode_shared_value v = (if wire_safe v then Inr (encoded v) else Inl TypeError)"

definition freeze_meta :: "dict \<Rightarrow> dict result" where
  "freeze_meta d = rbind (encode_shared_value (PMap d)) (\<lambda>v.
     case v of PMap e \<Rightarrow> freeze_wire_mapping e | _ \<Rightarrow> Inl TypeError)"

lemma wire_safe_encoded [simp]: "wire_safe (encoded v) \<longleftrightarrow> wire_safe v"
  by (induction v rule: encoded.induct) (auto simp: list_all_iff)

lemma frozen_encoded [simp]: "frozen (encoded v) = frozen v"
  by (induction v rule: encoded.induct) (auto simp: comp_def)

lemma freeze_meta_eq: "freeze_meta d = freeze_wire_mapping d"
  by (simp add: freeze_meta_def encode_shared_value_def freeze_wire_mapping_eq list_all_iff comp_def case_prod_unfold)

section \<open>Names\<close>

definition max_identifier :: nat where
  "max_identifier = 256"

definition max_items :: nat where
  "max_items = 128"

text \<open>\<open>dict.fromkeys\<close>: the first occurrences, in order.\<close>

definition fromkeys :: "string list \<Rightarrow> string list" where
  "fromkeys xs = rev (remdups (rev xs))"

definition normalized_names :: "string list \<Rightarrow> string list" where
  "normalized_names xs = fromkeys (map (\<lambda>x. py_lower (py_strip x)) (filter (\<lambda>x. py_strip x \<noteq> []) xs))"

definition names_fit :: "string list \<Rightarrow> bool" where
  "names_fit xs \<longleftrightarrow> length xs \<le> max_items \<and> list_all (\<lambda>x. length x \<le> max_identifier) xs"

definition normal_name :: "string \<Rightarrow> bool" where
  "normal_name x \<longleftrightarrow> x \<noteq> [] \<and> py_strip x = x \<and> py_lower x = x"

lemma fromkeys_facts [simp]: "set (fromkeys xs) = set xs" "distinct (fromkeys xs)"
  by (simp_all add: fromkeys_def)

lemma fromkeys_distinct: "distinct xs \<Longrightarrow> fromkeys xs = xs"
  by (simp add: fromkeys_def distinct_remdups_id)

lemma strip_lower_nil [simp]: "py_lower x = [] \<longleftrightarrow> x = []"
  by (simp add: py_lower_def)

lemma normal_lower_strip: "py_strip x \<noteq> [] \<Longrightarrow> normal_name (py_lower (py_strip x))"
  by (simp add: normal_name_def py_strip_lower)

lemma normalized_names_normal: "list_all normal_name (normalized_names xs)" "distinct (normalized_names xs)"
  by (auto simp: normalized_names_def list_all_iff normal_lower_strip)

lemma normalized_names_id: "list_all normal_name xs \<Longrightarrow> distinct xs \<Longrightarrow> normalized_names xs = xs"
proof -
  assume a: "list_all normal_name xs" "distinct xs"
  have "filter (\<lambda>x. py_strip x \<noteq> []) xs = xs" using a(1) by (auto simp: list_all_iff normal_name_def intro: filter_True)
  moreover have "map (\<lambda>x. py_lower (py_strip x)) xs = xs" using a(1) by (auto simp: list_all_iff normal_name_def intro: map_idI)
  ultimately show ?thesis by (simp add: normalized_names_def fromkeys_distinct[OF a(2)])
qed

lemma normalized_names_idem [simp]: "normalized_names (normalized_names xs) = normalized_names xs"
  by (rule normalized_names_id) (rule normalized_names_normal)+

section \<open>References to state\<close>

record state_ref =
  sr_provider :: string
  sr_id :: string
  sr_kind :: string
  sr_scope :: string
  sr_trajectory :: string
  sr_device :: string
  sr_version :: int
  sr_transport :: string
  sr_meta :: dict

definition freeze_json_mapping :: "dict \<Rightarrow> dict result" where
  "freeze_json_mapping d = (if list_all (\<lambda>(k, v). wire_safe v) d then Inr (map (\<lambda>(k, v). (k, frozen v)) d) else Inl TypeError)"

definition state_ref_post_init :: "state_ref \<Rightarrow> state_ref result" where
  "state_ref_post_init r =
     (let provider = py_strip (sr_provider r); i = py_strip (sr_id r);
          transport = py_lower (py_strip (or_default (sr_transport r) ''process'')) in
      rbind (guard (provider \<noteq> []) ValueError) (\<lambda>_.
      rbind (guard (i \<noteq> []) ValueError) (\<lambda>_.
      rbind (guard (transport \<in> {''process'', ''host'', ''cluster''}) ValueError) (\<lambda>_.
      rbind (guard (0 \<le> sr_version r) ValueError) (\<lambda>_.
      rbind (freeze_json_mapping (sr_meta r)) (\<lambda>m.
      Inr (r\<lparr>sr_provider := provider, sr_id := i, sr_kind := or_default (sr_kind r) ''opaque'',
        sr_device := or_default (sr_device r) ''cpu'', sr_transport := transport, sr_meta := m\<rparr>)))))))"

definition ref_process_local :: "state_ref \<Rightarrow> bool" where
  "ref_process_local r \<longleftrightarrow> sr_transport r = ''process''"

definition next_version :: "dict option \<Rightarrow> state_ref \<Rightarrow> state_ref result" where
  "next_version md r = state_ref_post_init (r\<lparr>sr_version := sr_version r + 1,
     sr_meta := (case md of None \<Rightarrow> sr_meta r | Some m \<Rightarrow> m)\<rparr>)"

definition state_ref_as_dict :: "state_ref \<Rightarrow> dict" where
  "state_ref_as_dict r = [(''protocol_type'', PStr ''blackbase.state_ref''), (''schema_version'', PInt 2),
     (''provider_id'', PStr (sr_provider r)), (''state_id'', PStr (sr_id r)), (''state_kind'', PStr (sr_kind r)),
     (''scope_id'', PStr (sr_scope r)), (''trajectory_id'', PStr (sr_trajectory r)), (''device'', PStr (sr_device r)),
     (''version'', PInt (sr_version r)), (''transport_scope'', PStr (sr_transport r)),
     (''metadata'', PMap (thaw_wire_mapping (sr_meta r)))]"

definition state_ref_from_dict :: "dict \<Rightarrow> state_ref result" where
  "state_ref_from_dict d =
     (let ptype = get_str_or d ''protocol_type'' in
      rbind (guard (ptype \<in> {[], ''blackbase.state_ref''}) ValueError) (\<lambda>_.
      rbind (py_int (py_or (dict_get d ''schema_version'' (PInt 2)) (PInt 0))) (\<lambda>schema.
      rbind (guard (schema \<in> {1, 2}) ValueError) (\<lambda>_.
      rbind (py_int (py_or (dict_get d ''version'' (PInt 0)) (PInt 0))) (\<lambda>version.
      rbind (get_dict d ''metadata'') (\<lambda>md.
      state_ref_post_init \<lparr>sr_provider = get_str d ''provider_id'', sr_id = get_str d ''state_id'',
        sr_kind = py_str (dict_get d ''state_kind'' (PStr ''opaque'')), sr_scope = get_str d ''scope_id'',
        sr_trajectory = get_str d ''trajectory_id'', sr_device = py_str (dict_get d ''device'' (PStr ''cpu'')),
        sr_version = version, sr_transport = py_str (dict_get d ''transport_scope'' (PStr ''process'')),
        sr_meta = md\<rparr>))))))"

text \<open>\<open>==\<close> on references: the mappings are compared as Python compares them.\<close>

definition ref_eq :: "state_ref \<Rightarrow> state_ref \<Rightarrow> bool" where
  "ref_eq a b \<longleftrightarrow> a\<lparr>sr_meta := []\<rparr> = b\<lparr>sr_meta := []\<rparr> \<and> py_eq (PMap (sr_meta a)) (PMap (sr_meta b))"

definition state_ref_wf :: "state_ref \<Rightarrow> bool" where
  "state_ref_wf r \<longleftrightarrow> sr_provider r \<noteq> [] \<and> py_strip (sr_provider r) = sr_provider r
     \<and> sr_id r \<noteq> [] \<and> py_strip (sr_id r) = sr_id r \<and> sr_kind r \<noteq> [] \<and> sr_device r \<noteq> []
     \<and> sr_transport r \<in> {''process'', ''host'', ''cluster''} \<and> 0 \<le> sr_version r \<and> frozen_dict (sr_meta r)"

lemma or_default_nil [simp]: "or_default s d = [] \<longleftrightarrow> s = [] \<and> d = []"
  by (simp add: or_default_def)

lemma freeze_json_eq: "freeze_json_mapping d = freeze_wire_mapping d"
  by (simp add: freeze_json_mapping_def freeze_wire_mapping_eq)

lemma transport_plain: "t \<in> {''process'', ''host'', ''cluster''} \<Longrightarrow> py_strip t = t \<and> py_lower t = t \<and> t \<noteq> []"
  by (elim insertE emptyE; simp; code_simp)

lemma state_ref_post_init_wf: "state_ref_post_init r = Inr r' \<Longrightarrow> state_ref_wf r'"
  by (auto simp: state_ref_post_init_def state_ref_wf_def Let_def rbind_Inr freeze_json_eq
      dest: freeze_wire_mapping_frozen)

lemma state_ref_post_init_id: "state_ref_wf r \<Longrightarrow> state_ref_post_init r = Inr r"
  using transport_plain[of "sr_transport r"]
  by (simp add: state_ref_post_init_def state_ref_wf_def Let_def freeze_json_eq or_default_def)

lemma next_version_wf: "state_ref_wf r \<Longrightarrow> next_version None r = Inr (r\<lparr>sr_version := sr_version r + 1\<rparr>)"
  unfolding next_version_def by (simp, rule state_ref_post_init_id) (simp add: state_ref_wf_def)

lemma state_ref_round_trip: "state_ref_wf r \<Longrightarrow> state_ref_from_dict (state_ref_as_dict r) = Inr r"
  using state_ref_post_init_id[of "r\<lparr>sr_meta := thaw_wire_mapping (sr_meta r)\<rparr>"] state_ref_post_init_id[of r]
    freeze_thaw_dict[of "sr_meta r"]
    transport_plain[of "sr_transport r"]
  by (auto simp: state_ref_from_dict_def state_ref_as_dict_def get_defs Let_def state_ref_post_init_def
      freeze_json_eq state_ref_wf_def)

end
