(* ===== verification/Provider_Spec.thy ===== *)
theory Provider_Spec
  imports Provider_Model
begin

text \<open>
  What providers declare (\<open>evaluation/model.py\<close>): transition methods and provider specifications,
  with their constructors, dictionaries and the round trips the registry relies on when it copies a
  specification, and the dictionaries of \<open>ResourceRequirement\<close> (\<open>resources/model.py\<close>).
\<close>

section \<open>Fields of dictionaries\<close>

text \<open>\<open>tuple(data.get(k, ()) or ())\<close> as names, \<open>bool(data.get(k, False))\<close>, an optional number.\<close>

definition names_of :: "pyval \<Rightarrow> string list result" where
  "names_of v = rbind (py_iter (py_or v (PTuple []))) (\<lambda>xs. Inr (map py_str xs))"

definition get_names :: "dict \<Rightarrow> string \<Rightarrow> string list result" where
  "get_names d k = names_of (dict_get d k (PTuple []))"

definition get_bool :: "dict \<Rightarrow> string \<Rightarrow> bool" where
  "get_bool d k = truthy (dict_get d k (PBool False))"

definition names_val :: "string list \<Rightarrow> pyval" where
  "names_val xs = PList (map PStr xs)"

definition opt_float :: "pyval \<Rightarrow> rat option result" where
  "opt_float v = (if v = PNone then Inr None else rbind (py_float v) (\<lambda>x. Inr (Some x)))"

definition float_val :: "rat option \<Rightarrow> pyval" where
  "float_val x = (case x of None \<Rightarrow> PNone | Some r \<Rightarrow> PNum r)"

lemma names_of_names [simp]: "names_of (names_val xs) = Inr xs"
  by (cases xs) (simp_all add: names_of_def names_val_def py_or_def comp_def)

lemma opt_float_val [simp]: "opt_float (float_val x) = Inr x"
  by (cases x) (simp_all add: opt_float_def float_val_def)

text \<open>Metadata of resource records, as JSON and as Python values.\<close>

fun json_val :: "json \<Rightarrow> pyval" where
  "json_val JNull = PNone"
| "json_val (JBool b) = PBool b"
| "json_val (JInt i) = PInt i"
| "json_val (JNum r) = PNum r"
| "json_val (JStr s) = PStr s"
| "json_val (JArr xs) = PList (map json_val xs)"
| "json_val (JObj d) = PMap (map (\<lambda>(k, v). (k, json_val v)) d)"

fun val_json :: "pyval \<Rightarrow> json" where
  "val_json (PBool b) = JBool b"
| "val_json (PInt i) = JInt i"
| "val_json (PNum r) = JNum r"
| "val_json (PStr s) = JStr s"
| "val_json (PList xs) = JArr (map val_json xs)"
| "val_json (PTuple xs) = JArr (map val_json xs)"
| "val_json (PMap d) = JObj (map (\<lambda>(k, v). (k, val_json v)) d)"
| "val_json v = JNull"

lemma val_json_val [simp]: "val_json (json_val j) = j"
  by (induction j rule: json_val.induct) (auto simp: comp_def intro!: map_idI)

section \<open>Requirements\<close>

definition requirement_as_dict :: "requirement \<Rightarrow> dict" where
  "requirement_as_dict r = [(''threads'', PInt (need_threads r)), (''gpus'', PInt (need_gpus r)),
     (''resource_backend'', PStr (need_backend r)), (''device_tokens'', names_val (need_device_tokens r)),
     (''memory_mb'', float_val (need_memory_mb r)), (''gpu_memory_mb'', float_val (need_gpu_memory_mb r)),
     (''capabilities'', names_val (need_capabilities r)), (''timeout_seconds'', float_val (need_timeout_seconds r)),
     (''metadata'', json_val (need_metadata r))]"

definition requirement_from_dict :: "dict \<Rightarrow> requirement result" where
  "requirement_from_dict d =
     rbind (get_int d ''threads'' 1) (\<lambda>threads.
     rbind (get_int d ''gpus'' 0) (\<lambda>gpus.
     rbind (get_names d ''device_tokens'') (\<lambda>tokens.
     rbind (opt_float (dict_get d ''memory_mb'' PNone)) (\<lambda>mem.
     rbind (opt_float (dict_get d ''gpu_memory_mb'' PNone)) (\<lambda>gmem.
     rbind (get_names d ''capabilities'') (\<lambda>caps.
     rbind (opt_float (dict_get d ''timeout_seconds'' PNone)) (\<lambda>timeout.
     rbind (get_dict d ''metadata'') (\<lambda>md.
     rbind (freeze_wire_mapping md) (\<lambda>fm.
     Inr (requirement_post_init \<lparr>need_threads = threads, need_gpus = gpus,
       need_backend = py_str (dict_get d ''resource_backend'' (dict_get d ''backend'' (PStr ''local''))),
       need_device_tokens = tokens, need_memory_mb = mem, need_gpu_memory_mb = gmem, need_capabilities = caps,
       need_timeout_seconds = timeout, need_metadata = val_json (PMap fm)\<rparr>))))))))))"

text \<open>What the constructor establishes.\<close>

definition json_object :: "json \<Rightarrow> bool" where
  "json_object j \<longleftrightarrow> (case j of JObj d \<Rightarrow> True | _ \<Rightarrow> False)"

definition requirement_wf :: "requirement \<Rightarrow> bool" where
  "requirement_wf r \<longleftrightarrow> requirement_post_init r = r \<and> json_object (need_metadata r)"

lemma json_safe [simp]: "wire_safe (json_val j)"
  by (induction j rule: json_val.induct) (auto simp: list_all_iff)

lemma val_json_frozen [simp]: "val_json (frozen v) = val_json v"
  by (induction v rule: frozen.induct) (auto simp: comp_def)

lemma as_float_idem [simp]: "as_float_or_none (as_float_or_none x) = as_float_or_none x"
  by (auto simp: as_float_or_none_def split: option.splits)

lemma requirement_post_init_idem [simp]: "requirement_post_init (requirement_post_init r) = requirement_post_init r"
  by (simp add: requirement_post_init_def)

lemma requirement_from_dict_wf: "requirement_from_dict d = Inr r \<Longrightarrow> requirement_wf r"
  by (auto simp: requirement_from_dict_def requirement_wf_def rbind_Inr json_object_def requirement_post_init_def)

lemma requirement_round_trip:
  assumes "requirement_wf r" shows "requirement_from_dict (requirement_as_dict r) = Inr r"
proof -
  obtain d where d: "need_metadata r = JObj d" using assms
    by (auto simp: requirement_wf_def json_object_def split: json.splits)
  have md: "freeze_wire_mapping (map (\<lambda>(k, v). (k, json_val v)) d)
      = Inr (map (\<lambda>(k, v). (k, frozen (json_val v))) d)"
    by (auto simp: freeze_wire_mapping_eq list_all_iff)
  have "need_threads (requirement_post_init r) = need_threads r" using assms by (simp add: requirement_wf_def)
  then have t: "need_threads r \<noteq> 0" by (simp add: requirement_post_init_def)
  have m: "map ((\<lambda>(k, v). (k, val_json v)) \<circ> (\<lambda>(k, v). (k, frozen (json_val v)))) d = d"
    by (rule map_idI) auto
  have "requirement_from_dict (requirement_as_dict r) = Inr (requirement_post_init (r\<lparr>need_metadata := JObj d\<rparr>))"
    using t d by (cases r) (simp add: requirement_from_dict_def requirement_as_dict_def get_names_def get_defs md m)
  moreover have "r\<lparr>need_metadata := JObj d\<rparr> = r" unfolding d[symmetric] by simp
  ultimately show ?thesis using assms by (simp add: requirement_wf_def)
qed

section \<open>Transition methods\<close>

type_synonym kind_map = "(string \<times> string list) list"

record method_spec =
  tm_id :: string
  tm_req_operands :: "string list"
  tm_opt_operands :: "string list"
  tm_req_params :: "string list"
  tm_opt_params :: "string list"
  tm_req_slots :: "string list"
  tm_opt_slots :: "string list"
  tm_result_slots :: "string list"
  tm_operand_kinds :: kind_map
  tm_inline :: "string list"
  tm_slot_kinds :: kind_map
  tm_result_kinds :: kind_map
  tm_more_operands :: bool
  tm_more_params :: bool
  tm_more_slots :: bool
  tm_meta :: dict

definition kinds_of :: "pyval \<Rightarrow> string list result" where
  "kinds_of v = (case v of PStr s \<Rightarrow> Inr [s] | _ \<Rightarrow> names_of v)"

fun kinds_loop :: "dict \<Rightarrow> kind_map \<Rightarrow> kind_map result" where
  "kinds_loop [] acc = Inr acc"
| "kinds_loop ((k, v) # d) acc =
     (let name = py_lower (py_strip k) in
      rbind (guard (name \<noteq> [] \<and> length name \<le> max_identifier) ValueError) (\<lambda>_.
      rbind (kinds_of v) (\<lambda>xs. let ks = normalized_names xs in
      rbind (guard (ks \<noteq> [] \<and> list_all (\<lambda>x. length x \<le> max_identifier) ks) ValueError) (\<lambda>_.
      kinds_loop d (AList.update name ks acc)))))"

definition normalized_kinds :: "dict \<Rightarrow> kind_map result" where
  "normalized_kinds d = rbind (kinds_loop d []) (\<lambda>m. rbind (guard (length m \<le> max_items) ValueError) (\<lambda>_. Inr m))"

definition disjoint_names :: "string list \<Rightarrow> string list \<Rightarrow> bool" where
  "disjoint_names xs ys \<longleftrightarrow> list_all (\<lambda>x. x \<notin> set ys) xs"

definition declared_only :: "bool \<Rightarrow> string list \<Rightarrow> string list \<Rightarrow> bool" where
  "declared_only extra actual declared \<longleftrightarrow> extra \<or> list_all (\<lambda>x. x \<in> set declared) actual"

text \<open>
  The constructor: the mappings of kinds are given as Python values, their fields in \<open>x\<close> are not
  looked at.
\<close>

definition method_post_init :: "dict \<Rightarrow> dict \<Rightarrow> dict \<Rightarrow> method_spec \<Rightarrow> method_spec result" where
  "method_post_init okinds skinds rkinds x =
     (let i = py_lower (py_strip (tm_id x));
          ro = normalized_names (tm_req_operands x); oo = normalized_names (tm_opt_operands x);
          rp = normalized_names (tm_req_params x); op = normalized_names (tm_opt_params x);
          rs = normalized_names (tm_req_slots x); os = normalized_names (tm_opt_slots x);
          res = normalized_names (tm_result_slots x); inline = normalized_names (tm_inline x) in
      rbind (guard (i \<noteq> [] \<and> length i \<le> max_identifier) ValueError) (\<lambda>_.
      rbind (guard (list_all names_fit [ro, oo, rp, op, rs, os, res]) ValueError) (\<lambda>_.
      rbind (guard (disjoint_names ro oo \<and> disjoint_names rp op \<and> disjoint_names rs os) ValueError) (\<lambda>_.
      rbind (normalized_kinds okinds) (\<lambda>ok.
      rbind (normalized_kinds skinds) (\<lambda>sk.
      rbind (normalized_kinds rkinds) (\<lambda>rk.
      rbind (guard (declared_only (tm_more_operands x) (map fst ok) (ro @ oo)
          \<and> declared_only (tm_more_operands x) inline (ro @ oo)
          \<and> declared_only (tm_more_slots x) (map fst sk) (rs @ os) \<and> declared_only False (map fst rk) res) ValueError) (\<lambda>_.
      rbind (freeze_meta (tm_meta x)) (\<lambda>md.
      Inr (x\<lparr>tm_id := i, tm_req_operands := ro, tm_opt_operands := oo, tm_req_params := rp, tm_opt_params := op,
        tm_req_slots := rs, tm_opt_slots := os, tm_result_slots := res, tm_operand_kinds := ok, tm_inline := inline,
        tm_slot_kinds := sk, tm_result_kinds := rk, tm_meta := md\<rparr>))))))))))"

definition kinds_val :: "kind_map \<Rightarrow> dict" where
  "kinds_val m = map (\<lambda>(k, xs). (k, names_val xs)) m"

definition method_as_dict :: "method_spec \<Rightarrow> dict" where
  "method_as_dict x = [(''method_id'', PStr (tm_id x)),
     (''required_operands'', names_val (tm_req_operands x)), (''optional_operands'', names_val (tm_opt_operands x)),
     (''required_parameters'', names_val (tm_req_params x)), (''optional_parameters'', names_val (tm_opt_params x)),
     (''required_slots'', names_val (tm_req_slots x)), (''optional_slots'', names_val (tm_opt_slots x)),
     (''result_slots'', names_val (tm_result_slots x)), (''operand_state_kinds'', PMap (kinds_val (tm_operand_kinds x))),
     (''inline_operands'', names_val (tm_inline x)), (''slot_state_kinds'', PMap (kinds_val (tm_slot_kinds x))),
     (''result_slot_state_kinds'', PMap (kinds_val (tm_result_kinds x))),
     (''allow_additional_operands'', PBool (tm_more_operands x)), (''allow_additional_parameters'', PBool (tm_more_params x)),
     (''allow_additional_slots'', PBool (tm_more_slots x)), (''metadata'', PMap (thaw_wire_mapping (tm_meta x)))]"

text \<open>\<open>from_value\<close>: a specification stays, a name is permissive, a mapping is read.\<close>

datatype method_arg = Method_Spec method_spec | Method_Value pyval

definition method_from_value :: "method_arg \<Rightarrow> method_spec result" where
  "method_from_value a = (case a of
     Method_Spec x \<Rightarrow> Inr x
   | Method_Value (PStr s) \<Rightarrow> method_post_init [] [] []
       \<lparr>tm_id = s, tm_req_operands = [], tm_opt_operands = [], tm_req_params = [], tm_opt_params = [], tm_req_slots = [],
        tm_opt_slots = [], tm_result_slots = [], tm_operand_kinds = [], tm_inline = [], tm_slot_kinds = [],
        tm_result_kinds = [], tm_more_operands = True, tm_more_params = True, tm_more_slots = True, tm_meta = []\<rparr>
   | Method_Value (PMap d) \<Rightarrow>
       rbind (get_names d ''required_operands'') (\<lambda>ro.
       rbind (get_names d ''optional_operands'') (\<lambda>oo.
       rbind (get_names d ''required_parameters'') (\<lambda>rp.
       rbind (get_names d ''optional_parameters'') (\<lambda>op.
       rbind (get_names d ''required_slots'') (\<lambda>rs.
       rbind (get_names d ''optional_slots'') (\<lambda>os.
       rbind (get_names d ''result_slots'') (\<lambda>res.
       rbind (get_dict d ''operand_state_kinds'') (\<lambda>ok.
       rbind (get_names d ''inline_operands'') (\<lambda>inline.
       rbind (get_dict d ''slot_state_kinds'') (\<lambda>sk.
       rbind (get_dict d ''result_slot_state_kinds'') (\<lambda>rk.
       rbind (get_dict d ''metadata'') (\<lambda>md.
       method_post_init ok sk rk
        \<lparr>tm_id = py_str (dict_get d ''method_id'' (dict_get d ''name'' (PStr []))),
         tm_req_operands = ro, tm_opt_operands = oo, tm_req_params = rp, tm_opt_params = op, tm_req_slots = rs,
         tm_opt_slots = os, tm_result_slots = res, tm_operand_kinds = [], tm_inline = inline, tm_slot_kinds = [],
         tm_result_kinds = [], tm_more_operands = get_bool d ''allow_additional_operands'',
         tm_more_params = get_bool d ''allow_additional_parameters'', tm_more_slots = get_bool d ''allow_additional_slots'',
         tm_meta = md\<rparr>))))))))))))
   | Method_Value _ \<Rightarrow> Inl TypeError)"

text \<open>What the constructor establishes, and that reading the dictionary gives the specification back.\<close>

definition names_ok :: "string list \<Rightarrow> bool" where
  "names_ok xs \<longleftrightarrow> list_all normal_name xs \<and> distinct xs"

definition kinds_ok :: "kind_map \<Rightarrow> bool" where
  "kinds_ok m \<longleftrightarrow> distinct (map fst m) \<and> length m \<le> max_items
     \<and> (\<forall>(k, xs)\<in>set m. normal_name k \<and> length k \<le> max_identifier \<and> xs \<noteq> [] \<and> names_ok xs
         \<and> list_all (\<lambda>x. length x \<le> max_identifier) xs)"

definition method_wf :: "method_spec \<Rightarrow> bool" where
  "method_wf x \<longleftrightarrow> normal_name (tm_id x) \<and> length (tm_id x) \<le> max_identifier
     \<and> list_all (\<lambda>xs. names_ok xs \<and> names_fit xs) [tm_req_operands x, tm_opt_operands x, tm_req_params x,
         tm_opt_params x, tm_req_slots x, tm_opt_slots x, tm_result_slots x] \<and> names_ok (tm_inline x)
     \<and> disjoint_names (tm_req_operands x) (tm_opt_operands x) \<and> disjoint_names (tm_req_params x) (tm_opt_params x)
     \<and> disjoint_names (tm_req_slots x) (tm_opt_slots x)
     \<and> kinds_ok (tm_operand_kinds x) \<and> kinds_ok (tm_slot_kinds x) \<and> kinds_ok (tm_result_kinds x)
     \<and> declared_only (tm_more_operands x) (map fst (tm_operand_kinds x)) (tm_req_operands x @ tm_opt_operands x)
     \<and> declared_only (tm_more_operands x) (tm_inline x) (tm_req_operands x @ tm_opt_operands x)
     \<and> declared_only (tm_more_slots x) (map fst (tm_slot_kinds x)) (tm_req_slots x @ tm_opt_slots x)
     \<and> declared_only False (map fst (tm_result_kinds x)) (tm_result_slots x) \<and> frozen_dict (tm_meta x)"

lemma names_ok_normalized [simp]: "names_ok (normalized_names xs)"
  by (simp add: names_ok_def normalized_names_normal)

lemma normalized_names_ok: "names_ok xs \<Longrightarrow> normalized_names xs = xs"
  by (simp add: names_ok_def normalized_names_id)

lemma kinds_of_names [simp]: "kinds_of (names_val xs) = Inr xs"
  unfolding kinds_of_def using names_of_names[of xs] by (simp add: names_val_def)

lemma kinds_update: "distinct (map fst m) \<Longrightarrow> (k, ks) \<in> set (AList.update n xs m) \<Longrightarrow> (k, ks) = (n, xs) \<or> (k, ks) \<in> set m"
  by (auto simp: set_AList_update)

definition kind_entry :: "string \<times> string list \<Rightarrow> bool" where
  "kind_entry p \<longleftrightarrow> normal_name (fst p) \<and> length (fst p) \<le> max_identifier \<and> snd p \<noteq> [] \<and> names_ok (snd p)
     \<and> list_all (\<lambda>x. length x \<le> max_identifier) (snd p)"

lemma kinds_ok_iff: "kinds_ok m \<longleftrightarrow> distinct (map fst m) \<and> length m \<le> max_items \<and> (\<forall>p\<in>set m. kind_entry p)"
  by (auto simp: kinds_ok_def kind_entry_def)

lemma kinds_loop_ok:
  "kinds_loop d acc = Inr m \<Longrightarrow> distinct (map fst acc) \<and> (\<forall>p\<in>set acc. kind_entry p)
    \<Longrightarrow> distinct (map fst m) \<and> (\<forall>p\<in>set m. kind_entry p)"
proof (induction d arbitrary: acc m)
  case (Cons p d)
  obtain k v where p: "p = (k, v)" by fastforce
  let ?n = "py_lower (py_strip k)"
  from Cons.prems(1) obtain xs where xs: "?n \<noteq> []" "length ?n \<le> max_identifier" "normalized_names xs \<noteq> []"
      "list_all (\<lambda>x. length x \<le> max_identifier) (normalized_names xs)"
      and m: "kinds_loop d (AList.update ?n (normalized_names xs) acc) = Inr m"
    by (auto simp: p Let_def rbind_Inr)
  have e: "kind_entry (?n, normalized_names xs)" using xs normal_lower_strip[of k] by (simp add: kind_entry_def)
  show ?case
    using Cons.prems(2) e set_AList_update_subset[of ?n "normalized_names xs" acc]
    by (intro Cons.IH[OF m]) (auto simp: distinct_update)
qed simp

lemma normalized_kinds_ok: "normalized_kinds d = Inr m \<Longrightarrow> kinds_ok m"
  using kinds_loop_ok[of d "[]"] by (auto simp: normalized_kinds_def kinds_ok_iff rbind_Inr)

lemma kinds_loop_id:
  "\<forall>p\<in>set m. kind_entry p \<Longrightarrow> distinct (map fst (acc @ m)) \<Longrightarrow> kinds_loop (kinds_val m) acc = Inr (acc @ m)"
proof (induction m arbitrary: acc)
  case (Cons p m)
  obtain k xs where p: "p = (k, xs)" by fastforce
  have e: "py_lower (py_strip k) = k" "k \<noteq> []" "length k \<le> max_identifier" "normalized_names xs = xs" "xs \<noteq> []"
      "list_all (\<lambda>x. length x \<le> max_identifier) xs"
    using Cons.prems(1) by (auto simp: p kind_entry_def normal_name_def normalized_names_ok)
  have "AList.update k xs acc = acc @ [(k, xs)]" using Cons.prems(2) p by (intro update_new) auto
  then show ?case using Cons.IH[of "acc @ [(k, xs)]"] Cons.prems e p by (simp add: kinds_val_def Let_def)
qed (simp add: kinds_val_def)

lemma normalized_kinds_id: "kinds_ok m \<Longrightarrow> normalized_kinds (kinds_val m) = Inr m"
  by (simp add: normalized_kinds_def kinds_ok_iff kinds_loop_id)

lemma method_post_init_wf: "method_post_init da db dc x = Inr y \<Longrightarrow> method_wf y"
  by (auto simp: method_post_init_def method_wf_def Let_def rbind_Inr freeze_meta_eq normal_lower_strip
      dest: normalized_kinds_ok freeze_wire_mapping_frozen)

lemma method_round_trip: "method_wf x \<Longrightarrow> method_from_value (Method_Value (PMap (method_as_dict x))) = Inr x"
  by (cases x) (simp add: method_wf_def method_from_value_def method_as_dict_def method_post_init_def get_names_def
      get_defs get_bool_def Let_def normalized_names_ok normalized_kinds_id freeze_meta_eq normal_name_def)

section \<open>Providers\<close>

record provider_spec =
  sp_id :: string
  sp_problems :: "string list"
  sp_capabilities :: "string list"
  sp_requirement :: requirement
  sp_supported :: "string list"
  sp_preferred :: "string list"
  sp_backend :: string
  sp_modes :: "string list"
  sp_priority :: int
  sp_kinds :: "string list"
  sp_targets :: "string list"
  sp_methods :: "method_spec list"
  sp_meta :: dict

text \<open>\<open>_device_family\<close> of the evaluation layer; that of the resource model also knows names that contain \<open>gpu\<close>.\<close>

definition provider_family :: "string \<Rightarrow> string" where
  "provider_family value = (let n = py_lower (py_strip (or_default value ''cpu'')) in
     if starts_with ''cuda'' n \<or> starts_with ''gpu'' n then ''gpu''
     else if starts_with ''mps'' n then ''mps'' else if starts_with ''cpu'' n then ''cpu'' else n)"

definition preference_supported :: "string \<Rightarrow> string list \<Rightarrow> bool" where
  "preference_supported preferred supported =
     (let p = py_lower (py_strip preferred) in list_ex (\<lambda>s. let n = py_lower (py_strip s) in
        p = n \<or> (CHR '':'' \<notin> set n \<and> provider_family p = provider_family n)) supported)"

definition evaluation_modes :: "string list" where
  "evaluation_modes = [''evaluate'', ''train'', ''validate'', ''predict'', ''sample'']"

definition materialization_targets :: "string list" where
  "materialization_targets = [''unknown_state'', ''data_ref'']"

definition spec_post_init :: "method_arg list \<Rightarrow> provider_spec \<Rightarrow> provider_spec result" where
  "spec_post_init methods x =
     (let i = py_strip (sp_id x);
          supported = normalized_names (if sp_supported x = [] then [''cpu''] else sp_supported x);
          preferred = normalized_names (if sp_preferred x = [] then supported else sp_preferred x);
          modes = normalized_names (if sp_modes x = [] then [''evaluate''] else sp_modes x);
          problems = normalized_names (sp_problems x); caps = normalized_names (sp_capabilities x);
          kinds = normalized_names (sp_kinds x); targets = normalized_names (sp_targets x) in
      rbind (guard (i \<noteq> [] \<and> length i \<le> max_identifier) ValueError) (\<lambda>_.
      rbind (requirement_from_dict (requirement_as_dict (sp_requirement x))) (\<lambda>req.
      rbind (guard (names_fit supported \<and> names_fit preferred) ValueError) (\<lambda>_.
      rbind (guard (list_all (\<lambda>p. preference_supported p supported) preferred) ValueError) (\<lambda>_.
      rbind (guard (list_all (\<lambda>m. m \<in> set evaluation_modes) modes) ValueError) (\<lambda>_.
      rbind (guard (0 < need_gpus req \<longrightarrow> list_ex (\<lambda>d. provider_family d \<in> {''gpu'', ''mps''}) supported) ValueError) (\<lambda>_.
      rbind (guard (list_all names_fit [problems, caps, kinds, targets]) ValueError) (\<lambda>_.
      rbind (guard (list_all (\<lambda>t. t \<in> set materialization_targets) targets) ValueError) (\<lambda>_.
      rbind (map_result method_from_value methods) (\<lambda>ms.
      rbind (guard (length ms \<le> max_items \<and> distinct (map tm_id ms)) ValueError) (\<lambda>_.
      rbind (freeze_meta (sp_meta x)) (\<lambda>md.
      Inr (x\<lparr>sp_id := i, sp_problems := problems, sp_capabilities := caps, sp_requirement := req, sp_supported := supported,
        sp_preferred := preferred, sp_backend := or_default (sp_backend x) ''generic'', sp_modes := modes, sp_kinds := kinds,
        sp_targets := targets, sp_methods := ms, sp_meta := md\<rparr>)))))))))))))"

definition transition_method :: "provider_spec \<Rightarrow> string \<Rightarrow> method_spec option" where
  "transition_method x method_id = find (\<lambda>m. tm_id m = py_lower (py_strip method_id)) (sp_methods x)"

definition spec_as_dict :: "provider_spec \<Rightarrow> dict" where
  "spec_as_dict x = [(''protocol_type'', PStr ''blackbase.evaluation_provider_spec''), (''schema_version'', PInt 1),
     (''provider_id'', PStr (sp_id x)), (''problem_ids'', names_val (sp_problems x)),
     (''capabilities'', names_val (sp_capabilities x)), (''resource_requirement'', PMap (requirement_as_dict (sp_requirement x))),
     (''supported_devices'', names_val (sp_supported x)), (''preferred_devices'', names_val (sp_preferred x)),
     (''compute_backend'', PStr (sp_backend x)), (''modes'', names_val (sp_modes x)), (''priority'', PInt (sp_priority x)),
     (''state_kinds'', names_val (sp_kinds x)), (''materialization_targets'', names_val (sp_targets x)),
     (''transition_methods'', PList (map (\<lambda>m. PMap (method_as_dict m)) (sp_methods x))),
     (''metadata'', PMap (thaw_wire_mapping (sp_meta x)))]"

text \<open>\<open>_validate_payload\<close>.\<close>

definition validate_payload :: "dict \<Rightarrow> string \<Rightarrow> unit result" where
  "validate_payload d type_name =
     (let ptype = get_str_or d ''protocol_type'' in
      rbind (guard (ptype = [] \<or> ptype = ''blackbase.'' @ type_name) ValueError) (\<lambda>_.
      rbind (py_int (py_or (dict_get d ''schema_version'' (PInt 1)) (PInt 0))) (\<lambda>schema.
      guard (schema = 1) ValueError)))"

definition any_requirement :: requirement where
  "any_requirement = \<lparr>need_threads = 1, need_gpus = 0, need_backend = ''any'', need_device_tokens = [], need_memory_mb = None,
     need_gpu_memory_mb = None, need_capabilities = [], need_timeout_seconds = None, need_metadata = JObj []\<rparr>"

definition spec_from_dict :: "dict \<Rightarrow> provider_spec result" where
  "spec_from_dict d =
     rbind (validate_payload d ''evaluation_provider_spec'') (\<lambda>_.
     rbind (get_names d ''problem_ids'') (\<lambda>problems.
     rbind (get_names d ''capabilities'') (\<lambda>caps.
     rbind (case dict_get d ''resource_requirement'' PNone of PNone \<Rightarrow> Inr any_requirement
       | v \<Rightarrow> rbind (py_dict v) requirement_from_dict) (\<lambda>req.
     rbind (names_of (dict_get d ''supported_devices'' (PTuple [PStr ''cpu'']))) (\<lambda>supported.
     rbind (get_names d ''preferred_devices'') (\<lambda>preferred.
     rbind (names_of (dict_get d ''modes'' (PTuple [PStr ''evaluate'']))) (\<lambda>modes.
     rbind (get_int d ''priority'' 0) (\<lambda>priority.
     rbind (get_names d ''state_kinds'') (\<lambda>kinds.
     rbind (get_names d ''materialization_targets'') (\<lambda>targets.
     rbind (py_iter (py_or (dict_get d ''transition_methods'' (PTuple [])) (PTuple []))) (\<lambda>ms.
     rbind (get_dict d ''metadata'') (\<lambda>md.
     spec_post_init (map Method_Value ms) \<lparr>sp_id = get_str d ''provider_id'', sp_problems = problems, sp_capabilities = caps,
       sp_requirement = req, sp_supported = supported, sp_preferred = preferred,
       sp_backend = py_str (dict_get d ''compute_backend'' (PStr ''generic'')), sp_modes = modes, sp_priority = priority,
       sp_kinds = kinds, sp_targets = targets, sp_methods = [], sp_meta = md\<rparr>))))))))))))"

definition spec_wf :: "provider_spec \<Rightarrow> bool" where
  "spec_wf x \<longleftrightarrow> sp_id x \<noteq> [] \<and> py_strip (sp_id x) = sp_id x \<and> length (sp_id x) \<le> max_identifier
     \<and> requirement_wf (sp_requirement x)
     \<and> list_all names_ok [sp_supported x, sp_preferred x, sp_modes x, sp_problems x, sp_capabilities x, sp_kinds x, sp_targets x]
     \<and> sp_supported x \<noteq> [] \<and> sp_preferred x \<noteq> [] \<and> sp_modes x \<noteq> [] \<and> names_fit (sp_supported x) \<and> names_fit (sp_preferred x)
     \<and> list_all (\<lambda>p. preference_supported p (sp_supported x)) (sp_preferred x)
     \<and> list_all (\<lambda>m. m \<in> set evaluation_modes) (sp_modes x)
     \<and> (0 < need_gpus (sp_requirement x) \<longrightarrow> list_ex (\<lambda>d. provider_family d \<in> {''gpu'', ''mps''}) (sp_supported x))
     \<and> list_all names_fit [sp_problems x, sp_capabilities x, sp_kinds x, sp_targets x]
     \<and> list_all (\<lambda>t. t \<in> set materialization_targets) (sp_targets x)
     \<and> sp_backend x \<noteq> [] \<and> list_all method_wf (sp_methods x) \<and> length (sp_methods x) \<le> max_items
     \<and> distinct (map tm_id (sp_methods x)) \<and> frozen_dict (sp_meta x)"

lemma methods_round_trip: "list_all method_wf ms \<Longrightarrow>
    map_result method_from_value (map (\<lambda>m. Method_Value (PMap (method_as_dict m))) ms) = Inr ms"
  by (induction ms) (simp_all add: method_round_trip)

lemma get_names_val: "map_of d k = Some (names_val xs) \<Longrightarrow> get_names d k = Inr xs"
  by (simp add: get_names_def dict_get_def)

lemma spec_round_trip:
  assumes "spec_wf x" shows "spec_from_dict (spec_as_dict x) = Inr x"
proof -
  have ms: "py_iter (py_or (PList (map (\<lambda>m. PMap (method_as_dict m)) (sp_methods x))) (PTuple []))
      = Inr (map (\<lambda>m. PMap (method_as_dict m)) (sp_methods x))"
    by (cases "sp_methods x") (simp_all add: py_or_def)
  show ?thesis using assms ms
    by (cases x) (simp add: spec_wf_def spec_from_dict_def spec_as_dict_def spec_post_init_def validate_payload_def get_names_def
        get_defs Let_def requirement_round_trip methods_round_trip comp_def freeze_meta_eq normalized_names_ok)
qed

text \<open>
  What the constructor establishes. Device and mode names that are blank throughout leave an empty
  tuple, which the copy made at registration would replace by the default.
\<close>

lemma method_from_value_wf:
  "method_from_value a = Inr m \<Longrightarrow> (\<And>x. a = Method_Spec x \<Longrightarrow> method_wf x) \<Longrightarrow> method_wf m"
  by (auto simp: method_from_value_def rbind_Inr dest: method_post_init_wf split: method_arg.splits pyval.splits)

lemma spec_post_init_wf:
  assumes "spec_post_init methods x = Inr y" "\<And>m. Method_Spec m \<in> set methods \<Longrightarrow> method_wf m"
    and "sp_supported y \<noteq> []" "sp_preferred y \<noteq> []" "sp_modes y \<noteq> []"
  shows "spec_wf y"
proof -
  have "list_all method_wf ms" if "map_result method_from_value methods = Inr ms" for ms
    using that assms(2) unfolding map_result_Inr
    by (auto simp: list_all_iff in_set_conv_nth list_all2_conv_all_nth intro: method_from_value_wf)
      (metis method_from_value_wf nth_mem)
  then show ?thesis using assms(1,3-) unfolding spec_post_init_def spec_wf_def
    by (auto simp: Let_def rbind_Inr freeze_meta_eq dest: requirement_from_dict_wf freeze_wire_mapping_frozen)
qed

end
