(* ===== verification/Provider_Request.thy ===== *)
theory Provider_Request
  imports Provider_Spec
begin

text \<open>
  What passes between callers and providers: evaluation requests, bindings and results
  (\<open>evaluation/model.py\<close>), and transitions, materialisations and releases of state
  (\<open>evaluation/state_transition.py\<close>), each with the checks of its constructor. Feedback, arrays and
  data references are opaque, by their wire form.
\<close>

section \<open>Evaluation requests\<close>

record capability =
  cap_name :: string
  cap_policy :: string
  cap_meta :: dict

datatype capability_arg = Cap capability | Cap_Value pyval

definition capability_post_init :: "capability \<Rightarrow> capability result" where
  "capability_post_init c =
     (let name = py_lower (py_strip (cap_name c)); policy = py_lower (py_strip (or_default (cap_policy c) ''required'')) in
      rbind (guard (name \<noteq> [] \<and> length name \<le> max_identifier) ValueError) (\<lambda>_.
      rbind (guard (policy \<in> {''required'', ''preferred'', ''optional''}) ValueError) (\<lambda>_.
      rbind (freeze_meta (cap_meta c)) (\<lambda>md. Inr \<lparr>cap_name = name, cap_policy = policy, cap_meta = md\<rparr>))))"

definition capability_from_value :: "capability_arg \<Rightarrow> capability result" where
  "capability_from_value a = (case a of
     Cap c \<Rightarrow> Inr c
   | Cap_Value (PStr s) \<Rightarrow> capability_post_init \<lparr>cap_name = s, cap_policy = ''required'', cap_meta = []\<rparr>
   | Cap_Value (PMap d) \<Rightarrow> rbind (get_dict d ''metadata'') (\<lambda>md.
       capability_post_init \<lparr>cap_name = get_str d ''name'', cap_policy = py_str (dict_get d ''policy'' (PStr ''required'')), cap_meta = md\<rparr>)
   | Cap_Value _ \<Rightarrow> Inl TypeError)"

datatype eval_state = Live_State state_ref | Data_State string | Inline_State pyval

record eval_request =
  rq_id :: string
  rq_problem :: string
  rq_states :: "eval_state list"
  rq_mode :: string
  rq_caps :: "capability list"
  rq_payload :: dict
  rq_meta :: dict

definition eval_request_post_init :: "capability_arg list \<Rightarrow> eval_request \<Rightarrow> eval_request result" where
  "eval_request_post_init caps q =
     (let problem = py_strip (rq_problem q); i = py_strip (rq_id q); mode = py_lower (py_strip (or_default (rq_mode q) ''evaluate'')) in
      rbind (guard (problem \<noteq> [] \<and> i \<noteq> [] \<and> length problem \<le> max_identifier \<and> length i \<le> max_identifier) ValueError) (\<lambda>_.
      rbind (guard (mode \<in> set evaluation_modes) ValueError) (\<lambda>_.
      rbind (guard (rq_states q \<noteq> []) ValueError) (\<lambda>_.
      rbind (map_result capability_from_value caps) (\<lambda>cs.
      rbind (guard (length cs \<le> max_items \<and> distinct (map cap_name cs)) ValueError) (\<lambda>_.
      rbind (freeze_meta (rq_payload q)) (\<lambda>pl.
      rbind (freeze_meta (rq_meta q)) (\<lambda>md.
      Inr (q\<lparr>rq_id := i, rq_problem := problem, rq_mode := mode, rq_caps := cs, rq_payload := pl, rq_meta := md\<rparr>)))))))))"

definition required_capabilities :: "eval_request \<Rightarrow> string list" where
  "required_capabilities q = map cap_name (filter (\<lambda>c. cap_policy c = ''required'') (rq_caps q))"

definition preferred_capabilities :: "eval_request \<Rightarrow> string list" where
  "preferred_capabilities q = map cap_name (filter (\<lambda>c. cap_policy c = ''preferred'') (rq_caps q))"

section \<open>Bindings\<close>

text \<open>
  The copy of a context through its dictionary: a device \<open>auto\<close> becomes the first token of the grant
  or the cpu.
\<close>

definition context_copy :: "resource_context \<Rightarrow> resource_context" where
  "context_copy x = (let tokens = list_or (g_device_tokens (ctx_grant x)); d = py_strip (ctx_device x) in
     context_post_init (x\<lparr>ctx_device := (if py_lower d \<in> {[], ''auto'', ''none''}
       then (case tokens of [] \<Rightarrow> ''cpu'' | t # ts \<Rightarrow> t) else d)\<rparr>))"

record eval_binding =
  eb_id :: string
  eb_request :: string
  eb_provider :: string
  eb_context :: resource_context
  eb_device :: string
  eb_backend :: string
  eb_digest :: string
  eb_matched :: "string list"
  eb_missing :: "string list"
  eb_degraded :: bool
  eb_audit :: dict

definition hex_text :: "string \<Rightarrow> bool" where
  "hex_text s \<longleftrightarrow> length s = 64 \<and> list_all (\<lambda>ch. ch \<in> set ''0123456789abcdef'') s"

definition binding_post_init :: "eval_binding \<Rightarrow> eval_binding result" where
  "binding_post_init b =
     (let digest = py_lower (py_strip (eb_digest b)) in
      rbind (guard (py_strip (eb_request b) \<noteq> [] \<and> py_strip (eb_provider b) \<noteq> [] \<and> py_strip (eb_id b) \<noteq> []) ValueError) (\<lambda>_.
      rbind (guard (digest = [] \<or> hex_text digest) ValueError) (\<lambda>_.
      rbind (freeze_meta (eb_audit b)) (\<lambda>au.
      Inr (b\<lparr>eb_context := context_copy (eb_context b), eb_device := or_default (eb_device b) ''cpu'',
        eb_backend := or_default (eb_backend b) ''generic'', eb_digest := digest,
        eb_matched := normalized_names (eb_matched b), eb_missing := normalized_names (eb_missing b), eb_audit := au\<rparr>)))))"

definition binding_eq :: "eval_binding \<Rightarrow> eval_binding \<Rightarrow> bool" where
  "binding_eq a b \<longleftrightarrow> a\<lparr>eb_audit := []\<rparr> = b\<lparr>eb_audit := []\<rparr> \<and> py_eq (PMap (eb_audit a)) (PMap (eb_audit b))"

section \<open>Evaluation results\<close>

record eval_result =
  er_request :: string
  er_feedback :: "string list"
  er_states :: "eval_state option list"
  er_binding :: "eval_binding option"
  er_meta :: dict

definition own_binding :: "string \<Rightarrow> eval_binding option \<Rightarrow> bool" where
  "own_binding i b \<longleftrightarrow> (case b of None \<Rightarrow> True | Some x \<Rightarrow> eb_request x = i)"

definition eval_result_post_init :: "eval_result \<Rightarrow> eval_result result" where
  "eval_result_post_init r = (let i = py_strip (er_request r) in
     rbind (guard (i \<noteq> [] \<and> er_feedback r \<noteq> []) ValueError) (\<lambda>_.
     rbind (guard (er_states r = [] \<or> length (er_states r) = length (er_feedback r)) ValueError) (\<lambda>_.
     rbind (guard (own_binding i (er_binding r)) ValueError) (\<lambda>_.
     rbind (freeze_meta (er_meta r)) (\<lambda>md. Inr (r\<lparr>er_request := i, er_meta := md\<rparr>))))))"

definition eval_result_with_binding :: "eval_binding \<Rightarrow> eval_result \<Rightarrow> eval_result result" where
  "eval_result_with_binding b r = rbind (guard (eb_request b = er_request r) ValueError) (\<lambda>_.
     eval_result_post_init (r\<lparr>er_binding := Some b\<rparr>))"

section \<open>State transitions\<close>

text \<open>Operands: references, scalars, data by its wire form, mappings, tuples and lists, other objects.\<close>

datatype operand =
    Op_Ref state_ref
  | Op_Scalar pyval
  | Op_Data string
  | Op_Map "(string \<times> operand) list"
  | Op_Tuple "operand list"
  | Op_List "operand list"
  | Op_Object string

lemma map_result_cong [fundef_cong]:
  "xs = ys \<Longrightarrow> (\<And>x. x \<in> set ys \<Longrightarrow> f x = g x) \<Longrightarrow> map_result f xs = map_result g ys"
  by (induction xs arbitrary: ys) auto

fun freeze_operand :: "operand \<Rightarrow> operand result" where
  "freeze_operand (Op_Map d) = rbind (map_result (\<lambda>(k, v). rbind (freeze_operand v) (\<lambda>w. Inr (k, w))) d) (\<lambda>e. Inr (Op_Map e))"
| "freeze_operand (Op_Tuple xs) = rbind (map_result freeze_operand xs) (\<lambda>ys. Inr (Op_Tuple ys))"
| "freeze_operand (Op_List xs) = rbind (map_result freeze_operand xs) (\<lambda>ys. Inr (Op_Tuple ys))"
| "freeze_operand (Op_Object c) = Inl TypeError"
| "freeze_operand v = Inr v"

fun iter_state_refs :: "operand \<Rightarrow> state_ref list" where
  "iter_state_refs (Op_Ref r) = [r]"
| "iter_state_refs (Op_Map d) = concat (map (\<lambda>(k, v). iter_state_refs v) d)"
| "iter_state_refs (Op_Tuple xs) = concat (map iter_state_refs xs)"
| "iter_state_refs v = []"

fun iter_nested_state_refs :: "operand \<Rightarrow> state_ref list" where
  "iter_nested_state_refs (Op_Ref r) = [r]"
| "iter_nested_state_refs (Op_Map d) = concat (map (\<lambda>(k, v). iter_nested_state_refs v) d)"
| "iter_nested_state_refs (Op_Tuple xs) = concat (map iter_nested_state_refs xs)"
| "iter_nested_state_refs (Op_List xs) = concat (map iter_nested_state_refs xs)"
| "iter_nested_state_refs v = []"

definition validated_key :: "string \<Rightarrow> string result" where
  "validated_key k = (let n = py_lower (py_strip k) in
     rbind (guard (n \<noteq> [] \<and> length n \<le> max_identifier) ValueError) (\<lambda>_. Inr n))"

text \<open>A mapping with normalised keys, no two of which may fall together.\<close>

fun named_loop :: "('a \<Rightarrow> 'b result) \<Rightarrow> (string \<times> 'a) list \<Rightarrow> (string \<times> 'b) list \<Rightarrow> (string \<times> 'b) list result" where
  "named_loop f [] acc = Inr acc"
| "named_loop f ((k, v) # d) acc =
     rbind (validated_key k) (\<lambda>n.
     rbind (guard (n \<notin> fst ` set acc) ValueError) (\<lambda>_.
     rbind (f v) (\<lambda>w. named_loop f d (acc @ [(n, w)]))))"

definition local_ref_compatible :: "state_ref \<Rightarrow> state_ref \<Rightarrow> bool" where
  "local_ref_compatible a b \<longleftrightarrow> sr_scope b = sr_scope a \<and> sr_trajectory b = sr_trajectory a
     \<and> sr_device b = sr_device a \<and> sr_transport b = sr_transport a"

definition fellow_ref :: "state_ref \<Rightarrow> state_ref \<Rightarrow> state_ref result" where
  "fellow_ref a b = rbind (guard (sr_provider b = sr_provider a \<and> local_ref_compatible a b) ValueError) (\<lambda>_. Inr b)"

record transition_request =
  tq_id :: string
  tq_ref :: state_ref
  tq_method :: string
  tq_operands :: "(string \<times> operand) list"
  tq_slots :: "(string \<times> state_ref) list"
  tq_params :: dict
  tq_step :: int
  tq_meta :: dict

definition transition_request_post_init :: "transition_request \<Rightarrow> transition_request result" where
  "transition_request_post_init q =
     (let m = py_lower (py_strip (tq_method q)); i = py_strip (tq_id q) in
      rbind (guard (m \<noteq> [] \<and> i \<noteq> [] \<and> length m \<le> max_identifier \<and> length i \<le> max_identifier) ValueError) (\<lambda>_.
      rbind (guard (0 \<le> tq_step q) ValueError) (\<lambda>_.
      rbind (named_loop freeze_operand (tq_operands q) []) (\<lambda>ops.
      rbind (guard (length ops \<le> max_items) ValueError) (\<lambda>_.
      rbind (named_loop (fellow_ref (tq_ref q)) (tq_slots q) []) (\<lambda>slots.
      rbind (guard (length slots \<le> max_items) ValueError) (\<lambda>_.
      rbind (map_result (fellow_ref (tq_ref q)) (concat (map (iter_state_refs \<circ> snd) ops))) (\<lambda>_.
      rbind (named_loop Inr (tq_params q) []) (\<lambda>params.
      rbind (guard (length params \<le> max_items) ValueError) (\<lambda>_.
      rbind (freeze_meta params) (\<lambda>fp.
      rbind (freeze_meta (tq_meta q)) (\<lambda>md.
      Inr (q\<lparr>tq_id := i, tq_method := m, tq_operands := ops, tq_slots := slots, tq_params := fp, tq_meta := md\<rparr>)))))))))))))"

record transition_result =
  tr_request :: string
  tr_method :: string
  tr_status :: string
  tr_ref :: state_ref
  tr_slots :: "(string \<times> state_ref) list"
  tr_metrics :: dict
  tr_binding :: "eval_binding option"
  tr_meta :: dict

definition transition_result_post_init :: "transition_result \<Rightarrow> transition_result result" where
  "transition_result_post_init r =
     (let i = py_strip (tr_request r); m = py_lower (py_strip (tr_method r)); st = py_lower (py_strip (tr_status r)) in
      rbind (guard (i \<noteq> [] \<and> m \<noteq> [] \<and> length m \<le> max_identifier \<and> length i \<le> max_identifier) ValueError) (\<lambda>_.
      rbind (guard (st \<in> {''applied'', ''skipped''}) ValueError) (\<lambda>_.
      rbind (named_loop (fellow_ref (tr_ref r)) (tr_slots r) []) (\<lambda>slots.
      rbind (guard (length slots \<le> max_items) ValueError) (\<lambda>_.
      rbind (guard (own_binding i (tr_binding r)) ValueError) (\<lambda>_.
      rbind (freeze_meta (tr_metrics r)) (\<lambda>mt.
      rbind (freeze_meta (tr_meta r)) (\<lambda>md.
      Inr (r\<lparr>tr_request := i, tr_method := m, tr_status := st, tr_slots := slots, tr_metrics := mt, tr_meta := md\<rparr>)))))))))"

definition transition_result_with_binding :: "eval_binding \<Rightarrow> transition_result \<Rightarrow> transition_result result" where
  "transition_result_with_binding b r = rbind (guard (eb_request b = tr_request r) ValueError) (\<lambda>_.
     transition_result_post_init (r\<lparr>tr_binding := Some b\<rparr>))"

section \<open>Materialisation\<close>

record materialize_request =
  mq_id :: string
  mq_ref :: state_ref
  mq_target :: string
  mq_release :: bool
  mq_meta :: dict

definition materialize_request_post_init :: "materialize_request \<Rightarrow> materialize_request result" where
  "materialize_request_post_init q =
     (let target = py_lower (py_strip (or_default (mq_target q) ''unknown_state'')); i = py_strip (mq_id q) in
      rbind (guard (target \<in> set materialization_targets) ValueError) (\<lambda>_.
      rbind (guard (i \<noteq> [] \<and> length i \<le> max_identifier) ValueError) (\<lambda>_.
      rbind (freeze_meta (mq_meta q)) (\<lambda>md. Inr (q\<lparr>mq_id := i, mq_target := target, mq_meta := md\<rparr>)))))"

datatype materialized = Unknown_Value string | Data_Value string | Other_Value string

record materialize_result =
  mr_request :: string
  mr_ref :: state_ref
  mr_target :: string
  mr_value :: materialized
  mr_binding :: "eval_binding option"
  mr_meta :: dict

definition materialize_result_post_init :: "materialize_result \<Rightarrow> materialize_result result" where
  "materialize_result_post_init r =
     (let i = py_strip (mr_request r); target = py_lower (py_strip (mr_target r)) in
      rbind (guard (i \<noteq> []) ValueError) (\<lambda>_.
      rbind (guard (target \<in> set materialization_targets) ValueError) (\<lambda>_.
      rbind (guard (case mr_value r of Unknown_Value v \<Rightarrow> target = ''unknown_state'' | Data_Value v \<Rightarrow> target \<noteq> ''unknown_state''
        | Other_Value c \<Rightarrow> False) TypeError) (\<lambda>_.
      rbind (guard (own_binding i (mr_binding r)) ValueError) (\<lambda>_.
      rbind (freeze_meta (mr_meta r)) (\<lambda>md. Inr (r\<lparr>mr_request := i, mr_target := target, mr_meta := md\<rparr>)))))))"

definition materialize_result_with_binding :: "eval_binding \<Rightarrow> materialize_result \<Rightarrow> materialize_result result" where
  "materialize_result_with_binding b r = rbind (guard (eb_request b = mr_request r) ValueError) (\<lambda>_.
     materialize_result_post_init (r\<lparr>mr_binding := Some b\<rparr>))"

section \<open>Release\<close>

record release_request =
  lq_id :: string
  lq_provider :: string
  lq_scope :: string
  lq_trajectory :: string
  lq_kinds :: "string list"
  lq_ids :: "string list"
  lq_meta :: dict

definition release_request_post_init :: "release_request \<Rightarrow> release_request result" where
  "release_request_post_init q =
     (let provider = py_strip (lq_provider q); i = py_strip (lq_id q); scope = py_strip (lq_scope q);
          kinds = normalized_names (lq_kinds q);
          ids = fromkeys (filter (\<lambda>x. x \<noteq> []) (map py_strip (lq_ids q))) in
      rbind (guard (provider \<noteq> [] \<and> i \<noteq> [] \<and> scope \<noteq> []) ValueError) (\<lambda>_.
      rbind (guard (length kinds \<le> max_items \<and> names_fit ids) ValueError) (\<lambda>_.
      rbind (freeze_meta (lq_meta q)) (\<lambda>md.
      Inr (q\<lparr>lq_id := i, lq_provider := provider, lq_scope := scope, lq_trajectory := py_strip (lq_trajectory q),
        lq_kinds := kinds, lq_ids := ids, lq_meta := md\<rparr>)))))"

record release_result =
  lr_request :: string
  lr_provider :: string
  lr_status :: string
  lr_count :: int
  lr_released :: "string list"
  lr_not_found :: "string list"
  lr_binding :: "eval_binding option"
  lr_meta :: dict

definition release_result_post_init :: "release_result \<Rightarrow> release_result result" where
  "release_result_post_init r =
     (let i = py_strip (lr_request r); provider = py_strip (lr_provider r); st = py_lower (py_strip (lr_status r));
          ids = lr_released r; missing = lr_not_found r in
      rbind (guard (i \<noteq> [] \<and> provider \<noteq> []) ValueError) (\<lambda>_.
      rbind (guard (st \<in> {''released'', ''not_found''} \<and> 0 \<le> lr_count r) ValueError) (\<lambda>_.
      rbind (guard (length ids \<le> max_items \<and> length missing \<le> max_items) ValueError) (\<lambda>_.
      rbind (guard (distinct ids \<and> distinct missing \<and> disjoint_names ids missing) ValueError) (\<lambda>_.
      rbind (guard (lr_count r = int (length ids)) ValueError) (\<lambda>_.
      rbind (guard (\<not> (st = ''not_found'' \<and> lr_count r \<noteq> 0) \<and> \<not> (st = ''released'' \<and> lr_count r \<le> 0)) ValueError) (\<lambda>_.
      rbind (guard (own_binding i (lr_binding r)) ValueError) (\<lambda>_.
      rbind (freeze_meta (lr_meta r)) (\<lambda>md.
      Inr (r\<lparr>lr_request := i, lr_provider := provider, lr_status := st, lr_meta := md\<rparr>))))))))))"

definition release_result_with_binding :: "eval_binding \<Rightarrow> release_result \<Rightarrow> release_result result" where
  "release_result_with_binding b r = rbind (guard (eb_request b = lr_request r) ValueError) (\<lambda>_.
     release_result_post_init (r\<lparr>lr_binding := Some b\<rparr>))"

end
