(* ===== verification/Provider_Binding.thy ===== *)
theory Provider_Binding
  imports Provider_Request "HOL-Library.List_Lexorder" "HOL-Library.Char_ord" "HOL-Library.Product_Lexorder"
begin

text \<open>
  Whether a provider can serve a request inside a grant, and on which device
  (\<open>evaluation/registry.py\<close>): the resources a declaration needs against those granted, the choice
  of a device, the contract of transition methods, and the four binding attempts. A refusal is a
  value that says which check failed. \<open>digest\<close> is the SHA-256 of the canonical JSON of a protocol
  value; a value with an object that has no wire form has no digest.
\<close>

section \<open>Digests\<close>

datatype protocol_value =
    PV_Evaluate eval_request
  | PV_Transition transition_request
  | PV_Materialize materialize_request
  | PV_Release release_request
  | PV_Binding eval_binding

fun encodable :: "protocol_value \<Rightarrow> bool" where
  "encodable (PV_Evaluate q) \<longleftrightarrow> list_all (\<lambda>s. case s of Inline_State v \<Rightarrow> wire_safe v | _ \<Rightarrow> True) (rq_states q)"
| "encodable _ \<longleftrightarrow> True"

definition protocol_digest :: "(protocol_value \<Rightarrow> string) \<Rightarrow> protocol_value \<Rightarrow> string result" where
  "protocol_digest digest v = (if encodable v then Inr (digest v) else Inl TypeError)"

section \<open>Resources\<close>

datatype refusal =
    Problem_Unsupported | Mode_Unsupported | Capability_Missing | Foreign_State | Kind_Unsupported
  | Threads_Exceed | Gpus_Exceed | Tokens_Missing | Backend_Conflict | Resource_Capability_Missing
  | Memory_Exceeds | Gpu_Memory_Exceeds | Compute_Conflict | Device_Unavailable
  | Method_Undeclared | Contract_Mismatch | Target_Undeclared | Namespace_Missing | Scope_Conflict | Operation_Unavailable

definition bounded_quantity_mismatch :: "rat option \<Rightarrow> rat entry \<Rightarrow> bool" where
  "bounded_quantity_mismatch required available = (case required of None \<Rightarrow> False
     | Some r \<Rightarrow> (case available of Val a \<Rightarrow> a < r | _ \<Rightarrow> True))"

definition granted_gpus :: "resource_context \<Rightarrow> int" where
  "granted_gpus x =
     (let tokens = list_or (g_device_tokens (ctx_grant x));
          n = num_or (entry_get (g_gpus (ctx_grant x)) (Val 0)) 0;
          n = (if n \<le> 0 then int (length (filter (\<lambda>t. provider_family t \<in> {''gpu'', ''mps''}) tokens)) else n)
      in if n \<le> 0 \<and> provider_family (ctx_device x) \<in> {''gpu'', ''mps''} then 1 else n)"

definition granted_threads :: "resource_context \<Rightarrow> int" where
  "granted_threads x = num_or (entry_get (g_threads (ctx_grant x)) (Val (ctx_threads x))) (ctx_threads x)"

definition resource_mismatch :: "requirement \<Rightarrow> resource_context \<Rightarrow> refusal option" where
  "resource_mismatch req x =
     (let g = ctx_grant x; tokens = list_or (g_device_tokens g);
          gb = py_lower (py_strip (text_or (entry_get (g_backend g) (Val [])) []));
          rb = py_lower (py_strip (need_backend req)) in
      if granted_threads x < need_threads req then Some Threads_Exceed
      else if granted_gpus x < need_gpus req then Some Gpus_Exceed
      else if list_ex (\<lambda>t. t \<notin> set tokens) (need_device_tokens req) then Some Tokens_Missing
      else if gb \<noteq> [] \<and> rb \<notin> {[], ''any'', ''auto''} \<and> gb \<noteq> rb then Some Backend_Conflict
      else if list_ex (\<lambda>c. c \<notin> set (list_or (g_capabilities g))) (need_capabilities req) then Some Resource_Capability_Missing
      else if bounded_quantity_mismatch (need_memory_mb req) (g_memory_mb g) then Some Memory_Exceeds
      else if bounded_quantity_mismatch (need_gpu_memory_mb req) (g_gpu_memory_mb g) then Some Gpu_Memory_Exceeds
      else None)"

section \<open>Devices\<close>

definition is_physical_device :: "string \<Rightarrow> bool" where
  "is_physical_device value = (let n = py_lower (py_strip value) in
     n = ''gpu'' \<or> starts_with ''cuda:'' n \<or> starts_with ''gpu:'' n \<or> n = ''mps'' \<or> starts_with ''mps:'' n)"

definition normalize_physical :: "string \<Rightarrow> string" where
  "normalize_physical value = (let n = py_lower (py_strip value) in
     if starts_with ''gpu:'' n then ''cuda:'' @ drop 4 n else n)"

definition matching_device :: "string \<Rightarrow> string list \<Rightarrow> string option" where
  "matching_device requested available =
     (let r = py_lower (py_strip requested) in
      if r \<in> set available then Some r
      else if CHR '':'' \<in> set r then None
      else find (\<lambda>v. provider_family v = provider_family r) available)"

definition device_pattern_matches :: "string \<Rightarrow> string \<Rightarrow> bool" where
  "device_pattern_matches pattern dev =
     (let p = py_lower (py_strip pattern); d = py_lower (py_strip dev) in
      if CHR '':'' \<in> set p then p = d else provider_family p = provider_family d)"

text \<open>The devices the grant offers, without the cpu that is always there.\<close>

definition offered_devices :: "resource_context \<Rightarrow> string list" where
  "offered_devices x =
     (let g = ctx_grant x; tokens = list_or (g_device_tokens g);
          current = py_lower (py_strip (or_default (ctx_device x) ''cpu''));
          unresolved = (current \<in> set (map (\<lambda>t. py_lower (py_strip t)) tokens) \<and> \<not> is_physical_device current);
          resolved = list_or (g_resolved_devices g);
          av = (if current \<notin> {[], ''auto'', ''none''} \<and> \<not> unresolved then [current] else [])
             @ map normalize_physical (filter is_physical_device tokens)
             @ List.map_filter (\<lambda>t. case map_of resolved t of None \<Rightarrow> None
                 | Some d \<Rightarrow> if py_strip d = [] then None else Some (py_lower (py_strip d))) tokens
      in if 0 < num_or (entry_get (g_gpus g) (Val 0)) 0 \<and> tokens = [] \<and> \<not> list_ex (\<lambda>v. provider_family v \<in> {''gpu'', ''mps''}) av
         then av @ [''gpu''] else av)"

definition available_devices :: "resource_context \<Rightarrow> string list" where
  "available_devices x = (if ''cpu'' \<in> set (offered_devices x) then offered_devices x else offered_devices x @ [''cpu''])"

fun first_match :: "string list \<Rightarrow> string list \<Rightarrow> string option" where
  "first_match [] available = None"
| "first_match (p # ps) available = (case matching_device p available of None \<Rightarrow> first_match ps available | Some d \<Rightarrow> Some d)"

definition select_device :: "provider_spec \<Rightarrow> resource_context \<Rightarrow> string option \<Rightarrow> string option" where
  "select_device sp x required =
     (let compatible = filter (\<lambda>v. list_ex (\<lambda>p. device_pattern_matches p v) (sp_supported sp)) (available_devices x) in
      case required of Some r \<Rightarrow> matching_device r compatible
      | None \<Rightarrow> first_match (sp_preferred sp @ sp_supported sp) compatible)"

fun preference_score :: "string list \<Rightarrow> string \<Rightarrow> int" where
  "preference_score [] family = 0"
| "preference_score (p # ps) family = (if provider_family p = family then int (length (p # ps)) else preference_score ps family)"

definition device_preference_score :: "provider_spec \<Rightarrow> string \<Rightarrow> int" where
  "device_preference_score sp dev = preference_score (sp_preferred sp) (provider_family dev)"

section \<open>Evaluation\<close>

fun state_ref_mismatch :: "provider_spec \<Rightarrow> eval_state list \<Rightarrow> refusal option" where
  "state_ref_mismatch sp [] = None"
| "state_ref_mismatch sp (Live_State r # ss) =
     (if sr_provider r \<noteq> sp_id sp then Some Foreign_State
      else if sp_kinds sp \<noteq> [] \<and> py_lower (py_strip (or_default (sr_kind r) ''opaque'')) \<notin> set (sp_kinds sp) then Some Kind_Unsupported
      else state_ref_mismatch sp ss)"
| "state_ref_mismatch sp (s # ss) = state_ref_mismatch sp ss"

definition compute_conflict :: "provider_spec \<Rightarrow> resource_context \<Rightarrow> bool" where
  "compute_conflict sp x \<longleftrightarrow>
     (let req = py_lower (py_strip (or_default (ctx_compute_backend x) ''auto''));
          prov = py_lower (py_strip (or_default (sp_backend sp) ''generic'')) in
      req \<notin> {[], ''auto'', ''any'', ''generic''} \<and> prov \<notin> {''generic'', req})"

definition missing_names :: "string list \<Rightarrow> string list \<Rightarrow> string list" where
  "missing_names required provided = filter (\<lambda>c. c \<notin> set provided) (sort (fromkeys required))"

definition device_fallback :: "provider_spec \<Rightarrow> string \<Rightarrow> bool" where
  "device_fallback sp dev = (case sp_preferred sp of [] \<Rightarrow> False
     | p # ps \<Rightarrow> provider_family p \<noteq> [] \<and> provider_family dev \<noteq> provider_family p)"

type_synonym score = "int \<times> int \<times> int \<times> int \<times> string"

definition audit_status :: "bool \<Rightarrow> dict" where
  "audit_status degraded = [(''status'', PStr (if degraded then ''degraded'' else ''bound'')),
     (''allocator'', PStr ''project_l0''), (''allocation_performed'', PBool False)]"

text \<open>\<open>_try_binding\<close>: \<open>fresh\<close> is the uuid of the binding.\<close>

definition try_binding :: "(protocol_value \<Rightarrow> string) \<Rightarrow> string \<Rightarrow> provider_spec \<Rightarrow> eval_request \<Rightarrow> resource_context
    \<Rightarrow> (refusal + score \<times> eval_binding) result" where
  "try_binding digest fresh sp q x =
     (let required = required_capabilities q; preferred = preferred_capabilities q in
      if sp_problems sp \<noteq> [] \<and> py_lower (py_strip (rq_problem q)) \<notin> set (sp_problems sp) then Inr (Inl Problem_Unsupported)
      else if rq_mode q \<notin> set (sp_modes sp) then Inr (Inl Mode_Unsupported)
      else if missing_names required (sp_capabilities sp) \<noteq> [] then Inr (Inl Capability_Missing)
      else case state_ref_mismatch sp (rq_states q) of Some e \<Rightarrow> Inr (Inl e) | None \<Rightarrow>
      (case resource_mismatch (sp_requirement sp) x of Some e \<Rightarrow> Inr (Inl e) | None \<Rightarrow>
      if compute_conflict sp x then Inr (Inl Compute_Conflict)
      else case select_device sp x None of None \<Rightarrow> Inr (Inl Device_Unavailable) | Some dev \<Rightarrow>
        let matched = filter (\<lambda>c. c \<in> set (sp_capabilities sp)) (sort (fromkeys preferred));
            missing = missing_names preferred (sp_capabilities sp);
            fallback = device_fallback sp dev;
            degraded = (missing \<noteq> [] \<or> fallback) in
        rbind (protocol_digest digest (PV_Evaluate q)) (\<lambda>dg.
        rbind (binding_post_init \<lparr>eb_id = fresh, eb_request = rq_id q, eb_provider = sp_id sp, eb_context = x, eb_device = dev,
          eb_backend = sp_backend sp, eb_digest = dg, eb_matched = sort (fromkeys (required @ matched)), eb_missing = missing,
          eb_degraded = degraded, eb_audit = audit_status degraded @ [(''provider_priority'', PInt (sp_priority sp)),
            (''device_fallback'', PBool fallback), (''resource_requirement'', PMap (requirement_as_dict (sp_requirement sp))),
            (''grant_namespace'', PStr (ctx_namespace x))]\<rparr>) (\<lambda>b.
        Inr (Inr ((sp_priority sp, int (length matched), device_preference_score sp dev,
          if provider_family dev \<in> {''gpu'', ''mps''} then 1 else 0, sp_id sp), b))))))"

section \<open>Transitions\<close>

definition names_mismatch :: "string list \<Rightarrow> string list \<Rightarrow> string list \<Rightarrow> bool \<Rightarrow> bool" where
  "names_mismatch actual required optional extra \<longleftrightarrow> list_ex (\<lambda>r. r \<notin> set actual) required
     \<or> (\<not> extra \<and> list_ex (\<lambda>a. a \<notin> set required \<and> a \<notin> set optional) actual)"

definition kind_in :: "state_ref \<Rightarrow> string list \<Rightarrow> bool" where
  "kind_in r kinds \<longleftrightarrow> py_lower (py_strip (sr_kind r)) \<in> set kinds"

definition operand_mismatch :: "method_spec \<Rightarrow> (string \<times> operand) list \<Rightarrow> string \<times> string list \<Rightarrow> bool" where
  "operand_mismatch m ops p = (case map_of ops (fst p) of None \<Rightarrow> False
     | Some v \<Rightarrow> (let refs = iter_nested_state_refs v in
         (refs = [] \<and> fst p \<notin> set (tm_inline m)) \<or> list_ex (\<lambda>r. \<not> kind_in r (snd p)) refs))"

definition slot_kinds_mismatch :: "kind_map \<Rightarrow> (string \<times> state_ref) list \<Rightarrow> bool" where
  "slot_kinds_mismatch kinds slots = list_ex (\<lambda>(n, ks). case map_of slots n of None \<Rightarrow> False | Some r \<Rightarrow> \<not> kind_in r ks) kinds"

definition transition_request_mismatch :: "method_spec \<Rightarrow> transition_request \<Rightarrow> bool" where
  "transition_request_mismatch m q \<longleftrightarrow>
     names_mismatch (map fst (tq_operands q)) (tm_req_operands m) (tm_opt_operands m) (tm_more_operands m)
     \<or> names_mismatch (map fst (tq_params q)) (tm_req_params m) (tm_opt_params m) (tm_more_params m)
     \<or> names_mismatch (map fst (tq_slots q)) (tm_req_slots m) (tm_opt_slots m) (tm_more_slots m)
     \<or> list_ex (operand_mismatch m (tq_operands q)) (tm_operand_kinds m)
     \<or> slot_kinds_mismatch (tm_slot_kinds m) (tq_slots q)"

definition transition_result_mismatch :: "method_spec \<Rightarrow> transition_result \<Rightarrow> bool" where
  "transition_result_mismatch m r = slot_kinds_mismatch (tm_result_kinds m) (tr_slots r)"

definition kind_refused :: "provider_spec \<Rightarrow> state_ref \<Rightarrow> bool" where
  "kind_refused sp r \<longleftrightarrow> sp_kinds sp \<noteq> [] \<and> py_lower (py_strip (or_default (sr_kind r) ''opaque'')) \<notin> set (sp_kinds sp)"

text \<open>The checks that transitions and materialisations share, up to the device.\<close>

definition try_resources :: "provider_spec \<Rightarrow> state_ref \<Rightarrow> resource_context \<Rightarrow> refusal + string" where
  "try_resources sp r x =
     (if kind_refused sp r then Inl Kind_Unsupported
      else case resource_mismatch (sp_requirement sp) x of Some e \<Rightarrow> Inl e | None \<Rightarrow>
      if compute_conflict sp x then Inl Compute_Conflict
      else case select_device sp x (Some (sr_device r)) of None \<Rightarrow> Inl Device_Unavailable
      | Some d \<Rightarrow> if provider_family d \<noteq> provider_family (sr_device r) then Inl Device_Unavailable else Inr d)"

definition try_transition_binding :: "(protocol_value \<Rightarrow> string) \<Rightarrow> string \<Rightarrow> provider_spec \<Rightarrow> transition_request \<Rightarrow> resource_context
    \<Rightarrow> (refusal + eval_binding \<times> method_spec) result" where
  "try_transition_binding digest fresh sp q x = (case transition_method sp (tq_method q) of
     None \<Rightarrow> Inr (Inl Method_Undeclared)
   | Some m \<Rightarrow> if transition_request_mismatch m q then Inr (Inl Contract_Mismatch)
     else case try_resources sp (tq_ref q) x of Inl e \<Rightarrow> Inr (Inl e)
     | Inr dev \<Rightarrow> let fallback = device_fallback sp dev in
         rbind (protocol_digest digest (PV_Transition q)) (\<lambda>dg.
         rbind (binding_post_init \<lparr>eb_id = fresh, eb_request = tq_id q, eb_provider = sp_id sp, eb_context = x, eb_device = dev,
           eb_backend = sp_backend sp, eb_digest = dg, eb_matched = [''state.transition:'' @ tq_method q], eb_missing = [],
           eb_degraded = fallback, eb_audit = audit_status fallback @ [(''operation'', PStr ''state_transition''),
             (''method_id'', PStr (tq_method q)), (''expected_state_version'', PInt (sr_version (tq_ref q))),
             (''device_fallback'', PBool fallback), (''resource_requirement'', PMap (requirement_as_dict (sp_requirement sp))),
             (''grant_namespace'', PStr (ctx_namespace x))]\<rparr>) (\<lambda>b. Inr (Inr (b, m)))))"

section \<open>Materialisation and release\<close>

definition try_materialization_binding :: "(protocol_value \<Rightarrow> string) \<Rightarrow> string \<Rightarrow> provider_spec \<Rightarrow> materialize_request \<Rightarrow> resource_context
    \<Rightarrow> (refusal + eval_binding) result" where
  "try_materialization_binding digest fresh sp q x =
     (if mq_target q \<notin> set (sp_targets sp) then Inr (Inl Target_Undeclared)
      else case try_resources sp (mq_ref q) x of Inl e \<Rightarrow> Inr (Inl e)
      | Inr dev \<Rightarrow>
          rbind (protocol_digest digest (PV_Materialize q)) (\<lambda>dg.
          rbind (binding_post_init \<lparr>eb_id = fresh, eb_request = mq_id q, eb_provider = sp_id sp, eb_context = x, eb_device = dev,
            eb_backend = sp_backend sp, eb_digest = dg, eb_matched = [''state.materialize:'' @ mq_target q], eb_missing = [],
            eb_degraded = False, eb_audit = audit_status False @ [(''operation'', PStr ''state_materialization''),
              (''target'', PStr (mq_target q)), (''expected_state_version'', PInt (sr_version (mq_ref q))),
              (''grant_namespace'', PStr (ctx_namespace x))]\<rparr>) (\<lambda>b. Inr (Inr b))))"

definition try_release_binding :: "(protocol_value \<Rightarrow> string) \<Rightarrow> string \<Rightarrow> provider_spec \<Rightarrow> release_request \<Rightarrow> resource_context
    \<Rightarrow> (refusal + eval_binding) result" where
  "try_release_binding digest fresh sp q x = (case resource_mismatch (sp_requirement sp) x of
     Some e \<Rightarrow> Inr (Inl e)
   | None \<Rightarrow>
       if ctx_namespace x = [] then Inr (Inl Namespace_Missing)
       else if lq_scope q \<noteq> ctx_namespace x then Inr (Inl Scope_Conflict)
       else
         rbind (protocol_digest digest (PV_Release q)) (\<lambda>dg.
         rbind (binding_post_init \<lparr>eb_id = fresh, eb_request = lq_id q, eb_provider = sp_id sp, eb_context = x,
           eb_device = or_default (ctx_device x) ''cpu'', eb_backend = sp_backend sp, eb_digest = dg,
           eb_matched = [''state.release''], eb_missing = [], eb_degraded = False,
           eb_audit = audit_status False @ [(''operation'', PStr ''state_release''), (''scope_id'', PStr (lq_scope q)),
             (''trajectory_id'', PStr (lq_trajectory q)), (''grant_namespace'', PStr (ctx_namespace x))]\<rparr>) (\<lambda>b. Inr (Inr b))))"

end
