(* ===== verification/Provider_Registry.thy ===== *)
theory Provider_Registry
  imports Provider_Binding
begin

text \<open>
  The registry of providers, the providers bound to one request, and the gateway
  (\<open>evaluation/registry.py\<close>), with the certification of copy-on-write slots
  (\<open>evaluation/conformance.py\<close>). A provider is user code: its operations take the request, the
  binding and the world \<open>'s\<close>, and give the reply or exception together with what the request, the
  binding and the world are afterwards, because user code may change them. \<open>fresh n\<close> is the
  \<open>n\<close>-th uuid of an operation.
\<close>

section \<open>Providers\<close>

abbreviation ProviderUnavailable :: py_error where
  "ProviderUnavailable \<equiv> UserError ''EvaluationProviderUnavailable''"

abbreviation ProviderContractError :: py_error where
  "ProviderContractError \<equiv> UserError ''EvaluationProviderContractError''"

abbreviation ConformanceError :: py_error where
  "ConformanceError \<equiv> UserError ''EvaluationProviderConformanceError''"

datatype 'r reply = Reply 'r | Other_Reply string

type_synonym ('q, 'r, 's) operation = "'q \<Rightarrow> eval_binding \<Rightarrow> 's \<Rightarrow> 'r reply result \<times> 'q \<times> eval_binding \<times> 's"

text \<open>\<open>None\<close>: the attribute is missing or not callable; \<open>spec\<close>: not a specification.\<close>

record 's provider =
  pv_spec :: "provider_spec option"
  pv_evaluate :: "(eval_request, eval_result, 's) operation option"
  pv_transition :: "(transition_request, transition_result, 's) operation option"
  pv_materialize :: "(materialize_request, materialize_result, 's) operation option"
  pv_release :: "(release_request, release_result, 's) operation option"

record conformance_report =
  cc_provider :: string
  cc_method :: string
  cc_request :: string
  cc_slots :: "string list"
  cc_ids :: "string list"

record 's registry =
  rg_providers :: "(string \<times> 's provider) list"
  rg_specs :: "(string \<times> provider_spec) list"
  rg_certified :: "((string \<times> string) \<times> conformance_report) list"

definition registry_init :: "'s registry" where
  "registry_init = \<lparr>rg_providers = [], rg_specs = [], rg_certified = []\<rparr>"

definition drop_certified :: "string \<Rightarrow> 's registry \<Rightarrow> 's registry" where
  "drop_certified i g = g\<lparr>rg_certified := filter (\<lambda>(k, r). fst k \<noteq> i) (rg_certified g)\<rparr>"

definition register_provider :: "'s provider \<Rightarrow> bool \<Rightarrow> 's registry \<Rightarrow> unit result \<times> 's registry" where
  "register_provider p repl g = (case pv_spec p of
     None \<Rightarrow> (Inl ProviderContractError, g)
   | Some declared \<Rightarrow> (case spec_from_dict (spec_as_dict declared) of
       Inl e \<Rightarrow> (Inl e, g)
     | Inr sp \<Rightarrow>
         if pv_evaluate p = None then (Inl ProviderContractError, g)
         else if sp_id sp \<in> fst ` set (rg_providers g) \<and> \<not> repl then (Inl ProviderContractError, g)
         else (let g' = g\<lparr>rg_providers := AList.update (sp_id sp) p (rg_providers g), rg_specs := AList.update (sp_id sp) sp (rg_specs g)\<rparr>
               in (Inr (), if repl then drop_certified (sp_id sp) g' else g'))))"

definition unregister_provider :: "string \<Rightarrow> 's registry \<Rightarrow> 's provider option \<times> 's registry" where
  "unregister_provider i g = (map_of (rg_providers g) i, drop_certified i
     (g\<lparr>rg_specs := AList.delete i (rg_specs g), rg_providers := AList.delete i (rg_providers g)\<rparr>))"

definition get_provider :: "string \<Rightarrow> 's registry \<Rightarrow> 's provider result" where
  "get_provider i g = (case map_of (rg_providers g) i of None \<Rightarrow> Inl ProviderUnavailable | Some p \<Rightarrow> Inr p)"

definition registry_specs :: "'s registry \<Rightarrow> provider_spec list" where
  "registry_specs g = sort_key sp_id (map snd (rg_specs g))"

definition certifications :: "'s registry \<Rightarrow> conformance_report list" where
  "certifications g = sort_key (\<lambda>r. (cc_provider r, cc_method r)) (map snd (rg_certified g))"

definition needs_certification :: "string \<Rightarrow> string \<Rightarrow> 's registry \<Rightarrow> bool" where
  "needs_certification i m g \<longleftrightarrow> (i, m) \<notin> fst ` set (rg_certified g)"

definition record_certification :: "conformance_report \<Rightarrow> 's registry \<Rightarrow> 's registry" where
  "record_certification r g = (let k = (cc_provider r, cc_method r) in
     if k \<in> fst ` set (rg_certified g) then g else g\<lparr>rg_certified := rg_certified g @ [(k, r)]\<rparr>)"

section \<open>Binding\<close>

record 's bound_provider =
  bd_provider :: "'s provider"
  bd_binding :: eval_binding
  bd_digest :: string

definition make_bound :: "(protocol_value \<Rightarrow> string) \<Rightarrow> 's provider \<Rightarrow> eval_binding \<Rightarrow> 's bound_provider result" where
  "make_bound digest p b = rbind (protocol_digest digest (PV_Binding b)) (\<lambda>d.
     Inr \<lparr>bd_provider = p, bd_binding = b, bd_digest = d\<rparr>)"

text \<open>One attempt per provider in the order of registration; the refused ones drop out.\<close>

fun bind_candidates :: "(protocol_value \<Rightarrow> string) \<Rightarrow> (nat \<Rightarrow> string) \<Rightarrow> (string \<Rightarrow> provider_spec option) \<Rightarrow> eval_request \<Rightarrow> resource_context
    \<Rightarrow> (string \<times> 's provider) list \<Rightarrow> (score \<times> 's provider \<times> eval_binding) list result" where
  "bind_candidates digest fresh specs q x [] = Inr []"
| "bind_candidates digest fresh specs q x ((k, p) # ps) = (case specs k of
     None \<Rightarrow> Inl KeyError
   | Some sp \<Rightarrow> rbind (try_binding digest (''binding_'' @ fresh 0) sp q x) (\<lambda>outcome.
       rbind (bind_candidates digest (\<lambda>n. fresh (n + 1)) specs q x ps) (\<lambda>cs.
       Inr (case outcome of Inl e \<Rightarrow> cs | Inr (sc, b) \<Rightarrow> (sc, p, b) # cs))))"

definition bind_order :: "score \<times> 's provider \<times> eval_binding \<Rightarrow> score" where
  "bind_order c = (case fst c of (a, b, cc, d, i) \<Rightarrow> (- a, - b, - cc, - d, i))"

definition bind_request :: "(protocol_value \<Rightarrow> string) \<Rightarrow> (nat \<Rightarrow> string) \<Rightarrow> eval_request \<Rightarrow> resource_context \<Rightarrow> 's registry
    \<Rightarrow> 's bound_provider result" where
  "bind_request digest fresh q x g =
     rbind (bind_candidates digest fresh (map_of (rg_specs g)) q (context_copy x) (rg_providers g)) (\<lambda>cs.
       case sort_key bind_order cs of [] \<Rightarrow> Inl ProviderUnavailable | c # cs' \<Rightarrow> make_bound digest (fst (snd c)) (snd (snd c)))"

text \<open>The owner of a state serves it or nobody does.\<close>

definition owner_of :: "string \<Rightarrow> 's registry \<Rightarrow> ('s provider \<times> provider_spec) result" where
  "owner_of i g = (case (map_of (rg_providers g) i, map_of (rg_specs g) i) of
     (Some p, Some sp) \<Rightarrow> Inr (p, sp) | _ \<Rightarrow> Inl ProviderUnavailable)"

definition reply_accepted :: "(refusal + 'b) result \<Rightarrow> 'b result" where
  "reply_accepted r = rbind r (\<lambda>o1. case o1 of Inl e \<Rightarrow> Inl ProviderUnavailable | Inr b \<Rightarrow> Inr b)"

definition bind_transition :: "(protocol_value \<Rightarrow> string) \<Rightarrow> (nat \<Rightarrow> string) \<Rightarrow> transition_request \<Rightarrow> resource_context \<Rightarrow> 's registry
    \<Rightarrow> ('s bound_provider \<times> method_spec) result" where
  "bind_transition digest fresh q x g =
     rbind (owner_of (sr_provider (tq_ref q)) g) (\<lambda>(p, sp).
     rbind (guard (pv_transition p \<noteq> None) ProviderUnavailable) (\<lambda>_.
     rbind (reply_accepted (try_transition_binding digest (''binding_'' @ fresh 0) sp q (context_copy x))) (\<lambda>(b, m).
     rbind (make_bound digest p b) (\<lambda>bd. Inr (bd, m)))))"

definition bind_materialization :: "(protocol_value \<Rightarrow> string) \<Rightarrow> (nat \<Rightarrow> string) \<Rightarrow> materialize_request \<Rightarrow> resource_context \<Rightarrow> 's registry
    \<Rightarrow> 's bound_provider result" where
  "bind_materialization digest fresh q x g =
     rbind (owner_of (sr_provider (mq_ref q)) g) (\<lambda>(p, sp).
     rbind (guard (pv_materialize p \<noteq> None) ProviderUnavailable) (\<lambda>_.
     rbind (reply_accepted (try_materialization_binding digest (''binding_'' @ fresh 0) sp q (context_copy x))) (make_bound digest p)))"

definition bind_release :: "(protocol_value \<Rightarrow> string) \<Rightarrow> (nat \<Rightarrow> string) \<Rightarrow> release_request \<Rightarrow> resource_context \<Rightarrow> 's registry
    \<Rightarrow> 's bound_provider result" where
  "bind_release digest fresh q x g =
     rbind (owner_of (lq_provider q) g) (\<lambda>(p, sp).
     rbind (guard (pv_release p \<noteq> None) ProviderUnavailable) (\<lambda>_.
     rbind (reply_accepted (try_release_binding digest (''binding_'' @ fresh 0) sp q (context_copy x))) (make_bound digest p)))"

section \<open>Bound providers\<close>

definition same_provider_request :: "(protocol_value \<Rightarrow> string) \<Rightarrow> protocol_value \<Rightarrow> eval_binding \<Rightarrow> unit result" where
  "same_provider_request digest v b = (if eb_digest b = [] then Inr () else
     rbind (protocol_digest digest v) (\<lambda>d. guard (d = eb_digest b) ProviderContractError))"

definition same_binding :: "(protocol_value \<Rightarrow> string) \<Rightarrow> eval_binding \<Rightarrow> string \<Rightarrow> unit result" where
  "same_binding digest b d = rbind (protocol_digest digest (PV_Binding b)) (\<lambda>d'. guard (d' = d) ProviderContractError)"

text \<open>
  What the four bound providers share: the request is the one that was bound and has not changed,
  nor has the binding, before the call (\<open>check\<close>: the release provider looks at its binding only
  afterwards) and after it, and the reply is of the right class.
\<close>

definition guarded_call :: "(protocol_value \<Rightarrow> string) \<Rightarrow> ('q \<Rightarrow> protocol_value) \<Rightarrow> ('q \<Rightarrow> string) \<Rightarrow> bool \<Rightarrow> 's bound_provider
    \<Rightarrow> ('q, 'r, 's) operation \<Rightarrow> 'q \<Rightarrow> 's \<Rightarrow> ('r \<times> 'q \<times> eval_binding) result \<times> 's" where
  "guarded_call digest wrap qid check bd call q s =
     (case rbind (guard (qid q = eb_request (bd_binding bd)) ProviderContractError) (\<lambda>_.
        rbind (same_provider_request digest (wrap q) (bd_binding bd)) (\<lambda>_.
        if check then same_binding digest (bd_binding bd) (bd_digest bd) else Inr ())) of
      Inl e \<Rightarrow> (Inl e, s)
    | Inr _ \<Rightarrow> (case call q (bd_binding bd) s of (reply, q', b', s') \<Rightarrow>
        (rbind reply (\<lambda>r.
         rbind (same_provider_request digest (wrap q') b') (\<lambda>_.
         rbind (same_binding digest b' (bd_digest bd)) (\<lambda>_.
         case r of Other_Reply c \<Rightarrow> Inl ProviderContractError | Reply y \<Rightarrow> Inr (y, q', b')))), s')))"

definition with_evidence :: "eval_binding \<Rightarrow> eval_binding option \<Rightarrow> 'r \<Rightarrow> 'r result \<Rightarrow> 'r result" where
  "with_evidence b evidence r attached = (case evidence of
     None \<Rightarrow> attached | Some b' \<Rightarrow> rbind (guard (binding_eq b' b) ProviderContractError) (\<lambda>_. Inr r))"

definition bound_evaluate :: "(protocol_value \<Rightarrow> string) \<Rightarrow> 's bound_provider \<Rightarrow> (eval_request, eval_result, 's) operation
    \<Rightarrow> eval_request \<Rightarrow> 's \<Rightarrow> eval_result result \<times> 's" where
  "bound_evaluate digest bd call q s = (case guarded_call digest PV_Evaluate rq_id True bd call q s of (res, s') \<Rightarrow>
     (rbind res (\<lambda>(r, q', b).
      rbind (guard (er_request r = rq_id q') ProviderContractError) (\<lambda>_.
      rbind (guard (length (er_feedback r) = length (rq_states q')) ProviderContractError) (\<lambda>_.
      with_evidence b (er_binding r) r (eval_result_with_binding b r)))), s'))"

definition slots_eq :: "(string \<times> state_ref) list \<Rightarrow> (string \<times> state_ref) list \<Rightarrow> bool" where
  "slots_eq a b \<longleftrightarrow> length a = length b \<and> list_all (\<lambda>(n, r). case map_of b n of None \<Rightarrow> False | Some r' \<Rightarrow> ref_eq r r') a"

definition slot_allowed :: "state_ref \<Rightarrow> (string \<times> state_ref) list \<Rightarrow> string \<times> state_ref \<Rightarrow> bool" where
  "slot_allowed successor old p \<longleftrightarrow> sr_scope (snd p) = sr_scope successor \<and> sr_device (snd p) = sr_device successor
     \<and> sr_transport (snd p) = sr_transport successor
     \<and> (case map_of old (fst p) of None \<Rightarrow> True | Some r \<Rightarrow> sr_id (snd p) \<noteq> sr_id r)"

definition validate_transition_successor :: "transition_request \<Rightarrow> transition_result \<Rightarrow> unit result" where
  "validate_transition_successor q r = (let prev = tq_ref q; succ = tr_ref r in
     rbind (guard (sr_provider succ = sr_provider prev \<and> sr_scope succ = sr_scope prev \<and> sr_trajectory succ = sr_trajectory prev
       \<and> sr_kind succ = sr_kind prev \<and> sr_device succ = sr_device prev \<and> sr_transport succ = sr_transport prev) ProviderContractError) (\<lambda>_.
     if tr_status r = ''skipped'' then
       rbind (guard (ref_eq succ prev) ProviderContractError) (\<lambda>_.
       guard (slots_eq (tr_slots r) (tq_slots q)) ProviderContractError)
     else
       rbind (guard (\<not> ref_eq succ prev) ProviderContractError) (\<lambda>_.
       rbind (guard (sr_id succ = sr_id prev \<longrightarrow> sr_version succ = sr_version prev + 1) ProviderContractError) (\<lambda>_.
       rbind (guard (list_all (\<lambda>n. n \<in> fst ` set (tr_slots r)) (map fst (tq_slots q))) ProviderContractError) (\<lambda>_.
       guard (list_all (slot_allowed succ (tq_slots q)) (tr_slots r)) ProviderContractError)))))"

definition bound_transition :: "(protocol_value \<Rightarrow> string) \<Rightarrow> 's bound_provider \<Rightarrow> method_spec \<Rightarrow> (transition_request, transition_result, 's) operation
    \<Rightarrow> transition_request \<Rightarrow> 's \<Rightarrow> transition_result result \<times> 's" where
  "bound_transition digest bd m call q s = (case guarded_call digest PV_Transition tq_id True bd call q s of (res, s') \<Rightarrow>
     (rbind res (\<lambda>(r, q', b).
      rbind (guard (tr_request r = tq_id q') ProviderContractError) (\<lambda>_.
      rbind (guard (tr_method r = tq_method q') ProviderContractError) (\<lambda>_.
      rbind (validate_transition_successor q' r) (\<lambda>_.
      rbind (guard (\<not> transition_result_mismatch m r) ProviderContractError) (\<lambda>_.
      rbind (guard (list_all (\<lambda>n. n \<in> fst ` set (tr_slots r)) (tm_result_slots m)) ProviderContractError) (\<lambda>_.
      with_evidence b (tr_binding r) r (transition_result_with_binding b r))))))), s'))"

definition bound_materialize :: "(protocol_value \<Rightarrow> string) \<Rightarrow> 's bound_provider \<Rightarrow> (materialize_request, materialize_result, 's) operation
    \<Rightarrow> materialize_request \<Rightarrow> 's \<Rightarrow> materialize_result result \<times> 's" where
  "bound_materialize digest bd call q s = (case guarded_call digest PV_Materialize mq_id True bd call q s of (res, s') \<Rightarrow>
     (rbind res (\<lambda>(r, q', b).
      rbind (guard (mr_request r = mq_id q') ProviderContractError) (\<lambda>_.
      rbind (guard (ref_eq (mr_ref r) (mq_ref q')) ProviderContractError) (\<lambda>_.
      rbind (guard (mr_target r = mq_target q') ProviderContractError) (\<lambda>_.
      with_evidence b (mr_binding r) r (materialize_result_with_binding b r))))), s'))"

definition bound_release :: "(protocol_value \<Rightarrow> string) \<Rightarrow> 's bound_provider \<Rightarrow> (release_request, release_result, 's) operation
    \<Rightarrow> release_request \<Rightarrow> 's \<Rightarrow> release_result result \<times> 's" where
  "bound_release digest bd call q s = (case guarded_call digest PV_Release lq_id False bd call q s of (res, s') \<Rightarrow>
     (rbind res (\<lambda>(r, q', b).
      rbind (guard (lr_request r = lq_id q') ProviderContractError) (\<lambda>_.
      rbind (guard (lr_provider r = lq_provider q') ProviderContractError) (\<lambda>_.
      rbind (guard (lq_ids q' = [] \<or> set (lr_released r @ lr_not_found r) = set (lq_ids q')) ProviderContractError) (\<lambda>_.
      with_evidence b (lr_binding r) r (release_result_with_binding b r))))), s'))"

section \<open>The gateway\<close>

definition gateway_evaluate :: "(protocol_value \<Rightarrow> string) \<Rightarrow> (nat \<Rightarrow> string) \<Rightarrow> eval_request \<Rightarrow> resource_context \<Rightarrow> 's registry \<Rightarrow> 's
    \<Rightarrow> eval_result result \<times> 's" where
  "gateway_evaluate digest fresh q x g s = (case bind_request digest fresh q x g of
     Inl e \<Rightarrow> (Inl e, s)
   | Inr bd \<Rightarrow> (case pv_evaluate (bd_provider bd) of
       None \<Rightarrow> (Inl AttributeError, s) | Some call \<Rightarrow> bound_evaluate digest bd call q s))"

definition gateway_materialize :: "(protocol_value \<Rightarrow> string) \<Rightarrow> (nat \<Rightarrow> string) \<Rightarrow> materialize_request \<Rightarrow> resource_context \<Rightarrow> 's registry \<Rightarrow> 's
    \<Rightarrow> materialize_result result \<times> 's" where
  "gateway_materialize digest fresh q x g s = (case bind_materialization digest fresh q x g of
     Inl e \<Rightarrow> (Inl e, s)
   | Inr bd \<Rightarrow> (case pv_materialize (bd_provider bd) of
       None \<Rightarrow> (Inl AttributeError, s) | Some call \<Rightarrow> bound_materialize digest bd call q s))"

definition gateway_release :: "(protocol_value \<Rightarrow> string) \<Rightarrow> (nat \<Rightarrow> string) \<Rightarrow> release_request \<Rightarrow> resource_context \<Rightarrow> 's registry \<Rightarrow> 's
    \<Rightarrow> release_result result \<times> 's" where
  "gateway_release digest fresh q x g s = (case bind_release digest fresh q x g of
     Inl e \<Rightarrow> (Inl e, s)
   | Inr bd \<Rightarrow> (case pv_release (bd_provider bd) of
       None \<Rightarrow> (Inl AttributeError, s) | Some call \<Rightarrow> bound_release digest bd call q s))"

text \<open>\<open>verify_copy_on_write_predecessors\<close>: every replaced slot must still materialise.\<close>

definition probe_request :: "string \<Rightarrow> string \<Rightarrow> string \<Rightarrow> state_ref \<Rightarrow> materialize_request" where
  "probe_request i name rid r = \<lparr>mq_id = ''materialize_'' @ i, mq_ref = r, mq_target = ''unknown_state'', mq_release = False,
     mq_meta = [(''reason'', PStr ''copy_on_write_conformance''), (''slot_name'', PStr name), (''transition_request_id'', PStr rid)]\<rparr>"

fun verify_slots :: "(protocol_value \<Rightarrow> string) \<Rightarrow> (nat \<Rightarrow> string) \<Rightarrow> string \<Rightarrow> resource_context \<Rightarrow> 's registry
    \<Rightarrow> (string \<times> state_ref) list \<Rightarrow> (string \<times> state_ref) list \<Rightarrow> 's \<Rightarrow> (string \<times> string) list result \<times> 's" where
  "verify_slots digest fresh rid x g [] new s = (Inr [], s)"
| "verify_slots digest fresh rid x g ((name, old) # rest) new s =
     (if (case map_of new name of None \<Rightarrow> True | Some r \<Rightarrow> sr_id r = sr_id old) then verify_slots digest fresh rid x g rest new s
      else (case materialize_request_post_init (probe_request (fresh 0) name rid old) of
        Inl e \<Rightarrow> (Inl ConformanceError, s)
      | Inr q \<Rightarrow> (case gateway_materialize digest (\<lambda>n. fresh (n + 1)) q x g s of
          (Inl e, s') \<Rightarrow> (Inl ConformanceError, s')
        | (Inr r, s') \<Rightarrow>
            if \<not> ref_eq (mr_ref r) old then (Inl ConformanceError, s')
            else (case verify_slots digest (\<lambda>n. fresh (n + 2)) rid x g rest new s' of
              (Inl e, s'') \<Rightarrow> (Inl e, s'') | (Inr ps, s'') \<Rightarrow> (Inr ((name, sr_id old) # ps), s'')))))"

definition verify_copy_on_write :: "(protocol_value \<Rightarrow> string) \<Rightarrow> (nat \<Rightarrow> string) \<Rightarrow> transition_request \<Rightarrow> transition_result
    \<Rightarrow> resource_context \<Rightarrow> 's registry \<Rightarrow> 's \<Rightarrow> conformance_report result \<times> 's" where
  "verify_copy_on_write digest fresh q r x g s =
     (let report = \<lambda>ps. \<lparr>cc_provider = sr_provider (tq_ref q), cc_method = tr_method r, cc_request = tq_id q,
            cc_slots = map fst ps, cc_ids = map snd ps\<rparr> in
      if tq_id q \<noteq> tr_request r then (Inl ConformanceError, s)
      else if tr_status r \<noteq> ''applied'' then (Inr (report []), s)
      else (case verify_slots digest fresh (tq_id q) x g (tq_slots q) (tr_slots r) s of
        (Inl e, s') \<Rightarrow> (Inl e, s') | (Inr ps, s') \<Rightarrow> (Inr (report ps), s')))"

definition gateway_transition :: "(protocol_value \<Rightarrow> string) \<Rightarrow> (nat \<Rightarrow> string) \<Rightarrow> transition_request \<Rightarrow> resource_context \<Rightarrow> 's registry \<Rightarrow> 's
    \<Rightarrow> transition_result result \<times> 's registry \<times> 's" where
  "gateway_transition digest fresh q x g s = (case bind_transition digest fresh q x g of
     Inl e \<Rightarrow> (Inl e, g, s)
   | Inr (bd, m) \<Rightarrow> (case pv_transition (bd_provider bd) of
       None \<Rightarrow> (Inl AttributeError, g, s)
     | Some call \<Rightarrow> (case bound_transition digest bd m call q s of
         (Inl e, s') \<Rightarrow> (Inl e, g, s')
       | (Inr r, s') \<Rightarrow>
           if tr_status r = ''applied'' \<and> tq_slots q \<noteq> [] \<and> needs_certification (sr_provider (tq_ref q)) (tq_method q) g then
             (case verify_copy_on_write digest (\<lambda>n. fresh (n + 1)) q r (eb_context (bd_binding bd)) g s' of
               (Inl e, s'') \<Rightarrow> (Inl e, g, s'')
             | (Inr report, s'') \<Rightarrow> (Inr r, record_certification report g, s''))
           else (Inr r, g, s'))))"

end
