(* ===== verification/Provider_Properties.thy ===== *)
theory Provider_Properties
  imports Provider_Registry
begin

text \<open>
  Properties of the evaluation layer: what a binding may use, that the choice of a provider does not
  depend on the order of registration, how transitions are fenced by versions and identities, and
  what certifications mean.
\<close>

section \<open>What a successful binding says\<close>

lemma resource_mismatch_None: "resource_mismatch req x = None \<longleftrightarrow>
    need_threads req \<le> granted_threads x \<and> need_gpus req \<le> granted_gpus x
  \<and> set (need_device_tokens req) \<subseteq> set (list_or (g_device_tokens (ctx_grant x)))
  \<and> (py_lower (py_strip (text_or (entry_get (g_backend (ctx_grant x)) (Val [])) [])) = []
     \<or> py_lower (py_strip (need_backend req)) \<in> {[], ''any'', ''auto''}
     \<or> py_lower (py_strip (text_or (entry_get (g_backend (ctx_grant x)) (Val [])) [])) = py_lower (py_strip (need_backend req)))
  \<and> set (need_capabilities req) \<subseteq> set (list_or (g_capabilities (ctx_grant x)))
  \<and> \<not> bounded_quantity_mismatch (need_memory_mb req) (g_memory_mb (ctx_grant x))
  \<and> \<not> bounded_quantity_mismatch (need_gpu_memory_mb req) (g_gpu_memory_mb (ctx_grant x))"
  by (auto simp: resource_mismatch_def Let_def list_ex_iff not_less)

lemma find_in: "find P xs = Some x \<Longrightarrow> x \<in> set xs"
  by (simp add: find_SomeD)

lemma matching_device_in: "matching_device r av = Some d \<Longrightarrow> d \<in> set av"
  by (auto simp: matching_device_def Let_def split: if_splits dest: find_in)

lemma first_match_in: "first_match ps av = Some d \<Longrightarrow> d \<in> set av"
  by (induction ps) (auto split: option.splits dest: matching_device_in)

lemma select_device_in:
  assumes "select_device sp x req = Some d"
  shows "d \<in> set (available_devices x)" "list_ex (\<lambda>p. device_pattern_matches p d) (sp_supported sp)"
  using assms by (auto simp: select_device_def Let_def split: option.splits dest!: matching_device_in first_match_in)

lemma binding_post_init_Inr: "binding_post_init b = Inr b' \<Longrightarrow>
    eb_id b' = eb_id b \<and> eb_request b' = eb_request b \<and> eb_provider b' = eb_provider b \<and> eb_context b' = context_copy (eb_context b)
    \<and> eb_device b' = or_default (eb_device b) ''cpu'' \<and> eb_digest b' = py_lower (py_strip (eb_digest b))"
  by (auto simp: binding_post_init_def Let_def rbind_Inr)

lemma try_binding_Inr:
  assumes "try_binding digest u sp q x = Inr (Inr (sc, b))"
  shows "resource_mismatch (sp_requirement sp) x = None" "state_ref_mismatch sp (rq_states q) = None"
    "sp_problems sp = [] \<or> py_lower (py_strip (rq_problem q)) \<in> set (sp_problems sp)" "rq_mode q \<in> set (sp_modes sp)"
    "missing_names (required_capabilities q) (sp_capabilities sp) = []" "\<not> compute_conflict sp x"
    "\<exists>d. select_device sp x None = Some d \<and> eb_device b = or_default d ''cpu''"
    "snd (snd (snd (snd sc))) = sp_id sp" "eb_provider b = sp_id sp" "eb_request b = rq_id q"
  using assms unfolding try_binding_def
  by (auto simp: Let_def rbind_Inr split: if_splits option.splits dest: binding_post_init_Inr)

lemma make_bound_Inr: "make_bound digest p b = Inr bd \<longleftrightarrow> bd = \<lparr>bd_provider = p, bd_binding = b, bd_digest = digest (PV_Binding b)\<rparr>"
  by (auto simp: make_bound_def protocol_digest_def)

lemma bind_candidates_in:
  "bind_candidates digest fresh specs q x ps = Inr cs \<Longrightarrow> (sc, p, b) \<in> set cs \<Longrightarrow>
   \<exists>k sp u. (k, p) \<in> set ps \<and> specs k = Some sp \<and> try_binding digest u sp q x = Inr (Inr (sc, b))"
proof (induction digest fresh specs q x ps arbitrary: cs rule: bind_candidates.induct)
  case (2 digest fresh specs q x k p' ps)
  from 2(2) obtain sp o1 cs' where sp: "specs k = Some sp" and o1: "try_binding digest (''binding_'' @ fresh 0) sp q x = Inr o1"
      and cs': "bind_candidates digest (\<lambda>n. fresh (n + 1)) specs q x ps = Inr cs'"
      and cs: "cs = (case o1 of Inl e \<Rightarrow> cs' | Inr (sc, b) \<Rightarrow> (sc, p', b) # cs')"
    by (auto simp: rbind_Inr split: option.splits)
  show ?case
  proof (cases "(sc, p, b) \<in> set cs'")
    case True
    then show ?thesis using 2(1)[OF sp cs'] by auto
  next
    case False
    then have "o1 = Inr (sc, b)" "p = p'" using 2(3) cs by (auto split: sum.splits prod.splits)
    then show ?thesis using sp o1 by auto
  qed
qed simp

lemma bind_request_Inr:
  assumes "bind_request digest fresh q x g = Inr bd"
  obtains k sp u sc where "(k, bd_provider bd) \<in> set (rg_providers g)" "map_of (rg_specs g) k = Some sp"
    "try_binding digest u sp q (context_copy x) = Inr (Inr (sc, bd_binding bd))" "bd_digest bd = digest (PV_Binding (bd_binding bd))"
proof -
  from assms obtain cs where cs: "bind_candidates digest fresh (map_of (rg_specs g)) q (context_copy x) (rg_providers g) = Inr cs"
    and bd: "(case sort_key bind_order cs of [] \<Rightarrow> Inl ProviderUnavailable | c # cs' \<Rightarrow> make_bound digest (fst (snd c)) (snd (snd c))) = Inr bd"
    by (auto simp: bind_request_def rbind_Inr)
  then obtain c cs' where c: "sort_key bind_order cs = c # cs'" by (cases "sort_key bind_order cs") auto
  then have "c \<in> set cs" by (metis list.set_intros(1) set_sort)
  moreover obtain sc p b where "c = (sc, p, b)" by (cases c) auto
  ultimately show ?thesis using bind_candidates_in[OF cs, of sc p b] bd c by (auto simp: make_bound_Inr intro: that)
qed

definition within_grant :: "provider_spec \<Rightarrow> resource_context \<Rightarrow> bool" where
  "within_grant sp x \<longleftrightarrow> need_threads (sp_requirement sp) \<le> granted_threads x \<and> need_gpus (sp_requirement sp) \<le> granted_gpus x
     \<and> set (need_device_tokens (sp_requirement sp)) \<subseteq> set (list_or (g_device_tokens (ctx_grant x)))
     \<and> set (need_capabilities (sp_requirement sp)) \<subseteq> set (list_or (g_capabilities (ctx_grant x)))
     \<and> (\<forall>n. need_memory_mb (sp_requirement sp) = Some n \<longrightarrow> (\<exists>a. g_memory_mb (ctx_grant x) = Val a \<and> n \<le> a))
     \<and> (\<forall>n. need_gpu_memory_mb (sp_requirement sp) = Some n \<longrightarrow> (\<exists>a. g_gpu_memory_mb (ctx_grant x) = Val a \<and> n \<le> a))"

lemma bounded_quantity_ok: "\<not> bounded_quantity_mismatch r e \<longleftrightarrow> (\<forall>n. r = Some n \<longrightarrow> (\<exists>a. e = Val a \<and> n \<le> a))"
  by (cases r; cases e) (auto simp: bounded_quantity_mismatch_def)

lemma resource_mismatch_within: "resource_mismatch (sp_requirement sp) x = None \<Longrightarrow> within_grant sp x"
  by (simp add: resource_mismatch_None within_grant_def bounded_quantity_ok)

lemma state_ref_mismatch_None: "state_ref_mismatch sp ss = None \<Longrightarrow> Live_State r \<in> set ss \<Longrightarrow> sr_provider r = sp_id sp"
  by (induction sp ss rule: state_ref_mismatch.induct) (auto split: if_splits)

lemma missing_names_Nil: "missing_names req prov = [] \<longleftrightarrow> set req \<subseteq> set prov"
  by (auto simp: missing_names_def filter_empty_conv)

text \<open>What is promised of a provider chosen for \<open>q\<close> under the context \<open>x\<close>.\<close>

definition serves :: "provider_spec \<Rightarrow> eval_request \<Rightarrow> resource_context \<Rightarrow> eval_binding \<Rightarrow> bool" where
  "serves sp q x b \<longleftrightarrow> (sp_problems sp = [] \<or> py_lower (py_strip (rq_problem q)) \<in> set (sp_problems sp))
     \<and> rq_mode q \<in> set (sp_modes sp) \<and> set (required_capabilities q) \<subseteq> set (sp_capabilities sp)
     \<and> (\<forall>r. Live_State r \<in> set (rq_states q) \<longrightarrow> sr_provider r = sp_id sp) \<and> within_grant sp x
     \<and> eb_device b \<in> insert ''cpu'' (set (offered_devices x))
     \<and> (eb_device b = ''cpu'' \<or> list_ex (\<lambda>p. device_pattern_matches p (eb_device b)) (sp_supported sp))
     \<and> eb_provider b = sp_id sp \<and> eb_request b = rq_id q"

lemma try_binding_serves:
  assumes "try_binding digest u sp q x = Inr (Inr (sc, b))" shows "serves sp q x b"
proof -
  note f = try_binding_Inr[OF assms]
  obtain d where d: "select_device sp x None = Some d" "eb_device b = or_default d ''cpu''" using f(7) by blast
  have av: "d \<in> insert ''cpu'' (set (offered_devices x))"
    using select_device_in(1)[OF d(1)] by (auto simp: available_devices_def split: if_splits)
  have dev: "eb_device b \<in> insert ''cpu'' (set (offered_devices x))
      \<and> (eb_device b = ''cpu'' \<or> list_ex (\<lambda>p. device_pattern_matches p (eb_device b)) (sp_supported sp))"
    using av select_device_in(2)[OF d(1)] unfolding d(2) or_default_def by (cases "d = []") simp_all
  show ?thesis unfolding serves_def
    using f(3,4,9,10) f(5)[unfolded missing_names_Nil] state_ref_mismatch_None[OF f(2)] resource_mismatch_within[OF f(1)] dev by blast
qed

text \<open>
  C23. An evaluation is bound inside the grant. The bound provider is registered and serves the
  problem and mode of the request with all its required capabilities; it owns every live state among
  the states; what it needs (threads, gpus, device tokens, capabilities, memory) is within the
  grant; and the device it is told to use is one that it supports and that the grant offers, or the
  cpu.
\<close>

theorem bindings_within_grant:
  assumes "bind_request digest fresh q x g = Inr bd"
  shows "\<exists>k sp. (k, bd_provider bd) \<in> set (rg_providers g) \<and> map_of (rg_specs g) k = Some sp
    \<and> serves sp q (context_copy x) (bd_binding bd)"
  using bind_request_Inr[OF assms] try_binding_serves by metis

section \<open>Registries\<close>

text \<open>
  A registry keeps a specification per provider, under its identifier, and certifications of
  registered providers only, each under the provider and method it is about.
\<close>

definition registry_ok :: "'s registry \<Rightarrow> bool" where
  "registry_ok g \<longleftrightarrow> distinct (map fst (rg_providers g)) \<and> distinct (map fst (rg_specs g)) \<and> distinct (map fst (rg_certified g))
     \<and> fst ` set (rg_specs g) = fst ` set (rg_providers g) \<and> (\<forall>(k, sp)\<in>set (rg_specs g). sp_id sp = k)
     \<and> (\<forall>((i, m), r)\<in>set (rg_certified g). i \<in> fst ` set (rg_providers g) \<and> cc_provider r = i \<and> cc_method r = m)"

definition attempt_of :: "(protocol_value \<Rightarrow> string) \<Rightarrow> string \<Rightarrow> (string \<Rightarrow> provider_spec option) \<Rightarrow> eval_request \<Rightarrow> resource_context
    \<Rightarrow> string \<times> 's provider \<Rightarrow> ((refusal + score \<times> eval_binding) \<times> 's provider) result" where
  "attempt_of digest u specs q x e = (case specs (fst e) of None \<Rightarrow> Inl KeyError
     | Some sp \<Rightarrow> rbind (try_binding digest (''binding_'' @ u) sp q x) (\<lambda>o1. Inr (o1, snd e)))"

definition accepted_candidate :: "(refusal + score \<times> eval_binding) \<times> 's provider \<Rightarrow> (score \<times> 's provider \<times> eval_binding) option" where
  "accepted_candidate op = (case fst op of Inl e \<Rightarrow> None | Inr (sc, b) \<Rightarrow> Some (sc, snd op, b))"

lemma bind_candidates_map:
  "bind_candidates digest (\<lambda>_. u) specs q x ps
    = rbind (map_result (attempt_of digest u specs q x) ps) (\<lambda>os. Inr (List.map_filter accepted_candidate os))"
proof (induction ps)
  case (Cons e ps)
  obtain k p where e: "e = (k, p)" by fastforce
  show ?case
  proof (cases "specs k")
    case (Some sp)
    show ?thesis
    proof (cases "try_binding digest (''binding_'' @ u) sp q x")
      case (Inr o1)
      have att: "attempt_of digest u specs q x e = Inr (o1, p)" using Inr Some by (simp add: e attempt_of_def)
      show ?thesis
      proof (cases "map_result (attempt_of digest u specs q x) ps")
        case (Inr os)
        then show ?thesis using Cons att Some \<open>try_binding digest (''binding_'' @ u) sp q x = Inr o1\<close>
          by (simp add: e accepted_candidate_def List.map_filter_simps(1) split: sum.split prod.split)
      qed (use Cons att Some \<open>try_binding digest (''binding_'' @ u) sp q x = Inr o1\<close> in \<open>simp add: e\<close>)
    qed (simp add: e Some attempt_of_def)
  qed (simp add: e attempt_of_def)
qed (simp add: List.map_filter_def)

lemma map_result_all: "map_result f xs = Inr ys \<Longrightarrow> ys = map (\<lambda>x. projr (f x)) xs \<and> (\<forall>x\<in>set xs. f x = Inr (projr (f x)))"
  by (induction xs arbitrary: ys) (auto simp: rbind_Inr)

lemma map_result_perm:
  assumes "map_result f xs = Inr ys" "mset xs = mset xs'"
  shows "map_result f xs' = Inr (map (\<lambda>x. projr (f x)) xs')"
proof -
  have "\<forall>x\<in>set xs'. \<exists>y. f x = Inr y" using map_result_all[OF assms(1)] mset_eq_setD[OF assms(2)] by metis
  then show ?thesis by (induction xs') auto
qed

lemma mset_map_filter: "mset xs = mset ys \<Longrightarrow> mset (List.map_filter f xs) = mset (List.map_filter f ys)"
  by (simp add: List.map_filter_def)

lemma attempt_Inr:
  assumes "attempt_of digest u specs q x (k, p) = Inr os" "accepted_candidate os = Some c"
    and "\<And>sp. specs k = Some sp \<Longrightarrow> sp_id sp = k"
  shows "snd (snd (snd (snd (fst c)))) = k \<and> fst (snd c) = p"
proof -
  obtain sp where sp: "specs k = Some sp" using assms(1) by (auto simp: attempt_of_def split: option.splits)
  then obtain o1 where o1: "try_binding digest (''binding_'' @ u) sp q x = Inr o1" "os = (o1, p)"
    using assms(1) by (auto simp: attempt_of_def rbind_Inr)
  then obtain sc b where "o1 = Inr (sc, b)" "c = (sc, p, b)"
    using assms(2) by (auto simp: accepted_candidate_def split: sum.splits)
  then show ?thesis using try_binding_Inr(8)[of digest "''binding_'' @ u" sp q x sc b] o1 assms(3)[OF sp] by simp
qed

lemma bind_order_id: "snd (snd (snd (snd (bind_order c)))) = snd (snd (snd (snd (fst c))))"
  by (auto simp: bind_order_def split: prod.splits)

lemma bind_order_inj:
  assumes os: "map_result (attempt_of digest u specs q x) ps = Inr os" and d: "distinct (map fst ps)"
    and i: "\<And>k p sp. (k, p) \<in> set ps \<Longrightarrow> specs k = Some sp \<Longrightarrow> sp_id sp = k"
  shows "inj_on bind_order (set (List.map_filter accepted_candidate os))"
proof (rule inj_onI)
  fix c c' assume c: "c \<in> set (List.map_filter accepted_candidate os)" "c' \<in> set (List.map_filter accepted_candidate os)"
    and same: "bind_order c = bind_order c'"
  let ?f = "attempt_of digest u specs q x"
  have from_os: "\<exists>k p. (k, p) \<in> set ps \<and> accepted_candidate (projr (?f (k, p))) = Some y \<and> ?f (k, p) = Inr (projr (?f (k, p)))"
    if "y \<in> set (List.map_filter accepted_candidate os)" for y
    using that map_result_all[OF os] by (auto simp: List.map_filter_def) (metis option.sel option.collapse)
  obtain k p k' p' where k: "(k, p) \<in> set ps" "accepted_candidate (projr (?f (k, p))) = Some c" "?f (k, p) = Inr (projr (?f (k, p)))"
    and k': "(k', p') \<in> set ps" "accepted_candidate (projr (?f (k', p'))) = Some c'" "?f (k', p') = Inr (projr (?f (k', p')))"
    using from_os[OF c(1)] from_os[OF c(2)] by blast
  have "snd (snd (snd (snd (fst c)))) = k" "snd (snd (snd (snd (fst c')))) = k'"
    using attempt_Inr[OF k(3,2)] attempt_Inr[OF k'(3,2)] i[OF k(1)] i[OF k'(1)] by auto
  then have "k = k'" using same bind_order_id by metis
  then have "p = p'" using d k(1) k'(1) by (metis eq_key_imp_eq_value)
  then show "c = c'" using k(2) k'(2) \<open>k = k'\<close> by simp
qed

text \<open>
  C24. Which provider is chosen does not depend on the order in which providers were registered: two
  registries with the same providers and specifications, in whatever order, bind a request to the
  same provider, for the same binding (up to the random identifiers, which are one here), because no
  two providers have the same rank.
\<close>

theorem bind_order_irrelevant:
  assumes "registry_ok g" "mset (rg_providers g') = mset (rg_providers g)" "map_of (rg_specs g') = map_of (rg_specs g)"
    and "bind_request digest (\<lambda>_. u) q x g = Inr bd"
  shows "bind_request digest (\<lambda>_. u) q x g' = Inr bd"
proof -
  let ?f = "attempt_of digest u (map_of (rg_specs g)) q (context_copy x)"
  obtain os where os: "map_result ?f (rg_providers g) = Inr os"
    using assms(4) by (auto simp: bind_request_def bind_candidates_map rbind_Inr)
  let ?os' = "map (\<lambda>x. projr (?f x)) (rg_providers g')"
  have os': "map_result ?f (rg_providers g') = Inr ?os'" using map_result_perm[OF os] assms(2) by simp
  have "os = map (\<lambda>x. projr (?f x)) (rg_providers g)" using map_result_all[OF os] by simp
  then have "mset os = mset ?os'" using assms(2) by simp
  then have m: "mset (List.map_filter accepted_candidate os) = mset (List.map_filter accepted_candidate ?os')"
    by (rule mset_map_filter)
  have "inj_on bind_order (set (List.map_filter accepted_candidate os))"
  proof (rule bind_order_inj[OF os])
    show "distinct (map fst (rg_providers g))" using assms(1) by (simp add: registry_ok_def)
    show "sp_id sp = k" if "map_of (rg_specs g) k = Some sp" for k sp
      using assms(1) map_of_SomeD[OF that] by (auto simp: registry_ok_def)
  qed
  then have "sort_key bind_order (List.map_filter accepted_candidate os) = sort_key bind_order (List.map_filter accepted_candidate ?os')"
    using m by (intro sort_key_inj_key_eq) simp_all
  moreover have "bind_request digest (\<lambda>_. u) q x g = (case sort_key bind_order (List.map_filter accepted_candidate os) of
      [] \<Rightarrow> Inl ProviderUnavailable | c # cs' \<Rightarrow> make_bound digest (fst (snd c)) (snd (snd c)))"
    unfolding bind_request_def bind_candidates_map os rbind_simps ..
  moreover have "bind_request digest (\<lambda>_. u) q x g' = (case sort_key bind_order (List.map_filter accepted_candidate ?os') of
      [] \<Rightarrow> Inl ProviderUnavailable | c # cs' \<Rightarrow> make_bound digest (fst (snd c)) (snd (snd c)))"
    unfolding bind_request_def bind_candidates_map assms(3) os' rbind_simps ..
  ultimately show ?thesis using assms(4) by presburger
qed

section \<open>Certifications\<close>






lemma drop_certified_set: "e \<in> set (rg_certified (drop_certified i g)) \<longleftrightarrow> e \<in> set (rg_certified g) \<and> fst (fst e) \<noteq> i"
  by (auto simp: drop_certified_def)





lemma owner_of_Inr: "owner_of i g = Inr (p, sp) \<longleftrightarrow> map_of (rg_providers g) i = Some p \<and> map_of (rg_specs g) i = Some sp"
  by (auto simp: owner_of_def split: option.splits)



section \<open>Transitions\<close>




lemma mutations_detected:
  assumes "call q (bd_binding bd) s = (rep, q', bd_binding bd, s')" "eb_digest (bd_binding bd) \<noteq> []"
    and "protocol_digest digest (wrap q') \<noteq> protocol_digest digest (wrap q)"
  shows "fst (guarded_call digest wrap qid check bd call q s) \<noteq> Inr z"
  using assms by (auto simp: guarded_call_def rbind_Inr same_provider_request_def split: sum.splits prod.splits)

definition same_place :: "state_ref \<Rightarrow> state_ref \<Rightarrow> bool" where
  "same_place a b \<longleftrightarrow> sr_provider b = sr_provider a \<and> sr_scope b = sr_scope a \<and> sr_trajectory b = sr_trajectory a
     \<and> sr_kind b = sr_kind a \<and> sr_device b = sr_device a \<and> sr_transport b = sr_transport a"

text \<open>The fence between a request and an accepted result.\<close>

definition fenced_result :: "transition_request \<Rightarrow> transition_result \<Rightarrow> bool" where
  "fenced_result q r \<longleftrightarrow> tr_request r = tq_id q \<and> tr_method r = tq_method q \<and> same_place (tq_ref q) (tr_ref r)
     \<and> (if tr_status r = ''skipped'' then ref_eq (tr_ref r) (tq_ref q) \<and> slots_eq (tr_slots r) (tq_slots q)
        else \<not> ref_eq (tr_ref r) (tq_ref q)
          \<and> (sr_id (tr_ref r) = sr_id (tq_ref q) \<longrightarrow> sr_version (tr_ref r) = sr_version (tq_ref q) + 1)
          \<and> (\<forall>n old. map_of (tq_slots q) n = Some old \<longrightarrow> (\<exists>new. map_of (tr_slots r) n = Some new \<and> sr_id new \<noteq> sr_id old)))"









text \<open>Along a chain of transitions on one state, the version counts those that were applied.\<close>

fun linked :: "state_ref \<Rightarrow> (transition_request \<times> transition_result) list \<Rightarrow> bool" where
  "linked ref [] \<longleftrightarrow> True"
| "linked ref ((q, r) # xs) \<longleftrightarrow> tq_ref q = ref \<and> fenced_result q r \<and> sr_id (tr_ref r) = sr_id ref \<and> linked (tr_ref r) xs"

lemma in_place_versions:
  "linked ref xs \<Longrightarrow> sr_version (last (ref # map (tr_ref \<circ> snd) xs))
    = sr_version ref + int (length (filter (\<lambda>(q, r). tr_status r \<noteq> ''skipped'') xs))"
proof (induction ref xs rule: linked.induct)
  case (2 ref q r xs)
  have "sr_version (tr_ref r) = sr_version ref + (if tr_status r = ''skipped'' then 0 else 1)"
    using 2(2) by (auto simp: fenced_result_def ref_eq_def split: if_splits) (metis state_ref.select_convs(7) state_ref.surjective state_ref.update_convs(9))
  then show ?case using 2 by simp
qed simp

section \<open>What a certification witnesses\<close>






section \<open>Results are made by their constructors\<close>





text \<open>A release stays in the namespace of its grant and goes to the owner it names.\<close>

lemma accepted_Inr: "reply_accepted r = Inr b \<longleftrightarrow> r = Inr (Inr b)"
  by (cases r) (auto simp: reply_accepted_def split: sum.splits)

lemma release_in_namespace:
  assumes "gateway_release digest fresh q x g s = (Inr r, s')"
  shows "lq_scope q = ctx_namespace (context_copy x) \<and> lq_provider q \<in> fst ` set (rg_providers g)"
proof -
  from assms obtain bd where "bind_release digest fresh q x g = Inr bd"
    by (auto simp: gateway_release_def split: sum.splits)
  then show ?thesis
    by (auto simp: bind_release_def rbind_Inr owner_of_Inr accepted_Inr try_release_binding_def
        dest!: map_of_SomeD intro: rev_image_eqI split: sum.splits option.splits if_splits)
qed

section \<open>Examples\<close>

definition ex_digest :: "protocol_value \<Rightarrow> string" where
  "ex_digest v = replicate 64 CHR ''a''"

definition ex_provider_spec :: "string \<Rightarrow> int \<Rightarrow> provider_spec" where
  "ex_provider_spec i priority = \<lparr>sp_id = i, sp_problems = [], sp_capabilities = [''grad''], sp_requirement = any_requirement,
     sp_supported = [''cpu''], sp_preferred = [''cpu''], sp_backend = ''generic'', sp_modes = [''evaluate''], sp_priority = priority,
     sp_kinds = [], sp_targets = [''unknown_state''], sp_methods = [\<lparr>tm_id = ''step'', tm_req_operands = [], tm_opt_operands = [],
       tm_req_params = [], tm_opt_params = [], tm_req_slots = [''m''], tm_opt_slots = [], tm_result_slots = [''m''],
       tm_operand_kinds = [], tm_inline = [], tm_slot_kinds = [], tm_result_kinds = [], tm_more_operands = True,
       tm_more_params = True, tm_more_slots = True, tm_meta = []\<rparr>], sp_meta = []\<rparr>"

definition ex_apply :: "(transition_request, transition_result, nat) operation" where
  "ex_apply q b s = (rbind (transition_result_post_init \<lparr>tr_request = tq_id q, tr_method = tq_method q, tr_status = ''applied'',
       tr_ref = (tq_ref q)\<lparr>sr_version := sr_version (tq_ref q) + 1\<rparr>,
       tr_slots = map (\<lambda>(n, r). (n, r\<lparr>sr_id := sr_id r @ ''+''\<rparr>)) (tq_slots q), tr_metrics = [], tr_binding = None, tr_meta = []\<rparr>)
     (\<lambda>r. Inr (Reply r)), q, b, s + 1)"

definition ex_export :: "(materialize_request, materialize_result, nat) operation" where
  "ex_export q b s = (Inr (Reply \<lparr>mr_request = mq_id q, mr_ref = mq_ref q, mr_target = mq_target q, mr_value = Unknown_Value ''[1.0]'',
     mr_binding = None, mr_meta = []\<rparr>), q, b, s)"

definition ex_evaluate :: "(eval_request, eval_result, nat) operation" where
  "ex_evaluate q b s = (Inr (Reply \<lparr>er_request = rq_id q, er_feedback = map (\<lambda>_. ''{}'') (rq_states q), er_states = [],
     er_binding = None, er_meta = []\<rparr>), q, b, s)"

definition ex_provider :: "string \<Rightarrow> int \<Rightarrow> nat provider" where
  "ex_provider i priority = \<lparr>pv_spec = Some (ex_provider_spec i priority), pv_evaluate = Some ex_evaluate, pv_transition = Some ex_apply,
     pv_materialize = Some ex_export, pv_release = None\<rparr>"

definition ex_registry :: "nat registry" where
  "ex_registry = \<lparr>rg_providers = [(''a'', ex_provider ''a'' 1), (''b'', ex_provider ''b'' 2)],
     rg_specs = [(''a'', ex_provider_spec ''a'' 1), (''b'', ex_provider_spec ''b'' 2)], rg_certified = []\<rparr>"

definition ex_eval_request :: eval_request where
  "ex_eval_request = \<lparr>rq_id = ''q'', rq_problem = ''sphere'', rq_states = [Inline_State (PNum 1)], rq_mode = ''evaluate'',
     rq_caps = [\<lparr>cap_name = ''grad'', cap_policy = ''required'', cap_meta = []\<rparr>], rq_payload = [], rq_meta = []\<rparr>"

definition ex_grant_context :: resource_context where
  "ex_grant_context = \<lparr>ctx_scope = ''s'', ctx_execution_backend = ''local'', ctx_compute_backend = ''auto'', ctx_device = ''cpu'',
     ctx_threads = 1, ctx_nested = False, ctx_namespace = ''ns'', ctx_grant = empty_grant,
     ctx_lease = \<lparr>lm_lease_id = ''l'', lm_fencing_token = 1, lm_resources = empty_grant\<rparr>, ctx_metadata = []\<rparr>"




lemma ex_registry_ok: "registry_ok ex_registry"
  by (simp add: registry_ok_def ex_registry_def ex_provider_spec_def)

lemma ex_bound: "\<exists>bd. bind_request ex_digest (\<lambda>_. ''u'') ex_eval_request ex_grant_context ex_registry = Inr bd"
proof -
  have "isl (bind_request ex_digest (\<lambda>_. ''u'') ex_eval_request ex_grant_context ex_registry) = False" by code_simp
  then show ?thesis by (metis isl_def sum.exhaust)
qed


lemma bindings_within_grant_witness:
  "\<exists>bd. bind_request ex_digest (\<lambda>_. ''u'') ex_eval_request ex_grant_context ex_registry = Inr bd
    \<and> (\<exists>k sp. (k, bd_provider bd) \<in> set (rg_providers ex_registry) \<and> map_of (rg_specs ex_registry) k = Some sp
      \<and> serves sp ex_eval_request (context_copy ex_grant_context) (bd_binding bd))"
  using ex_bound bindings_within_grant[of ex_digest "\<lambda>_. ''u''" ex_eval_request ex_grant_context ex_registry] by fast

lemma bind_order_irrelevant_witness:
  "\<exists>bd. bind_request ex_digest (\<lambda>_. ''u'') ex_eval_request ex_grant_context
      (ex_registry\<lparr>rg_providers := rev (rg_providers ex_registry)\<rparr>) = Inr bd"
  using ex_bound bind_order_irrelevant[OF ex_registry_ok, of "ex_registry\<lparr>rg_providers := rev (rg_providers ex_registry)\<rparr>"]
  by fastforce



section \<open>What the checks let through\<close>

text \<open>
  Copy-on-write is checked slot by slot: a provider that hands the state of one slot to another
  passes, although no returned slot is a new state.
\<close>

lemma swapped_slots_pass:
  assumes "sr_id a \<noteq> sr_id b" "\<forall>s\<in>{a, b}. sr_scope s = sr_scope (tq_ref q) \<and> sr_device s = sr_device (tq_ref q)
      \<and> sr_transport s = sr_transport (tq_ref q)"
    and "tq_slots q = [(''m'', a), (''v'', b)]" "tr_slots r = [(''m'', b), (''v'', a)]" "tr_status r = ''applied''"
    and "tr_ref r = (tq_ref q)\<lparr>sr_version := sr_version (tq_ref q) + 1\<rparr>"
  shows "validate_transition_successor q r = Inr ()"
  using assms by (auto simp: validate_transition_successor_def slot_allowed_def ref_eq_def) (cases "tq_ref q"; simp)+

text \<open>
  A physical token \<open>gpu:0\<close> is offered as \<open>cuda:0\<close>: a provider that supports \<open>gpu:0\<close> finds no device in
  a grant with exactly this token. A token that only contains \<open>gpu\<close> is an accelerator to the resource
  model and none to the registry: a requirement of this one granted token is refused.
\<close>

definition token_context :: "string \<Rightarrow> resource_context" where
  "token_context t = ex_grant_context\<lparr>ctx_grant := empty_grant\<lparr>g_device_tokens := Val [t]\<rparr>\<rparr>"

lemma gpu_token_renamed:
  "select_device ((ex_provider_spec ''a'' 1)\<lparr>sp_supported := [''gpu:0''], sp_preferred := [''gpu:0'']\<rparr>) (token_context ''gpu:0'') None = None
   \<and> select_device ((ex_provider_spec ''a'' 1)\<lparr>sp_supported := [''cuda:0''], sp_preferred := [''cuda:0'']\<rparr>) (token_context ''gpu:0'') None = Some ''cuda:0''"
  by code_simp

lemma token_family_differs:
  "let req = requirement_post_init (any_requirement\<lparr>need_device_tokens := [''node-gpu'']\<rparr>)
   in need_gpus req = 1 \<and> resource_mismatch req (token_context ''node-gpu'') = Some Gpus_Exceed"
  by code_simp

end
