(* ===== verification/Plugin_Manager.thy ===== *)
theory Plugin_Manager
  imports Wire
begin

text \<open>
  \<open>plugin/base.py\<close> and \<open>plugin/lifecycle.py\<close>: plugins, their registration and order, the dispatch
  of events and the lifecycles with their receipts. Plugins are objects, by their number. Their
  hooks are user code: a hook takes its arguments, the objects and the world \<open>'s\<close>, and gives a value
  or an exception together with what the three are afterwards; it does not change the manager while
  an event runs. The calls of the instrumentation hook are kept as a trace. \<open>c\<close> are the readings of
  the clock; warnings and soft-error reports are not modelled.
\<close>

section \<open>Plugins\<close>

record plugin =
  pl_name :: string
  pl_priority :: int
  pl_enabled :: bool
  pl_solver :: "nat option"
  pl_config :: dict
  pl_algorithmic :: bool
  pl_total :: rat
  pl_events :: "(string \<times> rat) list"
  pl_attach_failed :: bool
  pl_raise_init :: bool
  pl_strict_init :: bool
  pl_raise_restore :: bool

definition plugin_init :: "string \<Rightarrow> nat option \<Rightarrow> int \<Rightarrow> plugin" where
  "plugin_init name solver priority = \<lparr>pl_name = name, pl_priority = priority, pl_enabled = True, pl_solver = solver, pl_config = [],
     pl_algorithmic = False, pl_total = 0, pl_events = [], pl_attach_failed = False, pl_raise_init = False,
     pl_strict_init = False, pl_raise_restore = False\<rparr>"

definition plugin_configure :: "dict \<Rightarrow> plugin \<Rightarrow> plugin" where
  "plugin_configure d p = p\<lparr>pl_config := dict_update (pl_config p) d\<rparr>"

definition plugin_get_config :: "string \<Rightarrow> pyval \<Rightarrow> plugin \<Rightarrow> pyval" where
  "plugin_get_config k dflt p = dict_get (pl_config p) k dflt"

definition plugin_report :: "plugin \<Rightarrow> pyval" where
  "plugin_report p = (if pl_algorithmic p then PMap [(''config'', PMap (pl_config p))] else PNone)"

record hook_event =
  he_mode :: string
  he_event :: string
  he_plugin :: nat
  he_error :: "py_error option"
  he_result :: bool

record 's plugin_world =
  pw_objs :: "nat \<Rightarrow> plugin"
  pw_env :: 's
  pw_trace :: "hook_event list"

type_synonym 's hook = "pyval list \<Rightarrow> (nat \<Rightarrow> plugin) \<times> 's \<Rightarrow> pyval result \<times> pyval list \<times> (nat \<Rightarrow> plugin) \<times> 's"

text \<open>\<open>code p event\<close>: the handler of a plugin, \<open>None\<close> when it has none; \<open>attach\<close> is overridable.\<close>

record 's plugin_code =
  pc_hook :: "nat \<Rightarrow> string \<Rightarrow> 's hook option"
  pc_attach :: "nat \<Rightarrow> nat \<Rightarrow> (nat \<Rightarrow> plugin) \<times> 's \<Rightarrow> unit result \<times> (nat \<Rightarrow> plugin) \<times> 's"

definition default_attach :: "nat \<Rightarrow> nat \<Rightarrow> (nat \<Rightarrow> plugin) \<times> 's \<Rightarrow> unit result \<times> (nat \<Rightarrow> plugin) \<times> 's" where
  "default_attach p solver w = (Inr (), (fst w)(p := (fst w p)\<lparr>pl_solver := Some solver\<rparr>), snd w)"

definition emit :: "hook_event \<Rightarrow> 's plugin_world \<Rightarrow> 's plugin_world" where
  "emit e w = w\<lparr>pw_trace := pw_trace w @ [e]\<rparr>"

definition profile :: "nat \<Rightarrow> string \<Rightarrow> rat \<Rightarrow> 's plugin_world \<Rightarrow> 's plugin_world" where
  "profile p event dt w = (let o1 = pw_objs w p; d = max 0 dt in w\<lparr>pw_objs := (pw_objs w)(p := o1\<lparr>pl_total := pl_total o1 + d,
     pl_events := AList.update event ((case map_of (pl_events o1) event of None \<Rightarrow> 0 | Some x \<Rightarrow> x) + d) (pl_events o1)\<rparr>)\<rparr>)"

text \<open>\<open>except Exception\<close> does not catch these.\<close>

definition is_exception :: "py_error \<Rightarrow> bool" where
  "is_exception e \<longleftrightarrow> e \<notin> {UserError ''KeyboardInterrupt'', UserError ''SystemExit'', UserError ''GeneratorExit''}"

definition receives :: "'s plugin_world \<Rightarrow> nat \<Rightarrow> bool" where
  "receives w p \<longleftrightarrow> pl_enabled (pw_objs w p) \<and> \<not> pl_attach_failed (pw_objs w p)"

definition call_hook :: "'s hook \<Rightarrow> pyval list \<Rightarrow> 's plugin_world \<Rightarrow> pyval result \<times> pyval list \<times> 's plugin_world" where
  "call_hook h args w = (case h args (pw_objs w, pw_env w) of (res, args', objs, env) \<Rightarrow>
     (res, args', w\<lparr>pw_objs := objs, pw_env := env\<rparr>))"

section \<open>Registration and order\<close>

record manager =
  mg_plugins :: "nat list"
  mg_map :: "(string \<times> nat) list"
  mg_short :: bool
  mg_short_events :: "string list"
  mg_strict :: bool
  mg_solver :: "nat option"
  mg_writers :: "(string \<times> string) list"

definition manager_init :: "bool \<Rightarrow> string list \<Rightarrow> bool \<Rightarrow> manager" where
  "manager_init short events strict = \<lparr>mg_plugins = [], mg_map = [], mg_short = short, mg_short_events = events, mg_strict = strict,
     mg_solver = None, mg_writers = []\<rparr>"

definition manager_register :: "(nat \<Rightarrow> plugin) \<Rightarrow> nat \<Rightarrow> manager \<Rightarrow> unit result \<times> manager" where
  "manager_register objs p m =
     (if pl_name (objs p) \<in> fst ` set (mg_map m) then (Inl ValueError, m)
      else (Inr (), m\<lparr>mg_plugins := sort_key (\<lambda>q. pl_priority (objs q)) (mg_plugins m @ [p]),
        mg_map := AList.update (pl_name (objs p)) p (mg_map m)\<rparr>))"

definition manager_unregister :: "string \<Rightarrow> manager \<Rightarrow> unit result \<times> manager" where
  "manager_unregister name m = (case map_of (mg_map m) name of
     None \<Rightarrow> (Inl ValueError, m)
   | Some p \<Rightarrow> (Inr (), m\<lparr>mg_plugins := remove1 p (mg_plugins m), mg_map := AList.delete name (mg_map m)\<rparr>))"

definition manager_get :: "string \<Rightarrow> manager \<Rightarrow> nat option" where
  "manager_get name m = map_of (mg_map m) name"

definition manager_switch :: "bool \<Rightarrow> string \<Rightarrow> manager \<Rightarrow> 's plugin_world \<Rightarrow> 's plugin_world" where
  "manager_switch on name m w = (case manager_get name m of None \<Rightarrow> w
     | Some p \<Rightarrow> w\<lparr>pw_objs := (pw_objs w)(p := (pw_objs w p)\<lparr>pl_enabled := on\<rparr>)\<rparr>)"

text \<open>The named plugins first, each once, then the others.\<close>

fun pick_named :: "(string \<Rightarrow> nat option) \<Rightarrow> string list \<Rightarrow> string set \<Rightarrow> nat list \<times> string set" where
  "pick_named by_name [] seen = ([], seen)"
| "pick_named by_name (n # ns) seen =
     (if by_name n = None \<or> n \<in> seen then pick_named by_name ns seen
      else case pick_named by_name ns (insert n seen) of (ps, seen') \<Rightarrow> (the (by_name n) # ps, seen'))"

definition set_execution_order :: "(nat \<Rightarrow> plugin) \<Rightarrow> string list \<Rightarrow> manager \<Rightarrow> manager" where
  "set_execution_order objs names m =
     (let by_name = map_of (rev (map (\<lambda>p. (pl_name (objs p), p)) (mg_plugins m))) in
      case pick_named by_name names {} of (ps, seen) \<Rightarrow>
        m\<lparr>mg_plugins := ps @ filter (\<lambda>p. pl_name (objs p) \<notin> seen) (mg_plugins m)\<rparr>)"

definition list_plugins :: "bool \<Rightarrow> (nat \<Rightarrow> plugin) \<Rightarrow> manager \<Rightarrow> nat list" where
  "list_plugins enabled_only objs m = (if enabled_only then filter (\<lambda>p. pl_enabled (objs p)) (mg_plugins m) else mg_plugins m)"

definition manager_clear :: "manager \<Rightarrow> manager" where
  "manager_clear m = m\<lparr>mg_plugins := [], mg_map := []\<rparr>"

section \<open>Events\<close>

text \<open>\<open>trigger\<close>.\<close>

fun trigger_loop :: "'s plugin_code \<Rightarrow> bool \<Rightarrow> bool \<Rightarrow> clock \<Rightarrow> string \<Rightarrow> nat list \<Rightarrow> pyval list \<Rightarrow> 's plugin_world \<Rightarrow> pyval result \<times> 's plugin_world" where
  "trigger_loop code strict short c event [] args w = (Inr PNone, w)"
| "trigger_loop code strict short c event (p # ps) args w =
     (if \<not> receives w p then trigger_loop code strict short c event ps args w
      else case pc_hook code p event of None \<Rightarrow> trigger_loop code strict short c event ps args w
      | Some h \<Rightarrow> (case call_hook h args w of
          (Inl e, args', w1) \<Rightarrow>
            if \<not> is_exception e then (Inl e, w1)
            else (let w2 = emit \<lparr>he_mode = ''trigger'', he_event = event, he_plugin = p, he_error = Some e, he_result = False\<rparr> w1 in
              if strict then (Inl RuntimeError, w2) else trigger_loop code strict short (\<lambda>n. c (n + 2)) event ps args' w2)
        | (Inr v, args', w1) \<Rightarrow>
            (let w2 = emit \<lparr>he_mode = ''trigger'', he_event = event, he_plugin = p, he_error = None, he_result = (v \<noteq> PNone)\<rparr>
                   (profile p event (c 1 - c 0) w1) in
             if short \<and> v \<noteq> PNone then (Inr v, w2) else trigger_loop code strict short (\<lambda>n. c (n + 2)) event ps args' w2)))"

definition trigger :: "'s plugin_code \<Rightarrow> clock \<Rightarrow> string \<Rightarrow> pyval list \<Rightarrow> manager \<Rightarrow> 's plugin_world \<Rightarrow> pyval result \<times> 's plugin_world" where
  "trigger code c event args m w =
     trigger_loop code (mg_strict m) (mg_short m \<and> event \<in> set (mg_short_events m)) c event (mg_plugins m) args w"

text \<open>\<open>_invoke_lifecycle_handler\<close>.\<close>

definition invoke_lifecycle :: "'s hook \<Rightarrow> clock \<Rightarrow> nat \<Rightarrow> string \<Rightarrow> string \<Rightarrow> pyval list \<Rightarrow> 's plugin_world
    \<Rightarrow> pyval result \<times> pyval list \<times> 's plugin_world" where
  "invoke_lifecycle h c p event mode args w = (case call_hook h args w of
     (Inl e, args', w1) \<Rightarrow> (Inl e, args', emit \<lparr>he_mode = mode, he_event = event, he_plugin = p, he_error = Some e, he_result = False\<rparr> w1)
   | (Inr v, args', w1) \<Rightarrow> (Inr v, args', emit \<lparr>he_mode = mode, he_event = event, he_plugin = p, he_error = None, he_result = (v \<noteq> PNone)\<rparr>
       (profile p event (c 1 - c 0) w1)))"

text \<open>
  A start gives a receipt; the error of a strict start carries the partial one
  (\<open>PluginLifecycleDispatchError\<close>); other exceptions pass.
\<close>

datatype start_outcome = Started "nat list" | Start_Failed string "nat list" py_error | Start_Raised py_error

fun begin_loop :: "'s plugin_code \<Rightarrow> bool \<Rightarrow> clock \<Rightarrow> string \<Rightarrow> nat list \<Rightarrow> nat list \<Rightarrow> pyval list \<Rightarrow> 's plugin_world \<Rightarrow> start_outcome \<times> 's plugin_world" where
  "begin_loop code strict c event [] started args w = (Started started, w)"
| "begin_loop code strict c event (p # ps) started args w =
     (if \<not> receives w p then begin_loop code strict c event ps started args w
      else case pc_hook code p event of None \<Rightarrow> begin_loop code strict c event ps started args w
      | Some h \<Rightarrow> (case invoke_lifecycle h c p event ''lifecycle_start'' args w of
          (Inr v, args', w1) \<Rightarrow> begin_loop code strict (\<lambda>n. c (n + 2)) event ps (started @ [p]) args' w1
        | (Inl e, args', w1) \<Rightarrow>
            if \<not> is_exception e then (Start_Raised e, w1)
            else if strict then (Start_Failed (pl_name (pw_objs w1 p)) started e, w1)
            else begin_loop code strict (\<lambda>n. c (n + 2)) event ps started args' w1))"

definition begin_lifecycle :: "'s plugin_code \<Rightarrow> clock \<Rightarrow> string \<Rightarrow> pyval list \<Rightarrow> manager \<Rightarrow> 's plugin_world \<Rightarrow> start_outcome \<times> 's plugin_world" where
  "begin_lifecycle code c event args m w = begin_loop code (mg_strict m) c event (mg_plugins m) [] args w"

text \<open>Every participant is closed, whatever the others do; the errors are collected.\<close>

fun finish_loop :: "'s plugin_code \<Rightarrow> clock \<Rightarrow> string \<Rightarrow> nat list \<Rightarrow> pyval list \<Rightarrow> 's plugin_world \<Rightarrow> (string \<times> py_error) list \<times> 's plugin_world" where
  "finish_loop code c event [] args w = ([], w)"
| "finish_loop code c event (p # ps) args w = (case pc_hook code p event of
     None \<Rightarrow> finish_loop code c event ps args w
   | Some h \<Rightarrow> (case invoke_lifecycle h c p event ''lifecycle_end'' args w of (res, args', w1) \<Rightarrow>
       (case finish_loop code (\<lambda>n. c (n + 2)) event ps args' w1 of (errs, w2) \<Rightarrow>
         ((case res of Inl e \<Rightarrow> (pl_name (pw_objs w1 p), e) # errs | Inr v \<Rightarrow> errs), w2))))"

text \<open>\<open>PluginLifecycleCleanupError\<close> with the collected errors.\<close>

definition finish_lifecycle :: "'s plugin_code \<Rightarrow> clock \<Rightarrow> nat list \<Rightarrow> string \<Rightarrow> pyval list \<Rightarrow> manager \<Rightarrow> 's plugin_world
    \<Rightarrow> ((string \<times> py_error) list + unit) \<times> 's plugin_world" where
  "finish_lifecycle code c receipt event args m w = (case finish_loop code c event receipt args w of (errs, w') \<Rightarrow>
     (if errs \<noteq> [] \<and> mg_strict m then Inl errs else Inr (), w'))"

definition current_receipt :: "manager \<Rightarrow> 's plugin_world \<Rightarrow> nat list" where
  "current_receipt m w = filter (receives w) (mg_plugins m)"

section \<open>Building the context\<close>

text \<open>\<open>_collect_changed_keys\<close>; the code goes through a set, so the order is not fixed.\<close>

definition changed_keys :: "dict \<Rightarrow> dict \<Rightarrow> string list" where
  "changed_keys old new = filter (\<lambda>k. case (map_of old k, map_of new k) of
       (Some a, Some b) \<Rightarrow> \<not> py_eq a b | _ \<Rightarrow> True) (remdups (map fst old @ map fst new))"

definition record_writers :: "string list \<Rightarrow> string \<Rightarrow> (string \<times> string) list \<Rightarrow> (string \<times> string) list" where
  "record_writers keys source ws = fold (\<lambda>k. AList.update k source) keys ws"

text \<open>
  \<open>dispatch\<close> with the context as first argument: a hook changes it in place or returns another one.
\<close>

fun build_loop :: "'s plugin_code \<Rightarrow> bool \<Rightarrow> string \<Rightarrow> nat list \<Rightarrow> dict \<Rightarrow> pyval list \<Rightarrow> (string \<times> string) list \<Rightarrow> 's plugin_world
    \<Rightarrow> (dict \<times> (string \<times> string) list) result \<times> 's plugin_world" where
  "build_loop code strict event [] ctx args ws w = (Inr (ctx, ws), w)"
| "build_loop code strict event (p # ps) ctx args ws w =
     (if \<not> receives w p then build_loop code strict event ps ctx args ws w
      else case pc_hook code p event of None \<Rightarrow> build_loop code strict event ps ctx args ws w
      | Some h \<Rightarrow> (case call_hook h (PMap ctx # args) w of (res, all_args, w1) \<Rightarrow>
          (let after = (case all_args of PMap d # _ \<Rightarrow> d | _ \<Rightarrow> ctx); args' = drop 1 all_args in
           case res of
             Inl e \<Rightarrow>
               if \<not> is_exception e then (Inl e, w1)
               else (let w2 = emit \<lparr>he_mode = ''dispatch'', he_event = event, he_plugin = p, he_error = Some e, he_result = False\<rparr> w1 in
                 if strict then (Inl RuntimeError, w2) else build_loop code strict event ps after args' ws w2)
           | Inr v \<Rightarrow>
               (let w2 = emit \<lparr>he_mode = ''dispatch'', he_event = event, he_plugin = p, he_error = None, he_result = (v \<noteq> PNone)\<rparr> w1;
                    new = (case v of PMap d \<Rightarrow> d | _ \<Rightarrow> after) in
                build_loop code strict event ps new args'
                  (record_writers (changed_keys ctx new) (''plugin.'' @ pl_name (pw_objs w1 p)) ws) w2))))"

fun dispatch_loop :: "'s plugin_code \<Rightarrow> bool \<Rightarrow> string \<Rightarrow> nat list \<Rightarrow> pyval list \<Rightarrow> pyval \<Rightarrow> 's plugin_world \<Rightarrow> pyval result \<times> 's plugin_world" where
  "dispatch_loop code strict event [] args out w = (Inr out, w)"
| "dispatch_loop code strict event (p # ps) args out w =
     (if \<not> receives w p then dispatch_loop code strict event ps args out w
      else case pc_hook code p event of None \<Rightarrow> dispatch_loop code strict event ps args out w
      | Some h \<Rightarrow> (case call_hook h args w of
          (Inl e, args', w1) \<Rightarrow>
            if \<not> is_exception e then (Inl e, w1)
            else (let w2 = emit \<lparr>he_mode = ''dispatch'', he_event = event, he_plugin = p, he_error = Some e, he_result = False\<rparr> w1 in
              if strict then (Inl RuntimeError, w2) else dispatch_loop code strict event ps args' out w2)
        | (Inr v, args', w1) \<Rightarrow>
            (let w2 = emit \<lparr>he_mode = ''dispatch'', he_event = event, he_plugin = p, he_error = None, he_result = (v \<noteq> PNone)\<rparr> w1 in
             dispatch_loop code strict event ps args' (if v = PNone then out else v) w2)))"

definition dispatch :: "'s plugin_code \<Rightarrow> string \<Rightarrow> pyval list \<Rightarrow> manager \<Rightarrow> 's plugin_world \<Rightarrow> pyval result \<times> manager \<times> 's plugin_world" where
  "dispatch code event args m w = (case args of
     PMap ctx # rest \<Rightarrow> if event = ''on_context_build'' then
         (case build_loop code (mg_strict m) event (mg_plugins m) ctx rest [] w of
           (Inl e, w') \<Rightarrow> (Inl e, m, w')
         | (Inr (ctx', ws), w') \<Rightarrow> (Inr (PMap ctx'), m\<lparr>mg_writers := ws\<rparr>, w'))
       else (case dispatch_loop code (mg_strict m) event (mg_plugins m) args PNone w of (r, w') \<Rightarrow> (r, m, w'))
   | _ \<Rightarrow> (case dispatch_loop code (mg_strict m) event (mg_plugins m) args PNone w of (r, w') \<Rightarrow> (r, m, w')))"

section \<open>The run lifecycle\<close>

definition call_attach :: "'s plugin_code \<Rightarrow> nat \<Rightarrow> nat \<Rightarrow> 's plugin_world \<Rightarrow> unit result \<times> 's plugin_world" where
  "call_attach code p solver w = (if pl_solver (pw_objs w p) = Some solver then (Inr (), w)
     else case pc_attach code p solver (pw_objs w, pw_env w) of (res, objs, env) \<Rightarrow> (res, w\<lparr>pw_objs := objs, pw_env := env\<rparr>))"

definition mark_failed :: "nat \<Rightarrow> 's plugin_world \<Rightarrow> 's plugin_world" where
  "mark_failed p w = w\<lparr>pw_objs := (pw_objs w)(p := (pw_objs w p)\<lparr>pl_attach_failed := True\<rparr>)\<rparr>"

text \<open>\<open>on_solver_init\<close>; \<open>solver_strict\<close> is the flag \<open>plugin_strict\<close> of the solver.\<close>

fun init_loop :: "'s plugin_code \<Rightarrow> bool \<Rightarrow> bool \<Rightarrow> clock \<Rightarrow> nat \<Rightarrow> nat list \<Rightarrow> nat list \<Rightarrow> pyval list \<Rightarrow> 's plugin_world \<Rightarrow> start_outcome \<times> 's plugin_world" where
  "init_loop code strict solver_strict c solver [] started args w = (Started started, w)"
| "init_loop code strict solver_strict c solver (p # ps) started args w =
     (if \<not> receives w p then init_loop code strict solver_strict c solver ps started args w
      else case call_attach code p solver w of
        (Inl e, w1) \<Rightarrow>
          if \<not> is_exception e then (Start_Raised e, w1)
          else (let w2 = mark_failed p w1 in
            if strict \<or> solver_strict then (Start_Failed (pl_name (pw_objs w2 p)) started e, w2)
            else init_loop code strict solver_strict c solver ps started args w2)
      | (Inr _, w1) \<Rightarrow>
          (case (case pc_hook code p ''on_solver_init'' of None \<Rightarrow> (Inl AttributeError, args, w1)
                 | Some h \<Rightarrow> invoke_lifecycle h c p ''on_solver_init'' ''run_lifecycle_start'' args w1) of
            (Inr v, args', w2) \<Rightarrow> init_loop code strict solver_strict (\<lambda>n. c (n + 2)) solver ps (started @ [p]) args' w2
          | (Inl e, args', w2) \<Rightarrow>
              if \<not> is_exception e then (Start_Raised e, w2)
              else if pl_raise_init (pw_objs w2 p) \<or> pl_strict_init (pw_objs w2 p) \<or> strict \<or> solver_strict
                then (Start_Failed (pl_name (pw_objs w2 p)) started e, w2)
              else init_loop code strict solver_strict (\<lambda>n. c (n + 2)) solver ps started args' w2))"

definition on_solver_init :: "'s plugin_code \<Rightarrow> bool \<Rightarrow> clock \<Rightarrow> nat \<Rightarrow> manager \<Rightarrow> 's plugin_world \<Rightarrow> start_outcome \<times> manager \<times> 's plugin_world" where
  "on_solver_init code solver_strict c solver m w =
     (case init_loop code (mg_strict m) solver_strict c solver (mg_plugins m) [] [PObject ''solver''] w of (out, w') \<Rightarrow>
       (out, m\<lparr>mg_solver := Some solver, mg_writers := []\<rparr>, w'))"

text \<open>\<open>prepare_restore\<close>: no instrumentation, no receipt.\<close>

fun restore_loop :: "'s plugin_code \<Rightarrow> bool \<Rightarrow> nat \<Rightarrow> nat list \<Rightarrow> pyval list \<Rightarrow> 's plugin_world \<Rightarrow> unit result \<times> 's plugin_world" where
  "restore_loop code solver_strict solver [] args w = (Inr (), w)"
| "restore_loop code solver_strict solver (p # ps) args w =
     (if \<not> receives w p then restore_loop code solver_strict solver ps args w
      else case call_attach code p solver w of
        (Inl e, w1) \<Rightarrow>
          if \<not> is_exception e then (Inl e, w1)
          else (let w2 = mark_failed p w1 in if solver_strict then (Inl e, w2) else restore_loop code solver_strict solver ps args w2)
      | (Inr _, w1) \<Rightarrow>
          (case (case pc_hook code p ''prepare_restore'' of None \<Rightarrow> (Inl AttributeError, args, w1) | Some h \<Rightarrow> call_hook h args w1) of
            (Inr v, args', w2) \<Rightarrow> restore_loop code solver_strict solver ps args' w2
          | (Inl e, args', w2) \<Rightarrow>
              if \<not> is_exception e \<or> pl_raise_restore (pw_objs w2 p) \<or> pl_raise_init (pw_objs w2 p) \<or> solver_strict then (Inl e, w2)
              else restore_loop code solver_strict solver ps args' w2))"

definition prepare_restore :: "'s plugin_code \<Rightarrow> bool \<Rightarrow> nat \<Rightarrow> manager \<Rightarrow> 's plugin_world \<Rightarrow> unit result \<times> manager \<times> 's plugin_world" where
  "prepare_restore code solver_strict solver m w =
     (case restore_loop code solver_strict solver (mg_plugins m) [PObject ''solver''] w of (r, w') \<Rightarrow> (r, m\<lparr>mg_solver := Some solver\<rparr>, w'))"

definition on_solver_finish :: "'s plugin_code \<Rightarrow> clock \<Rightarrow> pyval \<Rightarrow> manager \<Rightarrow> 's plugin_world \<Rightarrow> ((string \<times> py_error) list + unit) \<times> 's plugin_world" where
  "on_solver_finish code c result m w = finish_lifecycle code c (current_receipt m w) ''on_solver_finish'' [result] m w"

definition on_error :: "'s plugin_code \<Rightarrow> clock \<Rightarrow> pyval \<Rightarrow> pyval \<Rightarrow> manager \<Rightarrow> 's plugin_world \<Rightarrow> ((string \<times> py_error) list + unit) \<times> 's plugin_world" where
  "on_error code c err context m w = finish_lifecycle code c (current_receipt m w) ''on_error'' [err, context] m w"

end
