(* ===== verification/Plugin_Properties.thy ===== *)
theory Plugin_Properties
  imports Plugin_Manager "HOL-Library.Multiset" "HOL-Library.Sublist"
begin

text \<open>
  What the plugin manager promises: the receipt of a start names the plugins whose start hook
  succeeded, an end reaches every one of them once, the list and the map of the manager agree, and
  the recorded writers of a context cover its changes.
\<close>

section \<open>The trace of an event\<close>

lemma call_hook_trace: "call_hook h args w = (res, args', w') \<Longrightarrow> pw_trace w' = pw_trace w"
  by (auto simp: call_hook_def split: prod.splits)

lemma trace_profile [simp]: "pw_trace (profile p event dt w) = pw_trace w"
  by (simp add: profile_def Let_def)

lemma trace_emit [simp]: "pw_trace (emit e w) = pw_trace w @ [e]"
  by (simp add: emit_def)

lemma trace_mark_failed [simp]: "pw_trace (mark_failed p w) = pw_trace w"
  by (simp add: mark_failed_def)



text \<open>The plugins whose call succeeded and those that were called.\<close>

definition succeeded :: "hook_event list \<Rightarrow> nat list" where
  "succeeded es = map he_plugin (filter (\<lambda>e. he_error e = None) es)"

definition failures :: "hook_event list \<Rightarrow> py_error list" where
  "failures es = List.map_filter he_error es"

definition only :: "string \<Rightarrow> string \<Rightarrow> hook_event list \<Rightarrow> bool" where
  "only mode event es \<longleftrightarrow> list_all (\<lambda>e. he_mode e = mode \<and> he_event e = event) es"

lemma event_lists [simp]:
  "succeeded [] = []" "failures [] = []" "only mode event []"
  "succeeded (e # es) = (if he_error e = None then he_plugin e # succeeded es else succeeded es)"
  "failures (e # es) = (case he_error e of None \<Rightarrow> failures es | Some x \<Rightarrow> x # failures es)"
  "only mode event (e # es) \<longleftrightarrow> he_mode e = mode \<and> he_event e = event \<and> only mode event es"
  by (simp_all add: succeeded_def failures_def only_def List.map_filter_def split: option.splits)

definition receipt_of :: "start_outcome \<Rightarrow> nat list option" where
  "receipt_of out = (case out of Started ps \<Rightarrow> Some ps | Start_Failed n ps e \<Rightarrow> Some ps | Start_Raised e \<Rightarrow> None)"

lemma receipt_of_simps [simp]:
  "receipt_of (Started ps) = Some ps" "receipt_of (Start_Failed n ps e) = Some ps" "receipt_of (Start_Raised e) = None"
  by (simp_all add: receipt_of_def)

section \<open>Starts and ends\<close>




text \<open>What an operation adds to the trace.\<close>

definition new_events :: "'s plugin_world \<Rightarrow> 's plugin_world \<Rightarrow> hook_event list" where
  "new_events w w' = drop (length (pw_trace w)) (pw_trace w')"

lemma new_events_app: "pw_trace w' = pw_trace w @ es \<Longrightarrow> new_events w w' = es"
  by (simp add: new_events_def)






section \<open>Registration\<close>

definition manager_ok :: "(nat \<Rightarrow> plugin) \<Rightarrow> manager \<Rightarrow> bool" where
  "manager_ok objs m \<longleftrightarrow> distinct (mg_plugins m) \<and> distinct (map fst (mg_map m))
     \<and> set (mg_map m) = (\<lambda>p. (pl_name (objs p), p)) ` set (mg_plugins m)"

datatype manager_op = Register nat | Unregister string | Order "string list" | Clear

definition manager_step :: "(nat \<Rightarrow> plugin) \<Rightarrow> manager_op \<Rightarrow> manager \<Rightarrow> manager" where
  "manager_step objs o1 m = (case o1 of Register p \<Rightarrow> snd (manager_register objs p m) | Unregister n \<Rightarrow> snd (manager_unregister n m)
     | Order ns \<Rightarrow> set_execution_order objs ns m | Clear \<Rightarrow> manager_clear m)"

lemma ok_entry: "manager_ok objs m \<Longrightarrow> (n, p) \<in> set (mg_map m) \<longleftrightarrow> p \<in> set (mg_plugins m) \<and> n = pl_name (objs p)"
  by (auto simp: manager_ok_def)

lemma ok_names_inj: "manager_ok objs m \<Longrightarrow> inj_on (\<lambda>p. pl_name (objs p)) (set (mg_plugins m))"
proof (rule inj_onI)
  fix p q assume m: "manager_ok objs m" and p: "p \<in> set (mg_plugins m)" and q: "q \<in> set (mg_plugins m)"
    and n: "pl_name (objs p) = pl_name (objs q)"
  then have "(pl_name (objs p), p) \<in> set (mg_map m)" "(pl_name (objs p), q) \<in> set (mg_map m)"
    by (simp_all add: ok_entry)
  then show "p = q" using m by (meson manager_ok_def eq_key_imp_eq_value)
qed

lemma ok_lookup:
  assumes "manager_ok objs m"
  shows "map_of (mg_map m) n = Some p \<longleftrightarrow> p \<in> set (mg_plugins m) \<and> pl_name (objs p) = n"
proof -
  have "distinct (map fst (mg_map m))" using assms by (simp add: manager_ok_def)
  then show ?thesis using ok_entry [OF assms, of n p] by auto
qed

lemma pick_named_result:
  assumes "pick_named by_name ns seen = (ps, seen')" "\<And>n p. by_name n = Some p \<Longrightarrow> f p = n"
  shows "distinct ps \<and> seen \<subseteq> seen' \<and> set ps = {p. by_name (f p) = Some p \<and> f p \<in> seen' - seen}"
  using assms(1)
proof (induction ns arbitrary: seen ps)
  case (Cons n ns)
  show ?case
  proof (cases "by_name n = None \<or> n \<in> seen")
    case True
    then show ?thesis using Cons by auto
  next
    case False
    then obtain p qs where p: "by_name n = Some p" "n \<notin> seen" "pick_named by_name ns (insert n seen) = (qs, seen')" "ps = p # qs"
      using Cons.prems by (auto split: prod.splits)
    have f: "f p = n" using assms(2) p(1) .
    have IH: "distinct qs" "insert n seen \<subseteq> seen'" "set qs = {p. by_name (f p) = Some p \<and> f p \<in> seen' - insert n seen}"
      using Cons.IH [OF p(3)] by auto
    have "set ps = {p. by_name (f p) = Some p \<and> f p \<in> seen' - seen}"
    proof (rule set_eqI)
      fix q
      show "q \<in> set ps \<longleftrightarrow> q \<in> {p. by_name (f p) = Some p \<and> f p \<in> seen' - seen}"
        using IH(2,3) p f by (cases "f q = n") auto
    qed
    then show ?thesis using IH p f by auto
  qed
qed auto

lemma order_permutes:
  assumes "manager_ok objs m"
  shows "distinct (mg_plugins (set_execution_order objs ns m)) \<and> set (mg_plugins (set_execution_order objs ns m)) = set (mg_plugins m)"
proof -
  define by_name where "by_name = map_of (rev (map (\<lambda>p. (pl_name (objs p), p)) (mg_plugins m)))"
  have "distinct (map fst (rev (map (\<lambda>p. (pl_name (objs p), p)) (mg_plugins m))))"
    using assms ok_names_inj [OF assms] by (simp add: manager_ok_def rev_map [symmetric] distinct_map o_def)
  then have bn: "by_name n = Some p \<longleftrightarrow> p \<in> set (mg_plugins m) \<and> pl_name (objs p) = n" for n p
    by (auto simp: by_name_def)
  obtain ps seen where r: "pick_named by_name ns {} = (ps, seen)" by fastforce
  have "distinct ps \<and> {} \<subseteq> seen \<and> set ps = {p. by_name (pl_name (objs p)) = Some p \<and> pl_name (objs p) \<in> seen - {}}"
    by (rule pick_named_result [OF r]) (simp add: bn)
  then have "distinct ps" "set ps = {p \<in> set (mg_plugins m). pl_name (objs p) \<in> seen}" using bn by auto
  then show ?thesis using r assms by (auto simp: set_execution_order_def manager_ok_def by_name_def [symmetric])
qed

lemma order_keeps_plugins:
  assumes "manager_ok objs m"
  shows "mset (mg_plugins (set_execution_order objs ns m)) = mset (mg_plugins m)"
  using order_permutes [OF assms] assms by (metis manager_ok_def set_eq_iff_mset_eq_distinct)

lemma manager_step_ok:
  assumes "manager_ok objs m"
  shows "manager_ok objs (manager_step objs o1 m)"
proof (cases o1)
  case (Register p)
  show ?thesis
  proof (cases "pl_name (objs p) \<in> fst ` set (mg_map m)")
    case False
    then have n: "map_of (mg_map m) (pl_name (objs p)) = None" by (simp add: map_of_eq_None_iff)
    have "p \<notin> set (mg_plugins m)"
    proof
      assume "p \<in> set (mg_plugins m)"
      then have "(pl_name (objs p), p) \<in> set (mg_map m)" by (simp add: ok_entry [OF assms])
      then show False using False by force
    qed
    moreover have "AList.update (pl_name (objs p)) p (mg_map m) = mg_map m @ [(pl_name (objs p), p)]"
      using False by (rule update_new)
    ultimately show ?thesis using assms False Register by (auto simp: manager_step_def manager_register_def manager_ok_def)
  qed (use assms Register in \<open>simp add: manager_step_def manager_register_def\<close>)
next
  case (Unregister n)
  show ?thesis
  proof (cases "map_of (mg_map m) n")
    case (Some p)
    then have p: "p \<in> set (mg_plugins m)" "pl_name (objs p) = n" using ok_lookup [OF assms] by auto
    have "set (AList.delete n (mg_map m)) = (\<lambda>p. (pl_name (objs p), p)) ` (set (mg_plugins m) - {p})"
    proof (rule set_eqI)
      fix e :: "string \<times> nat"
      obtain k q where e: "e = (k, q)" by fastforce
      show "e \<in> set (AList.delete n (mg_map m)) \<longleftrightarrow> e \<in> (\<lambda>p. (pl_name (objs p), p)) ` (set (mg_plugins m) - {p})"
        using e p inj_onD [OF ok_names_inj [OF assms], of p q] by (auto simp: AList.delete_eq ok_entry [OF assms])
    qed
    then show ?thesis using assms Unregister Some
      by (auto simp: manager_step_def manager_unregister_def manager_ok_def set_remove1_eq distinct_delete)
  qed (use assms Unregister in \<open>simp add: manager_step_def manager_unregister_def\<close>)
next
  case (Order ns)
  have "mg_map (set_execution_order objs ns m) = mg_map m" by (simp add: set_execution_order_def Let_def split: prod.splits)
  then show ?thesis using assms Order order_permutes [OF assms, of ns] by (simp add: manager_step_def manager_ok_def)
qed (simp add: manager_step_def manager_clear_def manager_ok_def)

text \<open>
  As long as the hooks leave the names alone, any sequence of registrations, removals,
  reorderings and clearings keeps the list of plugins free of duplicates and its names in exact
  agreement with the map by name; and an explicit execution order only permutes the plugins.
\<close>

lemma manager_consistent:
  assumes "m = fold (manager_step objs) ops (manager_init short events strict)"
  shows "manager_ok objs m"
    and "map_of (mg_map m) n = Some p \<longleftrightarrow> p \<in> set (mg_plugins m) \<and> pl_name (objs p) = n"
    and "mset (mg_plugins (set_execution_order objs names m)) = mset (mg_plugins m)"
proof -
  have "manager_ok objs (fold (manager_step objs) ops m0)" if "manager_ok objs m0" for m0
    using that by (induction ops arbitrary: m0) (auto intro: manager_step_ok)
  moreover have "manager_ok objs (manager_init short events strict)" by (simp add: manager_ok_def manager_init_def)
  ultimately show ok: "manager_ok objs m" using assms by simp
  show "map_of (mg_map m) n = Some p \<longleftrightarrow> p \<in> set (mg_plugins m) \<and> pl_name (objs p) = n" by (rule ok_lookup [OF ok])
  show "mset (mg_plugins (set_execution_order objs names m)) = mset (mg_plugins m)" by (rule order_keeps_plugins [OF ok])
qed

definition ex_objs :: "nat \<Rightarrow> plugin" where
  "ex_objs p = plugin_init (replicate p CHR ''p'') None (if p = 1 then 5 else 0)"

lemma manager_consistent_witness:
  "manager_ok ex_objs (fold (manager_step ex_objs) [Register 1, Register 2, Order [''p''], Unregister ''pp''] (manager_init False [] True))
   \<and> mset (mg_plugins (set_execution_order ex_objs [''pp''] (fold (manager_step ex_objs) [Register 1, Register 2] (manager_init False [] True)))) = {#1, 2#}"
proof
  show "manager_ok ex_objs (fold (manager_step ex_objs) [Register 1, Register 2, Order [''p''], Unregister ''pp''] (manager_init False [] True))"
    by (rule manager_consistent(1) [OF refl])
  have "mg_plugins (fold (manager_step ex_objs) [Register 1, Register 2] (manager_init False [] True)) = [2, 1]" by code_simp
  then show "mset (mg_plugins (set_execution_order ex_objs [''pp''] (fold (manager_step ex_objs) [Register 1, Register 2] (manager_init False [] True)))) = {#1, 2#}"
    using manager_consistent(3) [OF refl, of ex_objs "[''pp'']" "[Register 1, Register 2]" False "[]" True] by simp
qed

text \<open>A plugin registered after an explicit order sorts the list by priority again: the explicit order is lost.\<close>

lemma register_drops_order:
  "mg_plugins (fold (manager_step ex_objs) [Register 1, Register 2, Order [''p'', ''pp'']] (manager_init False [] True)) = [1, 2]"
  "mg_plugins (fold (manager_step ex_objs) [Register 1, Register 2, Order [''p'', ''pp''], Register 3] (manager_init False [] True)) = [2, 3, 1]"
  by code_simp+

section \<open>Balanced lifecycles\<close>



definition ex_world :: "unit plugin_world" where
  "ex_world = \<lparr>pw_objs = ex_objs, pw_env = (), pw_trace = []\<rparr>"

definition ex_manager :: "bool \<Rightarrow> manager" where
  "ex_manager strict = (manager_init False [] strict)\<lparr>mg_plugins := [1, 2, 3]\<rparr>"



text \<open>An interrupt in a start hook passes: the receipt of the plugins already started is lost.\<close>

lemma interrupt_loses_receipt:
  assumes "pc_hook code p event = Some (\<lambda>args w. (Inl (UserError ''KeyboardInterrupt''), args, fst w, snd w))" "receives w p"
  shows "fst (begin_loop code strict c event (p # ps) started args w) = Start_Raised (UserError ''KeyboardInterrupt'')"
  using assms by (simp add: invoke_lifecycle_def call_hook_def is_exception_def)

text \<open>A manager that is not strict never raises at an end, not even an interrupt.\<close>

lemma finish_swallows: "\<not> mg_strict m \<Longrightarrow> fst (finish_lifecycle code c ps event args m w) = Inr ()"
  by (simp add: finish_lifecycle_def split: prod.splits)

section \<open>Writers of the context\<close>

lemma py_eq_num: "Some x = num_value b \<Longrightarrow> py_eq b c \<Longrightarrow> num_value b = num_value c"
  by (cases b) auto

lemma py_eq_trans: "py_eq a b \<Longrightarrow> py_eq b c \<Longrightarrow> py_eq a c"
proof (induction a arbitrary: b c rule: pyval.induct)
  case (PList xs)
  then obtain ys zs where yz: "b = PList ys" "c = PList zs" "list_all2 py_eq xs ys" "list_all2 py_eq ys zs"
    by (auto split: pyval.splits)
  have "py_eq x z" if "x \<in> set xs" "py_eq x y" "py_eq y z" for x y z using PList.IH that by blast
  then have "list_all2 py_eq xs zs" using yz(3,4) by (auto simp: list_all2_conv_all_nth)
  then show ?case using yz(2) by simp
next
  case (PTuple xs)
  then obtain ys zs where yz: "b = PTuple ys" "c = PTuple zs" "list_all2 py_eq xs ys" "list_all2 py_eq ys zs"
    by (auto split: pyval.splits)
  have "py_eq x z" if "x \<in> set xs" "py_eq x y" "py_eq y z" for x y z using PTuple.IH that by blast
  then have "list_all2 py_eq xs zs" using yz(3,4) by (auto simp: list_all2_conv_all_nth)
  then show ?case using yz(2) by simp
next
  case (PMap d)
  then obtain e f where ef: "b = PMap e" "c = PMap f" "length d = length e" "length e = length f"
    by (auto split: pyval.splits)
  have "\<exists>t. map_of f k = Some t \<and> py_eq v t" if kv: "(k, v) \<in> set d" for k v
  proof -
    from PMap.prems(1) ef kv obtain u where u: "map_of e k = Some u" "py_eq v u"
      by (fastforce simp: list_all_iff split: option.splits)
    then have "(k, u) \<in> set e" by (blast dest: map_of_SomeD)
    with PMap.prems(2) ef obtain t where t: "map_of f k = Some t" "py_eq u t"
      by (fastforce simp: list_all_iff split: option.splits)
    have "py_eq v t" using PMap.IH [of "(k, v)" v u t] kv u t by auto
    then show ?thesis using t(1) by blast
  qed
  then show ?case using ef by (fastforce simp: list_all_iff split: option.splits)
qed (auto split: pyval.splits intro: py_eq_num)

text \<open>A key that a reader cannot tell from before.\<close>

definition same_key :: "dict \<Rightarrow> dict \<Rightarrow> string \<Rightarrow> bool" where
  "same_key d e k \<longleftrightarrow> map_of d k = map_of e k
     \<or> (case (map_of d k, map_of e k) of (Some a, Some b) \<Rightarrow> py_eq a b | _ \<Rightarrow> False)"

lemma same_key_trans: "same_key d e k \<Longrightarrow> same_key e f k \<Longrightarrow> same_key d f k"
  by (auto simp: same_key_def split: option.splits intro: py_eq_trans)

lemma changed_covers: "\<not> same_key d e k \<Longrightarrow> k \<in> set (changed_keys d e)"
proof -
  assume n: "\<not> same_key d e k"
  then have "map_of d k \<noteq> None \<or> map_of e k \<noteq> None" by (auto simp: same_key_def)
  then have "k \<in> set (map fst d @ map fst e)" by (force dest: map_of_SomeD)
  then show ?thesis using n by (auto simp: changed_keys_def same_key_def split: option.splits)
qed

lemma record_writers_dom: "fst ` set (record_writers ks source ws) = set ks \<union> fst ` set ws"
  by (induction ks arbitrary: ws) (auto simp: record_writers_def dom_update)

lemma record_writers_new: "(k, s) \<in> set (record_writers ks source ws) \<Longrightarrow> s = source \<or> (k, s) \<in> set ws"
proof (induction ks arbitrary: ws)
  case (Cons j ks)
  have "(k, s) \<in> set (AList.update j source ws) \<Longrightarrow> s = source \<or> (k, s) \<in> set ws" for ws :: "(string \<times> string) list"
    by (induction ws) (auto split: if_splits)
  then show ?case using Cons by (fastforce simp: record_writers_def)
qed (simp add: record_writers_def)

lemma build_loop_writers:
  assumes "build_loop code strict event ps ctx args ws w = (Inr (out, ws'), w')"
  shows "\<exists>es. pw_trace w' = pw_trace w @ es \<and> fst ` set ws \<subseteq> fst ` set ws'
    \<and> (failures es = [] \<longrightarrow> (\<forall>k. \<not> same_key ctx out k \<longrightarrow> k \<in> fst ` set ws'))"
  using assms
proof (induction ps arbitrary: ctx args ws w)
  case Nil
  then show ?case by (simp add: same_key_def)
next
  case (Cons p ps)
  show ?case
  proof (cases "receives w p \<and> pc_hook code p event \<noteq> None")
    case False
    then show ?thesis using Cons by (auto split: if_splits)
  next
    case True
    then obtain h where h: "receives w p" "pc_hook code p event = Some h" by auto
    obtain res all w1 where i: "call_hook h (PMap ctx # args) w = (res, all, w1)" by (metis prod_cases3)
    note t = call_hook_trace [OF i]
    show ?thesis
    proof (cases res)
      case (Inl x)
      then obtain e ctx' args' where e: "build_loop code strict event ps ctx' args' ws (emit e w1) = (Inr (out, ws'), w')" "he_error e = Some x"
        using Cons.prems h i by (auto simp: Let_def split: if_splits)
      from Cons.IH [OF e(1)] obtain es where "pw_trace w' = pw_trace w @ e # es" "fst ` set ws \<subseteq> fst ` set ws'"
        using t by auto
      then show ?thesis using e(2) by (intro exI [of _ "e # es"]) auto
    next
      case (Inr v)
      then obtain e new args' where e: "build_loop code strict event ps new args'
          (record_writers (changed_keys ctx new) (''plugin.'' @ pl_name (pw_objs w1 p)) ws) (emit e w1) = (Inr (out, ws'), w')"
        using Cons.prems h i by (auto simp: Let_def split: if_splits)
      from Cons.IH [OF e] obtain es where es: "pw_trace w' = pw_trace w @ e # es"
        "set (changed_keys ctx new) \<union> fst ` set ws \<subseteq> fst ` set ws'"
        "failures es = [] \<longrightarrow> (\<forall>k. \<not> same_key new out k \<longrightarrow> k \<in> fst ` set ws')"
        using t by (auto simp: record_writers_dom)
      have "k \<in> fst ` set ws'" if "failures es = []" "\<not> same_key ctx out k" for k
      proof (cases "same_key ctx new k")
        case True
        then have "\<not> same_key new out k" using that(2) same_key_trans by blast
        then show ?thesis using es(3) that(1) by blast
      next
        case False
        then show ?thesis using changed_covers es(2) by blast
      qed
      then have "failures (e # es) = [] \<longrightarrow> (\<forall>k. \<not> same_key ctx out k \<longrightarrow> k \<in> fst ` set ws')"
        by (simp split: option.splits)
      then show ?thesis using es(1,2) by (intro exI [of _ "e # es"]) blast
    qed
  qed
qed

text \<open>
  When a context build ends with no hook having failed, every key whose value a reader can tell
  from what it was before has a recorded writer.
\<close>

theorem context_writers_cover:
  assumes "dispatch code ''on_context_build'' (PMap ctx # args) m w = (Inr (PMap out), m', w')"
    and "failures (new_events w w') = []" and "\<not> same_key ctx out k"
  shows "k \<in> fst ` set (mg_writers m')"
proof -
  obtain ws where b: "build_loop code (mg_strict m) ''on_context_build'' (mg_plugins m) ctx args [] w = (Inr (out, ws), w')"
    "m' = m\<lparr>mg_writers := ws\<rparr>"
    using assms(1) by (auto simp: dispatch_def split: prod.splits sum.splits)
  from build_loop_writers [OF b(1)] obtain es where es: "pw_trace w' = pw_trace w @ es"
    "failures es = [] \<longrightarrow> (\<forall>k. \<not> same_key ctx out k \<longrightarrow> k \<in> fst ` set ws)" by blast
  have "failures es = []" using assms(2) new_events_app [OF es(1)] by simp
  then show ?thesis using es(2) assms(3) b(2) by auto
qed

definition ex_build :: "pyval result \<Rightarrow> unit plugin_code" where
  "ex_build r = \<lparr>pc_hook = (\<lambda>p event. if p = 1 then Some (\<lambda>args w. (r, [PMap [(''a'', PInt 1)]], fst w, snd w)) else None),
    pc_attach = default_attach\<rparr>"

lemmas ex_build_defs = dispatch_def ex_manager_def manager_init_def ex_world_def receives_def ex_objs_def plugin_init_def
  ex_build_def call_hook_def emit_def is_exception_def changed_keys_def record_writers_def failures_def new_events_def List.map_filter_def

theorem context_writers_cover_witness:
  "''a'' \<in> fst ` set (mg_writers (fst (snd (dispatch (ex_build (Inr PNone)) ''on_context_build'' [PMap []] (ex_manager False) ex_world))))"
proof (rule context_writers_cover [of "ex_build (Inr PNone)" "[]" "[]" "ex_manager False" ex_world "[(''a'', PInt 1)]" _
    "snd (snd (dispatch (ex_build (Inr PNone)) ''on_context_build'' [PMap []] (ex_manager False) ex_world))"])
  let ?r = "dispatch (ex_build (Inr PNone)) ''on_context_build'' [PMap []] (ex_manager False) ex_world"
  have "fst ?r = Inr (PMap [(''a'', PInt 1)])" by (simp add: ex_build_defs)
  then show "?r = (Inr (PMap [(''a'', PInt 1)]), fst (snd ?r), snd (snd ?r))" by (metis prod.collapse)
  show "failures (new_events ex_world (snd (snd ?r))) = []" by (simp add: ex_build_defs)
  show "\<not> same_key [] [(''a'', PInt 1)] ''a''" by (simp add: same_key_def)
qed

text \<open>A key that a hook sets before it raises reaches the context and has no writer.\<close>

lemma failed_writer_unrecorded:
  "case dispatch (ex_build (Inl ValueError)) ''on_context_build'' [PMap []] (ex_manager False) ex_world of
     (r, m, w) \<Rightarrow> r = Inr (PMap [(''a'', PInt 1)]) \<and> mg_writers m = []"
  by (simp add: ex_build_defs)

end
