(* ===== verification/Batch.thy ===== *)
theory Batch
  imports Wire
begin

text \<open>
  \<open>BatchDisposition\<close> of \<open>contracts/batch.py\<close>: which items of a proposal survive a decision, as
  strictly increasing indices into the proposal, with the restriction to a range and the composition
  with a later decision over the survivors.
\<close>

record batch_disposition =
  dp_proposed :: int
  dp_accepted :: "int list"
  dp_reason :: string
  dp_reservation :: string
  dp_meta :: dict

definition disposition_post_init :: "batch_disposition \<Rightarrow> batch_disposition result" where
  "disposition_post_init x =
     rbind (guard (0 \<le> dp_proposed x) ValueError) (\<lambda>_.
     rbind (guard (sorted_wrt (<) (dp_accepted x)) ValueError) (\<lambda>_.
     rbind (guard (\<not> list_ex (\<lambda>i. i < 0 \<or> dp_proposed x \<le> i) (dp_accepted x)) ValueError) (\<lambda>_.
     Inr (x\<lparr>dp_reason := or_default (dp_reason x) ''unspecified''\<rparr>))))"

definition accepted_count :: "batch_disposition \<Rightarrow> int" where
  "accepted_count x = int (length (dp_accepted x))"

definition rejected_indices :: "batch_disposition \<Rightarrow> int list" where
  "rejected_indices x = filter (\<lambda>i. i \<notin> set (dp_accepted x)) (map int [0..<nat (dp_proposed x)])"

definition disposition_changed :: "batch_disposition \<Rightarrow> bool" where
  "disposition_changed x \<longleftrightarrow> accepted_count x \<noteq> dp_proposed x"

definition disposition_prefix :: "int \<Rightarrow> int \<Rightarrow> string \<Rightarrow> string \<Rightarrow> dict \<Rightarrow> batch_disposition result" where
  "disposition_prefix proposed accepted reason reservation md =
     rbind (guard (0 \<le> proposed) ValueError) (\<lambda>_.
     rbind (guard (\<not> (accepted < 0 \<or> proposed < accepted)) ValueError) (\<lambda>_.
     disposition_post_init \<lparr>dp_proposed = proposed, dp_accepted = map int [0..<nat accepted], dp_reason = reason,
       dp_reservation = reservation, dp_meta = md\<rparr>))"

definition for_range :: "int \<Rightarrow> int \<Rightarrow> batch_disposition \<Rightarrow> batch_disposition result" where
  "for_range a b x =
     rbind (guard (\<not> (a < 0 \<or> b < a \<or> dp_proposed x < b)) ValueError) (\<lambda>_.
     disposition_post_init \<lparr>dp_proposed = b - a, dp_accepted = map (\<lambda>i. i - a) (filter (\<lambda>i. a \<le> i \<and> i < b) (dp_accepted x)),
       dp_reason = dp_reason x, dp_reservation = dp_reservation x,
       dp_meta = dict_update (dp_meta x) [(''parent_range'', PTuple [PInt a, PInt b])]\<rparr>)"

definition stage_audit :: "batch_disposition \<Rightarrow> pyval" where
  "stage_audit x = PMap [(''reason'', PStr (dp_reason x)), (''proposed_count'', PInt (dp_proposed x)),
     (''accepted_count'', PInt (accepted_count x))]"

definition compose_disposition :: "string \<Rightarrow> dict \<Rightarrow> batch_disposition \<Rightarrow> batch_disposition \<Rightarrow> batch_disposition result" where
  "compose_disposition reason md x y =
     rbind (guard (dp_proposed y = accepted_count x) ValueError) (\<lambda>_.
     disposition_post_init \<lparr>dp_proposed = dp_proposed x, dp_accepted = map (\<lambda>i. dp_accepted x ! nat i) (dp_accepted y),
       dp_reason = or_default reason (or_default (dp_reason y) (dp_reason x)),
       dp_reservation = or_default (dp_reservation y) (dp_reservation x),
       dp_meta = dict_update [(''stages'', PTuple [stage_audit x, stage_audit y])] md\<rparr>)"

definition batch_as_dict :: "batch_disposition \<Rightarrow> dict" where
  "batch_as_dict x = [(''proposed_count'', PInt (dp_proposed x)), (''accepted_indices'', PList (map PInt (dp_accepted x))),
     (''accepted_count'', PInt (accepted_count x)), (''rejected_indices'', PList (map PInt (rejected_indices x))),
     (''reason'', PStr (dp_reason x)), (''reservation_id'', PStr (dp_reservation x)), (''metadata'', PMap (dp_meta x))]"

section \<open>What the operations do\<close>

definition batch_wf :: "batch_disposition \<Rightarrow> bool" where
  "batch_wf x \<longleftrightarrow> 0 \<le> dp_proposed x \<and> sorted_wrt (<) (dp_accepted x) \<and> set (dp_accepted x) \<subseteq> {0..<dp_proposed x}
     \<and> dp_reason x \<noteq> []"

lemma disposition_post_init_Inr: "disposition_post_init x = Inr y \<longleftrightarrow> 0 \<le> dp_proposed x \<and> sorted_wrt (<) (dp_accepted x)
    \<and> set (dp_accepted x) \<subseteq> {0..<dp_proposed x} \<and> y = x\<lparr>dp_reason := or_default (dp_reason x) ''unspecified''\<rparr>"
  by (auto simp: disposition_post_init_def list_ex_iff not_le)

lemma disposition_post_init_wf: "disposition_post_init x = Inr y \<Longrightarrow> batch_wf y"
  by (simp add: disposition_post_init_Inr batch_wf_def or_default_def)

lemma sorted_wrt_map_nth:
  fixes xs :: "int list"
  assumes "sorted_wrt (<) xs" "sorted_wrt (<) is" "set is \<subseteq> {0..<int (length xs)}"
  shows "sorted_wrt (<) (map (\<lambda>i. xs ! nat i) is)"
proof -
  have "xs ! nat i < xs ! nat j" if "i < j" "i \<in> set is" "j \<in> set is" for i j
  proof (rule sorted_wrt_nth_less[OF assms(1)])
    have "0 \<le> i" "j < int (length xs)" using that assms(3) by auto
    then show "nat i < nat j" "nat j < length xs" using that(1) by auto
  qed
  then show ?thesis using assms(2) by (auto simp: sorted_wrt_map intro: sorted_wrt_mono_rel[rotated])
qed

text \<open>The accepted items of a decision, out of the proposed ones.\<close>

definition select_items :: "batch_disposition \<Rightarrow> 'a list \<Rightarrow> 'a list" where
  "select_items x items = map (\<lambda>i. items ! nat i) (dp_accepted x)"

text \<open>Accepted and rejected together are the proposal.\<close>

lemma accepted_or_rejected:
  assumes "batch_wf x"
  shows "set (dp_accepted x) \<union> set (rejected_indices x) = {0..<dp_proposed x} \<and> set (dp_accepted x) \<inter> set (rejected_indices x) = {}"
proof -
  have "set (map int [0..<nat (dp_proposed x)]) = {0..<dp_proposed x}"
    using assms by (simp add: batch_wf_def image_int_atLeastLessThan)
  then show ?thesis using assms by (auto simp: rejected_indices_def batch_wf_def)
qed

lemma accepted_range: "batch_wf x \<Longrightarrow> i \<in> set (dp_accepted x) \<Longrightarrow> 0 \<le> i \<and> i < dp_proposed x"
  by (auto simp: batch_wf_def)

lemma accepted_at:
  assumes "batch_wf x" "0 \<le> i" "i < accepted_count x"
  shows "dp_accepted x ! nat i \<in> {0..<dp_proposed x}"
proof -
  have "dp_accepted x ! nat i \<in> set (dp_accepted x)" using assms(2,3) by (simp add: accepted_count_def nat_less_iff)
  then show ?thesis using assms(1) by (auto simp: batch_wf_def)
qed

lemma compose_Inr:
  assumes "batch_wf x" "batch_wf y" "dp_proposed y = accepted_count x"
  shows "\<exists>z. compose_disposition reason md x y = Inr z \<and> batch_wf z \<and> dp_proposed z = dp_proposed x
    \<and> dp_accepted z = map (\<lambda>i. dp_accepted x ! nat i) (dp_accepted y)"
proof -
  have y: "set (dp_accepted y) \<subseteq> {0..<accepted_count x}" "sorted_wrt (<) (dp_accepted y)"
    using assms(2,3) by (auto simp: batch_wf_def)
  have "sorted_wrt (<) (map (\<lambda>i. dp_accepted x ! nat i) (dp_accepted y))"
    using assms(1) y by (intro sorted_wrt_map_nth) (auto simp: batch_wf_def accepted_count_def)
  moreover have "set (map (\<lambda>i. dp_accepted x ! nat i) (dp_accepted y)) \<subseteq> {0..<dp_proposed x}"
    using accepted_at[OF assms(1)] y(1) by auto
  ultimately show ?thesis using assms
    by (auto simp: compose_disposition_def disposition_post_init_Inr batch_wf_def or_default_def)
qed

lemma select_compose:
  assumes "batch_wf y" "dp_proposed y = accepted_count x" "dp_accepted z = map (\<lambda>i. dp_accepted x ! nat i) (dp_accepted y)"
  shows "select_items z items = select_items y (select_items x items)"
proof -
  have "nat i < length (dp_accepted x)" if "i \<in> set (dp_accepted y)" for i
    using accepted_range[OF assms(1) that] assms(2) by (simp add: accepted_count_def nat_less_iff)
  then show ?thesis using assms(3) by (auto simp: select_items_def)
qed

text \<open>
  C29. Decisions compose. A later decision over the items a first one accepted can be composed with it
  exactly when it is about as many items as were accepted; the result is again a decision about the
  original proposal (indices in range and strictly increasing), and it accepts the items that the
  second accepts among those that the first has accepted, in their order.
\<close>

theorem compose_selects:
  assumes "batch_wf x" "batch_wf y"
  shows "(ok (compose_disposition reason md x y) \<longleftrightarrow> dp_proposed y = accepted_count x)
    \<and> (\<forall>z. compose_disposition reason md x y = Inr z \<longrightarrow> batch_wf z \<and> dp_proposed z = dp_proposed x
      \<and> (\<forall>items :: 'a list. select_items z items = select_items y (select_items x items)))"
proof (cases "dp_proposed y = accepted_count x")
  case True
  obtain z where "compose_disposition reason md x y = Inr z" "batch_wf z" "dp_proposed z = dp_proposed x"
    "dp_accepted z = map (\<lambda>i. dp_accepted x ! nat i) (dp_accepted y)" using compose_Inr[OF assms True] by blast
  then show ?thesis using True select_compose[OF assms(2) True] by auto
qed (simp add: compose_disposition_def guard_def rbind_def)

definition ex_disposition :: "int \<Rightarrow> int list \<Rightarrow> batch_disposition" where
  "ex_disposition n is = \<lparr>dp_proposed = n, dp_accepted = is, dp_reason = ''budget'', dp_reservation = [], dp_meta = []\<rparr>"

lemma compose_selects_witness:
  "\<exists>z. compose_disposition [] [] (ex_disposition 4 [0, 2, 3]) (ex_disposition 3 [1, 2]) = Inr z
    \<and> select_items z ''abcd'' = select_items (ex_disposition 3 [1, 2]) (select_items (ex_disposition 4 [0, 2, 3]) ''abcd'')"
proof -
  have "batch_wf (ex_disposition 4 [0, 2, 3])" "batch_wf (ex_disposition 3 [1, 2])"
    by (simp_all add: batch_wf_def ex_disposition_def)
  note c = compose_selects[OF this, of "[]" "[]", where 'a = char]
  have "dp_proposed (ex_disposition 3 [1, 2]) = accepted_count (ex_disposition 4 [0, 2, 3])"
    by (simp add: ex_disposition_def accepted_count_def)
  then show ?thesis using c by blast
qed

text \<open>Composition is associative in what is accepted.\<close>

lemma compose_assoc:
  assumes "batch_wf y" "dp_proposed y = accepted_count x" "batch_wf z" "dp_proposed z = accepted_count y"
    and "compose_disposition r1 m1 x y = Inr xy" "compose_disposition r2 m2 xy z = Inr a"
    and "compose_disposition r3 m3 y z = Inr yz" "compose_disposition r4 m4 x yz = Inr b"
  shows "dp_accepted a = dp_accepted b"
proof -
  have acc: "dp_accepted c = map (\<lambda>i. dp_accepted u ! nat i) (dp_accepted v)"
    if "compose_disposition r m u v = Inr c" for r m u v c
    using that by (auto simp: compose_disposition_def disposition_post_init_Inr)
  have "nat i < length (dp_accepted y)" if "i \<in> set (dp_accepted z)" for i
    using accepted_range[OF assms(3) that] assms(4) by (simp add: accepted_count_def nat_less_iff)
  then show ?thesis unfolding acc[OF assms(6)] acc[OF assms(5)] acc[OF assms(8)] acc[OF assms(7)] by simp
qed

text \<open>Split at any point, a decision accepts in the two ranges what it accepts in the whole.\<close>

lemma for_range_Inr:
  assumes "batch_wf x" "0 \<le> a" "a \<le> b" "b \<le> dp_proposed x"
  shows "\<exists>z. for_range a b x = Inr z \<and> batch_wf z \<and> dp_proposed z = b - a
    \<and> dp_accepted z = map (\<lambda>i. i - a) (filter (\<lambda>i. a \<le> i \<and> i < b) (dp_accepted x))"
proof -
  have "sorted_wrt (<) (filter (\<lambda>i. a \<le> i \<and> i < b) (dp_accepted x))" using assms(1) by (simp add: batch_wf_def sorted_wrt_filter)
  then show ?thesis using assms
    by (auto simp: for_range_def disposition_post_init_Inr batch_wf_def sorted_wrt_map)
qed

lemma split_ranges:
  assumes "batch_wf x" "0 \<le> m" "m \<le> dp_proposed x" "for_range 0 m x = Inr u" "for_range m (dp_proposed x) x = Inr v"
  shows "dp_accepted u @ map (\<lambda>i. i + m) (dp_accepted v) = dp_accepted x"
proof -
  have "dp_accepted u = map (\<lambda>i. i - 0) (filter (\<lambda>i. 0 \<le> i \<and> i < m) (dp_accepted x))"
    using for_range_Inr[OF assms(1), of 0 m] assms(2-4) by auto
  also have "filter (\<lambda>i. 0 \<le> i \<and> i < m) (dp_accepted x) = filter (\<lambda>i. i < m) (dp_accepted x)"
    using accepted_range[OF assms(1)] by (intro filter_cong) auto
  finally have u: "dp_accepted u = filter (\<lambda>i. i < m) (dp_accepted x)" by simp
  have "dp_accepted v = map (\<lambda>i. i - m) (filter (\<lambda>i. m \<le> i \<and> i < dp_proposed x) (dp_accepted x))"
    using for_range_Inr[OF assms(1), of m "dp_proposed x"] assms(2,3,5) by auto
  also have "filter (\<lambda>i. m \<le> i \<and> i < dp_proposed x) (dp_accepted x) = filter (\<lambda>i. \<not> i < m) (dp_accepted x)"
    using accepted_range[OF assms(1)] by (intro filter_cong) auto
  finally have v: "map (\<lambda>i. i + m) (dp_accepted v) = filter (\<lambda>i. \<not> i < m) (dp_accepted x)" by (simp add: comp_def)
  have "filter (\<lambda>i. i < m) is @ filter (\<lambda>i. \<not> i < m) is = is" if "sorted_wrt (<) is" for "is" :: "int list"
    using that
  proof (induction "is")
    case (Cons i js)
    have "filter (\<lambda>i. i < m) js = []" if "\<not> i < m" using Cons.prems that by (auto simp: filter_empty_conv)
    then show ?case using Cons by (cases "i < m") auto
  qed simp
  then show ?thesis using assms(1) u v by (simp add: batch_wf_def)
qed

end
