(* ===== verification/Artifact_Model.thy ===== *)
theory Artifact_Model
  imports Provider_Model Snapshot_File
begin

text \<open>
  What the publication of artifacts is about: references to data (\<open>DataRef\<close> of
  \<open>resources/model.py\<close>), and from \<open>resources/artifacts.py\<close> receipts, bindings, the authority, the
  serializers and the names of files. The SHA-256 functions are parameters: of the canonical JSON of
  a mapping, of the content of a file, and the digits taken of the digest of a text. File contents
  and values are opaque; metadata are plain values, which are all that JSON holds.
\<close>

abbreviation PublicationError :: py_error where
  "PublicationError \<equiv> UserError ''ArtifactPublicationError''"

abbreviation ArtifactFenceError :: py_error where
  "ArtifactFenceError \<equiv> UserError ''ArtifactFenceError''"

record digests =
  sha_json :: "dict \<Rightarrow> string"
  sha_file :: "string \<Rightarrow> string"
  hex_digits :: "nat \<Rightarrow> string \<Rightarrow> string"

section \<open>References to data\<close>

record data_ref =
  dr_uri :: string
  dr_kind :: string
  dr_backend :: string
  dr_media :: string
  dr_checksum :: string
  dr_size :: "int option"
  dr_meta :: dict

definition data_ref_post_init :: "data_ref \<Rightarrow> data_ref result" where
  "data_ref_post_init r = (let uri = py_strip (dr_uri r) in
     rbind (guard (uri \<noteq> []) ValueError) (\<lambda>_.
     rbind (freeze_wire_mapping (dr_meta r)) (\<lambda>md.
     Inr (r\<lparr>dr_uri := uri, dr_kind := or_default (dr_kind r) ''artifact'', dr_backend := or_default (dr_backend r) ''filesystem'',
       dr_size := map_option (max 0) (dr_size r), dr_meta := md\<rparr>))))"

definition opt_int :: "pyval \<Rightarrow> int option result" where
  "opt_int v = (if v = PNone then Inr None else rbind (py_int v) (\<lambda>i. Inr (Some i)))"

definition str_default :: "dict \<Rightarrow> string \<Rightarrow> string \<Rightarrow> string" where
  "str_default d k dflt = py_str (dict_get d k (PStr dflt))"

definition data_ref_from_dict :: "dict \<Rightarrow> data_ref result" where
  "data_ref_from_dict d =
     rbind (get_dict d ''metadata'') (\<lambda>md.
     rbind (opt_int (dict_get d ''size_bytes'' PNone)) (\<lambda>n.
     data_ref_post_init \<lparr>dr_uri = get_str d ''uri'', dr_kind = str_default d ''kind'' ''artifact'',
       dr_backend = str_default d ''backend'' ''filesystem'', dr_media = get_str d ''media_type'', dr_checksum = get_str d ''checksum'',
       dr_size = n, dr_meta = md\<rparr>))"

definition data_ref_as_dict :: "data_ref \<Rightarrow> dict" where
  "data_ref_as_dict r = [(''uri'', PStr (dr_uri r)), (''kind'', PStr (dr_kind r)), (''backend'', PStr (dr_backend r)),
     (''media_type'', PStr (dr_media r)), (''checksum'', PStr (dr_checksum r)),
     (''size_bytes'', case dr_size r of None \<Rightarrow> PNone | Some n \<Rightarrow> PInt n), (''metadata'', PMap (thaw_wire_mapping (dr_meta r)))]"

definition data_ref_eq :: "data_ref \<Rightarrow> data_ref \<Rightarrow> bool" where
  "data_ref_eq a b \<longleftrightarrow> a\<lparr>dr_meta := []\<rparr> = b\<lparr>dr_meta := []\<rparr> \<and> py_eq (PMap (dr_meta a)) (PMap (dr_meta b))"

definition data_ref_wf :: "data_ref \<Rightarrow> bool" where
  "data_ref_wf r \<longleftrightarrow> dr_uri r \<noteq> [] \<and> py_strip (dr_uri r) = dr_uri r \<and> dr_kind r \<noteq> [] \<and> dr_backend r \<noteq> []
     \<and> (\<forall>n. dr_size r = Some n \<longrightarrow> 0 \<le> n) \<and> frozen_dict (dr_meta r)"

lemma or_default_Nil [simp]: "or_default s d = [] \<longleftrightarrow> s = [] \<and> d = []"
  by (simp add: or_default_def)

lemma data_ref_post_init_wf: "data_ref_post_init r = Inr r' \<Longrightarrow> data_ref_wf r'"
  by (auto simp: data_ref_post_init_def data_ref_wf_def rbind_Inr Let_def dest: freeze_wire_mapping_frozen)

lemma data_ref_round_trip: "data_ref_wf r \<Longrightarrow> data_ref_from_dict (data_ref_as_dict r) = Inr r"
  by (cases r) (auto simp: data_ref_wf_def data_ref_from_dict_def data_ref_as_dict_def data_ref_post_init_def get_defs str_default_def
    opt_int_def Let_def split: option.splits)

section \<open>Receipts\<close>

record publication =
  pb_id :: string
  pb_name :: string
  pb_ref :: data_ref
  pb_project :: string
  pb_case :: string
  pb_tx :: string
  pb_namespace :: string
  pb_lease :: string
  pb_token :: int
  pb_at :: rat
  pb_digest :: string
  pb_meta :: dict

definition pub_unsigned_dict :: "publication \<Rightarrow> dict" where
  "pub_unsigned_dict p = [(''schema_version'', PInt 1), (''publication_id'', PStr (pb_id p)), (''artifact_name'', PStr (pb_name p)),
     (''ref'', PMap (data_ref_as_dict (pb_ref p))), (''project_run_id'', PStr (pb_project p)), (''case_run_id'', PStr (pb_case p)),
     (''transaction_id'', PStr (pb_tx p)), (''authority_namespace'', PStr (pb_namespace p)), (''lease_id'', PStr (pb_lease p)),
     (''fencing_token'', PInt (pb_token p)), (''committed_at'', PNum (pb_at p)), (''metadata'', PMap (thaw_wire_mapping (pb_meta p)))]"

definition pub_as_dict :: "publication \<Rightarrow> dict" where
  "pub_as_dict p = pub_unsigned_dict p @ [(''receipt_digest'', PStr (pb_digest p))]"

definition pub_stripped :: "publication \<Rightarrow> publication" where
  "pub_stripped p = p\<lparr>pb_id := py_strip (pb_id p), pb_name := py_strip (pb_name p), pb_project := py_strip (pb_project p),
     pb_case := py_strip (pb_case p), pb_tx := py_strip (pb_tx p), pb_namespace := py_strip (pb_namespace p)\<rparr>"

definition pub_named :: "publication \<Rightarrow> bool" where
  "pub_named p \<longleftrightarrow> list_all (\<lambda>x. x \<noteq> []) [pb_id p, pb_name p, pb_project p, pb_case p, pb_tx p, pb_namespace p]"

definition pub_post_init :: "digests \<Rightarrow> publication \<Rightarrow> publication result" where
  "pub_post_init hs p =
     rbind (guard (pub_named (pub_stripped p)) ValueError) (\<lambda>_.
     rbind (guard (dr_checksum (pb_ref p) \<noteq> []) ValueError) (\<lambda>_.
     rbind (guard (0 < pb_at p) ValueError) (\<lambda>_.
     rbind (freeze_meta (pb_meta p)) (\<lambda>md.
       let q = (pub_stripped p)\<lparr>pb_token := max 0 (pb_token p), pb_meta := md\<rparr>; expected = sha_json hs (pub_unsigned_dict q) in
       rbind (guard (py_lower (py_strip (or_default (pb_digest p) expected)) = expected) ValueError) (\<lambda>_.
       Inr (q\<lparr>pb_digest := expected\<rparr>))))))"

definition pub_from_dict :: "digests \<Rightarrow> dict \<Rightarrow> publication result" where
  "pub_from_dict hs d =
     rbind (rbind (get_dict d ''ref'') data_ref_from_dict) (\<lambda>r.
     rbind (get_int d ''fencing_token'' 0) (\<lambda>token.
     rbind (get_float d ''committed_at'') (\<lambda>t.
     rbind (get_dict d ''metadata'') (\<lambda>md.
     rbind (get_int d ''schema_version'' 1) (\<lambda>v.
     rbind (guard (v = 1) ValueError) (\<lambda>_.
     pub_post_init hs \<lparr>pb_id = get_str d ''publication_id'', pb_name = get_str d ''artifact_name'', pb_ref = r,
       pb_project = get_str d ''project_run_id'', pb_case = get_str d ''case_run_id'', pb_tx = get_str d ''transaction_id'',
       pb_namespace = get_str d ''authority_namespace'', pb_lease = get_str d ''lease_id'', pb_token = token, pb_at = t,
       pb_digest = get_str d ''receipt_digest'', pb_meta = md\<rparr>))))))"

text \<open>What the constructor establishes, when digests are hex digits with a lower case prefix.\<close>

definition digest_texts :: "digests \<Rightarrow> bool" where
  "digest_texts hs \<longleftrightarrow> (\<forall>d. sha_json hs d \<noteq> [] \<and> py_lower (py_strip (sha_json hs d)) = sha_json hs d)"

definition pub_wf :: "digests \<Rightarrow> publication \<Rightarrow> bool" where
  "pub_wf hs p \<longleftrightarrow> pub_named p \<and> pub_stripped p = p \<and> data_ref_wf (pb_ref p) \<and> dr_checksum (pb_ref p) \<noteq> []
     \<and> 0 \<le> pb_token p \<and> 0 < pb_at p \<and> frozen_dict (pb_meta p) \<and> pb_digest p = sha_json hs (pub_unsigned_dict p)"

lemma pub_post_init_wf:
  assumes "pub_post_init hs p = Inr q" "data_ref_wf (pb_ref p)"
  shows "pub_wf hs q"
  using assms by (auto simp: pub_post_init_def pub_wf_def rbind_Inr Let_def pub_stripped_def pub_named_def freeze_meta_eq
    pub_unsigned_dict_def dest: freeze_wire_mapping_frozen)

lemma pub_post_init_id: "pub_wf hs p \<Longrightarrow> digest_texts hs \<Longrightarrow> pub_post_init hs p = Inr p"
  by (simp add: pub_post_init_def pub_wf_def digest_texts_def freeze_meta_eq Let_def)

lemma pub_stripped_eq:
  "pub_stripped p = p \<longleftrightarrow> py_strip (pb_id p) = pb_id p \<and> py_strip (pb_name p) = pb_name p \<and> py_strip (pb_project p) = pb_project p
     \<and> py_strip (pb_case p) = pb_case p \<and> py_strip (pb_tx p) = pb_tx p \<and> py_strip (pb_namespace p) = pb_namespace p"
  by (cases p) (simp add: pub_stripped_def)

lemma pub_round_trip:
  assumes "pub_wf hs p" "digest_texts hs"
  shows "pub_from_dict hs (pub_as_dict p) = Inr p"
proof -
  have "data_ref_from_dict (data_ref_as_dict (pb_ref p)) = Inr (pb_ref p)" using assms(1) by (simp add: pub_wf_def data_ref_round_trip)
  moreover have "pub_stripped (p\<lparr>pb_meta := m\<rparr>) = p\<lparr>pb_meta := m\<rparr>" "pub_named (p\<lparr>pb_meta := m\<rparr>) \<longleftrightarrow> pub_named p" for m
    using assms by (simp_all add: pub_wf_def pub_stripped_eq pub_named_def)
  then have "pub_post_init hs (p\<lparr>pb_meta := thaw_wire_mapping (pb_meta p)\<rparr>) = Inr p"
    using assms by (simp add: pub_post_init_def pub_wf_def digest_texts_def freeze_meta_eq Let_def)
  ultimately show ?thesis
    by (cases p) (auto simp: pub_from_dict_def pub_as_dict_def pub_unsigned_dict_def get_defs)
qed

section \<open>Bindings\<close>

record art_binding =
  ab_ref :: data_ref
  ab_pub :: publication
  ab_digest :: string

definition binding_unsigned_dict :: "art_binding \<Rightarrow> dict" where
  "binding_unsigned_dict b = [(''schema_version'', PInt 1), (''ref'', PMap (data_ref_as_dict (ab_ref b))),
     (''publication'', PMap (pub_as_dict (ab_pub b)))]"

definition art_binding_as_dict :: "art_binding \<Rightarrow> dict" where
  "art_binding_as_dict b = binding_unsigned_dict b @ [(''binding_digest'', PStr (ab_digest b))]"

definition art_binding_post_init :: "digests \<Rightarrow> art_binding \<Rightarrow> art_binding result" where
  "art_binding_post_init hs b =
     rbind (guard (data_ref_eq (pb_ref (ab_pub b)) (ab_ref b)) ValueError) (\<lambda>_.
     rbind (guard (dict_get (pb_meta (ab_pub b)) ''case_finalization_sealed'' PNone = PBool True) ValueError) (\<lambda>_.
       let expected = sha_json hs (binding_unsigned_dict b) in
       rbind (guard (py_lower (py_strip (or_default (ab_digest b) expected)) = expected) ValueError) (\<lambda>_.
       Inr (b\<lparr>ab_digest := expected\<rparr>))))"

definition art_binding_from_dict :: "digests \<Rightarrow> dict \<Rightarrow> art_binding result" where
  "art_binding_from_dict hs d =
     rbind (rbind (get_dict d ''ref'') data_ref_from_dict) (\<lambda>r.
     rbind (rbind (get_dict d ''publication'') (pub_from_dict hs)) (\<lambda>p.
     rbind (get_int d ''schema_version'' 1) (\<lambda>v.
     rbind (guard (v = 1) ValueError) (\<lambda>_.
     art_binding_post_init hs \<lparr>ab_ref = r, ab_pub = p, ab_digest = get_str d ''binding_digest''\<rparr>))))"

lemma pub_as_dict_nonempty [simp]: "pub_as_dict p \<noteq> []" "data_ref_as_dict r \<noteq> []"
  by (simp_all add: pub_as_dict_def pub_unsigned_dict_def data_ref_as_dict_def)

lemma art_binding_round_trip:
  assumes "art_binding_post_init hs b = Inr b'" "digest_texts hs" "data_ref_wf (ab_ref b)" "pub_wf hs (ab_pub b)"
  shows "art_binding_from_dict hs (art_binding_as_dict b') = Inr b'"
proof -
  have b: "ab_ref b' = ab_ref b" "ab_pub b' = ab_pub b" "art_binding_post_init hs b' = Inr b'"
    using assms(1,2) by (auto simp: art_binding_post_init_def rbind_Inr Let_def digest_texts_def binding_unsigned_dict_def)
  have "get_dict (art_binding_as_dict b') ''ref'' = Inr (data_ref_as_dict (ab_ref b'))"
    "get_dict (art_binding_as_dict b') ''publication'' = Inr (pub_as_dict (ab_pub b'))"
    "get_int (art_binding_as_dict b') ''schema_version'' 1 = Inr 1" "get_str (art_binding_as_dict b') ''binding_digest'' = ab_digest b'"
    by (simp_all add: art_binding_as_dict_def binding_unsigned_dict_def get_defs)
  then have "art_binding_from_dict hs (art_binding_as_dict b')
      = art_binding_post_init hs \<lparr>ab_ref = ab_ref b', ab_pub = ab_pub b', ab_digest = ab_digest b'\<rparr>"
    using assms(2-4) unfolding b(1,2) [symmetric] by (simp add: art_binding_from_dict_def data_ref_round_trip pub_round_trip)
  then show ?thesis using b(3) by (cases b') simp
qed

section \<open>The authority\<close>

record art_authority =
  aa_backend :: string
  aa_root :: string
  aa_namespace :: string
  aa_unsafe :: bool

definition art_authority_post_init :: "art_authority \<Rightarrow> art_authority result" where
  "art_authority_post_init a = (let backend = py_lower (py_strip (or_default (aa_backend a) ''filesystem'')); root' = py_strip (aa_root a) in
     rbind (guard (backend = ''filesystem'') ValueError) (\<lambda>_.
     rbind (guard (root' \<noteq> []) ValueError) (\<lambda>_.
     Inr (a\<lparr>aa_backend := backend, aa_root := root', aa_namespace := or_default (aa_namespace a) ''project''\<rparr>))))"

definition art_authority_from_dict :: "dict \<Rightarrow> art_authority result" where
  "art_authority_from_dict d =
     rbind (get_int d ''schema_version'' 1) (\<lambda>v.
     rbind (guard (v = 1) ValueError) (\<lambda>_.
     art_authority_post_init \<lparr>aa_backend = str_default d ''backend'' ''filesystem'',
       aa_root = py_str (dict_get d ''root'' (dict_get d ''path'' (PStr ''.blackbase/artifacts''))),
       aa_namespace = str_default d ''namespace'' ''project'',
       aa_unsafe = truthy (dict_get d ''allow_unsafe_serializers'' (PBool False))\<rparr>))"

definition art_authority_as_dict :: "art_authority \<Rightarrow> dict" where
  "art_authority_as_dict a = [(''schema_version'', PInt 1), (''backend'', PStr (aa_backend a)), (''root'', PStr (aa_root a)),
     (''namespace'', PStr (aa_namespace a)), (''allow_unsafe_serializers'', PBool (aa_unsafe a))]"

lemma filesystem_name [simp]: "py_lower (py_strip ''filesystem'') = ''filesystem''"
  by code_simp

lemma art_authority_round_trip:
  "art_authority_post_init a = Inr b \<Longrightarrow> art_authority_from_dict (art_authority_as_dict b) = Inr b"
  by (cases a) (auto simp: art_authority_post_init_def art_authority_from_dict_def art_authority_as_dict_def rbind_Inr Let_def
    get_defs str_default_def)

section \<open>Serializers\<close>

text \<open>A serializer gives the content of the file it writes, \<open>None\<close> when it writes none.\<close>

record 'v serializer =
  se_name :: string
  se_extension :: string
  se_media :: string
  se_dump :: "'v \<Rightarrow> string option result"
  se_accepts :: "('v \<Rightarrow> bool) option"
  se_unsafe :: bool

definition serializer_post_init :: "'v serializer \<Rightarrow> 'v serializer result" where
  "serializer_post_init x = (let name = py_lower (py_strip (se_name x)); ext = py_strip (se_extension x) in
     rbind (guard (name \<noteq> []) ValueError) (\<lambda>_.
     Inr (x\<lparr>se_name := name, se_extension := (if ext \<noteq> [] \<and> \<not> starts_with ''.'' ext then CHR ''.'' # ext else ext),
       se_media := or_default (se_media x) ''application/octet-stream''\<rparr>)))"

type_synonym 'v serializers = "(string \<times> 'v serializer) list"

definition register_serializer :: "'v serializer \<Rightarrow> bool \<Rightarrow> 'v serializers \<Rightarrow> 'v serializers result" where
  "register_serializer x repl g = (if se_name x \<in> fst ` set g \<and> \<not> repl then Inl ValueError else Inr (AList.update (se_name x) x g))"

definition get_serializer :: "string \<Rightarrow> 'v serializers \<Rightarrow> 'v serializer result" where
  "get_serializer name g = (case map_of g (py_lower (py_strip name)) of None \<Rightarrow> Inl PublicationError | Some x \<Rightarrow> Inr x)"

definition select_serializer :: "bool \<Rightarrow> 'v \<Rightarrow> 'v serializers \<Rightarrow> 'v serializer result" where
  "select_serializer unsafe v g =
     (case find (\<lambda>x. (\<not> se_unsafe x \<or> unsafe) \<and> (case se_accepts x of None \<Rightarrow> False | Some p \<Rightarrow> p v)) (map snd g) of
       None \<Rightarrow> Inl PublicationError | Some x \<Rightarrow> Inr x)"

section \<open>File names\<close>

definition name_char :: "char \<Rightarrow> bool" where
  "name_char ch \<longleftrightarrow> (let n = (of_char ch :: nat) in 65 \<le> n \<and> n \<le> 90 \<or> 97 \<le> n \<and> n \<le> 122 \<or> 48 \<le> n \<and> n \<le> 57) \<or> ch \<in> set ''._-''"

text \<open>\<open>re.sub(r"[^A-Za-z0-9._-]+", "_", raw)\<close> and \<open>strip("._")\<close>.\<close>

function collapse_runs :: "string \<Rightarrow> string" where
  "collapse_runs [] = []"
| "collapse_runs (x # xs) = (if name_char x then x # collapse_runs xs else CHR ''_'' # collapse_runs (dropWhile (\<lambda>c. \<not> name_char c) xs))"
  by pat_completeness auto

termination
  by (relation "measure length") (auto simp: le_imp_less_Suc length_dropWhile_le)

definition strip_marks :: "string \<Rightarrow> string" where
  "strip_marks s = (let bare = dropWhile (\<lambda>c. c \<in> set ''._'') in rev (bare (rev (bare s))))"

definition safe_segment :: "digests \<Rightarrow> string \<Rightarrow> string" where
  "safe_segment hs value = (let raw = py_strip (or_default value ''item''); cleaned = or_default (strip_marks (collapse_runs raw)) ''item'' in
     if cleaned = raw \<and> length cleaned \<le> 96 then cleaned else take 72 cleaned @ ''--'' @ hex_digits hs 10 raw)"

text \<open>A safe segment names one entry of a directory: it is not empty, has no separator and is not a relative step.\<close>

lemma collapse_chars: "c \<in> set (collapse_runs s) \<Longrightarrow> name_char c"
  by (induction s rule: collapse_runs.induct) (auto simp: name_char_def split: if_splits)

definition plain_name :: "string \<Rightarrow> bool" where
  "plain_name s \<longleftrightarrow> s \<noteq> [] \<and> CHR ''/'' \<notin> set s \<and> s \<noteq> ''.'' \<and> s \<noteq> ''..''"

lemma safe_segment_plain:
  assumes "\<And>n t. CHR ''/'' \<notin> set (hex_digits hs n t)"
  shows "plain_name (safe_segment hs value)"
proof -
  let ?bare = "dropWhile (\<lambda>c. c \<in> set ''._'')"
  define raw where "raw = py_strip (or_default value ''item'')"
  define cleaned where "cleaned = or_default (strip_marks (collapse_runs raw)) ''item''"
  have drop: "set (dropWhile P xs) \<subseteq> set xs" for P and xs :: string by (blast dest: set_dropWhileD)
  have sub: "set (strip_marks s) \<subseteq> set s" for s
    unfolding strip_marks_def Let_def set_rev using drop by (metis order_trans set_rev)
  have "name_char c" if "c \<in> set cleaned" for c
    using that sub [of "collapse_runs raw"] collapse_chars by (auto simp: cleaned_def or_default_def name_char_def split: if_splits)
  then have slash: "CHR ''/'' \<notin> set cleaned" by (force simp: name_char_def)
  have "strip_marks s = [] \<or> last (strip_marks s) \<notin> set ''._''" for s
  proof (cases "?bare (rev (?bare s)) = []")
    case False
    from hd_dropWhile [OF False] have "hd (?bare (rev (?bare s))) \<notin> set ''._''" .
    with False show ?thesis by (simp add: strip_marks_def Let_def last_rev del: set_simps)
  next
    case True
    show ?thesis unfolding strip_marks_def Let_def True by simp
  qed
  then have "cleaned \<noteq> [] \<and> last cleaned \<notin> set ''._''" unfolding cleaned_def or_default_def by auto
  then have "cleaned \<noteq> []" "cleaned \<noteq> ''.''" "cleaned \<noteq> ''..''" by auto
  moreover have "CHR ''/'' \<notin> set (take 72 cleaned)" using slash by (meson in_set_takeD)
  moreover have dash: "t \<noteq> ''.'' \<and> t \<noteq> ''..''" if "CHR ''-'' \<in> set t" for t :: string
    using that by auto
  have "take 72 cleaned @ ''--'' @ x \<noteq> ''.'' \<and> take 72 cleaned @ ''--'' @ x \<noteq> ''..''" for x
    by (rule dash) simp
  ultimately show ?thesis using slash assms
    by (auto simp: plain_name_def safe_segment_def Let_def raw_def [symmetric] cleaned_def [symmetric])
qed

section \<open>Paths\<close>

text \<open>
  A resolved path is the list of its parts below \<open>/\<close>; there are no symbolic links. \<open>spell\<close> is its
  text, \<open>locate\<close> resolves a text against the working directory.
\<close>

definition spell :: "string list \<Rightarrow> string" where
  "spell p = (if p = [] then ''/'' else concat (map (\<lambda>x. CHR ''/'' # x) p))"

definition locate :: "string list \<Rightarrow> string \<Rightarrow> string list" where
  "locate cwd text = resolve (if starts_with ''/'' text then [] else cwd) (path_parts text)"

lemma split_on_plain: "c \<notin> set x \<Longrightarrow> split_on c x = [x]"
  by (induction x) auto

lemma split_on_sep: "c \<notin> set x \<Longrightarrow> split_on c (x @ c # ys) = x # split_on c ys"
  by (induction x) auto

lemma split_on_spell: "list_all (\<lambda>x. CHR ''/'' \<notin> set x) p \<Longrightarrow> split_on (CHR ''/'') (concat (map (\<lambda>x. CHR ''/'' # x) p)) = [] # p"
proof (induction p)
  case (Cons x p)
  show ?case
  proof (cases p)
    case Nil
    then show ?thesis using Cons.prems by (simp add: split_on_plain)
  next
    case (Cons y q)
    have "split_on (CHR ''/'') (CHR ''/'' # y @ concat (map (\<lambda>x. CHR ''/'' # x) q)) = [] # p"
      using Cons.IH Cons.prems Cons by simp
    then have "split_on (CHR ''/'') (y @ concat (map (\<lambda>x. CHR ''/'' # x) q)) = p" by simp
    then show ?thesis using Cons.prems Cons by (simp add: split_on_sep)
  qed
qed simp

lemma resolve_plain: "list_all plain_name ps \<Longrightarrow> resolve dir ps = dir @ ps"
  by (induction ps arbitrary: dir) (auto simp: plain_name_def)

lemma locate_spell:
  assumes "list_all plain_name p"
  shows "locate cwd (spell p) = p"
proof -
  have parts: "path_parts (spell p) = p"
  proof (cases "p = []")
    case False
    have "list_all (\<lambda>x. CHR ''/'' \<notin> set x) p" using assms by (auto simp: list_all_iff plain_name_def)
    from split_on_spell [OF this] show ?thesis
      using assms False by (auto simp: path_parts_def spell_def list_all_iff plain_name_def intro!: filter_True)
  qed (simp add: path_parts_def spell_def)
  have "starts_with ''/'' (spell p)" by (cases p) (simp_all add: spell_def starts_with_def)
  then show ?thesis using parts resolve_plain [OF assms, of "[]"] by (simp add: locate_def)
qed

definition within_dir :: "string list \<Rightarrow> string list \<Rightarrow> bool" where
  "within_dir target base \<longleftrightarrow> take (length base) target = base"

end
