(* ===== verification/Artifact_Ledger.thy ===== *)
theory Artifact_Ledger
  imports Artifact_Model "HOL-Library.List_Lexorder" "HOL-Library.Char_ord"
begin

text \<open>
  \<open>FilesystemArtifactPublicationLedger\<close>: the durable record of which names of which Case are
  reserved, committed or aborted, beside the files themselves. The state is the directory of one
  authority namespace and Project run: the records of names by Case and name, of commits and of
  tombstones by transaction, and the contents of files. A record is the value its JSON file holds.
  \<open>commit\<close> and \<open>abort\<close> first look and then write: \<open>others\<close> is what other processes do to the directory in
  between. The other methods are one step.
\<close>

section \<open>State\<close>

text \<open>A name record; a committed one has none of the fields after the digest, which are then read as absent.\<close>

record name_record =
  nr_status :: string
  nr_name :: string
  nr_project :: string
  nr_case :: string
  nr_tx :: string
  nr_lease :: string
  nr_token :: int
  nr_at :: time
  nr_ref :: "data_ref option"
  nr_digest :: string

record commit_record =
  cm_status :: string
  cm_project :: string
  cm_case :: string
  cm_tx :: string
  cm_at :: time
  cm_receipts :: "(string \<times> dict) list"

record tombstone =
  tb_project :: string
  tb_case :: string
  tb_tx :: string
  tb_reason :: string
  tb_at :: time
  tb_names :: "string list"

record art_ledger =
  al_names :: "((string \<times> string) \<times> name_record) list"
  al_commits :: "(string \<times> commit_record) list"
  al_tombs :: "(string \<times> tombstone) list"
  al_files :: "(string list \<times> string) list"

definition ledger_empty :: art_ledger where
  "ledger_empty = \<lparr>al_names = [], al_commits = [], al_tombs = [], al_files = []\<rparr>"

text \<open>One ledger object: its authority, with the root resolved, and the run it belongs to.\<close>

record ledger_env =
  en_authority :: art_authority
  en_cwd :: "string list"
  en_project :: string
  en_case :: string

definition ledger_init :: "art_authority \<Rightarrow> string list \<Rightarrow> string \<Rightarrow> string \<Rightarrow> ledger_env result" where
  "ledger_init a cwd project case_run =
     rbind (guard (py_strip project \<noteq> [] \<and> py_strip case_run \<noteq> []) ValueError) (\<lambda>_.
     Inr \<lparr>en_authority = a, en_cwd = cwd, en_project = py_strip project, en_case = py_strip case_run\<rparr>)"

definition authority_root :: "ledger_env \<Rightarrow> string list" where
  "authority_root en = locate (en_cwd en) (aa_root (en_authority en))"

definition case_root :: "digests \<Rightarrow> ledger_env \<Rightarrow> string list" where
  "case_root hs en = authority_root en @ map (safe_segment hs) [aa_namespace (en_authority en), en_project en, en_case en]"

definition ledger_key :: "digests \<Rightarrow> ledger_env \<Rightarrow> string \<Rightarrow> string \<times> string" where
  "ledger_key hs en name = (safe_segment hs (en_case en), safe_segment hs name @ ''--'' @ hex_digits hs 16 name)"

definition name_at :: "digests \<Rightarrow> ledger_env \<Rightarrow> string \<Rightarrow> art_ledger \<Rightarrow> name_record option" where
  "name_at hs en name s = map_of (al_names s) (ledger_key hs en name)"

definition put_name :: "digests \<Rightarrow> ledger_env \<Rightarrow> string \<Rightarrow> name_record \<Rightarrow> art_ledger \<Rightarrow> art_ledger" where
  "put_name hs en name r s = s\<lparr>al_names := AList.update (ledger_key hs en name) r (al_names s)\<rparr>"

definition commit_at :: "digests \<Rightarrow> string \<Rightarrow> art_ledger \<Rightarrow> commit_record option" where
  "commit_at hs tx s = map_of (al_commits s) (safe_segment hs tx)"

definition tomb_at :: "digests \<Rightarrow> string \<Rightarrow> art_ledger \<Rightarrow> tombstone option" where
  "tomb_at hs tx s = map_of (al_tombs s) (safe_segment hs tx)"

definition reserved_by :: "string \<Rightarrow> string \<Rightarrow> name_record option \<Rightarrow> bool" where
  "reserved_by name tx r \<longleftrightarrow> (case r of None \<Rightarrow> False | Some x \<Rightarrow> nr_status x = ''reserved'' \<and> nr_tx x = tx \<and> nr_name x = name)"

section \<open>Reservations\<close>

definition ledger_reserve :: "digests \<Rightarrow> ledger_env \<Rightarrow> time \<Rightarrow> string \<Rightarrow> string \<Rightarrow> string \<Rightarrow> int \<Rightarrow> art_ledger \<Rightarrow> unit result \<times> art_ledger" where
  "ledger_reserve hs en now name0 tx0 lease token s = (let name = py_strip name0; tx = py_strip tx0 in
     if name = [] \<or> tx = [] then (Inl ValueError, s)
     else case name_at hs en name s of
       None \<Rightarrow> (Inr (), put_name hs en name \<lparr>nr_status = ''reserved'', nr_name = name, nr_project = en_project en, nr_case = en_case en,
         nr_tx = tx, nr_lease = lease, nr_token = max 0 token, nr_at = now, nr_ref = None, nr_digest = []\<rparr> s)
     | Some r \<Rightarrow> (if reserved_by name tx (Some r) then Inr () else Inl PublicationError, s))"

definition attach_provisional :: "digests \<Rightarrow> ledger_env \<Rightarrow> string \<Rightarrow> string \<Rightarrow> data_ref \<Rightarrow> art_ledger \<Rightarrow> unit result \<times> art_ledger" where
  "attach_provisional hs en name0 tx0 ref s = (let name = py_strip name0; tx = py_strip tx0 in
     case name_at hs en name s of
       None \<Rightarrow> (Inl PublicationError, s)
     | Some r \<Rightarrow> if \<not> reserved_by name tx (Some r) then (Inl PublicationError, s)
         else case nr_ref r of
           Some old \<Rightarrow> (if data_ref_eq old ref then Inr () else Inl PublicationError, s)
         | None \<Rightarrow> (Inr (), put_name hs en name (r\<lparr>nr_ref := Some ref\<rparr>) s))"

section \<open>Physical checks\<close>

definition file_size :: "string \<Rightarrow> int" where
  "file_size bytes = int (length bytes)"

definition validate_physical_ref :: "digests \<Rightarrow> ledger_env \<Rightarrow> string \<Rightarrow> data_ref \<Rightarrow> art_ledger \<Rightarrow> unit result" where
  "validate_physical_ref hs en name0 ref s =
     (let target = locate (en_cwd en) (dr_uri ref);
          said = (\<lambda>k v. py_str (dict_get (dr_meta ref) k (PStr [])) = v) in
      rbind (guard (dr_backend ref = ''filesystem'' \<and> within_dir target (case_root hs en)) PublicationError) (\<lambda>_.
      case map_of (al_files s) target of
        None \<Rightarrow> Inl PublicationError
      | Some bytes \<Rightarrow> guard (dr_size ref = Some (file_size bytes) \<and> sha_file hs bytes = dr_checksum ref
          \<and> said ''artifact_name'' (py_strip name0) \<and> said ''project_run_id'' (en_project en) \<and> said ''case_run_id'' (en_case en))
          PublicationError))"

section \<open>Commit\<close>

text \<open>The checks of a first commit, and of a repeated one.\<close>

fun check_refs :: "digests \<Rightarrow> ledger_env \<Rightarrow> string \<Rightarrow> (string \<times> data_ref) list \<Rightarrow> art_ledger \<Rightarrow> unit result" where
  "check_refs hs en tx [] s = Inr ()"
| "check_refs hs en tx ((name, ref) # rest) s =
     rbind (guard (reserved_by name tx (name_at hs en name s)) PublicationError) (\<lambda>_.
     rbind (guard (dr_checksum ref \<noteq> []) PublicationError) (\<lambda>_.
     rbind (validate_physical_ref hs en name ref s) (\<lambda>_. check_refs hs en tx rest s)))"

fun read_receipts :: "digests \<Rightarrow> (string \<times> dict) list \<Rightarrow> (string \<times> publication) list result" where
  "read_receipts hs [] = Inr []"
| "read_receipts hs ((name, raw) # rest) =
     rbind (pub_from_dict hs raw) (\<lambda>p. rbind (read_receipts hs rest) (\<lambda>ps. Inr ((name, p) # ps)))"

definition same_refs :: "(string \<times> data_ref) list \<Rightarrow> (string \<times> publication) list \<Rightarrow> bool" where
  "same_refs refs ps \<longleftrightarrow> list_all (\<lambda>(name, ref). case map_of ps name of None \<Rightarrow> False | Some p \<Rightarrow> data_ref_eq (pb_ref p) ref) refs"

fun physical_refs :: "digests \<Rightarrow> ledger_env \<Rightarrow> (string \<times> data_ref) list \<Rightarrow> art_ledger \<Rightarrow> unit result" where
  "physical_refs hs en [] s = Inr ()"
| "physical_refs hs en ((name, ref) # rest) s = rbind (validate_physical_ref hs en name ref s) (\<lambda>_. physical_refs hs en rest s)"

definition recommit :: "digests \<Rightarrow> ledger_env \<Rightarrow> (string \<times> data_ref) list \<Rightarrow> commit_record \<Rightarrow> art_ledger \<Rightarrow> (string \<times> publication) list result" where
  "recommit hs en refs rc s =
     rbind (guard (cm_status rc = ''committed'') PublicationError) (\<lambda>_.
     rbind (guard (fst ` set (cm_receipts rc) = fst ` set refs) PublicationError) (\<lambda>_.
     rbind (read_receipts hs (cm_receipts rc)) (\<lambda>ps.
     rbind (guard (same_refs refs ps) PublicationError) (\<lambda>_.
     rbind (physical_refs hs en refs s) (\<lambda>_. Inr ps)))))"

text \<open>\<open>publication_id\<close>: 32 digits of the digest of the run, the Case, the transaction and the name.\<close>

definition publication_id :: "digests \<Rightarrow> ledger_env \<Rightarrow> string \<Rightarrow> string \<Rightarrow> string" where
  "publication_id hs en tx name = ''publication-'' @ hex_digits hs 32 (en_project en @ [CHR 0x00] @ en_case en @ [CHR 0x00] @ tx @ [CHR 0x00] @ name)"

fun make_receipts :: "digests \<Rightarrow> ledger_env \<Rightarrow> time \<Rightarrow> string \<Rightarrow> string \<Rightarrow> int \<Rightarrow> dict \<Rightarrow> (string \<times> data_ref) list
    \<Rightarrow> (string \<times> publication) list result" where
  "make_receipts hs en now tx lease token md [] = Inr []"
| "make_receipts hs en now tx lease token md ((name, ref) # rest) =
     rbind (pub_post_init hs \<lparr>pb_id = publication_id hs en tx name, pb_name = name, pb_ref = ref, pb_project = en_project en,
       pb_case = en_case en, pb_tx = tx, pb_namespace = aa_namespace (en_authority en), pb_lease = lease, pb_token = token,
       pb_at = now, pb_digest = [], pb_meta = md\<rparr>) (\<lambda>p.
     rbind (make_receipts hs en now tx lease token md rest) (\<lambda>ps. Inr ((name, p) # ps)))"

definition commit_of :: "ledger_env \<Rightarrow> time \<Rightarrow> string \<Rightarrow> (string \<times> publication) list \<Rightarrow> commit_record" where
  "commit_of en now tx ps = \<lparr>cm_status = ''committed'', cm_project = en_project en, cm_case = en_case en, cm_tx = tx, cm_at = now,
     cm_receipts = map (\<lambda>(name, p). (name, pub_as_dict p)) ps\<rparr>"

text \<open>The record of the name is compacted after the seal; where that write fails (\<open>fails\<close>) it stays.\<close>

definition seal_name :: "digests \<Rightarrow> ledger_env \<Rightarrow> time \<Rightarrow> string \<Rightarrow> (string \<Rightarrow> bool) \<Rightarrow> string \<times> publication \<Rightarrow> art_ledger \<Rightarrow> art_ledger" where
  "seal_name hs en now tx fails e s = (if fails (fst e) then s else put_name hs en (fst e)
     \<lparr>nr_status = ''committed'', nr_name = fst e, nr_project = en_project en, nr_case = en_case en, nr_tx = tx, nr_lease = [],
       nr_token = 0, nr_at = 0, nr_ref = None, nr_digest = pb_digest (snd e)\<rparr> s)"

definition ledger_commit :: "digests \<Rightarrow> ledger_env \<Rightarrow> time \<Rightarrow> (art_ledger \<Rightarrow> art_ledger) \<Rightarrow> (string \<Rightarrow> bool) \<Rightarrow> string
    \<Rightarrow> (string \<times> data_ref) list \<Rightarrow> string \<Rightarrow> int \<Rightarrow> dict \<Rightarrow> art_ledger \<Rightarrow> (string \<times> publication) list result \<times> art_ledger" where
  "ledger_commit hs en now others fails tx0 refs lease token md s = (let tx = py_strip tx0 in
     if tx = [] then (Inl ValueError, s)
     else case commit_at hs tx s of
       Some rc \<Rightarrow> (recommit hs en refs rc s, s)
     | None \<Rightarrow> if tomb_at hs tx s \<noteq> None then (Inl PublicationError, s)
         else case rbind (check_refs hs en tx refs s) (\<lambda>_. make_receipts hs en now tx lease token md refs) of
           Inl e \<Rightarrow> (Inl e, s)
         | Inr ps \<Rightarrow> (let s1 = others s; rc = commit_of en now tx ps in
             case commit_at hs tx s1 of
               Some old \<Rightarrow> if old \<noteq> rc then (Inl PublicationError, s1) else (Inr ps, fold (seal_name hs en now tx fails) ps s1)
             | None \<Rightarrow> (Inr ps, fold (seal_name hs en now tx fails) ps
                 (s1\<lparr>al_commits := AList.update (safe_segment hs tx) rc (al_commits s1)\<rparr>))))"

section \<open>Verification\<close>

definition ledger_verify :: "digests \<Rightarrow> ledger_env \<Rightarrow> publication \<Rightarrow> art_ledger \<Rightarrow> bool" where
  "ledger_verify hs en p s \<longleftrightarrow> pb_project p = en_project en \<and> pb_case p = en_case en \<and> pb_namespace p = aa_namespace (en_authority en)
     \<and> (case commit_at hs (pb_tx p) s of None \<Rightarrow> False | Some rc \<Rightarrow> cm_status rc = ''committed'' \<and>
         (case map_of (cm_receipts rc) (pb_name p) of None \<Rightarrow> False | Some raw \<Rightarrow>
         (case pub_from_dict hs raw of Inl e \<Rightarrow> False | Inr q \<Rightarrow> py_eq (PMap (pub_as_dict q)) (PMap (pub_as_dict p))
           \<and> (dr_backend (pb_ref q) = ''filesystem'' \<longrightarrow>
               (let target = locate (en_cwd en) (dr_uri (pb_ref q)) in within_dir target (authority_root en)
                \<and> (case map_of (al_files s) target of None \<Rightarrow> False | Some bytes \<Rightarrow>
                    (case dr_size (pb_ref q) of None \<Rightarrow> True | Some n \<Rightarrow> n = 0 \<or> file_size bytes = n)
                    \<and> dr_checksum (pb_ref q) \<noteq> [] \<and> sha_file hs bytes = dr_checksum (pb_ref q)))))))"

section \<open>Abort\<close>

definition delete_provisional :: "digests \<Rightarrow> ledger_env \<Rightarrow> data_ref \<Rightarrow> art_ledger \<Rightarrow> unit result \<times> art_ledger" where
  "delete_provisional hs en ref s = (let target = locate (en_cwd en) (dr_uri ref) in
     if dr_backend ref \<noteq> ''filesystem'' then (Inr (), s)
     else if \<not> within_dir target (case_root hs en) then (Inl PublicationError, s)
     else (Inr (), s\<lparr>al_files := AList.delete target (al_files s)\<rparr>))"

fun release_names :: "digests \<Rightarrow> ledger_env \<Rightarrow> string \<Rightarrow> (string \<times> data_ref) list \<Rightarrow> string list \<Rightarrow> art_ledger \<Rightarrow> unit result \<times> art_ledger" where
  "release_names hs en tx refs [] s = (Inr (), s)"
| "release_names hs en tx refs (name # names) s =
     (let s1 = (case name_at hs en name s of None \<Rightarrow> s | Some r \<Rightarrow>
         if nr_tx r = tx then s\<lparr>al_names := AList.delete (ledger_key hs en name) (al_names s)\<rparr> else s) in
      case map_of refs name of None \<Rightarrow> release_names hs en tx refs names s1
      | Some ref \<Rightarrow> (case delete_provisional hs en ref s1 of
          (Inl e, s2) \<Rightarrow> (Inl e, s2) | (Inr _, s2) \<Rightarrow> release_names hs en tx refs names s2))"

definition ledger_abort :: "digests \<Rightarrow> ledger_env \<Rightarrow> time \<Rightarrow> (art_ledger \<Rightarrow> art_ledger) \<Rightarrow> string \<Rightarrow> (string \<times> data_ref) list \<Rightarrow> string
    \<Rightarrow> string list \<Rightarrow> art_ledger \<Rightarrow> unit result \<times> art_ledger" where
  "ledger_abort hs en now others tx0 refs reason names s = (let tx = py_strip tx0; all_names = remdups (map fst refs @ names) in
     if tx = [] then (Inr (), s)
     else if commit_at hs tx s \<noteq> None then (Inl PublicationError, s)
     else let s1 = others s in
       release_names hs en tx refs all_names (if tomb_at hs tx s1 \<noteq> None then s1
         else s1\<lparr>al_tombs := AList.update (safe_segment hs tx) \<lparr>tb_project = en_project en, tb_case = en_case en, tb_tx = tx,
           tb_reason = or_default reason ''aborted'', tb_at = now, tb_names = sort all_names\<rparr> (al_tombs s1)\<rparr>))"

section \<open>Scavenging\<close>

definition stale_record :: "string \<Rightarrow> int \<Rightarrow> time \<Rightarrow> time \<Rightarrow> name_record \<Rightarrow> bool" where
  "stale_record lease token max_age now r =
     (let fenced = lease \<noteq> [] \<and> nr_lease r \<noteq> [] \<and> (nr_lease r \<noteq> lease \<or> nr_token r < token);
          same_owner = lease \<noteq> [] \<and> nr_lease r = lease \<and> nr_token r = token in
      fenced \<or> (\<not> same_owner \<and> max_age \<le> max 0 (now - nr_at r)))"

definition open_records :: "digests \<Rightarrow> ledger_env \<Rightarrow> art_ledger \<Rightarrow> name_record list" where
  "open_records hs en s = map snd (filter (\<lambda>(k, r). fst k = safe_segment hs (en_case en) \<and> nr_status r = ''reserved'' \<and> nr_tx r \<noteq> []) (al_names s))"

datatype scavenged = Scavenged string "string list" | Invalid_Reservation string

fun scavenge_loop :: "digests \<Rightarrow> ledger_env \<Rightarrow> clock \<Rightarrow> (name_record \<Rightarrow> bool) \<Rightarrow> name_record list \<Rightarrow> string list \<Rightarrow> art_ledger
    \<Rightarrow> scavenged list result \<times> art_ledger" where
  "scavenge_loop hs en c stale rs [] s = (Inr [], s)"
| "scavenge_loop hs en c stale rs (tx # txs) s =
     (let entries = filter (\<lambda>r. nr_tx r = tx) rs; names = map nr_name entries;
          refs = List.map_filter (\<lambda>r. map_option (Pair (nr_name r)) (nr_ref r)) entries in
      if \<not> list_all stale entries \<or> commit_at hs tx s \<noteq> None then scavenge_loop hs en c stale rs txs s
      else if [] \<in> set names then
        (case scavenge_loop hs en c stale rs txs s of (res, s') \<Rightarrow> (rbind res (\<lambda>es. Inr (Invalid_Reservation tx # es)), s'))
      else (case ledger_abort hs en (c 0) (\<lambda>x. x) tx refs ''stale_reservation_scavenged'' names s of
          (Inl e, s1) \<Rightarrow> (Inl e, s1)
        | (Inr _, s1) \<Rightarrow> (case scavenge_loop hs en (\<lambda>n. c (n + 1)) stale rs txs s1 of
            (res, s') \<Rightarrow> (rbind res (\<lambda>es. Inr (Scavenged tx (sort names) # es)), s'))))"

definition ledger_scavenge :: "digests \<Rightarrow> ledger_env \<Rightarrow> clock \<Rightarrow> string \<Rightarrow> int \<Rightarrow> time \<Rightarrow> art_ledger \<Rightarrow> scavenged list result \<times> art_ledger" where
  "ledger_scavenge hs en c lease token stale_after s =
     (let rs = open_records hs en s in
      scavenge_loop hs en (\<lambda>n. c (n + 1)) (stale_record lease (max 0 token) (max 1 stale_after) (c 0)) rs (fromkeys (map nr_tx rs)) s)"

end
