(* ===== verification/Artifact_Publisher.thy ===== *)
theory Artifact_Publisher
  imports Artifact_Ledger
begin

text \<open>
  \<open>FilesystemArtifactStore\<close> and \<open>ArtifactPublisher\<close>: a value is serialised, copied under the root of
  the authority and moved into place, and the steps of its publication are guarded by the lease the
  Case runs under. \<open>cur\<close> is \<open>is_current\<close> of the lease store at the moment the fence is read; \<open>fresh\<close>
  are the uuids.
\<close>

section \<open>The file store\<close>

text \<open>A fence is read before the copy and again before the file appears under its name.\<close>

definition publish_file :: "ledger_env \<Rightarrow> (nat \<Rightarrow> unit result) \<Rightarrow> string \<Rightarrow> string list \<Rightarrow> data_ref \<Rightarrow> art_ledger \<Rightarrow> data_ref result \<times> art_ledger" where
  "publish_file en fence bytes relative ref s = (let destination = resolve (authority_root en) relative in
     if \<not> within_dir destination (authority_root en) then (Inl PublicationError, s)
     else case rbind (fence 0) (\<lambda>_. fence 1) of
       Inl e \<Rightarrow> (Inl e, s)
     | Inr _ \<Rightarrow> (data_ref_post_init (ref\<lparr>dr_uri := spell destination, dr_kind := or_default (dr_kind ref) ''artifact'',
         dr_backend := ''filesystem'', dr_media := or_default (dr_media ref) ''application/octet-stream'', dr_size := Some (file_size bytes)\<rparr>),
         s\<lparr>al_files := AList.update destination bytes (al_files s)\<rparr>))"

section \<open>The publisher\<close>

record 'v publisher =
  pu_ledger :: ledger_env
  pu_project :: string
  pu_case :: string
  pu_lease :: string
  pu_token :: int
  pu_fence_backend :: string
  pu_serializers :: "'v serializers"

text \<open>\<open>_build_fence_validator\<close>: without a lease, or over a lease store in memory, there is no fence.\<close>

definition fence_check :: "'v publisher \<Rightarrow> (string \<Rightarrow> int \<Rightarrow> bool) \<Rightarrow> unit result" where
  "fence_check pu cur =
     (if pu_lease pu = [] \<or> pu_token pu \<le> 0 \<or> py_lower (py_strip (or_default (pu_fence_backend pu) ''memory'')) \<notin> {''sqlite'', ''redis''} then Inr ()
      else guard (cur (pu_lease pu) (pu_token pu)) ArtifactFenceError)"

definition publisher_init :: "digests \<Rightarrow> art_authority \<Rightarrow> string list \<Rightarrow> string \<Rightarrow> string \<Rightarrow> string \<Rightarrow> int \<Rightarrow> string \<Rightarrow> 'v serializers
    \<Rightarrow> clock \<Rightarrow> time \<Rightarrow> art_ledger \<Rightarrow> ('v publisher \<times> scavenged list) result \<times> art_ledger" where
  "publisher_init hs a cwd project case_run lease token fence_backend serializers c stale_after s =
     (case ledger_init a cwd (or_default project ''project-run'') (or_default case_run ''case-run'') of
       Inl e \<Rightarrow> (Inl e, s)
     | Inr en \<Rightarrow> (case ledger_scavenge hs en c lease token stale_after s of
         (Inl e, s') \<Rightarrow> (Inl e, s')
       | (Inr es, s') \<Rightarrow> (Inr (\<lparr>pu_ledger = en, pu_project = or_default project ''project-run'', pu_case = or_default case_run ''case-run'', pu_lease = lease, pu_token = token, pu_fence_backend = fence_backend,
           pu_serializers = serializers\<rparr>, es), s')))"

definition under_fence :: "'v publisher \<Rightarrow> (string \<Rightarrow> int \<Rightarrow> bool) \<Rightarrow> (art_ledger \<Rightarrow> 'a result \<times> art_ledger) \<Rightarrow> art_ledger \<Rightarrow> 'a result \<times> art_ledger" where
  "under_fence pu cur f s = (case fence_check pu cur of Inl e \<Rightarrow> (Inl e, s) | Inr _ \<Rightarrow> f s)"

definition reserve_publication :: "digests \<Rightarrow> 'v publisher \<Rightarrow> (string \<Rightarrow> int \<Rightarrow> bool) \<Rightarrow> time \<Rightarrow> string \<Rightarrow> string \<Rightarrow> art_ledger \<Rightarrow> unit result \<times> art_ledger" where
  "reserve_publication hs pu cur now name tx = under_fence pu cur (ledger_reserve hs (pu_ledger pu) now name tx (pu_lease pu) (pu_token pu))"

definition record_provisional :: "digests \<Rightarrow> 'v publisher \<Rightarrow> (string \<Rightarrow> int \<Rightarrow> bool) \<Rightarrow> string \<Rightarrow> string \<Rightarrow> data_ref \<Rightarrow> art_ledger \<Rightarrow> unit result \<times> art_ledger" where
  "record_provisional hs pu cur name tx ref = under_fence pu cur (attach_provisional hs (pu_ledger pu) name tx ref)"

definition commit_publications :: "digests \<Rightarrow> 'v publisher \<Rightarrow> (string \<Rightarrow> int \<Rightarrow> bool) \<Rightarrow> time \<Rightarrow> (art_ledger \<Rightarrow> art_ledger) \<Rightarrow> (string \<Rightarrow> bool)
    \<Rightarrow> string \<Rightarrow> (string \<times> data_ref) list \<Rightarrow> dict \<Rightarrow> art_ledger \<Rightarrow> (string \<times> publication) list result \<times> art_ledger" where
  "commit_publications hs pu cur now others fails tx refs md =
     under_fence pu cur (ledger_commit hs (pu_ledger pu) now others fails tx refs (pu_lease pu) (pu_token pu) md)"

definition abort_publications :: "digests \<Rightarrow> 'v publisher \<Rightarrow> time \<Rightarrow> (art_ledger \<Rightarrow> art_ledger) \<Rightarrow> string \<Rightarrow> (string \<times> data_ref) list \<Rightarrow> string
    \<Rightarrow> string list \<Rightarrow> art_ledger \<Rightarrow> unit result \<times> art_ledger" where
  "abort_publications hs pu now others tx refs reason names = ledger_abort hs (pu_ledger pu) now others tx refs reason names"

definition verify_publication :: "digests \<Rightarrow> 'v publisher \<Rightarrow> publication \<Rightarrow> art_ledger \<Rightarrow> bool" where
  "verify_publication hs pu p s = ledger_verify hs (pu_ledger pu) p s"

datatype 'v serializer_arg = Auto_Serializer | Named_Serializer string | Given_Serializer "'v serializer"

definition pick_serializer :: "'v publisher \<Rightarrow> 'v \<Rightarrow> 'v serializer_arg \<Rightarrow> 'v serializer result" where
  "pick_serializer pu v a = (let unsafe = aa_unsafe (en_authority (pu_ledger pu)) in
     rbind (case a of Auto_Serializer \<Rightarrow> select_serializer unsafe v (pu_serializers pu)
       | Named_Serializer n \<Rightarrow> if py_lower (py_strip n) = ''auto'' then select_serializer unsafe v (pu_serializers pu)
           else get_serializer n (pu_serializers pu)
       | Given_Serializer x \<Rightarrow> Inr x) (\<lambda>x.
     rbind (guard (\<not> se_unsafe x \<or> unsafe) PublicationError) (\<lambda>_. Inr x)))"

text \<open>The name of the file: the artifact, 16 digits of the checksum after its colon, a uuid.\<close>

definition artifact_file :: "digests \<Rightarrow> string \<Rightarrow> string \<Rightarrow> string \<Rightarrow> string \<Rightarrow> string" where
  "artifact_file hs fresh name checksum ext = safe_segment hs name @ ''--'' @ take 16 (drop 1 (dropWhile (\<lambda>c. c \<noteq> CHR '':'') checksum))
     @ ''--'' @ take 12 fresh @ ext"

definition json_mapping :: "dict \<Rightarrow> dict result" where
  "json_mapping d = rbind (encode_shared_value (PMap d)) py_dict"

definition publish :: "digests \<Rightarrow> 'v publisher \<Rightarrow> (nat \<Rightarrow> string \<Rightarrow> int \<Rightarrow> bool) \<Rightarrow> string \<Rightarrow> string \<Rightarrow> 'v \<Rightarrow> 'v serializer_arg \<Rightarrow> string \<Rightarrow> string \<Rightarrow> dict
    \<Rightarrow> art_ledger \<Rightarrow> data_ref result \<times> art_ledger" where
  "publish hs pu cur fresh name0 v a kind media md s = (let en = pu_ledger pu; name = py_strip name0 in
     case rbind (guard (name \<noteq> []) ValueError) (\<lambda>_.
          rbind (pick_serializer pu v a) (\<lambda>x.
          rbind (se_dump x v) (\<lambda>out. case out of None \<Rightarrow> Inl PublicationError | Some bytes \<Rightarrow>
          rbind (json_mapping md) (\<lambda>md'. Inr (x, bytes, md'))))) of
       Inl e \<Rightarrow> (Inl e, s)
     | Inr (x, bytes, md') \<Rightarrow>
         publish_file en (\<lambda>n. fence_check pu (cur n)) bytes
           (map (safe_segment hs) [aa_namespace (en_authority en), pu_project pu, pu_case pu]
              @ [artifact_file hs fresh name (sha_file hs bytes) (se_extension x)])
           \<lparr>dr_uri = [], dr_kind = kind, dr_backend = [], dr_media = or_default media (se_media x), dr_checksum = sha_file hs bytes, dr_size = None,
             dr_meta = dict_update [(''artifact_name'', PStr name), (''serializer'', PStr (se_name x)), (''serializer_unsafe'', PBool (se_unsafe x)),
               (''project_run_id'', PStr (pu_project pu)), (''case_run_id'', PStr (pu_case pu)), (''lease_id'', PStr (pu_lease pu)),
               (''fencing_token'', PInt (pu_token pu))] md'\<rparr> s)"

end
