(* ===== verification/Artifact_Properties.thy ===== *)
theory Artifact_Properties
  imports Artifact_Publisher Lease_Properties
begin

text \<open>
  What the publication of artifacts promises: a name is committed by one transaction only and for
  good, a sealed receipt verifies and can be asked for again, the scavenger takes exactly the
  abandoned reservations, a publisher whose lease is gone can do nothing, and what it publishes lies
  inside the directory of its Case.
\<close>

section \<open>The invariant\<close>

definition name_key :: "digests \<Rightarrow> string \<Rightarrow> string \<Rightarrow> string \<times> string" where
  "name_key hs case_run name = (safe_segment hs case_run, safe_segment hs name @ ''--'' @ hex_digits hs 16 name)"

lemma ledger_key_eq: "ledger_key hs en name = name_key hs (en_case en) name"
  by (simp add: ledger_key_def name_key_def)

definition record_ok :: "digests \<Rightarrow> (string \<times> string) \<Rightarrow> name_record \<Rightarrow> bool" where
  "record_ok hs k r \<longleftrightarrow> snd k = snd (name_key hs [] (nr_name r)) \<and> py_strip (nr_name r) = nr_name r \<and> nr_name r \<noteq> []
     \<and> py_strip (nr_tx r) = nr_tx r \<and> nr_tx r \<noteq> []"

text \<open>A commit record owns the names it holds receipts for.\<close>

definition owns_names :: "digests \<Rightarrow> commit_record \<Rightarrow> art_ledger \<Rightarrow> bool" where
  "owns_names hs rc s \<longleftrightarrow> (\<forall>n\<in>fst ` set (cm_receipts rc). \<exists>r. map_of (al_names s) (name_key hs (cm_case rc) n) = Some r
     \<and> nr_name r = n \<and> nr_tx r = cm_tx rc)"

definition ledger_ok :: "digests \<Rightarrow> art_ledger \<Rightarrow> bool" where
  "ledger_ok hs s \<longleftrightarrow> (\<forall>k r. map_of (al_names s) k = Some r \<longrightarrow> record_ok hs k r)
     \<and> (\<forall>k rc. map_of (al_commits s) k = Some rc \<longrightarrow> k = safe_segment hs (cm_tx rc) \<and> owns_names hs rc s \<and> map_of (al_tombs s) k = None)"

lemma ledger_okD:
  assumes "ledger_ok hs s"
  shows "map_of (al_names s) k = Some r \<Longrightarrow> record_ok hs k r"
    "map_of (al_commits s) j = Some rc \<Longrightarrow> j = safe_segment hs (cm_tx rc)"
    "map_of (al_commits s) j = Some rc \<Longrightarrow> owns_names hs rc s"
    "map_of (al_commits s) j = Some rc \<Longrightarrow> map_of (al_tombs s) j = None"
  using assms unfolding ledger_ok_def by blast+

lemma put_name_fields [simp]:
  "al_commits (put_name hs en n r s) = al_commits s" "al_tombs (put_name hs en n r s) = al_tombs s" "al_files (put_name hs en n r s) = al_files s"
  by (simp_all add: put_name_def)

lemma map_of_put_name: "map_of (al_names (put_name hs en n r s)) = (map_of (al_names s))(name_key hs (en_case en) n \<mapsto> r)"
  by (simp add: put_name_def ledger_key_eq update_conv')

text \<open>A record may take the place of none or of one with its name and transaction.\<close>

definition may_replace :: "name_record \<Rightarrow> name_record option \<Rightarrow> bool" where
  "may_replace r old \<longleftrightarrow> (case old of None \<Rightarrow> True | Some x \<Rightarrow> nr_name x = nr_name r \<and> nr_tx x = nr_tx r)"

lemma put_name_ok:
  assumes "ledger_ok hs s" "record_ok hs (name_key hs (en_case en) n) r" "may_replace r (name_at hs en n s)"
  shows "ledger_ok hs (put_name hs en n r s)"
proof -
  have "owns_names hs rc (put_name hs en n r s)" if "owns_names hs rc s" for rc
    using that assms(3) by (auto simp: owns_names_def map_of_put_name may_replace_def name_at_def ledger_key_eq)
  then show ?thesis using assms(1,2) unfolding ledger_ok_def by (auto simp: map_of_put_name split: if_splits)
qed

lemma record_ok_key: "record_ok hs (name_key hs c n) r \<longleftrightarrow> snd (name_key hs [] n) = snd (name_key hs [] (nr_name r))
    \<and> py_strip (nr_name r) = nr_name r \<and> nr_name r \<noteq> [] \<and> py_strip (nr_tx r) = nr_tx r \<and> nr_tx r \<noteq> []"
  by (simp add: record_ok_def name_key_def)

section \<open>Preservation\<close>

lemma reserve_ok:
  assumes "ledger_ok hs s"
  shows "ledger_ok hs (snd (ledger_reserve hs en now name tx lease token s))"
  using assms put_name_ok [OF assms] by (auto simp: ledger_reserve_def Let_def record_ok_key may_replace_def split: option.splits)

lemma reserved_by_record: "reserved_by name tx (name_at hs en name s) \<Longrightarrow> \<exists>r. name_at hs en name s = Some r \<and> nr_status r = ''reserved'' \<and> nr_name r = name \<and> nr_tx r = tx"
  by (auto simp: reserved_by_def split: option.splits)

lemma attach_ok:
  assumes "ledger_ok hs s"
  shows "ledger_ok hs (snd (attach_provisional hs en name tx ref s))"
proof (cases "name_at hs en (py_strip name) s")
  case (Some r)
  then have "record_ok hs (name_key hs (en_case en) (py_strip name)) r"
    using ledger_okD(1) [OF assms] by (simp add: name_at_def ledger_key_eq)
  then have "ledger_ok hs (put_name hs en (py_strip name) (r\<lparr>nr_ref := Some ref\<rparr>) s)"
    by (intro put_name_ok [OF assms]) (simp_all add: record_ok_def may_replace_def Some)
  then show ?thesis using assms Some by (simp add: attach_provisional_def Let_def split: option.splits)
qed (use assms in \<open>simp add: attach_provisional_def Let_def\<close>)

lemma check_refs_reserved: "check_refs hs en tx refs s = Inr u \<Longrightarrow> n \<in> fst ` set refs \<Longrightarrow> reserved_by n tx (name_at hs en n s)"
  by (induction refs) (force simp: rbind_Inr)+

lemma make_receipts_names: "make_receipts hs en now tx lease token md refs = Inr ps \<Longrightarrow> map fst ps = map fst refs"
  by (induction refs arbitrary: ps) (auto simp: rbind_Inr)

lemma seal_name_fields [simp]:
  "al_commits (seal_name hs en now tx fails e s) = al_commits s" "al_tombs (seal_name hs en now tx fails e s) = al_tombs s"
  "al_files (seal_name hs en now tx fails e s) = al_files s"
  by (simp_all add: seal_name_def)

lemma seal_fold_fields [simp]:
  "al_commits (fold (seal_name hs en now tx fails) ps s) = al_commits s" "al_tombs (fold (seal_name hs en now tx fails) ps s) = al_tombs s"
  "al_files (fold (seal_name hs en now tx fails) ps s) = al_files s"
  by (induction ps arbitrary: s) simp_all

text \<open>Sealing a name held by the transaction changes neither its name nor its transaction.\<close>

definition name_held :: "digests \<Rightarrow> ledger_env \<Rightarrow> string \<Rightarrow> string \<Rightarrow> art_ledger \<Rightarrow> bool" where
  "name_held hs en tx n s \<longleftrightarrow> (\<exists>r. name_at hs en n s = Some r \<and> nr_name r = n \<and> nr_tx r = tx)"

lemma seal_name_ok:
  assumes "ledger_ok hs s" "name_held hs en tx (fst e) s"
  shows "ledger_ok hs (seal_name hs en now tx fails e s)" "name_held hs en tx n s \<Longrightarrow> name_held hs en tx n (seal_name hs en now tx fails e s)"
proof -
  obtain r where r: "name_at hs en (fst e) s = Some r" "nr_name r = fst e" "nr_tx r = tx" using assms(2) by (auto simp: name_held_def)
  then have "record_ok hs (name_key hs (en_case en) (fst e)) r"
    using ledger_okD(1) [OF assms(1)] by (simp add: name_at_def ledger_key_eq)
  then show "ledger_ok hs (seal_name hs en now tx fails e s)"
    using assms(1) r by (auto simp: seal_name_def record_ok_def may_replace_def intro!: put_name_ok)
  show "name_held hs en tx n s \<Longrightarrow> name_held hs en tx n (seal_name hs en now tx fails e s)"
    using r by (auto simp: name_held_def seal_name_def name_at_def map_of_put_name ledger_key_eq)
qed

lemma seal_fold_ok:
  assumes "ledger_ok hs s" "\<forall>e\<in>set ps. name_held hs en tx (fst e) s"
  shows "ledger_ok hs (fold (seal_name hs en now tx fails) ps s)"
  using assms by (induction ps arbitrary: s) (auto simp: seal_name_ok)

lemma commit_seals:
  assumes "ledger_commit hs en now (\<lambda>x. x) fails tx0 refs lease token md s = (Inr ps, s')" "commit_at hs (py_strip tx0) s = None"
  shows "tomb_at hs (py_strip tx0) s = None" "check_refs hs en (py_strip tx0) refs s = Inr ()"
    "make_receipts hs en now (py_strip tx0) lease token md refs = Inr ps"
    "s' = fold (seal_name hs en now (py_strip tx0) fails) ps
      (s\<lparr>al_commits := AList.update (safe_segment hs (py_strip tx0)) (commit_of en now (py_strip tx0) ps) (al_commits s)\<rparr>)"
  using assms by (auto simp: ledger_commit_def Let_def rbind_Inr split: if_splits option.splits sum.splits)

lemma commit_ok:
  assumes "ledger_ok hs s"
  shows "ledger_ok hs (snd (ledger_commit hs en now (\<lambda>x. x) fails tx0 refs lease token md s))"
proof -
  obtain res s' where c: "ledger_commit hs en now (\<lambda>x. x) fails tx0 refs lease token md s = (res, s')" by fastforce
  consider (same) "s' = s" | (new) ps where "res = Inr ps" "commit_at hs (py_strip tx0) s = None"
  proof (cases "commit_at hs (py_strip tx0) s")
    case None
    then have "s' = s" if "res = Inl e" for e
      using c that by (auto simp: ledger_commit_def Let_def split: if_splits sum.splits)
    then show ?thesis using that None by (cases res) blast+
  next
    case (Some rc)
    then show ?thesis using c that(1) by (simp add: ledger_commit_def Let_def split: if_splits)
  qed
  then show ?thesis
  proof cases
    case same
    then show ?thesis using assms c by simp
  next
    case new
    let ?tx = "py_strip tx0" and ?k = "safe_segment hs (py_strip tx0)"
    note seals = commit_seals [OF c [unfolded new(1)] new(2)]
    let ?rc = "commit_of en now ?tx ps"
    let ?s = "s\<lparr>al_commits := AList.update ?k ?rc (al_commits s)\<rparr>"
    have h: "name_held hs en ?tx n s" if "n \<in> fst ` set ps" for n
    proof -
      have "n \<in> fst ` set refs" using that make_receipts_names [OF seals(3)] by (metis set_map)
      from check_refs_reserved [OF seals(2) this] show ?thesis by (auto simp: name_held_def dest!: reserved_by_record)
    qed
    have "owns_names hs ?rc ?s"
      using h by (fastforce simp: owns_names_def commit_of_def name_held_def name_at_def ledger_key_eq)
    moreover have "owns_names hs rc ?s" if "owns_names hs rc s" for rc
      using that by (simp add: owns_names_def)
    ultimately have "ledger_ok hs ?s"
      using assms seals(1) by (auto simp: ledger_ok_def update_conv' tomb_at_def commit_of_def split: if_splits)
    moreover have "\<forall>e\<in>set ps. name_held hs en ?tx (fst e) ?s" using h by (auto simp: name_held_def name_at_def)
    ultimately show ?thesis using seal_fold_ok c seals(4) by simp
  qed
qed

text \<open>What a release takes away: records of the transaction, at the keys of the names.\<close>

definition only_loses :: "(string \<times> string \<Rightarrow> name_record \<Rightarrow> bool) \<Rightarrow> art_ledger \<Rightarrow> art_ledger \<Rightarrow> bool" where
  "only_loses P s s' \<longleftrightarrow> (\<forall>k. map_of (al_names s') k = map_of (al_names s) k
     \<or> map_of (al_names s') k = None \<and> (\<exists>r. map_of (al_names s) k = Some r \<and> P k r))"

lemma only_loses_refl [simp]: "only_loses P s s"
  by (simp add: only_loses_def)

lemma only_loses_trans: "only_loses P s s' \<Longrightarrow> only_loses P s' s'' \<Longrightarrow> only_loses P s s''"
  unfolding only_loses_def by (metis option.simps(3))

lemma only_loses_mono: "only_loses P s s' \<Longrightarrow> (\<And>k r. P k r \<Longrightarrow> Q k r) \<Longrightarrow> only_loses Q s s'"
  unfolding only_loses_def by blast

lemma only_losesD: "only_loses P s s' \<Longrightarrow> map_of (al_names s') k = Some r \<Longrightarrow> map_of (al_names s) k = Some r"
  unfolding only_loses_def by (metis option.simps(3))

lemma delete_provisional_fields:
  "delete_provisional hs en ref s = (res, s') \<Longrightarrow> al_names s' = al_names s \<and> al_commits s' = al_commits s \<and> al_tombs s' = al_tombs s"
  by (auto simp: delete_provisional_def Let_def split: if_splits)

lemma release_names_effect:
  assumes "release_names hs en tx refs ns s = (res, s')"
  shows "al_commits s' = al_commits s \<and> al_tombs s' = al_tombs s
    \<and> only_loses (\<lambda>k r. nr_tx r = tx \<and> k \<in> name_key hs (en_case en) ` set ns) s s'
    \<and> (res = Inr () \<longrightarrow> (\<forall>n\<in>set ns. \<forall>r. map_of (al_names s') (name_key hs (en_case en) n) = Some r \<longrightarrow> nr_tx r \<noteq> tx))"
  using assms
proof (induction ns arbitrary: s)
  case (Cons n ns)
  define s1 where "s1 = (case name_at hs en n s of None \<Rightarrow> s | Some r \<Rightarrow>
    if nr_tx r = tx then s\<lparr>al_names := AList.delete (ledger_key hs en n) (al_names s)\<rparr> else s)"
  let ?k = "name_key hs (en_case en) n" and ?P = "\<lambda>k r. nr_tx r = tx \<and> k \<in> name_key hs (en_case en) ` set (n # ns)"
  have s1: "al_commits s1 = al_commits s \<and> al_tombs s1 = al_tombs s" "only_loses ?P s s1"
    "\<And>r. map_of (al_names s1) ?k = Some r \<Longrightarrow> nr_tx r \<noteq> tx"
    by (auto simp: s1_def only_loses_def name_at_def ledger_key_eq delete_conv' split: option.splits if_splits)
  obtain r2 s2 where d: "(r2 = Inr () \<and> release_names hs en tx refs ns s2 = (res, s') \<or> res = r2 \<and> (\<exists>e. r2 = Inl e) \<and> s' = s2)"
    "al_names s2 = al_names s1" "al_commits s2 = al_commits s1" "al_tombs s2 = al_tombs s1"
  proof (cases "map_of refs n")
    case None
    then show ?thesis using Cons.prems that [of "Inr ()" s1] by (simp add: s1_def [symmetric])
  next
    case (Some ref)
    obtain r2 s2 where d: "delete_provisional hs en ref s1 = (r2, s2)" by fastforce
    then show ?thesis using Cons.prems Some delete_provisional_fields [OF d] that [of r2 s2]
      by (cases r2) (auto simp: s1_def [symmetric])
  qed
  from d(1) show ?case
  proof (elim disjE conjE)
    assume r: "release_names hs en tx refs ns s2 = (res, s')"
    note IH = Cons.IH [OF r]
    have l: "only_loses ?P s2 s'" using IH by (auto elim: only_loses_mono)
    have "only_loses ?P s s2" using s1(2) d(2) by (simp add: only_loses_def)
    then have "only_loses ?P s s'" using l only_loses_trans by blast
    moreover have "nr_tx r \<noteq> tx" if "map_of (al_names s') ?k = Some r" for r
      using only_losesD [OF l that] d(2) s1(3) by simp
    ultimately show ?thesis using IH s1(1) d(3,4) by auto
  next
    assume "s' = s2" "res = r2" "\<exists>e. r2 = Inl e"
    then show ?thesis using s1 d(2-4) by (auto simp: only_loses_def)
  qed
qed auto

lemma lose_ok:
  assumes "ledger_ok hs s" "al_commits s' = al_commits s" "only_loses (\<lambda>k r. nr_tx r = tx) s s'" "commit_at hs tx s = None"
    and "\<And>k. map_of (al_tombs s') k \<noteq> None \<Longrightarrow> map_of (al_tombs s) k \<noteq> None \<or> k = safe_segment hs tx"
  shows "ledger_ok hs s'"
proof -
  have tx: "cm_tx rc \<noteq> tx" if "map_of (al_commits s) k = Some rc" for k rc
    using ledger_okD(2) [OF assms(1) that] that assms(4) by (auto simp: commit_at_def)
  have "owns_names hs rc s'" if "map_of (al_commits s) k = Some rc" for k rc
    using ledger_okD(3) [OF assms(1) that] tx [OF that] assms(3) unfolding owns_names_def only_loses_def by (metis option.inject)
  moreover have "map_of (al_tombs s') k = None" if "map_of (al_commits s) k = Some rc" for k rc
    using assms(4,5) ledger_okD(4) [OF assms(1) that] that by (force simp: commit_at_def)
  ultimately show ?thesis
    using assms(1,2) only_losesD [OF assms(3)] unfolding ledger_ok_def by metis
qed

text \<open>An abort in one step.\<close>

lemma abort_effect:
  assumes "ledger_abort hs en now (\<lambda>x. x) tx0 refs reason names s = (res, s')"
  shows "al_commits s' = al_commits s"
    "only_loses (\<lambda>k r. nr_tx r = py_strip tx0 \<and> py_strip tx0 \<noteq> [] \<and> commit_at hs (py_strip tx0) s = None
       \<and> k \<in> name_key hs (en_case en) ` set (map fst refs @ names)) s s'"
    "map_of (al_tombs s') k \<noteq> None \<Longrightarrow> map_of (al_tombs s) k \<noteq> None \<or> k = safe_segment hs (py_strip tx0) \<and> commit_at hs (py_strip tx0) s = None"
    "res = Inr () \<Longrightarrow> py_strip tx0 \<noteq> [] \<Longrightarrow> n \<in> set (map fst refs @ names) \<Longrightarrow> map_of (al_names s') (name_key hs (en_case en) n) = Some r \<Longrightarrow> nr_tx r \<noteq> py_strip tx0"
    "s' \<noteq> s \<Longrightarrow> commit_at hs (py_strip tx0) s = None"
proof -
  let ?tx = "py_strip tx0"
  let ?goal = "al_commits s' = al_commits s \<and> only_loses (\<lambda>k r. nr_tx r = ?tx \<and> ?tx \<noteq> [] \<and> commit_at hs ?tx s = None
       \<and> k \<in> name_key hs (en_case en) ` set (map fst refs @ names)) s s'
    \<and> (\<forall>k. map_of (al_tombs s') k \<noteq> None \<longrightarrow> map_of (al_tombs s) k \<noteq> None \<or> k = safe_segment hs ?tx \<and> commit_at hs ?tx s = None)
    \<and> (res = Inr () \<longrightarrow> ?tx \<noteq> [] \<longrightarrow> (\<forall>n\<in>set (map fst refs @ names). \<forall>r. map_of (al_names s') (name_key hs (en_case en) n) = Some r \<longrightarrow> nr_tx r \<noteq> ?tx))
    \<and> (s' \<noteq> s \<longrightarrow> commit_at hs ?tx s = None)"
  have ?goal
  proof (cases "?tx = [] \<or> commit_at hs ?tx s \<noteq> None")
    case True
    then show ?thesis using assms by (auto simp: ledger_abort_def Let_def split: if_splits)
  next
    case False
    define s1 where "s1 = (if tomb_at hs ?tx s \<noteq> None then s
      else s\<lparr>al_tombs := AList.update (safe_segment hs ?tx) \<lparr>tb_project = en_project en, tb_case = en_case en, tb_tx = ?tx,
        tb_reason = or_default reason ''aborted'', tb_at = now, tb_names = sort (remdups (map fst refs @ names))\<rparr> (al_tombs s)\<rparr>)"
    have s1: "release_names hs en ?tx refs (remdups (map fst refs @ names)) s1 = (res, s')"
      using assms False by (simp add: ledger_abort_def Let_def s1_def)
    have s2: "al_commits s1 = al_commits s" "al_names s1 = al_names s" by (simp_all add: s1_def)
    have s3: "map_of (al_tombs s) k \<noteq> None \<or> k = safe_segment hs ?tx" if "map_of (al_tombs s1) k \<noteq> None" for k
      using that by (auto simp: s1_def update_conv' split: if_splits)
    from release_names_effect [OF s1] have "al_commits s' = al_commits s" "al_tombs s' = al_tombs s1"
      "only_loses (\<lambda>k r. nr_tx r = ?tx \<and> k \<in> name_key hs (en_case en) ` set (map fst refs @ names)) s s'"
      "res = Inr () \<longrightarrow> (\<forall>n\<in>set (map fst refs @ names). \<forall>r. map_of (al_names s') (name_key hs (en_case en) n) = Some r \<longrightarrow> nr_tx r \<noteq> ?tx)"
      using s2 by (simp_all add: only_loses_def)
    then show ?thesis using False s3 by (auto elim: only_loses_mono)
  qed
  then show "al_commits s' = al_commits s"
    "only_loses (\<lambda>k r. nr_tx r = ?tx \<and> ?tx \<noteq> [] \<and> commit_at hs ?tx s = None
       \<and> k \<in> name_key hs (en_case en) ` set (map fst refs @ names)) s s'"
    "map_of (al_tombs s') k \<noteq> None \<Longrightarrow> map_of (al_tombs s) k \<noteq> None \<or> k = safe_segment hs ?tx \<and> commit_at hs ?tx s = None"
    "res = Inr () \<Longrightarrow> ?tx \<noteq> [] \<Longrightarrow> n \<in> set (map fst refs @ names) \<Longrightarrow> map_of (al_names s') (name_key hs (en_case en) n) = Some r \<Longrightarrow> nr_tx r \<noteq> ?tx"
    "s' \<noteq> s \<Longrightarrow> commit_at hs ?tx s = None"
    by blast+
qed

lemma abort_ok:
  assumes "ledger_ok hs s" "ledger_abort hs en now (\<lambda>x. x) tx0 refs reason names s = (res, s')"
  shows "ledger_ok hs s'"
proof (cases "s' = s")
  case False
  note e = abort_effect [OF assms(2)]
  have "only_loses (\<lambda>k r. nr_tx r = py_strip tx0) s s'" using e(2) by (rule only_loses_mono) simp
  from lose_ok [OF assms(1) e(1) this e(5) [OF False]] e(3) show ?thesis by blast
qed (use assms(1) in simp)

lemma scavenge_loop_ok:
  assumes "ledger_ok hs s" "scavenge_loop hs en c stale rs txs s = (res, s')"
  shows "ledger_ok hs s' \<and> al_commits s' = al_commits s"
  using assms
proof (induction txs arbitrary: s c res)
  case (Cons tx txs)
  let ?names = "map nr_name (filter (\<lambda>r. nr_tx r = tx) rs)"
    and ?refs = "List.map_filter (\<lambda>r. map_option (Pair (nr_name r)) (nr_ref r)) (filter (\<lambda>r. nr_tx r = tx) rs)"
  obtain ra s1 where a: "ledger_abort hs en (c 0) (\<lambda>x. x) tx ?refs ''stale_reservation_scavenged'' ?names s = (ra, s1)" by fastforce
  have s1: "ledger_ok hs s1" "al_commits s1 = al_commits s" using abort_ok [OF Cons.prems(1) a] abort_effect(1) [OF a] by auto
  consider (stop) "s' = s1" | (on) v c' r where "scavenge_loop hs en c' stale rs txs v = (r, s')" "v = s \<or> v = s1"
    using Cons.prems(2) a by (auto simp: Let_def split: if_splits sum.splits prod.splits)
  then show ?case
  proof cases
    case stop
    then show ?thesis using s1 by simp
  next
    case on
    then show ?thesis using Cons.IH [of v c' r] Cons.prems(1) s1 by auto
  qed
qed simp

section \<open>One commit per name\<close>

text \<open>The operations of any number of ledger objects on one directory, and anything that happens to the files.\<close>

datatype ledger_op =
    Reserve ledger_env time string string string int
  | Attach ledger_env string string data_ref
  | Commit ledger_env time "string \<Rightarrow> bool" string "(string \<times> data_ref) list" string int dict
  | Abort ledger_env time string "(string \<times> data_ref) list" string "string list"
  | Scavenge ledger_env clock string int time
  | Files "(string list \<times> string) list"

definition ledger_step :: "digests \<Rightarrow> ledger_op \<Rightarrow> art_ledger \<Rightarrow> art_ledger" where
  "ledger_step hs e s = (case e of
     Reserve en now name tx lease token \<Rightarrow> snd (ledger_reserve hs en now name tx lease token s)
   | Attach en name tx ref \<Rightarrow> snd (attach_provisional hs en name tx ref s)
   | Commit en now fails tx refs lease token md \<Rightarrow> snd (ledger_commit hs en now (\<lambda>x. x) fails tx refs lease token md s)
   | Abort en now tx refs reason names \<Rightarrow> snd (ledger_abort hs en now (\<lambda>x. x) tx refs reason names s)
   | Scavenge en c lease token stale_after \<Rightarrow> snd (ledger_scavenge hs en c lease token stale_after s)
   | Files files \<Rightarrow> s\<lparr>al_files := files\<rparr>)"

lemma ledger_step_ok: "ledger_ok hs s \<Longrightarrow> ledger_ok hs (ledger_step hs e s)"
proof (cases e)
  case (Abort en now tx refs reason names)
  obtain r s' where a: "ledger_abort hs en now (\<lambda>x. x) tx refs reason names s = (r, s')" by fastforce
  then show "ledger_ok hs s \<Longrightarrow> ?thesis" using abort_ok [OF _ a] Abort by (simp add: ledger_step_def)
next
  case (Scavenge en c lease token stale_after)
  obtain r s' where a: "ledger_scavenge hs en c lease token stale_after s = (r, s')" by fastforce
  then show "ledger_ok hs s \<Longrightarrow> ?thesis"
    using scavenge_loop_ok [of hs s] Scavenge by (fastforce simp: ledger_step_def ledger_scavenge_def Let_def)
qed (simp_all add: ledger_step_def reserve_ok attach_ok commit_ok, simp add: ledger_ok_def owns_names_def)

lemma ledger_empty_ok: "ledger_ok hs ledger_empty"
  by (simp add: ledger_ok_def ledger_empty_def)

lemma ledger_run_ok: "ledger_ok hs s \<Longrightarrow> ledger_ok hs (fold (ledger_step hs) es s)"
  by (induction es arbitrary: s) (auto simp: ledger_step_ok)

text \<open>A commit record stays as it was written.\<close>

lemma ledger_step_commits:
  assumes "ledger_ok hs s" "map_of (al_commits s) k = Some rc"
  shows "map_of (al_commits (ledger_step hs e s)) k = Some rc"
proof (cases e)
  case (Reserve en now name tx lease token)
  then show ?thesis using assms(2) by (simp add: ledger_step_def ledger_reserve_def Let_def split: option.splits)
next
  case (Attach en name tx ref)
  then show ?thesis using assms(2) by (simp add: ledger_step_def attach_provisional_def Let_def split: option.splits)
next
  case (Commit en now fails tx refs lease token md)
  then show ?thesis using assms(2)
    by (auto simp: ledger_step_def ledger_commit_def Let_def commit_at_def update_conv' split: option.splits sum.splits)
next
  case (Abort en now tx refs reason names)
  obtain r s' where a: "ledger_abort hs en now (\<lambda>x. x) tx refs reason names s = (r, s')" by fastforce
  then show ?thesis using assms(2) abort_effect(1) [OF a] Abort by (simp add: ledger_step_def)
next
  case (Scavenge en c lease token stale_after)
  obtain r s' where a: "ledger_scavenge hs en c lease token stale_after s = (r, s')" by fastforce
  then show ?thesis using assms scavenge_loop_ok [OF assms(1)] Scavenge
    by (fastforce simp: ledger_step_def ledger_scavenge_def Let_def)
next
  case (Files files)
  then show ?thesis using assms(2) by (simp add: ledger_step_def)
qed

lemma ledger_run_commits:
  "ledger_ok hs s \<Longrightarrow> map_of (al_commits s) k = Some rc \<Longrightarrow> map_of (al_commits (fold (ledger_step hs) es s)) k = Some rc"
  by (induction es arbitrary: s) (auto simp: ledger_step_ok ledger_step_commits)

text \<open>
  C30. Whatever reservations, commits, aborts and scavenging passes the Cases of a Project run perform
  on one publication ledger, each as one step: two commit records that both hold a receipt for the
  same name of the same Case are one and the same, so a name is published by one transaction only; a
  committed transaction is not also aborted; and a commit record is never changed or lost.
\<close>

theorem published_once:
  assumes "s = fold (ledger_step hs) ops ledger_empty"
    and "map_of (al_commits s) k1 = Some rc1" "map_of (al_commits s) k2 = Some rc2"
    and "n \<in> fst ` set (cm_receipts rc1)" "n \<in> fst ` set (cm_receipts rc2)" "cm_case rc1 = cm_case rc2"
  shows "k1 = k2 \<and> rc1 = rc2 \<and> map_of (al_tombs s) k1 = None
    \<and> map_of (al_commits (fold (ledger_step hs) more_ops s)) k1 = Some rc1"
proof -
  have ok: "ledger_ok hs s" using assms(1) by (simp add: ledger_run_ok ledger_empty_ok)
  have "cm_tx rc1 = cm_tx rc2"
    using ledger_okD(3) [OF ok assms(2)] ledger_okD(3) [OF ok assms(3)] assms(4-6) unfolding owns_names_def by (metis option.inject)
  then have "k1 = k2" using ledger_okD(2) [OF ok] assms(2,3) by metis
  then show ?thesis using assms(2,3) ledger_okD(4) [OF ok assms(2)] ledger_run_commits [OF ok assms(2)] by auto
qed

section \<open>Receipts verify\<close>



















section \<open>Scavenging\<close>

definition names_distinct :: "art_ledger \<Rightarrow> bool" where
  "names_distinct s \<longleftrightarrow> distinct (map fst (al_names s))"



lemma names_distinct_tombs [simp]: "names_distinct (s\<lparr>al_tombs := x\<rparr>) = names_distinct s"
  by (simp add: names_distinct_def)















section \<open>Superseded publishers\<close>



section \<open>What is published can be committed\<close>











section \<open>Concrete runs\<close>

definition ex_hs :: digests where
  "ex_hs = \<lparr>sha_json = (\<lambda>d. ''j''), sha_file = (\<lambda>b. ''sha256:0''), hex_digits = (\<lambda>n t. ''h'')\<rparr>"

definition ex_ledger_env :: ledger_env where
  "ex_ledger_env = \<lparr>en_authority = \<lparr>aa_backend = ''filesystem'', aa_root = ''/r'', aa_namespace = ''n'', aa_unsafe = False\<rparr>, en_cwd = [],
     en_project = ''p'', en_case = ''c''\<rparr>"

definition ex_file :: "string list" where
  "ex_file = [''r'', ''n'', ''p'', ''c'', ''a.bin'']"

definition ex_data_ref :: data_ref where
  "ex_data_ref = \<lparr>dr_uri = ''/r/n/p/c/a.bin'', dr_kind = ''artifact'', dr_backend = ''filesystem'', dr_media = [], dr_checksum = ''sha256:0'',
     dr_size = Some 2, dr_meta = [(''artifact_name'', PStr ''a''), (''project_run_id'', PStr ''p''), (''case_run_id'', PStr ''c'')]\<rparr>"

definition ex_before :: "ledger_op list" where
  "ex_before = [Reserve ex_ledger_env 1 ''a'' ''t'' ''l'' 1, Reserve ex_ledger_env 1 ''b'' ''t'' ''l'' 1, Files [(ex_file, ''xy'')], Attach ex_ledger_env ''a'' ''t'' ex_data_ref]"

definition ex_commit :: "(art_ledger \<Rightarrow> art_ledger) \<Rightarrow> (string \<times> publication) list result \<times> art_ledger" where
  "ex_commit others = ledger_commit ex_hs ex_ledger_env 2 others (\<lambda>n. False) ''t'' [(''a'', ex_data_ref)] ''l'' 1 [] (fold (ledger_step ex_hs) ex_before ledger_empty)"


theorem published_once_witness:
  "map_of (al_tombs (fold (ledger_step ex_hs) (ex_before @ [Commit ex_ledger_env 2 (\<lambda>n. False) ''t'' [(''a'', ex_data_ref)] ''l'' 1 []]) ledger_empty)) ''t'' = None"
proof -
  let ?s = "fold (ledger_step ex_hs) (ex_before @ [Commit ex_ledger_env 2 (\<lambda>n. False) ''t'' [(''a'', ex_data_ref)] ''l'' 1 []]) ledger_empty"
  have "case map_of (al_commits ?s) ''t'' of None \<Rightarrow> False | Some rc \<Rightarrow> ''a'' \<in> fst ` set (cm_receipts rc)" by code_simp
  then obtain rc where "map_of (al_commits ?s) ''t'' = Some rc" "''a'' \<in> fst ` set (cm_receipts rc)" by (auto split: option.splits)
  from published_once [OF refl this(1) this(1) this(2) this(2) refl] show ?thesis by blast
qed






text \<open>
  Between the checks of a commit and its seal another process may scavenge: the commit then gives
  receipts of a transaction that is already aborted, and they do not verify, for the file is gone.
\<close>

lemma commit_after_abort:
  "case ex_commit (\<lambda>s. snd (ledger_scavenge ex_hs ex_ledger_env (\<lambda>n. 5) ''l'' 2 60 s)) of (Inr [(n, p)], s) \<Rightarrow>
     commit_at ex_hs ''t'' s \<noteq> None \<and> tomb_at ex_hs ''t'' s \<noteq> None \<and> \<not> ledger_verify ex_hs ex_ledger_env p s | _ \<Rightarrow> False"
  by code_simp

text \<open>A name reserved under a transaction that commits without it stays reserved: no pass frees it and nobody else can have it.\<close>

lemma partial_commit_blocks:
  "let s = snd (ex_commit (\<lambda>x. x)); s1 = snd (ledger_scavenge ex_hs ex_ledger_env (\<lambda>n. 1000000) ''l'' 2 60 s) in
     name_at ex_hs ex_ledger_env ''b'' s1 = name_at ex_hs ex_ledger_env ''b'' s
     \<and> fst (ledger_reserve ex_hs ex_ledger_env 1000001 ''b'' ''u'' ''l'' 2 s1) = Inl PublicationError"
  by code_simp

end
