(* ===== verification/Spec2Isabelle.thy ===== *)
theory Spec2Isabelle
  imports Budget_Properties Dag_Properties Task_Properties Grant_Properties Evaluation_Properties Delegation_Properties
    Cancel_Properties Pipeline_Properties Snapshot_Properties Context_Properties
    Provider_Properties Plugin_Properties Batch Artifact_Properties
begin

text \<open>
  The resource, control, execution, evaluation and context planes of \<open>blackbase\<close>, the Python substrate that optimisation and
  learning frameworks share (\<open>src/src/blackbase\<close>; all paths below are relative to it).

  \<^bold>\<open>The program.\<close> A Project runs Cases. Before a Case runs it gets a \<^emph>\<open>lease\<close> on workers, threads,
  memory and devices from a lease store, with a fencing token that grows with every grant
  (\<open>resources/model.py\<close>, \<open>resources/lease_store.py\<close>). Under a lease it may reserve and spend units
  of shared \<^emph>\<open>budgets\<close> (\<open>resources/budget.py\<close>, \<open>budget_account.py\<close>), hand a bounded budget to a child
  and settle the debt afterwards (\<open>budget_settlement.py\<close>), and split its grant among concurrent
  children (\<open>grant_pool.py\<close>). Work for other processes goes through a \<^emph>\<open>task transport\<close>
  (\<open>resources/transport.py\<close>); the Cases of a stage can depend on each other (\<open>project/dag.py\<close>,
  \<open>project/project_runner.py\<close>). A running Case is told to stop through \<^emph>\<open>cancellation\<close> records
  that form a lineage: a request on a record reaches every descendant (\<open>resources/control.py\<close>,
  \<open>project/execution.py\<close>). Inside a Case a \<^emph>\<open>pipeline\<close> runs operators one after the other, in
  parallel or by a router (\<open>kernel/spec.py\<close>, \<open>kernel/orchestrator.py\<close>, \<open>call_binding.py\<close>); they share
  values through a \<^emph>\<open>context store\<close> and keep large ones as \<^emph>\<open>snapshots\<close>
  (\<open>context/context_store.py\<close>, \<open>context/snapshot_store.py\<close>). \<^emph>\<open>Plugins\<close> are called at the events of
  a run (\<open>plugin/base.py\<close>). A candidate is evaluated, and live state moved on, by a \<^emph>\<open>provider\<close> that
  the registry binds inside the grant of the Case (\<open>evaluation/model.py\<close>, \<open>registry.py\<close>,
  \<open>state_transition.py\<close>, \<open>conformance.py\<close>, \<open>state_ref.py\<close>); of a batch of proposals some may be
  accepted (\<open>contracts/batch.py\<close>). Files a Case hands to others are \<^emph>\<open>artifacts\<close>: published in
  transactions under the lease of the Case and recorded in a ledger (\<open>resources/artifacts.py\<close>). What an evaluation has produced and what was decided about it is
  \<^emph>\<open>evidence\<close>: envelopes (\<open>evaluation/event.py\<close>) and a journal (\<open>evaluation/journal.py\<close>). Lease
  and cancellation stores, transports and journals exist in memory, on SQLite and on Redis, budget
  authorities on SQLite and Redis, context stores in memory and on Redis, snapshot stores in memory,
  on Redis and in files, behind one interface each.

  \<^bold>\<open>The theories\<close>, each on those before it that it needs:

  \<^item> \<open>Prelude\<close>: clock readings, JSON, exceptions as values, SQL tables and dictionaries as lists,
    string operations, and the lemmas on them that everything shares.
  \<^item> \<open>Resource_Model\<close>: requirements, requests, policies, workers and leases with the checks of
    their constructors. \<open>Lease_Store\<close>: the grants a store has issued, as the specification, and the
    locale \<open>lease_store\<close>. \<open>Lease_Memory\<close>, \<open>Lease_SQLite\<close>, \<open>Lease_Redis\<close>: \<open>InMemoryLeaseStore\<close>,
    \<open>SQLiteLeaseStore\<close>, \<open>RedisLeaseStore\<close>, each an interpretation of it. \<open>Allocator\<close>:
    \<open>ResourceAllocator\<close> over any store. \<open>Lease_Properties\<close>: no over-commitment, dead fences stay
    dead, outcomes, isolation of namespaces.
  \<^item> \<open>Budget_Ledger\<close>: reservations, and the ledger that the authorities refine, in the locale
    \<open>budget_authority\<close>. \<open>Budget_SQLite\<close>, \<open>Budget_Redis\<close>: the two authorities, on the state of the
    lease store whose fences they check. \<open>Budget_Properties\<close>: limits, permanence of what was spent,
    fencing across leases and budgets, equivalence of the authorities.
  \<^item> \<open>Dag\<close>: \<open>DagStagePlan\<close> and the topological order. \<open>Dag_Run\<close>: \<open>_execute_dag_stage\<close>, with the
    execution of a wave of Cases as a parameter. \<open>Dag_Properties\<close>.
  \<^item> \<open>Task_Model\<close>: tasks, records and the moves of a task's life. \<open>Task_Transport\<close>: the protocol
    \<open>TaskTransport\<close> as a record of operations, runs, the polling loop and the locale
    \<open>task_transport\<close>. \<open>Task_SQLite\<close>, \<open>Task_Memory\<close>, \<open>Task_Redis\<close>: the transports. \<open>Task_Properties\<close>.
  \<^item> \<open>Resource_Context\<close>: \<open>ResourceContext\<close>. \<open>Grant_Pool\<close>: \<open>ResourceGrantPool\<close>. \<open>Grant_Properties\<close>.
  \<^item> \<open>Wire\<close>: Python values, their equality and conversions, freezing and thawing (\<open>wire.py\<close>).
    \<open>Evaluation_Event\<close>: the envelopes. \<open>Evaluation_Evidence\<close>: the records of the journal and their
    transitions. \<open>Evaluation_Journal\<close>: its methods over an atomic update, the locale
    \<open>evidence_store\<close> and the three backends. \<open>Evaluation_Properties\<close>.
  \<^item> \<open>Budget_Settlement\<close>: the settlement journal. \<open>Budget_Account\<close>: handles, claims and accounts.
    \<open>Delegation_Properties\<close>: properties of both.
  \<^item> \<open>Cancel_Model\<close>: references, states, termination policies, lineages. \<open>Cancel_Store\<close>: the protocol
    \<open>CancellationStore\<close> as a record of operations, the token and the heartbeat over it, the locale
    \<open>cancellation_store\<close>. \<open>Cancel_Memory\<close>, \<open>Cancel_SQLite\<close>, \<open>Cancel_Redis\<close>: its implementations.
    \<open>Case_Control\<close>: identities and controls of Cases and how a child is derived. \<open>Cancel_Properties\<close>.
  \<^item> \<open>Pipeline_Spec\<close>: slots, pipelines, policies and the selection of operators. \<open>Pipeline_Run\<close>: call
    binding, serial, parallel and routed execution. \<open>Pipeline_Fence\<close>: the control of a run and the
    handle that refuses writes of late branches. \<open>Pipeline_Properties\<close>.
  \<^item> \<open>Context_Store\<close>: the two context stores and the map both implement. \<open>Context_Properties\<close>.
    \<open>Snapshot_Model\<close>: snapshots, their specification and its locale. \<open>Snapshot_Memory\<close>,
    \<open>Snapshot_Redis\<close>, \<open>Snapshot_File\<close>: the stores. \<open>Snapshot_Properties\<close>.
  \<^item> \<open>Provider_Model\<close>: references to live state. \<open>Provider_Spec\<close>: what providers and their transition
    methods declare, with the round trips of the declarations. \<open>Provider_Request\<close>: requests,
    bindings and results of evaluations, transitions, materialisations and releases.
    \<open>Provider_Binding\<close>: whether a provider fits a grant and on which device. \<open>Provider_Registry\<close>: the
    registry, the bound operations, the gateway and the copy-on-write certification.
    \<open>Provider_Properties\<close>.
  \<^item> \<open>Plugin_Manager\<close>: registration, order, dispatch and lifecycles. \<open>Plugin_Properties\<close>. \<open>Batch\<close>:
    dispositions of batches, their composition and projection.
  \<^item> \<open>Artifact_Model\<close>: references to data, receipts, bindings, serializers, names of files.
    \<open>Artifact_Ledger\<close>: reservations, commits, aborts and scavenging. \<open>Artifact_Publisher\<close>: the file
    store and the publisher, fenced by the lease stores of \<open>Lease_SQLite\<close> and \<open>Lease_Redis\<close>.
    \<open>Artifact_Properties\<close>.

  \<^bold>\<open>How the code is modelled.\<close> A class is a record of its fields, a method a function from the state
  to its result and the next state, an exception a value of \<open>py_error\<close> by its class. An operation
  under a lock, in a transaction or under the distributed Redis lock is one step; runs interleave
  such steps of several clients. A failed SQLite transaction leaves the tables as they were, a
  failed Redis operation keeps what it had written. Where Redis code relies on WATCH instead
  (the evidence journal, cancellation requests, snapshots), and in the commits and aborts of artifacts,
  a parameter says what other clients
  write between its commands. A write to the file snapshot store is a list of file operations; it
  may stop after any of them. The futures of a parallel slot are rounds: what each wait reports. \<open>c n\<close> is
  the \<open>n\<close>-th reading of the clock in an operation; readings may be apart, and properties that need
  time to advance say so. Floats are rationals. Random identifiers, host names, hashes and the
  code of callers (checkpoints, validators, the executor of a wave, providers, hooks of plugins) are
  parameters; a provider or a hook may change what it is given. Dictionaries
  are association lists in insertion order, SQL tables lists of rows, a Redis set the list of its
  members; JSON text is identified with the value it encodes. Claims of an account are objects in
  a heap, because the code compares them by identity. Strings are ASCII.

  \<^bold>\<open>Loops and bounds.\<close> The topological sort and the DAG loop have termination proofs or fuel: one
  round per Case is enough (\<open>Dag\<close>, \<open>Dag_Run\<close>, C6, C8). \<open>wait_result\<close>, the waiting loop of the grant
  pool, the heartbeat and the collection of futures poll: they take the list of the rounds that
  happen, and the theorems say when they return (C12, \<open>parallel_returns\<close>) and when they never do
  (\<open>grant_pool_can_stall\<close>). The WATCH loops have the code's bound on their attempts; walks along a
  lineage are bounded by the depth the code allows.

  \<^bold>\<open>What the properties show.\<close> C1 and C2 leases, C3 to C5 budgets, C6 to C8 DAG stages, C9 to C12
  tasks, C13 to C16 cancellation, C17 and C18 pipelines, C19 and C20 snapshots, C21 context stores, C22
  subgrants, C23 to C27 providers, C28 plugins, C29 batches, C30 to C34 artifacts, C35 to C38 evidence,
  C39 and C40 delegation. Each has a witness on a
  concrete input when it has hypotheses. Lemmas
  of the property theories show what the code does against its intention: a patch that passes the
  write fence (\<open>patch_passes_fence\<close>), exchanged optimizer slots (\<open>swapped_slots_pass\<close>), receipts of
  an aborted transaction (\<open>commit_after_abort\<close>), an order of
  plugins that a registration discards (\<open>register_drops_order\<close>), interrupts that lose a receipt
  (\<open>interrupt_loses_receipt\<close>), over-commitment by clock skew (\<open>red_clock_skew_overcommits\<close>),
  an in-memory transport that departs from the contract of the others
  (\<open>memory_transport_departs\<close>), a request that waits for ever on an idle pool
  (\<open>grant_pool_can_stall\<close>), a retry refused because frozen lists are tuples (\<open>prepare_again\<close>), a
  delegated limit that leaks (\<open>account_limit_leaks\<close>), cancellation keys and snapshot files that
  collide (\<open>redis_namespaces_collide\<close>, \<open>file_keys_collide\<close>), half a patch (\<open>short_ttl_half_patch\<close>)
  and lost pins (\<open>redis_pin_lost\<close>). The laws proved for one backend have their counterparts for the
  others beside them as lemmas (\<open>red_never_overcommits\<close>, \<open>redis_budget_within_limit\<close>,
  \<open>redis_claim_outcome\<close> and so on).

  \<^bold>\<open>Not modelled\<close>, and why: connection set-up, migrations of old tables and files, serialisation to
  text and the classes that only choose a backend; methods that only copy fields to a dictionary
  where no property needs them; the message texts of exceptions; threads other than as interleaved
  steps. The compute pool and the Case runtime (\<open>resources/pool.py\<close>, \<open>project/invocation.py\<close> and the
  rest of \<open>project/\<close>) start processes and threads around what is modelled; the project tools work
  on files; \<open>types.py\<close> and \<open>abc/\<close> hold arrays and user code, and so do the
  dictionaries of evaluation requests and results.
\<close>

end
